(* ===== verification/Prelude.thy ===== *)
theory Prelude
  imports Main "HOL-Library.Char_ord" "HOL-Library.List_Lexorder"
begin

text \<open>
  Shared vocabulary of the development: C strings and \<open>strcmp\<close>, the value of a
  \<open>char *\<close> variable (null, live, freed), the faults of the C abstract machine that the
  modelled code can run into, and the allocator seen from the code.

  Allocation. \<open>kv_store_malloc\<close> and \<open>malloc\<close> may return \<open>NULL\<close> at any call. An
  operation of the model takes an allocator script, the list of outcomes of the allocations
  still to come (\<open>True\<close>: the call returns memory), and returns what is left of it. The
  exhausted script stands for an allocator that keeps succeeding, so the script \<open>[]\<close> is
  the fault-free run and every finite pattern of failures is some script.
\<close>

section \<open>Collections of facts\<close>

named_theorems engine_simps \<open>unfolding equations of the storage engines' operations\<close>
named_theorems inv_intros \<open>introduction rules: an operation keeps a component's invariant\<close>

section \<open>Pointers, faults and the allocator\<close>

datatype cptr = Null | Str string | Freed
  \<comment> \<open>the value of a \<open>char *\<close>: NULL, a live NUL-terminated string, memory already freed\<close>

datatype fault = NullDeref | UseAfterFree | DoubleFree | OutOfBounds | NilSentinel | AssertFail
  | Uninit | DivByZero | OutOfFuel | Torn
  \<comment> \<open>\<open>Torn\<close>: an update was abandoned half-way and left its data structure inconsistent\<close>

type_synonym script = "bool list"

type_synonym 'a outcome = "fault + 'a"

fun malloc :: "script \<Rightarrow> bool \<times> script" where
  "malloc [] = (True, [])"
| "malloc (b # bs) = (b, bs)"

definition cptr_of :: "string option \<Rightarrow> cptr" where
  "cptr_of v = (case v of None \<Rightarrow> Null | Some s \<Rightarrow> Str s)"

text \<open>Sequencing: a fault of the first computation ends the second.\<close>

definition obind :: "'a outcome \<Rightarrow> ('a \<Rightarrow> 'b outcome) \<Rightarrow> 'b outcome" where
  "obind m f = (case m of Inl e \<Rightarrow> Inl e | Inr x \<Rightarrow> f x)"

lemma obind_simps [simp]: "obind (Inl e) f = Inl e" "obind (Inr x) f = f x"
  by (simp_all add: obind_def)

lemma obind_Inr_iff: "obind m f = Inr y \<longleftrightarrow> (\<exists>x. m = Inr x \<and> f x = Inr y)"
  by (cases m) simp_all

text \<open>\<open>free\<close> of a pointer: freeing freed memory is a fault, freeing \<open>NULL\<close> is allowed.\<close>

definition free_ok :: "cptr \<Rightarrow> bool" where
  "free_ok p \<longleftrightarrow> p \<noteq> Freed"

lemma free_ok_simps [simp]: "free_ok Null" "free_ok (Str s)" "\<not> free_ok Freed"
  by (simp_all add: free_ok_def)

lemma cptr_of_simps [simp]: "cptr_of None = Null" "cptr_of (Some s) = Str s"
  by (simp_all add: cptr_of_def)

lemma cptr_of_eq_iff [simp]:
  "cptr_of v = Null \<longleftrightarrow> v = None" "cptr_of v = Str s \<longleftrightarrow> v = Some s" "cptr_of v \<noteq> Freed"
  by (auto simp: cptr_of_def split: option.splits)

text \<open>Reading the string behind a pointer, and \<open>strdup\<close>, whose result the callers do not check.\<close>

definition read_ptr :: "cptr \<Rightarrow> string option outcome" where
  "read_ptr p = (case p of Null \<Rightarrow> Inr None | Str s \<Rightarrow> Inr (Some s) | Freed \<Rightarrow> Inl UseAfterFree)"

definition strdup :: "script \<Rightarrow> string \<Rightarrow> string option \<times> script" where
  "strdup h s = (let (ok, h1) = malloc h in (if ok then Some s else None, h1))"

lemma read_ptr_cptr_of [simp]: "read_ptr (cptr_of v) = Inr v"
  by (cases v) (simp_all add: read_ptr_def)

lemma read_ptr_simps [simp]:
  "read_ptr Null = Inr None" "read_ptr (Str s) = Inr (Some s)" "read_ptr Freed = Inl UseAfterFree"
  by (simp_all add: read_ptr_def)

lemma strdup_Nil [simp]: "strdup [] s = (Some s, [])"
  by (simp add: strdup_def)

section \<open>Error codes of \<open>kv_error.h\<close>\<close>

abbreviation KV_ERR_NONE :: int where "KV_ERR_NONE \<equiv> 0"
abbreviation KV_ERR_MEM :: int where "KV_ERR_MEM \<equiv> 2"
abbreviation KV_ERR_PARAM :: int where "KV_ERR_PARAM \<equiv> 3"
abbreviation KV_ERR_NOT_FOUND :: int where "KV_ERR_NOT_FOUND \<equiv> 6"
abbreviation KV_ERR_INVALID_PARAM :: int where "KV_ERR_INVALID_PARAM \<equiv> 19"
abbreviation KV_ERR_BUSY :: int where "KV_ERR_BUSY \<equiv> 10"
abbreviation KV_ERR_NOT_SUPPORTED :: int where "KV_ERR_NOT_SUPPORTED \<equiv> 11"

section \<open>C strings\<close>

text \<open>
  \<open>strcmp\<close> compares byte by byte as \<open>unsigned char\<close>; the terminating NUL is below every
  other byte, so a proper prefix is smaller. Only the sign is specified by C; the model
  returns the difference of the first bytes that differ.
\<close>

fun strcmp :: "string \<Rightarrow> string \<Rightarrow> int" where
  "strcmp [] [] = 0"
| "strcmp [] (b # bs) = -1"
| "strcmp (a # as) [] = 1"
| "strcmp (a # as) (b # bs) =
     (if a = b then strcmp as bs else of_char a - of_char b)"

lemma of_char_int_nat: "(of_char a :: int) = int (of_char a)"
  by (simp only: of_nat_of_char)

lemma of_char_less_iff [simp]: "(of_char a :: int) < of_char b \<longleftrightarrow> a < b"
  by (simp only: less_char_def of_char_int_nat of_nat_less_iff)

lemma strcmp_less_iff: "strcmp as bs < 0 \<longleftrightarrow> as < bs"
  by (induction as bs rule: strcmp.induct) auto

lemma strcmp_eq_iff [simp]: "strcmp as bs = 0 \<longleftrightarrow> as = bs"
  by (induction as bs rule: strcmp.induct) auto

lemma strcmp_swap: "strcmp as bs = - strcmp bs as"
  by (induction as bs rule: strcmp.induct) auto

lemma strcmp_greater_iff: "strcmp as bs > 0 \<longleftrightarrow> bs < as"
  using strcmp_less_iff[of bs as] strcmp_swap[of as bs] by linarith

lemma strcmp_refl [simp]: "strcmp as as = 0"
  by simp

text \<open>What \<open>printf\<close> writes for a non-negative number with \<open>%d\<close> or \<open>%lu\<close>.\<close>

definition digit :: "nat \<Rightarrow> char" where
  "digit d = char_of (48 + d)"

fun print_dec :: "nat \<Rightarrow> string" where
  "print_dec n = (if n < 10 then [digit n] else print_dec (n div 10) @ [digit (n mod 10)])"

declare print_dec.simps [simp del]

section \<open>Lists and maps\<close>

lemma map_of_filter_neq:
  "map_of (filter (\<lambda>p. fst p \<noteq> k) ps) = (map_of ps)(k := None)"
  by (induction ps) (auto simp: fun_eq_iff)

text \<open>Sums over the values of a finite map, under an update.\<close>

definition map_sum_of :: "('v \<Rightarrow> 'a :: ab_group_add) \<Rightarrow> ('k \<rightharpoonup> 'v) \<Rightarrow> 'a" where
  "map_sum_of f m = (\<Sum>k \<in> dom m. f (the (m k)))"

lemma map_sum_of_upd:
  assumes "finite (dom m)"
  shows "map_sum_of f (m(k \<mapsto> v)) = map_sum_of f m - (case m k of None \<Rightarrow> 0 | Some w \<Rightarrow> f w) + f v"
proof -
  have "map_sum_of f (m(k \<mapsto> v)) = f v + (\<Sum>x \<in> dom m - {k}. f (the (m x)))"
    using assms unfolding map_sum_of_def dom_fun_upd
    by (simp add: sum.insert_remove cong: sum.cong_simp)
  moreover have "map_sum_of f m = (case m k of None \<Rightarrow> 0 | Some w \<Rightarrow> f w) + (\<Sum>x \<in> dom m - {k}. f (the (m x)))"
  proof (cases "m k")
    case None
    then have "dom m - {k} = dom m" by auto
    with None show ?thesis by (simp add: map_sum_of_def)
  next
    case (Some w)
    then have "k \<in> dom m" by auto
    with Some show ?thesis by (simp add: map_sum_of_def sum.remove[OF assms, of k])
  qed
  ultimately show ?thesis by (simp add: algebra_simps)
qed

lemma dom_fun_upd_None [simp]: "dom (m(k := None)) = dom m - {k}"
  by auto

end
