(* ===== verification/KV_Interface.thy ===== *)
theory KV_Interface
  imports Prelude
begin

text \<open>
  The contract the storage engines share, as a locale. An engine offers \<open>get\<close>, \<open>set\<close>,
  \<open>delete\<close> and \<open>modify\<close> on its state; its clients (the text protocol, the transactions)
  rely on what those do to the finite map the state stands for. The engines differ in two
  points, which are parameters of the contract: whether a \<open>set\<close> of a present key stores the
  new value (\<open>ow\<close>), and whether a \<open>modify\<close> of an absent key inserts it (\<open>mi\<close>); \<open>room\<close> and
  \<open>del_ok\<close> say which writes and deletions an engine accepts.
  Inside the locale: whole sequences of operations never fault and refine the map.
\<close>

datatype kv_op = OpSet string string | OpDel string | OpMod string string

definition spec_set :: "bool \<Rightarrow> (string \<rightharpoonup> string) \<Rightarrow> string \<Rightarrow> string \<Rightarrow> (string \<rightharpoonup> string)" where
  "spec_set ow m k v = (if ow \<or> m k = None then m(k \<mapsto> v) else m)"

definition spec_mod :: "bool \<Rightarrow> (string \<rightharpoonup> string) \<Rightarrow> string \<Rightarrow> string \<Rightarrow> (string \<rightharpoonup> string)" where
  "spec_mod mi m k v = (if mi \<or> m k \<noteq> None then m(k \<mapsto> v) else m)"

fun spec_op :: "bool \<Rightarrow> bool \<Rightarrow> kv_op \<Rightarrow> (string \<rightharpoonup> string) \<Rightarrow> (string \<rightharpoonup> string)" where
  "spec_op ow mi (OpSet k v) m = spec_set ow m k v"
| "spec_op ow mi (OpDel k) m = m(k := None)"
| "spec_op ow mi (OpMod k v) m = spec_mod mi m k v"

locale kv_engine =
  fixes ow mi :: bool
    and inv :: "'s \<Rightarrow> bool"
    and room :: "'s \<Rightarrow> string \<Rightarrow> string \<Rightarrow> bool"
    and del_ok :: "'s \<Rightarrow> string \<Rightarrow> bool"
    and content :: "'s \<Rightarrow> string \<rightharpoonup> string"
    and get :: "'s \<Rightarrow> string \<Rightarrow> cptr outcome"
    and set del' modify' :: "'s \<Rightarrow> string \<Rightarrow> string \<Rightarrow> (int \<times> 's) outcome"
  assumes get_content: "inv s \<Longrightarrow> get s k = Inr (cptr_of (content s k))"
    and set_content: "inv s \<Longrightarrow> room s k v \<Longrightarrow>
      \<exists>r s'. set s k v = Inr (r, s') \<and> inv s' \<and> content s' = spec_set ow (content s) k v"
    and del_content: "inv s \<Longrightarrow> del_ok s k \<Longrightarrow>
      \<exists>r s'. del' s k v = Inr (r, s') \<and> inv s' \<and> content s' = (content s)(k := None)"
    and mod_content: "inv s \<Longrightarrow> room s k v \<Longrightarrow>
      \<exists>r s'. modify' s k v = Inr (r, s') \<and> inv s' \<and> content s' = spec_mod mi (content s) k v"
begin

fun do_op :: "kv_op \<Rightarrow> 's \<Rightarrow> (int \<times> 's) outcome" where
  "do_op (OpSet k v) s = set s k v"
| "do_op (OpDel k) s = del' s k []"
| "do_op (OpMod k v) s = modify' s k v"

fun run :: "kv_op list \<Rightarrow> 's \<Rightarrow> 's outcome" where
  "run [] s = Inr s"
| "run (c # cs) s = (case do_op c s of Inl e \<Rightarrow> Inl e | Inr (r, s') \<Rightarrow> run cs s')"

fun op_ok :: "kv_op \<Rightarrow> 's \<Rightarrow> bool" where
  "op_ok (OpSet k v) s = room s k v"
| "op_ok (OpDel k) s = del_ok s k"
| "op_ok (OpMod k v) s = room s k v"

fun roomy :: "kv_op list \<Rightarrow> 's \<Rightarrow> bool" where
  "roomy [] s = True"
| "roomy (c # cs) s =
     (op_ok c s \<and> (case do_op c s of Inl e \<Rightarrow> False | Inr (r, s') \<Rightarrow> roomy cs s'))"

lemma do_op_content:
  assumes "inv s" and "op_ok c s"
  shows "\<exists>r s'. do_op c s = Inr (r, s') \<and> inv s' \<and> content s' = spec_op ow mi c (content s)"
  using assms set_content mod_content del_content by (cases c) auto

lemma run_content:
  "inv s \<Longrightarrow> roomy cs s \<Longrightarrow>
     \<exists>s'. run cs s = Inr s' \<and> inv s' \<and> content s' = fold (spec_op ow mi) cs (content s)"
proof (induction cs arbitrary: s)
  case Nil
  then show ?case by simp
next
  case (Cons c cs)
  from Cons.prems obtain r s' where s': "do_op c s = Inr (r, s')" "inv s'"
    "content s' = spec_op ow mi c (content s)"
    using do_op_content[of s c] by auto
  with Cons.prems have "roomy cs s'" by simp
  with Cons.IH s' show ?case by fastforce
qed

text \<open>After any such run, a read returns what the map semantics says.\<close>

lemma run_then_get:
  assumes "inv s" and "roomy cs s"
  shows "\<exists>s'. run cs s = Inr s' \<and>
    get s' k = Inr (cptr_of (fold (spec_op ow mi) cs (content s) k))"
  using run_content[OF assms] get_content by fastforce

lemma del_then_get:
  assumes "inv s" and "del_ok s k"
  shows "\<exists>r s'. del' s k v = Inr (r, s') \<and> get s' k = Inr Null"
  using del_content[OF assms, of v] get_content by fastforce

lemma set_fresh_then_get:
  assumes "inv s" and "room s k v" and "content s k = None"
  shows "\<exists>r s'. set s k v = Inr (r, s') \<and> get s' k = Inr (Str v)"
  using set_content[OF assms(1,2)] assms(3) get_content by (fastforce simp: spec_set_def)

end

end
