(* ===== verification/Array_Engine.thy ===== *)
theory Array_Engine
  imports KV_Interface
begin

text \<open>
  The array engine, \<open>src/kvserver/kvstore_array.c\<close>: a table of 1024 slots, the used
  prefix \<open>array_idx\<close>, deleted slots kept as holes inside the prefix. One definition per C
  function; the object pointer is the state itself, so its null check has no counterpart, the
  null checks on \<open>key\<close> and \<open>value\<close> are branches on \<open>None\<close>. The invariant, the
  abstraction to a finite map and the behaviour of every operation follow.
\<close>

section \<open>State and operations\<close>

abbreviation KVS_ARRAY_SIZE :: nat where
  "KVS_ARRAY_SIZE \<equiv> 1024"

record kvs_array_item =
  key :: "string option"
  val :: cptr

record array_t =
  array_table :: "kvs_array_item list option"
  array_idx :: nat

definition empty_item :: kvs_array_item where
  "empty_item = \<lparr>key = None, val = Null\<rparr>"

definition kv_store_array_create :: "script \<Rightarrow> array_t \<Rightarrow> int \<times> array_t \<times> script" where
  "kv_store_array_create h arr =
     (let (ok, h1) = malloc h in
      if \<not> ok then (-1, arr\<lparr>array_table := None\<rparr>, h1)
      else (0, arr\<lparr>array_table := Some (replicate KVS_ARRAY_SIZE empty_item), array_idx := 0\<rparr>, h1))"

definition kv_store_array_destroy :: "array_t \<Rightarrow> array_t outcome" where
  "kv_store_array_destroy arr =
     (case array_table arr of
        None \<Rightarrow> Inr (arr\<lparr>array_idx := 0\<rparr>)
      | Some tab \<Rightarrow>
          if list_all (\<lambda>it. free_ok (val it)) tab
          then Inr (arr\<lparr>array_table := None, array_idx := 0\<rparr>)
          else Inl DoubleFree)"

text \<open>The table the loops read: a null table is only read when \<open>array_idx\<close> is positive.\<close>

definition array_items :: "array_t \<Rightarrow> kvs_array_item list" where
  "array_items arr = take (array_idx arr) (case array_table arr of None \<Rightarrow> [] | Some tab \<Rightarrow> tab)"

text \<open>The search loops: first slot holding the key, first slot whose key is null.\<close>

fun find_slot :: "(kvs_array_item \<Rightarrow> bool) \<Rightarrow> kvs_array_item list \<Rightarrow> nat \<Rightarrow> nat option" where
  "find_slot P [] i = None"
| "find_slot P (it # its) i = (if P it then Some i else find_slot P its (Suc i))"

definition update_slot :: "array_t \<Rightarrow> nat \<Rightarrow> kvs_array_item \<Rightarrow> array_t" where
  "update_slot arr i it =
     arr\<lparr>array_table := map_option (\<lambda>tab. tab[i := it]) (array_table arr)\<rparr>"

definition kvs_array_set ::
  "script \<Rightarrow> array_t \<Rightarrow> string option \<Rightarrow> string option \<Rightarrow> (int \<times> array_t \<times> script) outcome" where
  "kvs_array_set h arr key_p value_p =
     (case (key_p, value_p) of
        (Some k, Some v) \<Rightarrow>
          if array_idx arr = KVS_ARRAY_SIZE then Inr (-1, arr, h)
          else (case find_slot (\<lambda>it. key it = Some k) (array_items arr) 0 of
            Some i \<Rightarrow>
              let it = array_items arr ! i in
              if \<not> free_ok (val it) then Inl DoubleFree
              else (let (ok, h1) = malloc h in
                if \<not> ok then Inr (-1, update_slot arr i (it\<lparr>val := Freed\<rparr>), h1)
                else Inr (0, update_slot arr i (it\<lparr>val := Str v\<rparr>), h1))
          | None \<Rightarrow>
              let empty_slot = find_slot (\<lambda>it. key it = None) (array_items arr) 0;
                  (ok, h1) = malloc h in
              if \<not> ok then Inr (-1, arr, h1)
              else (let (ok2, h2) = malloc h1 in
                if \<not> ok2 then Inr (-1, arr, h2)
                else (let new = \<lparr>key = Some k, val = Str v\<rparr> in
                  case empty_slot of
                    Some i \<Rightarrow> Inr (0, update_slot arr i new, h2)
                  | None \<Rightarrow>
                      if array_table arr = None then Inl NullDeref
                      else Inr (0, (update_slot arr (array_idx arr) new)
                                     \<lparr>array_idx := Suc (array_idx arr)\<rparr>, h2))))
      | _ \<Rightarrow> Inr (-1, arr, h))"

definition kvs_array_get :: "array_t \<Rightarrow> string option \<Rightarrow> cptr" where
  "kvs_array_get arr key_p =
     (case key_p of
        None \<Rightarrow> Null
      | Some k \<Rightarrow>
          (case find_slot (\<lambda>it. key it = Some k) (array_items arr) 0 of
             None \<Rightarrow> Null
           | Some i \<Rightarrow> val (array_items arr ! i)))"

text \<open>The backward scan of \<open>kvs_array_delete\<close>: \<open>last_used its\<close> is \<open>j + 1\<close> at its end.\<close>

fun last_used :: "kvs_array_item list \<Rightarrow> nat" where
  "last_used [] = 0"
| "last_used (it # its) =
     (let n = last_used its in if n = 0 then (if key it = None then 0 else 1) else Suc n)"

definition kvs_array_delete :: "array_t \<Rightarrow> string option \<Rightarrow> (int \<times> array_t) outcome" where
  "kvs_array_delete arr key_p =
     (case key_p of
        None \<Rightarrow> Inr (-1, arr)
      | Some k \<Rightarrow>
          (case find_slot (\<lambda>it. key it = Some k) (array_items arr) 0 of
             None \<Rightarrow> Inr (int (array_idx arr), arr)
           | Some i \<Rightarrow>
               if \<not> free_ok (val (array_items arr ! i)) then Inl DoubleFree
               else let arr1 = update_slot arr i empty_item in
                 if Suc i = array_idx arr
                 then Inr (0, arr1\<lparr>array_idx := last_used (array_items arr1)\<rparr>)
                 else Inr (0, arr1)))"

definition kvs_array_modify ::
  "script \<Rightarrow> array_t \<Rightarrow> string option \<Rightarrow> string option \<Rightarrow> (int \<times> array_t \<times> script) outcome" where
  "kvs_array_modify h arr key_p value_p =
     (case (key_p, value_p) of
        (Some k, Some v) \<Rightarrow>
          (case find_slot (\<lambda>it. key it = Some k) (array_items arr) 0 of
             None \<Rightarrow> Inr (int (array_idx arr), arr, h)
           | Some i \<Rightarrow>
               let it = array_items arr ! i in
               if \<not> free_ok (val it) then Inl DoubleFree
               else (let (ok, h1) = malloc h in
                 if \<not> ok then Inr (-1, update_slot arr i (it\<lparr>val := Freed\<rparr>), h1)
                 else Inr (0, update_slot arr i (it\<lparr>val := Str v\<rparr>), h1)))
      | _ \<Rightarrow> Inr (-1, arr, h))"

definition kvs_array_count :: "array_t \<Rightarrow> int" where
  "kvs_array_count arr = int (length (filter (\<lambda>it. key it \<noteq> None) (array_items arr)))"

text \<open>
  \<open>sizeof(struct kvs_array_item)\<close> is two pointers; \<open>strlen\<close> of a freed value is a fault.
\<close>

definition item_bytes :: "kvs_array_item \<Rightarrow> nat" where
  "item_bytes it =
     (case key it of None \<Rightarrow> 0 | Some k \<Rightarrow> length k + 1) +
     (case val it of Str v \<Rightarrow> length v + 1 | _ \<Rightarrow> 0)"

definition kvs_array_memory_usage :: "array_t \<Rightarrow> nat outcome" where
  "kvs_array_memory_usage arr =
     (if list_ex (\<lambda>it. val it = Freed) (array_items arr) then Inl UseAfterFree
      else Inr (KVS_ARRAY_SIZE * 16 + sum_list (map item_bytes (array_items arr))))"


section \<open>Invariant and abstraction\<close>

definition item_ok :: "kvs_array_item \<Rightarrow> bool" where
  "item_ok it = (case (key it, val it) of (None, Null) \<Rightarrow> True | (Some k, Str v) \<Rightarrow> True | _ \<Rightarrow> False)"

fun pairs :: "kvs_array_item list \<Rightarrow> (string \<times> string) list" where
  "pairs [] = []"
| "pairs (it # its) =
     (case (key it, val it) of (Some k, Str v) \<Rightarrow> (k, v) # pairs its | _ \<Rightarrow> pairs its)"

definition array_inv :: "array_t \<Rightarrow> bool" where
  "array_inv arr =
     (case array_table arr of
        None \<Rightarrow> False
      | Some tab \<Rightarrow> length tab = KVS_ARRAY_SIZE \<and> array_idx arr \<le> KVS_ARRAY_SIZE \<and>
          list_all item_ok (array_items arr) \<and>
          list_all (\<lambda>it. it = empty_item) (drop (array_idx arr) tab) \<and>
          distinct (map fst (pairs (array_items arr))) \<and>
          (array_items arr \<noteq> [] \<longrightarrow> key (last (array_items arr)) \<noteq> None))"

definition array_content :: "array_t \<Rightarrow> string \<rightharpoonup> string" where
  "array_content arr = map_of (pairs (array_items arr))"

lemma item_ok_cases:
  assumes "item_ok it"
  obtains "key it = None" "val it = Null" | k v where "key it = Some k" "val it = Str v"
  using assms by (auto simp: item_ok_def split: option.splits cptr.splits)

lemma item_ok_free_ok [simp]: "item_ok it \<Longrightarrow> free_ok (val it)"
  by (auto elim: item_ok_cases)

lemma item_ok_hole: "item_ok it \<Longrightarrow> key it = None \<Longrightarrow> it = empty_item"
  by (cases it) (auto simp: item_ok_def empty_item_def split: cptr.splits)

lemma pairs_append [simp]: "pairs (xs @ ys) = pairs xs @ pairs ys"
  by (induction xs) (auto split: option.splits cptr.splits)

lemma set_pairs: "(k, v) \<in> set (pairs its) \<longleftrightarrow> (\<exists>it \<in> set its. key it = Some k \<and> val it = Str v)"
  by (induction its) (auto split: option.splits cptr.splits)

lemma key_in_pairs:
  "list_all item_ok its \<Longrightarrow> k \<in> fst ` set (pairs its) \<longleftrightarrow> (\<exists>it \<in> set its. key it = Some k)"
  by (induction its) (auto split: option.splits cptr.splits elim!: item_ok_cases)

lemma find_slot_None: "find_slot P its n = None \<longleftrightarrow> (\<forall>it \<in> set its. \<not> P it)"
  by (induction its arbitrary: n) auto

lemma find_slot_Some:
  "find_slot P its n = Some i \<Longrightarrow>
     \<exists>xs it ys. its = xs @ it # ys \<and> i = n + length xs \<and> P it \<and> (\<forall>x \<in> set xs. \<not> P x)"
proof (induction its arbitrary: n)
  case Nil
  then show ?case by simp
next
  case (Cons a its)
  show ?case
  proof (cases "P a")
    case True
    with Cons.prems show ?thesis by (intro exI[of _ "[]"]) auto
  next
    case False
    with Cons obtain xs it ys where "its = xs @ it # ys" "i = Suc n + length xs" "P it"
      "\<forall>x \<in> set xs. \<not> P x" by fastforce
    with False show ?thesis by (intro exI[of _ "a # xs"]) auto
  qed
qed

lemma find_slot_append:
  "\<forall>x \<in> set xs. \<not> P x \<Longrightarrow> P it \<Longrightarrow> find_slot P (xs @ it # ys) n = Some (n + length xs)"
  by (induction xs arbitrary: n) auto

text \<open>Where the search for a key stops, seen on the used prefix.\<close>

lemma find_key_cases:
  obtains (absent) "find_slot (\<lambda>it. key it = Some k) its 0 = None"
      "\<forall>it \<in> set its. key it \<noteq> Some k"
  | (present) xs it ys where "find_slot (\<lambda>it. key it = Some k) its 0 = Some (length xs)"
      "its = xs @ it # ys" "key it = Some k" "\<forall>x \<in> set xs. key x \<noteq> Some k"
proof (cases "find_slot (\<lambda>it. key it = Some k) its 0")
  case None
  with absent show ?thesis by (simp add: find_slot_None)
next
  case (Some i)
  with find_slot_Some[OF Some] present show ?thesis by auto
qed

lemma array_items_update [simp]:
  "array_items (update_slot arr i it) = (array_items arr)[i := it]"
  by (auto simp: array_items_def update_slot_def take_update_swap split: option.splits)

lemma array_idx_update [simp]: "array_idx (update_slot arr i it) = array_idx arr"
  by (simp add: update_slot_def)

lemma length_array_items: "array_inv arr \<Longrightarrow> length (array_items arr) = array_idx arr"
  by (auto simp: array_inv_def array_items_def split: option.splits)

lemma array_inv_items:
  assumes "array_inv arr"
  shows "list_all item_ok (array_items arr)" "distinct (map fst (pairs (array_items arr)))"
    "array_items arr \<noteq> [] \<Longrightarrow> key (last (array_items arr)) \<noteq> None"
    "array_idx arr \<le> KVS_ARRAY_SIZE" "array_table arr \<noteq> None"
  using assms by (auto simp: array_inv_def split: option.splits)

lemma array_table_update [simp]:
  "array_table (update_slot arr i it) = map_option (\<lambda>tab. tab[i := it]) (array_table arr)"
  by (simp add: update_slot_def)

lemma array_invI:
  assumes "array_table arr = Some tab" "length tab = KVS_ARRAY_SIZE" "array_idx arr \<le> KVS_ARRAY_SIZE"
    "list_all (\<lambda>it. it = empty_item) (drop (array_idx arr) tab)"
    "list_all item_ok (array_items arr)" "distinct (map fst (pairs (array_items arr)))"
    "array_items arr \<noteq> [] \<Longrightarrow> key (last (array_items arr)) \<noteq> None"
  shows "array_inv arr"
  using assms by (simp add: array_inv_def)

text \<open>
  Rewriting one used slot keeps the invariant when the new slot is well formed, brings no key
  that another slot has, and is not a hole at the end of the used prefix.
\<close>

lemma array_inv_update:
  assumes inv: "array_inv arr" and its: "array_items arr = xs @ it # ys" and "item_ok it'"
    and fresh: "\<forall>k. key it' = Some k \<longrightarrow> (\<forall>x \<in> set xs \<union> set ys. key x \<noteq> Some k)"
    and last: "ys = [] \<Longrightarrow> key it' \<noteq> None"
  shows "array_inv (update_slot arr (length xs) it')"
proof -
  from inv obtain tab where tab: "array_table arr = Some tab" "length tab = KVS_ARRAY_SIZE"
    "list_all (\<lambda>it. it = empty_item) (drop (array_idx arr) tab)"
    by (auto simp: array_inv_def split: option.splits)
  have len: "length xs < array_idx arr"
    using length_array_items[OF inv] its by simp
  have ok: "list_all item_ok xs" "list_all item_ok ys"
    using array_inv_items(1)[OF inv] its by auto
  have dist: "distinct (map fst (pairs (xs @ ys)))"
    using array_inv_items(2)[OF inv] unfolding its
    by (auto split: option.splits cptr.splits)
  have "distinct (map fst (pairs (xs @ it' # ys)))"
    using dist fresh \<open>item_ok it'\<close> key_in_pairs[OF ok(1)] key_in_pairs[OF ok(2)]
    by (cases rule: item_ok_cases[OF \<open>item_ok it'\<close>]) auto
  moreover have "key (last (xs @ it' # ys)) \<noteq> None"
    using last array_inv_items(3)[OF inv] its by auto
  moreover have "drop (array_idx arr) (tab[length xs := it']) = drop (array_idx arr) tab"
    using len by simp
  ultimately show ?thesis
    using tab ok its array_inv_items(4)[OF inv] \<open>item_ok it'\<close>
    by (intro array_invI[of _ "tab[length xs := it']"])
      (simp_all add: list_update_append del: pairs.simps)
qed

section \<open>Behaviour of the operations\<close>

lemma array_content_update_hit:
  assumes "array_inv arr" "array_items arr = xs @ it # ys" "key it = Some k" "key it' = Some k"
    "val it' = Str v" "\<forall>x \<in> set xs. key x \<noteq> Some k"
  shows "array_content (update_slot arr (length xs) it') = (array_content arr)(k \<mapsto> v)"
proof -
  have ok: "list_all item_ok (xs @ it # ys)"
    using array_inv_items(1)[OF assms(1)] assms(2) by simp
  have "k \<notin> fst ` set (pairs xs)"
    using key_in_pairs[of xs k] ok assms(6) by auto
  then have "map_of (pairs xs) k = None"
    by (simp add: map_of_eq_None_iff)
  with ok assms(2-5) show ?thesis
    by (auto simp: array_content_def fun_eq_iff map_add_def split: option.splits
        elim!: item_ok_cases)
qed

lemma array_content_absent:
  assumes "array_inv arr" "\<forall>it \<in> set (array_items arr). key it \<noteq> Some k"
  shows "array_content arr k = None"
  using key_in_pairs[OF array_inv_items(1)[OF assms(1)], of k] assms(2)
  by (auto simp: array_content_def map_of_eq_None_iff)

lemma array_content_present:
  assumes "array_inv arr" "array_items arr = xs @ it # ys" "key it = Some k"
    "\<forall>x \<in> set xs. key x \<noteq> Some k"
  shows "\<exists>v. val it = Str v \<and> array_content arr k = Some v"
proof -
  have ok: "list_all item_ok (xs @ it # ys)"
    using array_inv_items(1)[OF assms(1)] assms(2) by simp
  have "k \<notin> fst ` set (pairs xs)"
    using key_in_pairs[of xs k] ok assms(4) by auto
  then have "map_of (pairs xs) k = None"
    by (simp add: map_of_eq_None_iff)
  with ok assms(2,3) show ?thesis
    by (auto simp: array_content_def map_add_def elim!: item_ok_cases)
qed

lemma kvs_array_get_content:
  assumes "array_inv arr"
  shows "kvs_array_get arr (Some k) = cptr_of (array_content arr k)"
proof (cases rule: find_key_cases[of k "array_items arr"])
  case absent
  then show ?thesis
    using array_content_absent[OF assms absent(2)] by (simp add: kvs_array_get_def)
next
  case (present xs it ys)
  then show ?thesis
    using array_content_present[OF assms present(2,3,4)] by (auto simp: kvs_array_get_def)
qed

lemma array_key_unique:
  assumes inv: "array_inv arr" and its: "array_items arr = xs @ it # ys" and "key it = Some k"
  shows "\<forall>x \<in> set xs \<union> set ys. key x \<noteq> Some k"
proof -
  have ok: "list_all item_ok xs" "list_all item_ok ys" "item_ok it"
    using array_inv_items(1)[OF inv] its by auto
  have "k \<notin> fst ` set (pairs xs) \<union> fst ` set (pairs ys)"
    using array_inv_items(2)[OF inv] assms(3) unfolding its
    by (cases rule: item_ok_cases[OF ok(3)]) simp_all
  then show ?thesis
    using key_in_pairs[OF ok(1), of k] key_in_pairs[OF ok(2), of k] by auto
qed

lemma array_content_fill:
  assumes "array_inv arr" "\<forall>it \<in> set (array_items arr). key it \<noteq> Some k"
    "array_items arr = xs @ it # ys" "key it = None"
  shows "array_inv (update_slot arr (length xs) \<lparr>key = Some k, val = Str v\<rparr>)"
    and "array_content (update_slot arr (length xs) \<lparr>key = Some k, val = Str v\<rparr>) =
      (array_content arr)(k \<mapsto> v)"
proof -
  show "array_inv (update_slot arr (length xs) \<lparr>key = Some k, val = Str v\<rparr>)"
    using assms by (intro array_inv_update) (auto simp: item_ok_def)
  have "k \<notin> fst ` set (pairs xs)"
    using key_in_pairs[of xs k] array_inv_items(1)[OF assms(1)] assms(2,3) by auto
  then have "map_of (pairs xs) k = None"
    by (simp add: map_of_eq_None_iff)
  with assms(3,4) show "array_content (update_slot arr (length xs) \<lparr>key = Some k, val = Str v\<rparr>) =
      (array_content arr)(k \<mapsto> v)"
    by (auto simp: array_content_def fun_eq_iff map_add_def split: option.splits)
qed

lemma array_append:
  fixes v :: string
  assumes inv: "array_inv arr" and "\<forall>it \<in> set (array_items arr). key it \<noteq> Some k"
    and lt: "array_idx arr < KVS_ARRAY_SIZE"
  defines "arr' \<equiv> (update_slot arr (array_idx arr) \<lparr>key = Some k, val = Str v\<rparr>)
      \<lparr>array_idx := Suc (array_idx arr)\<rparr>"
  shows "array_inv arr'" and "array_content arr' = (array_content arr)(k \<mapsto> v)"
proof -
  let ?new = "\<lparr>key = Some k, val = Str v\<rparr>"
  from inv obtain tab where tab: "array_table arr = Some tab" "length tab = KVS_ARRAY_SIZE"
    "list_all (\<lambda>it. it = empty_item) (drop (array_idx arr) tab)"
    by (auto simp: array_inv_def split: option.splits)
  have items: "array_items arr' = array_items arr @ [?new]"
    using tab lt by (simp add: arr'_def array_items_def update_slot_def take_Suc_conv_app_nth)
  have "list_all (\<lambda>it. it = empty_item) (drop (Suc (array_idx arr)) tab)"
    using tab(3) by (auto simp: list_all_iff dest: in_set_dropD)
      (metis Suc_n_not_le_n nat_le_linear set_drop_subset_set_drop subsetD)
  then have rest: "list_all (\<lambda>it. it = empty_item) (drop (array_idx arr') (tab[array_idx arr := ?new]))"
    by (simp add: arr'_def)
  have "k \<notin> fst ` set (pairs (array_items arr))"
    using key_in_pairs[OF array_inv_items(1)[OF inv], of k] assms(2) by auto
  then have "k \<notin> dom (map_of (pairs (array_items arr)))"
    by (simp add: dom_map_of_conv_image_fst)
  then show "array_content arr' = (array_content arr)(k \<mapsto> v)"
    by (simp add: array_content_def items map_add_upd_left)
  show "array_inv arr'"
    using tab lt rest array_inv_items[OF inv] \<open>k \<notin> fst ` set (pairs (array_items arr))\<close>
    by (intro array_invI[of _ "tab[array_idx arr := ?new]"])
      (auto simp: items item_ok_def, auto simp: arr'_def)
qed

lemma kvs_array_set_ok:
  assumes inv: "array_inv arr" and lt: "array_idx arr < KVS_ARRAY_SIZE"
  shows "\<exists>arr'. kvs_array_set [] arr (Some k) (Some v) = Inr (0, arr', []) \<and> array_inv arr' \<and>
    array_content arr' = (array_content arr)(k \<mapsto> v)"
proof (cases rule: find_key_cases[of k "array_items arr"])
  case (present xs it ys)
  let ?it = "it\<lparr>val := Str v\<rparr>"
  have "item_ok it"
    using array_inv_items(1)[OF inv] present(2) by simp
  have dis: "\<forall>x \<in> set xs \<union> set ys. key x \<noteq> Some k"
    by (rule array_key_unique[OF inv present(2,3)])
  have "array_inv (update_slot arr (length xs) ?it)"
    using present(3) dis \<open>item_ok it\<close>
    by (intro array_inv_update[OF inv present(2)]) (auto simp: item_ok_def)
  moreover have "array_content (update_slot arr (length xs) ?it) = (array_content arr)(k \<mapsto> v)"
    using present by (intro array_content_update_hit[OF inv present(2,3)]) auto
  ultimately show ?thesis
    using present lt \<open>item_ok it\<close> by (simp add: kvs_array_set_def)
next
  case absent
  note new = absent
  show ?thesis
  proof (cases "find_slot (\<lambda>it. key it = None) (array_items arr) 0")
    case None
    then show ?thesis
      using new lt array_append[OF inv new(2) lt, of v] array_inv_items(5)[OF inv]
      by (simp add: kvs_array_set_def)
  next
    case (Some i)
    with find_slot_Some[OF Some] obtain xs it ys where
      "array_items arr = xs @ it # ys" "i = length xs" "key it = None" by auto
    then show ?thesis
      using new lt Some array_content_fill[OF inv new(2), of xs it ys v]
      by (simp add: kvs_array_set_def)
  qed
qed

lemma last_used_props:
  "last_used its \<le> length its \<and> (\<forall>it \<in> set (drop (last_used its) its). key it = None) \<and>
   (take (last_used its) its \<noteq> [] \<longrightarrow> key (last (take (last_used its) its)) \<noteq> None)"
  by (induction its) (auto simp: Let_def take_Suc_conv_app_nth split: if_splits)

lemma pairs_no_keys: "\<forall>it \<in> set its. key it = None \<Longrightarrow> pairs its = []"
  by (induction its) auto

lemma pairs_take_last_used: "pairs (take (last_used its) its) = pairs its"
proof -
  have "pairs its = pairs (take (last_used its) its) @ pairs (drop (last_used its) its)"
    by (metis append_take_drop_id pairs_append)
  then show ?thesis
    using last_used_props[of its] by (simp add: pairs_no_keys)
qed

text \<open>Dropping the trailing holes of the used prefix keeps the content.\<close>

lemma array_shrink:
  assumes tab: "array_table arr = Some tab" "length tab = KVS_ARRAY_SIZE"
    "array_idx arr \<le> KVS_ARRAY_SIZE" "list_all (\<lambda>it. it = empty_item) (drop (array_idx arr) tab)"
    and ok: "list_all item_ok (array_items arr)" "distinct (map fst (pairs (array_items arr)))"
  defines "arr' \<equiv> arr\<lparr>array_idx := last_used (array_items arr)\<rparr>"
  shows "array_inv arr'" and "pairs (array_items arr') = pairs (array_items arr)"
proof -
  let ?its = "array_items arr" and ?n = "last_used (array_items arr)"
  have le: "?n \<le> array_idx arr"
    using last_used_props[of ?its] tab by (simp add: array_items_def)
  have items: "array_items arr' = take ?n ?its"
    using tab le by (simp add: arr'_def array_items_def min_def)
  then show pairs: "pairs (array_items arr') = pairs ?its"
    by (simp add: pairs_take_last_used)
  have "drop ?n tab = drop ?n ?its @ drop (array_idx arr) tab"
    using tab le by (simp add: array_items_def drop_take)
      (metis append_take_drop_id drop_drop le_add_diff_inverse2)
  moreover have "list_all (\<lambda>it. it = empty_item) (drop ?n ?its)"
  proof -
    have "it = empty_item" if "it \<in> set (drop ?n ?its)" for it
    proof (rule item_ok_hole)
      show "item_ok it" using ok(1) in_set_dropD[OF that] by (simp add: list_all_iff)
      show "key it = None" using that last_used_props[of ?its] by blast
    qed
    then show ?thesis by (simp add: list_all_iff)
  qed
  ultimately have rest: "list_all (\<lambda>it. it = empty_item) (drop ?n tab)"
    using tab(4) by simp
  show "array_inv arr'"
  proof (rule array_invI[of _ tab])
    show "list_all item_ok (array_items arr')"
      using ok(1) by (auto simp: items list_all_iff dest: in_set_takeD)
  qed (use tab le rest ok(2) pairs items last_used_props[of ?its] in \<open>auto simp: arr'_def\<close>)
qed

lemma kvs_array_delete_ok:
  assumes inv: "array_inv arr"
  shows "\<exists>r arr'. kvs_array_delete arr (Some k) = Inr (r, arr') \<and> array_inv arr' \<and>
    array_content arr' = (array_content arr)(k := None) \<and>
    r = (if k \<in> dom (array_content arr) then 0 else int (array_idx arr))"
proof (cases rule: find_key_cases[of k "array_items arr"])
  case absent
  then show ?thesis
    using inv array_content_absent[OF inv absent(2)] by (auto simp: kvs_array_delete_def)
next
  case (present xs it ys)
  from inv obtain tab where tab: "array_table arr = Some tab" "length tab = KVS_ARRAY_SIZE"
    "array_idx arr \<le> KVS_ARRAY_SIZE" "list_all (\<lambda>it. it = empty_item) (drop (array_idx arr) tab)"
    by (auto simp: array_inv_def split: option.splits)
  let ?arr = "update_slot arr (length xs) empty_item"
  have items: "array_items ?arr = xs @ empty_item # ys"
    using present(2) by (simp add: list_update_append)
  have ok: "list_all item_ok (array_items arr)" and "item_ok it"
    using array_inv_items(1)[OF inv] present(2) by auto
  have pairs: "pairs (array_items ?arr) = pairs xs @ pairs ys"
    unfolding items by (simp add: empty_item_def)
  have dist: "distinct (map fst (pairs (array_items ?arr)))"
    using array_inv_items(2)[OF inv] unfolding pairs present(2)
    by (cases rule: item_ok_cases[OF \<open>item_ok it\<close>]) simp_all
  have "k \<notin> dom (map_of (pairs xs))" "k \<notin> dom (map_of (pairs ys))"
    using array_key_unique[OF inv present(2,3)] key_in_pairs[of xs k] key_in_pairs[of ys k] ok
    unfolding present(2) by (auto simp: dom_map_of_conv_image_fst)
  then have content: "map_of (pairs (array_items ?arr)) = (array_content arr)(k := None)"
    using \<open>item_ok it\<close> present(3) unfolding pairs array_content_def present(2)
    by (auto simp: fun_eq_iff map_add_def split: option.splits elim!: item_ok_cases)
  have dom: "k \<in> dom (array_content arr)"
    using array_content_present[OF inv present(2,3,4)] by auto
  have len: "length xs < array_idx arr" "Suc (length xs) = array_idx arr \<longleftrightarrow> ys = []"
    using length_array_items[OF inv] present(2) by (auto simp flip: length_0_conv)
  show ?thesis
  proof (cases "Suc (length xs) = array_idx arr")
    case True
    have tab': "array_table ?arr = Some (tab[length xs := empty_item])"
      "length (tab[length xs := empty_item]) = KVS_ARRAY_SIZE" "array_idx ?arr \<le> KVS_ARRAY_SIZE"
      "list_all (\<lambda>it. it = empty_item) (drop (array_idx ?arr) (tab[length xs := empty_item]))"
      using tab len(1) by simp_all
    have ok': "list_all item_ok (array_items ?arr)"
      using ok unfolding items present(2) by (simp add: item_ok_def empty_item_def)
    note shr = array_shrink[OF tab' ok' dist]
    have "kvs_array_delete arr (Some k) = Inr (0, ?arr\<lparr>array_idx := last_used (array_items ?arr)\<rparr>)"
      using True present \<open>item_ok it\<close> by (simp add: kvs_array_delete_def Let_def)
    with shr content dom show ?thesis
      by (simp add: array_content_def)
  next
    case False
    then have "array_inv ?arr"
      using len by (intro array_inv_update[OF inv present(2)])
        (auto simp: empty_item_def item_ok_def)
    moreover have "kvs_array_delete arr (Some k) = Inr (0, ?arr)"
      using False present \<open>item_ok it\<close> by (simp add: kvs_array_delete_def Let_def)
    ultimately show ?thesis
      using content dom by (simp add: array_content_def)
  qed
qed

lemma kvs_array_modify_ok:
  assumes inv: "array_inv arr"
  shows "\<exists>r arr'. kvs_array_modify [] arr (Some k) (Some v) = Inr (r, arr', []) \<and> array_inv arr' \<and>
    array_content arr' = spec_mod False (array_content arr) k v \<and>
    r = (if k \<in> dom (array_content arr) then 0 else int (array_idx arr))"
proof (cases rule: find_key_cases[of k "array_items arr"])
  case absent
  then show ?thesis
    using inv array_content_absent[OF inv absent(2)]
    by (auto simp: kvs_array_modify_def spec_mod_def)
next
  case (present xs it ys)
  let ?it = "it\<lparr>val := Str v\<rparr>"
  have "item_ok it"
    using array_inv_items(1)[OF inv] present(2) by simp
  have "array_inv (update_slot arr (length xs) ?it)"
    using present(3) array_key_unique[OF inv present(2,3)]
    by (intro array_inv_update[OF inv present(2)]) (auto simp: item_ok_def)
  moreover have "array_content (update_slot arr (length xs) ?it) = (array_content arr)(k \<mapsto> v)"
    using present by (intro array_content_update_hit[OF inv present(2,3)]) auto
  moreover have "k \<in> dom (array_content arr)"
    using array_content_present[OF inv present(2,3,4)] by auto
  ultimately show ?thesis
    using present \<open>item_ok it\<close> by (auto simp: kvs_array_modify_def spec_mod_def)
qed

lemma array_content_empty_iff: "array_inv arr \<Longrightarrow> dom (array_content arr) = {} \<longleftrightarrow> array_idx arr = 0"
proof -
  assume inv: "array_inv arr"
  have "dom (array_content arr) \<noteq> {}" if "array_items arr \<noteq> []"
  proof -
    from that have mem: "last (array_items arr) \<in> set (array_items arr)" by simp
    from array_inv_items(3)[OF inv that] obtain k where "key (last (array_items arr)) = Some k"
      by auto
    with mem key_in_pairs[OF array_inv_items(1)[OF inv], of k]
    have "k \<in> dom (array_content arr)"
      unfolding array_content_def dom_map_of_conv_image_fst by blast
    then show ?thesis by blast
  qed
  then show ?thesis
    unfolding length_array_items[OF inv, symmetric]
    by (cases "array_items arr = []") (auto simp: array_content_def)
qed

lemma length_pairs:
  "list_all item_ok its \<Longrightarrow> length (pairs its) = length (filter (\<lambda>it. key it \<noteq> None) its)"
  by (induction its) (auto elim!: item_ok_cases)

lemma kvs_array_count_content:
  assumes "array_inv arr"
  shows "kvs_array_count arr = int (card (dom (array_content arr)))"
proof -
  have "card (dom (array_content arr)) = length (pairs (array_items arr))"
    using distinct_card[OF array_inv_items(2)[OF assms]]
    by (simp add: array_content_def dom_map_of_conv_image_fst)
  then show ?thesis
    using length_pairs[OF array_inv_items(1)[OF assms]] by (simp add: kvs_array_count_def)
qed

lemma kv_store_array_create_ok:
  "\<exists>arr'. kv_store_array_create [] arr = (0, arr', []) \<and> array_inv arr' \<and> array_content arr' = Map.empty"
  by (auto simp: kv_store_array_create_def array_inv_def array_items_def array_content_def
      list_all_iff)

lemma kv_store_array_destroy_ok:
  assumes "array_inv arr"
  shows "\<exists>arr'. kv_store_array_destroy arr = Inr arr' \<and> array_table arr' = None \<and> array_idx arr' = 0"
proof -
  from assms obtain tab where tab: "array_table arr = Some tab"
    "list_all item_ok (take (array_idx arr) tab)"
    "list_all (\<lambda>it. it = empty_item) (drop (array_idx arr) tab)"
    by (auto simp: array_inv_def array_items_def split: option.splits)
  have "list_all (\<lambda>it. free_ok (val it)) (take (array_idx arr) tab)"
    "list_all (\<lambda>it. free_ok (val it)) (drop (array_idx arr) tab)"
    using tab(2,3) by (auto simp: list_all_iff empty_item_def)
  then have "list_all (\<lambda>it. free_ok (val it)) tab"
    by (metis append_take_drop_id list_all_append)
  with tab(1) show ?thesis
    by (simp add: kv_store_array_destroy_def)
qed

text \<open>The array engine satisfies the contract: it overwrites, and never inserts on modify.\<close>

definition array_get_op :: "array_t \<Rightarrow> string \<Rightarrow> cptr outcome" where
  "array_get_op arr k = Inr (kvs_array_get arr (Some k))"

definition array_set_op :: "array_t \<Rightarrow> string \<Rightarrow> string \<Rightarrow> (int \<times> array_t) outcome" where
  "array_set_op arr k v =
     map_sum id (\<lambda>(r, a, h). (r, a)) (kvs_array_set [] arr (Some k) (Some v))"

definition array_del_op :: "array_t \<Rightarrow> string \<Rightarrow> string \<Rightarrow> (int \<times> array_t) outcome" where
  "array_del_op arr k v = kvs_array_delete arr (Some k)"

definition array_mod_op :: "array_t \<Rightarrow> string \<Rightarrow> string \<Rightarrow> (int \<times> array_t) outcome" where
  "array_mod_op arr k v =
     map_sum id (\<lambda>(r, a, h). (r, a)) (kvs_array_modify [] arr (Some k) (Some v))"

interpretation arr: kv_engine True False array_inv "\<lambda>a k v. array_idx a < KVS_ARRAY_SIZE" "\<lambda>a k. True"
  array_content   array_get_op array_set_op array_del_op array_mod_op
proof unfold_locales
  fix s :: array_t and k v :: string
  assume inv: "array_inv s"
  show "array_get_op s k = Inr (cptr_of (array_content s k))"
    by (simp add: array_get_op_def kvs_array_get_content[OF inv])
  show "\<exists>r s'. array_del_op s k v = Inr (r, s') \<and> array_inv s' \<and>
      array_content s' = (array_content s)(k := None)"
    unfolding array_del_op_def using kvs_array_delete_ok[OF inv, of k] by blast
  show "\<exists>r s'. array_mod_op s k v = Inr (r, s') \<and> array_inv s' \<and>
      array_content s' = spec_mod False (array_content s) k v"
    using kvs_array_modify_ok[OF inv, of k v] by (auto simp: array_mod_op_def)
  assume "array_idx s < KVS_ARRAY_SIZE"
  then show "\<exists>r s'. array_set_op s k v = Inr (r, s') \<and> array_inv s' \<and>
      array_content s' = spec_set True (array_content s) k v"
    using kvs_array_set_ok[OF inv, of k v] by (auto simp: array_set_op_def spec_set_def)
qed

section \<open>Properties\<close>

text \<open>
  C28: from a well-formed array with a free slot, \<open>kvs_array_set\<close> reports success, keeps the
  invariant, and the array then stands for the old map with the key bound to the new value,
  whether the key was present, a hole was reused, or the prefix grew.
\<close>

theorem array_set_refines:
  assumes "array_inv arr" and "array_idx arr < KVS_ARRAY_SIZE"
  shows "\<exists>arr'. kvs_array_set [] arr (Some k) (Some v) = Inr (0, arr', []) \<and> array_inv arr' \<and>
    array_content arr' = (array_content arr)(k \<mapsto> v) \<and>
    kvs_array_get arr' (Some k) = Str v"
proof -
  from kvs_array_set_ok[OF assms] obtain arr' where
    set: "kvs_array_set [] arr (Some k) (Some v) = Inr (0, arr', [])" "array_inv arr'"
      "array_content arr' = (array_content arr)(k \<mapsto> v)" by blast
  with kvs_array_get_content[OF set(2), of k] show ?thesis by simp
qed

definition array_ab :: array_t where
  "array_ab = \<lparr>array_table = Some (\<lparr>key = Some ''a'', val = Str ''1''\<rparr> #
     replicate 1023 empty_item), array_idx = 1\<rparr>"

lemma array_ab_inv: "array_inv array_ab" "array_idx array_ab < KVS_ARRAY_SIZE"
  by (simp_all add: array_ab_def array_inv_def array_items_def item_ok_def list_all_iff)

theorem array_set_refines_witness:
  "\<exists>arr'. kvs_array_set [] array_ab (Some ''b'') (Some ''2'') = Inr (0, arr', []) \<and>
    array_inv arr' \<and> array_content arr' = (array_content array_ab)(''b'' \<mapsto> ''2'') \<and>
    kvs_array_get arr' (Some ''b'') = Str ''2''"
  by (rule array_set_refines[OF array_ab_inv])

text \<open>
  C25: \<open>kvs_array_delete\<close> removes exactly the given key and keeps the invariant (holes at the
  end of the prefix are trimmed); its result is 0 when the key was present, and otherwise the
  used length, which is 0 as well exactly when the array is empty.
\<close>

theorem array_delete_refines:
  assumes "array_inv arr"
  shows "\<exists>r arr'. kvs_array_delete arr (Some k) = Inr (r, arr') \<and> array_inv arr' \<and>
    array_content arr' = (array_content arr)(k := None) \<and>
    (r = 0 \<longleftrightarrow> k \<in> dom (array_content arr) \<or> array_content arr = Map.empty)"
  using kvs_array_delete_ok[OF assms, of k] array_content_empty_iff[OF assms]
  by (auto split: if_splits)

theorem array_delete_refines_witness:
  "\<exists>r arr'. kvs_array_delete array_ab (Some ''a'') = Inr (r, arr') \<and> array_inv arr' \<and>
    array_content arr' = (array_content array_ab)(''a'' := None) \<and>
    (r = 0 \<longleftrightarrow> ''a'' \<in> dom (array_content array_ab) \<or> array_content array_ab = Map.empty)"
  by (rule array_delete_refines[OF array_ab_inv(1)])

text \<open>
  C38: when the allocation of the copy fails while an existing key is overwritten, the old value
  has already been freed: \<open>kvs_array_set\<close> reports -1 and leaves a dangling pointer in the
  slot, which the next \<open>kvs_array_get\<close> hands out.
\<close>

theorem array_set_oom_dangles:
  assumes inv: "array_inv arr" and "array_idx arr < KVS_ARRAY_SIZE" and "k \<in> dom (array_content arr)"
  shows "\<exists>arr'. kvs_array_set (False # h) arr (Some k) (Some v) = Inr (-1, arr', h) \<and>
    kvs_array_get arr' (Some k) = Freed"
proof (cases rule: find_key_cases[of k "array_items arr"])
  case absent
  with array_content_absent[OF inv] assms(3) show ?thesis by auto
next
  case (present xs it ys)
  have "item_ok it"
    using array_inv_items(1)[OF inv] present(2) by simp
  with present assms(2) show ?thesis
    by (simp add: kvs_array_set_def kvs_array_get_def list_update_append find_slot_append)
qed

theorem array_set_oom_dangles_witness:
  "\<exists>arr'. kvs_array_set [False] array_ab (Some ''a'') (Some ''2'') = Inr (-1, arr', []) \<and>
    kvs_array_get arr' (Some ''a'') = Freed"
  by (rule array_set_oom_dangles[OF array_ab_inv])
    (simp add: array_ab_def array_content_def array_items_def)

end
