(* ===== verification/RBT_Core.thy ===== *)
theory RBT_Core
  imports Prelude "HOL-Library.Monad_Syntax"
begin

text \<open>
  The red-black tree machinery of \<open>src/kvserver/kvstore_rbtree.c\<close>, which
  \<open>rbtree_adapter.c\<close> and \<open>lsm_memtable.c\<close> repeat statement by statement: rotations,
  the insertion and deletion fix-up loops, minimum and successor.

  Representation. The C nodes are linked downwards and through \<open>parent\<close>; the sentinel
  \<open>nil\<close> stands for every leaf and for the root's parent. A node position of the C code is
  here a subtree together with the path to the root (innermost frame first): \<open>z->parent\<close> is
  the first frame, \<open>z == z->parent->left\<close> is its constructor, \<open>z->parent->parent\<close> is the
  second frame, the empty path is \<open>parent == nil\<close>. A loop that moves \<open>z\<close> upwards consumes
  the path. Rewiring the parent's link after a rotation is plugging the rotated subtree back.

  The links of the sentinel are never initialised by the C code, so reading them is not
  defined: the loops return \<open>None\<close> there. The theorems show that this never happens from a
  red-black tree.
\<close>

section \<open>Trees and positions\<close>

datatype color = RED | BLACK

datatype 'a rbtree_node = RNil | RNode color "'a rbtree_node" 'a "'a rbtree_node"

datatype 'a frame =
    LeftOf color 'a "'a rbtree_node"   \<comment> \<open>we are the left child; colour, payload, right sibling\<close>
  | RightOf color "'a rbtree_node" 'a  \<comment> \<open>we are the right child; colour, left sibling, payload\<close>

type_synonym 'a path = "'a frame list"

fun ncolor :: "'a rbtree_node \<Rightarrow> color" where
  "ncolor RNil = BLACK"
| "ncolor (RNode c l a r) = c"

fun fcolor :: "'a frame \<Rightarrow> color" where
  "fcolor (LeftOf c a r) = c"
| "fcolor (RightOf c l a) = c"

fun paint :: "color \<Rightarrow> 'a rbtree_node \<Rightarrow> 'a rbtree_node" where
  "paint c RNil = RNil"
| "paint c (RNode c' l a r) = RNode c l a r"

fun fill :: "'a frame \<Rightarrow> 'a rbtree_node \<Rightarrow> 'a rbtree_node" where
  "fill (LeftOf c a r) t = RNode c t a r"
| "fill (RightOf c l a) t = RNode c l a t"

fun plug :: "'a rbtree_node \<Rightarrow> 'a path \<Rightarrow> 'a rbtree_node" where
  "plug t [] = t"
| "plug t (f # p) = plug (fill f t) p"

fun is_right :: "'a frame \<Rightarrow> bool" where
  "is_right (LeftOf c a r) = False"
| "is_right (RightOf c l a) = True"

section \<open>Rotations, minimum, successor\<close>

fun rbtree_left_rotate :: "'a rbtree_node \<Rightarrow> 'a rbtree_node option" where
  "rbtree_left_rotate (RNode cx xl x (RNode cy yl y yr)) =
     Some (RNode cy (RNode cx xl x yl) y yr)"
| "rbtree_left_rotate _ = None"

fun rbtree_right_rotate :: "'a rbtree_node \<Rightarrow> 'a rbtree_node option" where
  "rbtree_right_rotate (RNode cy (RNode cx xl x xr) y yr) =
     Some (RNode cx xl x (RNode cy xr y yr))"
| "rbtree_right_rotate _ = None"

fun rbtree_mini :: "'a rbtree_node \<Rightarrow> 'a path \<Rightarrow> 'a rbtree_node \<times> 'a path" where
  "rbtree_mini (RNode c (RNode lc ll la lr) a r) p = rbtree_mini (RNode lc ll la lr) (LeftOf c a r # p)"
| "rbtree_mini t p = (t, p)"

fun rbtree_maxi :: "'a rbtree_node \<Rightarrow> 'a path \<Rightarrow> 'a rbtree_node \<times> 'a path" where
  "rbtree_maxi (RNode c l a (RNode rc rl ra rr)) p = rbtree_maxi (RNode rc rl ra rr) (RightOf c l a # p)"
| "rbtree_maxi t p = (t, p)"

text \<open>The upward loop of \<open>rbtree_successor\<close>; \<open>None\<close> is the sentinel.\<close>

fun climb :: "'a rbtree_node \<Rightarrow> 'a path \<Rightarrow> ('a rbtree_node \<times> 'a path) option" where
  "climb x [] = None"
| "climb x (LeftOf c a r # p) = Some (RNode c x a r, p)"
| "climb x (RightOf c l a # p) = climb (RNode c l a x) p"

fun rbtree_successor :: "'a rbtree_node \<Rightarrow> 'a path \<Rightarrow> ('a rbtree_node \<times> 'a path) option" where
  "rbtree_successor (RNode c l a (RNode rc rl ra rr)) p =
     Some (rbtree_mini (RNode rc rl ra rr) (RightOf c l a # p))"
| "rbtree_successor x p = climb x p"

section \<open>The insertion fix-up loop\<close>

fun rbtree_insert_fixup :: "'a rbtree_node \<Rightarrow> 'a path \<Rightarrow> 'a rbtree_node option" where
  "rbtree_insert_fixup z [] = Some (paint BLACK z)"
| "rbtree_insert_fixup z [f] =
     (if fcolor f = BLACK then Some (paint BLACK (plug z [f])) else None)"
| "rbtree_insert_fixup z (f # LeftOf gc g y # p) =
     (if fcolor f = BLACK then Some (paint BLACK (plug z (f # LeftOf gc g y # p)))
      else if ncolor y = RED then
        rbtree_insert_fixup (RNode RED (paint BLACK (fill f z)) g (paint BLACK y)) p
      else do {
        pt \<leftarrow> (if is_right f then rbtree_left_rotate (fill f z) else Some (fill f z));
        gt \<leftarrow> rbtree_right_rotate (RNode RED (paint BLACK pt) g y);
        Some (paint BLACK (plug gt p)) })"
| "rbtree_insert_fixup z (f # RightOf gc y g # p) =
     (if fcolor f = BLACK then Some (paint BLACK (plug z (f # RightOf gc y g # p)))
      else if ncolor y = RED then
        rbtree_insert_fixup (RNode RED (paint BLACK y) g (paint BLACK (fill f z))) p
      else do {
        pt \<leftarrow> (if is_right f then Some (fill f z) else rbtree_right_rotate (fill f z));
        gt \<leftarrow> rbtree_left_rotate (RNode RED y g (paint BLACK pt));
        Some (paint BLACK (plug gt p)) })"

section \<open>The deletion fix-up loop\<close>

text \<open>
  One iteration with \<open>x\<close> on the left works on the parent's colour and payload, the sibling
  \<open>w\<close> and the path above. \<open>red_sibling_left\<close> is the block \<open>if (w->color == RED)\<close>:
  recolour, rotate the parent, take the new sibling; the rotated \<open>w\<close> becomes a frame.
\<close>

fun red_sibling_left ::
  "color \<Rightarrow> 'a \<Rightarrow> 'a rbtree_node \<Rightarrow> 'a path \<Rightarrow> color \<times> 'a rbtree_node \<times> 'a path" where
  "red_sibling_left c a (RNode RED wl b wr) p = (RED, wl, LeftOf BLACK b wr # p)"
| "red_sibling_left c a w p = (c, w, p)"

fun red_sibling_right ::
  "color \<Rightarrow> 'a \<Rightarrow> 'a rbtree_node \<Rightarrow> 'a path \<Rightarrow> color \<times> 'a rbtree_node \<times> 'a path" where
  "red_sibling_right c a (RNode RED wl b wr) p = (RED, wr, RightOf BLACK wl b # p)"
| "red_sibling_right c a w p = (c, w, p)"

text \<open>The last block of an iteration: make the outer nephew red if it is not, rotate the parent.\<close>

definition nephew_left :: "color \<Rightarrow> 'a rbtree_node \<Rightarrow> 'a \<Rightarrow> 'a rbtree_node \<Rightarrow> 'a rbtree_node option" where
  "nephew_left c x a w =
     (case w of
        RNil \<Rightarrow> None
      | RNode wc wl b wr \<Rightarrow> do {
          w1 \<leftarrow> (if ncolor wr = BLACK then rbtree_right_rotate (RNode RED (paint BLACK wl) b wr)
                else Some w);
          case w1 of
            RNil \<Rightarrow> None
          | RNode wc1 wl1 b1 wr1 \<Rightarrow>
              rbtree_left_rotate (RNode BLACK x a (RNode c wl1 b1 (paint BLACK wr1))) })"

definition nephew_right :: "color \<Rightarrow> 'a rbtree_node \<Rightarrow> 'a \<Rightarrow> 'a rbtree_node \<Rightarrow> 'a rbtree_node option" where
  "nephew_right c w a x =
     (case w of
        RNil \<Rightarrow> None
      | RNode wc wl b wr \<Rightarrow> do {
          w1 \<leftarrow> (if ncolor wl = BLACK then rbtree_left_rotate (RNode RED wl b (paint BLACK wr))
                else Some w);
          case w1 of
            RNil \<Rightarrow> None
          | RNode wc1 wl1 b1 wr1 \<Rightarrow>
              rbtree_right_rotate (RNode BLACK (RNode c (paint BLACK wl1) b1 wr1) a x) })"

fun both_black :: "'a rbtree_node \<Rightarrow> bool" where
  "both_black RNil = False"
| "both_black (RNode c l a r) = (ncolor l = BLACK \<and> ncolor r = BLACK)"

lemma red_sibling_left_cases:
  "red_sibling_left c a w p = (c1, w1, p1) \<Longrightarrow>
     (ncolor w = BLACK \<and> c1 = c \<and> w1 = w \<and> p1 = p) \<or>
     (\<exists>b wr. w = RNode RED w1 b wr \<and> c1 = RED \<and> p1 = LeftOf BLACK b wr # p)"
  by (cases "(c, a, w, p)" rule: red_sibling_left.cases) auto

lemma red_sibling_right_cases:
  "red_sibling_right c a w p = (c1, w1, p1) \<Longrightarrow>
     (ncolor w = BLACK \<and> c1 = c \<and> w1 = w \<and> p1 = p) \<or>
     (\<exists>wl b. w = RNode RED wl b w1 \<and> c1 = RED \<and> p1 = RightOf BLACK wl b # p)"
  by (cases "(c, a, w, p)" rule: red_sibling_right.cases) auto

text \<open>
  Termination: an iteration either shortens the path or keeps its length and hands over a red
  node, at which the loop stops.
\<close>

function (sequential) rbtree_delete_fixup :: "'a rbtree_node \<Rightarrow> 'a path \<Rightarrow> 'a rbtree_node option" where
  "rbtree_delete_fixup x [] = Some (paint BLACK x)"
| "rbtree_delete_fixup x (LeftOf c a w # p) =
     (if ncolor x \<noteq> BLACK then Some (plug (paint BLACK x) (LeftOf c a w # p))
      else (case red_sibling_left c a w p of (c1, w1, p1) \<Rightarrow>
        if both_black w1 then rbtree_delete_fixup (RNode c1 x a (paint RED w1)) p1
        else do { s \<leftarrow> nephew_left c1 x a w1; Some (paint BLACK (plug s p1)) }))"
| "rbtree_delete_fixup x (RightOf c w a # p) =
     (if ncolor x \<noteq> BLACK then Some (plug (paint BLACK x) (RightOf c w a # p))
      else (case red_sibling_right c a w p of (c1, w1, p1) \<Rightarrow>
        if both_black w1 then rbtree_delete_fixup (RNode c1 (paint RED w1) a x) p1
        else do { s \<leftarrow> nephew_right c1 w1 a x; Some (paint BLACK (plug s p1)) }))"
  by pat_completeness auto

termination
  by (relation "measure (\<lambda>(x, p). 2 * length p + (if ncolor x = BLACK then 1 else 0))")
    (auto dest!: red_sibling_left_cases red_sibling_right_cases sym[of "(_, _, _)"])

section \<open>Deleting at a position\<close>

text \<open>
  \<open>rbtree_delete\<close>: splice out \<open>z\<close> itself or its successor \<open>y\<close>; in the latter case the
  payloads are swapped, so the returned node carries \<open>z\<close>'s payload.
\<close>

fun rbtree_delete :: "'a rbtree_node \<Rightarrow> 'a path \<Rightarrow> ('a rbtree_node \<times> 'a) option" where
  "rbtree_delete RNil p = None"
| "rbtree_delete (RNode c l a r) p =
     (if l = RNil \<or> r = RNil then
        (let x = (if l \<noteq> RNil then l else r) in do {
           t \<leftarrow> (if c = BLACK then rbtree_delete_fixup x p else Some (plug x p));
           Some (t, a) })
      else
        (case rbtree_mini r [] of
           (RNode yc yl b yr, q) \<Rightarrow>
             (let x = (if yl \<noteq> RNil then yl else yr); p' = q @ RightOf c l b # p in do {
                t \<leftarrow> (if yc = BLACK then rbtree_delete_fixup x p' else Some (plug x p'));
                Some (t, a) })
         | (RNil, q) \<Rightarrow> None))"

section \<open>The in-order sequence\<close>

fun inorder :: "'a rbtree_node \<Rightarrow> 'a list" where
  "inorder RNil = []"
| "inorder (RNode c l a r) = inorder l @ a # inorder r"

fun before :: "'a path \<Rightarrow> 'a list" where
  "before [] = []"
| "before (LeftOf c a r # p) = before p"
| "before (RightOf c l a # p) = before p @ inorder l @ [a]"

fun after :: "'a path \<Rightarrow> 'a list" where
  "after [] = []"
| "after (LeftOf c a r # p) = a # inorder r @ after p"
| "after (RightOf c l a # p) = after p"

lemma inorder_paint [simp]: "inorder (paint c t) = inorder t"
  by (cases t) auto

lemma inorder_fill [simp]:
  "before p @ inorder (fill f t) @ after p = before (f # p) @ inorder t @ after (f # p)"
  by (cases f) auto

lemma inorder_plug [simp]: "inorder (plug t p) = before p @ inorder t @ after p"
  by (induction p arbitrary: t) (simp, simp del: before.simps after.simps)

lemma before_append [simp]: "before (q @ p) = before p @ before q"
  by (induction q rule: before.induct) auto

lemma after_append [simp]: "after (q @ p) = after q @ after p"
  by (induction q rule: after.induct) auto

lemma plug_append [simp]: "plug t (q @ p) = plug (plug t q) p"
  by (induction q arbitrary: t) auto

lemma inorder_left_rotate: "rbtree_left_rotate t = Some t' \<Longrightarrow> inorder t' = inorder t"
  by (cases t rule: rbtree_left_rotate.cases) auto

lemma inorder_right_rotate: "rbtree_right_rotate t = Some t' \<Longrightarrow> inorder t' = inorder t"
  by (cases t rule: rbtree_right_rotate.cases) auto

lemma bind_Some_iff: "(Option.bind m f = Some y) \<longleftrightarrow> (\<exists>x. m = Some x \<and> f x = Some y)"
  by (cases m) auto

lemma inorder_insert_fixup:
  "rbtree_insert_fixup z p = Some t \<Longrightarrow> inorder t = before p @ inorder z @ after p"
proof (induction z p rule: rbtree_insert_fixup.induct)
  case (1 z)
  then show ?case by auto
next
  case (2 z f)
  then show ?case by (cases f) (auto split: if_splits)
next
  case (3 z f gc g y p)
  then show ?case
    by (cases f) (auto simp: bind_Some_iff split: if_splits
        dest!: inorder_left_rotate inorder_right_rotate)
next
  case (4 z f gc y g p)
  then show ?case
    by (cases f) (auto simp: bind_Some_iff split: if_splits
        dest!: inorder_left_rotate inorder_right_rotate)
qed

text \<open>The last block of an iteration, case by case.\<close>

lemma nephew_left_simps [simp]:
  "nephew_left c x a RNil = None"
  "ncolor wr \<noteq> BLACK \<Longrightarrow>
     nephew_left c x a (RNode wc wl b wr) = Some (RNode c (RNode BLACK x a wl) b (paint BLACK wr))"
  "ncolor wr = BLACK \<Longrightarrow> nephew_left c x a (RNode wc RNil b wr) = None"
  "ncolor wr = BLACK \<Longrightarrow> nephew_left c x a (RNode wc (RNode lc ll d lr) b wr) =
     Some (RNode c (RNode BLACK x a ll) d (RNode BLACK lr b wr))"
  by (simp_all add: nephew_left_def)

lemma nephew_right_simps [simp]:
  "nephew_right c RNil a x = None"
  "ncolor wl \<noteq> BLACK \<Longrightarrow>
     nephew_right c (RNode wc wl b wr) a x = Some (RNode c (paint BLACK wl) b (RNode BLACK wr a x))"
  "ncolor wl = BLACK \<Longrightarrow> nephew_right c (RNode wc wl b RNil) a x = None"
  "ncolor wl = BLACK \<Longrightarrow> nephew_right c (RNode wc wl b (RNode rc rl d rr)) a x =
     Some (RNode c (RNode BLACK wl b rl) d (RNode BLACK rr a x))"
  by (simp_all add: nephew_right_def)

lemma nephew_left_cases:
  assumes "nephew_left c x a w = Some t"
  obtains (outer) wc wl b wr where "w = RNode wc wl b wr" "ncolor wr \<noteq> BLACK"
      "t = RNode c (RNode BLACK x a wl) b (paint BLACK wr)"
  | (inner) wc lc ll d lr b wr where "w = RNode wc (RNode lc ll d lr) b wr" "ncolor wr = BLACK"
      "t = RNode c (RNode BLACK x a ll) d (RNode BLACK lr b wr)"
proof (cases w)
  case RNil
  with assms show ?thesis by simp
next
  case (RNode wc wl b wr)
  with assms outer inner show ?thesis
    by (cases "ncolor wr = BLACK"; cases wl) auto
qed

lemma nephew_right_cases:
  assumes "nephew_right c w a x = Some t"
  obtains (outer) wc wl b wr where "w = RNode wc wl b wr" "ncolor wl \<noteq> BLACK"
      "t = RNode c (paint BLACK wl) b (RNode BLACK wr a x)"
  | (inner) wc wl b rc rl d rr where "w = RNode wc wl b (RNode rc rl d rr)" "ncolor wl = BLACK"
      "t = RNode c (RNode BLACK wl b rl) d (RNode BLACK rr a x)"
proof (cases w)
  case RNil
  with assms show ?thesis by simp
next
  case (RNode wc wl b wr)
  with assms outer inner show ?thesis
    by (cases "ncolor wl = BLACK"; cases wr) auto
qed

lemma inorder_nephew_left:
  "nephew_left c x a w = Some t \<Longrightarrow> inorder t = inorder x @ a # inorder w"
  by (auto elim!: nephew_left_cases)

lemma inorder_nephew_right:
  "nephew_right c w a x = Some t \<Longrightarrow> inorder t = inorder w @ a # inorder x"
  by (auto elim!: nephew_right_cases)

lemma inorder_delete_fixup:
  "rbtree_delete_fixup x p = Some t \<Longrightarrow> inorder t = before p @ inorder x @ after p"
proof (induction x p rule: rbtree_delete_fixup.induct)
  case (1 x)
  then show ?case by auto
next
  case (2 x c a w p)
  then show ?case
    by (auto simp: bind_Some_iff split: if_splits prod.splits
        dest!: inorder_nephew_left red_sibling_left_cases)
next
  case (3 x c w a p)
  then show ?case
    by (auto simp: bind_Some_iff split: if_splits prod.splits
        dest!: inorder_nephew_right red_sibling_right_cases)
qed

lemma rbtree_mini_props:
  assumes "rbtree_mini t p = (t', p')"
  shows "plug t' p' = plug t p" and "t \<noteq> RNil \<Longrightarrow> \<exists>c a r. t' = RNode c RNil a r"
    and "before p' = before p"
  using assms by (induction t p arbitrary: t' p' rule: rbtree_mini.induct) auto

lemma rbtree_mini_append:
  "rbtree_mini t (p @ q) = (case rbtree_mini t p of (t', p') \<Rightarrow> (t', p' @ q))"
  by (induction t p rule: rbtree_mini.induct) auto

lemma inorder_rbtree_delete:
  assumes "rbtree_delete (RNode c l a r) p = Some (t, d)"
  shows "d = a" and "inorder t = before p @ inorder l @ inorder r @ after p"
proof -
  show "d = a"
    using assms by (auto simp: bind_Some_iff Let_def split: if_splits prod.splits rbtree_node.splits)
  obtain y q where m: "rbtree_mini r [] = (y, q)" by fastforce
  show "inorder t = before p @ inorder l @ inorder r @ after p"
  proof (cases "l = RNil \<or> r = RNil")
    case True
    with assms show ?thesis
      by (auto simp: bind_Some_iff Let_def split: if_splits dest!: inorder_delete_fixup)
  next
    case False
    then obtain yc b yr where y: "y = RNode yc RNil b yr"
      using rbtree_mini_props(2)[OF m] by auto
    have "inorder r = b # inorder yr @ after q" "before q = []"
      using rbtree_mini_props(1,3)[OF m] arg_cong[of "plug y q" "plug r []" inorder] y by auto
    with False assms m y show ?thesis
      by (auto simp: bind_Some_iff Let_def split: if_splits dest!: inorder_delete_fixup)
  qed
qed

section \<open>Red-black invariants\<close>

abbreviation blk :: "color \<Rightarrow> nat" where
  "blk c \<equiv> (if c = BLACK then 1 else 0)"

fun bheight :: "'a rbtree_node \<Rightarrow> nat" where
  "bheight RNil = 0"
| "bheight (RNode c l a r) = bheight l + blk c"

fun invc :: "'a rbtree_node \<Rightarrow> bool" where
  "invc RNil = True"
| "invc (RNode c l a r) =
     ((c = RED \<longrightarrow> ncolor l = BLACK \<and> ncolor r = BLACK) \<and> invc l \<and> invc r)"

fun invh :: "'a rbtree_node \<Rightarrow> bool" where
  "invh RNil = True"
| "invh (RNode c l a r) = (bheight l = bheight r \<and> invh l \<and> invh r)"

definition rbt :: "'a rbtree_node \<Rightarrow> bool" where
  "rbt t \<longleftrightarrow> invc t \<and> invh t \<and> ncolor t = BLACK"

text \<open>The same invariants for a path, relative to what may stand in its hole.\<close>

fun sibling :: "'a frame \<Rightarrow> 'a rbtree_node" where
  "sibling (LeftOf c a r) = r"
| "sibling (RightOf c l a) = l"

fun topc :: "'a path \<Rightarrow> color" where
  "topc [] = BLACK"
| "topc (f # p) = fcolor f"

fun pathc :: "'a path \<Rightarrow> bool" where
  "pathc [] = True"
| "pathc (f # p) =
     (invc (sibling f) \<and> (fcolor f = RED \<longrightarrow> ncolor (sibling f) = BLACK \<and> topc p = BLACK) \<and> pathc p)"

fun pathh :: "'a path \<Rightarrow> nat \<Rightarrow> bool" where
  "pathh [] h = True"
| "pathh (f # p) h = (invh (sibling f) \<and> bheight (sibling f) = h \<and> pathh p (h + blk (fcolor f)))"

fun rootc :: "'a path \<Rightarrow> color \<Rightarrow> color" where
  "rootc [] c = c"
| "rootc (f # p) c = rootc p (fcolor f)"

lemma neq_color [simp]: "c \<noteq> BLACK \<longleftrightarrow> c = RED" "c \<noteq> RED \<longleftrightarrow> c = BLACK"
  by (cases c; simp)+

lemma ncolor_fill [simp]: "ncolor (fill f t) = fcolor f"
  by (cases f) auto

lemma ncolor_plug [simp]: "ncolor (plug t p) = rootc p (ncolor t)"
  by (induction p arbitrary: t) auto

lemma invc_plug: "invc (plug t p) \<longleftrightarrow> invc t \<and> pathc p \<and> (topc p = RED \<longrightarrow> ncolor t = BLACK)"
proof (induction p arbitrary: t)
  case Nil
  then show ?case by simp
next
  case (Cons f p)
  then show ?case by (cases f) (auto simp: Cons.IH)
qed

lemma invh_plug: "invh (plug t p) \<longleftrightarrow> invh t \<and> pathh p (bheight t)"
proof (induction p arbitrary: t)
  case Nil
  then show ?case by simp
next
  case (Cons f p)
  then show ?case by (cases f) (auto simp: Cons.IH)
qed

lemma invc_paint_BLACK [simp]: "invc t \<Longrightarrow> invc (paint BLACK t)"
  by (cases t) auto

lemma invh_paint [simp]: "invh (paint c t) = invh t"
  by (cases t) auto

lemma ncolor_paint_BLACK [simp]: "ncolor (paint BLACK t) = BLACK"
  by (cases t) auto

lemma rbt_paint: "invc (paint BLACK t) \<Longrightarrow> invh t \<Longrightarrow> rbt (paint BLACK t)"
  by (simp add: rbt_def)

lemma bheight_paint_BLACK: "ncolor t = RED \<Longrightarrow> bheight (paint BLACK t) = Suc (bheight t)"
  by (cases t) auto

lemma RED_cases: "ncolor t = RED \<Longrightarrow> \<exists>l a r. t = RNode RED l a r"
  by (cases t) auto

lemma rbtree_insert_fixup_rbt:
  assumes "z = RNode RED l a r" "invc z" "invh z" "pathc p" "pathh p (bheight z)"
    "rootc p BLACK = BLACK"
  shows "\<exists>t. rbtree_insert_fixup z p = Some t \<and> rbt t"
  using assms
proof (induction z p arbitrary: l a r rule: rbtree_insert_fixup.induct)
  case (1 z)
  then show ?case by (auto simp: rbt_def)
next
  case (2 z f)
  then show ?case
    by (cases f) (auto simp: rbt_def)
next
  case (3 z f gc g y p)
  show ?case
  proof (cases "fcolor f = BLACK")
    case True
    with "3.prems" show ?thesis
      by (auto intro!: rbt_paint invc_paint_BLACK simp: invc_plug invh_plug simp del: plug.simps)
  next
    case red: False
    then have f: "fcolor f = RED" by simp
    show ?thesis
    proof (cases "ncolor y = RED")
      case True
      let ?z = "RNode RED (paint BLACK (fill f z)) g (paint BLACK y)"
      from f "3.prems" True have "invc ?z" "invh ?z" "pathc p" "pathh p (bheight ?z)"
        "rootc p BLACK = BLACK"
        by (cases f; auto dest!: RED_cases)+
      with "3.IH"[OF red True] f True show ?thesis by auto
    next
      case False
      with f "3.prems" show ?thesis
        by (cases f) (auto intro!: rbt_paint invc_paint_BLACK simp: invc_plug invh_plug)
    qed
  qed
next
  case (4 z f gc y g p)
  show ?case
  proof (cases "fcolor f = BLACK")
    case True
    with "4.prems" show ?thesis
      by (auto intro!: rbt_paint invc_paint_BLACK simp: invc_plug invh_plug simp del: plug.simps)
  next
    case red: False
    then have f: "fcolor f = RED" by simp
    show ?thesis
    proof (cases "ncolor y = RED")
      case True
      let ?z = "RNode RED (paint BLACK y) g (paint BLACK (fill f z))"
      from f "4.prems" True have "invc ?z" "invh ?z" "pathc p" "pathh p (bheight ?z)"
        "rootc p BLACK = BLACK"
        by (cases f; auto dest!: RED_cases)+
      with "4.IH"[OF red True] f True show ?thesis by auto
    next
      case False
      with f "4.prems" show ?thesis
        by (cases f) (auto intro!: rbt_paint invc_paint_BLACK simp: invc_plug invh_plug)
    qed
  qed
qed

lemma red_sibling_left_inv:
  assumes "red_sibling_left c a w p = (c1, w1, p1)" "invc w" "invh w"
    "c = RED \<longrightarrow> ncolor w = BLACK \<and> topc p = BLACK" "pathc p" "pathh p (bheight w + blk c)"
    "bheight w = Suc h" "rootc p c = BLACK"
  shows "ncolor w1 = BLACK \<and> invc w1 \<and> invh w1 \<and> bheight w1 = Suc h \<and> pathc p1 \<and>
    (c1 = RED \<longrightarrow> topc p1 = BLACK) \<and> pathh p1 (Suc h + blk c1) \<and> rootc p1 c1 = BLACK"
  using red_sibling_left_cases[OF assms(1)] assms(2-) by (auto split: if_splits)

lemma red_sibling_right_inv:
  assumes "red_sibling_right c a w p = (c1, w1, p1)" "invc w" "invh w"
    "c = RED \<longrightarrow> ncolor w = BLACK \<and> topc p = BLACK" "pathc p" "pathh p (bheight w + blk c)"
    "bheight w = Suc h" "rootc p c = BLACK"
  shows "ncolor w1 = BLACK \<and> invc w1 \<and> invh w1 \<and> bheight w1 = Suc h \<and> pathc p1 \<and>
    (c1 = RED \<longrightarrow> topc p1 = BLACK) \<and> pathh p1 (Suc h + blk c1) \<and> rootc p1 c1 = BLACK"
  using red_sibling_right_cases[OF assms(1)] assms(2-) by (auto split: if_splits)

lemma rootc_BLACK: "rootc p c = BLACK \<Longrightarrow> rootc p BLACK = BLACK"
  by (cases p) auto

lemma black_node_cases:
  assumes "ncolor w = BLACK" "bheight w = Suc h"
  obtains l b r where "w = RNode BLACK l b r" "bheight l = h"
  using assms by (cases w) auto

lemma nephew_left_rbt:
  assumes "invc x" "invh x" "ncolor x = BLACK" "ncolor w = BLACK" "invc w" "invh w"
    "bheight w = Suc (bheight x)" "\<not> both_black w"
  shows "\<exists>s. nephew_left c x a w = Some s \<and> invc s \<and> invh s \<and> ncolor s = c \<and>
    bheight s = Suc (bheight x) + blk c"
proof -
  from assms obtain l b r where w: "w = RNode BLACK l b r" "bheight l = bheight x"
    by (auto elim: black_node_cases)
  with assms show ?thesis
    by (cases "ncolor r = BLACK") (auto dest!: RED_cases)
qed

lemma nephew_right_rbt:
  assumes "invc x" "invh x" "ncolor x = BLACK" "ncolor w = BLACK" "invc w" "invh w"
    "bheight w = Suc (bheight x)" "\<not> both_black w"
  shows "\<exists>s. nephew_right c w a x = Some s \<and> invc s \<and> invh s \<and> ncolor s = c \<and>
    bheight s = Suc (bheight x) + blk c"
proof -
  from assms obtain l b r where w: "w = RNode BLACK l b r" "bheight l = bheight x"
    by (auto elim: black_node_cases)
  with assms show ?thesis
    by (cases "ncolor l = BLACK") (auto dest!: RED_cases)
qed

lemma rbtree_delete_fixup_rbt:
  assumes "invc (paint BLACK x)" "invh x" "pathc p" "pathh p (Suc (bheight x))" "rootc p BLACK = BLACK"
  shows "\<exists>t. rbtree_delete_fixup x p = Some t \<and> rbt t"
  using assms
proof (induction x p rule: rbtree_delete_fixup.induct)
  case (1 x)
  then show ?case by (auto intro!: rbt_paint)
next
  case (2 x c a w p)
  show ?case
  proof (cases "ncolor x = BLACK")
    case False
    with "2.prems" show ?thesis
      by (auto simp: rbt_def invc_plug invh_plug bheight_paint_BLACK)
  next
    case True
    obtain c1 w1 p1 where rs: "red_sibling_left c a w p = (c1, w1, p1)"
      by (metis prod_cases3)
    have x: "paint BLACK x = x" using True by (cases x) auto
    with "2.prems" have inv: "ncolor w1 = BLACK \<and> invc w1 \<and> invh w1 \<and> bheight w1 = Suc (bheight x) \<and>
      pathc p1 \<and> (c1 = RED \<longrightarrow> topc p1 = BLACK) \<and> pathh p1 (Suc (bheight x) + blk c1) \<and>
      rootc p1 c1 = BLACK"
      by (intro red_sibling_left_inv[OF rs]) auto
    show ?thesis
    proof (cases "both_black w1")
      case bb: True
      from inv obtain l b r where w1: "w1 = RNode BLACK l b r" "bheight l = bheight x"
        by (auto elim: black_node_cases)
      let ?x = "RNode c1 x a (paint RED w1)"
      have "invc (paint BLACK ?x)" "invh ?x" "pathh p1 (Suc (bheight ?x))" "rootc p1 BLACK = BLACK"
        using "2.prems" inv bb w1 x by (auto intro: rootc_BLACK)
      with "2.IH"[OF _ rs[symmetric] refl bb] True inv bb rs show ?thesis by auto
    next
      case False
      with nephew_left_rbt[of x w1 c1 a] inv "2.prems" True x obtain s where
        s: "nephew_left c1 x a w1 = Some s" "invc s" "invh s" "ncolor s = c1"
          "bheight s = Suc (bheight x) + blk c1" by auto
      with inv have "rbt (paint BLACK (plug s p1))"
        by (intro rbt_paint invc_paint_BLACK) (auto simp: invc_plug invh_plug)
      with s False True rs show ?thesis by auto
    qed
  qed
next
  case (3 x c w a p)
  show ?case
  proof (cases "ncolor x = BLACK")
    case False
    with "3.prems" show ?thesis
      by (auto simp: rbt_def invc_plug invh_plug bheight_paint_BLACK)
  next
    case True
    obtain c1 w1 p1 where rs: "red_sibling_right c a w p = (c1, w1, p1)"
      by (metis prod_cases3)
    have x: "paint BLACK x = x" using True by (cases x) auto
    with "3.prems" have inv: "ncolor w1 = BLACK \<and> invc w1 \<and> invh w1 \<and> bheight w1 = Suc (bheight x) \<and>
      pathc p1 \<and> (c1 = RED \<longrightarrow> topc p1 = BLACK) \<and> pathh p1 (Suc (bheight x) + blk c1) \<and>
      rootc p1 c1 = BLACK"
      by (intro red_sibling_right_inv[OF rs]) auto
    show ?thesis
    proof (cases "both_black w1")
      case bb: True
      from inv obtain l b r where w1: "w1 = RNode BLACK l b r" "bheight l = bheight x"
        by (auto elim: black_node_cases)
      let ?x = "RNode c1 (paint RED w1) a x"
      have "invc (paint BLACK ?x)" "invh ?x" "pathh p1 (Suc (bheight ?x))" "rootc p1 BLACK = BLACK"
        using "3.prems" inv bb w1 x by (auto intro: rootc_BLACK)
      with "3.IH"[OF _ rs[symmetric] refl bb] True inv bb rs show ?thesis by auto
    next
      case False
      with nephew_right_rbt[of x w1 c1 a] inv "3.prems" True x obtain s where
        s: "nephew_right c1 w1 a x = Some s" "invc s" "invh s" "ncolor s = c1"
          "bheight s = Suc (bheight x) + blk c1" by auto
      with inv have "rbt (paint BLACK (plug s p1))"
        by (intro rbt_paint invc_paint_BLACK) (auto simp: invc_plug invh_plug)
      with s False True rs show ?thesis by auto
    qed
  qed
qed

lemma mini_path_inv:
  assumes "rbtree_mini r [] = (RNode yc RNil b yr, q)" "invc r" "invh r"
  shows "pathc q" "pathh q (bheight (RNode yc RNil b yr))" "topc q = RED \<longrightarrow> yc = BLACK" "invc yr"
    "invh yr" "bheight yr = 0" "yc = RED \<longrightarrow> ncolor yr = BLACK"
proof -
  have r: "r = plug (RNode yc RNil b yr) q"
    using rbtree_mini_props(1)[OF assms(1)] by simp
  with assms(2,3) show "pathc q" "pathh q (bheight (RNode yc RNil b yr))"
    "topc q = RED \<longrightarrow> yc = BLACK" "invc yr" "invh yr" "bheight yr = 0" "yc = RED \<longrightarrow> ncolor yr = BLACK"
    by (simp_all add: invc_plug invh_plug)
qed

lemma rootc_append [simp]: "rootc (q @ f # p) c = rootc p (fcolor f)"
  by (induction q arbitrary: c) auto

lemma pathc_append:
  "pathc (q @ f # p) \<longleftrightarrow> pathc q \<and> pathc (f # p) \<and> (rootc q BLACK = RED \<longrightarrow> fcolor f = BLACK)"
proof (induction q)
  case Nil
  then show ?case by simp
next
  case (Cons g q)
  then show ?case by (cases q) auto
qed

lemma pathh_append: "pathh (q @ p) h \<longleftrightarrow> pathh q h \<and> pathh p (h + sum_list (map (\<lambda>f. blk (fcolor f)) q))"
  by (induction q arbitrary: h) (auto simp: add.assoc)

lemma bheight_plug:
  "pathh q (bheight t) \<Longrightarrow> bheight (plug t q) = bheight t + sum_list (map (\<lambda>f. blk (fcolor f)) q)"
proof (induction q arbitrary: t)
  case Nil
  then show ?case by simp
next
  case (Cons f q)
  then show ?case
    using Cons.IH[of "fill f t"] by (cases f) auto
qed

lemma black_zero: "ncolor x = BLACK \<Longrightarrow> bheight x = 0 \<Longrightarrow> x = RNil"
  by (cases x) auto

text \<open>Deleting at any position of a red-black tree succeeds and gives a red-black tree.\<close>

lemma rbtree_delete_rbt:
  assumes "rbt (plug (RNode c l a r) p)"
  shows "\<exists>t. rbtree_delete (RNode c l a r) p = Some (t, a) \<and> rbt t"
proof -
  from assms have inv: "invc l" "invc r" "invh l" "invh r" "bheight l = bheight r" "pathc p"
    "c = RED \<longrightarrow> ncolor l = BLACK \<and> ncolor r = BLACK \<and> topc p = BLACK"
    "pathh p (bheight l + blk c)" "rootc p c = BLACK"
    by (auto simp: rbt_def invc_plug invh_plug)
  show ?thesis
  proof (cases "l = RNil \<or> r = RNil")
    case True
    define x where "x = (if l \<noteq> RNil then l else r)"
    have x: "invc x" "invh x" "bheight x = bheight l" "c = RED \<longrightarrow> ncolor x = BLACK"
      using True inv by (auto simp: x_def)
    show ?thesis
    proof (cases c)
      case BLACK
      with inv x have "\<exists>t. rbtree_delete_fixup x p = Some t \<and> rbt t"
        by (intro rbtree_delete_fixup_rbt) auto
      with True BLACK show ?thesis by (auto simp: x_def Let_def)
    next
      case RED
      have "bheight l = 0" using True inv(5) by auto
      with x RED have "x = RNil" by (simp add: black_zero)
      with inv x RED have "rbt (plug x p)"
        by (auto simp: rbt_def invc_plug invh_plug intro: rootc_BLACK)
      with True RED show ?thesis by (auto simp: x_def Let_def)
    qed
  next
    case False
    obtain y q where m: "rbtree_mini r [] = (y, q)" by fastforce
    with False obtain yc b yr where y: "y = RNode yc RNil b yr"
      using rbtree_mini_props(2)[OF m] by auto
    note mi = mini_path_inv[OF m[unfolded y] inv(2,4)]
    have r: "r = plug (RNode yc RNil b yr) q"
      using rbtree_mini_props(1)[OF m] y by simp
    let ?p = "q @ RightOf c l b # p"
    have h: "pathh ?p (blk yc)"
      using mi(2) inv(3,5,8) bheight_plug[of q "RNode yc RNil b yr"] r
      by (simp add: pathh_append)
    have cq: "rootc q BLACK = RED \<longrightarrow> c = BLACK"
      using inv(7) r by (cases q) (auto split: if_splits)
    have pc: "pathc ?p"
      using mi(1) inv cq by (simp add: pathc_append)
    show ?thesis
    proof (cases yc)
      case BLACK
      with h pc mi inv have "\<exists>t. rbtree_delete_fixup yr ?p = Some t \<and> rbt t"
        by (intro rbtree_delete_fixup_rbt) (auto intro: rootc_BLACK)
      with False m y BLACK show ?thesis by (auto simp: Let_def)
    next
      case RED
      have "yr = RNil" using mi(6,7) RED by (simp add: black_zero)
      with h pc mi inv RED have "rbt (plug yr ?p)"
        by (auto simp: rbt_def invc_plug invh_plug simp del: plug_append)
      with False m y RED show ?thesis by (auto simp: Let_def)
    qed
  qed
qed

section \<open>Searching by key\<close>

text \<open>
  The search loop: \<open>rb_locate\<close> ends at the node with the key, or at a leaf (the sentinel),
  with the path that insertion links the new node to. The comparison is a parameter,
  \<open>strcmp\<close> for the two string trees, the length-delimited comparison for the memtable.
\<close>

fun rb_locate ::
  "('k \<Rightarrow> 'k \<Rightarrow> int) \<Rightarrow> ('a \<Rightarrow> 'k) \<Rightarrow> 'k \<Rightarrow> 'a rbtree_node \<Rightarrow> 'a path \<Rightarrow> 'a rbtree_node \<times> 'a path" where
  "rb_locate cmp kof k RNil p = (RNil, p)"
| "rb_locate cmp kof k (RNode c l a r) p =
     (if cmp k (kof a) < 0 then rb_locate cmp kof k l (LeftOf c a r # p)
      else if cmp k (kof a) > 0 then rb_locate cmp kof k r (RightOf c l a # p)
      else (RNode c l a r, p))"

definition ksorted :: "('k \<Rightarrow> 'k \<Rightarrow> int) \<Rightarrow> ('a \<Rightarrow> 'k) \<Rightarrow> 'a list \<Rightarrow> bool" where
  "ksorted cmp kof = sorted_wrt (\<lambda>a b. cmp (kof a) (kof b) < 0)"

definition rb_inv :: "('k \<Rightarrow> 'k \<Rightarrow> int) \<Rightarrow> ('a \<Rightarrow> 'k) \<Rightarrow> 'a rbtree_node \<Rightarrow> bool" where
  "rb_inv cmp kof t \<longleftrightarrow> rbt t \<and> ksorted cmp kof (inorder t)"

definition kmap :: "('a \<Rightarrow> 'k) \<Rightarrow> 'a rbtree_node \<Rightarrow> 'k \<rightharpoonup> 'a" where
  "kmap kof t = map_of (map (\<lambda>a. (kof a, a)) (inorder t))"

lemma rb_inv_RNil [simp]: "rb_inv cmp kof RNil"
  by (simp add: rb_inv_def rbt_def ksorted_def)

lemma kmap_RNil [simp]: "kmap kof RNil = Map.empty"
  by (simp add: kmap_def)

lemma rb_locate_plug: "rb_locate cmp kof k t p = (t', p') \<Longrightarrow> plug t' p' = plug t p"
  by (induction cmp kof k t p rule: rb_locate.induct) (auto split: if_splits)

text \<open>
  The laws of a three-way key comparison, and what they give: search finds exactly the keys of
  the tree, insertion, deletion and in-place update act as on a finite map and keep the tree a
  sorted red-black tree.
\<close>

locale key_compare =
  fixes cmp :: "'k \<Rightarrow> 'k \<Rightarrow> int"
  assumes cmp_zero: "cmp a b = 0 \<longleftrightarrow> a = b"
    and cmp_swap: "cmp a b < 0 \<longleftrightarrow> 0 < cmp b a"
    and cmp_trans: "cmp a b < 0 \<Longrightarrow> cmp b c < 0 \<Longrightarrow> cmp a c < 0"
begin

lemma cmp_refl [simp]: "cmp a a = 0"
  using cmp_zero by blast

lemma rb_locate_found:
  "rb_locate cmp kof k t p = (RNode c l a r, p') \<Longrightarrow> kof a = k"
  using cmp_zero by (induction t arbitrary: p) (auto split: if_splits)

lemma rb_locate_absent:
  assumes "rb_locate cmp kof k t p = (RNil, p')" and "ksorted cmp kof (inorder t)"
  shows "\<exists>xs ys. inorder t = xs @ ys \<and> before p' = before p @ xs \<and> after p' = ys @ after p \<and>
    (\<forall>x \<in> set xs. cmp (kof x) k < 0) \<and> (\<forall>y \<in> set ys. cmp k (kof y) < 0)"
  using assms
proof (induction t arbitrary: p)
  case RNil
  then show ?case by simp
next
  case (RNode c l a r)
  have sorted: "ksorted cmp kof (inorder l)" "ksorted cmp kof (inorder r)"
    "\<forall>x \<in> set (inorder l). cmp (kof x) (kof a) < 0" "\<forall>y \<in> set (inorder r). cmp (kof a) (kof y) < 0"
    using RNode.prems(2) by (auto simp: ksorted_def sorted_wrt_append)
  consider "cmp k (kof a) < 0" | "cmp k (kof a) > 0" | "cmp k (kof a) = 0" by linarith
  then show ?case
  proof cases
    case 1
    with RNode.prems(1) have "rb_locate cmp kof k l (LeftOf c a r # p) = (RNil, p')" by simp
    from RNode.IH(1)[OF this sorted(1)] obtain xs ys where
      "inorder l = xs @ ys" "before p' = before p @ xs" "after p' = ys @ a # inorder r @ after p"
      "\<forall>x \<in> set xs. cmp (kof x) k < 0" "\<forall>y \<in> set ys. cmp k (kof y) < 0" by auto
    with 1 sorted(4) cmp_trans show ?thesis
      by (intro exI[of _ xs] exI[of _ "ys @ a # inorder r"]) auto
  next
    case 2
    with RNode.prems(1) have "rb_locate cmp kof k r (RightOf c l a # p) = (RNil, p')" by simp
    from RNode.IH(2)[OF this sorted(2)] obtain xs ys where
      "inorder r = xs @ ys" "before p' = before p @ inorder l @ a # xs" "after p' = ys @ after p"
      "\<forall>x \<in> set xs. cmp (kof x) k < 0" "\<forall>y \<in> set ys. cmp k (kof y) < 0" by auto
    with 2 sorted(3) cmp_trans cmp_swap show ?thesis
      by (intro exI[of _ "inorder l @ a # xs"] exI[of _ ys]) auto
  next
    case 3
    with RNode.prems(1) show ?thesis by simp
  qed
qed

lemma ksorted_distinct: "ksorted cmp kof xs \<Longrightarrow> distinct (map kof xs)"
  by (induction xs) (auto simp: ksorted_def)

lemma kmap_split:
  assumes "ksorted cmp kof (inorder t)" "inorder t = xs @ a # ys"
  shows "kmap kof t (kof a) = Some a"
    and "map_of (map (\<lambda>a. (kof a, a)) (xs @ ys)) = (kmap kof t)(kof a := None)"
    and "kof b = kof a \<Longrightarrow>
      map_of (map (\<lambda>a. (kof a, a)) (xs @ b # ys)) = (kmap kof t)(kof a \<mapsto> b)"
proof -
  have d: "kof a \<notin> kof ` set xs" "kof a \<notin> kof ` set ys"
    using ksorted_distinct[OF assms(1)] assms(2) by auto
  then have n: "map_of (map (\<lambda>a. (kof a, a)) xs) (kof a) = None"
    "map_of (map (\<lambda>a. (kof a, a)) ys) (kof a) = None"
    by (auto simp: map_of_eq_None_iff)
  show "kmap kof t (kof a) = Some a"
    using n by (simp add: kmap_def assms(2) map_add_def)
  show "map_of (map (\<lambda>a. (kof a, a)) (xs @ ys)) = (kmap kof t)(kof a := None)"
    using n by (auto simp: kmap_def assms(2) fun_eq_iff map_add_def split: option.splits)
  show "map_of (map (\<lambda>a. (kof a, a)) (xs @ b # ys)) = (kmap kof t)(kof a \<mapsto> b)" if "kof b = kof a"
    using n that by (auto simp: kmap_def assms(2) fun_eq_iff map_add_def split: option.splits)
qed

lemma locate_kmap:
  assumes "ksorted cmp kof (inorder t)"
  shows "kmap kof t k = (case rb_locate cmp kof k t [] of (RNode c l a r, p) \<Rightarrow> Some a | (RNil, p) \<Rightarrow> None)"
proof -
  obtain t' p' where loc: "rb_locate cmp kof k t [] = (t', p')" by fastforce
  show ?thesis
  proof (cases t')
    case RNil
    with rb_locate_absent[OF loc[unfolded RNil] assms] obtain xs ys where
      "inorder t = xs @ ys" "\<forall>x \<in> set xs. cmp (kof x) k < 0" "\<forall>y \<in> set ys. cmp k (kof y) < 0"
      by auto
    then have "k \<notin> kof ` set (inorder t)" by auto
    then have "kmap kof t k = None"
      unfolding kmap_def map_of_eq_None_iff by auto
    with loc RNil show ?thesis by simp
  next
    case (RNode c l a r)
    have "inorder t = (before p' @ inorder l) @ a # inorder r @ after p'"
      using arg_cong[OF rb_locate_plug[OF loc], of inorder] RNode by simp
    from kmap_split(1)[OF assms this] rb_locate_found[OF loc[unfolded RNode]] loc RNode
    show ?thesis by simp
  qed
qed

lemma insert_at:
  assumes inv: "rb_inv cmp kof t" and loc: "rb_locate cmp kof (kof a) t [] = (RNil, p)"
  shows "\<exists>t'. rbtree_insert_fixup (RNode RED RNil a RNil) p = Some t' \<and> rb_inv cmp kof t' \<and>
    kmap kof t' = (kmap kof t)(kof a \<mapsto> a) \<and> length (inorder t') = Suc (length (inorder t))"
proof -
  have srt: "ksorted cmp kof (inorder t)" and "rbt t"
    using inv by (auto simp: rb_inv_def)
  then have "rbt (plug RNil p)" using rb_locate_plug[OF loc] by simp
  then have "pathc p" "pathh p 0" "rootc p BLACK = BLACK"
    by (auto simp: rbt_def invc_plug invh_plug)
  then obtain t' where t': "rbtree_insert_fixup (RNode RED RNil a RNil) p = Some t'" "rbt t'"
    using rbtree_insert_fixup_rbt[of "RNode RED RNil a RNil" RNil a RNil p] by auto
  from rb_locate_absent[OF loc srt] obtain xs ys where
    split: "inorder t = xs @ ys" "before p = xs" "after p = ys"
      "\<forall>x \<in> set xs. cmp (kof x) (kof a) < 0" "\<forall>y \<in> set ys. cmp (kof a) (kof y) < 0" by auto
  have ino: "inorder t' = xs @ a # ys"
    using inorder_insert_fixup[OF t'(1)] split by simp
  have srt': "ksorted cmp kof (inorder t')"
    using srt split unfolding ino ksorted_def by (auto simp: sorted_wrt_append)
  have "kmap kof t' = (kmap kof t)(kof a \<mapsto> a)"
  proof -
    from kmap_split(2)[OF srt' ino] split(1) have "kmap kof t = (kmap kof t')(kof a := None)"
      by (simp add: kmap_def)
    with kmap_split(1)[OF srt' ino] show ?thesis by (auto simp: fun_eq_iff)
  qed
  with t' srt' ino split(1) show ?thesis by (auto simp: rb_inv_def)
qed

lemma delete_at:
  assumes inv: "rb_inv cmp kof t" and loc: "rb_locate cmp kof k t [] = (RNode c l a r, p)"
  shows "\<exists>t'. rbtree_delete (RNode c l a r) p = Some (t', a) \<and> rb_inv cmp kof t' \<and>
    kmap kof t' = (kmap kof t)(k := None) \<and> Suc (length (inorder t')) = length (inorder t)"
proof -
  have srt: "ksorted cmp kof (inorder t)" and "rbt t"
    using inv by (auto simp: rb_inv_def)
  then have "rbt (plug (RNode c l a r) p)" using rb_locate_plug[OF loc] by simp
  from rbtree_delete_rbt[OF this] obtain t' where
    t': "rbtree_delete (RNode c l a r) p = Some (t', a)" "rbt t'" by blast
  have ino: "inorder t = (before p @ inorder l) @ a # (inorder r @ after p)"
    using arg_cong[OF rb_locate_plug[OF loc], of inorder] by simp
  have ino': "inorder t' = (before p @ inorder l) @ (inorder r @ after p)"
    using inorder_rbtree_delete(2)[OF t'(1)] by simp
  have "ksorted cmp kof (inorder t')"
    using srt unfolding ino ino' ksorted_def by (auto simp: sorted_wrt_append)
  moreover have "kmap kof t' = (kmap kof t)(k := None)"
    using kmap_split(2)[OF srt ino] rb_locate_found[OF loc] by (simp only: kmap_def[of _ t'] ino')
  ultimately show ?thesis
    using t' ino ino' by (auto simp: rb_inv_def)
qed

lemma update_at:
  assumes inv: "rb_inv cmp kof t" and loc: "rb_locate cmp kof k t [] = (RNode c l a r, p)"
    and "kof b = k"
  shows "rb_inv cmp kof (plug (RNode c l b r) p)"
    and "kmap kof (plug (RNode c l b r) p) = (kmap kof t)(k \<mapsto> b)"
    and "length (inorder (plug (RNode c l b r) p)) = length (inorder t)"
proof -
  have srt: "ksorted cmp kof (inorder t)" and "rbt t"
    using inv by (auto simp: rb_inv_def)
  have ka: "kof a = k" by (rule rb_locate_found[OF loc])
  have ino: "inorder t = (before p @ inorder l) @ a # (inorder r @ after p)"
    using arg_cong[OF rb_locate_plug[OF loc], of inorder] by simp
  have "rbt (plug (RNode c l a r) p)"
    using \<open>rbt t\<close> rb_locate_plug[OF loc] by simp
  then have "rbt (plug (RNode c l b r) p)"
    by (auto simp: rbt_def invc_plug invh_plug)
  moreover have "ksorted cmp kof (inorder (plug (RNode c l b r) p))"
    using srt ka \<open>kof b = k\<close> unfolding ino ksorted_def by (simp add: sorted_wrt_append)
  ultimately show "rb_inv cmp kof (plug (RNode c l b r) p)"
    by (simp add: rb_inv_def)
  show "kmap kof (plug (RNode c l b r) p) = (kmap kof t)(k \<mapsto> b)"
    using kmap_split(3)[OF srt ino, of b] ka \<open>kof b = k\<close> by (simp add: kmap_def[of _ "plug _ _"])
  show "length (inorder (plug (RNode c l b r) p)) = length (inorder t)"
    by (simp add: ino)
qed

lemma dom_kmap: "dom (kmap kof t) = kof ` set (inorder t)"
  by (force simp: kmap_def dom_map_of_conv_image_fst)

lemma card_dom_kmap: "rb_inv cmp kof t \<Longrightarrow> card (dom (kmap kof t)) = length (inorder t)"
  using distinct_card[OF ksorted_distinct[of kof "inorder t"]]
  by (simp add: dom_kmap rb_inv_def)

lemma in_inorder_iff: "rb_inv cmp kof t \<Longrightarrow> a \<in> set (inorder t) \<longleftrightarrow> kmap kof t (kof a) = Some a"
proof
  assume inv: "rb_inv cmp kof t" and "a \<in> set (inorder t)"
  then obtain xs ys where "inorder t = xs @ a # ys" by (meson split_list)
  from kmap_split(1)[OF _ this] inv show "kmap kof t (kof a) = Some a" by (simp add: rb_inv_def)
next
  assume "kmap kof t (kof a) = Some a"
  then show "a \<in> set (inorder t)" by (auto simp: kmap_def dest!: map_of_SomeD)
qed

lemma kmap_key: "kmap kof t k = Some a \<Longrightarrow> kof a = k"
  by (auto simp: kmap_def dest!: map_of_SomeD)

lemma sum_inorder:
  assumes "rb_inv cmp kof t"
  shows "sum_list (map f (inorder t)) = (\<Sum>k \<in> dom (kmap kof t). f (the (kmap kof t k)))"
proof -
  have d: "distinct (map kof (inorder t))"
    using assms ksorted_distinct[of kof "inorder t"] by (simp add: rb_inv_def)
  then have "inj_on kof (set (inorder t))" "distinct (inorder t)"
    by (simp_all add: distinct_map)
  moreover have "f (the (kmap kof t (kof a))) = f a" if "a \<in> set (inorder t)" for a
    using in_inorder_iff[OF assms] that by simp
  ultimately show ?thesis
    by (simp add: dom_kmap sum.reindex sum_list_distinct_conv_sum_set)
qed

lemma finite_dom_kmap [simp]: "finite (dom (kmap kof t))"
  by (simp add: dom_kmap)

lemma list_all_inorder:
  assumes "rb_inv cmp kof t"
  shows "list_all P (inorder t) \<longleftrightarrow> (\<forall>a \<in> ran (kmap kof t). P a)"
proof -
  have "set (inorder t) = ran (kmap kof t)"
    using in_inorder_iff[OF assms] by (auto simp: ran_def dest: kmap_key[of kof t])
  then show ?thesis by (simp add: list_all_iff)
qed

end

section \<open>Depth of the search loop\<close>

fun height :: "'a rbtree_node \<Rightarrow> nat" where
  "height RNil = 0"
| "height (RNode c l a r) = Suc (max (height l) (height r))"

lemma height_bheight:
  "invc t \<Longrightarrow> invh t \<Longrightarrow> height t \<le> 2 * bheight t + (if ncolor t = BLACK then 0 else 1)"
  by (induction t) (auto split: if_splits)

lemma bheight_size: "invh t \<Longrightarrow> 2 ^ bheight t \<le> Suc (length (inorder t))"
  by (induction t) auto

lemma rbt_height_bound: "rbt t \<Longrightarrow> 2 ^ (height t) \<le> (Suc (length (inorder t)))\<^sup>2"
proof -
  assume "rbt t"
  then have "height t \<le> 2 * bheight t" and "2 ^ bheight t \<le> Suc (length (inorder t))"
    using height_bheight[of t] bheight_size[of t] by (auto simp: rbt_def)
  then have "(2::nat) ^ height t \<le> (2 ^ bheight t)\<^sup>2"
    by (metis mult.commute one_le_numeral power_increasing power_mult)
  also have "\<dots> \<le> (Suc (length (inorder t)))\<^sup>2"
    using \<open>2 ^ bheight t \<le> Suc (length (inorder t))\<close> by (rule power_mono) simp
  finally show ?thesis .
qed

section \<open>In-order iteration\<close>

text \<open>From a node position, the in-order rest of the tree; the successor moves to its head.\<close>

fun rest_from :: "'a rbtree_node \<Rightarrow> 'a path \<Rightarrow> 'a list" where
  "rest_from RNil p = after p"
| "rest_from (RNode c l a r) p = a # inorder r @ after p"

lemma rest_from_mini:
  "rbtree_mini t p = (t', p') \<Longrightarrow> rest_from t' p' = inorder t @ after p"
  by (induction t p arbitrary: t' p' rule: rbtree_mini.induct) auto

lemma climb_rest:
  "(case climb x p of None \<Rightarrow> after p = [] | Some (y, q) \<Rightarrow> y \<noteq> RNil \<and> rest_from y q = after p \<and>
      plug y q = plug x p)"
  by (induction x p rule: climb.induct) (auto split: option.splits)

lemma successor_rest:
  "(case rbtree_successor (RNode c l a r) p of
      None \<Rightarrow> rest_from (RNode c l a r) p = [a]
    | Some (y, q) \<Rightarrow> y \<noteq> RNil \<and> rest_from (RNode c l a r) p = a # rest_from y q \<and>
        plug y q = plug (RNode c l a r) p)"
proof (cases r)
  case RNil
  then show ?thesis
    using climb_rest[where x = "RNode c l a RNil" and p = p] by (auto split: option.splits)
next
  case (RNode rc rl ra rr)
  obtain y q where m: "rbtree_mini r (RightOf c l a # p) = (y, q)" by fastforce
  with rest_from_mini[OF m] rbtree_mini_props(1,2)[OF m] RNode show ?thesis by auto
qed

end
