(* ===== verification/RBT_Engine.thy ===== *)
theory RBT_Engine
  imports RBT_Core KV_Interface "HOL-Library.Multiset"
begin

text \<open>
  The red-black tree engine, \<open>src/kvserver/kvstore_rbtree.c\<close>, on top of the tree machinery:
  lookup, insertion by key, and the API functions \<open>kvs_rbtree_*\<close> with their allocations.
  A node's payload is its key and its value pointer. The flag \<open>nil_ok\<close> says that the
  sentinel exists, which is so between creation and destruction.
\<close>

section \<open>State and operations\<close>

type_synonym rb_item = "string \<times> cptr"

record rbtree =
  root :: "rb_item rbtree_node"
  nil_ok :: bool
  count :: int

definition kv_store_rbtree_create :: "script \<Rightarrow> (int \<times> rbtree \<times> script) outcome" where
  "kv_store_rbtree_create h =
     (let (ok, h1) = malloc h in
      if \<not> ok then Inl NullDeref
      else (let (ok2, h2) = malloc h1 in
        if \<not> ok2 then Inl NullDeref
        else Inr (0, \<lparr>root = RNil, nil_ok = True, count = 0\<rparr>, h2)))"

text \<open>\<open>rbtree_search\<close>: the node with the key, \<open>RNil\<close> for the sentinel.\<close>

definition rbtree_search :: "rbtree \<Rightarrow> string \<Rightarrow> rb_item rbtree_node \<times> rb_item path" where
  "rbtree_search t k = rb_locate strcmp fst k (root t) []"

definition rbtree_insert :: "rbtree \<Rightarrow> rb_item \<Rightarrow> rbtree outcome" where
  "rbtree_insert t z =
     (case rb_locate strcmp fst (fst z) (root t) [] of
        (RNode c l a r, p) \<Rightarrow> Inr t
      | (RNil, p) \<Rightarrow>
          if \<not> nil_ok t then Inl NullDeref
          else (case rbtree_insert_fixup (RNode RED RNil z RNil) p of
            None \<Rightarrow> Inl NilSentinel
          | Some r \<Rightarrow> Inr (t\<lparr>root := r\<rparr>)))"

definition kvs_rbtree_set ::
  "script \<Rightarrow> rbtree \<Rightarrow> string option \<Rightarrow> string option \<Rightarrow> (int \<times> rbtree \<times> script) outcome" where
  "kvs_rbtree_set h t key_p value_p =
     (let (ok, h1) = malloc h in
      if \<not> ok then Inr (-1, t, h1)
      else (case key_p of
        None \<Rightarrow> Inl NullDeref
      | Some k \<Rightarrow>
          let (ok2, h2) = malloc h1 in
          if \<not> ok2 then Inr (-1, t, h2)
          else (case value_p of
            None \<Rightarrow> Inl NullDeref
          | Some v \<Rightarrow>
              let (ok3, h3) = malloc h2 in
              if \<not> ok3 then Inr (-1, t, h3)
              else (case rbtree_insert t (k, Str v) of
                Inl e \<Rightarrow> Inl e
              | Inr t' \<Rightarrow> Inr (0, t'\<lparr>count := count t' + 1\<rparr>, h3)))))"

text \<open>A null key is only dereferenced when the search loop runs, that is on a non-empty tree.\<close>

definition kvs_rbtree_get :: "rbtree \<Rightarrow> string option \<Rightarrow> cptr outcome" where
  "kvs_rbtree_get t key_p =
     (case key_p of
        None \<Rightarrow> if root t = RNil then Inr Null else Inl NullDeref
      | Some k \<Rightarrow>
          (case rbtree_search t k of
             (RNil, p) \<Rightarrow> Inr Null
           | (RNode c l a r, p) \<Rightarrow> Inr (snd a)))"

definition kvs_rbtree_delete :: "rbtree \<Rightarrow> string option \<Rightarrow> (int \<times> rbtree) outcome" where
  "kvs_rbtree_delete t key_p =
     (case key_p of
        None \<Rightarrow> if root t = RNil then Inr (-1, t) else Inl NullDeref
      | Some k \<Rightarrow>
          (case rbtree_search t k of
             (RNil, p) \<Rightarrow> Inr (-1, t)
           | (RNode c l a r, p) \<Rightarrow>
               (case rbtree_delete (RNode c l a r) p of
                  None \<Rightarrow> Inl NilSentinel
                | Some (t', d) \<Rightarrow> Inr (0, t\<lparr>root := t', count := count t - 1\<rparr>))))"

definition kvs_rbtree_modify ::
  "script \<Rightarrow> rbtree \<Rightarrow> string option \<Rightarrow> string option \<Rightarrow> (int \<times> rbtree \<times> script) outcome" where
  "kvs_rbtree_modify h t key_p value_p =
     (case key_p of
        None \<Rightarrow> if root t = RNil then Inr (-1, t, h) else Inl NullDeref
      | Some k \<Rightarrow>
          (case rbtree_search t k of
             (RNil, p) \<Rightarrow> Inr (-1, t, h)
           | (RNode c l a r, p) \<Rightarrow>
               if \<not> free_ok (snd a) then Inl DoubleFree
               else (case value_p of
                 None \<Rightarrow> Inl NullDeref
               | Some v \<Rightarrow>
                   let (ok, h1) = malloc h in
                   if \<not> ok then Inr (-1, t\<lparr>root := plug (RNode c l (fst a, Null) r) p\<rparr>, h1)
                   else Inr (0, t\<lparr>root := plug (RNode c l (fst a, Str v) r) p\<rparr>, h1))))"

definition kvs_rbtree_count :: "rbtree \<Rightarrow> int" where
  "kvs_rbtree_count t = count t"

text \<open>The post-order of \<open>_rbtree_destroy_recursive\<close>, as the sequence of nodes it frees.\<close>

fun rbtree_destroy_recursive :: "'a rbtree_node \<Rightarrow> 'a list" where
  "rbtree_destroy_recursive RNil = []"
| "rbtree_destroy_recursive (RNode c l a r) =
     rbtree_destroy_recursive l @ rbtree_destroy_recursive r @ [a]"

definition kv_store_rbtree_destroy :: "rbtree \<Rightarrow> rbtree outcome" where
  "kv_store_rbtree_destroy t =
     (if list_all (\<lambda>a. free_ok (snd a)) (rbtree_destroy_recursive (root t))
      then Inr \<lparr>root = RNil, nil_ok = False, count = 0\<rparr> else Inl DoubleFree)"

text \<open>What \<open>rbtree_traversal\<close> prints: key and colour in order.\<close>

fun rbtree_traversal :: "rb_item rbtree_node \<Rightarrow> (string \<times> color) list" where
  "rbtree_traversal RNil = []"
| "rbtree_traversal (RNode c l a r) = rbtree_traversal l @ (fst a, c) # rbtree_traversal r"

section \<open>Invariant and abstraction\<close>

interpretation strcmp: key_compare strcmp
proof
  fix a b c :: string
  show "(strcmp a b = 0) = (a = b)" by simp
  show "(strcmp a b < 0) = (0 < strcmp b a)"
    by (simp add: strcmp_less_iff strcmp_greater_iff)
  show "strcmp a b < 0 \<Longrightarrow> strcmp b c < 0 \<Longrightarrow> strcmp a c < 0"
    by (simp add: strcmp_less_iff)
qed

definition is_str :: "cptr \<Rightarrow> bool" where
  "is_str p = (case p of Str s \<Rightarrow> True | _ \<Rightarrow> False)"

definition str_of :: "cptr \<Rightarrow> string" where
  "str_of p = (case p of Str s \<Rightarrow> s | _ \<Rightarrow> [])"

lemma is_str_conv: "is_str p \<longleftrightarrow> p = Str (str_of p)"
  by (cases p) (auto simp: is_str_def str_of_def)

lemma str_simps [simp]: "is_str (Str s)" "str_of (Str s) = s"
  by (simp_all add: is_str_def str_of_def)

definition rbtree_inv :: "rbtree \<Rightarrow> bool" where
  "rbtree_inv t \<longleftrightarrow> nil_ok t \<and> rb_inv strcmp fst (root t) \<and>
     list_all (\<lambda>a. is_str (snd a)) (inorder (root t))"

definition rbtree_content :: "rbtree \<Rightarrow> string \<rightharpoonup> string" where
  "rbtree_content t = (\<lambda>k. map_option (\<lambda>a. str_of (snd a)) (kmap fst (root t) k))"

lemma values_str:
  "rb_inv strcmp fst t \<Longrightarrow> list_all (\<lambda>a. is_str (snd a)) (inorder t) \<longleftrightarrow>
     (\<forall>k x v. kmap fst t k = Some (x, v) \<longrightarrow> is_str v)"
  by (force simp: strcmp.list_all_inorder ran_def)

lemma rbtree_search_cases:
  assumes "rbtree_inv t"
  obtains (absent) p where "rbtree_search t k = (RNil, p)" "rbtree_content t k = None"
  | (present) c l v r p where "rbtree_search t k = (RNode c l (k, Str v) r, p)"
      "rbtree_content t k = Some v"
proof -
  obtain x p where s: "rbtree_search t k = (x, p)" by fastforce
  have srt: "ksorted strcmp fst (inorder (root t))"
    using assms by (simp add: rbtree_inv_def rb_inv_def)
  show ?thesis
  proof (cases x)
    case RNil
    with s strcmp.locate_kmap[OF srt, of k] absent show ?thesis
      by (simp add: rbtree_search_def rbtree_content_def)
  next
    case (RNode c l a r)
    then have loc: "rb_locate strcmp fst k (root t) [] = (RNode c l a r, p)"
      using s by (simp add: rbtree_search_def)
    have "kmap fst (root t) k = Some a"
      using strcmp.locate_kmap[OF srt, of k] loc by simp
    moreover have "is_str (snd a)"
      using assms \<open>kmap fst (root t) k = Some a\<close>
      by (cases a) (auto simp: rbtree_inv_def values_str)
    moreover have "fst a = k" by (rule strcmp.rb_locate_found[OF loc])
    ultimately have "a = (k, Str (str_of (snd a)))" "rbtree_content t k = Some (str_of (snd a))"
      by (auto simp: is_str_conv rbtree_content_def prod_eq_iff)
    with present s RNode show ?thesis by metis
  qed
qed

lemma rbtree_inv_content_upd:
  assumes "rbtree_inv t" "rb_inv strcmp fst r'" "kmap fst r' = (kmap fst (root t))(k \<mapsto> (k, Str v))"
  shows "rbtree_inv (t\<lparr>root := r', count := n\<rparr>)" "rbtree_inv (t\<lparr>root := r'\<rparr>)"
    "rbtree_content (t\<lparr>root := r', count := n\<rparr>) = (rbtree_content t)(k \<mapsto> v)"
    "rbtree_content (t\<lparr>root := r'\<rparr>) = (rbtree_content t)(k \<mapsto> v)"
  using assms
  by (auto simp: rbtree_inv_def rbtree_content_def values_str)

lemma rbtree_inv_content_del:
  assumes "rbtree_inv t" "rb_inv strcmp fst r'" "kmap fst r' = (kmap fst (root t))(k := None)"
  shows "rbtree_inv (t\<lparr>root := r', count := n\<rparr>)"
    "rbtree_content (t\<lparr>root := r', count := n\<rparr>) = (rbtree_content t)(k := None)"
  using assms
  by (auto simp: rbtree_inv_def rbtree_content_def values_str)

lemma rbtree_inv_count [simp]:
  "rbtree_inv (t\<lparr>count := n\<rparr>) = rbtree_inv t" "rbtree_content (t\<lparr>count := n\<rparr>) = rbtree_content t"
  by (simp_all add: rbtree_inv_def rbtree_content_def)

section \<open>Behaviour of the operations\<close>

lemma kv_store_rbtree_create_ok:
  "\<exists>t. kv_store_rbtree_create [] = Inr (0, t, []) \<and> rbtree_inv t \<and> rbtree_content t = Map.empty \<and>
     kvs_rbtree_count t = 0"
  by (simp add: kv_store_rbtree_create_def rbtree_inv_def rbtree_content_def kvs_rbtree_count_def)

lemma kvs_rbtree_get_content:
  "rbtree_inv t \<Longrightarrow> kvs_rbtree_get t (Some k) = Inr (cptr_of (rbtree_content t k))"
  by (cases rule: rbtree_search_cases[of t k]) (auto simp: kvs_rbtree_get_def)

lemma kvs_rbtree_set_present:
  assumes "rbtree_inv t" "rbtree_content t k \<noteq> None"
  shows "kvs_rbtree_set [] t (Some k) (Some v) = Inr (0, t\<lparr>count := count t + 1\<rparr>, [])"
  using assms
  by (cases rule: rbtree_search_cases[OF assms(1), of k])
    (auto simp: kvs_rbtree_set_def rbtree_insert_def rbtree_search_def)

lemma kvs_rbtree_set_fresh:
  assumes inv: "rbtree_inv t" and "rbtree_content t k = None"
  shows "\<exists>t'. kvs_rbtree_set [] t (Some k) (Some v) = Inr (0, t', []) \<and> rbtree_inv t' \<and>
    rbtree_content t' = (rbtree_content t)(k \<mapsto> v) \<and> count t' = count t + 1 \<and>
    length (inorder (root t')) = Suc (length (inorder (root t)))"
  using inv
proof (cases rule: rbtree_search_cases[of t k])
  case (absent p)
  then have loc: "rb_locate strcmp fst (fst (k, Str v)) (root t) [] = (RNil, p)"
    by (simp add: rbtree_search_def)
  have "rb_inv strcmp fst (root t)" using inv by (simp add: rbtree_inv_def)
  from strcmp.insert_at[OF this loc] obtain r' where
    r': "rbtree_insert_fixup (RNode RED RNil (k, Str v) RNil) p = Some r'" "rb_inv strcmp fst r'"
      "kmap fst r' = (kmap fst (root t))(k \<mapsto> (k, Str v))"
      "length (inorder r') = Suc (length (inorder (root t)))" by auto
  then have "kvs_rbtree_set [] t (Some k) (Some v) = Inr (0, t\<lparr>root := r', count := count t + 1\<rparr>, [])"
    using loc inv by (simp add: kvs_rbtree_set_def rbtree_insert_def rbtree_inv_def)
  with rbtree_inv_content_upd[OF inv r'(2,3)] r'(4) show ?thesis by simp
next
  case (present c l v r p)
  with assms(2) show ?thesis by simp
qed

lemma kvs_rbtree_delete_ok:
  assumes inv: "rbtree_inv t"
  shows "\<exists>t'. kvs_rbtree_delete t (Some k) = Inr (if k \<in> dom (rbtree_content t) then 0 else -1, t') \<and>
    rbtree_inv t' \<and> rbtree_content t' = (rbtree_content t)(k := None) \<and>
    count t' = (if k \<in> dom (rbtree_content t) then count t - 1 else count t)"
  using inv
proof (cases rule: rbtree_search_cases[of t k])
  case (absent p)
  with inv show ?thesis by (auto simp: kvs_rbtree_delete_def)
next
  case (present c l v r p)
  then have loc: "rb_locate strcmp fst k (root t) [] = (RNode c l (k, Str v) r, p)"
    by (simp add: rbtree_search_def)
  have "rb_inv strcmp fst (root t)" using inv by (simp add: rbtree_inv_def)
  from strcmp.delete_at[OF this loc] obtain r' where
    r': "rbtree_delete (RNode c l (k, Str v) r) p = Some (r', k, Str v)" "rb_inv strcmp fst r'"
      "kmap fst r' = (kmap fst (root t))(k := None)" by auto
  have "kvs_rbtree_delete t (Some k) = Inr (0, t\<lparr>root := r', count := count t - 1\<rparr>)"
    using present r'(1) by (simp add: kvs_rbtree_delete_def del: rbtree_delete.simps)
  with rbtree_inv_content_del[OF inv r'(2,3)] present show ?thesis by auto
qed

lemma kvs_rbtree_modify_ok:
  assumes inv: "rbtree_inv t"
  shows "\<exists>t'. kvs_rbtree_modify [] t (Some k) (Some v) =
      Inr (if k \<in> dom (rbtree_content t) then 0 else -1, t', []) \<and>
    rbtree_inv t' \<and> rbtree_content t' = spec_mod False (rbtree_content t) k v \<and> count t' = count t"
  using inv
proof (cases rule: rbtree_search_cases[of t k])
  case (absent p)
  with inv show ?thesis by (auto simp: kvs_rbtree_modify_def spec_mod_def)
next
  case (present c l w r p)
  then have loc: "rb_locate strcmp fst k (root t) [] = (RNode c l (k, Str w) r, p)"
    by (simp add: rbtree_search_def)
  have "rb_inv strcmp fst (root t)" using inv by (simp add: rbtree_inv_def)
  note up = strcmp.update_at[OF this loc, of "(k, Str v)"]
  have "kvs_rbtree_modify [] t (Some k) (Some v) =
      Inr (0, t\<lparr>root := plug (RNode c l (k, Str v) r) p\<rparr>, [])"
    using present by (simp add: kvs_rbtree_modify_def)
  with rbtree_inv_content_upd(2,4)[OF inv, of "plug (RNode c l (k, Str v) r) p" k v] up present
  show ?thesis by (auto simp: spec_mod_def)
qed

text \<open>The engine's contract: a set of a present key leaves the old value, modify never inserts.\<close>

definition rbtree_get_op :: "rbtree \<Rightarrow> string \<Rightarrow> cptr outcome" where
  "rbtree_get_op t k = kvs_rbtree_get t (Some k)"

definition rbtree_set_op :: "rbtree \<Rightarrow> string \<Rightarrow> string \<Rightarrow> (int \<times> rbtree) outcome" where
  "rbtree_set_op t k v = map_sum id (\<lambda>(r, t', h). (r, t')) (kvs_rbtree_set [] t (Some k) (Some v))"

definition rbtree_del_op :: "rbtree \<Rightarrow> string \<Rightarrow> string \<Rightarrow> (int \<times> rbtree) outcome" where
  "rbtree_del_op t k v = kvs_rbtree_delete t (Some k)"

definition rbtree_mod_op :: "rbtree \<Rightarrow> string \<Rightarrow> string \<Rightarrow> (int \<times> rbtree) outcome" where
  "rbtree_mod_op t k v =
     map_sum id (\<lambda>(r, t', h). (r, t')) (kvs_rbtree_modify [] t (Some k) (Some v))"

interpretation rbt: kv_engine False False rbtree_inv "\<lambda>t k v. True" "\<lambda>t k. True" rbtree_content
  rbtree_get_op rbtree_set_op rbtree_del_op rbtree_mod_op
proof unfold_locales
  fix s :: rbtree and k v :: string
  assume inv: "rbtree_inv s"
  show "rbtree_get_op s k = Inr (cptr_of (rbtree_content s k))"
    by (simp add: rbtree_get_op_def kvs_rbtree_get_content[OF inv])
  show "\<exists>r s'. rbtree_del_op s k v = Inr (r, s') \<and> rbtree_inv s' \<and>
      rbtree_content s' = (rbtree_content s)(k := None)"
    unfolding rbtree_del_op_def using kvs_rbtree_delete_ok[OF inv, of k] by blast
  show "\<exists>r s'. rbtree_mod_op s k v = Inr (r, s') \<and> rbtree_inv s' \<and>
      rbtree_content s' = spec_mod False (rbtree_content s) k v"
    using kvs_rbtree_modify_ok[OF inv, of k v] by (auto simp: rbtree_mod_op_def)
  show "\<exists>r s'. rbtree_set_op s k v = Inr (r, s') \<and> rbtree_inv s' \<and>
      rbtree_content s' = spec_set False (rbtree_content s) k v"
    using inv kvs_rbtree_set_present[OF inv, of k v] kvs_rbtree_set_fresh[OF inv, of k v]
    by (cases "rbtree_content s k") (auto simp: rbtree_set_op_def spec_set_def)
qed

text \<open>The recursive destruction visits every node exactly once.\<close>

lemma mset_destroy: "mset (rbtree_destroy_recursive t) = mset (inorder t)"
  by (induction t) auto

lemma set_destroy: "set (rbtree_destroy_recursive t) = set (inorder t)"
  using mset_destroy[of t] by (metis set_mset_mset)

lemma is_str_free_ok: "is_str p \<Longrightarrow> free_ok p"
  by (cases p) (simp_all add: is_str_def)

lemma kv_store_rbtree_destroy_ok:
  "rbtree_inv t \<Longrightarrow> kv_store_rbtree_destroy t = Inr \<lparr>root = RNil, nil_ok = False, count = 0\<rparr>"
  by (simp add: kv_store_rbtree_destroy_def rbtree_inv_def list_all_iff set_destroy is_str_free_ok)

lemma rbtree_inv_rbt: "rbtree_inv t \<Longrightarrow> rbt (root t)"
  by (simp add: rbtree_inv_def rb_inv_def)

lemma traversal_keys: "map fst (rbtree_traversal t) = map fst (inorder t)"
  by (induction t) auto

section \<open>Properties\<close>

text \<open>
  C14: inserting a new key with \<open>kvs_rbtree_set\<close> succeeds, never reads the sentinel's links,
  and leaves a sorted red-black tree (colour rule, equal black heights, black root) holding the
  old bindings and the new one, one node more and the counter one higher.
\<close>

theorem rbtree_set_fresh_refines:
  assumes "rbtree_inv t" and "rbtree_content t k = None"
  shows "\<exists>t'. kvs_rbtree_set [] t (Some k) (Some v) = Inr (0, t', []) \<and> rbtree_inv t' \<and>
    rbt (root t') \<and> rbtree_content t' = (rbtree_content t)(k \<mapsto> v) \<and>
    length (inorder (root t')) = Suc (length (inorder (root t))) \<and>
    kvs_rbtree_count t' = kvs_rbtree_count t + 1"
proof -
  from kvs_rbtree_set_fresh[OF assms, of v] obtain t' where
    t': "kvs_rbtree_set [] t (Some k) (Some v) = Inr (0, t', [])" "rbtree_inv t'"
      "rbtree_content t' = (rbtree_content t)(k \<mapsto> v)" "count t' = count t + 1"
      "length (inorder (root t')) = Suc (length (inorder (root t)))" by blast
  with rbtree_inv_rbt show ?thesis by (simp add: kvs_rbtree_count_def)
qed

definition tree_ab :: rbtree where
  "tree_ab = \<lparr>root = RNode BLACK RNil (''a'', Str ''1'') (RNode RED RNil (''b'', Str ''2'') RNil),
     nil_ok = True, count = 2\<rparr>"

lemma tree_ab_inv: "rbtree_inv tree_ab"
  by (simp add: tree_ab_def rbtree_inv_def rb_inv_def rbt_def ksorted_def)

lemma tree_ab_content:
  "rbtree_content tree_ab = [''a'' \<mapsto> ''1'', ''b'' \<mapsto> ''2'']"
  by (auto simp: tree_ab_def rbtree_content_def kmap_def fun_eq_iff)

theorem rbtree_set_fresh_refines_witness:
  "\<exists>t'. kvs_rbtree_set [] tree_ab (Some ''c'') (Some ''3'') = Inr (0, t', []) \<and> rbtree_inv t' \<and>
    rbt (root t') \<and> rbtree_content t' = (rbtree_content tree_ab)(''c'' \<mapsto> ''3'') \<and>
    length (inorder (root t')) = Suc (length (inorder (root tree_ab))) \<and>
    kvs_rbtree_count t' = kvs_rbtree_count tree_ab + 1"
  by (rule rbtree_set_fresh_refines[OF tree_ab_inv]) (simp add: tree_ab_content)

text \<open>
  C13: \<open>kvs_rbtree_delete\<close> (successor splice and the deletion fix-up loop) never faults on a
  well-formed tree, removes exactly the given key, keeps the red-black invariants and the order,
  and returns 0 or -1 according to whether the key was there.
\<close>

theorem rbtree_delete_refines:
  assumes "rbtree_inv t"
  shows "\<exists>t'. kvs_rbtree_delete t (Some k) = Inr (if k \<in> dom (rbtree_content t) then 0 else -1, t') \<and>
    rbtree_inv t' \<and> rbt (root t') \<and> rbtree_content t' = (rbtree_content t)(k := None)"
  using kvs_rbtree_delete_ok[OF assms, of k] rbtree_inv_rbt by blast

theorem rbtree_delete_refines_witness:
  "\<exists>t'. kvs_rbtree_delete tree_ab (Some ''a'') =
      Inr (if ''a'' \<in> dom (rbtree_content tree_ab) then 0 else -1, t') \<and>
    rbtree_inv t' \<and> rbt (root t') \<and> rbtree_content t' = (rbtree_content tree_ab)(''a'' := None)"
  by (rule rbtree_delete_refines[OF tree_ab_inv])



text \<open>
  C37: a \<open>kvs_rbtree_set\<close> of a key that is already in the tree reports success but stores
  nothing: every binding is as before, and the counter is nevertheless increased, so it no longer
  agrees with the number of nodes.
\<close>

theorem rbtree_set_present_ignored:
  assumes "rbtree_inv t" and "rbtree_content t k = Some w"
  shows "\<exists>t'. kvs_rbtree_set [] t (Some k) (Some v) = Inr (0, t', []) \<and>
    rbtree_content t' = rbtree_content t \<and> kvs_rbtree_get t' (Some k) = Inr (Str w) \<and>
    root t' = root t \<and> kvs_rbtree_count t' = kvs_rbtree_count t + 1"
  using kvs_rbtree_set_present[OF assms(1), of k v] assms kvs_rbtree_get_content
  by (simp add: kvs_rbtree_count_def)

theorem rbtree_set_present_ignored_witness:
  "\<exists>t'. kvs_rbtree_set [] tree_ab (Some ''a'') (Some ''9'') = Inr (0, t', []) \<and>
    rbtree_content t' = rbtree_content tree_ab \<and> kvs_rbtree_get t' (Some ''a'') = Inr (Str ''1'') \<and>
    root t' = root tree_ab \<and> kvs_rbtree_count t' = kvs_rbtree_count tree_ab + 1"
  by (rule rbtree_set_present_ignored[OF tree_ab_inv]) (simp add: tree_ab_content)

end
