(* ===== verification/RBT_Adapter.thy ===== *)
theory RBT_Adapter
  imports RBT_Engine
begin

text \<open>
  The tree form of a hash bucket, \<open>src/kvserver/rbtree_adapter.c\<close> with the structures of
  \<open>rbtree_adapter.h\<close>. The private tree stores, per key copy, the pointer to a hash node; the
  model keeps the hash node itself and a flag \<open>alive\<close> that a \<open>free\<close> of the node clears.
  The rotations and fix-up loops of this file are those of \<open>kvstore_rbtree.c\<close> statement by
  statement and are named here as such; the deletion is written differently (it moves the successor
  node instead of swapping payloads) and is modelled and proved equivalent.
\<close>

section \<open>Hash nodes and the adapter\<close>

datatype node_type = NODE_TYPE_LIST | NODE_TYPE_TREE

record hash_node =
  nkey :: string
  nval :: cptr
  ntype :: node_type
  alive :: bool

type_synonym adapter_item = "string \<times> hash_node"

record rbtree_adapter =
  tree_root :: "adapter_item rbtree_node"
  tree_count :: int
  adapter_count :: int

text \<open>The file's own copies of the rotations and fix-up loops.\<close>

definition adapter_left_rotate :: "'a rbtree_node \<Rightarrow> 'a rbtree_node option" where
  [simp]: "adapter_left_rotate = rbtree_left_rotate"

definition adapter_right_rotate :: "'a rbtree_node \<Rightarrow> 'a rbtree_node option" where
  [simp]: "adapter_right_rotate = rbtree_right_rotate"

definition adapter_insert_fixup :: "'a rbtree_node \<Rightarrow> 'a path \<Rightarrow> 'a rbtree_node option" where
  [simp]: "adapter_insert_fixup = rbtree_insert_fixup"

definition adapter_minimum :: "'a rbtree_node \<Rightarrow> 'a path \<Rightarrow> 'a rbtree_node \<times> 'a path" where
  [simp]: "adapter_minimum = rbtree_mini"

definition adapter_delete_fixup :: "'a rbtree_node \<Rightarrow> 'a path \<Rightarrow> 'a rbtree_node option" where
  [simp]: "adapter_delete_fixup = rbtree_delete_fixup"

definition adapter_rbtree_search ::
  "adapter_item rbtree_node \<Rightarrow> string \<Rightarrow> adapter_item rbtree_node \<times> adapter_item path" where
  "adapter_rbtree_search t k = rb_locate strcmp fst k t []"

text \<open>\<open>adapter_rbtree_create_node\<close>: the node and the copy of the key, two allocations.\<close>

definition adapter_rbtree_create_node ::
  "script \<Rightarrow> string \<Rightarrow> hash_node \<Rightarrow> adapter_item option \<times> script" where
  "adapter_rbtree_create_node h k n =
     (let (ok, h1) = malloc h in
      if \<not> ok then (None, h1)
      else (let (ok2, h2) = malloc h1 in if \<not> ok2 then (None, h2) else (Some (k, n), h2)))"

definition adapter_rbtree_insert_node :: "rbtree_adapter \<Rightarrow> adapter_item \<Rightarrow> rbtree_adapter outcome" where
  "adapter_rbtree_insert_node ad z =
     (case rb_locate strcmp fst (fst z) (tree_root ad) [] of
        (RNode c l a r, p) \<Rightarrow> Inr (ad\<lparr>tree_root := plug (RNode c l (fst a, snd z) r) p\<rparr>)
      | (RNil, p) \<Rightarrow>
          (case adapter_insert_fixup (RNode RED RNil z RNil) p of
             None \<Rightarrow> Inl NilSentinel
           | Some t \<Rightarrow> Inr (ad\<lparr>tree_root := t, tree_count := tree_count ad + 1\<rparr>)))"

text \<open>
  \<open>adapter_rbtree_delete_node\<close>: the child of \<open>z\<close> is transplanted into its place, or the
  minimum \<open>y\<close> of the right subtree moves there with \<open>z\<close>'s colour; the fix-up runs where a
  black node went missing.
\<close>

definition fix_after :: "color \<Rightarrow> 'a rbtree_node \<Rightarrow> 'a path \<Rightarrow> 'a rbtree_node option" where
  "fix_after c x p = (if c = BLACK then adapter_delete_fixup x p else Some (plug x p))"

fun adapter_rbtree_delete_node :: "'a rbtree_node \<Rightarrow> 'a path \<Rightarrow> 'a rbtree_node option" where
  "adapter_rbtree_delete_node RNil p = None"
| "adapter_rbtree_delete_node (RNode c l a r) p =
     (if l = RNil then fix_after c r p
      else if r = RNil then fix_after c l p
      else (case adapter_minimum r [] of
              (RNode yc yl b yr, q) \<Rightarrow> fix_after yc yr (q @ RightOf c l b # p)
            | (RNil, q) \<Rightarrow> None))"

definition rbtree_adapter_create :: "script \<Rightarrow> (rbtree_adapter option \<times> script) outcome" where
  "rbtree_adapter_create h =
     (let (ok, h1) = malloc h in
      if \<not> ok then Inr (None, h1)
      else (let (ok2, h2) = malloc h1 in
        if \<not> ok2 then Inr (None, h2)
        else (case kv_store_rbtree_create h2 of
          Inl e \<Rightarrow> Inl e
        | Inr (r, t, h3) \<Rightarrow>
            let (ok4, h4) = malloc h3 in
            if \<not> ok4 then Inr (None, h4)
            else Inr (Some \<lparr>tree_root = RNil, tree_count = 0, adapter_count = 0\<rparr>, h4))))"

text \<open>
  \<open>rbtree_adapter_destroy\<close> hands the tree to \<open>kv_store_rbtree_destroy\<close>, which frees every
  node's \<open>value\<close>: here that is the hash node.
\<close>

definition rbtree_adapter_destroy :: "rbtree_adapter \<Rightarrow> unit outcome" where
  "rbtree_adapter_destroy ad =
     (if list_all (\<lambda>a. alive (snd a)) (rbtree_destroy_recursive (tree_root ad))
      then Inr () else Inl DoubleFree)"

text \<open>The search result is allocated: without memory a present key is reported as missing.\<close>

definition rbtree_adapter_search ::
  "script \<Rightarrow> rbtree_adapter \<Rightarrow> string \<Rightarrow>
     (adapter_item rbtree_node \<times> adapter_item path) option \<times> script" where
  "rbtree_adapter_search h ad k =
     (case adapter_rbtree_search (tree_root ad) k of
        (RNil, p) \<Rightarrow> (None, h)
      | (RNode c l a r, p) \<Rightarrow>
          let (ok, h1) = malloc h in
          if \<not> ok then (None, h1) else (Some (RNode c l a r, p), h1))"

definition rbtree_adapter_insert ::
  "script \<Rightarrow> rbtree_adapter \<Rightarrow> hash_node \<Rightarrow> (rbtree_adapter \<times> script) outcome" where
  "rbtree_adapter_insert h ad n =
     (case adapter_rbtree_create_node h (nkey n) (n\<lparr>ntype := NODE_TYPE_TREE\<rparr>) of
        (None, h1) \<Rightarrow> Inr (ad, h1)
      | (Some z, h1) \<Rightarrow>
          (case adapter_rbtree_insert_node ad z of
             Inl e \<Rightarrow> Inl e
           | Inr ad' \<Rightarrow> Inr (ad'\<lparr>adapter_count := adapter_count ad' + 1\<rparr>, h1)))"

definition rbtree_adapter_delete ::
  "rbtree_adapter \<Rightarrow> string \<Rightarrow> (hash_node option \<times> rbtree_adapter) outcome" where
  "rbtree_adapter_delete ad k =
     (case adapter_rbtree_search (tree_root ad) k of
        (RNil, p) \<Rightarrow> Inr (None, ad)
      | (RNode c l a r, p) \<Rightarrow>
          (case adapter_rbtree_delete_node (RNode c l a r) p of
             None \<Rightarrow> Inl NilSentinel
           | Some t \<Rightarrow> Inr (Some (snd a), ad\<lparr>tree_root := t, tree_count := tree_count ad - 1,
                                         adapter_count := adapter_count ad - 1\<rparr>)))"

fun collect_nodes_recursive :: "adapter_item rbtree_node \<Rightarrow> hash_node list" where
  "collect_nodes_recursive RNil = []"
| "collect_nodes_recursive (RNode c l a r) =
     collect_nodes_recursive l @ snd a # collect_nodes_recursive r"

definition rbtree_adapter_inorder_traversal :: "rbtree_adapter \<Rightarrow> hash_node list" where
  "rbtree_adapter_inorder_traversal ad = collect_nodes_recursive (tree_root ad)"

section \<open>Equivalence of the two deletions\<close>

lemma adapter_delete_node_conv:
  "map_option fst (rbtree_delete t p) = adapter_rbtree_delete_node t p"
proof (cases t)
  case RNil
  then show ?thesis by simp
next
  case (RNode c l a r)
  obtain y q where m: "rbtree_mini r [] = (y, q)" by fastforce
  show ?thesis
  proof (cases "l = RNil \<or> r = RNil")
    case True
    with RNode show ?thesis
      by (auto simp: fix_after_def Let_def map_option_bind comp_def split: bind_splits)
  next
    case False
    then obtain yc b yr where "y = RNode yc RNil b yr"
      using rbtree_mini_props(2)[OF m] by auto
    with False RNode m show ?thesis
      by (auto simp: fix_after_def Let_def map_option_bind comp_def split: bind_splits)
  qed
qed

text \<open>
  C37: moving the successor node (\<open>adapter_rbtree_delete_node\<close>) and swapping payloads with it
  (\<open>rbtree_delete\<close>) give the same tree at every position of every tree.
\<close>

theorem delete_node_eq_rbtree_delete:
  "map_option fst (rbtree_delete t p) = adapter_rbtree_delete_node t p"
  by (rule adapter_delete_node_conv)

end
