(* ===== verification/Hash_Engine.thy ===== *)
theory Hash_Engine
  imports RBT_Adapter "HOL-Library.Word"
begin

text \<open>
  The hash engine, \<open>src/kvserver/kvstore_hash.c\<close>: FNV-1a, buckets that are linked lists and
  turn into trees of \<open>rbtree_adapter.c\<close> at eight nodes, growth at load factor 0.75. One
  definition per C function, compiled as in the build (\<open>ENABLE_POINTER_KEY\<close> and
  \<open>USE_RBTREE\<close> on). A list node carries the flag \<open>alive\<close>; reading a freed node is the fault
  \<open>UseAfterFree\<close>. \<open>put_kv_hashtable\<close> and \<open>_rehash\<close> call each other; the model's fuel bounds
  the depth of that recursion, and the invariant below shows that depth two is never exceeded.

  The comparison \<open>(float)count / max_slots > 0.75f\<close> is written on integers. The two agree
  below 2^23 slots: the exact quotient then differs from 3/4 by more than half a unit in the last
  place, and rounding is monotone.
\<close>

unbundle bit_operations_syntax

section \<open>State\<close>

datatype bucket_data = BList "hash_node list" | BTree rbtree_adapter

record bucket_t =
  data :: bucket_data
  bsize :: int

record hashtable_t =
  buckets :: "bucket_t list option"
  max_slots :: nat
  hcount :: int

abbreviation TREEIFY_THRESHOLD :: int where "TREEIFY_THRESHOLD \<equiv> 8"
abbreviation UNTREEIFY_THRESHOLD :: int where "UNTREEIFY_THRESHOLD \<equiv> 6"
abbreviation INITIAL_CAPACITY :: nat where "INITIAL_CAPACITY \<equiv> 1024"

section \<open>Hashing\<close>

fun fnv1a_loop :: "string \<Rightarrow> 32 word \<Rightarrow> 32 word" where
  "fnv1a_loop [] hash = hash"
| "fnv1a_loop (c # cs) hash = fnv1a_loop cs ((hash XOR of_char c) * 16777619)"

definition hash_fnv1a :: "string option \<Rightarrow> 32 word" where
  "hash_fnv1a key_p = (case key_p of None \<Rightarrow> 0 | Some k \<Rightarrow> fnv1a_loop k 2166136261)"

definition hash_index :: "string \<Rightarrow> nat \<Rightarrow> nat outcome" where
  "hash_index k slots =
     (if slots = 0 then Inl DivByZero else Inr (nat (uint (hash_fnv1a (Some k)) mod int slots)))"

definition load_exceeds :: "hashtable_t \<Rightarrow> bool" where
  "load_exceeds ht \<longleftrightarrow> max_slots ht \<noteq> 0 \<and> 4 * hcount ht > 3 * int (max_slots ht)"

section \<open>Nodes and buckets\<close>

text \<open>\<open>_create_node\<close>: the node, the key copy and the value copy.\<close>

definition create_node :: "script \<Rightarrow> string \<Rightarrow> string \<Rightarrow> hash_node option \<times> script" where
  "create_node h k v =
     (let (ok, h1) = malloc h in
      if \<not> ok then (None, h1)
      else (let (ok2, h2) = malloc h1 in
        if \<not> ok2 then (None, h2)
        else (let (ok3, h3) = malloc h2 in
          if \<not> ok3 then (None, h3)
          else (Some \<lparr>nkey = k, nval = Str v, ntype = NODE_TYPE_LIST, alive = True\<rparr>, h3))))"

fun treeify_loop ::
  "script \<Rightarrow> rbtree_adapter \<Rightarrow> hash_node list \<Rightarrow> (rbtree_adapter \<times> script) outcome" where
  "treeify_loop h ad [] = Inr (ad, h)"
| "treeify_loop h ad (n # ns) =
     (if \<not> alive n then Inl UseAfterFree
      else obind (rbtree_adapter_insert h ad n) (\<lambda>(ad', h1). treeify_loop h1 ad' ns))"

definition treeify_bucket :: "script \<Rightarrow> bucket_t \<Rightarrow> (bucket_t \<times> script) outcome" where
  "treeify_bucket h b =
     (case data b of
        BTree ad \<Rightarrow> Inr (b, h)
      | BList ns \<Rightarrow>
          obind (rbtree_adapter_create h) (\<lambda>(ad_p, h1).
            case ad_p of
              None \<Rightarrow> Inr (b, h1)
            | Some ad \<Rightarrow> obind (treeify_loop h1 ad ns) (\<lambda>(ad', h2).
                Inr (b\<lparr>data := BTree ad'\<rparr>, h2))))"

text \<open>
  \<open>_untreeify_bucket\<close> relinks the hash nodes into a list, last in order first, and then
  destroys the adapter, whose destruction frees those very nodes.
\<close>

definition untreeify_bucket :: "script \<Rightarrow> bucket_t \<Rightarrow> (bucket_t \<times> script) outcome" where
  "untreeify_bucket h b =
     (case data b of
        BList ns \<Rightarrow> Inr (b, h)
      | BTree ad \<Rightarrow>
          let (ok, h1) = malloc h in
          if \<not> ok then Inr (b, h1)
          else (let nodes = rbtree_adapter_inorder_traversal ad in
            if int (length nodes) > bsize b then Inl OutOfBounds
            else (let list = rev (map (\<lambda>n. n\<lparr>ntype := NODE_TYPE_LIST\<rparr>) nodes) in
              obind (rbtree_adapter_destroy ad) (\<lambda>u.
                Inr (b\<lparr>data := BList (map (\<lambda>n. n\<lparr>alive := False\<rparr>) list)\<rparr>, h1)))))"

text \<open>The list search loop: the position of the key; a freed node must not be read.\<close>

fun list_find :: "string \<Rightarrow> hash_node list \<Rightarrow> nat \<Rightarrow> nat option outcome" where
  "list_find k [] i = Inr None"
| "list_find k (n # ns) i =
     (if \<not> alive n then Inl UseAfterFree
      else if strcmp (nkey n) k = 0 then Inr (Some i)
      else list_find k ns (Suc i))"

definition with_bucket :: "hashtable_t \<Rightarrow> nat \<Rightarrow> bucket_t \<Rightarrow> hashtable_t" where
  "with_bucket ht i b = ht\<lparr>buckets := map_option (\<lambda>bs. bs[i := b]) (buckets ht)\<rparr>"

definition the_bucket :: "hashtable_t \<Rightarrow> nat \<Rightarrow> bucket_t outcome" where
  "the_bucket ht i =
     (case buckets ht of
        None \<Rightarrow> Inl NullDeref
      | Some bs \<Rightarrow> if i < length bs then Inr (bs ! i) else Inl OutOfBounds)"

section \<open>Insertion and growth\<close>

text \<open>Storing a new value in an existing node: the old value is freed first.\<close>

definition store_value :: "script \<Rightarrow> hash_node \<Rightarrow> string \<Rightarrow> (int \<times> hash_node \<times> script) outcome" where
  "store_value h n v =
     (if \<not> alive n then Inl UseAfterFree
      else if \<not> free_ok (nval n) then Inl DoubleFree
      else (let (ok, h1) = malloc h in
        if \<not> ok then Inr (-1, n\<lparr>nval := Null\<rparr>, h1) else Inr (1, n\<lparr>nval := Str v\<rparr>, h1)))"

definition put_tree ::
  "script \<Rightarrow> hashtable_t \<Rightarrow> nat \<Rightarrow> bucket_t \<Rightarrow> rbtree_adapter \<Rightarrow> string \<Rightarrow> string \<Rightarrow>
     (int \<times> hashtable_t \<times> script) outcome" where
  "put_tree h ht i b ad k v =
     (case rbtree_adapter_search h ad k of
        (Some (RNode c l a r, p), h1) \<Rightarrow>
          obind (store_value h1 (snd a) v) (\<lambda>(res, n, h2).
            Inr (res, with_bucket ht i
              (b\<lparr>data := BTree (ad\<lparr>tree_root := plug (RNode c l (fst a, n) r) p\<rparr>)\<rparr>), h2))
      | (Some (RNil, p), h1) \<Rightarrow> Inl NilSentinel
      | (None, h1) \<Rightarrow>
          (case create_node h1 k v of
             (None, h2) \<Rightarrow> Inr (-1, ht, h2)
           | (Some n, h2) \<Rightarrow>
               obind (rbtree_adapter_insert h2 ad (n\<lparr>ntype := NODE_TYPE_TREE\<rparr>)) (\<lambda>(ad', h3).
                 Inr (0, (with_bucket ht i (b\<lparr>data := BTree ad', bsize := bsize b + 1\<rparr>))
                   \<lparr>hcount := hcount ht + 1\<rparr>, h3))))"

definition put_list ::
  "script \<Rightarrow> hashtable_t \<Rightarrow> nat \<Rightarrow> bucket_t \<Rightarrow> hash_node list \<Rightarrow> string \<Rightarrow> string \<Rightarrow>
     (int \<times> hashtable_t \<times> script) outcome" where
  "put_list h ht i b ns k v =
     obind (list_find k ns 0) (\<lambda>pos.
       case pos of
         Some j \<Rightarrow>
           obind (store_value h (ns ! j) v) (\<lambda>(res, n, h1).
             Inr (res, with_bucket ht i (b\<lparr>data := BList (ns[j := n])\<rparr>), h1))
       | None \<Rightarrow>
           (case create_node h k v of
              (None, h1) \<Rightarrow> Inr (-1, ht, h1)
            | (Some n, h1) \<Rightarrow>
                let b1 = b\<lparr>data := BList (n # ns), bsize := bsize b + 1\<rparr> in
                obind (if bsize b1 \<ge> TREEIFY_THRESHOLD then treeify_bucket h1 b1 else Inr (b1, h1))
                  (\<lambda>(b2, h2). Inr (0, (with_bucket ht i b2)\<lparr>hcount := hcount ht + 1\<rparr>, h2))))"

type_synonym put_fn =
  "script \<Rightarrow> hashtable_t \<Rightarrow> string option \<Rightarrow> string option \<Rightarrow> (int \<times> hashtable_t \<times> script) outcome"

text \<open>The reinsertion loops of \<open>_rehash\<close>; each old node is freed after its reinsertion.\<close>

fun reinsert :: "put_fn \<Rightarrow> script \<Rightarrow> hashtable_t \<Rightarrow> hash_node list \<Rightarrow> (hashtable_t \<times> script) outcome" where
  "reinsert put h ht [] = Inr (ht, h)"
| "reinsert put h ht (n # ns) =
     (if \<not> alive n then Inl UseAfterFree
      else obind (read_ptr (nval n)) (\<lambda>v.
        obind (put h ht (Some (nkey n)) v) (\<lambda>(r, ht', h1). reinsert put h1 ht' ns)))"

definition freed_nodes :: "rbtree_adapter \<Rightarrow> rbtree_adapter" where
  "freed_nodes ad = ad\<lparr>tree_root :=
     map_rbtree_node (\<lambda>a. (fst a, (snd a)\<lparr>alive := False\<rparr>)) (tree_root ad)\<rparr>"

definition rehash_bucket ::
  "put_fn \<Rightarrow> script \<Rightarrow> hashtable_t \<Rightarrow> bucket_t \<Rightarrow> (hashtable_t \<times> script) outcome" where
  "rehash_bucket put h ht b =
     (case data b of
        BTree ad \<Rightarrow>
          let (ok, h1) = malloc h in
          if \<not> ok then Inr (ht, h1)
          else (let nodes = rbtree_adapter_inorder_traversal ad in
            if int (length nodes) > bsize b then Inl OutOfBounds
            else obind (reinsert put h1 ht nodes) (\<lambda>(ht', h2).
              obind (rbtree_adapter_destroy (freed_nodes ad)) (\<lambda>u. Inr (ht', h2))))
      | BList ns \<Rightarrow> reinsert put h ht ns)"

fun rehash_buckets ::
  "put_fn \<Rightarrow> script \<Rightarrow> hashtable_t \<Rightarrow> bucket_t list \<Rightarrow> (hashtable_t \<times> script) outcome" where
  "rehash_buckets put h ht [] = Inr (ht, h)"
| "rehash_buckets put h ht (b # bs) =
     obind (rehash_bucket put h ht b) (\<lambda>(ht', h1). rehash_buckets put h1 ht' bs)"

definition empty_bucket :: bucket_t where
  "empty_bucket = \<lparr>data = BList [], bsize = 0\<rparr>"

definition rehash ::
  "put_fn \<Rightarrow> script \<Rightarrow> hashtable_t \<Rightarrow> nat \<Rightarrow> (int \<times> hashtable_t \<times> script) outcome" where
  "rehash put h ht new_size =
     (if new_size = 0 then Inr (-1, ht, h)
      else (let (ok, h1) = malloc h in
        if \<not> ok then Inr (-1, ht, h1)
        else (let old_buckets = (case buckets ht of None \<Rightarrow> [] | Some bs \<Rightarrow> take (max_slots ht) bs);
                  ht1 = \<lparr>buckets = Some (replicate new_size empty_bucket), max_slots = new_size,
                         hcount = 0\<rparr> in
          obind (rehash_buckets put h1 ht1 old_buckets) (\<lambda>(ht2, h2). Inr (0, ht2, h2)))))"

definition check_capacity :: "put_fn \<Rightarrow> script \<Rightarrow> hashtable_t \<Rightarrow> (hashtable_t \<times> script) outcome" where
  "check_capacity put h ht =
     (if load_exceeds ht
      then obind (rehash put h ht (max_slots ht * 2)) (\<lambda>(r, ht', h1). Inr (ht', h1))
      else Inr (ht, h))"

fun put_kv_hashtable :: "nat \<Rightarrow> put_fn" where
  "put_kv_hashtable 0 h ht key_p value_p = Inl OutOfFuel"
| "put_kv_hashtable (Suc fuel) h ht key_p value_p =
     (case (key_p, value_p) of
        (Some k, Some v) \<Rightarrow>
          obind (check_capacity (\<lambda>h' ht' k' v'. put_kv_hashtable fuel h' ht' k' v') h ht) (\<lambda>(ht1, h1).
            obind (hash_index k (max_slots ht1)) (\<lambda>i.
              obind (the_bucket ht1 i) (\<lambda>b.
                case data b of
                  BTree ad \<Rightarrow> put_tree h1 ht1 i b ad k v
                | BList ns \<Rightarrow> put_list h1 ht1 i b ns k v)))
      | _ \<Rightarrow> Inr (-1, ht, h))"

section \<open>Creation, destruction, lookup, deletion\<close>

definition init_hashtable :: "script \<Rightarrow> hashtable_t \<Rightarrow> int \<times> hashtable_t \<times> script" where
  "init_hashtable h ht =
     (let (ok, h1) = malloc h in
      if \<not> ok then (-1, \<lparr>buckets = None, max_slots = INITIAL_CAPACITY, hcount = 0\<rparr>, h1)
      else (0, \<lparr>buckets = Some (replicate INITIAL_CAPACITY empty_bucket),
                max_slots = INITIAL_CAPACITY, hcount = 0\<rparr>, h1))"

definition dest_bucket :: "bucket_t \<Rightarrow> unit outcome" where
  "dest_bucket b =
     (case data b of
        BTree ad \<Rightarrow> rbtree_adapter_destroy ad
      | BList ns \<Rightarrow>
          if list_ex (\<lambda>n. \<not> alive n) ns then Inl UseAfterFree
          else if list_all (\<lambda>n. free_ok (nval n)) ns then Inr () else Inl DoubleFree)"

fun dest_buckets :: "bucket_t list \<Rightarrow> unit outcome" where
  "dest_buckets [] = Inr ()"
| "dest_buckets (b # bs) = obind (dest_bucket b) (\<lambda>u. dest_buckets bs)"

definition dest_hashtable :: "hashtable_t \<Rightarrow> hashtable_t outcome" where
  "dest_hashtable ht =
     (let gone = \<lparr>buckets = None, max_slots = 0, hcount = 0\<rparr> in
      case buckets ht of
        None \<Rightarrow> if max_slots ht = 0 then Inr gone else Inl NullDeref
      | Some bs \<Rightarrow> obind (dest_buckets (take (max_slots ht) bs)) (\<lambda>u. Inr gone))"

definition get_kv_hashtable ::
  "script \<Rightarrow> hashtable_t \<Rightarrow> string option \<Rightarrow> (cptr \<times> script) outcome" where
  "get_kv_hashtable h ht key_p =
     (case key_p of
        None \<Rightarrow> Inr (Null, h)
      | Some k \<Rightarrow>
          obind (hash_index k (max_slots ht)) (\<lambda>i.
            obind (the_bucket ht i) (\<lambda>b.
              case data b of
                BTree ad \<Rightarrow>
                  (case rbtree_adapter_search h ad k of
                     (Some (RNode c l a r, p), h1) \<Rightarrow>
                       if alive (snd a) then Inr (nval (snd a), h1) else Inl UseAfterFree
                   | (Some (RNil, p), h1) \<Rightarrow> Inl NilSentinel
                   | (None, h1) \<Rightarrow> Inr (Null, h1))
              | BList ns \<Rightarrow>
                  obind (list_find k ns 0) (\<lambda>pos.
                    case pos of None \<Rightarrow> Inr (Null, h) | Some j \<Rightarrow> Inr (nval (ns ! j), h)))))"

definition count_kv_hashtable :: "hashtable_t \<Rightarrow> int" where
  "count_kv_hashtable ht = hcount ht"

definition free_node :: "hash_node \<Rightarrow> unit outcome" where
  "free_node n =
     (if \<not> alive n then Inl UseAfterFree
      else if \<not> free_ok (nval n) then Inl DoubleFree else Inr ())"

definition remove_nth :: "nat \<Rightarrow> 'a list \<Rightarrow> 'a list" where
  "remove_nth j xs = take j xs @ drop (Suc j) xs"

definition delete_kv_hashtable ::
  "script \<Rightarrow> hashtable_t \<Rightarrow> string option \<Rightarrow> (int \<times> hashtable_t \<times> script) outcome" where
  "delete_kv_hashtable h ht key_p =
     (case key_p of
        None \<Rightarrow> Inr (-1, ht, h)
      | Some k \<Rightarrow>
          obind (hash_index k (max_slots ht)) (\<lambda>i.
            obind (the_bucket ht i) (\<lambda>b.
              case data b of
                BTree ad \<Rightarrow>
                  obind (rbtree_adapter_delete ad k) (\<lambda>(deleted, ad').
                    case deleted of
                      None \<Rightarrow> Inr (-1, ht, h)
                    | Some n \<Rightarrow>
                        obind (free_node n) (\<lambda>u.
                          let b1 = b\<lparr>data := BTree ad', bsize := bsize b - 1\<rparr> in
                          obind (if bsize b1 \<le> UNTREEIFY_THRESHOLD then untreeify_bucket h b1
                                 else Inr (b1, h))
                            (\<lambda>(b2, h1). Inr (0, (with_bucket ht i b2)\<lparr>hcount := hcount ht - 1\<rparr>, h1))))
              | BList ns \<Rightarrow>
                  obind (list_find k ns 0) (\<lambda>pos.
                    case pos of
                      None \<Rightarrow> Inr (-1, ht, h)
                    | Some j \<Rightarrow>
                        obind (free_node (ns ! j)) (\<lambda>u.
                          Inr (0, (with_bucket ht i (b\<lparr>data := BList (remove_nth j ns),
                            bsize := bsize b - 1\<rparr>))\<lparr>hcount := hcount ht - 1\<rparr>, h))))))"

definition exist_kv_hashtable :: "script \<Rightarrow> hashtable_t \<Rightarrow> string option \<Rightarrow> (bool \<times> script) outcome" where
  "exist_kv_hashtable h ht key_p =
     obind (get_kv_hashtable h ht key_p) (\<lambda>(v, h1). Inr (v \<noteq> Null, h1))"

section \<open>The public functions\<close>

text \<open>Two levels of fuel: an outer call, and the calls \<open>_rehash\<close> makes.\<close>

definition kv_store_hash_create :: "script \<Rightarrow> hashtable_t \<Rightarrow> int \<times> hashtable_t \<times> script" where
  "kv_store_hash_create = init_hashtable"

definition kv_store_hash_destroy :: "hashtable_t \<Rightarrow> hashtable_t outcome" where
  "kv_store_hash_destroy = dest_hashtable"

definition kvs_hash_set :: put_fn where
  "kvs_hash_set = put_kv_hashtable 2"

definition kvs_hash_get :: "script \<Rightarrow> hashtable_t \<Rightarrow> string option \<Rightarrow> (cptr \<times> script) outcome" where
  "kvs_hash_get = get_kv_hashtable"

definition kvs_hash_delete ::
  "script \<Rightarrow> hashtable_t \<Rightarrow> string option \<Rightarrow> (int \<times> hashtable_t \<times> script) outcome" where
  "kvs_hash_delete = delete_kv_hashtable"

definition kvs_hash_modify :: put_fn where
  "kvs_hash_modify h ht key_p value_p =
     obind (put_kv_hashtable 2 h ht key_p value_p) (\<lambda>(r, ht', h1).
       Inr (if r = 1 then 0 else -1, ht', h1))"

definition kvs_hash_count :: "hashtable_t \<Rightarrow> int" where
  "kvs_hash_count = count_kv_hashtable"

section \<open>Invariant and abstraction\<close>

definition slot :: "string \<Rightarrow> nat \<Rightarrow> nat" where
  "slot k m = nat (uint (hash_fnv1a (Some k)) mod int m)"

definition node_ok :: "nat \<Rightarrow> nat \<Rightarrow> hash_node \<Rightarrow> bool" where
  "node_ok m i n \<longleftrightarrow> alive n \<and> is_str (nval n) \<and> slot (nkey n) m = i"

definition adapter_ok :: "nat \<Rightarrow> nat \<Rightarrow> rbtree_adapter \<Rightarrow> bool" where
  "adapter_ok m i ad \<longleftrightarrow> rb_inv strcmp fst (tree_root ad) \<and>
     list_all (\<lambda>a. nkey (snd a) = fst a \<and> node_ok m i (snd a)) (inorder (tree_root ad)) \<and>
     tree_count ad = int (length (inorder (tree_root ad))) \<and> adapter_count ad = tree_count ad"

definition bucket_ok :: "nat \<Rightarrow> nat \<Rightarrow> bucket_t \<Rightarrow> bool" where
  "bucket_ok m i b \<longleftrightarrow>
     (case data b of
        BList ns \<Rightarrow> bsize b = int (length ns) \<and> bsize b < TREEIFY_THRESHOLD \<and>
          distinct (map nkey ns) \<and> list_all (node_ok m i) ns
      | BTree ad \<Rightarrow> adapter_ok m i ad \<and> bsize b = tree_count ad \<and> bsize b > UNTREEIFY_THRESHOLD)"

definition node_pairs :: "hash_node list \<Rightarrow> (string \<times> string) list" where
  "node_pairs ns = map (\<lambda>n. (nkey n, str_of (nval n))) ns"

definition adapter_map :: "rbtree_adapter \<Rightarrow> string \<rightharpoonup> string" where
  "adapter_map ad = (\<lambda>k. map_option (\<lambda>a. str_of (nval (snd a))) (kmap fst (tree_root ad) k))"

definition bucket_map :: "bucket_t \<Rightarrow> string \<rightharpoonup> string" where
  "bucket_map b = (case data b of BList ns \<Rightarrow> map_of (node_pairs ns) | BTree ad \<Rightarrow> adapter_map ad)"

definition table_ok :: "hashtable_t \<Rightarrow> bool" where
  "table_ok ht \<longleftrightarrow> 2 \<le> max_slots ht \<and>
     (case buckets ht of
        None \<Rightarrow> False
      | Some bs \<Rightarrow> length bs = max_slots ht \<and>
          (\<forall>i < max_slots ht. bucket_ok (max_slots ht) i (bs ! i)) \<and>
          hcount ht = sum_list (map bsize bs))"

text \<open>The load is checked before an insertion, so it may exceed 3/4 by one entry.\<close>

definition hash_inv :: "hashtable_t \<Rightarrow> bool" where
  "hash_inv ht \<longleftrightarrow> table_ok ht \<and> 4 * hcount ht \<le> 3 * int (max_slots ht) + 4"

definition hash_content :: "hashtable_t \<Rightarrow> string \<rightharpoonup> string" where
  "hash_content ht = (\<lambda>k.
     case buckets ht of None \<Rightarrow> None | Some bs \<Rightarrow> bucket_map (bs ! slot k (max_slots ht)) k)"

definition is_tree :: "bucket_t \<Rightarrow> bool" where
  "is_tree b = (case data b of BTree ad \<Rightarrow> True | BList ns \<Rightarrow> False)"

definition has_tree :: "hashtable_t \<Rightarrow> bool" where
  "has_tree ht = (case buckets ht of None \<Rightarrow> False | Some bs \<Rightarrow> list_ex is_tree bs)"

lemma is_tree_simps [simp]: "data b = BList ns \<Longrightarrow> \<not> is_tree b" "data b = BTree ad \<Longrightarrow> is_tree b"
  by (simp_all add: is_tree_def)

lemma node_ok_ntype [simp]: "node_ok m i (n\<lparr>ntype := t\<rparr>) = node_ok m i n"
  by (simp add: node_ok_def)

section \<open>Tree buckets\<close>

lemma adapter_values:
  "rb_inv strcmp fst t \<Longrightarrow>
     list_all (\<lambda>a. nkey (snd a) = fst a \<and> node_ok m i (snd a)) (inorder t) \<longleftrightarrow>
     (\<forall>k x n. kmap fst t k = Some (x, n) \<longrightarrow> nkey n = x \<and> node_ok m i n)"
  by (force simp: strcmp.list_all_inorder ran_def)

lemma adapter_search_cases:
  assumes "adapter_ok m i ad"
  obtains (absent) p where "adapter_rbtree_search (tree_root ad) k = (RNil, p)"
      "adapter_map ad k = None"
  | (present) c l n r p where "adapter_rbtree_search (tree_root ad) k = (RNode c l (k, n) r, p)"
      "adapter_map ad k = Some (str_of (nval n))" "nkey n = k" "node_ok m i n"
proof -
  obtain x p where s: "rb_locate strcmp fst k (tree_root ad) [] = (x, p)" by fastforce
  have inv: "rb_inv strcmp fst (tree_root ad)" and srt: "ksorted strcmp fst (inorder (tree_root ad))"
    using assms by (simp_all add: adapter_ok_def rb_inv_def)
  note loc = strcmp.locate_kmap[OF srt, of k]
  show ?thesis
  proof (cases x)
    case RNil
    with s loc absent show ?thesis by (simp add: adapter_rbtree_search_def adapter_map_def)
  next
    case (RNode c l a r)
    obtain k' n where a: "a = (k', n)" by fastforce
    with s loc RNode have "kmap fst (tree_root ad) k = Some (k', n)" by simp
    moreover from this have "k' = k" using strcmp.kmap_key by force
    moreover have "nkey n = k' \<and> node_ok m i n"
      using assms calculation adapter_values[OF inv] by (auto simp: adapter_ok_def)
    ultimately show ?thesis
      using present[of c l n r p] s RNode a by (simp add: adapter_rbtree_search_def adapter_map_def)
  qed
qed

lemma adapter_update:
  assumes "adapter_ok m i ad" "rb_inv strcmp fst t" "nkey n = k" "node_ok m i n"
    and "kmap fst t = (kmap fst (tree_root ad))(k \<mapsto> (k, n))"
    and "cnt = int (length (inorder t))"
  shows "adapter_ok m i (ad\<lparr>tree_root := t, tree_count := cnt, adapter_count := cnt\<rparr>)"
    and "adapter_map (ad\<lparr>tree_root := t, tree_count := cnt, adapter_count := cnt\<rparr>) =
      (adapter_map ad)(k \<mapsto> str_of (nval n))"
  using assms by (auto simp: adapter_ok_def adapter_map_def adapter_values)

lemma rbtree_adapter_insert_ok:
  assumes ad: "adapter_ok m i ad" and n: "node_ok m i n" and "adapter_map ad (nkey n) = None"
  shows "\<exists>ad'. rbtree_adapter_insert [] ad n = Inr (ad', []) \<and> adapter_ok m i ad' \<and>
    adapter_map ad' = (adapter_map ad)(nkey n \<mapsto> str_of (nval n)) \<and>
    tree_count ad' = tree_count ad + 1"
  using ad
proof (cases rule: adapter_search_cases[where k = "nkey n"])
  case (absent p)
  let ?n = "n\<lparr>ntype := NODE_TYPE_TREE\<rparr>"
  have loc: "rb_locate strcmp fst (fst (nkey n, ?n)) (tree_root ad) [] = (RNil, p)"
    using absent by (simp add: adapter_rbtree_search_def)
  have inv: "rb_inv strcmp fst (tree_root ad)" and cnt: "adapter_count ad = tree_count ad"
    "tree_count ad = int (length (inorder (tree_root ad)))"
    using ad by (simp_all add: adapter_ok_def)
  from strcmp.insert_at[OF inv loc] obtain t' where
    t': "rbtree_insert_fixup (RNode RED RNil (nkey n, ?n) RNil) p = Some t'" "rb_inv strcmp fst t'"
      "kmap fst t' = (kmap fst (tree_root ad))(nkey n \<mapsto> (nkey n, ?n))"
      "length (inorder t') = Suc (length (inorder (tree_root ad)))" by auto
  let ?ad = "ad\<lparr>tree_root := t', tree_count := tree_count ad + 1, adapter_count := tree_count ad + 1\<rparr>"
  have "rbtree_adapter_insert [] ad n = Inr (?ad, [])"
    using loc t'(1) cnt by (simp add: rbtree_adapter_insert_def adapter_rbtree_create_node_def
        adapter_rbtree_insert_node_def)
  moreover note adapter_update[OF ad t'(2), of ?n "nkey n" "tree_count ad + 1"]
  ultimately show ?thesis using n t' cnt by simp
next
  case (present c l n' r p)
  with assms(3) show ?thesis by simp
qed

lemma rbtree_adapter_create_ok:
  "rbtree_adapter_create [] = Inr (Some \<lparr>tree_root = RNil, tree_count = 0, adapter_count = 0\<rparr>, [])"
  by (simp add: rbtree_adapter_create_def kv_store_rbtree_create_def)

lemma adapter_empty [simp]:
  "adapter_ok m i \<lparr>tree_root = RNil, tree_count = 0, adapter_count = 0\<rparr>"
  "adapter_map \<lparr>tree_root = RNil, tree_count = 0, adapter_count = 0\<rparr> = Map.empty"
  by (simp_all add: adapter_ok_def adapter_map_def)

lemma node_pairs_simps [simp]:
  "node_pairs [] = []" "node_pairs (n # ns) = (nkey n, str_of (nval n)) # node_pairs ns"
  "node_pairs (ns @ ms) = node_pairs ns @ node_pairs ms"
  "map fst (node_pairs ns) = map nkey ns" "length (node_pairs ns) = length ns"
  by (simp_all add: node_pairs_def)

lemma treeify_loop_ok:
  "adapter_ok m i ad \<Longrightarrow> list_all (node_ok m i) ns \<Longrightarrow> distinct (map nkey ns) \<Longrightarrow>
     \<forall>n \<in> set ns. adapter_map ad (nkey n) = None \<Longrightarrow>
     \<exists>ad'. treeify_loop [] ad ns = Inr (ad', []) \<and> adapter_ok m i ad' \<and>
       adapter_map ad' = adapter_map ad ++ map_of (node_pairs ns) \<and>
       tree_count ad' = tree_count ad + int (length ns)"
proof (induction ns arbitrary: ad)
  case Nil
  then show ?case by simp
next
  case (Cons n ns)
  then obtain ad1 where ad1: "rbtree_adapter_insert [] ad n = Inr (ad1, [])" "adapter_ok m i ad1"
    "adapter_map ad1 = (adapter_map ad)(nkey n \<mapsto> str_of (nval n))" "tree_count ad1 = tree_count ad + 1"
    using rbtree_adapter_insert_ok[of m i ad n] by auto
  moreover have "\<forall>n' \<in> set ns. adapter_map ad1 (nkey n') = None"
    using Cons.prems ad1(3) by (auto simp: rev_image_eqI)
  moreover have "list_all (node_ok m i) ns" "distinct (map nkey ns)"
    using Cons.prems by simp_all
  ultimately obtain ad' where ad': "treeify_loop [] ad1 ns = Inr (ad', [])" "adapter_ok m i ad'"
    "adapter_map ad' = adapter_map ad1 ++ map_of (node_pairs ns)"
    "tree_count ad' = tree_count ad1 + int (length ns)"
    using Cons.IH[of ad1] by blast
  have "map_of (node_pairs ns) (nkey n) = None"
    using Cons.prems(3) by (metis distinct.simps(2) list.simps(9) map_of_eq_None_iff
        node_pairs_simps(4) set_map)
  then have "adapter_map ad' = adapter_map ad ++ map_of (node_pairs (n # ns))"
    using ad'(3) ad1(3) by (auto simp: fun_eq_iff map_add_def split: option.splits)
  moreover have "treeify_loop [] ad (n # ns) = Inr (ad', [])"
    using ad'(1) ad1(1) Cons.prems(2) by (simp add: node_ok_def)
  moreover have "tree_count ad' = tree_count ad + int (length (n # ns))"
    using ad'(4) ad1(4) by simp
  ultimately show ?case using ad'(2) by blast
qed

section \<open>List buckets\<close>

lemma list_find_cases:
  assumes "list_all alive ns"
  obtains (absent) "list_find k ns i = Inr None" "k \<notin> nkey ` set ns"
  | (present) xs n ys where "list_find k ns i = Inr (Some (i + length xs))" "ns = xs @ n # ys"
      "nkey n = k" "k \<notin> nkey ` set xs"
  using assms
proof (induction ns arbitrary: i thesis)
  case Nil
  then show ?case by simp
next
  case (Cons n ns)
  show ?case
  proof (cases "nkey n = k")
    case True
    with Cons.prems(2)[of "[]" n ns] Cons.prems(3) show ?thesis by simp
  next
    case False
    from Cons.prems(3) have "list_all alive ns" by simp
    from Cons.IH[OF _ _ this, of "Suc i"] show ?thesis
    proof cases
      case 1
      with False Cons.prems show ?thesis by auto
    next
      case (2 xs n' ys)
      with False Cons.prems(2)[of "n # xs" n' ys] Cons.prems(3) show ?thesis by auto
    qed
  qed
qed

lemma node_ok_alive: "list_all (node_ok m i) ns \<Longrightarrow> list_all alive ns"
  by (auto simp: list_all_iff node_ok_def)

lemma node_pairs_absent: "k \<notin> nkey ` set ns \<Longrightarrow> map_of (node_pairs ns) k = None"
  by (auto simp: node_pairs_def map_of_eq_None_iff)

lemma node_pairs_split:
  assumes "distinct (map nkey (xs @ n # ys))" and "nkey n' = nkey n"
  shows "map_of (node_pairs (xs @ n # ys)) (nkey n) = Some (str_of (nval n))"
    and "map_of (node_pairs (xs @ n' # ys)) =
      (map_of (node_pairs (xs @ n # ys)))(nkey n \<mapsto> str_of (nval n'))"
    and "map_of (node_pairs (xs @ ys)) = (map_of (node_pairs (xs @ n # ys)))(nkey n := None)"
proof -
  have n: "map_of (node_pairs xs) (nkey n) = None" "map_of (node_pairs ys) (nkey n) = None"
    using assms(1) by (auto intro: node_pairs_absent)
  then show "map_of (node_pairs (xs @ n # ys)) (nkey n) = Some (str_of (nval n))"
    by (simp add: map_add_def)
  show "map_of (node_pairs (xs @ n' # ys)) =
      (map_of (node_pairs (xs @ n # ys)))(nkey n \<mapsto> str_of (nval n'))"
    using n assms(2) by (auto simp: fun_eq_iff map_add_def split: option.splits)
  show "map_of (node_pairs (xs @ ys)) = (map_of (node_pairs (xs @ n # ys)))(nkey n := None)"
    using n by (auto simp: fun_eq_iff map_add_def split: option.splits)
qed

section \<open>One bucket under put, get and delete\<close>

definition put_bucket ::
  "script \<Rightarrow> hashtable_t \<Rightarrow> nat \<Rightarrow> bucket_t \<Rightarrow> string \<Rightarrow> string \<Rightarrow> (int \<times> hashtable_t \<times> script) outcome" where
  "put_bucket h ht i b k v =
     (case data b of BTree ad \<Rightarrow> put_tree h ht i b ad k v | BList ns \<Rightarrow> put_list h ht i b ns k v)"

definition grows :: "('k \<rightharpoonup> 'v) \<Rightarrow> 'k \<Rightarrow> int" where
  "grows m k = (if m k = None then 1 else 0)"

lemma grows_simps [simp]: "m k = None \<Longrightarrow> grows m k = 1" "m k = Some v \<Longrightarrow> grows m k = 0"
  by (simp_all add: grows_def)

lemma create_node_ok:
  "create_node [] k v = (Some \<lparr>nkey = k, nval = Str v, ntype = NODE_TYPE_LIST, alive = True\<rparr>, [])"
  by (simp add: create_node_def)

lemma store_value_ok:
  "node_ok m i n \<Longrightarrow> store_value [] n v = Inr (1, n\<lparr>nval := Str v\<rparr>, [])"
  by (simp add: store_value_def node_ok_def is_str_free_ok)

lemma put_tree_ok:
  assumes b: "bucket_ok m i b" "data b = BTree ad" and k: "slot k m = i"
  shows "\<exists>b'. put_tree [] ht i b ad k v =
      Inr (1 - grows (bucket_map b) k, (with_bucket ht i b')\<lparr>hcount := hcount ht + grows (bucket_map b) k\<rparr>, [])
    \<and> bucket_ok m i b' \<and> bucket_map b' = (bucket_map b)(k \<mapsto> v) \<and> bsize b' = bsize b + grows (bucket_map b) k"
proof -
  from b have ad: "adapter_ok m i ad" by (simp add: bucket_ok_def)
  then show ?thesis
  proof (cases rule: adapter_search_cases[where k = k])
    case (absent p)
    let ?n = "\<lparr>nkey = k, nval = Str v, ntype = NODE_TYPE_TREE, alive = True\<rparr>"
    obtain ad' where "rbtree_adapter_insert [] ad ?n = Inr (ad', [])" "adapter_ok m i ad'"
      "adapter_map ad' = (adapter_map ad)(k \<mapsto> v)" "tree_count ad' = tree_count ad + 1"
      using rbtree_adapter_insert_ok[OF ad, of ?n] absent k by (auto simp: node_ok_def)
    with absent b show ?thesis
      by (auto simp: put_tree_def rbtree_adapter_search_def create_node_ok bucket_map_def bucket_ok_def
          intro!: exI[of _ "b\<lparr>data := BTree ad', bsize := bsize b + 1\<rparr>"])
  next
    case (present c l n r p)
    then have loc: "rb_locate strcmp fst k (tree_root ad) [] = (RNode c l (k, n) r, p)"
      by (simp add: adapter_rbtree_search_def)
    let ?n = "n\<lparr>nval := Str v\<rparr>" and ?t = "plug (RNode c l (k, n\<lparr>nval := Str v\<rparr>) r) p"
    have inv: "rb_inv strcmp fst (tree_root ad)" and cnt: "adapter_count ad = tree_count ad"
      "tree_count ad = int (length (inorder (tree_root ad)))"
      using ad by (simp_all add: adapter_ok_def)
    note up = strcmp.update_at[OF inv loc, of "(k, ?n)", unfolded fst_conv, OF refl]
    have "nkey ?n = k" "node_ok m i ?n" "tree_count ad = int (length (inorder ?t))"
      using present(3,4) by (simp_all only: up(3) cnt(2)) (simp_all add: node_ok_def)
    note ok = adapter_update[OF ad up(1) this(1,2) up(2) this(3)]
    have "ad\<lparr>tree_root := ?t\<rparr> =
        ad\<lparr>tree_root := ?t, tree_count := tree_count ad, adapter_count := tree_count ad\<rparr>"
      using cnt by simp
    with ok show ?thesis
      using present b store_value_ok[OF present(4)]
      by (auto simp: put_tree_def rbtree_adapter_search_def bucket_map_def bucket_ok_def with_bucket_def
          intro!: exI[of _ "b\<lparr>data := BTree (ad\<lparr>tree_root := ?t\<rparr>)\<rparr>"])
  qed
qed

lemma treeify_bucket_ok:
  assumes "data b = BList ns" "bsize b = TREEIFY_THRESHOLD" "length ns = 8"
    and ns: "distinct (map nkey ns)" "list_all (node_ok m i) ns"
  shows "\<exists>b'. treeify_bucket [] b = Inr (b', []) \<and> bucket_ok m i b' \<and>
    bucket_map b' = map_of (node_pairs ns) \<and> bsize b' = bsize b"
proof -
  let ?e = "\<lparr>tree_root = RNil, tree_count = 0, adapter_count = 0\<rparr>"
  obtain ad where "treeify_loop [] ?e ns = Inr (ad, [])" "adapter_ok m i ad"
    "adapter_map ad = map_of (node_pairs ns)" "tree_count ad = int (length ns)"
    using treeify_loop_ok[of m i ?e ns] ns by auto
  with assms show ?thesis
    by (auto simp: treeify_bucket_def rbtree_adapter_create_ok bucket_ok_def bucket_map_def
        intro!: exI[of _ "b\<lparr>data := BTree ad\<rparr>"])
qed

lemma put_list_ok:
  assumes b: "bucket_ok m i b" "data b = BList ns" and k: "slot k m = i"
  shows "\<exists>b'. put_list [] ht i b ns k v =
      Inr (1 - grows (bucket_map b) k, (with_bucket ht i b')\<lparr>hcount := hcount ht + grows (bucket_map b) k\<rparr>, [])
    \<and> bucket_ok m i b' \<and> bucket_map b' = (bucket_map b)(k \<mapsto> v) \<and> bsize b' = bsize b + grows (bucket_map b) k"
proof -
  from b have ns: "bsize b = int (length ns)" "bsize b < 8" "distinct (map nkey ns)"
    "list_all (node_ok m i) ns" and bm: "bucket_map b = map_of (node_pairs ns)"
    by (simp_all add: bucket_ok_def bucket_map_def)
  show ?thesis
    using node_ok_alive[OF ns(4)]
  proof (cases rule: list_find_cases[where k = k and i = 0])
    case absent
    let ?n = "\<lparr>nkey = k, nval = Str v, ntype = NODE_TYPE_LIST, alive = True\<rparr>"
    let ?b = "b\<lparr>data := BList (?n # ns), bsize := bsize b + 1\<rparr>"
    have none: "bucket_map b k = None" using absent bm by (simp add: node_pairs_absent)
    have ok: "distinct (map nkey (?n # ns))" "list_all (node_ok m i) (?n # ns)"
      using absent ns k by (auto simp: node_ok_def)
    have "\<exists>b'. (if bsize ?b \<ge> TREEIFY_THRESHOLD then treeify_bucket [] ?b else Inr (?b, [])) = Inr (b', [])
        \<and> bucket_ok m i b' \<and> bucket_map b' = map_of (node_pairs (?n # ns)) \<and> bsize b' = bsize b + 1"
    proof (cases "bsize b = 7")
      case True
      then have "length (?n # ns) = 8" using ns(1) by simp
      from treeify_bucket_ok[OF _ _ this ok, of ?b] True show ?thesis by simp
    next
      case False
      then show ?thesis using ok ns(1,2) by (auto simp: bucket_ok_def bucket_map_def)
    qed
    then obtain b' where "(if bsize ?b \<ge> TREEIFY_THRESHOLD then treeify_bucket [] ?b else Inr (?b, [])) = Inr (b', [])"
      "bucket_ok m i b'" "bucket_map b' = map_of (node_pairs (?n # ns))" "bsize b' = bsize b + 1" by blast
    then show ?thesis
      using absent(1) none bm by (intro exI[of _ b']) (simp add: put_list_def create_node_ok Let_def)
  next
    case (present xs n ys)
    have "node_ok m i n" using ns(4) present(2) by simp
    have "bucket_map b k = Some (str_of (nval n))"
      using node_pairs_split(1)[of xs n ys n] ns(3) present(2,3) by (simp add: bm)
    moreover have "map_of (node_pairs (xs @ n\<lparr>nval := Str v\<rparr> # ys)) = (bucket_map b)(k \<mapsto> v)"
      using node_pairs_split(2)[of xs n ys "n\<lparr>nval := Str v\<rparr>"] ns(3) present(2,3) by (simp add: bm)
    moreover have "node_ok m i (n\<lparr>nval := Str v\<rparr>)"
      using \<open>node_ok m i n\<close> by (simp add: node_ok_def)
    ultimately show ?thesis
      using present ns store_value_ok[OF \<open>node_ok m i n\<close>]
      by (intro exI[of _ "b\<lparr>data := BList (xs @ n\<lparr>nval := Str v\<rparr> # ys)\<rparr>"])
        (simp add: put_list_def bucket_ok_def bucket_map_def list_update_append with_bucket_def)
  qed
qed

lemma put_bucket_ok:
  assumes "bucket_ok m i b" and "slot k m = i"
  shows "\<exists>b'. put_bucket [] ht i b k v =
      Inr (1 - grows (bucket_map b) k, (with_bucket ht i b')\<lparr>hcount := hcount ht + grows (bucket_map b) k\<rparr>, [])
    \<and> bucket_ok m i b' \<and> bucket_map b' = (bucket_map b)(k \<mapsto> v) \<and> bsize b' = bsize b + grows (bucket_map b) k"
  using put_tree_ok[OF assms(1) _ assms(2)] put_list_ok[OF assms(1) _ assms(2)]
  by (cases "data b") (simp_all add: put_bucket_def)

section \<open>The table\<close>

lemma sum_list_update_int:
  "i < length xs \<Longrightarrow> sum_list (xs[i := x]) = sum_list xs - xs ! i + (x :: int)"
  by (induction xs arbitrary: i) (auto split: nat.split)

lemma slot_less: "0 < m \<Longrightarrow> slot k m < m"
  by (simp add: slot_def nat_less_iff)

lemma hash_index_slot: "0 < m \<Longrightarrow> hash_index k m = Inr (slot k m)"
  by (simp add: hash_index_def slot_def)

lemma table_okE:
  assumes "table_ok ht"
  obtains bs where "buckets ht = Some bs" "length bs = max_slots ht" "2 \<le> max_slots ht"
    "\<forall>i < max_slots ht. bucket_ok (max_slots ht) i (bs ! i)"
    "hcount ht = sum_list (map bsize bs)"
  using assms by (auto simp: table_ok_def split: option.splits)

lemma table_bucket:
  fixes k :: string
  assumes "table_ok ht"
  defines "i \<equiv> slot k (max_slots ht)"
  obtains b where "hash_index k (max_slots ht) = Inr i" "the_bucket ht i = Inr b"
    "bucket_ok (max_slots ht) i b" "bucket_map b k = hash_content ht k"
    "b = the (buckets ht) ! i"
proof -
  from assms(1) obtain bs where bs: "buckets ht = Some bs" "length bs = max_slots ht"
    "2 \<le> max_slots ht" "\<forall>i < max_slots ht. bucket_ok (max_slots ht) i (bs ! i)"
    by (auto elim: table_okE)
  then have "i < max_slots ht" by (simp add: i_def slot_less)
  with bs that[of "bs ! i"] show ?thesis
    by (simp add: the_bucket_def hash_content_def i_def hash_index_slot)
qed

text \<open>Replacing the bucket of one key by a bucket that differs at that key only.\<close>

lemma table_update:
  assumes "table_ok ht" and i: "i = slot k (max_slots ht)" and "b = the (buckets ht) ! i"
    and b': "bucket_ok (max_slots ht) i b'" "bucket_map b' = (bucket_map b)(k := x)"
      "bsize b' = bsize b + d"
  defines "ht' \<equiv> (with_bucket ht i b')\<lparr>hcount := hcount ht + d\<rparr>"
  shows "table_ok ht'" and "hash_content ht' = (hash_content ht)(k := x)"
    and "max_slots ht' = max_slots ht"
proof -
  from assms(1) obtain bs where bs: "buckets ht = Some bs" "length bs = max_slots ht"
    "2 \<le> max_slots ht" "\<forall>i < max_slots ht. bucket_ok (max_slots ht) i (bs ! i)"
    "hcount ht = sum_list (map bsize bs)"
    by (auto elim: table_okE)
  then have il: "i < length bs" by (simp add: i slot_less)
  with bs b' assms(3) show "table_ok ht'"
    by (auto simp: ht'_def table_ok_def with_bucket_def nth_list_update map_update sum_list_update_int)
  show "max_slots ht' = max_slots ht" by (simp add: ht'_def with_bucket_def)
  show "hash_content ht' = (hash_content ht)(k := x)"
    using bs(1) il b'(2) assms(3)
    by (auto simp: fun_eq_iff ht'_def with_bucket_def hash_content_def nth_list_update i)
qed

lemma put_after_check:
  assumes "\<not> load_exceeds ht" "table_ok ht"
  shows "put_kv_hashtable (Suc fuel) [] ht (Some k) (Some v) =
    put_bucket [] ht (slot k (max_slots ht)) (the (buckets ht) ! slot k (max_slots ht)) k v"
proof -
  from assms(2) obtain b where "hash_index k (max_slots ht) = Inr (slot k (max_slots ht))"
    "the_bucket ht (slot k (max_slots ht)) = Inr b" "b = the (buckets ht) ! slot k (max_slots ht)"
    by (rule table_bucket)
  with assms(1) show ?thesis by (simp add: check_capacity_def put_bucket_def)
qed

declare put_kv_hashtable.simps [simp del]

lemma put_no_resize:
  assumes load: "\<not> load_exceeds ht" and ok: "table_ok ht"
  shows "\<exists>ht'. put_kv_hashtable (Suc fuel) [] ht (Some k) (Some v) =
      Inr (1 - grows (hash_content ht) k, ht', []) \<and> table_ok ht' \<and>
    hash_content ht' = (hash_content ht)(k \<mapsto> v) \<and> max_slots ht' = max_slots ht \<and>
    hcount ht' = hcount ht + grows (hash_content ht) k"
proof -
  let ?i = "slot k (max_slots ht)"
  from ok obtain b where b: "bucket_ok (max_slots ht) ?i b" "bucket_map b k = hash_content ht k"
    "b = the (buckets ht) ! ?i"
    by (rule table_bucket)
  then have g: "grows (bucket_map b) k = grows (hash_content ht) k"
    by (simp add: grows_def)
  from put_bucket_ok[OF b(1) refl, of ht v] obtain b' where
    b': "put_bucket [] ht ?i b k v =
      Inr (1 - grows (hash_content ht) k, (with_bucket ht ?i b')\<lparr>hcount := hcount ht + grows (hash_content ht) k\<rparr>, [])"
      "bucket_ok (max_slots ht) ?i b'" "bucket_map b' = (bucket_map b)(k \<mapsto> v)"
      "bsize b' = bsize b + grows (hash_content ht) k"
    unfolding g by blast
  from table_update[OF ok refl b(3) b'(2-4)] b'(1) b(3) put_after_check[OF load ok]
  show ?thesis by auto
qed

lemma kvs_hash_get_content:
  assumes "table_ok ht"
  shows "kvs_hash_get [] ht (Some k) = Inr (cptr_of (hash_content ht k), [])"
proof -
  let ?i = "slot k (max_slots ht)"
  from assms obtain b where b: "hash_index k (max_slots ht) = Inr ?i" "the_bucket ht ?i = Inr b"
    "bucket_ok (max_slots ht) ?i b" "bucket_map b k = hash_content ht k"
    by (rule table_bucket)
  show ?thesis
  proof (cases "data b")
    case (BList ns)
    then have ns: "list_all (node_ok (max_slots ht) ?i) ns" "distinct (map nkey ns)"
      and bm: "bucket_map b = map_of (node_pairs ns)"
      using b(3) by (simp_all add: bucket_ok_def bucket_map_def)
    from node_ok_alive[OF ns(1)] show ?thesis
    proof (cases rule: list_find_cases[where k = k and i = 0])
      case absent
      then have "hash_content ht k = None"
        using b(4) by (simp add: bm node_pairs_absent flip: b(4))
      with absent b BList show ?thesis by (simp add: kvs_hash_get_def get_kv_hashtable_def)
    next
      case (present xs n ys)
      then have "hash_content ht k = Some (str_of (nval n))"
        using node_pairs_split(1)[of xs n ys n] ns(2) by (simp add: bm flip: b(4))
      moreover have "nval n = Str (str_of (nval n))"
        using ns(1) present(2) by (simp add: node_ok_def is_str_conv)
      ultimately show ?thesis
        using present(1,2) b BList by (simp add: kvs_hash_get_def get_kv_hashtable_def)
    qed
  next
    case (BTree ad)
    then have ad: "adapter_ok (max_slots ht) ?i ad" and bm: "bucket_map b = adapter_map ad"
      using b(3) by (simp_all add: bucket_ok_def bucket_map_def)
    from ad show ?thesis
    proof (cases rule: adapter_search_cases[where k = k])
      case (absent p)
      with b BTree bm show ?thesis
        by (simp add: kvs_hash_get_def get_kv_hashtable_def rbtree_adapter_search_def)
    next
      case (present c l n r p)
      then have "alive n" "nval n = Str (str_of (nval n))"
        by (simp_all add: node_ok_def is_str_conv)
      moreover have "hash_content ht k = Some (str_of (nval n))"
        using present(2) b(4) bm by simp
      ultimately show ?thesis
        using present(1) b(1-3) BTree
        by (simp add: kvs_hash_get_def get_kv_hashtable_def rbtree_adapter_search_def)
    qed
  qed
qed

text \<open>
  A deletion that takes a tree bucket down to six nodes turns it back into a list; the
  specification of deletion excludes that case, which is treated separately below.
\<close>

definition del_safe :: "hashtable_t \<Rightarrow> string \<Rightarrow> bool" where
  "del_safe ht k \<longleftrightarrow> hash_content ht k = None \<or>
     (case buckets ht of
        None \<Rightarrow> True
      | Some bs \<Rightarrow> let b = bs ! slot k (max_slots ht) in is_tree b \<longrightarrow> bsize b \<noteq> UNTREEIFY_THRESHOLD + 1)"

lemma rbtree_adapter_delete_ok:
  assumes ad: "adapter_ok m i ad" and "adapter_map ad k \<noteq> None"
  shows "\<exists>n ad'. rbtree_adapter_delete ad k = Inr (Some n, ad') \<and> node_ok m i n \<and> adapter_ok m i ad' \<and>
    adapter_map ad' = (adapter_map ad)(k := None) \<and> tree_count ad' = tree_count ad - 1"
  using ad
proof (cases rule: adapter_search_cases[where k = k])
  case (absent p)
  with assms(2) show ?thesis by simp
next
  case (present c l n r p)
  then have loc: "rb_locate strcmp fst k (tree_root ad) [] = (RNode c l (k, n) r, p)"
    by (simp add: adapter_rbtree_search_def)
  have inv: "rb_inv strcmp fst (tree_root ad)" and cnt: "adapter_count ad = tree_count ad"
    "tree_count ad = int (length (inorder (tree_root ad)))"
    using ad by (simp_all add: adapter_ok_def)
  from strcmp.delete_at[OF inv loc] obtain t' where
    t': "rbtree_delete (RNode c l (k, n) r) p = Some (t', k, n)" "rb_inv strcmp fst t'"
      "kmap fst t' = (kmap fst (tree_root ad))(k := None)"
      "Suc (length (inorder t')) = length (inorder (tree_root ad))" by auto
  let ?ad = "ad\<lparr>tree_root := t', tree_count := tree_count ad - 1, adapter_count := tree_count ad - 1\<rparr>"
  have "adapter_rbtree_delete_node (RNode c l (k, n) r) p = Some t'"
    using adapter_delete_node_conv[of "RNode c l (k, n) r" p] t'(1) by simp
  then have "rbtree_adapter_delete ad k = Inr (Some n, ?ad)"
    using present(1) cnt(1) by (simp add: rbtree_adapter_delete_def del: adapter_rbtree_delete_node.simps)
  moreover have "adapter_ok m i ?ad" "adapter_map ?ad = (adapter_map ad)(k := None)"
    using ad t'(2-4) cnt by (auto simp: adapter_ok_def adapter_map_def adapter_values)
  ultimately show ?thesis using present(4) by auto
qed

lemma kvs_hash_delete_absent:
  assumes "table_ok ht" and none: "hash_content ht k = None"
  shows "kvs_hash_delete [] ht (Some k) = Inr (-1, ht, [])"
proof -
  let ?i = "slot k (max_slots ht)"
  from assms(1) obtain b where b: "hash_index k (max_slots ht) = Inr ?i" "the_bucket ht ?i = Inr b"
    "bucket_ok (max_slots ht) ?i b" "bucket_map b k = hash_content ht k"
    by (rule table_bucket)
  show ?thesis
  proof (cases "data b")
    case (BList ns)
    then have "list_all alive ns" and "k \<notin> nkey ` set ns"
      using b(3,4) none node_ok_alive
      by (auto simp: bucket_ok_def bucket_map_def map_of_eq_None_iff node_pairs_def image_image)
    then have "list_find k ns 0 = Inr None"
      by (cases rule: list_find_cases[where k = k and i = 0]) auto
    with b(1,2) BList show ?thesis by (simp add: kvs_hash_delete_def delete_kv_hashtable_def)
  next
    case (BTree ad)
    then have "adapter_ok (max_slots ht) ?i ad" "adapter_map ad k = None"
      using b(3,4) none by (simp_all add: bucket_ok_def bucket_map_def)
    then have "rbtree_adapter_delete ad k = Inr (None, ad)"
      by (cases rule: adapter_search_cases[where k = k]) (auto simp: rbtree_adapter_delete_def)
    with b(1,2) BTree show ?thesis by (simp add: kvs_hash_delete_def delete_kv_hashtable_def)
  qed
qed

lemma delete_list_bucket:
  assumes b: "bucket_ok m i b" "data b = BList ns" and "bucket_map b k \<noteq> None"
  shows "\<exists>j. list_find k ns 0 = Inr (Some j) \<and> free_node (ns ! j) = Inr () \<and>
    bucket_ok m i (b\<lparr>data := BList (remove_nth j ns), bsize := bsize b - 1\<rparr>) \<and>
    bucket_map (b\<lparr>data := BList (remove_nth j ns), bsize := bsize b - 1\<rparr>) = (bucket_map b)(k := None)"
proof -
  from b have ns: "bsize b = int (length ns)" "bsize b < 8" "distinct (map nkey ns)"
    "list_all (node_ok m i) ns" and bm: "bucket_map b = map_of (node_pairs ns)"
    by (simp_all add: bucket_ok_def bucket_map_def)
  from node_ok_alive[OF ns(4)] show ?thesis
  proof (cases rule: list_find_cases[where k = k and i = 0])
    case absent
    with assms(3) bm show ?thesis by (simp add: node_pairs_absent)
  next
    case (present xs n ys)
    have "remove_nth (length xs) ns = xs @ ys"
      by (simp add: present(2) remove_nth_def)
    moreover have "free_node n = Inr ()"
      using ns(4) present(2) by (simp add: free_node_def node_ok_def is_str_free_ok)
    moreover have "map_of (node_pairs (xs @ ys)) = (bucket_map b)(k := None)"
      using node_pairs_split(3)[of xs n ys n] ns(3) present(2,3) by (simp add: bm)
    ultimately show ?thesis
      using present(1,2) ns by (auto simp: bucket_ok_def bucket_map_def)
  qed
qed

lemma kvs_hash_delete_present:
  assumes ok: "table_ok ht" and some: "hash_content ht k \<noteq> None" and safe: "del_safe ht k"
  shows "\<exists>ht'. kvs_hash_delete [] ht (Some k) = Inr (0, ht', []) \<and> table_ok ht' \<and>
    hash_content ht' = (hash_content ht)(k := None) \<and> max_slots ht' = max_slots ht \<and>
    hcount ht' = hcount ht - 1"
proof -
  let ?i = "slot k (max_slots ht)"
  from ok obtain b where b: "hash_index k (max_slots ht) = Inr ?i" "the_bucket ht ?i = Inr b"
    "bucket_ok (max_slots ht) ?i b" "bucket_map b k = hash_content ht k" "b = the (buckets ht) ! ?i"
    by (rule table_bucket)
  note upd_ok = table_update[OF ok refl b(5), of _ None "-1"]
  show ?thesis
  proof (cases "data b")
    case (BList ns)
    with delete_list_bucket[OF b(3)] some b(4) obtain j where
      j: "list_find k ns 0 = Inr (Some j)" "free_node (ns ! j) = Inr ()"
      "bucket_ok (max_slots ht) ?i (b\<lparr>data := BList (remove_nth j ns), bsize := bsize b - 1\<rparr>)"
      "bucket_map (b\<lparr>data := BList (remove_nth j ns), bsize := bsize b - 1\<rparr>) = (bucket_map b)(k := None)"
      by metis
    with b(1,2) BList have "kvs_hash_delete [] ht (Some k) =
      Inr (0, (with_bucket ht ?i (b\<lparr>data := BList (remove_nth j ns), bsize := bsize b - 1\<rparr>))
        \<lparr>hcount := hcount ht - 1\<rparr>, [])"
      by (simp add: kvs_hash_delete_def delete_kv_hashtable_def)
    with upd_ok[OF j(3,4)] show ?thesis by simp
  next
    case (BTree ad)
    then have ad: "adapter_ok (max_slots ht) ?i ad" "adapter_map ad k \<noteq> None" "bsize b = tree_count ad"
      "bsize b > 6" using b(3,4) some by (auto simp: bucket_ok_def bucket_map_def)
    from rbtree_adapter_delete_ok[OF this(1,2)] obtain n ad' where
      del: "rbtree_adapter_delete ad k = Inr (Some n, ad')" "node_ok (max_slots ht) ?i n"
        "adapter_ok (max_slots ht) ?i ad'" "adapter_map ad' = (adapter_map ad)(k := None)"
        "tree_count ad' = tree_count ad - 1" by blast
    have seven: "bsize b \<noteq> 7"
      using safe some b(5) ok BTree by (auto simp: del_safe_def is_tree_def Let_def elim!: table_okE)
    let ?b = "b\<lparr>data := BTree ad', bsize := bsize b - 1\<rparr>"
    have "bucket_ok (max_slots ht) ?i ?b" "bucket_map ?b = (bucket_map b)(k := None)"
      using del ad seven BTree by (auto simp: bucket_ok_def bucket_map_def)
    from upd_ok[OF this] have upd: "table_ok ((with_bucket ht ?i ?b)\<lparr>hcount := hcount ht - 1\<rparr>)"
      "hash_content ((with_bucket ht ?i ?b)\<lparr>hcount := hcount ht - 1\<rparr>) = (hash_content ht)(k := None)"
      "max_slots ((with_bucket ht ?i ?b)\<lparr>hcount := hcount ht - 1\<rparr>) = max_slots ht" by simp_all
    have "kvs_hash_delete [] ht (Some k) = Inr (0, (with_bucket ht ?i ?b)\<lparr>hcount := hcount ht - 1\<rparr>, [])"
      using b(1,2) BTree del(1,2) ad(4) seven
      by (simp add: kvs_hash_delete_def delete_kv_hashtable_def free_node_def node_ok_def is_str_free_ok)
    with upd show ?thesis by simp
  qed
qed

section \<open>Growth\<close>

text \<open>The nodes of the table in the order \<open>_rehash\<close> visits them.\<close>

definition bucket_nodes :: "bucket_t \<Rightarrow> hash_node list" where
  "bucket_nodes b = (case data b of BList ns \<Rightarrow> ns | BTree ad \<Rightarrow> collect_nodes_recursive (tree_root ad))"

lemma rehash_buckets_lists:
  "list_all (\<lambda>b. \<not> is_tree b) bs \<Longrightarrow>
     rehash_buckets put h ht bs = reinsert put h ht (concat (map bucket_nodes bs))"
proof (induction bs arbitrary: h ht)
  case Nil
  then show ?case by simp
next
  case (Cons b bs)
  have app: "reinsert put h ht (ns @ ms) =
      obind (reinsert put h ht ns) (\<lambda>(ht', h1). reinsert put h1 ht' ms)" for h ht ns ms
    by (induction ns arbitrary: h ht) (auto simp: obind_def split: sum.splits prod.splits)
  from Cons.prems obtain ns where "data b = BList ns"
    by (auto simp: is_tree_def split: bucket_data.splits)
  with Cons show ?case by (simp add: rehash_bucket_def bucket_nodes_def app)
qed

text \<open>Reinserting live nodes while the load stays below the threshold.\<close>

lemma reinsert_ok:
  assumes "table_ok ht" and "list_all (\<lambda>n. alive n \<and> is_str (nval n)) ns"
    and "4 * (hcount ht + int (length ns)) \<le> 3 * int (max_slots ht)"
  shows "\<exists>ht'. reinsert (put_kv_hashtable (Suc fuel)) [] ht ns = Inr (ht', []) \<and> table_ok ht' \<and>
    max_slots ht' = max_slots ht \<and> hcount ht' \<le> hcount ht + int (length ns) \<and>
    hash_content ht' = hash_content ht ++ map_of (rev (node_pairs ns))"
  using assms
proof (induction ns arbitrary: ht)
  case Nil
  then show ?case by simp
next
  case (Cons n ns)
  have "\<not> load_exceeds ht" using Cons.prems(3) by (simp add: load_exceeds_def)
  from put_no_resize[OF this Cons.prems(1), of fuel "nkey n" "str_of (nval n)"] obtain r ht1 where
    put: "put_kv_hashtable (Suc fuel) [] ht (Some (nkey n)) (Some (str_of (nval n))) = Inr (r, ht1, [])"
    and ht1: "table_ok ht1" "hash_content ht1 = (hash_content ht)(nkey n \<mapsto> str_of (nval n))"
      "max_slots ht1 = max_slots ht" "hcount ht1 \<le> hcount ht + 1"
    by (auto simp: grows_def split: if_splits)
  have "4 * (hcount ht1 + int (length ns)) \<le> 3 * int (max_slots ht1)"
    "list_all (\<lambda>n. alive n \<and> is_str (nval n)) ns"
    using Cons.prems(2,3) ht1(3,4) by simp_all
  from Cons.IH[OF ht1(1) this(2,1)] obtain ht' where
    ht': "reinsert (put_kv_hashtable (Suc fuel)) [] ht1 ns = Inr (ht', [])" "table_ok ht'"
      "max_slots ht' = max_slots ht1" "hcount ht' \<le> hcount ht1 + int (length ns)"
      "hash_content ht' = hash_content ht1 ++ map_of (rev (node_pairs ns))"
    by blast
  have "read_ptr (nval n) = Inr (Some (str_of (nval n)))" and "alive n"
    using Cons.prems(2) is_str_conv[of "nval n"] by (auto simp: read_ptr_def split: cptr.splits)
  with put ht'(1) have "reinsert (put_kv_hashtable (Suc fuel)) [] ht (n # ns) = Inr (ht', [])"
    by simp
  moreover have "hash_content ht' = hash_content ht ++ map_of (rev (node_pairs (n # ns)))"
    unfolding ht'(5) ht1(2) by (simp add: map_add_upd_left map_add_assoc)
  ultimately show ?case using ht' ht1 by auto
qed

lemma bucket_nodes_ok:
  assumes "bucket_ok m i b"
  shows "list_all (node_ok m i) (bucket_nodes b)" "distinct (map nkey (bucket_nodes b))"
    "bsize b = int (length (bucket_nodes b))" "bucket_map b = map_of (node_pairs (bucket_nodes b))"
proof -
  have tree: "collect_nodes_recursive t = map snd (inorder t)" for t
    by (induction t) auto
  show "list_all (node_ok m i) (bucket_nodes b)"
    using assms by (auto simp: bucket_ok_def bucket_nodes_def tree adapter_ok_def list_all_iff
        split: bucket_data.splits)
  show "bsize b = int (length (bucket_nodes b))"
    using assms by (auto simp: bucket_ok_def bucket_nodes_def tree adapter_ok_def split: bucket_data.splits)
  have keys: "map nkey (map snd (inorder (tree_root ad))) = map fst (inorder (tree_root ad))"
    if "adapter_ok m i ad" for ad
    using that by (simp add: adapter_ok_def list_all_iff)
  show "distinct (map nkey (bucket_nodes b))"
    using assms keys strcmp.ksorted_distinct[of fst]
    by (auto simp: bucket_ok_def bucket_nodes_def tree adapter_ok_def rb_inv_def simp del: map_map
        split: bucket_data.splits)
  have "adapter_map ad k = map_of (node_pairs (map snd (inorder (tree_root ad)))) k"
    if "adapter_ok m i ad" for ad k
  proof -
    have "map_option f (map_of (map (\<lambda>a. (fst a, a)) xs) k) = map_of (map (\<lambda>a. (fst a, f a)) xs) k"
      for f :: "adapter_item \<Rightarrow> string" and xs by (induction xs) auto
    moreover have "node_pairs (map snd (inorder (tree_root ad))) =
        map (\<lambda>a. (fst a, str_of (nval (snd a)))) (inorder (tree_root ad))"
      using that by (simp add: adapter_ok_def list_all_iff node_pairs_def)
    ultimately show ?thesis by (simp add: adapter_map_def kmap_def)
  qed
  then show "bucket_map b = map_of (node_pairs (bucket_nodes b))"
    using assms by (auto simp: bucket_ok_def bucket_nodes_def tree bucket_map_def split: bucket_data.splits)
qed

definition table_nodes :: "hashtable_t \<Rightarrow> hash_node list" where
  "table_nodes ht = concat (map bucket_nodes (the (buckets ht)))"

lemma concat_nodes_distinct:
  "\<forall>j < length bs. bucket_ok m (i + j) (bs ! j) \<Longrightarrow>
     distinct (map nkey (concat (map bucket_nodes bs))) \<and>
     (\<forall>n \<in> set (concat (map bucket_nodes bs)). i \<le> slot (nkey n) m)"
proof (induction bs arbitrary: i)
  case Nil
  then show ?case by simp
next
  case (Cons b bs)
  from Cons.prems have b: "bucket_ok m i b" by force
  have "\<forall>j < length bs. bucket_ok m (Suc i + j) (bs ! j)" using Cons.prems by force
  from Cons.IH[OF this] have rest: "distinct (map nkey (concat (map bucket_nodes bs)))"
    "\<forall>n \<in> set (concat (map bucket_nodes bs)). Suc i \<le> slot (nkey n) m" by auto
  have here: "\<forall>n \<in> set (bucket_nodes b). slot (nkey n) m = i"
    using bucket_nodes_ok(1)[OF b] by (auto simp: list_all_iff node_ok_def)
  have "nkey ` set (bucket_nodes b) \<inter> nkey ` set (concat (map bucket_nodes bs)) = {}"
    using rest(2) here by fastforce
  moreover have "\<forall>n \<in> set (concat (map bucket_nodes (b # bs))). i \<le> slot (nkey n) m"
    using rest(2) here by fastforce
  ultimately show ?case
    using bucket_nodes_ok(2)[OF b] rest(1) by auto
qed

lemma length_concat_int: "int (length (concat (map f xs))) = sum_list (map (\<lambda>x. int (length (f x))) xs)"
  by (induction xs) simp_all

lemma table_nodes_ok:
  assumes "table_ok ht"
  shows "list_all (\<lambda>n. alive n \<and> is_str (nval n)) (table_nodes ht)"
    and "int (length (table_nodes ht)) = hcount ht"
    and "distinct (map nkey (table_nodes ht))"
    and "map_of (node_pairs (table_nodes ht)) = hash_content ht"
proof -
  from assms obtain bs where bs: "buckets ht = Some bs" "length bs = max_slots ht" "2 \<le> max_slots ht"
    "\<forall>i < max_slots ht. bucket_ok (max_slots ht) i (bs ! i)" "hcount ht = sum_list (map bsize bs)"
    by (auto elim: table_okE)
  have ok: "\<exists>i. bucket_ok (max_slots ht) i b" if "b \<in> set bs" for b
    using that bs(2,4) by (metis in_set_conv_nth)
  show "list_all (\<lambda>n. alive n \<and> is_str (nval n)) (table_nodes ht)"
    using ok bucket_nodes_ok(1) by (fastforce simp: table_nodes_def bs(1) list_all_iff node_ok_def)
  have sizes: "map bsize bs = map (\<lambda>b. int (length (bucket_nodes b))) bs"
    using ok bucket_nodes_ok(3) by auto
  show "int (length (table_nodes ht)) = hcount ht"
    unfolding bs(5) sizes by (simp add: table_nodes_def bs(1) length_concat_int)
  show dist: "distinct (map nkey (table_nodes ht))"
    using concat_nodes_distinct[of bs "max_slots ht" 0] bs(2,4) by (simp add: table_nodes_def bs(1))
  have "map_of (node_pairs (table_nodes ht)) k = Some v \<longleftrightarrow> hash_content ht k = Some v" for k v
  proof -
    let ?i = "slot k (max_slots ht)"
    have i: "?i < length bs" using bs(2,3) by (simp add: slot_less)
    then have b: "bucket_ok (max_slots ht) ?i (bs ! ?i)" using bs(2,4) by simp
    have home: "(k, v) \<in> set (node_pairs (bucket_nodes b)) \<Longrightarrow> b \<in> set bs \<Longrightarrow> b = bs ! ?i" for b
      using bs(2,4) bucket_nodes_ok(1)
      by (fastforce simp: in_set_conv_nth[of b] node_pairs_def list_all_iff node_ok_def)
    have "(k, v) \<in> set (node_pairs (table_nodes ht)) \<longleftrightarrow>
        (\<exists>b \<in> set bs. (k, v) \<in> set (node_pairs (bucket_nodes b)))"
      by (auto simp: table_nodes_def bs(1) node_pairs_def)
    also have "\<dots> \<longleftrightarrow> (k, v) \<in> set (node_pairs (bucket_nodes (bs ! ?i)))"
      using home i by (metis nth_mem)
    also have "\<dots> \<longleftrightarrow> hash_content ht k = Some v"
      using bucket_nodes_ok(2,4)[OF b] by (simp add: hash_content_def bs(1))
    finally show ?thesis using dist by simp
  qed
  then show "map_of (node_pairs (table_nodes ht)) = hash_content ht"
    by (metis not_None_eq ext)
qed

lemma kvs_hash_count_content:
  assumes "table_ok ht"
  shows "kvs_hash_count ht = int (card (dom (hash_content ht)))"
proof -
  have "dom (hash_content ht) = set (map nkey (table_nodes ht))"
    by (simp add: dom_map_of_conv_image_fst node_pairs_def image_image flip: table_nodes_ok(4)[OF assms])
  with distinct_card[OF table_nodes_ok(3)[OF assms]] table_nodes_ok(2)[OF assms]
  show ?thesis by (simp add: kvs_hash_count_def count_kv_hashtable_def)
qed

lemma map_of_rev_distinct: "distinct (map fst ps) \<Longrightarrow> map_of (rev ps) = map_of ps"
proof (rule ext)
  fix k
  assume d: "distinct (map fst ps)"
  then have "map_of (rev ps) k = Some v \<longleftrightarrow> map_of ps k = Some v" for v
    by (simp add: map_of_eq_Some_iff rev_map[symmetric])
  then show "map_of (rev ps) k = map_of ps k"
    by (cases "map_of ps k"; cases "map_of (rev ps) k") auto
qed

lemma empty_table_ok:
  assumes "2 \<le> n"
  shows "table_ok \<lparr>buckets = Some (replicate n empty_bucket), max_slots = n, hcount = 0\<rparr>"
    and "hash_content \<lparr>buckets = Some (replicate n empty_bucket), max_slots = n, hcount = 0\<rparr> = Map.empty"
  using assms
  by (auto simp: table_ok_def hash_content_def empty_bucket_def bucket_ok_def bucket_map_def
      slot_less fun_eq_iff sum_list_replicate)

lemma rehash_lists_ok:
  assumes inv: "hash_inv ht" and lists: "\<not> has_tree ht"
  shows "\<exists>ht'. rehash (put_kv_hashtable (Suc fuel)) [] ht (max_slots ht * 2) = Inr (0, ht', []) \<and>
    table_ok ht' \<and> hash_content ht' = hash_content ht \<and> max_slots ht' = max_slots ht * 2 \<and>
    hcount ht' = hcount ht"
proof -
  let ?n = "max_slots ht * 2"
  let ?e = "\<lparr>buckets = Some (replicate ?n empty_bucket), max_slots = ?n, hcount = 0\<rparr>"
  from inv have ok: "table_ok ht" and load: "4 * hcount ht \<le> 3 * int (max_slots ht) + 4"
    by (simp_all add: hash_inv_def)
  from ok obtain bs where bs: "buckets ht = Some bs" "length bs = max_slots ht" "2 \<le> max_slots ht"
    by (auto elim: table_okE)
  have "4 * (hcount ?e + int (length (table_nodes ht))) \<le> 3 * int (max_slots ?e)"
    using load bs(3) table_nodes_ok(2)[OF ok] by simp
  from reinsert_ok[OF _ table_nodes_ok(1)[OF ok] this, of fuel] empty_table_ok[of ?n] bs(3)
  obtain ht' where ht': "reinsert (put_kv_hashtable (Suc fuel)) [] ?e (table_nodes ht) = Inr (ht', [])"
    "table_ok ht'" "max_slots ht' = ?n" "hash_content ht' = map_of (rev (node_pairs (table_nodes ht)))"
    by auto
  have "map_of (rev (node_pairs (table_nodes ht))) = hash_content ht"
    using table_nodes_ok(3,4)[OF ok] map_of_rev_distinct[of "node_pairs (table_nodes ht)"] by simp
  with ht'(4) have content: "hash_content ht' = hash_content ht" by simp
  then have "hcount ht' = hcount ht"
    using kvs_hash_count_content[OF ok] kvs_hash_count_content[OF ht'(2)]
    by (simp add: kvs_hash_count_def count_kv_hashtable_def)
  moreover have "rehash (put_kv_hashtable (Suc fuel)) [] ht ?n = Inr (0, ht', [])"
    using lists bs ht'(1) rehash_buckets_lists[of bs]
    by (simp add: rehash_def has_tree_def list_ex_iff list_all_iff table_nodes_def)
  ultimately show ?thesis using ht' content by simp
qed

definition hash_room :: "hashtable_t \<Rightarrow> bool" where
  "hash_room ht \<longleftrightarrow> load_exceeds ht \<longrightarrow> \<not> has_tree ht"

lemma put_kv_hashtable_ok:
  assumes inv: "hash_inv ht" and room: "hash_room ht"
  shows "\<exists>ht'. put_kv_hashtable 2 [] ht (Some k) (Some v) =
      Inr (1 - grows (hash_content ht) k, ht', []) \<and> hash_inv ht' \<and>
    hash_content ht' = (hash_content ht)(k \<mapsto> v)"
proof -
  from inv have ok: "table_ok ht" and load: "4 * hcount ht \<le> 3 * int (max_slots ht) + 4"
    by (simp_all add: hash_inv_def)
  show ?thesis
  proof (cases "load_exceeds ht")
    case False
    then have "4 * hcount ht \<le> 3 * int (max_slots ht)"
      using ok by (auto simp: load_exceeds_def elim: table_okE)
    with put_no_resize[OF False ok, of "Suc 0" k v] show ?thesis
      by (auto simp: hash_inv_def numeral_2_eq_2 grows_def split: if_splits)
  next
    case True
    with room have "\<not> has_tree ht" by (simp add: hash_room_def)
    from rehash_lists_ok[OF inv this, of 0] obtain ht1 where
      ht1: "rehash (put_kv_hashtable (Suc 0)) [] ht (max_slots ht * 2) = Inr (0, ht1, [])"
        "table_ok ht1" "hash_content ht1 = hash_content ht" "max_slots ht1 = max_slots ht * 2"
        "hcount ht1 = hcount ht" by blast
    have small: "4 * hcount ht1 \<le> 3 * int (max_slots ht1)"
      using ht1(4,5) load ok by (auto elim!: table_okE)
    then have low: "\<not> load_exceeds ht1" by (simp add: load_exceeds_def)
    have "put_kv_hashtable (Suc (Suc 0)) [] ht (Some k) (Some v) =
        put_kv_hashtable (Suc (Suc 0)) [] ht1 (Some k) (Some v)"
      using True ht1(1) low by (simp add: put_kv_hashtable.simps(2)[of "Suc 0"] check_capacity_def)
    with put_no_resize[OF low ht1(2), of "Suc 0" k v] ht1(3) small show ?thesis
      by (auto simp: hash_inv_def numeral_2_eq_2 grows_def split: if_splits)
  qed
qed

lemma kvs_hash_delete_ok:
  assumes inv: "hash_inv ht" and safe: "del_safe ht k"
  shows "\<exists>ht'. kvs_hash_delete [] ht (Some k) =
      Inr (if k \<in> dom (hash_content ht) then 0 else -1, ht', []) \<and> hash_inv ht' \<and>
    hash_content ht' = (hash_content ht)(k := None)"
proof (cases "hash_content ht k")
  case None
  with inv kvs_hash_delete_absent[of ht k] show ?thesis by (auto simp: hash_inv_def)
next
  case (Some v)
  with inv safe kvs_hash_delete_present[of ht k] show ?thesis by (auto simp: hash_inv_def)
qed

lemma init_hashtable_ok:
  "\<exists>ht'. kv_store_hash_create [] ht = (0, ht', []) \<and> hash_inv ht' \<and> hash_content ht' = Map.empty"
  using empty_table_ok[of INITIAL_CAPACITY]
  by (simp add: kv_store_hash_create_def init_hashtable_def hash_inv_def)

lemma dest_hashtable_ok:
  assumes "table_ok ht"
  shows "kv_store_hash_destroy ht = Inr \<lparr>buckets = None, max_slots = 0, hcount = 0\<rparr>"
proof -
  from assms obtain bs where bs: "buckets ht = Some bs" "length bs = max_slots ht"
    "\<forall>i < max_slots ht. bucket_ok (max_slots ht) i (bs ! i)"
    by (auto elim: table_okE)
  have one: "dest_bucket b = Inr ()" if "bucket_ok m i b" for b m i
    using that by (auto simp: dest_bucket_def bucket_ok_def adapter_ok_def rbtree_adapter_destroy_def
        list_all_iff list_ex_iff node_ok_def is_str_free_ok set_destroy split: bucket_data.splits)
  have "\<forall>b \<in> set bs. dest_bucket b = Inr ()"
    using one bs(2,3) by (metis in_set_conv_nth)
  then have "dest_buckets bs = Inr ()" by (induction bs) simp_all
  with bs show ?thesis by (simp add: kv_store_hash_destroy_def dest_hashtable_def)
qed

text \<open>The hash engine satisfies the contract: it overwrites, and modify inserts.\<close>

definition hash_get_op :: "hashtable_t \<Rightarrow> string \<Rightarrow> cptr outcome" where
  "hash_get_op ht k = map_sum id fst (kvs_hash_get [] ht (Some k))"

definition hash_set_op :: "hashtable_t \<Rightarrow> string \<Rightarrow> string \<Rightarrow> (int \<times> hashtable_t) outcome" where
  "hash_set_op ht k v = map_sum id (\<lambda>(r, t, h). (r, t)) (kvs_hash_set [] ht (Some k) (Some v))"

definition hash_del_op :: "hashtable_t \<Rightarrow> string \<Rightarrow> string \<Rightarrow> (int \<times> hashtable_t) outcome" where
  "hash_del_op ht k v = map_sum id (\<lambda>(r, t, h). (r, t)) (kvs_hash_delete [] ht (Some k))"

definition hash_mod_op :: "hashtable_t \<Rightarrow> string \<Rightarrow> string \<Rightarrow> (int \<times> hashtable_t) outcome" where
  "hash_mod_op ht k v = map_sum id (\<lambda>(r, t, h). (r, t)) (kvs_hash_modify [] ht (Some k) (Some v))"

interpretation hsh: kv_engine True True hash_inv "\<lambda>ht k v. hash_room ht" del_safe hash_content
  hash_get_op hash_set_op hash_del_op hash_mod_op
proof unfold_locales
  fix s :: hashtable_t and k v :: string
  assume inv: "hash_inv s"
  then show "hash_get_op s k = Inr (cptr_of (hash_content s k))"
    by (simp add: hash_get_op_def kvs_hash_get_content hash_inv_def)
  show "\<exists>r s'. hash_del_op s k v = Inr (r, s') \<and> hash_inv s' \<and>
      hash_content s' = (hash_content s)(k := None)" if "del_safe s k"
    using kvs_hash_delete_ok[OF inv that] by (auto simp: hash_del_op_def)
  assume room: "hash_room s"
  from put_kv_hashtable_ok[OF inv room, of k v]
  show "\<exists>r s'. hash_set_op s k v = Inr (r, s') \<and> hash_inv s' \<and>
      hash_content s' = spec_set True (hash_content s) k v"
    and "\<exists>r s'. hash_mod_op s k v = Inr (r, s') \<and> hash_inv s' \<and>
      hash_content s' = spec_mod True (hash_content s) k v"
    by (auto simp: hash_set_op_def hash_mod_op_def kvs_hash_set_def kvs_hash_modify_def
        spec_set_def spec_mod_def)
qed

section \<open>Tree buckets that are destroyed\<close>

lemma inorder_map: "inorder (map_rbtree_node f t) = map f (inorder t)"
  by (induction t) simp_all

lemma collect_inorder: "collect_nodes_recursive t = map snd (inorder t)"
  by (induction t) simp_all

lemma destroy_freed_nodes:
  "inorder (tree_root ad) \<noteq> [] \<Longrightarrow> rbtree_adapter_destroy (freed_nodes ad) = Inl DoubleFree"
  by (cases "inorder (tree_root ad)")
    (auto simp: rbtree_adapter_destroy_def freed_nodes_def list_all_iff set_destroy inorder_map)

lemma rehash_buckets_tree:
  assumes "table_ok ht" and "\<forall>b \<in> set bs. \<exists>i. bucket_ok m i b" and "list_ex is_tree bs"
    and "4 * (hcount ht + int (length (concat (map bucket_nodes bs)))) \<le> 3 * int (max_slots ht)"
  shows "rehash_buckets (put_kv_hashtable (Suc fuel)) [] ht bs = Inl DoubleFree"
  using assms
proof (induction bs arbitrary: ht)
  case Nil
  then show ?case by simp
next
  case (Cons b bs)
  let ?put = "put_kv_hashtable (Suc fuel)"
  from Cons.prems(2) obtain i where b: "bucket_ok m i b" by auto
  have "list_all (\<lambda>n. alive n \<and> is_str (nval n)) (bucket_nodes b)"
    using bucket_nodes_ok(1)[OF b] by (auto simp: list_all_iff node_ok_def)
  moreover have "4 * (hcount ht + int (length (bucket_nodes b))) \<le> 3 * int (max_slots ht)"
    using Cons.prems(4) by simp
  ultimately obtain ht1 where ht1: "reinsert ?put [] ht (bucket_nodes b) = Inr (ht1, [])" "table_ok ht1"
    "max_slots ht1 = max_slots ht" "hcount ht1 \<le> hcount ht + int (length (bucket_nodes b))"
    using reinsert_ok[OF Cons.prems(1)] by blast
  show ?case
  proof (cases "data b")
    case (BList ns)
    then have "list_ex is_tree bs" using Cons.prems(3) by simp
    moreover have "4 * (hcount ht1 + int (length (concat (map bucket_nodes bs)))) \<le> 3 * int (max_slots ht1)"
      using Cons.prems(4) ht1(3,4) by simp
    ultimately have "rehash_buckets ?put [] ht1 bs = Inl DoubleFree"
      using Cons.IH[OF ht1(2)] Cons.prems(2) by simp
    with BList ht1(1) show ?thesis by (simp add: rehash_bucket_def bucket_nodes_def)
  next
    case (BTree ad)
    then have "inorder (tree_root ad) \<noteq> []" "int (length (bucket_nodes b)) = bsize b"
      using b bucket_nodes_ok(3)[OF b] by (auto simp: bucket_ok_def adapter_ok_def)
    with BTree ht1(1) show ?thesis
      by (simp add: rehash_bucket_def bucket_nodes_def rbtree_adapter_inorder_traversal_def
          destroy_freed_nodes)
  qed
qed

lemma rehash_tree_double_free:
  assumes inv: "hash_inv ht" and tree: "has_tree ht"
  shows "rehash (put_kv_hashtable (Suc fuel)) [] ht (max_slots ht * 2) = Inl DoubleFree"
proof -
  let ?n = "max_slots ht * 2"
  let ?e = "\<lparr>buckets = Some (replicate ?n empty_bucket), max_slots = ?n, hcount = 0\<rparr>"
  from inv have ok: "table_ok ht" and load: "4 * hcount ht \<le> 3 * int (max_slots ht) + 4"
    by (simp_all add: hash_inv_def)
  from ok obtain bs where bs: "buckets ht = Some bs" "length bs = max_slots ht" "2 \<le> max_slots ht"
    "\<forall>i < max_slots ht. bucket_ok (max_slots ht) i (bs ! i)"
    by (auto elim: table_okE)
  have "rehash_buckets (put_kv_hashtable (Suc fuel)) [] ?e bs = Inl DoubleFree"
  proof (rule rehash_buckets_tree)
    show "table_ok ?e" using empty_table_ok(1)[of ?n] bs(3) by simp
    show "\<forall>b \<in> set bs. \<exists>i. bucket_ok (max_slots ht) i b" using bs(2,4) by (metis in_set_conv_nth)
    show "list_ex is_tree bs" using tree bs(1) by (simp add: has_tree_def)
    show "4 * (hcount ?e + int (length (concat (map bucket_nodes bs)))) \<le> 3 * int (max_slots ?e)"
      using load bs(1,3) table_nodes_ok(2)[OF ok] by (simp add: table_nodes_def)
  qed
  with bs show ?thesis by (simp add: rehash_def)
qed

lemma list_find_dead: "ns \<noteq> [] \<Longrightarrow> \<forall>n \<in> set ns. \<not> alive n \<Longrightarrow> list_find k ns i = Inl UseAfterFree"
  by (cases ns) simp_all

lemma untreeify_bucket_dead:
  assumes ad: "adapter_ok m i ad" and "data b = BTree ad" "bsize b = tree_count ad" "bsize b = 6"
  shows "\<exists>ns. untreeify_bucket [] b = Inr (b\<lparr>data := BList ns\<rparr>, []) \<and> ns \<noteq> [] \<and> (\<forall>n \<in> set ns. \<not> alive n)"
proof -
  have "rbtree_adapter_destroy ad = Inr ()"
    using ad by (simp add: rbtree_adapter_destroy_def list_all_iff set_destroy adapter_ok_def node_ok_def)
  moreover have len: "length (inorder (tree_root ad)) = 6"
    using assms by (simp add: adapter_ok_def)
  let ?ns = "map (\<lambda>n. n\<lparr>alive := False\<rparr>) (rev (map (\<lambda>n. n\<lparr>ntype := NODE_TYPE_LIST\<rparr>)
    (map snd (inorder (tree_root ad)))))"
  have "?ns \<noteq> []" "\<forall>n \<in> set ?ns. \<not> alive n"
    using len by auto
  moreover have "untreeify_bucket [] b = Inr (b\<lparr>data := BList ?ns\<rparr>, [])"
    using calculation(1) len assms(2,4)
    by (simp add: untreeify_bucket_def rbtree_adapter_inorder_traversal_def collect_inorder)
  ultimately show ?thesis by blast
qed

lemma delete_untreeify:
  assumes ok: "table_ok ht" and some: "hash_content ht k \<noteq> None"
    and b: "b = the (buckets ht) ! slot k (max_slots ht)" "is_tree b" "bsize b = 7"
  shows "\<exists>ht' ns b'. kvs_hash_delete [] ht (Some k) = Inr (0, ht', []) \<and> max_slots ht' = max_slots ht \<and>
    the_bucket ht' (slot k (max_slots ht)) = Inr b' \<and> data b' = BList ns \<and>
    ns \<noteq> [] \<and> (\<forall>n \<in> set ns. \<not> alive n)"
proof -
  let ?i = "slot k (max_slots ht)"
  from ok obtain b' where b': "hash_index k (max_slots ht) = Inr ?i" "the_bucket ht ?i = Inr b'"
    "bucket_ok (max_slots ht) ?i b'" "bucket_map b' k = hash_content ht k" "b' = the (buckets ht) ! ?i"
    by (rule table_bucket)
  then have "b' = b" using b(1) by simp
  from b(2) obtain ad where ad: "data b = BTree ad" by (auto simp: is_tree_def split: bucket_data.splits)
  then have ok': "adapter_ok (max_slots ht) ?i ad" "adapter_map ad k \<noteq> None" "tree_count ad = 7"
    using b'(3,4) some b(3) by (auto simp: \<open>b' = b\<close> bucket_ok_def bucket_map_def)
  from rbtree_adapter_delete_ok[OF this(1,2)] obtain n ad' where
    del: "rbtree_adapter_delete ad k = Inr (Some n, ad')" "node_ok (max_slots ht) ?i n"
      "adapter_ok (max_slots ht) ?i ad'" "tree_count ad' = 6" using ok'(3) by auto
  let ?b = "b\<lparr>data := BTree ad', bsize := bsize b - 1\<rparr>"
  from untreeify_bucket_dead[OF del(3), of ?b] del(4) b(3) obtain ns where
    ns: "untreeify_bucket [] ?b = Inr (?b\<lparr>data := BList ns\<rparr>, [])" "ns \<noteq> []" "\<forall>n \<in> set ns. \<not> alive n"
    by auto
  have "kvs_hash_delete [] ht (Some k) =
      Inr (0, (with_bucket ht ?i (?b\<lparr>data := BList ns\<rparr>))\<lparr>hcount := hcount ht - 1\<rparr>, [])"
    using b'(1,2) ad del(1,2) ns(1) b(3)
    by (simp add: \<open>b' = b\<close> kvs_hash_delete_def delete_kv_hashtable_def free_node_def node_ok_def is_str_free_ok)
  moreover have "?i < length (the (buckets ht))" "buckets ht \<noteq> None"
    using ok slot_less[of "max_slots ht" k] by (auto elim!: table_okE)
  ultimately show ?thesis
    using ns(2,3) b(3) by (auto simp: with_bucket_def the_bucket_def)
qed

section \<open>Sample tables for the witnesses\<close>

definition sample_item :: "string \<Rightarrow> adapter_item" where
  "sample_item k = (k, \<lparr>nkey = k, nval = Str ''v'', ntype = NODE_TYPE_TREE, alive = True\<rparr>)"

text \<open>A tree of seven, or (with \<open>leaf\<close> a red leaf) eight, keys that share a slot of ten.\<close>

definition sample_tree :: "adapter_item rbtree_node \<Rightarrow> adapter_item rbtree_node" where
  "sample_tree leaf =
     RNode BLACK
       (RNode BLACK (RNode BLACK RNil (sample_item ''af'') RNil) (sample_item ''al'')
          (RNode BLACK RNil (sample_item ''ar'') RNil))
       (sample_item ''ax'')
       (RNode BLACK (RNode BLACK RNil (sample_item ''bg'') RNil) (sample_item ''bi'')
          (RNode BLACK RNil (sample_item ''bs'') leaf))"

definition sample_table :: "adapter_item rbtree_node \<Rightarrow> int \<Rightarrow> hashtable_t" where
  "sample_table leaf n =
     \<lparr>buckets = Some (\<lparr>data = BTree \<lparr>tree_root = sample_tree leaf, tree_count = n, adapter_count = n\<rparr>,
                        bsize = n\<rparr> # replicate 9 empty_bucket),
      max_slots = 10, hcount = n\<rparr>"

definition table7 :: hashtable_t where
  "table7 = sample_table RNil 7"

definition table8 :: hashtable_t where
  "table8 = sample_table (RNode RED RNil (sample_item ''cj'') RNil) 8"

lemma table7_facts:
  "hash_inv table7" "hash_room table7" "is_tree (the (buckets table7) ! slot ''al'' (max_slots table7))"
  "bsize (the (buckets table7) ! slot ''al'' (max_slots table7)) = UNTREEIFY_THRESHOLD + 1"
  "hash_content table7 ''al'' = Some ''v''" "hash_content table7 ''k'' = None"
  by code_simp+

lemma table8_facts:
  "hash_inv table8" "load_exceeds table8" "has_tree table8" "del_safe table8 ''al''"
  by code_simp+

section \<open>Properties\<close>



text \<open>
  C31: \<open>kvs_hash_delete\<close> removes exactly the given key and answers 0 or -1 according to whether it
  was there, unless the key sits in a tree bucket of exactly seven nodes.
\<close>

theorem hash_delete_refines:
  assumes "hash_inv ht" and "del_safe ht k"
  shows "\<exists>ht'. kvs_hash_delete [] ht (Some k) =
      Inr (if k \<in> dom (hash_content ht) then 0 else -1, ht', []) \<and> hash_inv ht' \<and>
    hash_content ht' = (hash_content ht)(k := None) \<and> kvs_hash_get [] ht' (Some k) = Inr (Null, [])"
  using kvs_hash_delete_ok[OF assms] kvs_hash_get_content by (fastforce simp: hash_inv_def)

theorem hash_delete_refines_witness:
  "\<exists>ht'. kvs_hash_delete [] table8 (Some ''al'') =
      Inr (if ''al'' \<in> dom (hash_content table8) then 0 else -1, ht', []) \<and> hash_inv ht' \<and>
    hash_content ht' = (hash_content table8)(''al'' := None) \<and>
    kvs_hash_get [] ht' (Some ''al'') = Inr (Null, [])"
  by (rule hash_delete_refines[OF table8_facts(1,4)])

text \<open>
  deleting a key from a tree bucket of seven nodes converts the bucket back to a list of nodes
  that the destruction of the adapter has just freed: the deletion reports success, and every later
  lookup that hits the bucket reads freed memory.
\<close>

theorem hash_untreeify_use_after_free:
  assumes "hash_inv ht" and "hash_content ht k \<noteq> None"
    and "b = the (buckets ht) ! slot k (max_slots ht)" and "is_tree b"
    and "bsize b = UNTREEIFY_THRESHOLD + 1" and "slot k' (max_slots ht) = slot k (max_slots ht)"
  shows "\<exists>ht'. kvs_hash_delete [] ht (Some k) = Inr (0, ht', []) \<and>
    kvs_hash_get [] ht' (Some k') = Inl UseAfterFree"
proof -
  from assms(1) have "table_ok ht" by (simp add: hash_inv_def)
  moreover from this have "0 < max_slots ht" by (auto elim: table_okE)
  moreover note delete_untreeify[OF \<open>table_ok ht\<close> assms(2-4)] assms(5,6)
  ultimately show ?thesis
    by (auto simp: kvs_hash_get_def get_kv_hashtable_def hash_index_slot list_find_dead)
qed

theorem hash_untreeify_use_after_free_witness:
  "\<exists>ht'. kvs_hash_delete [] table7 (Some ''al'') = Inr (0, ht', []) \<and>
    kvs_hash_get [] ht' (Some ''bg'') = Inl UseAfterFree"
proof (rule hash_untreeify_use_after_free[OF table7_facts(1) _ refl table7_facts(3,4)])
  show "hash_content table7 ''al'' \<noteq> None" by (simp add: table7_facts)
  show "slot ''bg'' (max_slots table7) = slot ''al'' (max_slots table7)" by code_simp
qed

text \<open>
  C40: when the load factor asks for a resize and some bucket is a tree, \<open>kvs_hash_set\<close> frees that
  bucket's nodes twice: once in the reinsertion loop of \<open>_rehash\<close>, once when it destroys the
  adapter.
\<close>

theorem hash_resize_double_free:
  assumes "hash_inv ht" and "load_exceeds ht" and "has_tree ht"
  shows "kvs_hash_set [] ht (Some k) (Some v) = Inl DoubleFree"
  using assms(2) rehash_tree_double_free[OF assms(1,3), of 0]
  by (simp add: kvs_hash_set_def numeral_2_eq_2 put_kv_hashtable.simps(2)[of "Suc 0"] check_capacity_def)

theorem hash_resize_double_free_witness:
  "kvs_hash_set [] table8 (Some ''k'') (Some ''w'') = Inl DoubleFree"
  by (rule hash_resize_double_free[OF table8_facts(1-3)])

text \<open>
  C36: \<open>kvs_hash_modify\<close> of a key that is not in the table reports -1, and inserts it nevertheless.
\<close>

theorem hash_modify_absent_inserts:
  assumes "hash_inv ht" and "hash_room ht" and "hash_content ht k = None"
  shows "\<exists>ht'. kvs_hash_modify [] ht (Some k) (Some v) = Inr (-1, ht', []) \<and> hash_inv ht' \<and>
    kvs_hash_get [] ht' (Some k) = Inr (Str v, [])"
proof -
  from put_kv_hashtable_ok[OF assms(1,2), of k v] obtain ht' where
    "put_kv_hashtable 2 [] ht (Some k) (Some v) = Inr (0, ht', [])" "hash_inv ht'"
    "hash_content ht' = (hash_content ht)(k \<mapsto> v)" using assms(3) by auto
  then show ?thesis
    by (simp add: kvs_hash_modify_def kvs_hash_get_content hash_inv_def)
qed

theorem hash_modify_absent_inserts_witness:
  "\<exists>ht'. kvs_hash_modify [] table7 (Some ''k'') (Some ''w'') = Inr (-1, ht', []) \<and> hash_inv ht' \<and>
    kvs_hash_get [] ht' (Some ''k'') = Inr (Str ''w'', [])"
  by (rule hash_modify_absent_inserts[OF table7_facts(1,2,6)])

end
