(* ===== verification/Protocol.thy ===== *)
theory Protocol
  imports Array_Engine Hash_Engine
begin

text \<open>
  The request path of the server, \<open>src/kvserver/kvstore.c\<close>: a line is split at spaces with
  \<open>strtok\<close>, the first token selects one of fifteen commands, five per engine, and the reply is
  printed into the connection's write buffer. The three global engines are one record. A token
  the client did not send is an uninitialised pointer; passing it to an engine is the fault
  \<open>Uninit\<close>. A word outside the table makes the default branch index \<open>commands\<close> out of bounds.
\<close>

section \<open>Server state and tokens\<close>

record kv_server =
  Array :: array_t
  Tree :: rbtree
  Hash :: hashtable_t

record conn_item =
  rbuffer :: string
  wbuffer :: string

abbreviation BUFFER_LENGTH :: nat where "BUFFER_LENGTH \<equiv> 512"
abbreviation KV_STORE_MAX_TOKENS :: nat where "KV_STORE_MAX_TOKENS \<equiv> 128"
abbreviation space :: char where "space \<equiv> CHR 0x20"

text \<open>The calls \<open>strtok(msg, " ")\<close>, \<open>strtok(NULL, " ")\<close>, ... : skip spaces, take a token.\<close>

function strtok_all :: "string \<Rightarrow> string list" where
  "strtok_all s =
     (let s' = dropWhile (\<lambda>c. c = space) s in
      if s' = [] then []
      else takeWhile (\<lambda>c. c \<noteq> space) s' # strtok_all (dropWhile (\<lambda>c. c \<noteq> space) s'))"
  by pat_completeness auto

termination strtok_all
proof (relation "measure length")
  fix s s' :: string
  assume s': "s' = dropWhile (\<lambda>c. c = space) s" and "s' \<noteq> []"
  from \<open>s' \<noteq> []\<close> obtain c cs where c: "s' = c # cs" by (meson neq_Nil_conv)
  have "hd s' \<noteq> space" using s' hd_dropWhile[of "\<lambda>c. c = space" s] \<open>s' \<noteq> []\<close> by simp
  with c have "length (dropWhile (\<lambda>c. c \<noteq> space) s') < length s'"
    using length_dropWhile_le[of "\<lambda>c. c \<noteq> space" cs] by simp
  also have "length s' \<le> length s" using s' by (simp add: length_dropWhile_le)
  finally show "(dropWhile (\<lambda>c. c \<noteq> space) s', s) \<in> measure length" by simp
qed simp

declare strtok_all.simps [simp del]

text \<open>
  \<open>kv_store_split_token\<close> writes the tokens into the caller's array of 128 entries without a
  bound; the result also gives the message as \<open>strtok\<close> leaves it, cut after its first token.
\<close>

definition kv_store_split_token :: "string \<Rightarrow> (string list \<times> string) outcome" where
  "kv_store_split_token msg =
     (let ts = strtok_all msg in
      if length ts > KV_STORE_MAX_TOKENS then Inl OutOfBounds
      else Inr (ts, takeWhile (\<lambda>c. c = space) msg @
                    takeWhile (\<lambda>c. c \<noteq> space) (dropWhile (\<lambda>c. c = space) msg)))"

section \<open>Commands\<close>

datatype kvs_cmd =
    KVS_CMD_SET | KVS_CMD_GET | KVS_CMD_DEL | KVS_CMD_MOD | KVS_CMD_COUNT
  | KVS_CMD_RSET | KVS_CMD_RGET | KVS_CMD_RDEL | KVS_CMD_RMOD | KVS_CMD_RCOUNT
  | KVS_CMD_HSET | KVS_CMD_HGET | KVS_CMD_HDEL | KVS_CMD_HMOD | KVS_CMD_HCOUNT
  | KVS_CMD_SIZE

definition commands :: "(string \<times> kvs_cmd) list" where
  "commands =
     [(''SET'', KVS_CMD_SET), (''GET'', KVS_CMD_GET), (''DEL'', KVS_CMD_DEL), (''MOD'', KVS_CMD_MOD),
      (''COUNT'', KVS_CMD_COUNT),
      (''RSET'', KVS_CMD_RSET), (''RGET'', KVS_CMD_RGET), (''RDEL'', KVS_CMD_RDEL),
      (''RMOD'', KVS_CMD_RMOD), (''RCOUNT'', KVS_CMD_RCOUNT),
      (''HSET'', KVS_CMD_HSET), (''HGET'', KVS_CMD_HGET), (''HDEL'', KVS_CMD_HDEL),
      (''HMOD'', KVS_CMD_HMOD), (''HCOUNT'', KVS_CMD_HCOUNT)]"

fun find_cmd :: "(string \<times> kvs_cmd) list \<Rightarrow> string \<Rightarrow> kvs_cmd" where
  "find_cmd [] t = KVS_CMD_SIZE"
| "find_cmd (p # ps) t = (if strcmp (fst p) t = 0 then snd p else find_cmd ps t)"

text \<open>The four reply schemes; \<open>snprintf\<close> cuts the text at 511 characters.\<close>

definition snprintf :: "string \<Rightarrow> string" where
  "snprintf s = take (BUFFER_LENGTH - 1) s"

definition set_reply :: "int \<Rightarrow> string" where
  "set_reply res = (if res = 0 then ''SUCCESS'' else ''FAILED'')"

definition get_reply :: "cptr \<Rightarrow> string outcome" where
  "get_reply p =
     (case p of Null \<Rightarrow> Inr ''NO EXIST'' | Str s \<Rightarrow> Inr (snprintf s) | Freed \<Rightarrow> Inl UseAfterFree)"

definition res_reply :: "int \<Rightarrow> string" where
  "res_reply res = (if res < 0 then ''ERROR'' else if res = 0 then ''SUCCESS'' else ''NO EXIST'')"

definition count_reply :: "int \<Rightarrow> string" where
  "count_reply n = (if n < 0 then ''ERROR'' else snprintf (print_dec (nat n)))"

definition token :: "string list \<Rightarrow> nat \<Rightarrow> string outcome" where
  "token ts i = (if i < length ts then Inr (ts ! i) else Inl Uninit)"

type_synonym reply = "(string \<times> kv_server \<times> script) outcome"

definition array_cmd :: "script \<Rightarrow> kv_server \<Rightarrow> string list \<Rightarrow> kvs_cmd \<Rightarrow> reply" where
  "array_cmd h s ts cmd =
     (case cmd of
        KVS_CMD_SET \<Rightarrow> obind (token ts 1) (\<lambda>k. obind (token ts 2) (\<lambda>v.
          obind (kvs_array_set h (Array s) (Some k) (Some v)) (\<lambda>(r, a, h1).
            Inr (set_reply r, s\<lparr>Array := a\<rparr>, h1))))
      | KVS_CMD_GET \<Rightarrow> obind (token ts 1) (\<lambda>k.
          obind (get_reply (kvs_array_get (Array s) (Some k))) (\<lambda>m. Inr (m, s, h)))
      | KVS_CMD_DEL \<Rightarrow> obind (token ts 1) (\<lambda>k.
          obind (kvs_array_delete (Array s) (Some k)) (\<lambda>(r, a).
            Inr (res_reply r, s\<lparr>Array := a\<rparr>, h)))
      | KVS_CMD_MOD \<Rightarrow> obind (token ts 1) (\<lambda>k. obind (token ts 2) (\<lambda>v.
          obind (kvs_array_modify h (Array s) (Some k) (Some v)) (\<lambda>(r, a, h1).
            Inr (res_reply r, s\<lparr>Array := a\<rparr>, h1))))
      | _ \<Rightarrow> Inr (count_reply (kvs_array_count (Array s)), s, h))"

definition rbtree_cmd :: "script \<Rightarrow> kv_server \<Rightarrow> string list \<Rightarrow> kvs_cmd \<Rightarrow> reply" where
  "rbtree_cmd h s ts cmd =
     (case cmd of
        KVS_CMD_RSET \<Rightarrow> obind (token ts 1) (\<lambda>k. obind (token ts 2) (\<lambda>v.
          obind (kvs_rbtree_set h (Tree s) (Some k) (Some v)) (\<lambda>(r, t, h1).
            Inr (set_reply r, s\<lparr>Tree := t\<rparr>, h1))))
      | KVS_CMD_RGET \<Rightarrow> obind (token ts 1) (\<lambda>k.
          obind (kvs_rbtree_get (Tree s) (Some k)) (\<lambda>p.
            obind (get_reply p) (\<lambda>m. Inr (m, s, h))))
      | KVS_CMD_RDEL \<Rightarrow> obind (token ts 1) (\<lambda>k.
          obind (kvs_rbtree_delete (Tree s) (Some k)) (\<lambda>(r, t).
            Inr (res_reply r, s\<lparr>Tree := t\<rparr>, h)))
      | KVS_CMD_RMOD \<Rightarrow> obind (token ts 1) (\<lambda>k. obind (token ts 2) (\<lambda>v.
          obind (kvs_rbtree_modify h (Tree s) (Some k) (Some v)) (\<lambda>(r, t, h1).
            Inr (res_reply r, s\<lparr>Tree := t\<rparr>, h1))))
      | _ \<Rightarrow> Inr (count_reply (kvs_rbtree_count (Tree s)), s, h))"

definition hash_cmd :: "script \<Rightarrow> kv_server \<Rightarrow> string list \<Rightarrow> kvs_cmd \<Rightarrow> reply" where
  "hash_cmd h s ts cmd =
     (case cmd of
        KVS_CMD_HSET \<Rightarrow> obind (token ts 1) (\<lambda>k. obind (token ts 2) (\<lambda>v.
          obind (kvs_hash_set h (Hash s) (Some k) (Some v)) (\<lambda>(r, t, h1).
            Inr (set_reply r, s\<lparr>Hash := t\<rparr>, h1))))
      | KVS_CMD_HGET \<Rightarrow> obind (token ts 1) (\<lambda>k.
          obind (kvs_hash_get h (Hash s) (Some k)) (\<lambda>(p, h1).
            obind (get_reply p) (\<lambda>m. Inr (m, s, h1))))
      | KVS_CMD_HDEL \<Rightarrow> obind (token ts 1) (\<lambda>k.
          obind (kvs_hash_delete h (Hash s) (Some k)) (\<lambda>(r, t, h1).
            Inr (res_reply r, s\<lparr>Hash := t\<rparr>, h1)))
      | KVS_CMD_HMOD \<Rightarrow> obind (token ts 1) (\<lambda>k. obind (token ts 2) (\<lambda>v.
          obind (kvs_hash_modify h (Hash s) (Some k) (Some v)) (\<lambda>(r, t, h1).
            Inr (res_reply r, s\<lparr>Hash := t\<rparr>, h1))))
      | _ \<Rightarrow> Inr (count_reply (kvs_hash_count (Hash s)), s, h))"

definition array_cmds :: "kvs_cmd list" where
  "array_cmds = [KVS_CMD_SET, KVS_CMD_GET, KVS_CMD_DEL, KVS_CMD_MOD, KVS_CMD_COUNT]"

definition rbtree_cmds :: "kvs_cmd list" where
  "rbtree_cmds = [KVS_CMD_RSET, KVS_CMD_RGET, KVS_CMD_RDEL, KVS_CMD_RMOD, KVS_CMD_RCOUNT]"

text \<open>
  \<open>kv_store_parser_protocol\<close>: nothing happens without a token; otherwise the write buffer is
  cleared and takes the reply of the selected command.
\<close>

definition kv_store_parser_protocol ::
  "script \<Rightarrow> kv_server \<Rightarrow> conn_item \<Rightarrow> string list \<Rightarrow> (kv_server \<times> conn_item \<times> script) outcome" where
  "kv_store_parser_protocol h s item ts =
     (if ts = [] then Inr (s, item, h)
      else (let cmd = find_cmd commands (ts ! 0) in
        obind (if cmd = KVS_CMD_SIZE then Inl OutOfBounds
               else if cmd \<in> set array_cmds then array_cmd h s ts cmd
               else if cmd \<in> set rbtree_cmds then rbtree_cmd h s ts cmd
               else hash_cmd h s ts cmd)
          (\<lambda>(msg, s', h1). Inr (s', item\<lparr>wbuffer := msg\<rparr>, h1))))"

definition kv_store_request ::
  "script \<Rightarrow> kv_server \<Rightarrow> conn_item \<Rightarrow> (kv_server \<times> conn_item \<times> script) outcome" where
  "kv_store_request h s item =
     obind (kv_store_split_token (rbuffer item)) (\<lambda>(ts, rest).
       kv_store_parser_protocol h s (item\<lparr>rbuffer := rest\<rparr>) ts)"

text \<open>Start-up ignores the results of the create functions; the globals start zeroed.\<close>

definition init_kvengine :: "script \<Rightarrow> (kv_server \<times> script) outcome" where
  "init_kvengine h =
     (let (r, a, h1) = kv_store_array_create h \<lparr>array_table = None, array_idx = 0\<rparr> in
      obind (kv_store_rbtree_create h1) (\<lambda>(r2, t, h2).
        let (r3, ht, h3) = kv_store_hash_create h2 \<lparr>buckets = None, max_slots = 0, hcount = 0\<rparr> in
        Inr (\<lparr>Array = a, Tree = t, Hash = ht\<rparr>, h3)))"

definition exit_kvengine :: "kv_server \<Rightarrow> kv_server outcome" where
  "exit_kvengine s =
     obind (kv_store_array_destroy (Array s)) (\<lambda>a.
       obind (kv_store_rbtree_destroy (Tree s)) (\<lambda>t.
         obind (kv_store_hash_destroy (Hash s)) (\<lambda>ht.
           Inr \<lparr>Array = a, Tree = t, Hash = ht\<rparr>)))"

section \<open>Specification of the commands\<close>

text \<open>
  What a client observes: three finite maps and the tree engine's counter, which counts every
  \<open>RSET\<close> and so is part of the observable state.
\<close>

record spec_state =
  amap :: "string \<rightharpoonup> string"
  rmap :: "string \<rightharpoonup> string"
  rcount :: int
  hmap :: "string \<rightharpoonup> string"

definition abs_server :: "kv_server \<Rightarrow> spec_state" where
  "abs_server s = \<lparr>amap = array_content (Array s), rmap = rbtree_content (Tree s),
     rcount = kvs_rbtree_count (Tree s), hmap = hash_content (Hash s)\<rparr>"

definition lookup_reply :: "string option \<Rightarrow> string" where
  "lookup_reply v = (case v of None \<Rightarrow> ''NO EXIST'' | Some s \<Rightarrow> snprintf s)"

definition yes_no :: "bool \<Rightarrow> string \<Rightarrow> string" where
  "yes_no b no = (if b then ''SUCCESS'' else no)"

fun spec_cmd :: "kvs_cmd \<Rightarrow> string \<Rightarrow> string \<Rightarrow> spec_state \<Rightarrow> string \<times> spec_state" where
  "spec_cmd KVS_CMD_SET k v s = (''SUCCESS'', s\<lparr>amap := (amap s)(k \<mapsto> v)\<rparr>)"
| "spec_cmd KVS_CMD_GET k v s = (lookup_reply (amap s k), s)"
| "spec_cmd KVS_CMD_DEL k v s =
     (yes_no (k \<in> dom (amap s) \<or> dom (amap s) = {}) ''NO EXIST'', s\<lparr>amap := (amap s)(k := None)\<rparr>)"
| "spec_cmd KVS_CMD_MOD k v s =
     (yes_no (k \<in> dom (amap s) \<or> dom (amap s) = {}) ''NO EXIST'', s\<lparr>amap := spec_mod False (amap s) k v\<rparr>)"
| "spec_cmd KVS_CMD_COUNT k v s = (count_reply (int (card (dom (amap s)))), s)"
| "spec_cmd KVS_CMD_RSET k v s =
     (''SUCCESS'', s\<lparr>rmap := spec_set False (rmap s) k v, rcount := rcount s + 1\<rparr>)"
| "spec_cmd KVS_CMD_RGET k v s = (lookup_reply (rmap s k), s)"
| "spec_cmd KVS_CMD_RDEL k v s =
     (yes_no (k \<in> dom (rmap s)) ''ERROR'',
      s\<lparr>rmap := (rmap s)(k := None), rcount := rcount s - (if k \<in> dom (rmap s) then 1 else 0)\<rparr>)"
| "spec_cmd KVS_CMD_RMOD k v s =
     (yes_no (k \<in> dom (rmap s)) ''ERROR'', s\<lparr>rmap := spec_mod False (rmap s) k v\<rparr>)"
| "spec_cmd KVS_CMD_RCOUNT k v s = (count_reply (rcount s), s)"
| "spec_cmd KVS_CMD_HSET k v s =
     (yes_no (k \<notin> dom (hmap s)) ''FAILED'', s\<lparr>hmap := (hmap s)(k \<mapsto> v)\<rparr>)"
| "spec_cmd KVS_CMD_HGET k v s = (lookup_reply (hmap s k), s)"
| "spec_cmd KVS_CMD_HDEL k v s =
     (yes_no (k \<in> dom (hmap s)) ''ERROR'', s\<lparr>hmap := (hmap s)(k := None)\<rparr>)"
| "spec_cmd KVS_CMD_HMOD k v s =
     (yes_no (k \<in> dom (hmap s)) ''ERROR'', s\<lparr>hmap := (hmap s)(k \<mapsto> v)\<rparr>)"
| "spec_cmd KVS_CMD_HCOUNT k v s = (count_reply (int (card (dom (hmap s)))), s)"
| "spec_cmd KVS_CMD_SIZE k v s = ([], s)"

definition server_inv :: "kv_server \<Rightarrow> bool" where
  "server_inv s \<longleftrightarrow> array_inv (Array s) \<and> rbtree_inv (Tree s) \<and> hash_inv (Hash s)"

text \<open>The number of tokens a command needs, and when the engines accept it.\<close>

fun arity :: "kvs_cmd \<Rightarrow> nat" where
  "arity c =
     (if c \<in> {KVS_CMD_SET, KVS_CMD_MOD, KVS_CMD_RSET, KVS_CMD_RMOD, KVS_CMD_HSET, KVS_CMD_HMOD} then 3
      else if c \<in> {KVS_CMD_COUNT, KVS_CMD_RCOUNT, KVS_CMD_HCOUNT} then 1 else 2)"

definition admissible :: "kv_server \<Rightarrow> kvs_cmd \<Rightarrow> string \<Rightarrow> bool" where
  "admissible s c k \<longleftrightarrow>
     (c = KVS_CMD_SET \<longrightarrow> array_idx (Array s) < KVS_ARRAY_SIZE) \<and>
     (c = KVS_CMD_HSET \<or> c = KVS_CMD_HMOD \<longrightarrow> hash_room (Hash s)) \<and>
     (c = KVS_CMD_HDEL \<longrightarrow> del_safe (Hash s) k)"

lemma get_reply_cptr [simp]: "get_reply (cptr_of v) = Inr (lookup_reply v)"
  by (cases v) (simp_all add: get_reply_def lookup_reply_def)

lemma token_simps [simp]: "i < length ts \<Longrightarrow> token ts i = Inr (ts ! i)"
  by (simp add: token_def)

definition refines_cmd :: "reply \<Rightarrow> kvs_cmd \<Rightarrow> kv_server \<Rightarrow> string \<Rightarrow> string \<Rightarrow> bool" where
  "refines_cmd x c s k v \<longleftrightarrow>
     (\<exists>msg s'. x = Inr (msg, s', []) \<and> server_inv s' \<and> (msg, abs_server s') = spec_cmd c k v (abs_server s))"

lemma array_cmd_refines:
  assumes inv: "server_inv s" and c: "c \<in> set array_cmds" and "arity c \<le> length ts" and "admissible s c (ts ! 1)"
  shows "refines_cmd (array_cmd [] s ts c) c s (ts ! 1) (ts ! 2)"
proof -
  from inv have a: "array_inv (Array s)" by (simp add: server_inv_def)
  note del = kvs_array_delete_ok[OF a, of "ts ! 1"] and upd = kvs_array_modify_ok[OF a, of "ts ! 1" "ts ! 2"]
  note iff = array_content_empty_iff[OF a]
  from c consider "c = KVS_CMD_SET" | "c = KVS_CMD_GET" | "c = KVS_CMD_DEL" | "c = KVS_CMD_MOD" | "c = KVS_CMD_COUNT"
    by (auto simp: array_cmds_def)
  then show ?thesis
  proof cases
    case 1
    then obtain a' where "kvs_array_set [] (Array s) (Some (ts ! 1)) (Some (ts ! 2)) = Inr (0, a', [])"
      "array_inv a'" "array_content a' = (array_content (Array s))(ts ! 1 \<mapsto> ts ! 2)"
      using kvs_array_set_ok[OF a, of "ts ! 1" "ts ! 2"] assms(4) by (auto simp: admissible_def)
    with 1 assms(1,3) show ?thesis
      by (auto simp: refines_cmd_def array_cmd_def set_reply_def server_inv_def abs_server_def)
  next
    case 2
    with assms(1,3) kvs_array_get_content[OF a, of "ts ! 1"] show ?thesis
      by (auto simp: refines_cmd_def array_cmd_def abs_server_def)
  next
    case 3
    from del obtain r a' where "kvs_array_delete (Array s) (Some (ts ! 1)) = Inr (r, a')" "array_inv a'"
      "array_content a' = (array_content (Array s))(ts ! 1 := None)"
      "r = (if ts ! 1 \<in> dom (array_content (Array s)) then 0 else int (array_idx (Array s)))" by blast
    with 3 assms(1,3) iff show ?thesis
      by (auto simp: refines_cmd_def array_cmd_def res_reply_def yes_no_def server_inv_def abs_server_def)
  next
    case 4
    from upd obtain r a' where "kvs_array_modify [] (Array s) (Some (ts ! 1)) (Some (ts ! 2)) = Inr (r, a', [])"
      "array_inv a'" "array_content a' = spec_mod False (array_content (Array s)) (ts ! 1) (ts ! 2)"
      "r = (if ts ! 1 \<in> dom (array_content (Array s)) then 0 else int (array_idx (Array s)))" by blast
    with 4 assms(1,3) iff show ?thesis
      by (auto simp: refines_cmd_def array_cmd_def res_reply_def yes_no_def server_inv_def abs_server_def)
  next
    case 5
    with assms(1) kvs_array_count_content[OF a] show ?thesis
      by (auto simp: refines_cmd_def array_cmd_def abs_server_def)
  qed
qed

lemma rbtree_cmd_refines:
  assumes inv: "server_inv s" and c: "c \<in> set rbtree_cmds" and "arity c \<le> length ts"
  shows "refines_cmd (rbtree_cmd [] s ts c) c s (ts ! 1) (ts ! 2)"
proof -
  from inv have t: "rbtree_inv (Tree s)" by (simp add: server_inv_def)
  from c consider "c = KVS_CMD_RSET" | "c = KVS_CMD_RGET" | "c = KVS_CMD_RDEL" | "c = KVS_CMD_RMOD" | "c = KVS_CMD_RCOUNT"
    by (auto simp: rbtree_cmds_def)
  then show ?thesis
  proof cases
    case 1
    have "\<exists>t'. kvs_rbtree_set [] (Tree s) (Some (ts ! 1)) (Some (ts ! 2)) = Inr (0, t', []) \<and> rbtree_inv t' \<and>
        rbtree_content t' = spec_set False (rbtree_content (Tree s)) (ts ! 1) (ts ! 2) \<and>
        kvs_rbtree_count t' = kvs_rbtree_count (Tree s) + 1"
      using t kvs_rbtree_set_present[OF t, of "ts ! 1" "ts ! 2"] kvs_rbtree_set_fresh[OF t, of "ts ! 1" "ts ! 2"]
      by (cases "rbtree_content (Tree s) (ts ! 1)") (auto simp: spec_set_def kvs_rbtree_count_def)
    then obtain t' where "kvs_rbtree_set [] (Tree s) (Some (ts ! 1)) (Some (ts ! 2)) = Inr (0, t', [])"
      "rbtree_inv t'" "rbtree_content t' = spec_set False (rbtree_content (Tree s)) (ts ! 1) (ts ! 2)"
      "kvs_rbtree_count t' = kvs_rbtree_count (Tree s) + 1" by blast
    with 1 assms(1,3) show ?thesis
      by (auto simp: refines_cmd_def rbtree_cmd_def set_reply_def server_inv_def abs_server_def)
  next
    case 2
    with assms(1,3) kvs_rbtree_get_content[OF t, of "ts ! 1"] show ?thesis
      by (auto simp: refines_cmd_def rbtree_cmd_def abs_server_def)
  next
    case 3
    from kvs_rbtree_delete_ok[OF t, of "ts ! 1"] obtain t' where
      "kvs_rbtree_delete (Tree s) (Some (ts ! 1)) =
        Inr (if ts ! 1 \<in> dom (rbtree_content (Tree s)) then 0 else -1, t')" "rbtree_inv t'"
      "rbtree_content t' = (rbtree_content (Tree s))(ts ! 1 := None)"
      "rbtree.count t' = (if ts ! 1 \<in> dom (rbtree_content (Tree s)) then rbtree.count (Tree s) - 1
        else rbtree.count (Tree s))" by blast
    with 3 assms(1,3) show ?thesis
      by (auto simp: refines_cmd_def rbtree_cmd_def res_reply_def yes_no_def server_inv_def
          abs_server_def kvs_rbtree_count_def)
  next
    case 4
    from kvs_rbtree_modify_ok[OF t, of "ts ! 1" "ts ! 2"] obtain t' where
      "kvs_rbtree_modify [] (Tree s) (Some (ts ! 1)) (Some (ts ! 2)) =
        Inr (if ts ! 1 \<in> dom (rbtree_content (Tree s)) then 0 else -1, t', [])" "rbtree_inv t'"
      "rbtree_content t' = spec_mod False (rbtree_content (Tree s)) (ts ! 1) (ts ! 2)"
      "rbtree.count t' = rbtree.count (Tree s)" by blast
    with 4 assms(1,3) show ?thesis
      by (auto simp: refines_cmd_def rbtree_cmd_def res_reply_def yes_no_def server_inv_def
          abs_server_def kvs_rbtree_count_def)
  next
    case 5
    with assms(1) show ?thesis
      by (auto simp: refines_cmd_def rbtree_cmd_def abs_server_def)
  qed
qed

lemma hash_cmd_refines:
  assumes inv: "server_inv s" and "arity c \<le> length ts" and adm: "admissible s c (ts ! 1)"
    and c: "c \<notin> set array_cmds" "c \<notin> set rbtree_cmds" "c \<noteq> KVS_CMD_SIZE"
  shows "refines_cmd (hash_cmd [] s ts c) c s (ts ! 1) (ts ! 2)"
proof -
  from inv have t: "hash_inv (Hash s)" "table_ok (Hash s)"
    by (simp_all add: server_inv_def hash_inv_def)
  note put = put_kv_hashtable_ok[OF t(1), of "ts ! 1" "ts ! 2"]
  from c consider "c = KVS_CMD_HSET" | "c = KVS_CMD_HGET" | "c = KVS_CMD_HDEL" | "c = KVS_CMD_HMOD" | "c = KVS_CMD_HCOUNT"
    by (cases c) (auto simp: array_cmds_def rbtree_cmds_def)
  then show ?thesis
  proof cases
    case 1
    with put adm obtain t' where "put_kv_hashtable 2 [] (Hash s) (Some (ts ! 1)) (Some (ts ! 2)) =
        Inr (1 - grows (hash_content (Hash s)) (ts ! 1), t', [])" "hash_inv t'"
      "hash_content t' = (hash_content (Hash s))(ts ! 1 \<mapsto> ts ! 2)" by (auto simp: admissible_def)
    with 1 assms(1,2) show ?thesis
      by (auto simp: refines_cmd_def hash_cmd_def kvs_hash_set_def set_reply_def yes_no_def grows_def
          server_inv_def abs_server_def)
  next
    case 2
    with assms(1,2) kvs_hash_get_content[OF t(2), of "ts ! 1"] show ?thesis
      by (auto simp: refines_cmd_def hash_cmd_def abs_server_def)
  next
    case 3
    with kvs_hash_delete_ok[OF t(1), of "ts ! 1"] adm obtain t' where
      "kvs_hash_delete [] (Hash s) (Some (ts ! 1)) =
        Inr (if ts ! 1 \<in> dom (hash_content (Hash s)) then 0 else -1, t', [])" "hash_inv t'"
      "hash_content t' = (hash_content (Hash s))(ts ! 1 := None)" by (auto simp: admissible_def)
    with 3 assms(1,2) show ?thesis
      by (auto simp: refines_cmd_def hash_cmd_def res_reply_def yes_no_def server_inv_def abs_server_def)
  next
    case 4
    with put adm obtain t' where "put_kv_hashtable 2 [] (Hash s) (Some (ts ! 1)) (Some (ts ! 2)) =
        Inr (1 - grows (hash_content (Hash s)) (ts ! 1), t', [])" "hash_inv t'"
      "hash_content t' = (hash_content (Hash s))(ts ! 1 \<mapsto> ts ! 2)" by (auto simp: admissible_def)
    with 4 assms(1,2) show ?thesis
      by (auto simp: refines_cmd_def hash_cmd_def kvs_hash_modify_def res_reply_def yes_no_def grows_def
          server_inv_def abs_server_def)
  next
    case 5
    with assms(1) kvs_hash_count_content[OF t(2)] show ?thesis
      by (auto simp: refines_cmd_def hash_cmd_def abs_server_def)
  qed
qed

lemma kv_store_request_refines:
  assumes inv: "server_inv s" and ts: "strtok_all (rbuffer item) = ts"
    and "ts \<noteq> []" "length ts \<le> KV_STORE_MAX_TOKENS"
    and c: "c = find_cmd commands (ts ! 0)" "c \<noteq> KVS_CMD_SIZE"
    and "arity c \<le> length ts" "admissible s c (ts ! 1)"
  shows "\<exists>s' item'. kv_store_request [] s item = Inr (s', item', []) \<and> server_inv s' \<and>
    (wbuffer item', abs_server s') = spec_cmd c (ts ! 1) (ts ! 2) (abs_server s)"
proof -
  let ?x = "if c \<in> set array_cmds then array_cmd [] s ts c
    else if c \<in> set rbtree_cmds then rbtree_cmd [] s ts c else hash_cmd [] s ts c"
  have "refines_cmd ?x c s (ts ! 1) (ts ! 2)"
    using array_cmd_refines[OF inv] rbtree_cmd_refines[OF inv] hash_cmd_refines[OF inv] assms(6-8)
    by simp
  then obtain msg s' where "?x = Inr (msg, s', [])" "server_inv s'"
    "(msg, abs_server s') = spec_cmd c (ts ! 1) (ts ! 2) (abs_server s)" by (auto simp: refines_cmd_def)
  with assms(3,4) c ts show ?thesis
    by (auto simp: kv_store_request_def kv_store_split_token_def kv_store_parser_protocol_def Let_def
        simp del: arity.simps)
qed

section \<open>Tokens\<close>

definition word_ok :: "string \<Rightarrow> bool" where
  "word_ok w \<longleftrightarrow> w \<noteq> [] \<and> space \<notin> set w"

fun unwords :: "string list \<Rightarrow> string" where
  "unwords [] = []"
| "unwords [w] = w"
| "unwords (w # ws) = w @ space # unwords ws"

lemma strtok_all_Nil [simp]: "strtok_all [] = []"
  by (simp add: strtok_all.simps)

lemma strtok_all_space [simp]: "strtok_all (space # s) = strtok_all s"
  by (simp add: strtok_all.simps[of "space # s"] strtok_all.simps[of s])

lemma strtok_all_word:
  assumes "word_ok w" and "r = [] \<or> hd r = space"
  shows "strtok_all (w @ r) = w # strtok_all r"
proof -
  from assms(1) obtain c cs where w: "w = c # cs" "c \<noteq> space" "space \<notin> set cs"
    by (cases w) (auto simp: word_ok_def)
  have 1: "dropWhile (\<lambda>c. c = space) (w @ r) = w @ r" using w by simp
  have 2: "takeWhile (\<lambda>c. c \<noteq> space) (w @ r) = w" "dropWhile (\<lambda>c. c \<noteq> space) (w @ r) = r"
    using assms w by (cases r; auto simp: takeWhile_append dropWhile_append)+
  show ?thesis
    unfolding strtok_all.simps[of "w @ r"] Let_def 1 2 using w(1) by simp
qed

lemma strtok_all_unwords: "list_all word_ok ws \<Longrightarrow> strtok_all (unwords ws) = ws"
proof (induction ws rule: unwords.induct)
  case (2 w)
  then show ?case using strtok_all_word[of w "[]"] by simp
next
  case (3 w v vs)
  then show ?case using strtok_all_word[of w "space # unwords (v # vs)"] by simp
qed simp

lemma strtok_all_words: "list_all word_ok (strtok_all s) \<and> concat (strtok_all s) = filter (\<lambda>c. c \<noteq> space) s"
proof (induction s rule: strtok_all.induct)
  case (1 s)
  let ?s = "dropWhile (\<lambda>c. c = space) s"
  have f: "filter (\<lambda>c. c \<noteq> space) s = filter (\<lambda>c. c \<noteq> space) ?s"
    by (induction s) auto
  show ?case
  proof (cases "?s = []")
    case True
    with f show ?thesis by (subst (1 2) strtok_all.simps) simp
  next
    case False
    let ?w = "takeWhile (\<lambda>c. c \<noteq> space) ?s" and ?r = "dropWhile (\<lambda>c. c \<noteq> space) ?s"
    have "hd ?s \<noteq> space" using hd_dropWhile[of "\<lambda>c. c = space" s] False by simp
    with False have "word_ok ?w"
      by (cases ?s) (auto simp: word_ok_def dest: set_takeWhileD)
    moreover have "filter (\<lambda>c. c \<noteq> space) ?s = ?w @ filter (\<lambda>c. c \<noteq> space) ?r"
      by (metis (mono_tags, lifting) filter_append filter_True set_takeWhileD takeWhile_dropWhile_id)
    moreover have "strtok_all s = ?w # strtok_all ?r"
      using False by (subst strtok_all.simps) (simp add: Let_def)
    ultimately show ?thesis using "1"[OF refl False] f by simp
  qed
qed

section \<open>Properties\<close>

definition sample_server :: kv_server where
  "sample_server = \<lparr>Array = array_ab, Tree = tree_ab, Hash = table7\<rparr>"

lemma sample_server_inv: "server_inv sample_server"
  by (simp add: server_inv_def sample_server_def array_ab_inv tree_ab_inv table7_facts)



text \<open>
  splitting is the inverse of joining words with spaces; on any line whatsoever the tokens are
  non-empty, contain no space, and together are the line's other characters in order.
\<close>

theorem split_token_roundtrip:
  assumes "list_all word_ok ws"
  shows "strtok_all (unwords ws) = ws \<and>
    (\<forall>s. list_all word_ok (strtok_all s) \<and> concat (strtok_all s) = filter (\<lambda>c. c \<noteq> space) s)"
  using strtok_all_unwords[OF assms] strtok_all_words by blast

theorem split_token_roundtrip_witness:
  "strtok_all (unwords [''SET'', ''a'', ''1'']) = [''SET'', ''a'', ''1''] \<and>
    (\<forall>s. list_all word_ok (strtok_all s) \<and> concat (strtok_all s) = filter (\<lambda>c. c \<noteq> space) s)"
  by (rule split_token_roundtrip) (simp add: word_ok_def)

text \<open>
  C22: a value written through the text protocol is read back: on each of the three engines a
  \<open>SET\<close> of a new key is acknowledged, and the following \<open>GET\<close> of that key answers the
  value, cut to the buffer.
\<close>

theorem request_set_then_get:
  assumes "server_inv s" and "word_ok k" and "word_ok v" and "e \<in> {[], ''R'', ''H''}"
    and "array_idx (Array s) < KVS_ARRAY_SIZE" and "hash_room (Hash s)"
    and "array_content (Array s) k = None" and "rbtree_content (Tree s) k = None"
    and "hash_content (Hash s) k = None"
  shows "\<exists>s1 i1 s2 i2.
    kv_store_request [] s \<lparr>rbuffer = unwords [e @ ''SET'', k, v], wbuffer = w\<rparr> = Inr (s1, i1, []) \<and>
    kv_store_request [] s1 \<lparr>rbuffer = unwords [e @ ''GET'', k], wbuffer = w\<rparr> = Inr (s2, i2, []) \<and>
    wbuffer i1 = ''SUCCESS'' \<and> wbuffer i2 = snprintf v \<and> server_inv s2"
proof -
  have e: "word_ok (e @ ''SET'')" "word_ok (e @ ''GET'')" using assms(4) by (auto simp: word_ok_def)
  let ?c = "find_cmd commands (e @ ''SET'')" and ?d = "find_cmd commands (e @ ''GET'')"
  have toks: "strtok_all (unwords [e @ ''SET'', k, v]) = [e @ ''SET'', k, v]"
    "strtok_all (unwords [e @ ''GET'', k]) = [e @ ''GET'', k]"
    using e assms(2,3) by (simp_all add: strtok_all_unwords del: unwords.simps)
  have adm: "?c \<noteq> KVS_CMD_SIZE" "arity ?c \<le> 3" "admissible s ?c k"
    "?d \<noteq> KVS_CMD_SIZE" "arity ?d \<le> 2" "\<And>s. admissible s ?d k"
    using assms(4-6) by (auto simp: commands_def admissible_def)
  from kv_store_request_refines[OF assms(1), of "\<lparr>rbuffer = unwords [e @ ''SET'', k, v], wbuffer = w\<rparr>"
      "[e @ ''SET'', k, v]" ?c] toks adm
  obtain s1 i1 where s1: "kv_store_request [] s \<lparr>rbuffer = unwords [e @ ''SET'', k, v], wbuffer = w\<rparr> = Inr (s1, i1, [])"
    "server_inv s1" "(wbuffer i1, abs_server s1) = spec_cmd ?c k v (abs_server s)"
    by (auto simp del: unwords.simps arity.simps)
  from kv_store_request_refines[OF s1(2), of "\<lparr>rbuffer = unwords [e @ ''GET'', k], wbuffer = w\<rparr>"
      "[e @ ''GET'', k]" ?d] toks adm
  obtain s2 i2 where s2: "kv_store_request [] s1 \<lparr>rbuffer = unwords [e @ ''GET'', k], wbuffer = w\<rparr> = Inr (s2, i2, [])"
    "server_inv s2" "wbuffer i2 = fst (spec_cmd ?d k ([e @ ''GET'', k] ! 2) (abs_server s1))"
    by (auto simp: prod_eq_iff simp del: unwords.simps arity.simps)
  have "abs_server s1 = snd (spec_cmd ?c k v (abs_server s))" "wbuffer i1 = fst (spec_cmd ?c k v (abs_server s))"
    using s1(3) by (metis fst_conv snd_conv)+
  then have "wbuffer i1 = ''SUCCESS'' \<and> wbuffer i2 = snprintf v"
    using s2(3) assms(4,7-9) by (auto simp: commands_def abs_server_def lookup_reply_def yes_no_def spec_set_def)
  with s1 s2 show ?thesis by blast
qed

theorem request_set_then_get_witness:
  "\<exists>s1 i1 s2 i2.
    kv_store_request [] sample_server \<lparr>rbuffer = unwords [''R'' @ ''SET'', ''k'', ''v''], wbuffer = []\<rparr> = Inr (s1, i1, []) \<and>
    kv_store_request [] s1 \<lparr>rbuffer = unwords [''R'' @ ''GET'', ''k''], wbuffer = []\<rparr> = Inr (s2, i2, []) \<and>
    wbuffer i1 = ''SUCCESS'' \<and> wbuffer i2 = snprintf ''v'' \<and> server_inv s2"
proof (rule request_set_then_get[OF sample_server_inv])
  show "array_content (Array sample_server) ''k'' = None"
    by (simp add: sample_server_def array_ab_def array_content_def array_items_def)
qed (simp_all add: word_ok_def sample_server_def array_ab_inv tree_ab_content table7_facts)

text \<open>
  C32: a line whose first word is no command, and a line with too few words for its command, are not
  answered with an error: the first indexes the command table past its end (and then hits
  \<open>assert(0)\<close>), the second hands an uninitialised pointer to the engine.
\<close>

theorem request_malformed_faults:
  assumes "strtok_all (rbuffer item) = ts" and "ts \<noteq> []" and "length ts \<le> KV_STORE_MAX_TOKENS"
    and "c = find_cmd commands (ts ! 0)" and "c = KVS_CMD_SIZE \<or> length ts < arity c"
  shows "kv_store_request h s item = Inl (if c = KVS_CMD_SIZE then OutOfBounds else Uninit)"
proof (cases "c = KVS_CMD_SIZE")
  case True
  with assms show ?thesis
    by (simp add: kv_store_request_def kv_store_split_token_def kv_store_parser_protocol_def Let_def)
next
  case False
  with assms(5) have short: "length ts < arity c" by simp
  have uninit: "(if c \<in> set array_cmds then array_cmd h s ts c
     else if c \<in> set rbtree_cmds then rbtree_cmd h s ts c else hash_cmd h s ts c) = Inl Uninit"
    using short False assms(2)
    by (cases c) (auto simp: array_cmds_def rbtree_cmds_def array_cmd_def rbtree_cmd_def hash_cmd_def
        token_def neq_Nil_conv less_Suc_eq numeral_3_eq_3 numeral_2_eq_2)
  from uninit False assms(1-3) assms(4)[symmetric] show ?thesis
    by (simp split del: if_split add: kv_store_request_def kv_store_split_token_def kv_store_parser_protocol_def Let_def)
qed

theorem request_malformed_faults_witness:
  "kv_store_request [] sample_server \<lparr>rbuffer = ''PING'', wbuffer = []\<rparr> = Inl OutOfBounds"
  using request_malformed_faults[of "\<lparr>rbuffer = ''PING'', wbuffer = []\<rparr>" "[''PING'']" KVS_CMD_SIZE]
  by (simp add: strtok_all.simps commands_def)

text \<open>
  start-up with enough memory gives three well-formed empty engines, and a shut-down of well-formed
  engines frees every node once and leaves no engine memory reachable.
\<close>

theorem server_lifecycle:
  assumes "server_inv s"
  shows "\<exists>s0 s1. init_kvengine [] = Inr (s0, []) \<and> server_inv s0 \<and>
    abs_server s0 = \<lparr>amap = Map.empty, rmap = Map.empty, rcount = 0, hmap = Map.empty\<rparr> \<and>
    exit_kvengine s = Inr s1 \<and> array_table (Array s1) = None \<and> root (Tree s1) = RNil \<and>
    buckets (Hash s1) = None"
proof -
  obtain a where a: "kv_store_array_create [] \<lparr>array_table = None, array_idx = 0\<rparr> = (0, a, [])"
    "array_inv a" "array_content a = Map.empty" using kv_store_array_create_ok by blast
  obtain t where t: "kv_store_rbtree_create [] = Inr (0, t, [])" "rbtree_inv t"
    "rbtree_content t = Map.empty" "kvs_rbtree_count t = 0" using kv_store_rbtree_create_ok by blast
  obtain ht where ht: "kv_store_hash_create [] \<lparr>buckets = None, max_slots = 0, hcount = 0\<rparr> = (0, ht, [])"
    "hash_inv ht" "hash_content ht = Map.empty" using init_hashtable_ok by blast
  from assms have inv: "array_inv (Array s)" "rbtree_inv (Tree s)" "table_ok (Hash s)"
    by (simp_all add: server_inv_def hash_inv_def)
  from kv_store_array_destroy_ok[OF inv(1)] obtain a' where
    "kv_store_array_destroy (Array s) = Inr a'" "array_table a' = None" by blast
  with a t ht kv_store_rbtree_destroy_ok[OF inv(2)] dest_hashtable_ok[OF inv(3)] show ?thesis
    by (simp add: init_kvengine_def exit_kvengine_def server_inv_def abs_server_def)
qed

theorem server_lifecycle_witness:
  "\<exists>s0 s1. init_kvengine [] = Inr (s0, []) \<and> server_inv s0 \<and>
    abs_server s0 = \<lparr>amap = Map.empty, rmap = Map.empty, rcount = 0, hmap = Map.empty\<rparr> \<and>
    exit_kvengine sample_server = Inr s1 \<and> array_table (Array s1) = None \<and> root (Tree s1) = RNil \<and>
    buckets (Hash s1) = None"
  by (rule server_lifecycle[OF sample_server_inv])

end
