(* ===== verification/Transaction.thy ===== *)
theory Transaction
  imports RBT_Engine "HOL-Library.Word"
begin

text \<open>
  Local transactions, \<open>src/kvserver/kv_transaction.c\<close>, on the red-black tree engine. A
  transaction collects operations; at isolation level 0 (read uncommitted) each is applied at
  once and its old value kept for the rollback, at the other levels they are applied at commit.
  The engine, which the C structure points to, is passed beside the transaction. The clock is an
  argument of the operations that read it. \<open>strdup\<close> and \<open>malloc\<close> draw on the script.
\<close>

section \<open>State\<close>

datatype txn_op = TXN_OP_SET | TXN_OP_DEL | TXN_OP_MOD

datatype txn_status = TXN_STATUS_ACTIVE | TXN_STATUS_COMMITTED | TXN_STATUS_ABORTED

abbreviation TXN_ISOLATION_READ_UNCOMMITTED :: nat where "TXN_ISOLATION_READ_UNCOMMITTED \<equiv> 0"
abbreviation TXN_ISOLATION_READ_COMMITTED :: nat where "TXN_ISOLATION_READ_COMMITTED \<equiv> 1"
abbreviation TXN_ISOLATION_REPEATABLE_READ :: nat where "TXN_ISOLATION_REPEATABLE_READ \<equiv> 2"

record txn_op_item =
  op_type :: txn_op
  tkey :: "string option"
  tvalue :: "string option"
  old_value :: "string option"

record kv_transaction =
  txn_id :: "64 word"
  status :: txn_status
  isolation_level :: nat
  start_time :: int
  end_time :: int
  op_list :: "txn_op_item list"
  op_count :: nat

record txn_manager =
  next_txn_id :: "64 word"
  txn_count :: int
  default_isolation :: nat

section \<open>Operations\<close>

definition txn_manager_init :: "txn_manager \<Rightarrow> int \<times> txn_manager" where
  "txn_manager_init m =
     (0, m\<lparr>next_txn_id := 1, txn_count := 0, default_isolation := TXN_ISOLATION_READ_COMMITTED\<rparr>)"

definition txn_manager_destroy :: "txn_manager \<Rightarrow> txn_manager" where
  "txn_manager_destroy m = m\<lparr>next_txn_id := 0, txn_count := 0\<rparr>"

definition txn_begin ::
  "script \<Rightarrow> int \<Rightarrow> txn_manager \<Rightarrow> rbtree option \<Rightarrow> nat \<Rightarrow> kv_transaction option \<times> txn_manager \<times> script" where
  "txn_begin h now m engine level =
     (case engine of
        None \<Rightarrow> (None, m, h)
      | Some t \<Rightarrow>
          let (ok, h1) = malloc h in
          if \<not> ok then (None, m, h1)
          else (Some \<lparr>txn_id = next_txn_id m, status = TXN_STATUS_ACTIVE, isolation_level = level,
                      start_time = now, end_time = 0, op_list = [], op_count = 0\<rparr>,
                m\<lparr>next_txn_id := next_txn_id m + 1, txn_count := txn_count m + 1\<rparr>, h1))"

text \<open>\<open>txn_add_op\<close>: whether an item was added; it is then the last of the list.\<close>

definition txn_add_op ::
  "script \<Rightarrow> kv_transaction \<Rightarrow> txn_op \<Rightarrow> string \<Rightarrow> string option \<Rightarrow> bool \<times> kv_transaction \<times> script" where
  "txn_add_op h txn op k value_p =
     (if status txn \<noteq> TXN_STATUS_ACTIVE then (False, txn, h)
      else (let (ok, h1) = malloc h in
        if \<not> ok then (False, txn, h1)
        else (let (k', h2) = strdup h1 k;
                  (v', h3) = (case value_p of None \<Rightarrow> (None, h2) | Some v \<Rightarrow> strdup h2 v) in
          (True, txn\<lparr>op_list := op_list txn @ [\<lparr>op_type = op, tkey = k', tvalue = v', old_value = None\<rparr>],
                     op_count := op_count txn + 1\<rparr>, h3))))"

text \<open>Recording the old value in the item just added.\<close>

definition keep_old :: "script \<Rightarrow> kv_transaction \<Rightarrow> string option \<Rightarrow> kv_transaction \<times> script" where
  "keep_old h txn cur =
     (case cur of
        None \<Rightarrow> (txn, h)
      | Some c \<Rightarrow>
          let (c', h1) = strdup h c in
          (txn\<lparr>op_list := butlast (op_list txn) @ [last (op_list txn)\<lparr>old_value := c'\<rparr>]\<rparr>, h1))"

type_synonym txn_result = "(int \<times> kv_transaction \<times> rbtree \<times> script) outcome"

definition txn_set ::
  "script \<Rightarrow> kv_transaction \<Rightarrow> rbtree \<Rightarrow> string option \<Rightarrow> string option \<Rightarrow> txn_result" where
  "txn_set h txn tree key_p value_p =
     (case (key_p, value_p) of
        (Some k, Some v) \<Rightarrow>
          if status txn \<noteq> TXN_STATUS_ACTIVE then Inr (-1, txn, tree, h)
          else (let (added, txn1, h1) = txn_add_op h txn TXN_OP_SET k (Some v) in
            if \<not> added then Inr (-1, txn1, tree, h1)
            else if isolation_level txn1 = TXN_ISOLATION_READ_UNCOMMITTED
            then obind (kvs_rbtree_get tree (Some k)) (\<lambda>p.
                   obind (read_ptr p) (\<lambda>cur.
                     let (txn2, h2) = keep_old h1 txn1 cur in
                     obind (kvs_rbtree_set h2 tree (Some k) (Some v)) (\<lambda>(r, tree', h3).
                       Inr (0, txn2, tree', h3))))
            else Inr (0, txn1, tree, h1))
      | _ \<Rightarrow> Inr (-1, txn, tree, h))"

text \<open>The scan of the operation list in \<open>txn_get\<close>: the first operation on the key decides.\<close>

fun scan_ops :: "script \<Rightarrow> string \<Rightarrow> txn_op_item list \<Rightarrow> ((cptr \<times> script) option) outcome" where
  "scan_ops h k [] = Inr None"
| "scan_ops h k (it # its) =
     (case tkey it of
        None \<Rightarrow> Inl NullDeref
      | Some k' \<Rightarrow>
          if strcmp k' k = 0 then
            (if op_type it = TXN_OP_DEL then Inr (Some (Null, h))
             else (case tvalue it of
               None \<Rightarrow> Inl NullDeref
             | Some v \<Rightarrow> let (v', h1) = strdup h v in Inr (Some (cptr_of v', h1))))
          else scan_ops h k its)"

definition txn_get ::
  "script \<Rightarrow> kv_transaction \<Rightarrow> rbtree \<Rightarrow> string option \<Rightarrow> (cptr \<times> script) outcome" where
  "txn_get h txn tree key_p =
     (case key_p of
        None \<Rightarrow> Inr (Null, h)
      | Some k \<Rightarrow>
          obind (if isolation_level txn \<ge> TXN_ISOLATION_REPEATABLE_READ
                 then scan_ops h k (op_list txn) else Inr None) (\<lambda>found.
            case found of
              Some (p, h1) \<Rightarrow> Inr (p, h1)
            | None \<Rightarrow> obind (kvs_rbtree_get tree (Some k)) (\<lambda>p. Inr (p, h))))"

definition txn_delete ::
  "script \<Rightarrow> kv_transaction \<Rightarrow> rbtree \<Rightarrow> string option \<Rightarrow> txn_result" where
  "txn_delete h txn tree key_p =
     (case key_p of
        None \<Rightarrow> Inr (-1, txn, tree, h)
      | Some k \<Rightarrow>
          if status txn \<noteq> TXN_STATUS_ACTIVE then Inr (-1, txn, tree, h)
          else obind (kvs_rbtree_get tree (Some k)) (\<lambda>p.
            let (added, txn1, h1) = txn_add_op h txn TXN_OP_DEL k None in
            if \<not> added then Inr (-1, txn1, tree, h1)
            else obind (read_ptr p) (\<lambda>cur.
              let (txn2, h2) = keep_old h1 txn1 cur in
              if isolation_level txn2 = TXN_ISOLATION_READ_UNCOMMITTED
              then obind (kvs_rbtree_delete tree (Some k)) (\<lambda>(r, tree'). Inr (0, txn2, tree', h2))
              else Inr (0, txn2, tree, h2))))"

definition txn_modify ::
  "script \<Rightarrow> kv_transaction \<Rightarrow> rbtree \<Rightarrow> string option \<Rightarrow> string option \<Rightarrow> txn_result" where
  "txn_modify h txn tree key_p value_p =
     (case (key_p, value_p) of
        (Some k, Some v) \<Rightarrow>
          if status txn \<noteq> TXN_STATUS_ACTIVE then Inr (-1, txn, tree, h)
          else obind (kvs_rbtree_get tree (Some k)) (\<lambda>p.
            obind (read_ptr p) (\<lambda>cur.
              if cur = None then Inr (-1, txn, tree, h)
              else (let (added, txn1, h1) = txn_add_op h txn TXN_OP_MOD k (Some v) in
                if \<not> added then Inr (-1, txn1, tree, h1)
                else (let (txn2, h2) = keep_old h1 txn1 cur in
                  if isolation_level txn2 = TXN_ISOLATION_READ_UNCOMMITTED
                  then obind (kvs_rbtree_modify h2 tree (Some k) (Some v)) (\<lambda>(r, tree', h3).
                         Inr (0, txn2, tree', h3))
                  else Inr (0, txn2, tree, h2)))))
      | _ \<Rightarrow> Inr (-1, txn, tree, h))"

fun commit_ops :: "script \<Rightarrow> rbtree \<Rightarrow> txn_op_item list \<Rightarrow> (rbtree \<times> script) outcome" where
  "commit_ops h tree [] = Inr (tree, h)"
| "commit_ops h tree (it # its) =
     (case op_type it of
        TXN_OP_SET \<Rightarrow> obind (kvs_rbtree_set h tree (tkey it) (tvalue it)) (\<lambda>(r, t, h1). commit_ops h1 t its)
      | TXN_OP_DEL \<Rightarrow> obind (kvs_rbtree_delete tree (tkey it)) (\<lambda>(r, t). commit_ops h t its)
      | TXN_OP_MOD \<Rightarrow> obind (kvs_rbtree_modify h tree (tkey it) (tvalue it)) (\<lambda>(r, t, h1). commit_ops h1 t its))"

definition txn_commit :: "script \<Rightarrow> int \<Rightarrow> kv_transaction \<Rightarrow> rbtree \<Rightarrow> txn_result" where
  "txn_commit h now txn tree =
     (if status txn \<noteq> TXN_STATUS_ACTIVE then Inr (-1, txn, tree, h)
      else obind (if isolation_level txn \<noteq> TXN_ISOLATION_READ_UNCOMMITTED
                  then commit_ops h tree (op_list txn) else Inr (tree, h)) (\<lambda>(tree', h1).
        Inr (0, txn\<lparr>status := TXN_STATUS_COMMITTED, end_time := now\<rparr>, tree', h1)))"

text \<open>Undoing one operation, and the loop over the list from its end.\<close>

definition undo_op :: "script \<Rightarrow> rbtree \<Rightarrow> txn_op_item \<Rightarrow> (rbtree \<times> script) outcome" where
  "undo_op h tree it =
     (case old_value it of
        Some old \<Rightarrow>
          obind (kvs_rbtree_set h tree (tkey it) (Some old)) (\<lambda>(r, t, h1). Inr (t, h1))
      | None \<Rightarrow>
          if op_type it = TXN_OP_SET
          then obind (kvs_rbtree_delete tree (tkey it)) (\<lambda>(r, t). Inr (t, h))
          else Inr (tree, h))"

fun undo_ops :: "script \<Rightarrow> rbtree \<Rightarrow> txn_op_item list \<Rightarrow> (rbtree \<times> script) outcome" where
  "undo_ops h tree [] = Inr (tree, h)"
| "undo_ops h tree (it # its) = obind (undo_op h tree it) (\<lambda>(t, h1). undo_ops h1 t its)"

definition txn_rollback :: "script \<Rightarrow> int \<Rightarrow> kv_transaction \<Rightarrow> rbtree \<Rightarrow> txn_result" where
  "txn_rollback h now txn tree =
     (if status txn \<noteq> TXN_STATUS_ACTIVE then Inr (-1, txn, tree, h)
      else obind (if isolation_level txn = TXN_ISOLATION_READ_UNCOMMITTED
                  then undo_ops h tree (rev (op_list txn)) else Inr (tree, h)) (\<lambda>(tree', h1).
        Inr (0, txn\<lparr>status := TXN_STATUS_ABORTED, end_time := now\<rparr>, tree', h1)))"

text \<open>\<open>txn_free\<close>: the blocks it releases, per item the strings that are set and the item.\<close>

definition txn_free :: "kv_transaction \<Rightarrow> string option list list" where
  "txn_free txn =
     map (\<lambda>it. filter (\<lambda>p. p \<noteq> None) [tkey it, tvalue it, old_value it]) (op_list txn)"

section \<open>Committing\<close>

text \<open>A client's calls in order, each an operation of the engine contract.\<close>

fun txn_call :: "script \<Rightarrow> kv_transaction \<Rightarrow> rbtree \<Rightarrow> kv_op \<Rightarrow> txn_result" where
  "txn_call h txn tree (OpSet k v) = txn_set h txn tree (Some k) (Some v)"
| "txn_call h txn tree (OpDel k) = txn_delete h txn tree (Some k)"
| "txn_call h txn tree (OpMod k v) = txn_modify h txn tree (Some k) (Some v)"

fun txn_calls :: "script \<Rightarrow> kv_transaction \<Rightarrow> rbtree \<Rightarrow> kv_op list \<Rightarrow> (kv_transaction \<times> rbtree \<times> script) outcome" where
  "txn_calls h txn tree [] = Inr (txn, tree, h)"
| "txn_calls h txn tree (c # cs) =
     obind (txn_call h txn tree c) (\<lambda>(r, txn', tree', h1). txn_calls h1 txn' tree' cs)"

fun item_of :: "kv_op \<Rightarrow> string option \<Rightarrow> txn_op_item" where
  "item_of (OpSet k v) old = \<lparr>op_type = TXN_OP_SET, tkey = Some k, tvalue = Some v, old_value = old\<rparr>"
| "item_of (OpDel k) old = \<lparr>op_type = TXN_OP_DEL, tkey = Some k, tvalue = None, old_value = old\<rparr>"
| "item_of (OpMod k v) old = \<lparr>op_type = TXN_OP_MOD, tkey = Some k, tvalue = Some v, old_value = old\<rparr>"

fun op_key :: "kv_op \<Rightarrow> string" where
  "op_key (OpSet k v) = k"
| "op_key (OpDel k) = k"
| "op_key (OpMod k v) = k"

text \<open>A modification is accepted when the engine holds the key at the time of the call.\<close>

definition accepted :: "(string \<rightharpoonup> string) \<Rightarrow> kv_op \<Rightarrow> bool" where
  "accepted m c \<longleftrightarrow> (case c of OpMod k v \<Rightarrow> m k \<noteq> None | _ \<Rightarrow> True)"

definition deferred_old :: "(string \<rightharpoonup> string) \<Rightarrow> kv_op \<Rightarrow> string option" where
  "deferred_old m c = (case c of OpSet k v \<Rightarrow> None | _ \<Rightarrow> m (op_key c))"

lemma keep_old_last [simp]:
  "keep_old [] (txn\<lparr>op_list := its @ [it], op_count := n\<rparr>) cur =
     (txn\<lparr>op_list := its @ [case cur of None \<Rightarrow> it | Some c \<Rightarrow> it\<lparr>old_value := Some c\<rparr>], op_count := n\<rparr>, [])"
  by (cases cur) (simp_all add: keep_old_def)

lemma txn_add_op_ok:
  "status txn = TXN_STATUS_ACTIVE \<Longrightarrow> txn_add_op [] txn op k v =
     (True, txn\<lparr>op_list := op_list txn @ [\<lparr>op_type = op, tkey = Some k, tvalue = v, old_value = None\<rparr>],
        op_count := op_count txn + 1\<rparr>, [])"
  by (cases v) (simp_all add: txn_add_op_def)

lemma txn_call_deferred:
  assumes "rbtree_inv tree" "status txn = TXN_STATUS_ACTIVE" "isolation_level txn \<noteq> 0"
  shows "\<exists>r. txn_call [] txn tree c =
    Inr (r, if accepted (rbtree_content tree) c
      then txn\<lparr>op_list := op_list txn @ [item_of c (deferred_old (rbtree_content tree) c)],
               op_count := op_count txn + 1\<rparr>
      else txn, tree, [])"
  using assms
  by (cases c; cases "rbtree_content tree (op_key c)")
    (auto simp: txn_set_def txn_delete_def txn_modify_def txn_add_op_ok kvs_rbtree_get_content
      accepted_def deferred_old_def)

lemma txn_calls_deferred:
  assumes "rbtree_inv tree" "status txn = TXN_STATUS_ACTIVE" "isolation_level txn \<noteq> 0"
  shows "\<exists>txn'. txn_calls [] txn tree cs = Inr (txn', tree, []) \<and> status txn' = TXN_STATUS_ACTIVE \<and>
    isolation_level txn' = isolation_level txn \<and>
    op_list txn' = op_list txn @
      map (\<lambda>c. item_of c (deferred_old (rbtree_content tree) c)) (filter (accepted (rbtree_content tree)) cs)"
  using assms(2,3)
proof (induction cs arbitrary: txn)
  case Nil
  then show ?case by simp
next
  case (Cons c cs)
  let ?m = "rbtree_content tree"
  let ?txn = "if accepted ?m c then txn\<lparr>op_list := op_list txn @ [item_of c (deferred_old ?m c)],
    op_count := op_count txn + 1\<rparr> else txn"
  obtain r where step: "txn_call [] txn tree c = Inr (r, ?txn, tree, [])"
    using txn_call_deferred[OF assms(1) Cons.prems] by blast
  have "status ?txn = TXN_STATUS_ACTIVE" "isolation_level ?txn \<noteq> 0" using Cons.prems by simp_all
  from Cons.IH[OF this] step show ?case by (auto split: if_splits)
qed

lemma rbt_roomy: "rbtree_inv t \<Longrightarrow> rbt.roomy cs t"
proof (induction cs arbitrary: t)
  case Nil
  then show ?case by simp
next
  case (Cons c cs)
  have "rbt.op_ok c t" by (cases c) simp_all
  with rbt.do_op_content[OF Cons.prems this] Cons.IH show ?case by auto
qed

lemma kvs_rbtree_script:
  "kvs_rbtree_set [] t k v = Inr (r, t', h) \<Longrightarrow> h = []"
  "kvs_rbtree_modify [] t k v = Inr (r, t', h) \<Longrightarrow> h = []"
  by (auto simp: kvs_rbtree_set_def kvs_rbtree_modify_def split: option.splits sum.splits
      rbtree_node.splits prod.splits if_splits)

text \<open>The commit loop is a run of the engine contract.\<close>

lemma commit_ops_run:
  "commit_ops [] t (map (\<lambda>c. item_of c (f c)) cs) = map_sum id (\<lambda>t'. (t', [])) (rbt.run cs t)"
proof (induction cs arbitrary: t)
  case Nil
  then show ?case by simp
next
  case (Cons c cs)
  show ?case
  proof (cases c)
    case (OpSet k v)
    with Cons kvs_rbtree_script(1)[of t "Some k" "Some v"] show ?thesis
      by (cases "kvs_rbtree_set [] t (Some k) (Some v)") (auto simp: rbtree_set_op_def[of t k v])
  next
    case (OpDel k)
    with Cons show ?thesis
      by (cases "kvs_rbtree_delete t (Some k)") (auto simp: rbtree_del_op_def[of t k "[]"])
  next
    case (OpMod k v)
    with Cons kvs_rbtree_script(2)[of t "Some k" "Some v"] show ?thesis
      by (cases "kvs_rbtree_modify [] t (Some k) (Some v)") (auto simp: rbtree_mod_op_def[of t k v])
  qed
qed

lemma txn_commit_deferred:
  assumes inv: "rbtree_inv tree" and "status txn = TXN_STATUS_ACTIVE" "isolation_level txn \<noteq> 0"
    and "op_list txn = map (\<lambda>c. item_of c (f c)) cs"
  shows "\<exists>tree'. txn_commit [] now txn tree =
      Inr (0, txn\<lparr>status := TXN_STATUS_COMMITTED, end_time := now\<rparr>, tree', []) \<and> rbtree_inv tree' \<and>
    rbtree_content tree' = fold (spec_op False False) cs (rbtree_content tree)"
  using rbt.run_content[OF inv rbt_roomy[OF inv], of cs] assms(2-4)
  by (auto simp: txn_commit_def commit_ops_run)

section \<open>Rolling back\<close>

text \<open>At read uncommitted, the item a call records undoes what the call did.\<close>

definition undoes :: "txn_op_item \<Rightarrow> (string \<rightharpoonup> string) \<Rightarrow> (string \<rightharpoonup> string) \<Rightarrow> bool" where
  "undoes it m' m \<longleftrightarrow> (\<forall>t. rbtree_inv t \<longrightarrow> rbtree_content t = m' \<longrightarrow>
     (\<exists>t'. undo_op [] t it = Inr (t', []) \<and> rbtree_inv t' \<and> rbtree_content t' = m))"

lemma rbtree_set_spec:
  assumes "rbtree_inv t"
  shows "\<exists>t'. kvs_rbtree_set [] t (Some k) (Some v) = Inr (0, t', []) \<and> rbtree_inv t' \<and>
    rbtree_content t' = spec_set False (rbtree_content t) k v"
  using assms kvs_rbtree_set_present[OF assms, of k v] kvs_rbtree_set_fresh[OF assms, of k v]
  by (cases "rbtree_content t k") (auto simp: spec_set_def)

lemma undoes_set:
  "undoes (item_of (OpSet k v) (m k)) (spec_set False m k v) m"
proof (cases "m k")
  case None
  then have eq: "(spec_set False m k v)(k := None) = m" by (auto simp: spec_set_def)
  with None kvs_rbtree_delete_ok[of _ k] show ?thesis
    by (fastforce simp: undoes_def undo_op_def)
next
  case (Some w)
  then have "spec_set False m k v = m" "spec_set False m k w = m" by (auto simp: spec_set_def)
  with Some rbtree_set_spec[of _ k w] show ?thesis
    by (fastforce simp: undoes_def undo_op_def)
qed

lemma undoes_del: "undoes (item_of (OpDel k) (m k)) (m(k := None)) m"
proof (cases "m k")
  case None
  then have "m(k := None) = m" by auto
  with None show ?thesis by (simp add: undoes_def undo_op_def)
next
  case (Some w)
  then have "spec_set False (m(k := None)) k w = m" by (auto simp: spec_set_def)
  with Some rbtree_set_spec[of _ k w] show ?thesis
    by (fastforce simp: undoes_def undo_op_def)
qed

lemma undo_ops_append:
  "undo_ops h t (xs @ ys) = obind (undo_ops h t xs) (\<lambda>(t', h'). undo_ops h' t' ys)"
  by (induction xs arbitrary: h t) (auto simp: obind_def split: sum.splits)

lemma txn_call_immediate:
  assumes inv: "rbtree_inv tree" and "status txn = TXN_STATUS_ACTIVE" "isolation_level txn = 0"
    and "\<forall>k v. c \<noteq> OpMod k v"
  shows "\<exists>r tree' it. txn_call [] txn tree c =
      Inr (r, txn\<lparr>op_list := op_list txn @ [it], op_count := op_count txn + 1\<rparr>, tree', []) \<and>
    rbtree_inv tree' \<and> undoes it (rbtree_content tree') (rbtree_content tree)"
proof (cases c)
  case (OpSet k v)
  from rbtree_set_spec[OF inv, of k v] obtain t' where
    t': "kvs_rbtree_set [] tree (Some k) (Some v) = Inr (0, t', [])" "rbtree_inv t'"
      "rbtree_content t' = spec_set False (rbtree_content tree) k v" by blast
  have "txn_call [] txn tree c =
    Inr (0, txn\<lparr>op_list := op_list txn @ [item_of c (rbtree_content tree k)], op_count := op_count txn + 1\<rparr>, t', [])"
    using OpSet t'(1) assms(2,3) inv
    by (cases "rbtree_content tree k") (simp_all add: txn_set_def txn_add_op_ok kvs_rbtree_get_content)
  with t' undoes_set OpSet show ?thesis by fastforce
next
  case (OpDel k)
  from kvs_rbtree_delete_ok[OF inv, of k] obtain r t' where
    t': "kvs_rbtree_delete tree (Some k) = Inr (r, t')" "rbtree_inv t'"
      "rbtree_content t' = (rbtree_content tree)(k := None)" by blast
  have "txn_call [] txn tree c =
    Inr (0, txn\<lparr>op_list := op_list txn @ [item_of c (rbtree_content tree k)], op_count := op_count txn + 1\<rparr>, t', [])"
    using OpDel t'(1) assms(2,3) inv
    by (cases "rbtree_content tree k") (simp_all add: txn_delete_def txn_add_op_ok kvs_rbtree_get_content)
  with t' undoes_del OpDel show ?thesis by fastforce
next
  case (OpMod k v)
  with assms(4) show ?thesis by blast
qed

lemma txn_calls_immediate:
  assumes "rbtree_inv tree" "status txn = TXN_STATUS_ACTIVE" "isolation_level txn = 0"
    and "\<forall>c \<in> set cs. \<forall>k v. c \<noteq> OpMod k v"
  shows "\<exists>txn' tree' its. txn_calls [] txn tree cs = Inr (txn', tree', []) \<and>
    status txn' = TXN_STATUS_ACTIVE \<and> isolation_level txn' = 0 \<and> op_list txn' = op_list txn @ its \<and>
    rbtree_inv tree' \<and>
    (\<forall>t. rbtree_inv t \<longrightarrow> rbtree_content t = rbtree_content tree' \<longrightarrow>
      (\<exists>t'. undo_ops [] t (rev its) = Inr (t', []) \<and> rbtree_inv t' \<and> rbtree_content t' = rbtree_content tree))"
  using assms
proof (induction cs arbitrary: txn tree)
  case Nil
  then show ?case by simp
next
  case (Cons c cs)
  from Cons.prems(4) have "\<forall>k v. c \<noteq> OpMod k v" by simp
  from txn_call_immediate[OF Cons.prems(1-3) this] obtain r t1 it where
    step: "txn_call [] txn tree c =
      Inr (r, txn\<lparr>op_list := op_list txn @ [it], op_count := op_count txn + 1\<rparr>, t1, [])"
      "rbtree_inv t1" "undoes it (rbtree_content t1) (rbtree_content tree)" by blast
  let ?txn = "txn\<lparr>op_list := op_list txn @ [it], op_count := op_count txn + 1\<rparr>"
  have "status ?txn = TXN_STATUS_ACTIVE" "isolation_level ?txn = 0" using Cons.prems by simp_all
  from Cons.IH[OF step(2) this] Cons.prems(4) obtain txn' tree' its where
    rest: "txn_calls [] ?txn t1 cs = Inr (txn', tree', [])" "status txn' = TXN_STATUS_ACTIVE"
      "isolation_level txn' = 0" "op_list txn' = op_list txn @ it # its" "rbtree_inv tree'"
      "\<forall>t. rbtree_inv t \<longrightarrow> rbtree_content t = rbtree_content tree' \<longrightarrow>
        (\<exists>t'. undo_ops [] t (rev its) = Inr (t', []) \<and> rbtree_inv t' \<and> rbtree_content t' = rbtree_content t1)"
    by auto
  have "\<exists>t'. undo_ops [] t (rev (it # its)) = Inr (t', []) \<and> rbtree_inv t' \<and> rbtree_content t' = rbtree_content tree"
    if t: "rbtree_inv t" "rbtree_content t = rbtree_content tree'" for t
  proof -
    from rest(6) t obtain t2 where "undo_ops [] t (rev its) = Inr (t2, [])" "rbtree_inv t2"
      "rbtree_content t2 = rbtree_content t1" by blast
    with step(3) show ?thesis by (fastforce simp: undo_ops_append undoes_def)
  qed
  with step(1) rest show ?case by (intro exI[of _ txn'] exI[of _ tree'] exI[of _ "it # its"]) simp
qed

section \<open>Properties\<close>

definition fresh_txn :: "nat \<Rightarrow> kv_transaction" where
  "fresh_txn level = \<lparr>txn_id = 1, status = TXN_STATUS_ACTIVE, isolation_level = level,
     start_time = 0, end_time = 0, op_list = [], op_count = 0\<rparr>"

text \<open>
  C16: above read uncommitted a transaction is atomic. Its calls leave the engine untouched; a
  rollback then leaves it untouched too, and a commit applies the accepted calls in their order, as
  on a finite map, and keeps the engine well-formed. Both end the transaction.
\<close>

theorem txn_deferred_atomic:
  assumes "rbtree_inv tree" and "status txn = TXN_STATUS_ACTIVE" and "isolation_level txn \<noteq> 0"
    and "op_list txn = []"
  shows "\<exists>txn' tree'. txn_calls [] txn tree cs = Inr (txn', tree, []) \<and>
    txn_rollback [] now txn' tree = Inr (0, txn'\<lparr>status := TXN_STATUS_ABORTED, end_time := now\<rparr>, tree, []) \<and>
    txn_commit [] now txn' tree = Inr (0, txn'\<lparr>status := TXN_STATUS_COMMITTED, end_time := now\<rparr>, tree', []) \<and>
    rbtree_inv tree' \<and>
    rbtree_content tree' =
      fold (spec_op False False) (filter (accepted (rbtree_content tree)) cs) (rbtree_content tree)"
proof -
  from txn_calls_deferred[OF assms(1-3), of cs] obtain txn' where
    t: "txn_calls [] txn tree cs = Inr (txn', tree, [])" "status txn' = TXN_STATUS_ACTIVE"
      "isolation_level txn' \<noteq> 0"
      "op_list txn' = map (\<lambda>c. item_of c (deferred_old (rbtree_content tree) c))
        (filter (accepted (rbtree_content tree)) cs)"
    using assms(3,4) by auto
  moreover have "txn_rollback [] now txn' tree =
      Inr (0, txn'\<lparr>status := TXN_STATUS_ABORTED, end_time := now\<rparr>, tree, [])"
    using t(2,3) by (simp add: txn_rollback_def)
  ultimately show ?thesis using txn_commit_deferred[OF assms(1) t(2-4)] by blast
qed

theorem txn_deferred_atomic_witness:
  "\<exists>txn' tree'. txn_calls [] (fresh_txn 1) tree_ab [OpSet ''c'' ''3'', OpMod ''a'' ''9''] = Inr (txn', tree_ab, []) \<and>
    txn_rollback [] 7 txn' tree_ab = Inr (0, txn'\<lparr>status := TXN_STATUS_ABORTED, end_time := 7\<rparr>, tree_ab, []) \<and>
    txn_commit [] 7 txn' tree_ab = Inr (0, txn'\<lparr>status := TXN_STATUS_COMMITTED, end_time := 7\<rparr>, tree', []) \<and>
    rbtree_inv tree' \<and>
    rbtree_content tree' = fold (spec_op False False)
      (filter (accepted (rbtree_content tree_ab)) [OpSet ''c'' ''3'', OpMod ''a'' ''9'']) (rbtree_content tree_ab)"
  by (rule txn_deferred_atomic[OF tree_ab_inv]) (simp_all add: fresh_txn_def)

text \<open>
  C34: at read uncommitted, where every call acts on the engine at once, a rollback restores the
  contents the engine had before the transaction, for every sequence of sets and deletions.
\<close>

theorem txn_rollback_restores:
  assumes "rbtree_inv tree" and "status txn = TXN_STATUS_ACTIVE" and "isolation_level txn = 0"
    and "op_list txn = []" and "\<forall>c \<in> set cs. \<forall>k v. c \<noteq> OpMod k v"
  shows "\<exists>txn' tree1 tree2. txn_calls [] txn tree cs = Inr (txn', tree1, []) \<and>
    txn_rollback [] now txn' tree1 = Inr (0, txn'\<lparr>status := TXN_STATUS_ABORTED, end_time := now\<rparr>, tree2, []) \<and>
    rbtree_inv tree2 \<and> rbtree_content tree2 = rbtree_content tree"
  using txn_calls_immediate[OF assms(1-3,5)] assms(4)
  by (fastforce simp: txn_rollback_def)

theorem txn_rollback_restores_witness:
  "\<exists>txn' tree1 tree2. txn_calls [] (fresh_txn 0) tree_ab [OpSet ''c'' ''3'', OpDel ''a''] = Inr (txn', tree1, []) \<and>
    txn_rollback [] 7 txn' tree1 = Inr (0, txn'\<lparr>status := TXN_STATUS_ABORTED, end_time := 7\<rparr>, tree2, []) \<and>
    rbtree_inv tree2 \<and> rbtree_content tree2 = rbtree_content tree_ab"
  by (rule txn_rollback_restores[OF tree_ab_inv]) (simp_all add: fresh_txn_def)

text \<open>
  C38: a modification at read uncommitted is not undone. The rollback writes the old value with
  \<open>kvs_rbtree_set\<close>, which ignores keys that are present, so the modified value stays although
  the rollback reports success.
\<close>

theorem txn_rollback_keeps_modify:
  assumes "rbtree_inv tree" and "status txn = TXN_STATUS_ACTIVE" and "isolation_level txn = 0"
    and "op_list txn = []" and "rbtree_content tree k = Some w"
  shows "\<exists>txn' tree1 tree2. txn_modify [] txn tree (Some k) (Some v) = Inr (0, txn', tree1, []) \<and>
    txn_rollback [] now txn' tree1 = Inr (0, txn'\<lparr>status := TXN_STATUS_ABORTED, end_time := now\<rparr>, tree2, []) \<and>
    kvs_rbtree_get tree2 (Some k) = Inr (Str v)"
proof -
  from kvs_rbtree_modify_ok[OF assms(1), of k v] assms(5) obtain t1 where
    t1: "kvs_rbtree_modify [] tree (Some k) (Some v) = Inr (0, t1, [])" "rbtree_inv t1"
      "rbtree_content t1 k = Some v" by (auto simp: spec_mod_def domI)
  then have set: "kvs_rbtree_set [] t1 (Some k) (Some w) = Inr (0, t1\<lparr>count := count t1 + 1\<rparr>, [])"
    by (simp add: kvs_rbtree_set_present)
  have get: "kvs_rbtree_get (t1\<lparr>count := n\<rparr>) (Some k) = Inr (Str v)" for n
    using kvs_rbtree_get_content[of "t1\<lparr>count := n\<rparr>" k] t1(2,3) by simp
  let ?txn = "txn\<lparr>op_list := [item_of (OpMod k v) (Some w)], op_count := op_count txn + 1\<rparr>"
  have "txn_modify [] txn tree (Some k) (Some v) = Inr (0, ?txn, t1, [])"
    using t1(1) assms
    by (simp add: txn_modify_def txn_add_op_ok kvs_rbtree_get_content[OF assms(1)] keep_old_def)
  moreover have "txn_rollback [] now ?txn t1 =
      Inr (0, ?txn\<lparr>status := TXN_STATUS_ABORTED, end_time := now\<rparr>, t1\<lparr>count := count t1 + 1\<rparr>, [])"
    using set assms(2,3) by (simp add: txn_rollback_def undo_op_def)
  ultimately show ?thesis using get by blast
qed

theorem txn_rollback_keeps_modify_witness:
  "\<exists>txn' tree1 tree2. txn_modify [] (fresh_txn 0) tree_ab (Some ''a'') (Some ''9'') = Inr (0, txn', tree1, []) \<and>
    txn_rollback [] 7 txn' tree1 = Inr (0, txn'\<lparr>status := TXN_STATUS_ABORTED, end_time := 7\<rparr>, tree2, []) \<and>
    kvs_rbtree_get tree2 (Some ''a'') = Inr (Str ''9'')"
  by (rule txn_rollback_keeps_modify[OF tree_ab_inv]) (simp_all add: fresh_txn_def tree_ab_content)

lemma scan_ops_first:
  "\<forall>it \<in> set its. \<exists>k'. tkey it = Some k' \<and> k' \<noteq> k \<Longrightarrow> tkey it = Some k \<Longrightarrow> op_type it \<noteq> TXN_OP_DEL \<Longrightarrow>
     tvalue it = Some v \<Longrightarrow> scan_ops [] k (its @ it # rest) = Inr (Some (Str v, []))"
  by (induction its) auto

text \<open>
  from repeatable read on, a transaction that writes a key twice reads its first write back, not
  its last: the scan of the operation list stops at the oldest operation on the key. At commit the
  second write is the one applied last.
\<close>

theorem txn_get_returns_first_write:
  assumes "rbtree_inv tree" and "status txn = TXN_STATUS_ACTIVE"
    and "isolation_level txn \<ge> TXN_ISOLATION_REPEATABLE_READ"
    and "\<forall>it \<in> set (op_list txn). \<exists>k'. tkey it = Some k' \<and> k' \<noteq> k"
  shows "\<exists>txn1 txn2. txn_set [] txn tree (Some k) (Some v1) = Inr (0, txn1, tree, []) \<and>
    txn_set [] txn1 tree (Some k) (Some v2) = Inr (0, txn2, tree, []) \<and>
    txn_get [] txn2 tree (Some k) = Inr (Str v1, [])"
  using assms(2,3) scan_ops_first[OF assms(4), of "item_of (OpSet k v1) None" v1]
  by (simp add: txn_set_def txn_add_op_ok txn_get_def)

theorem txn_get_returns_first_write_witness:
  "\<exists>txn1 txn2. txn_set [] (fresh_txn 2) tree_ab (Some ''a'') (Some ''7'') = Inr (0, txn1, tree_ab, []) \<and>
    txn_set [] txn1 tree_ab (Some ''a'') (Some ''8'') = Inr (0, txn2, tree_ab, []) \<and>
    txn_get [] txn2 tree_ab (Some ''a'') = Inr (Str ''7'', [])"
  by (rule txn_get_returns_first_write[OF tree_ab_inv]) (simp_all add: fresh_txn_def)

end
