(* ===== verification/Memtable.thy ===== *)
theory Memtable
  imports RBT_Core "HOL-Library.Word"
begin

text \<open>
  The memtable of the LSM tree, \<open>src/kvserver/lsm_memtable.c\<close>: a red-black tree of entries
  keyed by byte strings with explicit lengths, sequence numbers, tombstones, size accounting and
  an in-order iterator. A key or value buffer is the list of its bytes; the length argument of a
  value is kept apart, since the code uses it even when the pointer is null. Counters and sizes
  are 64-bit words. Every operation holds the table's lock for its whole body, so operations are
  atomic steps; the result of \<open>pthread_rwlock_init\<close> and the clock are arguments.

  The rotations and the insertion fix-up loop are, statement by statement, those of
  \<open>kvstore_rbtree.c\<close>.
\<close>

section \<open>Types\<close>

type_synonym bytes = "8 word list"

record lsm_memtable_entry =
  ekey :: bytes
  evalue :: "bytes option"
  evalue_len :: nat
  eseq :: "64 word"
  edeleted :: bool
  etimestamp :: nat

record lsm_memtable_stats =
  total_entries :: "64 word"
  total_size :: "64 word"
  memory_usage :: "64 word"
  active_entries :: "64 word"
  deleted_entries :: "64 word"
  write_count :: "64 word"
  read_count :: "64 word"
  delete_count :: "64 word"

record lsm_memtable =
  mroot :: "lsm_memtable_entry rbtree_node"
  msize :: "64 word"
  max_size :: "64 word"
  mseq :: "64 word"
  is_immutable :: bool
  mstats :: lsm_memtable_stats
  mname :: string
  creation_time :: nat

text \<open>\<open>sizeof(lsm_memtable_entry_t)\<close> on LP64: eleven fields of eight bytes after padding.\<close>

abbreviation ENTRY_BYTES :: nat where "ENTRY_BYTES \<equiv> 88"
abbreviation LSM_MEMTABLE_DEFAULT_SIZE :: "64 word" where "LSM_MEMTABLE_DEFAULT_SIZE \<equiv> 4194304"

section \<open>Keys\<close>

fun memcmp :: "nat \<Rightarrow> bytes \<Rightarrow> bytes \<Rightarrow> int" where
  "memcmp (Suc n) (a # as) (b # bs) = (if a = b then memcmp n as bs else uint a - uint b)"
| "memcmp _ _ _ = 0"

definition lsm_memtable_key_compare :: "bytes option \<Rightarrow> bytes option \<Rightarrow> int" where
  "lsm_memtable_key_compare key1 key2 =
     (case (key1, key2) of
        (Some k1, Some k2) \<Rightarrow>
          let min_len = min (length k1) (length k2);
              result = memcmp min_len k1 k2 in
          if result = 0
          then (if length k1 < length k2 then -1 else if length k1 > length k2 then 1 else 0)
          else result
      | (Some k1, None) \<Rightarrow> 1
      | (None, Some k2) \<Rightarrow> -1
      | (None, None) \<Rightarrow> 0)"

definition kcmp :: "bytes \<Rightarrow> bytes \<Rightarrow> int" where
  "kcmp k1 k2 = lsm_memtable_key_compare (Some k1) (Some k2)"

section \<open>Entries and lifecycle\<close>

definition lsm_memtable_entry_create ::
  "script \<Rightarrow> nat \<Rightarrow> bytes \<Rightarrow> bytes option \<Rightarrow> nat \<Rightarrow> 64 word \<Rightarrow> bool \<Rightarrow> lsm_memtable_entry option \<times> script" where
  "lsm_memtable_entry_create h now k value_p value_len seq del =
     (let (ok, h1) = malloc h in
      if \<not> ok then (None, h1)
      else (let (ok2, h2) = malloc h1 in
        if \<not> ok2 then (None, h2)
        else (case value_p of
          Some v \<Rightarrow>
            if value_len > 0 then
              (let (ok3, h3) = malloc h2 in
               if \<not> ok3 then (None, h3)
               else (Some \<lparr>ekey = k, evalue = Some (take value_len v), evalue_len = value_len, eseq = seq,
                           edeleted = del, etimestamp = now\<rparr>, h3))
            else (Some \<lparr>ekey = k, evalue = None, evalue_len = 0, eseq = seq,
                        edeleted = del, etimestamp = now\<rparr>, h2)
        | None \<Rightarrow> (Some \<lparr>ekey = k, evalue = None, evalue_len = 0, eseq = seq,
                           edeleted = del, etimestamp = now\<rparr>, h2))))"

definition zero_stats :: lsm_memtable_stats where
  "zero_stats = \<lparr>total_entries = 0, total_size = 0, memory_usage = 0, active_entries = 0,
     deleted_entries = 0, write_count = 0, read_count = 0, delete_count = 0\<rparr>"

definition lsm_memtable_create ::
  "script \<Rightarrow> bool \<Rightarrow> nat \<Rightarrow> 64 word \<Rightarrow> string option \<Rightarrow> lsm_memtable option \<times> script" where
  "lsm_memtable_create h lock_ok now max_sz name_p =
     (let (ok, h1) = malloc h in
      if \<not> ok then (None, h1)
      else (let (ok2, h2) = malloc h1 in
        if \<not> ok2 then (None, h2)
        else if \<not> lock_ok then (None, h2)
        else (Some \<lparr>mroot = RNil, msize = 0,
                    max_size = (if max_sz > 0 then max_sz else LSM_MEMTABLE_DEFAULT_SIZE),
                    mseq = 1, is_immutable = False, mstats = zero_stats,
                    mname = (case name_p of
                       Some nm \<Rightarrow> take 63 nm
                     | None \<Rightarrow> take 63 (''memtable_'' @ print_dec now)),
                    creation_time = now\<rparr>, h2)))"

text \<open>\<open>lsm_memtable_destroy_recursive\<close>: the order in which the entries are freed.\<close>

fun lsm_memtable_destroy_recursive :: "lsm_memtable_entry rbtree_node \<Rightarrow> lsm_memtable_entry list" where
  "lsm_memtable_destroy_recursive RNil = []"
| "lsm_memtable_destroy_recursive (RNode c l a r) =
     lsm_memtable_destroy_recursive l @ lsm_memtable_destroy_recursive r @ [a]"

definition lsm_memtable_destroy :: "lsm_memtable \<Rightarrow> lsm_memtable_entry list" where
  "lsm_memtable_destroy mt = lsm_memtable_destroy_recursive (mroot mt)"

definition lsm_memtable_freeze :: "lsm_memtable \<Rightarrow> int \<times> lsm_memtable" where
  "lsm_memtable_freeze mt = (KV_ERR_NONE, mt\<lparr>is_immutable := True\<rparr>)"

section \<open>Tree operations\<close>

definition lsm_memtable_search_node ::
  "lsm_memtable \<Rightarrow> bytes \<Rightarrow> lsm_memtable_entry rbtree_node \<times> lsm_memtable_entry path" where
  "lsm_memtable_search_node mt k = rb_locate kcmp ekey k (mroot mt) []"

text \<open>The descent of \<open>lsm_memtable_insert_node\<close>, which goes right on equal keys.\<close>

fun insert_descent ::
  "bytes \<Rightarrow> lsm_memtable_entry rbtree_node \<Rightarrow> lsm_memtable_entry path \<Rightarrow> lsm_memtable_entry path" where
  "insert_descent k RNil p = p"
| "insert_descent k (RNode c l a r) p =
     (if kcmp k (ekey a) < 0 then insert_descent k l (LeftOf c a r # p)
      else insert_descent k r (RightOf c l a # p))"

definition lsm_memtable_left_rotate ::
  "lsm_memtable_entry rbtree_node \<Rightarrow> lsm_memtable_entry rbtree_node option" where
  "lsm_memtable_left_rotate = rbtree_left_rotate"

definition lsm_memtable_right_rotate ::
  "lsm_memtable_entry rbtree_node \<Rightarrow> lsm_memtable_entry rbtree_node option" where
  "lsm_memtable_right_rotate = rbtree_right_rotate"

definition lsm_memtable_insert_fixup ::
  "lsm_memtable_entry rbtree_node \<Rightarrow> lsm_memtable_entry path \<Rightarrow> lsm_memtable_entry rbtree_node option" where
  "lsm_memtable_insert_fixup = rbtree_insert_fixup"

definition lsm_memtable_insert_node :: "lsm_memtable \<Rightarrow> lsm_memtable_entry \<Rightarrow> lsm_memtable outcome" where
  "lsm_memtable_insert_node mt z =
     (case lsm_memtable_insert_fixup (RNode RED RNil z RNil) (insert_descent (ekey z) (mroot mt) []) of
        None \<Rightarrow> Inl NilSentinel
      | Some t \<Rightarrow> Inr (mt\<lparr>mroot := t\<rparr>))"

section \<open>Put, get, delete\<close>

text \<open>The two lines that end every write: \<open>total_size\<close> and \<open>memory_usage\<close> follow \<open>size\<close>.\<close>

definition sync_stats :: "lsm_memtable \<Rightarrow> lsm_memtable" where
  "sync_stats mt = mt\<lparr>mstats := (mstats mt)\<lparr>total_size := msize mt, memory_usage := msize mt\<rparr>\<rparr>"

definition lsm_memtable_put ::
  "script \<Rightarrow> nat \<Rightarrow> lsm_memtable \<Rightarrow> bytes option \<Rightarrow> bytes option \<Rightarrow> nat \<Rightarrow> (int \<times> lsm_memtable \<times> script) outcome" where
  "lsm_memtable_put h now mt key_p value_p value_len =
     (case key_p of
        None \<Rightarrow> Inr (KV_ERR_PARAM, mt, h)
      | Some k \<Rightarrow>
          if k = [] then Inr (KV_ERR_PARAM, mt, h)
          else if is_immutable mt then Inr (KV_ERR_NOT_SUPPORTED, mt, h)
          else (case lsm_memtable_search_node mt k of
            (RNode c l e r, p) \<Rightarrow>
              let has_value = (value_p \<noteq> None \<and> value_len > 0);
                  (ok, h1) = (if has_value then malloc h else (True, h)) in
              if \<not> ok then Inr (KV_ERR_MEM, mt, h1)
              else (let new_value = (if has_value then map_option (take value_len) value_p else None);
                        size1 = msize mt - (if evalue e \<noteq> None then of_nat (evalue_len e) else 0)
                                + (if new_value \<noteq> None then of_nat value_len else 0);
                        e' = e\<lparr>evalue := new_value, evalue_len := value_len, eseq := mseq mt + 1,
                               edeleted := False, etimestamp := now\<rparr> in
                Inr (KV_ERR_NONE, sync_stats (mt\<lparr>mroot := plug (RNode c l e' r) p, msize := size1,
                  mseq := mseq mt + 1,
                  mstats := (mstats mt)\<lparr>write_count := write_count (mstats mt) + 1\<rparr>\<rparr>), h1))
          | (RNil, p) \<Rightarrow>
              let mt1 = mt\<lparr>mseq := mseq mt + 1\<rparr> in
              (case lsm_memtable_entry_create h now k value_p value_len (mseq mt1) False of
                 (None, h1) \<Rightarrow> Inr (KV_ERR_MEM, mt1, h1)
               | (Some e, h1) \<Rightarrow>
                   obind (lsm_memtable_insert_node mt1 e) (\<lambda>mt2.
                     Inr (KV_ERR_NONE, sync_stats (mt2
                       \<lparr>msize := msize mt2 + of_nat (length k) + of_nat value_len + of_nat ENTRY_BYTES,
                        mstats := (mstats mt2)\<lparr>total_entries := total_entries (mstats mt2) + 1,
                          active_entries := active_entries (mstats mt2) + 1,
                          write_count := write_count (mstats mt2) + 1\<rparr>\<rparr>), h1)))))"

text \<open>
  The out parameters of \<open>lsm_memtable_get\<close>; all are requested. The value is \<open>None\<close> when the
  entry has none or its copy could not be allocated.
\<close>

record get_result =
  out_value :: "bytes option"
  out_value_len :: nat
  out_seq :: "64 word"
  out_deleted :: bool

definition lsm_memtable_get ::
  "script \<Rightarrow> lsm_memtable \<Rightarrow> bytes option \<Rightarrow> int \<times> get_result option \<times> lsm_memtable \<times> script" where
  "lsm_memtable_get h mt key_p =
     (case key_p of
        None \<Rightarrow> (KV_ERR_PARAM, None, mt, h)
      | Some k \<Rightarrow>
          if k = [] then (KV_ERR_PARAM, None, mt, h)
          else (case lsm_memtable_search_node mt k of
            (RNil, p) \<Rightarrow> (KV_ERR_NOT_FOUND, None, mt, h)
          | (RNode c l e r, p) \<Rightarrow>
              let (ok, h1) = (if evalue e \<noteq> None then malloc h else (True, h)) in
              (KV_ERR_NONE,
               Some \<lparr>out_value = (if ok then evalue e else None), out_value_len = evalue_len e,
                     out_seq = eseq e, out_deleted = edeleted e\<rparr>,
               mt\<lparr>mstats := (mstats mt)\<lparr>read_count := read_count (mstats mt) + 1\<rparr>\<rparr>, h1)))"

definition lsm_memtable_delete ::
  "script \<Rightarrow> nat \<Rightarrow> lsm_memtable \<Rightarrow> bytes option \<Rightarrow> (int \<times> lsm_memtable \<times> script) outcome" where
  "lsm_memtable_delete h now mt key_p =
     (case key_p of
        None \<Rightarrow> Inr (KV_ERR_PARAM, mt, h)
      | Some k \<Rightarrow>
          if k = [] then Inr (KV_ERR_PARAM, mt, h)
          else if is_immutable mt then Inr (KV_ERR_NOT_SUPPORTED, mt, h)
          else (case lsm_memtable_search_node mt k of
            (RNil, p) \<Rightarrow>
              let mt1 = mt\<lparr>mseq := mseq mt + 1\<rparr> in
              (case lsm_memtable_entry_create h now k None 0 (mseq mt1) True of
                 (None, h1) \<Rightarrow> Inr (KV_ERR_MEM, mt1, h1)
               | (Some e, h1) \<Rightarrow>
                   obind (lsm_memtable_insert_node mt1 e) (\<lambda>mt2.
                     Inr (KV_ERR_NONE, sync_stats (mt2
                       \<lparr>msize := msize mt2 + of_nat (length k) + of_nat ENTRY_BYTES,
                        mstats := (mstats mt2)\<lparr>total_entries := total_entries (mstats mt2) + 1,
                          deleted_entries := deleted_entries (mstats mt2) + 1,
                          delete_count := delete_count (mstats mt2) + 1\<rparr>\<rparr>), h1)))
          | (RNode c l e r, p) \<Rightarrow>
              let st = mstats mt;
                  st1 = (if \<not> edeleted e
                         then st\<lparr>active_entries := active_entries st - 1,
                                 deleted_entries := deleted_entries st + 1\<rparr> else st);
                  e1 = e\<lparr>edeleted := True, eseq := mseq mt + 1, etimestamp := now\<rparr>;
                  e2 = (if evalue e \<noteq> None then e1\<lparr>evalue := None, evalue_len := 0\<rparr> else e1) in
              Inr (KV_ERR_NONE, sync_stats (mt\<lparr>mroot := plug (RNode c l e2 r) p,
                msize := msize mt - (if evalue e \<noteq> None then of_nat (evalue_len e) else 0),
                mseq := mseq mt + 1,
                mstats := st1\<lparr>delete_count := delete_count st1 + 1\<rparr>\<rparr>), h)))"

section \<open>Status\<close>

definition lsm_memtable_is_full :: "lsm_memtable \<Rightarrow> bool" where
  "lsm_memtable_is_full mt \<longleftrightarrow> msize mt \<ge> max_size mt"

definition lsm_memtable_is_empty :: "lsm_memtable \<Rightarrow> bool" where
  "lsm_memtable_is_empty mt \<longleftrightarrow> mroot mt = RNil"

definition lsm_memtable_size :: "lsm_memtable \<Rightarrow> 64 word" where
  "lsm_memtable_size mt = msize mt"

definition lsm_memtable_count :: "lsm_memtable \<Rightarrow> 64 word" where
  "lsm_memtable_count mt = total_entries (mstats mt)"

definition lsm_memtable_get_stats :: "lsm_memtable \<Rightarrow> int \<times> lsm_memtable_stats" where
  "lsm_memtable_get_stats mt = (KV_ERR_NONE, mstats mt)"

section \<open>Iterator\<close>

record lsm_memtable_iterator =
  current :: "(lsm_memtable_entry rbtree_node \<times> lsm_memtable_entry path) option"
  valid :: bool
  include_deleted :: bool

definition lsm_memtable_minimum ::
  "lsm_memtable_entry rbtree_node \<Rightarrow> lsm_memtable_entry path \<Rightarrow>
     lsm_memtable_entry rbtree_node \<times> lsm_memtable_entry path" where
  "lsm_memtable_minimum = rbtree_mini"

definition lsm_memtable_successor ::
  "lsm_memtable_entry rbtree_node \<Rightarrow> lsm_memtable_entry path \<Rightarrow>
     (lsm_memtable_entry rbtree_node \<times> lsm_memtable_entry path) option" where
  "lsm_memtable_successor = rbtree_successor"

definition lsm_memtable_iterator_create :: "script \<Rightarrow> bool \<Rightarrow> lsm_memtable_iterator option \<times> script" where
  "lsm_memtable_iterator_create h incl =
     (let (ok, h1) = malloc h in
      (if ok then Some \<lparr>current = None, valid = False, include_deleted = incl\<rparr> else None, h1))"

text \<open>The do-while loop of \<open>lsm_memtable_iterator_next\<close>; the sentinel has no successor.\<close>

function (sequential) iter_advance ::
  "bool \<Rightarrow> lsm_memtable_entry rbtree_node \<Rightarrow> lsm_memtable_entry path \<Rightarrow>
     (lsm_memtable_entry rbtree_node \<times> lsm_memtable_entry path) option" where
  "iter_advance incl RNil p = None"
| "iter_advance incl (RNode c l a r) p =
     (case lsm_memtable_successor (RNode c l a r) p of
        None \<Rightarrow> None
      | Some (RNil, q) \<Rightarrow> None
      | Some (RNode c' l' e r', q) \<Rightarrow>
          if incl \<or> \<not> edeleted e then Some (RNode c' l' e r', q)
          else iter_advance incl (RNode c' l' e r') q)"
  by pat_completeness auto

termination iter_advance
proof (relation "measure (\<lambda>(incl, t, p). length (rest_from t p))")
  fix incl :: bool and c l and a :: lsm_memtable_entry and r p x t q c' l' e r'
  assume "lsm_memtable_successor (RNode c l a r) p = Some x" "(t, q) = x" "t = RNode c' l' e r'"
  then have "rest_from (RNode c l a r) p = a # rest_from (RNode c' l' e r') q"
    using successor_rest[of c l a r p] by (auto simp: lsm_memtable_successor_def)
  then have "length (rest_from (RNode c l a r) p) = Suc (length (rest_from (RNode c' l' e r') q))"
    by (metis length_Cons)
  then show "((incl, RNode c' l' e r', q), incl, RNode c l a r, p) \<in> measure (\<lambda>(incl, t, p). length (rest_from t p))"
    by simp
qed simp

definition lsm_memtable_iterator_next :: "lsm_memtable_iterator \<Rightarrow> (int \<times> lsm_memtable_iterator) outcome" where
  "lsm_memtable_iterator_next it =
     (if \<not> valid it then Inr (KV_ERR_PARAM, it)
      else (case current it of
        None \<Rightarrow> Inl NilSentinel
      | Some (t, p) \<Rightarrow>
          let pos = iter_advance (include_deleted it) t p in
          Inr (KV_ERR_NONE, it\<lparr>current := pos, valid := (pos \<noteq> None)\<rparr>)))"

definition lsm_memtable_iterator_seek_first ::
  "lsm_memtable \<Rightarrow> lsm_memtable_iterator \<Rightarrow> (int \<times> lsm_memtable_iterator) outcome" where
  "lsm_memtable_iterator_seek_first mt it =
     (case lsm_memtable_minimum (mroot mt) [] of
        (RNil, p) \<Rightarrow> Inr (KV_ERR_NONE, it\<lparr>current := None, valid := False\<rparr>)
      | (RNode c l e r, p) \<Rightarrow>
          let it1 = it\<lparr>current := Some (RNode c l e r, p), valid := True\<rparr> in
          if \<not> include_deleted it \<and> edeleted e then lsm_memtable_iterator_next it1
          else Inr (KV_ERR_NONE, it1))"

definition lsm_memtable_iterator_valid :: "lsm_memtable_iterator \<Rightarrow> bool" where
  "lsm_memtable_iterator_valid it = valid it"

definition lsm_memtable_iterator_current :: "lsm_memtable_iterator \<Rightarrow> int \<times> lsm_memtable_entry option" where
  "lsm_memtable_iterator_current it =
     (if \<not> valid it then (KV_ERR_PARAM, None)
      else (case current it of
        Some (RNode c l e r, p) \<Rightarrow> (KV_ERR_NONE, Some e)
      | _ \<Rightarrow> (KV_ERR_PARAM, None)))"

section \<open>The key order\<close>

lemma kcmp_simps [simp]:
  "kcmp [] [] = 0" "kcmp [] (b # bs) = -1" "kcmp (a # as) [] = 1"
  "kcmp (a # as) (b # bs) = (if a = b then kcmp as bs else uint a - uint b)"
  by (simp_all add: kcmp_def lsm_memtable_key_compare_def Let_def word_uint_eq_iff)

lemma kcmp_eq_iff [simp]: "kcmp as bs = 0 \<longleftrightarrow> as = bs"
  by (induction as bs rule: list_induct2') (simp_all add: word_uint_eq_iff)

lemma kcmp_swap: "kcmp as bs = - kcmp bs as"
  by (induction as bs rule: list_induct2') simp_all

lemma kcmp_less_iff: "kcmp as bs < 0 \<longleftrightarrow> as < bs"
  by (induction as bs rule: list_induct2') (auto simp: word_less_def)

interpretation memkey: key_compare kcmp
proof
  fix a b c :: bytes
  show "(kcmp a b = 0) = (a = b)" by simp
  show "(kcmp a b < 0) = (0 < kcmp b a)" using kcmp_swap[of a b] by linarith
  show "kcmp a b < 0 \<Longrightarrow> kcmp b c < 0 \<Longrightarrow> kcmp a c < 0" by (simp add: kcmp_less_iff)
qed

section \<open>Invariant and behaviour\<close>

definition mt_map :: "lsm_memtable \<Rightarrow> bytes \<rightharpoonup> lsm_memtable_entry" where
  "mt_map mt = kmap ekey (mroot mt)"

definition entry_bytes :: "lsm_memtable_entry \<Rightarrow> 64 word" where
  "entry_bytes e = of_nat (length (ekey e)) + of_nat (evalue_len e) + of_nat ENTRY_BYTES"

definition entry_ok :: "lsm_memtable_entry \<Rightarrow> bool" where
  "entry_ok e \<longleftrightarrow> ekey e \<noteq> [] \<and> (edeleted e \<longrightarrow> evalue e = None) \<and>
     evalue_len e = (case evalue e of None \<Rightarrow> 0 | Some v \<Rightarrow> length v)"

text \<open>
  The tree is a sorted red-black tree, entries are consistent, and both the entry count and the
  size the table reports are those of its entries (modulo 2^64).
\<close>

definition memtable_inv :: "lsm_memtable \<Rightarrow> bool" where
  "memtable_inv mt \<longleftrightarrow> rb_inv kcmp ekey (mroot mt) \<and> (\<forall>e \<in> ran (mt_map mt). entry_ok e) \<and>
     total_entries (mstats mt) = of_nat (length (inorder (mroot mt))) \<and>
     msize mt = map_sum_of entry_bytes (mt_map mt)"

lemma memtable_search_cases:
  assumes "memtable_inv mt"
  obtains (absent) p where "lsm_memtable_search_node mt k = (RNil, p)" "mt_map mt k = None"
      "insert_descent k (mroot mt) [] = p"
  | (present) c l e r p where "lsm_memtable_search_node mt k = (RNode c l e r, p)"
      "mt_map mt k = Some e" "ekey e = k" "entry_ok e"
proof -
  obtain x p where s: "rb_locate kcmp ekey k (mroot mt) [] = (x, p)" by fastforce
  have srt: "ksorted kcmp ekey (inorder (mroot mt))"
    using assms by (simp add: memtable_inv_def rb_inv_def)
  have desc: "rb_locate kcmp ekey k t q = (RNil, p) \<Longrightarrow> insert_descent k t q = p" for t q
    by (induction t arbitrary: q) (auto split: if_splits)
  show ?thesis
  proof (cases x)
    case RNil
    with s memkey.locate_kmap[OF srt, of k] desc absent show ?thesis
      by (simp add: lsm_memtable_search_node_def mt_map_def)
  next
    case (RNode c l e r)
    with s memkey.locate_kmap[OF srt, of k] have "mt_map mt k = Some e" by (simp add: mt_map_def)
    moreover from this have "entry_ok e" using assms by (auto simp: memtable_inv_def ranI)
    moreover have "ekey e = k" using memkey.rb_locate_found[of ekey k "mroot mt"] s RNode by blast
    ultimately show ?thesis using present s RNode by (simp add: lsm_memtable_search_node_def)
  qed
qed

text \<open>Binding a key to an entry: by insertion of a new node, or in place.\<close>

lemma insert_node_ok:
  assumes inv: "memtable_inv mt" and "mt_map mt (ekey e) = None" and "mroot mt1 = mroot mt"
  shows "\<exists>t. lsm_memtable_insert_node mt1 e = Inr (mt1\<lparr>mroot := t\<rparr>) \<and> rb_inv kcmp ekey t \<and>
    kmap ekey t = (mt_map mt)(ekey e \<mapsto> e) \<and> length (inorder t) = Suc (length (inorder (mroot mt)))"
  using inv
proof (cases rule: memtable_search_cases[where k = "ekey e"])
  case (absent p)
  have "rb_inv kcmp ekey (mroot mt)" using inv by (simp add: memtable_inv_def)
  from memkey.insert_at[OF this, of e p] absent(1,3) assms(3) show ?thesis
    by (auto simp: lsm_memtable_search_node_def lsm_memtable_insert_node_def lsm_memtable_insert_fixup_def
        mt_map_def)
next
  case (present c l e' r p)
  with assms(2) show ?thesis by simp
qed

lemma update_node_ok:
  assumes inv: "memtable_inv mt" and loc: "lsm_memtable_search_node mt (ekey e) = (RNode c l e0 r, p)"
  shows "rb_inv kcmp ekey (plug (RNode c l e r) p)"
    and "kmap ekey (plug (RNode c l e r) p) = (mt_map mt)(ekey e \<mapsto> e)"
    and "length (inorder (plug (RNode c l e r) p)) = length (inorder (mroot mt))"
proof -
  have inv': "rb_inv kcmp ekey (mroot mt)" using inv by (simp add: memtable_inv_def)
  have loc': "rb_locate kcmp ekey (ekey e) (mroot mt) [] = (RNode c l e0 r, p)"
    using loc by (simp add: lsm_memtable_search_node_def)
  note up = memkey.update_at[OF inv' loc' refl]
  from up(1) show "rb_inv kcmp ekey (plug (RNode c l e r) p)" .
  from up(2) show "kmap ekey (plug (RNode c l e r) p) = (mt_map mt)(ekey e \<mapsto> e)"
    by (simp add: mt_map_def)
  from up(3) show "length (inorder (plug (RNode c l e r) p)) = length (inorder (mroot mt))" .
qed

lemma memtable_inv_bind:
  assumes inv: "memtable_inv mt" and "rb_inv kcmp ekey (mroot mt')" and e: "entry_ok e" "ekey e = k"
    and m: "mt_map mt' = (mt_map mt)(k \<mapsto> e)"
    and "total_entries (mstats mt') = of_nat (length (inorder (mroot mt')))"
    and "msize mt' = msize mt - (case mt_map mt k of None \<Rightarrow> 0 | Some e0 \<Rightarrow> entry_bytes e0) + entry_bytes e"
  shows "memtable_inv mt'"
proof -
  have "finite (dom (mt_map mt))" by (simp add: mt_map_def)
  then have "msize mt' = map_sum_of entry_bytes (mt_map mt')"
    unfolding m assms(7) using inv by (simp only: map_sum_of_upd memtable_inv_def)
  moreover have "\<forall>e' \<in> ran (mt_map mt'). entry_ok e'"
    using inv e(1) m by (auto simp: memtable_inv_def ran_def split: if_splits)
  ultimately show ?thesis using assms(2,6) by (simp add: memtable_inv_def)
qed

text \<open>A call passes a buffer together with its length.\<close>

definition value_arg :: "bytes option \<Rightarrow> nat \<Rightarrow> bool" where
  "value_arg v n \<longleftrightarrow> n = (case v of None \<Rightarrow> 0 | Some b \<Rightarrow> length b)"

definition stored :: "bytes option \<Rightarrow> bytes option" where
  "stored v = (if v = Some [] then None else v)"

definition put_entry :: "bytes \<Rightarrow> bytes option \<Rightarrow> nat \<Rightarrow> 64 word \<Rightarrow> nat \<Rightarrow> lsm_memtable_entry" where
  "put_entry k v n sq now = \<lparr>ekey = k, evalue = stored v, evalue_len = n, eseq = sq,
     edeleted = False, etimestamp = now\<rparr>"

lemma lsm_memtable_put_ok:
  assumes inv: "memtable_inv mt" and "\<not> is_immutable mt" "k \<noteq> []" and v: "value_arg v n"
  shows "\<exists>mt'. lsm_memtable_put [] now mt (Some k) v n = Inr (KV_ERR_NONE, mt', []) \<and> memtable_inv mt' \<and>
    mt_map mt' = (mt_map mt)(k \<mapsto> put_entry k v n (mseq mt + 1) now) \<and> mseq mt' = mseq mt + 1 \<and>
    \<not> is_immutable mt'"
proof -
  let ?e = "put_entry k v n (mseq mt + 1) now"
  have e: "entry_ok ?e" "ekey ?e = k"
    using v assms(3) by (auto simp: entry_ok_def put_entry_def stored_def value_arg_def split: option.splits)
  have nv: "(if v \<noteq> None \<and> 0 < n then map_option (take n) v else None) = stored v"
    using v by (auto simp: stored_def value_arg_def split: option.splits)
  from inv show ?thesis
  proof (cases rule: memtable_search_cases[where k = k])
    case (absent p)
    let ?mt1 = "mt\<lparr>mseq := mseq mt + 1\<rparr>"
    have cr: "lsm_memtable_entry_create [] now k v n (mseq mt + 1) False = (Some ?e, [])"
      using v by (auto simp: lsm_memtable_entry_create_def put_entry_def stored_def value_arg_def split: option.splits)
    from insert_node_ok[OF inv, of ?e ?mt1] absent(2) e(2) obtain t where
      t: "lsm_memtable_insert_node ?mt1 ?e = Inr (?mt1\<lparr>mroot := t\<rparr>)" "rb_inv kcmp ekey t"
        "kmap ekey t = (mt_map mt)(k \<mapsto> ?e)" "length (inorder t) = Suc (length (inorder (mroot mt)))" by auto
    let ?mt = "sync_stats (mt\<lparr>mseq := mseq mt + 1, mroot := t,
      msize := msize mt + of_nat (length k) + of_nat n + of_nat ENTRY_BYTES,
      mstats := (mstats mt)\<lparr>total_entries := total_entries (mstats mt) + 1,
        active_entries := active_entries (mstats mt) + 1, write_count := write_count (mstats mt) + 1\<rparr>\<rparr>)"
    have put: "lsm_memtable_put [] now mt (Some k) v n = Inr (KV_ERR_NONE, ?mt, [])"
      using absent(1) t(1) assms(2,3) cr by (simp add: lsm_memtable_put_def)
    have m: "mt_map ?mt = (mt_map mt)(k \<mapsto> ?e)"
      using t(3) by (simp add: mt_map_def sync_stats_def)
    have "memtable_inv ?mt"
      using inv absent(2) t(2,4) by (intro memtable_inv_bind[OF inv _ e m])
        (simp_all add: sync_stats_def entry_bytes_def put_entry_def memtable_inv_def)
    with put m show ?thesis using assms(2) by (simp add: sync_stats_def)
  next
    case (present c l e0 r p)
    have e': "e0\<lparr>evalue := stored v, evalue_len := n, eseq := mseq mt + 1, edeleted := False, etimestamp := now\<rparr> = ?e"
      using present(3) by (simp add: put_entry_def)
    let ?mt = "sync_stats (mt\<lparr>mroot := plug (RNode c l ?e r) p,
      msize := msize mt - (if evalue e0 \<noteq> None then of_nat (evalue_len e0) else 0)
        + (if stored v \<noteq> None then of_nat n else 0), mseq := mseq mt + 1,
      mstats := (mstats mt)\<lparr>write_count := write_count (mstats mt) + 1\<rparr>\<rparr>)"
    have put: "lsm_memtable_put [] now mt (Some k) v n = Inr (KV_ERR_NONE, ?mt, [])"
      unfolding lsm_memtable_put_def Let_def nv using present(1) assms(2,3) e' by simp
    note up = update_node_ok[OF inv, of ?e c l e0 r p, unfolded e(2), OF present(1)]
    have m: "mt_map ?mt = (mt_map mt)(k \<mapsto> ?e)"
      using up(2) by (simp add: mt_map_def sync_stats_def)
    have old: "entry_bytes e0 = of_nat (length k) + (if evalue e0 \<noteq> None then of_nat (evalue_len e0) else 0) + of_nat ENTRY_BYTES"
      using present(3,4) by (auto simp: entry_bytes_def entry_ok_def split: option.splits)
    have new: "entry_bytes ?e = of_nat (length k) + (if stored v \<noteq> None then of_nat n else 0) + of_nat ENTRY_BYTES"
      using v by (auto simp: entry_bytes_def put_entry_def stored_def value_arg_def split: option.splits)
    have "memtable_inv ?mt"
    proof (rule memtable_inv_bind[OF inv _ e m])
      show "rb_inv kcmp ekey (mroot ?mt)" using up(1) by (simp add: sync_stats_def)
      show "total_entries (mstats ?mt) = of_nat (length (inorder (mroot ?mt)))"
        using inv up(3) by (simp add: sync_stats_def memtable_inv_def)
      show "msize ?mt = msize mt - (case mt_map mt k of None \<Rightarrow> 0 | Some e0 \<Rightarrow> entry_bytes e0) + entry_bytes ?e"
        using present(2) by (simp add: sync_stats_def old new)
    qed
    with put m show ?thesis using assms(2) by (simp add: sync_stats_def)
  qed
qed

definition tombstone :: "bytes \<Rightarrow> 64 word \<Rightarrow> nat \<Rightarrow> lsm_memtable_entry" where
  "tombstone k sq now = \<lparr>ekey = k, evalue = None, evalue_len = 0, eseq = sq, edeleted = True, etimestamp = now\<rparr>"

lemma lsm_memtable_delete_ok:
  assumes inv: "memtable_inv mt" and "\<not> is_immutable mt" "k \<noteq> []"
  shows "\<exists>mt'. lsm_memtable_delete [] now mt (Some k) = Inr (KV_ERR_NONE, mt', []) \<and> memtable_inv mt' \<and>
    mt_map mt' = (mt_map mt)(k \<mapsto> tombstone k (mseq mt + 1) now) \<and> mseq mt' = mseq mt + 1 \<and>
    \<not> is_immutable mt'"
proof -
  let ?e = "tombstone k (mseq mt + 1) now"
  have e: "entry_ok ?e" "ekey ?e = k" using assms(3) by (simp_all add: entry_ok_def tombstone_def)
  from inv show ?thesis
  proof (cases rule: memtable_search_cases[where k = k])
    case (absent p)
    let ?mt1 = "mt\<lparr>mseq := mseq mt + 1\<rparr>"
    have cr: "lsm_memtable_entry_create [] now k None 0 (mseq mt + 1) True = (Some ?e, [])"
      by (simp add: lsm_memtable_entry_create_def tombstone_def)
    from insert_node_ok[OF inv, of ?e ?mt1] absent(2) e(2) obtain t where
      t: "lsm_memtable_insert_node ?mt1 ?e = Inr (?mt1\<lparr>mroot := t\<rparr>)" "rb_inv kcmp ekey t"
        "kmap ekey t = (mt_map mt)(k \<mapsto> ?e)" "length (inorder t) = Suc (length (inorder (mroot mt)))" by auto
    let ?mt = "sync_stats (mt\<lparr>mseq := mseq mt + 1, mroot := t,
      msize := msize mt + of_nat (length k) + of_nat ENTRY_BYTES,
      mstats := (mstats mt)\<lparr>total_entries := total_entries (mstats mt) + 1,
        deleted_entries := deleted_entries (mstats mt) + 1, delete_count := delete_count (mstats mt) + 1\<rparr>\<rparr>)"
    have put: "lsm_memtable_delete [] now mt (Some k) = Inr (KV_ERR_NONE, ?mt, [])"
      using absent(1) t(1) assms(2,3) cr by (simp add: lsm_memtable_delete_def)
    have m: "mt_map ?mt = (mt_map mt)(k \<mapsto> ?e)"
      using t(3) by (simp add: mt_map_def sync_stats_def)
    have "memtable_inv ?mt"
      using inv absent(2) t(2,4) by (intro memtable_inv_bind[OF inv _ e m])
        (simp_all add: sync_stats_def entry_bytes_def tombstone_def memtable_inv_def)
    with put m show ?thesis using assms(2) by (simp add: sync_stats_def)
  next
    case (present c l e0 r p)
    let ?e1 = "e0\<lparr>edeleted := True, eseq := mseq mt + 1, etimestamp := now\<rparr>"
    have e': "(if evalue e0 \<noteq> None then ?e1\<lparr>evalue := None, evalue_len := 0\<rparr> else ?e1) = ?e"
      using present(3,4) by (auto simp: tombstone_def entry_ok_def)
    let ?st = "if \<not> edeleted e0 then (mstats mt)\<lparr>active_entries := active_entries (mstats mt) - 1,
      deleted_entries := deleted_entries (mstats mt) + 1\<rparr> else mstats mt"
    let ?mt = "sync_stats (mt\<lparr>mroot := plug (RNode c l ?e r) p,
      msize := msize mt - (if evalue e0 \<noteq> None then of_nat (evalue_len e0) else 0), mseq := mseq mt + 1,
      mstats := ?st\<lparr>delete_count := delete_count ?st + 1\<rparr>\<rparr>)"
    have put: "lsm_memtable_delete [] now mt (Some k) = Inr (KV_ERR_NONE, ?mt, [])"
      unfolding lsm_memtable_delete_def Let_def using present(1) assms(2,3) e' by simp
    note up = update_node_ok[OF inv, of ?e c l e0 r p, unfolded e(2), OF present(1)]
    have m: "mt_map ?mt = (mt_map mt)(k \<mapsto> ?e)"
      using up(2) by (simp add: mt_map_def sync_stats_def)
    have old: "entry_bytes e0 = of_nat (length k) + (if evalue e0 \<noteq> None then of_nat (evalue_len e0) else 0) + of_nat ENTRY_BYTES"
      using present(3,4) by (auto simp: entry_bytes_def entry_ok_def split: option.splits)
    have new: "entry_bytes ?e = of_nat (length k) + of_nat ENTRY_BYTES"
      by (simp add: entry_bytes_def tombstone_def)
    have "memtable_inv ?mt"
    proof (rule memtable_inv_bind[OF inv _ e m])
      show "rb_inv kcmp ekey (mroot ?mt)" using up(1) by (simp add: sync_stats_def)
      show "total_entries (mstats ?mt) = of_nat (length (inorder (mroot ?mt)))"
        using inv up(3) by (simp add: sync_stats_def memtable_inv_def)
      show "msize ?mt = msize mt - (case mt_map mt k of None \<Rightarrow> 0 | Some e0 \<Rightarrow> entry_bytes e0) + entry_bytes ?e"
        using present(2) new by (simp add: sync_stats_def old)
    qed
    with put m show ?thesis using assms(2) by (simp add: sync_stats_def)
  qed
qed

definition get_of :: "lsm_memtable_entry \<Rightarrow> get_result" where
  "get_of e = \<lparr>out_value = evalue e, out_value_len = evalue_len e, out_seq = eseq e, out_deleted = edeleted e\<rparr>"

lemma lsm_memtable_get_ok:
  assumes inv: "memtable_inv mt" and "k \<noteq> []"
  shows "\<exists>mt'. lsm_memtable_get [] mt (Some k) =
    (if k \<in> dom (mt_map mt) then KV_ERR_NONE else KV_ERR_NOT_FOUND, map_option get_of (mt_map mt k), mt', []) \<and>
    mt_map mt' = mt_map mt \<and> memtable_inv mt'"
  using inv
proof (cases rule: memtable_search_cases[where k = k])
  case (absent p)
  with inv assms(2) show ?thesis by (auto simp: lsm_memtable_get_def)
next
  case (present c l e r p)
  with inv assms(2) show ?thesis
    by (auto simp: lsm_memtable_get_def get_of_def mt_map_def memtable_inv_def)
qed

section \<open>Iteration\<close>

definition visible :: "bool \<Rightarrow> lsm_memtable_entry \<Rightarrow> bool" where
  "visible incl e \<longleftrightarrow> incl \<or> \<not> edeleted e"

lemma iter_advance_rest:
  "t \<noteq> RNil \<Longrightarrow>
   (case iter_advance incl t p of
      None \<Rightarrow> filter (visible incl) (tl (rest_from t p)) = []
    | Some (t', q) \<Rightarrow> \<exists>c' l' e r'. t' = RNode c' l' e r' \<and>
        filter (visible incl) (tl (rest_from t p)) = e # filter (visible incl) (tl (rest_from t' q)) \<and>
        length (rest_from t' q) < length (rest_from t p))"
proof (induction incl t p rule: iter_advance.induct)
  case (1 incl p)
  then show ?case by simp
next
  case (2 incl c l a r p)
  note succ = successor_rest[of c l a r p]
  show ?case
  proof (cases "rbtree_successor (RNode c l a r) p")
    case None
    with succ have "rest_from (RNode c l a r) p = [a]" by simp
    with None show ?thesis by (simp add: lsm_memtable_successor_def)
  next
    case (Some x)
    then obtain c' l' e r' q where x: "x = (RNode c' l' e r', q)"
      using succ by (cases x; cases "fst x") auto
    have rest: "rest_from (RNode c l a r) p = a # rest_from (RNode c' l' e r') q"
      using succ Some x by simp
    then have tl: "tl (rest_from (RNode c l a r) p) = e # tl (rest_from (RNode c' l' e r') q)"
      by (metis list.sel(3) rest_from.simps(2))
    have len: "length (rest_from (RNode c' l' e r') q) < length (rest_from (RNode c l a r) p)"
      using rest by (metis length_Cons lessI)
    show ?thesis
    proof (cases "incl \<or> \<not> edeleted e")
      case True
      then have "iter_advance incl (RNode c l a r) p = Some (RNode c' l' e r', q)"
        using Some x by (simp add: lsm_memtable_successor_def)
      with True tl len show ?thesis by (simp add: visible_def)
    next
      case False
      then have eq: "iter_advance incl (RNode c l a r) p = iter_advance incl (RNode c' l' e r') q"
        using Some x by (simp add: lsm_memtable_successor_def)
      have vis: "filter (visible incl) (tl (rest_from (RNode c l a r) p)) =
          filter (visible incl) (tl (rest_from (RNode c' l' e r') q))"
        using False tl by (simp add: visible_def)
      have "lsm_memtable_successor (RNode c l a r) p = Some (RNode c' l' e r', q)"
        using Some x by (simp add: lsm_memtable_successor_def)
      from "2.IH"[OF this refl refl False] show ?thesis
        unfolding eq vis using len by (auto split: option.splits dest: less_trans)
    qed
  qed
qed

text \<open>Reading a table through its iterator; the fuel bounds the number of \<open>next\<close> calls.\<close>

fun iter_list :: "nat \<Rightarrow> lsm_memtable_iterator \<Rightarrow> lsm_memtable_entry list outcome" where
  "iter_list 0 it = Inl OutOfFuel"
| "iter_list (Suc n) it =
     (if \<not> lsm_memtable_iterator_valid it then Inr []
      else (case lsm_memtable_iterator_current it of
        (r, None) \<Rightarrow> Inl NilSentinel
      | (r, Some e) \<Rightarrow>
          obind (lsm_memtable_iterator_next it) (\<lambda>(r', it'). obind (iter_list n it') (\<lambda>es. Inr (e # es)))))"

lemma iter_list_rest:
  "length (rest_from (RNode c l a r) p) < n \<Longrightarrow>
     iter_list n \<lparr>current = Some (RNode c l a r, p), valid = True, include_deleted = incl\<rparr> =
       Inr (a # filter (visible incl) (tl (rest_from (RNode c l a r) p)))"
proof (induction n arbitrary: c l a r p)
  case 0
  then show ?case by simp
next
  case (Suc n)
  note adv = iter_advance_rest[of "RNode c l a r" incl p, OF rbtree_node.distinct(2)]
  show ?case
  proof (cases "iter_advance incl (RNode c l a r) p")
    case None
    with adv Suc.prems have "0 < n" by (cases n) auto
    then obtain n' where "n = Suc n'" by (cases n) auto
    with None adv show ?thesis
      by (simp add: lsm_memtable_iterator_valid_def lsm_memtable_iterator_current_def
          lsm_memtable_iterator_next_def del: iter_advance.simps)
  next
    case (Some x)
    then obtain c' l' e r' q where x: "x = (RNode c' l' e r', q)"
      and f: "filter (visible incl) (tl (rest_from (RNode c l a r) p)) =
        e # filter (visible incl) (tl (rest_from (RNode c' l' e r') q))"
      and len: "length (rest_from (RNode c' l' e r') q) < length (rest_from (RNode c l a r) p)"
      using adv by auto
    from len Suc.prems have "length (rest_from (RNode c' l' e r') q) < n" by linarith
    from Suc.IH[OF this] show ?thesis
      unfolding f using Some x
      by (simp add: lsm_memtable_iterator_valid_def lsm_memtable_iterator_current_def
          lsm_memtable_iterator_next_def del: iter_advance.simps rest_from.simps)
  qed
qed

lemma iter_seek_list:
  assumes "include_deleted it = incl" and n: "Suc (length (inorder (mroot mt))) < n"
  shows "\<exists>r it'. lsm_memtable_iterator_seek_first mt it = Inr (r, it') \<and>
    iter_list n it' = Inr (filter (visible incl) (inorder (mroot mt)))"
proof -
  obtain t p where m: "rbtree_mini (mroot mt) [] = (t, p)" by fastforce
  note rest = rest_from_mini[OF m]
  from n obtain n' where n': "n = Suc n'" by (cases n) auto
  show ?thesis
  proof (cases t)
    case RNil
    with m have "mroot mt = RNil" using rbtree_mini_props(2)[OF m] by (cases "mroot mt") auto
    with n' m RNil show ?thesis
      by (simp add: lsm_memtable_iterator_seek_first_def lsm_memtable_minimum_def lsm_memtable_iterator_valid_def)
  next
    case (RNode c l a r)
    have ino: "inorder (mroot mt) = a # tl (rest_from (RNode c l a r) p)"
      using rest RNode by (metis append_Nil2 after.simps(1) list.sel(3) rest_from.simps(2))
    have len: "length (rest_from (RNode c l a r) p) < n" using rest RNode n by simp
    show ?thesis
    proof (cases "visible incl a")
      case True
      with m RNode assms(1) iter_list_rest[OF len, of incl] ino show ?thesis
        by (cases it) (auto simp: lsm_memtable_iterator_seek_first_def lsm_memtable_minimum_def visible_def
            lsm_memtable_iterator.defs simp del: rest_from.simps iter_list.simps)
    next
      case False
      note adv = iter_advance_rest[of "RNode c l a r" incl p, OF rbtree_node.distinct(2)]
      have step: "lsm_memtable_iterator_seek_first mt it = Inr (KV_ERR_NONE,
          \<lparr>current = iter_advance incl (RNode c l a r) p,
           valid = (iter_advance incl (RNode c l a r) p \<noteq> None), include_deleted = incl\<rparr>)"
        using False m RNode assms(1)
        by (cases it) (simp add: lsm_memtable_iterator_seek_first_def lsm_memtable_minimum_def visible_def
            lsm_memtable_iterator_next_def Let_def del: iter_advance.simps)
      show ?thesis
      proof (cases "iter_advance incl (RNode c l a r) p")
        case None
        with adv have "filter (visible incl) (inorder (mroot mt)) = []" using ino False by simp
        with step None n' show ?thesis by (simp add: lsm_memtable_iterator_valid_def)
      next
        case (Some x)
        then obtain c' l' e r' q where x: "x = (RNode c' l' e r', q)"
          and f: "filter (visible incl) (tl (rest_from (RNode c l a r) p)) =
            e # filter (visible incl) (tl (rest_from (RNode c' l' e r') q))"
          and l: "length (rest_from (RNode c' l' e r') q) < length (rest_from (RNode c l a r) p)"
          using adv by auto
        from l len have "length (rest_from (RNode c' l' e r') q) < n" by linarith
        from iter_list_rest[OF this, of incl] f ino False step Some x show ?thesis
          by (simp del: rest_from.simps iter_list.simps iter_advance.simps)
      qed
    qed
  qed
qed

section \<open>Properties\<close>

text \<open>The sequence numbers in a table are at most the table's own.\<close>

definition seq_inv :: "lsm_memtable \<Rightarrow> bool" where
  "seq_inv mt \<longleftrightarrow> (\<forall>e \<in> ran (mt_map mt). eseq e \<le> mseq mt)"

lemma word_less_inc: "(w :: 64 word) \<noteq> - 1 \<Longrightarrow> w < w + 1"
proof -
  assume "w \<noteq> - 1"
  then have "1 + w \<noteq> 0" by (metis add.commute eq_neg_iff_add_eq_0)
  from unatSuc[OF this] show ?thesis by (simp add: word_less_nat_alt add.commute)
qed

definition memtable_ab :: lsm_memtable where
  "memtable_ab = \<lparr>mroot = RNode BLACK RNil
       \<lparr>ekey = [97], evalue = Some [1, 2], evalue_len = 2, eseq = 2, edeleted = False, etimestamp = 10\<rparr>
       (RNode RED RNil (tombstone [98] 3 11) RNil),
     msize = 180, max_size = 4096, mseq = 3, is_immutable = False,
     mstats = zero_stats\<lparr>total_entries := 2, active_entries := 1, deleted_entries := 1\<rparr>,
     mname = ''t'', creation_time = 0\<rparr>"

lemma memtable_ab_map:
  "mt_map memtable_ab = [[97] \<mapsto> \<lparr>ekey = [97], evalue = Some [1, 2], evalue_len = 2, eseq = 2,
     edeleted = False, etimestamp = 10\<rparr>, [98] \<mapsto> tombstone [98] 3 11]"
  by (auto simp: memtable_ab_def mt_map_def kmap_def tombstone_def fun_eq_iff)

lemma memtable_ab_inv: "memtable_inv memtable_ab" "\<not> is_immutable memtable_ab" "seq_inv memtable_ab"
  "mseq memtable_ab \<noteq> - 1"
proof -
  have dom: "map_sum_of entry_bytes (mt_map memtable_ab) = 180"
    unfolding memtable_ab_map by (simp add: map_sum_of_def entry_bytes_def tombstone_def)
  show "memtable_inv memtable_ab"
    unfolding memtable_inv_def dom unfolding memtable_ab_map
    by (auto simp: memtable_ab_def rb_inv_def rbt_def ksorted_def tombstone_def entry_ok_def ran_def
        split: if_splits)
  show "\<not> is_immutable memtable_ab" "mseq memtable_ab \<noteq> - 1" by (simp_all add: memtable_ab_def)
  show "seq_inv memtable_ab"
    unfolding seq_inv_def memtable_ab_map by (auto simp: memtable_ab_def tombstone_def ran_def split: if_splits)
qed

text \<open>
  C17: \<open>lsm_memtable_put\<close> on a writable table, for a new key, a live key or a tombstone, binds the
  key to an entry with the value and the next sequence number, leaves every other entry alone, and
  keeps the red-black tree, the entry count and the reported size exact; a read then returns the value
  that was put.
\<close>

theorem memtable_put_refines:
  assumes "memtable_inv mt" and "\<not> is_immutable mt" and "k \<noteq> []" and "value_arg v n"
  shows "\<exists>mt' mt''. lsm_memtable_put [] now mt (Some k) v n = Inr (KV_ERR_NONE, mt', []) \<and> memtable_inv mt' \<and>
    mt_map mt' = (mt_map mt)(k \<mapsto> put_entry k v n (mseq mt + 1) now) \<and>
    lsm_memtable_size mt' = map_sum_of entry_bytes (mt_map mt') \<and>
    lsm_memtable_get [] mt' (Some k) = (KV_ERR_NONE,
      Some \<lparr>out_value = stored v, out_value_len = n, out_seq = mseq mt + 1, out_deleted = False\<rparr>, mt'', [])"
proof -
  from lsm_memtable_put_ok[OF assms, of now] obtain mt' where
    mt': "lsm_memtable_put [] now mt (Some k) v n = Inr (KV_ERR_NONE, mt', [])" "memtable_inv mt'"
      "mt_map mt' = (mt_map mt)(k \<mapsto> put_entry k v n (mseq mt + 1) now)" by blast
  with lsm_memtable_get_ok[OF mt'(2) assms(3)] show ?thesis
    by (auto simp: get_of_def put_entry_def memtable_inv_def lsm_memtable_size_def)
qed

theorem memtable_put_refines_witness:
  "\<exists>mt' mt''. lsm_memtable_put [] 20 memtable_ab (Some [98]) (Some [7]) 1 = Inr (KV_ERR_NONE, mt', []) \<and>
    memtable_inv mt' \<and>
    mt_map mt' = (mt_map memtable_ab)([98] \<mapsto> put_entry [98] (Some [7]) 1 (mseq memtable_ab + 1) 20) \<and>
    lsm_memtable_size mt' = map_sum_of entry_bytes (mt_map mt') \<and>
    lsm_memtable_get [] mt' (Some [98]) = (KV_ERR_NONE, Some \<lparr>out_value = stored (Some [7]), out_value_len = 1,
      out_seq = mseq memtable_ab + 1, out_deleted = False\<rparr>, mt'', [])"
  by (rule memtable_put_refines[OF memtable_ab_inv(1,2)]) (simp_all add: value_arg_def)

text \<open>
  C19: \<open>lsm_memtable_delete\<close> always leaves a tombstone with the next sequence number, whether the
  key was live, already deleted or never written, and releases the value's bytes from the size; a read
  then reports the key as deleted rather than missing.
\<close>

theorem memtable_delete_tombstone:
  assumes "memtable_inv mt" and "\<not> is_immutable mt" and "k \<noteq> []"
  shows "\<exists>mt' mt''. lsm_memtable_delete [] now mt (Some k) = Inr (KV_ERR_NONE, mt', []) \<and> memtable_inv mt' \<and>
    mt_map mt' = (mt_map mt)(k \<mapsto> tombstone k (mseq mt + 1) now) \<and>
    lsm_memtable_get [] mt' (Some k) = (KV_ERR_NONE,
      Some \<lparr>out_value = None, out_value_len = 0, out_seq = mseq mt + 1, out_deleted = True\<rparr>, mt'', [])"
proof -
  from lsm_memtable_delete_ok[OF assms, of now] obtain mt' where
    mt': "lsm_memtable_delete [] now mt (Some k) = Inr (KV_ERR_NONE, mt', [])" "memtable_inv mt'"
      "mt_map mt' = (mt_map mt)(k \<mapsto> tombstone k (mseq mt + 1) now)" by blast
  with lsm_memtable_get_ok[OF mt'(2) assms(3)] show ?thesis
    by (auto simp: get_of_def tombstone_def)
qed

theorem memtable_delete_tombstone_witness:
  "\<exists>mt' mt''. lsm_memtable_delete [] 20 memtable_ab (Some [97]) = Inr (KV_ERR_NONE, mt', []) \<and> memtable_inv mt' \<and>
    mt_map mt' = (mt_map memtable_ab)([97] \<mapsto> tombstone [97] (mseq memtable_ab + 1) 20) \<and>
    lsm_memtable_get [] mt' (Some [97]) = (KV_ERR_NONE, Some \<lparr>out_value = None, out_value_len = 0,
      out_seq = mseq memtable_ab + 1, out_deleted = True\<rparr>, mt'', [])"
  by (rule memtable_delete_tombstone[OF memtable_ab_inv(1,2)]) simp

text \<open>
  as long as the 64-bit counter does not wrap, every write gets a sequence number above those of
  all entries in the table, so the newest version of a key is the one with the highest number.
\<close>

theorem memtable_seq_monotone:
  assumes "memtable_inv mt" and "\<not> is_immutable mt" and "k \<noteq> []" and "value_arg v n"
    and "seq_inv mt" and "mseq mt \<noteq> - 1"
  shows "\<exists>mt' mt''. lsm_memtable_put [] now mt (Some k) v n = Inr (KV_ERR_NONE, mt', []) \<and>
    lsm_memtable_delete [] now mt (Some k) = Inr (KV_ERR_NONE, mt'', []) \<and> seq_inv mt' \<and> seq_inv mt'' \<and>
    (\<forall>e \<in> ran (mt_map mt). eseq e < eseq (the (mt_map mt' k)) \<and> eseq e < eseq (the (mt_map mt'' k)))"
proof -
  from lsm_memtable_put_ok[OF assms(1-4), of now] obtain mt' where
    mt': "lsm_memtable_put [] now mt (Some k) v n = Inr (KV_ERR_NONE, mt', [])"
      "mt_map mt' = (mt_map mt)(k \<mapsto> put_entry k v n (mseq mt + 1) now)" "mseq mt' = mseq mt + 1" by blast
  from lsm_memtable_delete_ok[OF assms(1-3), of now] obtain mt'' where
    mt'': "lsm_memtable_delete [] now mt (Some k) = Inr (KV_ERR_NONE, mt'', [])"
      "mt_map mt'' = (mt_map mt)(k \<mapsto> tombstone k (mseq mt + 1) now)" "mseq mt'' = mseq mt + 1" by blast
  have less: "\<forall>e \<in> ran (mt_map mt). eseq e < mseq mt + 1"
    using assms(5,6) word_less_inc by (auto simp: seq_inv_def intro: le_less_trans)
  have upd: "e \<in> ran ((mt_map mt)(k \<mapsto> x)) \<Longrightarrow> e = x \<or> e \<in> ran (mt_map mt)" for e x
    by (auto simp: ran_def split: if_splits)
  have "seq_inv mt'" "seq_inv mt''"
    unfolding seq_inv_def mt'(2,3) mt''(2,3)
    using less upd by (fastforce simp: put_entry_def tombstone_def intro: less_imp_le)+
  with mt' mt'' less show ?thesis by (auto simp: put_entry_def tombstone_def)
qed

theorem memtable_seq_monotone_witness:
  "\<exists>mt' mt''. lsm_memtable_put [] 20 memtable_ab (Some [99]) None 0 = Inr (KV_ERR_NONE, mt', []) \<and>
    lsm_memtable_delete [] 20 memtable_ab (Some [99]) = Inr (KV_ERR_NONE, mt'', []) \<and> seq_inv mt' \<and> seq_inv mt'' \<and>
    (\<forall>e \<in> ran (mt_map memtable_ab). eseq e < eseq (the (mt_map mt' [99])) \<and> eseq e < eseq (the (mt_map mt'' [99])))"
  by (rule memtable_seq_monotone[OF memtable_ab_inv(1,2) _ _ memtable_ab_inv(3,4)]) (simp_all add: value_arg_def)

text \<open>
  C18: iterating a table from \<open>seek_first\<close> with \<open>next\<close> terminates and visits exactly the entries
  in ascending key order, leaving the tombstones out unless they were asked for.
\<close>

theorem memtable_iteration_sorted:
  assumes "memtable_inv mt" and "lsm_memtable_iterator_create [] incl = (Some it, h)"
    and "fuel > Suc (length (inorder (mroot mt)))"
  shows "\<exists>r it' es. lsm_memtable_iterator_seek_first mt it = Inr (r, it') \<and> iter_list fuel it' = Inr es \<and>
    sorted_wrt (\<lambda>a b. ekey a < ekey b) es \<and>
    set es = {e \<in> ran (mt_map mt). incl \<or> \<not> edeleted e}"
proof -
  from assms(2) have it: "include_deleted it = incl" by (auto simp: lsm_memtable_iterator_create_def)
  have inv: "rb_inv kcmp ekey (mroot mt)" using assms(1) by (simp add: memtable_inv_def)
  have "set (inorder (mroot mt)) = ran (mt_map mt)"
    using memkey.in_inorder_iff[OF inv] memkey.kmap_key[of ekey "mroot mt"] by (auto simp: ran_def mt_map_def)
  moreover have "sorted_wrt (\<lambda>a b. ekey a < ekey b) (inorder (mroot mt))"
    using inv by (simp add: rb_inv_def ksorted_def kcmp_less_iff)
  ultimately show ?thesis
    using iter_seek_list[OF it assms(3)] by (auto simp: visible_def intro: sorted_wrt_filter)
qed

theorem memtable_iteration_sorted_witness:
  "\<exists>r it' es. lsm_memtable_iterator_seek_first memtable_ab
      \<lparr>current = None, valid = False, include_deleted = False\<rparr> = Inr (r, it') \<and> iter_list 4 it' = Inr es \<and>
    sorted_wrt (\<lambda>a b. ekey a < ekey b) es \<and>
    set es = {e \<in> ran (mt_map memtable_ab). False \<or> \<not> edeleted e}"
  by (rule memtable_iteration_sorted[OF memtable_ab_inv(1), where h = "[]"])
    (simp_all add: lsm_memtable_iterator_create_def memtable_ab_def)

text \<open>
  a frozen table never changes again: every put and delete, whatever its arguments and the state of
  the allocator, is refused and leaves the table as it was.
\<close>

theorem memtable_frozen_immutable:
  "\<exists>e1 e2. e1 \<noteq> KV_ERR_NONE \<and> e2 \<noteq> KV_ERR_NONE \<and>
     lsm_memtable_put h now (snd (lsm_memtable_freeze mt)) key_p v n = Inr (e1, snd (lsm_memtable_freeze mt), h) \<and>
     lsm_memtable_delete h now (snd (lsm_memtable_freeze mt)) key_p = Inr (e2, snd (lsm_memtable_freeze mt), h)"
  by (cases key_p) (simp_all add: lsm_memtable_freeze_def lsm_memtable_put_def lsm_memtable_delete_def)

text \<open>
  writing over a tombstone revives the key but not the statistics: the counters of active and of
  deleted entries stay as the deletion left them.
\<close>

theorem memtable_revive_stale_stats:
  assumes "memtable_inv mt" and "\<not> is_immutable mt" and "k \<noteq> []" and "value_arg v n"
    and "mt_map mt k = Some e" and "edeleted e"
  shows "\<exists>mt' e'. lsm_memtable_put [] now mt (Some k) v n = Inr (KV_ERR_NONE, mt', []) \<and>
    mt_map mt' k = Some e' \<and> \<not> edeleted e' \<and>
    active_entries (mstats mt') = active_entries (mstats mt) \<and>
    deleted_entries (mstats mt') = deleted_entries (mstats mt)"
proof -
  from lsm_memtable_put_ok[OF assms(1-4), of now] obtain mt' where
    mt': "lsm_memtable_put [] now mt (Some k) v n = Inr (KV_ERR_NONE, mt', [])"
      "mt_map mt' k = Some (put_entry k v n (mseq mt + 1) now)" by auto
  moreover have "active_entries (mstats mt') = active_entries (mstats mt) \<and>
      deleted_entries (mstats mt') = deleted_entries (mstats mt)"
    using assms(1)
  proof (cases rule: memtable_search_cases[where k = k])
    case (absent p)
    with assms(5) show ?thesis by simp
  next
    case (present c l e0 r p)
    with mt'(1) assms(2,3) show ?thesis
      by (auto simp: lsm_memtable_put_def Let_def sync_stats_def split: if_splits)
  qed
  ultimately show ?thesis by (auto simp: put_entry_def)
qed

theorem memtable_revive_stale_stats_witness:
  "\<exists>mt' e'. lsm_memtable_put [] 20 memtable_ab (Some [98]) (Some [7]) 1 = Inr (KV_ERR_NONE, mt', []) \<and>
    mt_map mt' [98] = Some e' \<and> \<not> edeleted e' \<and>
    active_entries (mstats mt') = active_entries (mstats memtable_ab) \<and>
    deleted_entries (mstats mt') = deleted_entries (mstats memtable_ab)"
  by (rule memtable_revive_stale_stats[OF memtable_ab_inv(1,2), of _ _ _ "tombstone [98] 3 11"])
    (simp_all add: value_arg_def memtable_ab_map tombstone_def)

end
