(* ===== verification/Dist_Txn.thy ===== *)
theory Dist_Txn
  imports Transaction
begin

text \<open>
  Distributed transactions, \<open>src/kvserver/kv_distributed_transaction.c\<close>: the bounded priority
  queue, the two-phase-commit coordinator with its local transaction of \<open>kv_transaction.c\<close>, node
  management, timeouts and heartbeats.

  A transaction object is referred to by its global id. \<open>ms\<close> is the wall clock in milliseconds and
  \<open>time(NULL)\<close> is \<open>ms div 1000\<close>. The message callback is a parameter (\<open>None\<close>: none installed),
  as are the results of \<open>rand\<close> that stand for the participants' votes. Every function body between
  a lock and its unlock is one step; \<open>dist_txn_prepare\<close> has two such sections, which other threads
  can separate. A thread that waits on a full or empty queue is one whose step comes later, so the
  waits appear only with their timeout outcome. Identifiers longer than 62 characters would be copied
  without a terminator into memory that is not cleared; that is the fault \<open>Uninit\<close>.
\<close>

section \<open>State\<close>

datatype dist_txn_status =
    DIST_TXN_PREPARING | DIST_TXN_PREPARED | DIST_TXN_COMMITTING | DIST_TXN_COMMITTED
  | DIST_TXN_ABORTING | DIST_TXN_ABORTED

datatype dist_msg_type =
    DIST_MSG_PREPARE | DIST_MSG_PREPARE_OK | DIST_MSG_PREPARE_FAIL | DIST_MSG_COMMIT
  | DIST_MSG_COMMIT_OK | DIST_MSG_ABORT | DIST_MSG_ABORT_OK | DIST_MSG_HEARTBEAT | DIST_MSG_RECOVERY

datatype txn_schedule_policy =
    TXN_SCHEDULE_FIFO | TXN_SCHEDULE_PRIORITY | TXN_SCHEDULE_DEADLINE | TXN_SCHEDULE_ADAPTIVE

abbreviation DIST_TXN_SUCCESS :: int where "DIST_TXN_SUCCESS \<equiv> 0"
abbreviation DIST_TXN_ERROR :: int where "DIST_TXN_ERROR \<equiv> -1"
abbreviation DIST_TXN_PREPARE_FAILED :: int where "DIST_TXN_PREPARE_FAILED \<equiv> -3"
abbreviation DIST_TXN_COMMIT_FAILED :: int where "DIST_TXN_COMMIT_FAILED \<equiv> -4"
abbreviation DIST_TXN_INVALID_STATE :: int where "DIST_TXN_INVALID_STATE \<equiv> -6"
abbreviation DIST_TXN_QUEUE_FULL :: int where "DIST_TXN_QUEUE_FULL \<equiv> -8"

type_synonym txn_ref = "64 word"

record dist_node =
  node_id :: string
  address :: string
  port :: int
  is_coordinator :: bool
  is_alive :: bool
  last_heartbeat :: int

record dist_participant =
  part_id :: string
  pstatus :: dist_txn_status
  prepare_time :: int
  response_time :: int
  prepare_result :: string

record dist_transaction =
  global_txn_id :: txn_ref
  owner_id :: string
  dstatus :: dist_txn_status
  priority :: int
  create_time :: int
  dstart_time :: int
  deadline :: int
  timeout_ms :: int
  participants :: "dist_participant list"
  participant_count :: int
  prepared_count :: int
  committed_count :: int
  local_txn :: "kv_transaction option"

record txn_queue_node =
  qtxn :: txn_ref
  qpriority :: int
  queue_time :: int

record txn_priority_queue =
  qnodes :: "txn_queue_node list"
  qsize :: int
  qmax :: int

record dist_txn_message =
  mtype :: dist_msg_type
  mtxn :: txn_ref
  sender_id :: string
  receiver_id :: string
  timestamp :: int
  mtimeout_ms :: int

record dist_txn_coordinator =
  coordinator_id :: string
  is_active :: bool
  storage_engine :: "rbtree option"
  nodes :: "dist_node list"
  node_count :: int
  transactions :: "dist_transaction list"
  transaction_count :: int
  next_global_txn_id :: txn_ref
  priority_queue :: txn_priority_queue
  total_transactions :: int
  committed_transactions :: int
  aborted_transactions :: int
  timeout_transactions :: int
  threads_running :: bool

type_synonym send_callback = "(string \<Rightarrow> dist_txn_message \<Rightarrow> int) option"

text \<open>\<open>strncpy\<close> into a cleared field of 64 bytes, and into one that is not.\<close>

definition copy_cleared :: "string \<Rightarrow> string" where
  "copy_cleared s = take 63 s"

definition copy_raw :: "string \<Rightarrow> string outcome" where
  "copy_raw s = (if length s < 63 then Inr s else Inl Uninit)"

definition is_timeout :: "int \<Rightarrow> int \<Rightarrow> int \<Rightarrow> bool" where
  "is_timeout ms start limit \<longleftrightarrow> limit > 0 \<and> ms - start * 1000 > limit"

section \<open>The priority queue\<close>

definition txn_priority_queue_create ::
  "script \<Rightarrow> bool \<Rightarrow> int \<Rightarrow> txn_priority_queue option \<times> script" where
  "txn_priority_queue_create h sync_ok max_size =
     (let limit = (if max_size \<le> 0 then 1000 else max_size);
          (ok, h1) = malloc h in
      (if ok \<and> sync_ok then Some \<lparr>qnodes = [], qsize = 0, qmax = limit\<rparr> else None, h1))"

text \<open>\<open>txn_priority_queue_destroy\<close>: the nodes it frees, from the head.\<close>

definition txn_priority_queue_destroy :: "txn_priority_queue \<Rightarrow> txn_queue_node list" where
  "txn_priority_queue_destroy q = qnodes q"

text \<open>The insertion loop: behind the last node whose priority is at least the new one's.\<close>

fun insert_after :: "txn_queue_node \<Rightarrow> txn_queue_node list \<Rightarrow> txn_queue_node list" where
  "insert_after x [] = [x]"
| "insert_after x (n # ns) = (if qpriority n \<ge> qpriority x then n # insert_after x ns else x # n # ns)"

definition txn_priority_queue_enqueue ::
  "script \<Rightarrow> int \<Rightarrow> txn_priority_queue \<Rightarrow> dist_transaction \<Rightarrow> int \<times> txn_priority_queue \<times> script" where
  "txn_priority_queue_enqueue h ms q txn =
     (if qsize q \<ge> qmax q then (DIST_TXN_QUEUE_FULL, q, h)
      else (let (ok, h1) = malloc h in
        if \<not> ok then (DIST_TXN_ERROR, q, h1)
        else (let x = \<lparr>qtxn = global_txn_id txn, qpriority = priority txn, queue_time = ms div 1000\<rparr>;
                  ns = (case qnodes q of
                     [] \<Rightarrow> [x]
                   | n # rest \<Rightarrow> if qpriority x > qpriority n then x # n # rest else n # insert_after x rest) in
          (DIST_TXN_SUCCESS, q\<lparr>qnodes := ns, qsize := qsize q + 1\<rparr>, h1))))"

text \<open>On an empty queue the wait ends with the timeout and the result is null.\<close>

definition txn_priority_queue_dequeue ::
  "txn_priority_queue \<Rightarrow> (txn_ref option \<times> txn_priority_queue) outcome" where
  "txn_priority_queue_dequeue q =
     (if qsize q = 0 then Inr (None, q)
      else (case qnodes q of
        [] \<Rightarrow> Inl NullDeref
      | n # ns \<Rightarrow> Inr (Some (qtxn n), q\<lparr>qnodes := ns, qsize := qsize q - 1\<rparr>)))"

definition txn_priority_queue_size :: "txn_priority_queue \<Rightarrow> int" where
  "txn_priority_queue_size q = qsize q"

text \<open>The absolute deadline \<open>dequeue\<close> computes for \<open>pthread_cond_timedwait\<close>, as (seconds, nanoseconds).\<close>

definition dequeue_deadline :: "int \<times> int \<Rightarrow> int \<Rightarrow> int \<times> int" where
  "dequeue_deadline clock limit =
     (fst clock + limit div 1000, snd clock + (limit mod 1000) * 1000000)"

section \<open>Coordinator and nodes\<close>

definition dist_txn_coordinator_init ::
  "script \<Rightarrow> bool \<Rightarrow> bool \<Rightarrow> string \<Rightarrow> rbtree option \<Rightarrow> dist_txn_coordinator \<Rightarrow> int \<times> dist_txn_coordinator \<times> script" where
  "dist_txn_coordinator_init h mutexes_ok queue_sync_ok cid engine c0 =
     (if \<not> mutexes_ok then (DIST_TXN_ERROR, c0, h)
      else (case txn_priority_queue_create h queue_sync_ok 1000 of
        (None, h1) \<Rightarrow> (DIST_TXN_ERROR, c0, h1)
      | (Some q, h1) \<Rightarrow>
          (DIST_TXN_SUCCESS,
           \<lparr>coordinator_id = copy_cleared cid, is_active = False, storage_engine = engine,
            nodes = [], node_count = 0, transactions = [], transaction_count = 0,
            next_global_txn_id = 1, priority_queue = q, total_transactions = 0,
            committed_transactions = 0, aborted_transactions = 0, timeout_transactions = 0,
            threads_running = False\<rparr>, h1)))"

text \<open>Starting the three threads, with the results of the three \<open>pthread_create\<close> calls.\<close>

definition dist_txn_coordinator_start ::
  "bool \<times> bool \<times> bool \<Rightarrow> dist_txn_coordinator \<Rightarrow> int \<times> dist_txn_coordinator" where
  "dist_txn_coordinator_start created c =
     (if threads_running c then (DIST_TXN_ERROR, c)
      else (case created of (s, hb, t) \<Rightarrow>
        if s \<and> hb \<and> t then (DIST_TXN_SUCCESS, c\<lparr>threads_running := True, is_active := True\<rparr>)
        else (DIST_TXN_ERROR, c\<lparr>threads_running := False, is_active := False\<rparr>)))"

definition dist_txn_coordinator_stop :: "dist_txn_coordinator \<Rightarrow> int \<times> dist_txn_coordinator" where
  "dist_txn_coordinator_stop c =
     (if \<not> threads_running c then (DIST_TXN_ERROR, c)
      else (DIST_TXN_SUCCESS, c\<lparr>threads_running := False, is_active := False\<rparr>))"

definition dist_txn_add_node ::
  "script \<Rightarrow> int \<Rightarrow> dist_txn_coordinator \<Rightarrow> string \<Rightarrow> string \<Rightarrow> int \<Rightarrow> (int \<times> dist_txn_coordinator \<times> script) outcome" where
  "dist_txn_add_node h ms c nid addr prt =
     (if list_ex (\<lambda>n. strcmp (node_id n) nid = 0) (nodes c) then Inr (DIST_TXN_ERROR, c, h)
      else (let (ok, h1) = malloc h in
        if \<not> ok then Inr (DIST_TXN_ERROR, c, h1)
        else obind (copy_raw nid) (\<lambda>nid'.
          if length addr \<ge> 255 then Inl Uninit
          else Inr (DIST_TXN_SUCCESS,
            c\<lparr>nodes := \<lparr>node_id = nid', address = addr, port = prt, is_coordinator = False,
                         is_alive = True, last_heartbeat = ms div 1000\<rparr> # nodes c,
               node_count := node_count c + 1\<rparr>, h1))))"

fun unlink_node :: "string \<Rightarrow> dist_node list \<Rightarrow> dist_node list option" where
  "unlink_node nid [] = None"
| "unlink_node nid (n # ns) =
     (if strcmp (node_id n) nid = 0 then Some ns else map_option ((#) n) (unlink_node nid ns))"

definition dist_txn_remove_node :: "dist_txn_coordinator \<Rightarrow> string \<Rightarrow> int \<times> dist_txn_coordinator" where
  "dist_txn_remove_node c nid =
     (case unlink_node nid (nodes c) of
        None \<Rightarrow> (DIST_TXN_ERROR, c)
      | Some ns \<Rightarrow> (DIST_TXN_SUCCESS, c\<lparr>nodes := ns, node_count := node_count c - 1\<rparr>))"

section \<open>Beginning a transaction\<close>

definition put_txn :: "dist_txn_coordinator \<Rightarrow> dist_transaction \<Rightarrow> dist_txn_coordinator" where
  "put_txn c txn = c\<lparr>transactions :=
     map (\<lambda>t. if global_txn_id t = global_txn_id txn then txn else t) (transactions c)\<rparr>"

definition find_txn :: "dist_txn_coordinator \<Rightarrow> txn_ref \<Rightarrow> dist_transaction option" where
  "find_txn c i = find (\<lambda>t. global_txn_id t = i) (transactions c)"

text \<open>The participant list is built by insertion at the head; one allocation each.\<close>

fun make_participants ::
  "script \<Rightarrow> string list \<Rightarrow> dist_participant list \<Rightarrow> (dist_participant list option \<times> script) outcome" where
  "make_participants h [] acc = Inr (Some acc, h)"
| "make_participants h (i # is) acc =
     (let (ok, h1) = malloc h in
      if \<not> ok then Inr (None, h1)
      else obind (copy_raw i) (\<lambda>i'.
        make_participants h1 is (\<lparr>part_id = i', pstatus = DIST_TXN_PREPARING, prepare_time = 0,
          response_time = 0, prepare_result = []\<rparr> # acc)))"

text \<open>The object as the assignments of \<open>dist_txn_begin\<close> fill it; C division truncates.\<close>

definition new_txn ::
  "txn_ref \<Rightarrow> string \<Rightarrow> int \<Rightarrow> int \<Rightarrow> int \<Rightarrow> dist_participant list \<Rightarrow> nat \<Rightarrow> kv_transaction option \<Rightarrow> dist_transaction" where
  "new_txn gid cid ms prio limit parts n loc =
     \<lparr>global_txn_id = gid, owner_id = copy_cleared cid, dstatus = DIST_TXN_PREPARING, priority = prio,
      create_time = ms div 1000, dstart_time = 0,
      deadline = ms div 1000 + (if limit < 0 then - (- limit div 1000) else limit div 1000),
      timeout_ms = limit, participants = parts, participant_count = int n, prepared_count = 0,
      committed_count = 0, local_txn = loc\<rparr>"

definition dist_txn_begin ::
  "script \<Rightarrow> bool \<Rightarrow> int \<Rightarrow> txn_manager \<Rightarrow> dist_txn_coordinator \<Rightarrow> int \<Rightarrow> int \<Rightarrow> string list \<Rightarrow>
     (txn_ref option \<times> dist_txn_coordinator \<times> txn_manager \<times> script) outcome" where
  "dist_txn_begin h sync_ok ms m c prio limit ids =
     (if ids = [] then Inr (None, c, m, h)
      else (let (ok, h1) = malloc h in
        if \<not> ok then Inr (None, c, m, h1)
        else (let gid = next_global_txn_id c; c1 = c\<lparr>next_global_txn_id := gid + 1\<rparr> in
          obind (make_participants h1 ids []) (\<lambda>(ps, h2).
            case ps of
              None \<Rightarrow> Inr (None, c1, m, h2)
            | Some parts \<Rightarrow>
                let (loc, m1, h3) = txn_begin h2 (ms div 1000) m (storage_engine c1) 3 in
                if \<not> sync_ok then Inr (None, c1, m1, h3)
                else (let txn = new_txn gid (coordinator_id c1) ms prio limit parts (length ids) loc;
                          c2 = c1\<lparr>transactions := txn # transactions c1,
                                  transaction_count := transaction_count c1 + 1,
                                  total_transactions := total_transactions c1 + 1\<rparr>;
                          (r, q, h4) = txn_priority_queue_enqueue h3 ms (priority_queue c2) txn in
                  Inr (Some gid, c2\<lparr>priority_queue := q\<rparr>, m1, h4))))))"

section \<open>Messages\<close>

definition dist_txn_send_message :: "send_callback \<Rightarrow> string \<Rightarrow> dist_txn_message \<Rightarrow> int" where
  "dist_txn_send_message cb nid msg = (case cb of Some f \<Rightarrow> f nid msg | None \<Rightarrow> DIST_TXN_SUCCESS)"

definition mk_msg ::
  "dist_msg_type \<Rightarrow> txn_ref \<Rightarrow> dist_txn_coordinator \<Rightarrow> string \<Rightarrow> int \<Rightarrow> int \<Rightarrow> dist_txn_message" where
  "mk_msg ty gid c to ms limit = \<lparr>mtype = ty, mtxn = gid, sender_id = copy_cleared (coordinator_id c),
     receiver_id = copy_cleared to, timestamp = ms div 1000, mtimeout_ms = limit\<rparr>"

section \<open>The two phases\<close>

text \<open>First locked section of \<open>dist_txn_prepare\<close>: the messages. \<open>None\<close> is the early return.\<close>

definition prepare_send ::
  "send_callback \<Rightarrow> int \<Rightarrow> dist_txn_coordinator \<Rightarrow> dist_transaction \<Rightarrow> dist_transaction option" where
  "prepare_send cb ms c txn =
     (if dstatus txn \<noteq> DIST_TXN_PREPARING then None
      else Some (txn\<lparr>dstart_time := ms div 1000,
        participants := map (\<lambda>p.
          if dist_txn_send_message cb (part_id p)
               (mk_msg DIST_MSG_PREPARE (global_txn_id txn) c (part_id p) ms (timeout_ms txn)) \<noteq> DIST_TXN_SUCCESS
          then p\<lparr>pstatus := DIST_TXN_ABORTED\<rparr>
          else p\<lparr>prepare_time := ms div 1000\<rparr>) (participants txn)\<rparr>))"

text \<open>
  Second section: the votes. One value of \<open>rand\<close> is drawn per participant still preparing;
  \<open>votes\<close> is the list of those values.
\<close>

fun collect_votes :: "int \<Rightarrow> nat list \<Rightarrow> dist_participant list \<Rightarrow> int \<times> dist_participant list" where
  "collect_votes ms vs [] = (0, [])"
| "collect_votes ms vs (p # ps) =
     (if pstatus p = DIST_TXN_PREPARING then
        (let v = (case vs of [] \<Rightarrow> 0 | x # xs \<Rightarrow> x); (n, ps') = collect_votes ms (tl vs) ps in
         if v mod 100 < 90
         then (n + 1, p\<lparr>pstatus := DIST_TXN_PREPARED, response_time := ms div 1000\<rparr> # ps')
         else (n, p\<lparr>pstatus := DIST_TXN_ABORTED, prepare_result := ''Prepare failed''\<rparr> # ps'))
      else (let (n, ps') = collect_votes ms vs ps in (n, p # ps')))"

definition prepare_vote :: "int \<Rightarrow> nat list \<Rightarrow> dist_transaction \<Rightarrow> int \<times> dist_transaction" where
  "prepare_vote ms votes txn =
     (let (n, ps) = collect_votes ms votes (participants txn);
          txn1 = txn\<lparr>participants := ps, prepared_count := prepared_count txn + n\<rparr> in
      if prepared_count txn1 = participant_count txn1
      then (DIST_TXN_SUCCESS, txn1\<lparr>dstatus := DIST_TXN_PREPARED\<rparr>)
      else (DIST_TXN_PREPARE_FAILED, txn1\<lparr>dstatus := DIST_TXN_ABORTING\<rparr>))"

definition dist_txn_prepare ::
  "send_callback \<Rightarrow> int \<Rightarrow> nat list \<Rightarrow> dist_txn_coordinator \<Rightarrow> dist_transaction \<Rightarrow> int \<times> dist_transaction" where
  "dist_txn_prepare cb ms votes c txn =
     (case prepare_send cb ms c txn of
        None \<Rightarrow> (DIST_TXN_INVALID_STATE, txn)
      | Some txn1 \<Rightarrow> prepare_vote ms votes txn1)"

text \<open>The local transaction acts on the coordinator's engine; without an engine it cannot exist.\<close>

definition with_local ::
  "dist_txn_coordinator \<Rightarrow> (kv_transaction \<Rightarrow> rbtree \<Rightarrow> txn_result) \<Rightarrow> kv_transaction \<Rightarrow>
     (int \<times> kv_transaction \<times> dist_txn_coordinator \<times> script) outcome" where
  "with_local c f loc =
     (case storage_engine c of
        None \<Rightarrow> Inl NullDeref
      | Some tree \<Rightarrow> obind (f loc tree) (\<lambda>(r, loc', tree', h).
          Inr (r, loc', c\<lparr>storage_engine := Some tree'\<rparr>, h)))"

definition commit_participants ::
  "send_callback \<Rightarrow> int \<Rightarrow> dist_txn_coordinator \<Rightarrow> dist_transaction \<Rightarrow> dist_transaction" where
  "commit_participants cb ms c txn =
     (let sent = (\<lambda>p. pstatus p = DIST_TXN_PREPARED \<and>
            dist_txn_send_message cb (part_id p)
              (mk_msg DIST_MSG_COMMIT (global_txn_id txn) c (part_id p) ms 0) = DIST_TXN_SUCCESS) in
      txn\<lparr>participants := map (\<lambda>p. if sent p then p\<lparr>pstatus := DIST_TXN_COMMITTED\<rparr> else p) (participants txn),
          committed_count := committed_count txn + int (length (filter sent (participants txn)))\<rparr>)"

definition dist_txn_commit ::
  "send_callback \<Rightarrow> script \<Rightarrow> int \<Rightarrow> dist_txn_coordinator \<Rightarrow> dist_transaction \<Rightarrow>
     (int \<times> dist_transaction \<times> dist_txn_coordinator \<times> script) outcome" where
  "dist_txn_commit cb h ms c txn =
     (if dstatus txn \<noteq> DIST_TXN_COMMITTING \<and> dstatus txn \<noteq> DIST_TXN_PREPARED
      then Inr (DIST_TXN_INVALID_STATE, txn, c, h)
      else (case local_txn txn of
        None \<Rightarrow> Inr (DIST_TXN_SUCCESS, (commit_participants cb ms c txn)\<lparr>dstatus := DIST_TXN_COMMITTED\<rparr>, c, h)
      | Some loc \<Rightarrow>
          obind (with_local c (txn_commit h (ms div 1000)) loc) (\<lambda>(r, loc', c', h1).
            let txn1 = txn\<lparr>local_txn := Some loc'\<rparr> in
            if r \<noteq> 0 then Inr (DIST_TXN_COMMIT_FAILED, txn1\<lparr>dstatus := DIST_TXN_ABORTING\<rparr>, c', h1)
            else Inr (DIST_TXN_SUCCESS,
              (commit_participants cb ms c' txn1)\<lparr>dstatus := DIST_TXN_COMMITTED\<rparr>, c', h1))))"

text \<open>The abort messages' results are ignored.\<close>

definition dist_txn_abort ::
  "script \<Rightarrow> int \<Rightarrow> dist_txn_coordinator \<Rightarrow> dist_transaction \<Rightarrow>
     (int \<times> dist_transaction \<times> dist_txn_coordinator \<times> script) outcome" where
  "dist_txn_abort h ms c txn =
     (if dstatus txn = DIST_TXN_COMMITTED then Inr (DIST_TXN_INVALID_STATE, txn, c, h)
      else obind (case local_txn txn of
          None \<Rightarrow> Inr (None, c, h)
        | Some loc \<Rightarrow> obind (with_local c (txn_rollback h (ms div 1000)) loc) (\<lambda>(r, loc', c', h1).
            Inr (Some loc', c', h1))) (\<lambda>(loc, c1, h1).
        Inr (DIST_TXN_SUCCESS,
          txn\<lparr>local_txn := loc,
              participants := map (\<lambda>p. p\<lparr>pstatus := DIST_TXN_ABORTED\<rparr>) (participants txn),
              dstatus := DIST_TXN_ABORTED\<rparr>,
          c1\<lparr>aborted_transactions := aborted_transactions c1 + 1\<rparr>, h1)))"

section \<open>Background work\<close>

text \<open>The first node with a given id, with what is before and after it.\<close>

fun span_node :: "string \<Rightarrow> dist_node list \<Rightarrow> (dist_node list \<times> dist_node \<times> dist_node list) option" where
  "span_node i [] = None"
| "span_node i (n # ns) =
     (if strcmp (node_id n) i = 0 then Some ([], n, ns)
      else map_option (\<lambda>(xs, m, ys). (n # xs, m, ys)) (span_node i ns))"

definition dist_txn_handle_message ::
  "int \<Rightarrow> dist_txn_coordinator \<Rightarrow> dist_txn_message \<Rightarrow> int \<times> dist_txn_coordinator" where
  "dist_txn_handle_message ms c msg =
     (case mtype msg of
        DIST_MSG_PREPARE_OK \<Rightarrow> (DIST_TXN_SUCCESS, c)
      | DIST_MSG_PREPARE_FAIL \<Rightarrow> (DIST_TXN_SUCCESS, c)
      | DIST_MSG_COMMIT_OK \<Rightarrow> (DIST_TXN_SUCCESS, c)
      | DIST_MSG_ABORT_OK \<Rightarrow> (DIST_TXN_SUCCESS, c)
      | DIST_MSG_HEARTBEAT \<Rightarrow>
          (DIST_TXN_SUCCESS, c\<lparr>nodes :=
             (case span_node (sender_id msg) (nodes c) of
                None \<Rightarrow> nodes c
              | Some (xs, n, ys) \<Rightarrow> xs @ n\<lparr>last_heartbeat := ms div 1000, is_alive := True\<rparr> # ys)\<rparr>)
      | _ \<Rightarrow> (DIST_TXN_ERROR, c))"

text \<open>One transaction of \<open>dist_txn_check_timeouts\<close>: marked and queued again when it is overdue.\<close>

definition check_timeout_one ::
  "script \<Rightarrow> int \<Rightarrow> dist_txn_coordinator \<Rightarrow> dist_transaction \<Rightarrow> bool \<times> dist_txn_coordinator \<times> script" where
  "check_timeout_one h ms c txn =
     (if dstatus txn \<noteq> DIST_TXN_COMMITTED \<and> dstatus txn \<noteq> DIST_TXN_ABORTED \<and>
         is_timeout ms (create_time txn) (timeout_ms txn)
      then (let txn1 = txn\<lparr>dstatus := DIST_TXN_ABORTING\<rparr>;
                (r, q, h1) = txn_priority_queue_enqueue h ms (priority_queue c) txn1 in
        (True, (put_txn c txn1)\<lparr>priority_queue := q\<rparr>, h1))
      else (False, c, h))"

fun check_timeouts_loop ::
  "script \<Rightarrow> int \<Rightarrow> dist_txn_coordinator \<Rightarrow> dist_transaction list \<Rightarrow> int \<times> dist_txn_coordinator \<times> script" where
  "check_timeouts_loop h ms c [] = (0, c, h)"
| "check_timeouts_loop h ms c (t # ts) =
     (let (hit, c1, h1) = check_timeout_one h ms c t;
          (n, c2, h2) = check_timeouts_loop h1 ms c1 ts in
      (n + (if hit then 1 else 0), c2, h2))"

definition dist_txn_check_timeouts ::
  "script \<Rightarrow> int \<Rightarrow> dist_txn_coordinator \<Rightarrow> int \<times> dist_txn_coordinator \<times> script" where
  "dist_txn_check_timeouts h ms c = check_timeouts_loop h ms c (transactions c)"

text \<open>The heartbeat messages that are sent; their results are ignored.\<close>

definition dist_txn_send_heartbeat :: "int \<Rightarrow> dist_txn_coordinator \<Rightarrow> (string \<times> dist_txn_message) list" where
  "dist_txn_send_heartbeat ms c =
     map (\<lambda>n. (node_id n, mk_msg DIST_MSG_HEARTBEAT 0 c (node_id n) ms 0)) (nodes c)"

definition dist_txn_check_node_health :: "int \<Rightarrow> dist_txn_coordinator \<Rightarrow> int \<times> dist_txn_coordinator" where
  "dist_txn_check_node_health ms c =
     (let late = (\<lambda>n. ms div 1000 - last_heartbeat n > 30) in
      (int (length (filter (\<lambda>n. late n \<and> is_alive n) (nodes c))),
       c\<lparr>nodes := map (\<lambda>n. if late n then n\<lparr>is_alive := False\<rparr> else n) (nodes c)\<rparr>))"

definition dist_txn_get_stats :: "dist_txn_coordinator \<Rightarrow> int \<times> int \<times> int \<times> int" where
  "dist_txn_get_stats c =
     (total_transactions c, committed_transactions c, aborted_transactions c, timeout_transactions c)"

definition dist_txn_set_schedule_policy ::
  "dist_txn_coordinator \<Rightarrow> txn_schedule_policy \<Rightarrow> int \<times> txn_schedule_policy" where
  "dist_txn_set_schedule_policy c policy = (DIST_TXN_SUCCESS, policy)"

text \<open>\<open>dist_txn_free\<close>: the participants and the blocks of the local transaction it releases.\<close>

definition dist_txn_free :: "dist_transaction \<Rightarrow> dist_participant list \<times> string option list list" where
  "dist_txn_free txn =
     (participants txn, case local_txn txn of None \<Rightarrow> [] | Some loc \<Rightarrow> txn_free loc)"

text \<open>
  \<open>dist_txn_coordinator_destroy\<close>: the coordinator with its threads stopped, and what is released:
  the nodes, the transactions and the queue nodes.
\<close>

definition dist_txn_coordinator_destroy ::
  "dist_txn_coordinator \<Rightarrow> dist_txn_coordinator \<times> dist_node list \<times>
     (dist_participant list \<times> string option list list) list \<times> txn_queue_node list" where
  "dist_txn_coordinator_destroy c =
     (let c1 = (if threads_running c then snd (dist_txn_coordinator_stop c) else c) in
      (c1, nodes c1, map dist_txn_free (transactions c1), txn_priority_queue_destroy (priority_queue c1)))"

section \<open>The scheduler thread\<close>

definition abort_ref ::
  "script \<Rightarrow> int \<Rightarrow> dist_txn_coordinator \<Rightarrow> dist_transaction \<Rightarrow> (dist_txn_coordinator \<times> script) outcome" where
  "abort_ref h ms c txn =
     obind (dist_txn_abort h ms c txn) (\<lambda>(r, txn', c', h1). Inr (put_txn c' txn', h1))"

text \<open>What \<open>scheduler_thread_func\<close> does with a dequeued transaction, run without interruption.\<close>

definition schedule_txn ::
  "send_callback \<Rightarrow> script \<Rightarrow> int \<Rightarrow> nat list \<Rightarrow> dist_txn_coordinator \<Rightarrow> dist_transaction \<Rightarrow>
     (dist_txn_coordinator \<times> script) outcome" where
  "schedule_txn cb h ms votes c txn =
     (if is_timeout ms (create_time txn) (timeout_ms txn)
      then obind (abort_ref h ms c txn) (\<lambda>(c1, h1).
             Inr (c1\<lparr>timeout_transactions := timeout_transactions c1 + 1\<rparr>, h1))
      else (case dstatus txn of
        DIST_TXN_PREPARING \<Rightarrow>
          (case dist_txn_prepare cb ms votes c txn of (r, txn1) \<Rightarrow>
             if r = DIST_TXN_SUCCESS
             then (let txn2 = txn1\<lparr>dstatus := DIST_TXN_COMMITTING\<rparr>;
                       (r', q', h1) = txn_priority_queue_enqueue h ms (priority_queue c) txn2 in
               Inr ((put_txn c txn2)\<lparr>priority_queue := q'\<rparr>, h1))
             else abort_ref h ms (put_txn c txn1) txn1)
      | DIST_TXN_COMMITTING \<Rightarrow>
          obind (dist_txn_commit cb h ms c txn) (\<lambda>(r, txn1, c1, h1).
            if r = DIST_TXN_SUCCESS
            then Inr ((put_txn c1 txn1)\<lparr>committed_transactions := committed_transactions c1 + 1\<rparr>, h1)
            else abort_ref h1 ms (put_txn c1 txn1) txn1)
      | _ \<Rightarrow> Inr (c, h)))"

text \<open>One round of the scheduler's loop.\<close>

definition scheduler_round ::
  "send_callback \<Rightarrow> script \<Rightarrow> int \<Rightarrow> nat list \<Rightarrow> dist_txn_coordinator \<Rightarrow> (dist_txn_coordinator \<times> script) outcome" where
  "scheduler_round cb h ms votes c0 =
     obind (txn_priority_queue_dequeue (priority_queue c0)) (\<lambda>(ref, q).
       let c = c0\<lparr>priority_queue := q\<rparr> in
       case ref of
         None \<Rightarrow> Inr (c, h)
       | Some i \<Rightarrow> (case find_txn c i of None \<Rightarrow> Inl UseAfterFree | Some txn \<Rightarrow> schedule_txn cb h ms votes c txn))"

section \<open>Interleavings\<close>

text \<open>
  The scheduler's position between its locked sections. The timeout thread and callers of
  \<open>dist_txn_begin\<close> and \<open>dist_txn_abort\<close> may run between any two of them. A new id differs from the
  ids in use, as it does until the 64-bit counter wraps. The flag \<open>nl\<close> restricts the steps to
  transactions whose local transaction could be created; \<open>dist_txn_begin\<close> goes on without one when
  there is no engine or no memory.
\<close>

datatype sched_pc =
    Idle | PrepSend txn_ref | PrepVote txn_ref | SetCommitting txn_ref | Requeue txn_ref
  | Commit txn_ref | Abort txn_ref | AbortOverdue txn_ref

inductive dstep :: "bool \<Rightarrow> dist_txn_coordinator \<times> sched_pc \<Rightarrow> dist_txn_coordinator \<times> sched_pc \<Rightarrow> bool"
  for nl :: bool where
  started: "dist_txn_begin h sync_ok ms m c prio limit ids = Inr (Some i, c', m', h') \<Longrightarrow>
    find_txn c i = None \<Longrightarrow> nl \<longrightarrow> (\<exists>t l. find_txn c' i = Some t \<and> local_txn t = Some l) \<Longrightarrow>
    dstep nl (c, pc) (c', pc)"
| overdue: "find_txn c i = Some t \<Longrightarrow> check_timeout_one h ms c t = (True, c', h') \<Longrightarrow> dstep nl (c, pc) (c', pc)"
| client_abort: "find_txn c i = Some t \<Longrightarrow> abort_ref h ms c t = Inr (c', h') \<Longrightarrow> dstep nl (c, pc) (c', pc)"
| dequeued: "txn_priority_queue_dequeue (priority_queue c) = Inr (Some i, q) \<Longrightarrow> find_txn c i = Some t \<Longrightarrow>
    dstep nl (c, Idle) (c\<lparr>priority_queue := q\<rparr>,
      if is_timeout ms (create_time t) (timeout_ms t) then AbortOverdue i
      else if dstatus t = DIST_TXN_PREPARING then PrepSend i
      else if dstatus t = DIST_TXN_COMMITTING then Commit i else Idle)"
| prep_send: "find_txn c i = Some t \<Longrightarrow> prepare_send cb ms c t = Some t' \<Longrightarrow>
    dstep nl (c, PrepSend i) (put_txn c t', PrepVote i)"
| prep_refused: "find_txn c i = Some t \<Longrightarrow> prepare_send cb ms c t = None \<Longrightarrow>
    dstep nl (c, PrepSend i) (c, Abort i)"
| prep_vote: "find_txn c i = Some t \<Longrightarrow> prepare_vote ms votes t = (r, t') \<Longrightarrow>
    dstep nl (c, PrepVote i) (put_txn c t', if r = DIST_TXN_SUCCESS then SetCommitting i else Abort i)"
| set_committing: "find_txn c i = Some t \<Longrightarrow>
    dstep nl (c, SetCommitting i) (put_txn c (t\<lparr>dstatus := DIST_TXN_COMMITTING\<rparr>), Requeue i)"
| requeued: "find_txn c i = Some t \<Longrightarrow>
    txn_priority_queue_enqueue h ms (priority_queue c) t = (r, q, h') \<Longrightarrow>
    dstep nl (c, Requeue i) (c\<lparr>priority_queue := q\<rparr>, Idle)"
| committed: "find_txn c i = Some t \<Longrightarrow> dist_txn_commit cb h ms c t = Inr (DIST_TXN_SUCCESS, t', c', h') \<Longrightarrow>
    dstep nl (c, Commit i)
      ((put_txn c' t')\<lparr>committed_transactions := committed_transactions c' + 1\<rparr>, Idle)"
| commit_failed: "find_txn c i = Some t \<Longrightarrow> dist_txn_commit cb h ms c t = Inr (r, t', c', h') \<Longrightarrow>
    r \<noteq> DIST_TXN_SUCCESS \<Longrightarrow> dstep nl (c, Commit i) (put_txn c' t', Abort i)"
| aborted: "find_txn c i = Some t \<Longrightarrow> abort_ref h ms c t = Inr (c', h') \<Longrightarrow> dstep nl (c, Abort i) (c', Idle)"
| aborted_overdue: "find_txn c i = Some t \<Longrightarrow> abort_ref h ms c t = Inr (c', h') \<Longrightarrow>
    dstep nl (c, AbortOverdue i) (c'\<lparr>timeout_transactions := timeout_transactions c' + 1\<rparr>, Idle)"

inductive_cases dstepE: "dstep nl (c, pc) (c', pc')"

section \<open>Transactions in the coordinator\<close>

lemma find_txn_id: "find_txn c i = Some t \<Longrightarrow> global_txn_id t = i"
  by (auto simp: find_txn_def find_Some_iff)

lemma find_txn_same [simp]:
  "find_txn (c\<lparr>priority_queue := q\<rparr>) = find_txn c"
  "find_txn (c\<lparr>storage_engine := e\<rparr>) = find_txn c"
  "find_txn (c\<lparr>committed_transactions := n\<rparr>) = find_txn c"
  "find_txn (c\<lparr>aborted_transactions := n\<rparr>) = find_txn c"
  "find_txn (c\<lparr>timeout_transactions := n\<rparr>) = find_txn c"
  by (simp_all add: fun_eq_iff find_txn_def)

lemma find_put_txn:
  "find_txn (put_txn c t) i =
     (if i = global_txn_id t then map_option (\<lambda>x. t) (find_txn c i) else find_txn c i)"
proof -
  have "find (\<lambda>x. global_txn_id x = i) (map (\<lambda>x. if global_txn_id x = global_txn_id t then t else x) ts) =
      (if i = global_txn_id t then map_option (\<lambda>x. t) (find (\<lambda>x. global_txn_id x = i) ts)
       else find (\<lambda>x. global_txn_id x = i) ts)" for ts
    by (induction ts) auto
  then show ?thesis by (simp add: find_txn_def put_txn_def)
qed

section \<open>What each operation does to one transaction\<close>

definition parts_in :: "dist_txn_status set \<Rightarrow> dist_transaction \<Rightarrow> bool" where
  "parts_in S t \<longleftrightarrow> (\<forall>p \<in> set (participants t). pstatus p \<in> S)"

text \<open>Ready to commit: every participant has voted yes and the local transaction is still open.\<close>

definition ready :: "dist_transaction \<Rightarrow> kv_transaction \<Rightarrow> bool" where
  "ready t l \<longleftrightarrow> parts_in {DIST_TXN_PREPARED} t \<and> status l = TXN_STATUS_ACTIVE"

definition txn_inv :: "dist_transaction \<Rightarrow> bool" where
  "txn_inv t \<longleftrightarrow> participants t \<noteq> [] \<and> participant_count t = int (length (participants t)) \<and>
     (dstatus t = DIST_TXN_PREPARING \<longrightarrow> prepared_count t = 0) \<and>
     (dstatus t = DIST_TXN_COMMITTED \<longrightarrow> parts_in {DIST_TXN_PREPARED, DIST_TXN_COMMITTED} t) \<and>
     (\<exists>l. local_txn t = Some l \<and>
        (dstatus t = DIST_TXN_COMMITTED \<longleftrightarrow> status l = TXN_STATUS_COMMITTED) \<and>
        (dstatus t = DIST_TXN_PREPARED \<or> dstatus t = DIST_TXN_COMMITTING \<longrightarrow>
           ready t l \<or> status l = TXN_STATUS_ABORTED))"

lemma collect_votes_props:
  "collect_votes ms vs ps = (n, ps') \<Longrightarrow>
     length ps' = length ps \<and> 0 \<le> n \<and> n \<le> int (length ps) \<and>
     (n = int (length ps) \<longrightarrow> (\<forall>p \<in> set ps'. pstatus p = DIST_TXN_PREPARED))"
proof (induction ms vs ps arbitrary: n ps' rule: collect_votes.induct)
  case (1 ms vs)
  then show ?case by simp
next
  case (2 ms vs p ps)
  show ?case
  proof (cases "pstatus p = DIST_TXN_PREPARING")
    case True
    obtain m qs where m: "collect_votes ms (tl vs) ps = (m, qs)" by fastforce
    from "2.IH"(1)[OF True refl m] "2.prems" True m show ?thesis
      by (auto simp: Let_def split: if_splits)
  next
    case False
    obtain m qs where m: "collect_votes ms vs ps = (m, qs)" by fastforce
    from "2.IH"(2)[OF False m] "2.prems" False m show ?thesis by auto
  qed
qed

lemma prepare_vote_inv:
  assumes "txn_inv t" "prepared_count t = 0" "dstatus t \<noteq> DIST_TXN_COMMITTED" "prepare_vote ms votes t = (r, t')"
  shows "txn_inv t' \<and> global_txn_id t' = global_txn_id t \<and> dstatus t' \<noteq> DIST_TXN_COMMITTED \<and>
    (r = DIST_TXN_SUCCESS \<longrightarrow> (\<exists>l. local_txn t' = Some l \<and> (ready t' l \<or> status l = TXN_STATUS_ABORTED)))"
proof -
  obtain n ps where v: "collect_votes ms votes (participants t) = (n, ps)" by fastforce
  note p = collect_votes_props[OF v]
  obtain l where l: "local_txn t = Some l" "status l \<noteq> TXN_STATUS_COMMITTED"
    using assms(1,3) by (auto simp: txn_inv_def)
  then have act: "status l = TXN_STATUS_ACTIVE \<or> status l = TXN_STATUS_ABORTED"
    by (cases "status l") auto
  have ne: "ps \<noteq> []" using p assms(1) by (auto simp: txn_inv_def)
  show ?thesis
  proof (cases "n = int (length (participants t))")
    case True
    then have "\<forall>p \<in> set ps. pstatus p = DIST_TXN_PREPARED" using p by simp
    with True assms v p l act ne show ?thesis
      by (auto simp: prepare_vote_def txn_inv_def ready_def parts_in_def)
  next
    case False
    with assms v p l ne show ?thesis by (auto simp: prepare_vote_def txn_inv_def)
  qed
qed

lemma with_local_SomeD:
  "with_local c f l = Inr (r, l', c', h) \<Longrightarrow>
     \<exists>tree tree'. f l tree = Inr (r, l', tree', h) \<and> c' = c\<lparr>storage_engine := Some tree'\<rparr>"
  by (auto simp: with_local_def obind_Inr_iff split: option.splits)

lemma txn_commit_status:
  "txn_commit h now l tree = Inr (r, l', tree', h') \<Longrightarrow>
     (if status l = TXN_STATUS_ACTIVE then r = 0 \<and> status l' = TXN_STATUS_COMMITTED
      else r \<noteq> 0 \<and> l' = l)"
  by (auto simp: txn_commit_def obind_Inr_iff split: if_splits)

lemma txn_rollback_status:
  "txn_rollback h now l tree = Inr (r, l', tree', h') \<Longrightarrow>
     (if status l = TXN_STATUS_ACTIVE then status l' = TXN_STATUS_ABORTED else l' = l)"
  by (auto simp: txn_rollback_def obind_Inr_iff split: if_splits)

lemma commit_participants_props:
  "parts_in {DIST_TXN_PREPARED} t \<Longrightarrow> parts_in {DIST_TXN_PREPARED, DIST_TXN_COMMITTED} (commit_participants cb ms c t)"
  "length (participants (commit_participants cb ms c t)) = length (participants t)"
  "participant_count (commit_participants cb ms c t) = participant_count t"
  "global_txn_id (commit_participants cb ms c t) = global_txn_id t"
  "local_txn (commit_participants cb ms c t) = local_txn t"
  by (auto simp: commit_participants_def parts_in_def Let_def)

lemma dist_txn_commit_inv:
  assumes "txn_inv t" "dist_txn_commit cb h ms c t = Inr (r, t', c', h')"
  shows "txn_inv t' \<and> global_txn_id t' = global_txn_id t \<and> find_txn c' = find_txn c \<and>
    (dstatus t = DIST_TXN_COMMITTED \<longrightarrow> dstatus t' = DIST_TXN_COMMITTED)"
proof (cases "dstatus t \<noteq> DIST_TXN_COMMITTING \<and> dstatus t \<noteq> DIST_TXN_PREPARED")
  case True
  with assms show ?thesis by (simp add: dist_txn_commit_def)
next
  case False
  then have "dstatus t \<noteq> DIST_TXN_COMMITTED" by auto
  obtain l where l: "local_txn t = Some l" "ready t l \<or> status l = TXN_STATUS_ABORTED"
    using assms(1) False by (auto simp: txn_inv_def)
  from False l(1) assms(2) obtain r1 l' c1 h1 where
    loc: "with_local c (txn_commit h (ms div 1000)) l = Inr (r1, l', c1, h1)"
    and res: "(if r1 \<noteq> 0 then (DIST_TXN_COMMIT_FAILED, t\<lparr>local_txn := Some l', dstatus := DIST_TXN_ABORTING\<rparr>, c1, h1)
      else (DIST_TXN_SUCCESS, (commit_participants cb ms c1 (t\<lparr>local_txn := Some l'\<rparr>))\<lparr>dstatus := DIST_TXN_COMMITTED\<rparr>, c1, h1))
      = (r, t', c', h')"
    by (auto simp: dist_txn_commit_def obind_Inr_iff Let_def split: if_splits)
  from with_local_SomeD[OF loc] obtain tree tree' where
    tc: "txn_commit h (ms div 1000) l tree = Inr (r1, l', tree', h1)" "c1 = c\<lparr>storage_engine := Some tree'\<rparr>" by blast
  note st = txn_commit_status[OF tc(1)]
  have ne: "participants t \<noteq> []" "participant_count t = int (length (participants t))"
    using assms(1) by (simp_all add: txn_inv_def)
  show ?thesis
  proof (cases "status l = TXN_STATUS_ACTIVE")
    case True
    let ?t = "commit_participants cb ms c1 (t\<lparr>local_txn := Some l'\<rparr>)"
    from True l(2) have parts: "parts_in {DIST_TXN_PREPARED} (t\<lparr>local_txn := Some l'\<rparr>)"
      by (simp add: ready_def parts_in_def)
    have t': "t' = ?t\<lparr>dstatus := DIST_TXN_COMMITTED\<rparr>" "c' = c1" using True st res by auto
    note cp = commit_participants_props[where t = "t\<lparr>local_txn := Some l'\<rparr>" and cb = cb and ms = ms and c = c1]
    have "length (participants ?t) = length (participants t)" using cp(2) by simp
    then have "participants ?t \<noteq> []" using ne(1) by auto
    with t' cp parts st True ne tc(2) show ?thesis
      by (simp add: txn_inv_def parts_in_def)
  next
    case False
    with st res l ne tc(2) \<open>dstatus t \<noteq> DIST_TXN_COMMITTED\<close> show ?thesis
      by (auto simp: txn_inv_def ready_def)
  qed
qed

lemma abort_ref_inv:
  assumes "find_txn c i = Some t" "txn_inv t" "abort_ref h ms c t = Inr (c', h')"
  shows "\<exists>t'. find_txn c' = (find_txn c)(i \<mapsto> t') \<and> txn_inv t' \<and> prepared_count t' = prepared_count t \<and>
    (if dstatus t = DIST_TXN_COMMITTED then t' = t
     else dstatus t' = DIST_TXN_ABORTED \<and> (\<exists>l. local_txn t' = Some l \<and> status l = TXN_STATUS_ABORTED))"
proof -
  have gid: "global_txn_id t = i" by (rule find_txn_id[OF assms(1)])
  obtain l where l: "local_txn t = Some l" using assms(2) by (auto simp: txn_inv_def)
  have put: "find_txn (put_txn c1 x) = (find_txn c)(i \<mapsto> x)"
    if "find_txn c1 = find_txn c" "global_txn_id x = i" for c1 x
    using that assms(1) by (auto simp: fun_eq_iff find_put_txn)
  show ?thesis
  proof (cases "dstatus t = DIST_TXN_COMMITTED")
    case True
    with assms gid have "find_txn c' = (find_txn c)(i \<mapsto> t)"
      by (auto simp: abort_ref_def dist_txn_abort_def put)
    with True assms(2) show ?thesis by auto
  next
    case False
    from assms(3) l False obtain r l' c1 where
      loc: "with_local c (txn_rollback h (ms div 1000)) l = Inr (r, l', c1, h')"
      and c': "c' = put_txn (c1\<lparr>aborted_transactions := aborted_transactions c1 + 1\<rparr>)
        (t\<lparr>local_txn := Some l', participants := map (\<lambda>p. p\<lparr>pstatus := DIST_TXN_ABORTED\<rparr>) (participants t),
           dstatus := DIST_TXN_ABORTED\<rparr>)"
      by (auto simp: abort_ref_def dist_txn_abort_def obind_Inr_iff)
    from with_local_SomeD[OF loc] obtain tree tree' where
      rb: "txn_rollback h (ms div 1000) l tree = Inr (r, l', tree', h')" "c1 = c\<lparr>storage_engine := Some tree'\<rparr>" by blast
    have "status l \<noteq> TXN_STATUS_COMMITTED" using assms(2) l False by (auto simp: txn_inv_def)
    with txn_rollback_status[OF rb(1)] have st: "status l' = TXN_STATUS_ABORTED"
      by (cases "status l") auto
    let ?t = "t\<lparr>local_txn := Some l', participants := map (\<lambda>p. p\<lparr>pstatus := DIST_TXN_ABORTED\<rparr>) (participants t),
      dstatus := DIST_TXN_ABORTED\<rparr>"
    have "find_txn c' = (find_txn c)(i \<mapsto> ?t)" using c' rb(2) gid by (simp add: put)
    moreover have "txn_inv ?t" using assms(2) st by (simp add: txn_inv_def)
    ultimately show ?thesis using False st by (intro exI[of _ ?t]) simp
  qed
qed

lemma prepare_send_inv:
  assumes "txn_inv t" "prepare_send cb ms c t = Some t'"
  shows "txn_inv t' \<and> global_txn_id t' = global_txn_id t \<and> prepared_count t' = 0 \<and>
    dstatus t' = DIST_TXN_PREPARING \<and> dstatus t = DIST_TXN_PREPARING"
  using assms by (auto simp: prepare_send_def txn_inv_def ready_def split: if_splits)

section \<open>The coordinator's invariant\<close>

fun pc_inv :: "dist_txn_coordinator \<Rightarrow> sched_pc \<Rightarrow> bool" where
  "pc_inv c (PrepVote i) \<longleftrightarrow>
     (\<exists>t. find_txn c i = Some t \<and> prepared_count t = 0 \<and> dstatus t \<noteq> DIST_TXN_COMMITTED)"
| "pc_inv c (SetCommitting i) \<longleftrightarrow>
     (\<exists>t l. find_txn c i = Some t \<and> dstatus t \<noteq> DIST_TXN_COMMITTED \<and> local_txn t = Some l \<and>
        (ready t l \<or> status l = TXN_STATUS_ABORTED))"
| "pc_inv c _ \<longleftrightarrow> True"

definition dinv :: "dist_txn_coordinator \<times> sched_pc \<Rightarrow> bool" where
  "dinv s \<longleftrightarrow> (\<forall>i t. find_txn (fst s) i = Some t \<longrightarrow> txn_inv t) \<and> pc_inv (fst s) (snd s)"

text \<open>
  A transaction changed by a step of another thread: the invariant of the scheduler's position is
  kept if the change only leads to \<open>ABORTING\<close> or to an aborted local transaction.
\<close>

definition harmless :: "dist_transaction \<Rightarrow> dist_transaction \<Rightarrow> bool" where
  "harmless t t' \<longleftrightarrow> prepared_count t' = prepared_count t \<and>
     (t' = t \<or> t' = t\<lparr>dstatus := DIST_TXN_ABORTING\<rparr> \<or>
      dstatus t' \<noteq> DIST_TXN_COMMITTED \<and> (\<exists>l. local_txn t' = Some l \<and> status l = TXN_STATUS_ABORTED))"

lemma pc_inv_other:
  assumes "pc_inv c pc" "find_txn c i = Some t" "find_txn c' = (find_txn c)(i \<mapsto> t')" "harmless t t'"
  shows "pc_inv c' pc"
  using assms by (cases pc) (auto simp: harmless_def ready_def parts_in_def)

lemma dinv_other:
  assumes "dinv (c, pc)" "find_txn c i = Some t" "find_txn c' = (find_txn c)(i \<mapsto> t')" "txn_inv t'" "harmless t t'"
  shows "dinv (c', pc)"
  using assms pc_inv_other[of c pc i t c' t'] by (auto simp: dinv_def split: if_splits)

lemma check_timeout_one_find:
  assumes "find_txn c i = Some t" "check_timeout_one h ms c t = (True, c', h')"
  shows "find_txn c' = (find_txn c)(i \<mapsto> t\<lparr>dstatus := DIST_TXN_ABORTING\<rparr>) \<and> dstatus t \<noteq> DIST_TXN_COMMITTED"
proof -
  from assms(2) obtain q where "c' = (put_txn c (t\<lparr>dstatus := DIST_TXN_ABORTING\<rparr>))\<lparr>priority_queue := q\<rparr>"
    and "dstatus t \<noteq> DIST_TXN_COMMITTED"
    by (auto simp: check_timeout_one_def Let_def split: if_splits prod.splits)
  with assms(1) find_txn_id[OF assms(1)] show ?thesis by (auto simp: fun_eq_iff find_put_txn)
qed

lemma make_participants_props:
  "make_participants h ids acc = Inr (Some ps, h') \<Longrightarrow>
     length ps = length ids + length acc"
  by (induction h ids acc rule: make_participants.induct)
    (auto simp: obind_Inr_iff Let_def split: if_splits prod.splits)

lemma txn_begin_local:
  "txn_begin h now m e lv = (Some l, m', h') \<Longrightarrow> status l = TXN_STATUS_ACTIVE"
  by (auto simp: txn_begin_def Let_def split: option.splits prod.splits if_splits)

lemma dist_txn_begin_find:
  assumes "dist_txn_begin h sync_ok ms m c prio limit ids = Inr (Some i, c', m', h')"
  shows "\<exists>t. find_txn c' = (find_txn c)(i \<mapsto> t) \<and> ids \<noteq> [] \<and> dstatus t = DIST_TXN_PREPARING \<and>
    prepared_count t = 0 \<and> participant_count t = int (length ids) \<and> length (participants t) = length ids \<and>
    (\<forall>l. local_txn t = Some l \<longrightarrow> status l = TXN_STATUS_ACTIVE)"
proof -
  obtain ok h1 where mal: "malloc h = (ok, h1)" by fastforce
  from assms mal have ids: "ids \<noteq> []" and ok by (auto simp: dist_txn_begin_def split: if_splits)
  from assms mal ids \<open>ok\<close> obtain ps h2 where mk: "make_participants h1 ids [] = Inr (ps, h2)"
    by (auto simp: dist_txn_begin_def obind_Inr_iff Let_def)
  from assms mal ids \<open>ok\<close> mk obtain parts where parts: "ps = Some parts"
    by (cases ps) (auto simp: dist_txn_begin_def Let_def)
  obtain loc m1 h3 where loc: "txn_begin h2 (ms div 1000) m (storage_engine c) 3 = (loc, m1, h3)"
    using prod_cases3 by blast
  let ?t = "new_txn (next_global_txn_id c) (coordinator_id c) ms prio limit parts (length ids) loc"
  obtain r q h4 where enq: "txn_priority_queue_enqueue h3 ms (priority_queue c) ?t = (r, q, h4)"
    using prod_cases3 by blast
  from assms mal ids \<open>ok\<close> mk parts loc enq have i: "i = next_global_txn_id c"
    and c': "c' = c\<lparr>next_global_txn_id := next_global_txn_id c + 1, transactions := ?t # transactions c,
      transaction_count := transaction_count c + 1, total_transactions := total_transactions c + 1,
      priority_queue := q\<rparr>"
    by (auto simp: dist_txn_begin_def Let_def split: if_splits)
  have "find_txn c' = (find_txn c)(i \<mapsto> ?t)"
    by (auto simp: fun_eq_iff find_txn_def c' i new_txn_def)
  moreover have "length parts = length ids" using make_participants_props mk parts by fastforce
  moreover have "\<forall>l. loc = Some l \<longrightarrow> status l = TXN_STATUS_ACTIVE" using txn_begin_local loc by blast
  ultimately show ?thesis using ids by (intro exI[of _ ?t]) (simp add: new_txn_def)
qed

lemma dstep_dinv: "dstep True (c, pc) (c', pc') \<Longrightarrow> dinv (c, pc) \<Longrightarrow> dinv (c', pc')"
proof (induction "(c, pc)" "(c', pc')" arbitrary: c pc c' pc' rule: dstep.induct)
  case (started h sync_ok ms m c prio limit ids i c' m' h' pc)
  from dist_txn_begin_find[OF started(1)] obtain t where
    t: "find_txn c' = (find_txn c)(i \<mapsto> t)" "ids \<noteq> []" "dstatus t = DIST_TXN_PREPARING" "prepared_count t = 0"
      "participant_count t = int (length ids)" "length (participants t) = length ids"
      "\<forall>l. local_txn t = Some l \<longrightarrow> status l = TXN_STATUS_ACTIVE" by blast
  with started(3) obtain l where "local_txn t = Some l" by auto
  with t have "txn_inv t" by (auto simp: txn_inv_def)
  moreover have "pc_inv c' pc"
    using started(2,4) t(1) by (cases pc) (auto simp: dinv_def)
  ultimately show ?case using started(4) t(1) by (auto simp: dinv_def split: if_splits)
next
  case (overdue c i t h ms c' h' pc)
  note f = check_timeout_one_find[OF overdue(1,2)]
  have inv: "txn_inv t" using overdue by (auto simp: dinv_def)
  with f have "txn_inv (t\<lparr>dstatus := DIST_TXN_ABORTING\<rparr>)" by (auto simp: txn_inv_def)
  with f show ?case by (intro dinv_other[OF overdue(3,1)]) (auto simp: harmless_def)
next
  case (client_abort c i t h ms c' h' pc)
  have inv: "txn_inv t" using client_abort by (auto simp: dinv_def)
  from abort_ref_inv[OF client_abort(1) inv client_abort(2)] obtain t' where
    "find_txn c' = (find_txn c)(i \<mapsto> t')" "txn_inv t'" "harmless t t'"
    by (auto simp: harmless_def split: if_splits)
  then show ?case by (rule dinv_other[OF client_abort(3,1)])
next
  case (dequeued c i q t ms)
  then show ?case by (auto simp: dinv_def)
next
  case (prep_send c i t cb ms t')
  have inv: "txn_inv t" using prep_send by (auto simp: dinv_def)
  note p = prepare_send_inv[OF inv prep_send(2)]
  with prep_send find_txn_id[OF prep_send(1)] show ?case by (auto simp: dinv_def find_put_txn)
next
  case (prep_refused c i t cb ms)
  then show ?case by (simp add: dinv_def)
next
  case (prep_vote c i t ms votes r t')
  have inv: "txn_inv t" "prepared_count t = 0" "dstatus t \<noteq> DIST_TXN_COMMITTED"
    using prep_vote by (auto simp: dinv_def)
  note p = prepare_vote_inv[OF inv prep_vote(2)]
  with prep_vote find_txn_id[OF prep_vote(1)] show ?case by (auto simp: dinv_def find_put_txn)
next
  case (set_committing c i t)
  then obtain l where l: "dstatus t \<noteq> DIST_TXN_COMMITTED" "local_txn t = Some l"
    "ready t l \<or> status l = TXN_STATUS_ABORTED" and "txn_inv t"
    by (auto simp: dinv_def)
  then have "txn_inv (t\<lparr>dstatus := DIST_TXN_COMMITTING\<rparr>)"
    by (auto simp: txn_inv_def ready_def parts_in_def)
  with set_committing find_txn_id[OF set_committing(1)] show ?case by (auto simp: dinv_def find_put_txn)
next
  case (requeued c i t h ms r q h')
  then show ?case by (simp add: dinv_def)
next
  case (committed c i t cb h ms t' c' h')
  have inv: "txn_inv t" using committed by (auto simp: dinv_def)
  note p = dist_txn_commit_inv[OF inv committed(2)]
  with committed find_txn_id[OF committed(1)] show ?case by (auto simp: dinv_def find_put_txn)
next
  case (commit_failed c i t cb h ms r t' c' h')
  have inv: "txn_inv t" using commit_failed by (auto simp: dinv_def)
  note p = dist_txn_commit_inv[OF inv commit_failed(2)]
  with commit_failed find_txn_id[OF commit_failed(1)] show ?case by (auto simp: dinv_def find_put_txn)
next
  case (aborted c i t h ms c' h')
  have inv: "txn_inv t" using aborted by (auto simp: dinv_def)
  from abort_ref_inv[OF aborted(1) inv aborted(2)] obtain t' where
    "find_txn c' = (find_txn c)(i \<mapsto> t')" "txn_inv t'" by blast
  with aborted(3) show ?case by (auto simp: dinv_def split: if_splits)
next
  case (aborted_overdue c i t h ms c' h')
  have inv: "txn_inv t" using aborted_overdue by (auto simp: dinv_def)
  from abort_ref_inv[OF aborted_overdue(1) inv aborted_overdue(2)] obtain t' where
    "find_txn c' = (find_txn c)(i \<mapsto> t')" "txn_inv t'" by blast
  with aborted_overdue(3) show ?case by (auto simp: dinv_def split: if_splits)
qed

end
