(* ===== verification/Dist_Queue.thy ===== *)
theory Dist_Queue
  imports Dist_Txn
begin

text \<open>
  The scheduling queue of \<open>src/kvserver/kv_distributed_transaction.c\<close>: what the coordinator may
  rely on, as the contract of a bounded stable priority queue, and its proof for the linked list
  of the code.
\<close>

section \<open>The contract\<close>

lemma filter_ranks:
  fixes rank :: "'a \<Rightarrow> int"
  shows "mset (filter (\<lambda>y. rank y \<ge> rank x) ys) + mset (filter (\<lambda>y. rank y < rank x) ys) = mset ys"
  by (induction ys) auto

lemma filter_class:
  fixes rank :: "'a \<Rightarrow> int"
  shows "filter (\<lambda>y. rank x \<le> rank y \<and> rank y = k) ys @ filter (\<lambda>y. rank y < rank x \<and> rank y = k) ys =
    filter (\<lambda>y. rank y = k) ys"
proof (cases "rank x \<le> k")
  case True
  then have "filter (\<lambda>y. rank y < rank x \<and> rank y = k) ys = []"
    "filter (\<lambda>y. rank x \<le> rank y \<and> rank y = k) ys = filter (\<lambda>y. rank y = k) ys"
    by (auto simp: filter_empty_conv intro: filter_cong)
  then show ?thesis by simp
next
  case False
  then have "filter (\<lambda>y. rank x \<le> rank y \<and> rank y = k) ys = []"
    "filter (\<lambda>y. rank y < rank x \<and> rank y = k) ys = filter (\<lambda>y. rank y = k) ys"
    by (auto simp: filter_empty_conv intro: filter_cong)
  then show ?thesis by simp
qed

text \<open>
  \<open>items\<close> lists what is queued, in the order it will leave: a request \<open>x\<close> is queued as \<open>node x\<close>, and
  \<open>out\<close> is what the client gets of an item. An accepted item goes behind everything
  of at least its rank and before everything of a lower one; the head is what leaves.
\<close>

locale stable_queue =
  fixes inv :: "'q \<Rightarrow> bool"
    and cap :: "'q \<Rightarrow> nat"
    and items :: "'q \<Rightarrow> 'a list"
    and rank :: "'a \<Rightarrow> int"
    and node :: "'r \<Rightarrow> 'a"
    and out :: "'a \<Rightarrow> 'b"
    and enq :: "'r \<Rightarrow> 'q \<Rightarrow> 'q option"
    and deq :: "'q \<Rightarrow> ('b \<times> 'q) option"
  assumes enq_room: "inv q \<Longrightarrow> length (items q) < cap q \<Longrightarrow>
      \<exists>q'. enq x q = Some q' \<and> inv q' \<and> cap q' = cap q \<and>
        items q' = filter (\<lambda>y. rank y \<ge> rank (node x)) (items q) @
          node x # filter (\<lambda>y. rank y < rank (node x)) (items q)"
    and enq_full: "inv q \<Longrightarrow> length (items q) \<ge> cap q \<Longrightarrow> enq x q = None"
    and deq_empty: "inv q \<Longrightarrow> items q = [] \<Longrightarrow> deq q = None"
    and deq_head: "inv q \<Longrightarrow> items q = y # ys \<Longrightarrow>
      \<exists>q'. deq q = Some (out y, q') \<and> inv q' \<and> cap q' = cap q \<and> items q' = ys"
begin

primrec enq_all :: "'r list \<Rightarrow> 'q \<Rightarrow> 'q option" where
  "enq_all [] q = Some q"
| "enq_all (x # xs) q = (case enq x q of None \<Rightarrow> None | Some q' \<Rightarrow> enq_all xs q')"

primrec drain :: "nat \<Rightarrow> 'q \<Rightarrow> 'b list" where
  "drain 0 q = []"
| "drain (Suc n) q = (case deq q of None \<Rightarrow> [] | Some (x, q') \<Rightarrow> x # drain n q')"

lemma drain_items: "inv q \<Longrightarrow> length (items q) \<le> n \<Longrightarrow> drain n q = map out (items q)"
proof (induction n arbitrary: q)
  case 0
  then show ?case by simp
next
  case (Suc n)
  show ?case
  proof (cases "items q")
    case Nil
    with Suc.prems show ?thesis by (simp add: deq_empty)
  next
    case (Cons x xs)
    with deq_head[OF Suc.prems(1)] obtain q' where
      "deq q = Some (out x, q')" "inv q'" "items q' = xs" by blast
    with Suc Cons show ?thesis by simp
  qed
qed

lemma enq_all_items:
  "inv q \<Longrightarrow> sorted_wrt (\<lambda>a b. rank a \<ge> rank b) (items q) \<Longrightarrow> length (items q) + length xs \<le> cap q \<Longrightarrow>
     \<exists>q'. enq_all xs q = Some q' \<and> inv q' \<and> cap q' = cap q \<and> sorted_wrt (\<lambda>a b. rank a \<ge> rank b) (items q') \<and>
       mset (items q') = mset (items q @ map node xs) \<and>
       (\<forall>k. filter (\<lambda>y. rank y = k) (items q') = filter (\<lambda>y. rank y = k) (items q @ map node xs))"
proof (induction xs arbitrary: q)
  case Nil
  then show ?case by simp
next
  case (Cons x xs)
  from Cons.prems have "length (items q) < cap q" by simp
  from enq_room[OF Cons.prems(1) this, of x] obtain q1 where
    q1: "enq x q = Some q1" "inv q1" "cap q1 = cap q"
      "items q1 = filter (\<lambda>y. rank y \<ge> rank (node x)) (items q) @
        node x # filter (\<lambda>y. rank y < rank (node x)) (items q)"
    by blast
  have ms: "mset (items q1) = mset (items q @ [node x])"
    using filter_ranks[of rank "node x" "items q"] by (simp add: q1(4) del: mset_filter)
  then have len: "length (items q1) = length (items q) + 1"
    using size_mset[of "items q1"] by simp
  have "sorted_wrt (\<lambda>a b. rank a \<ge> rank b) (items q1)"
    using Cons.prems(2) by (auto simp: q1(4) sorted_wrt_append sorted_wrt_filter)
  moreover have fl: "filter (\<lambda>y. rank y = k) (items q1) = filter (\<lambda>y. rank y = k) (items q @ [node x])" for k
    using filter_class[of rank "node x" k "items q"] by (auto simp: q1(4) filter_empty_conv)
  ultimately obtain q' where "enq_all xs q1 = Some q'" "inv q'" "cap q' = cap q1" "sorted_wrt (\<lambda>a b. rank a \<ge> rank b) (items q')"
    "mset (items q') = mset (items q1 @ map node xs)"
    "\<forall>k. filter (\<lambda>y. rank y = k) (items q') = filter (\<lambda>y. rank y = k) (items q1 @ map node xs)"
    using Cons.IH[of q1] Cons.prems(3) q1(2,3) len by auto
  with q1(1,3) ms fl show ?case by auto
qed

text \<open>Filling an empty queue and emptying it is a stable sort by descending rank.\<close>

lemma fill_drain_sorts:
  assumes "inv q" "items q = []" "length xs \<le> cap q"
  shows "\<exists>q'. enq_all xs q = Some q' \<and> inv q' \<and> cap q' = cap q \<and> length (items q') = length xs \<and>
    drain (length xs) q' = map out (sort_key (\<lambda>x. - rank x) (map node xs))"
proof -
  from enq_all_items[of q xs] assms obtain q' where q': "enq_all xs q = Some q'" "inv q'"
    "sorted_wrt (\<lambda>a b. rank a \<ge> rank b) (items q')" "mset (items q') = mset (map node xs)"
    "\<And>k. filter (\<lambda>y. rank y = k) (items q') = filter (\<lambda>y. rank y = k) (map node xs)" and cap: "cap q' = cap q" by auto
  have "sort_key (\<lambda>x. - rank x) (map node xs) = items q'"
  proof (rule properties_for_sort_key)
    show "filter (\<lambda>x. - rank k = - rank x) (items q') = filter (\<lambda>x. - rank k = - rank x) (map node xs)" for k
      using q'(5)[of "rank k"] by (simp add: eq_commute[of "rank k"])
    show "sorted (map (\<lambda>x. - rank x) (items q'))"
      using q'(3) by (simp add: sorted_map)
  qed (use q'(4) in simp)
  moreover have "length (items q') = length xs" using q'(4) size_mset length_map by metis
  ultimately show ?thesis using drain_items[OF q'(2), of "length xs"] q'(1,2) cap by auto
qed

end

lemma sort_key_map: "sort_key f (map g xs) = map g (sort_key (\<lambda>x. f (g x)) xs)"
proof -
  have "insort_key f (g x) (map g ys) = map g (insort_key (\<lambda>x. f (g x)) x ys)" for x ys
    by (induction ys) auto
  then show ?thesis by (induction xs) auto
qed

section \<open>The code's queue\<close>

definition pq_wf :: "txn_priority_queue \<Rightarrow> bool" where
  "pq_wf q \<longleftrightarrow> qsize q = int (length (qnodes q)) \<and> sorted_wrt (\<lambda>a b. qpriority a \<ge> qpriority b) (qnodes q)"

definition queue_node :: "int \<times> dist_transaction \<Rightarrow> txn_queue_node" where
  "queue_node r = \<lparr>qtxn = global_txn_id (snd r), qpriority = priority (snd r), queue_time = fst r div 1000\<rparr>"

text \<open>The two calls with an allocator that does not fail; a fault of \<open>dequeue\<close> would show as no result.\<close>

definition try_enqueue :: "int \<times> dist_transaction \<Rightarrow> txn_priority_queue \<Rightarrow> txn_priority_queue option" where
  "try_enqueue r q = (case txn_priority_queue_enqueue [] (fst r) q (snd r) of
     (rc, q', h) \<Rightarrow> if rc = DIST_TXN_SUCCESS then Some q' else None)"

definition try_dequeue :: "txn_priority_queue \<Rightarrow> (txn_ref \<times> txn_priority_queue) option" where
  "try_dequeue q = (case txn_priority_queue_dequeue q of
     Inr (Some i, q') \<Rightarrow> Some (i, q') | _ \<Rightarrow> None)"

primrec enqueue_all :: "(int \<times> dist_transaction) list \<Rightarrow> txn_priority_queue \<Rightarrow> txn_priority_queue option" where
  "enqueue_all [] q = Some q"
| "enqueue_all (r # rs) q = (case try_enqueue r q of None \<Rightarrow> None | Some q' \<Rightarrow> enqueue_all rs q')"

primrec dequeue_all :: "nat \<Rightarrow> txn_priority_queue \<Rightarrow> txn_ref list" where
  "dequeue_all 0 q = []"
| "dequeue_all (Suc n) q = (case try_dequeue q of None \<Rightarrow> [] | Some (i, q') \<Rightarrow> i # dequeue_all n q')"

lemma insert_after_filter:
  "sorted_wrt (\<lambda>a b. qpriority a \<ge> qpriority b) ns \<Longrightarrow>
     insert_after x ns = filter (\<lambda>y. qpriority y \<ge> qpriority x) ns @ x # filter (\<lambda>y. qpriority y < qpriority x) ns"
proof (induction ns)
  case Nil
  then show ?case by simp
next
  case (Cons n ns)
  show ?case
  proof (cases "qpriority n \<ge> qpriority x")
    case True
    with Cons show ?thesis by simp
  next
    case False
    with Cons.prems have "\<forall>y \<in> set (n # ns). qpriority y < qpriority x" by auto
    then have "filter (\<lambda>y. qpriority y \<ge> qpriority x) (n # ns) = []"
      "filter (\<lambda>y. qpriority y < qpriority x) (n # ns) = n # ns"
      unfolding filter_empty_conv filter_id_conv by auto
    with False show ?thesis by simp
  qed
qed

lemma length_insert_after [simp]: "length (insert_after x ns) = Suc (length ns)"
  by (induction ns) auto

text \<open>The head test and the loop of \<open>enqueue\<close> together are one insertion.\<close>

lemma enqueue_ok:
  assumes "qsize q < qmax q" "malloc h = (True, h1)"
  shows "txn_priority_queue_enqueue h ms q t =
    (DIST_TXN_SUCCESS, q\<lparr>qnodes := insert_after (queue_node (ms, t)) (qnodes q), qsize := qsize q + 1\<rparr>, h1)"
  using assms by (cases "qnodes q") (auto simp: txn_priority_queue_enqueue_def queue_node_def Let_def)

interpretation sq: stable_queue pq_wf "\<lambda>q. nat (qmax q)" qnodes qpriority queue_node qtxn try_enqueue try_dequeue
proof
  fix q :: txn_priority_queue and x :: "int \<times> dist_transaction"
  assume wf: "pq_wf q" and room: "length (qnodes q) < nat (qmax q)"
  let ?x = "queue_node x"
  let ?ns = "insert_after ?x (qnodes q)"
  have ns: "?ns = filter (\<lambda>y. qpriority y \<ge> qpriority ?x) (qnodes q) @ ?x # filter (\<lambda>y. qpriority y < qpriority ?x) (qnodes q)"
    using wf by (simp add: pq_wf_def insert_after_filter)
  have "sorted_wrt (\<lambda>a b. qpriority a \<ge> qpriority b) ?ns"
    using wf by (auto simp: ns pq_wf_def sorted_wrt_append sorted_wrt_filter)
  then have "pq_wf (q\<lparr>qnodes := ?ns, qsize := qsize q + 1\<rparr>)" using wf by (simp add: pq_wf_def)
  moreover have "try_enqueue x q = Some (q\<lparr>qnodes := ?ns, qsize := qsize q + 1\<rparr>)"
    using wf room by (simp add: try_enqueue_def enqueue_ok[of q "[]" "[]"] pq_wf_def)
  ultimately show "\<exists>q'. try_enqueue x q = Some q' \<and> pq_wf q' \<and> nat (qmax q') = nat (qmax q) \<and>
      qnodes q' = filter (\<lambda>y. qpriority y \<ge> qpriority ?x) (qnodes q) @ ?x # filter (\<lambda>y. qpriority y < qpriority ?x) (qnodes q)"
    using ns by auto
next
  fix q :: txn_priority_queue and x :: "int \<times> dist_transaction"
  assume "pq_wf q" "nat (qmax q) \<le> length (qnodes q)"
  then have "qmax q \<le> qsize q" by (auto simp: pq_wf_def)
  then show "try_enqueue x q = None"
    by (simp add: try_enqueue_def txn_priority_queue_enqueue_def)
next
  fix q :: txn_priority_queue
  assume "pq_wf q" "qnodes q = []"
  then show "try_dequeue q = None"
    by (simp add: try_dequeue_def txn_priority_queue_dequeue_def pq_wf_def)
next
  fix q :: txn_priority_queue and y ys
  assume "pq_wf q" "qnodes q = y # ys"
  then show "\<exists>q'. try_dequeue q = Some (qtxn y, q') \<and> pq_wf q' \<and> nat (qmax q') = nat (qmax q) \<and> qnodes q' = ys"
    by (simp add: try_dequeue_def txn_priority_queue_dequeue_def pq_wf_def)
qed

lemma queue_all_conv:
  "enqueue_all rs q = sq.enq_all rs q" "dequeue_all n q = sq.drain n q"
  by (induction rs arbitrary: q, auto split: option.split)
    (induction n arbitrary: q, auto split: option.split)

section \<open>Properties\<close>

text \<open>
  C19: the scheduling queue is a stable sort by descending priority. However many transactions are
  enqueued on a fresh queue, up to its limit, all are accepted, and dequeuing gives them back by
  falling priority and, among equal priorities, in the order they came; one more is refused with
  \<open>QUEUE_FULL\<close> and leaves the queue as it is.
\<close>

theorem queue_is_stable_priority_sort:
  assumes "txn_priority_queue_create h True limit = (Some q, h')" and "int (length rs) \<le> qmax q"
  shows "\<exists>q'. enqueue_all rs q = Some q' \<and> txn_priority_queue_size q' = int (length rs) \<and>
      dequeue_all (length rs) q' =
        map (\<lambda>r. global_txn_id (snd r)) (sort_key (\<lambda>r. - priority (snd r)) rs) \<and>
      (int (length rs) = qmax q \<longrightarrow> (\<forall>h ms t. txn_priority_queue_enqueue h ms q' t = (DIST_TXN_QUEUE_FULL, q', h)))"
proof -
  from assms(1) have q: "q = \<lparr>qnodes = [], qsize = 0, qmax = if limit \<le> 0 then 1000 else limit\<rparr>"
    by (auto simp: txn_priority_queue_create_def Let_def split: if_splits prod.splits)
  then have "pq_wf q" "qnodes q = []" and pos: "0 < qmax q" by (auto simp: pq_wf_def)
  moreover have "length rs \<le> nat (qmax q)" using assms(2) by linarith
  ultimately obtain q' where
    q': "sq.enq_all rs q = Some q'" "pq_wf q'" "nat (qmax q') = nat (qmax q)" "length (qnodes q') = length rs"
      "sq.drain (length rs) q' = map qtxn (sort_key (\<lambda>x. - qpriority x) (map queue_node rs))"
    using sq.fill_drain_sorts[of q rs] by auto
  from q'(3) pos have "qmax q' = qmax q" by auto
  with q' show ?thesis
    by (intro exI[of _ q']) (auto simp: queue_all_conv sort_key_map queue_node_def pq_wf_def
      txn_priority_queue_size_def txn_priority_queue_enqueue_def o_def)
qed

definition sample_txn :: "txn_ref \<Rightarrow> int \<Rightarrow> dist_transaction" where
  "sample_txn i prio = new_txn i ''c1'' 5000 prio 3000 [] 0 None"

theorem queue_is_stable_priority_sort_witness:
  "\<exists>q q'. txn_priority_queue_create [] True 3 = (Some q, []) \<and>
     enqueue_all [(5000, sample_txn 1 5), (5001, sample_txn 2 9), (5002, sample_txn 3 5)] q = Some q' \<and>
     dequeue_all 3 q' = [2, 1, 3] \<and>
     txn_priority_queue_enqueue [] 0 q' (sample_txn 4 1) = (DIST_TXN_QUEUE_FULL, q', [])"
proof -
  let ?rs = "[(5000, sample_txn 1 5), (5001, sample_txn 2 9), (5002, sample_txn 3 5)]"
  let ?q = "\<lparr>qnodes = [], qsize = 0, qmax = 3\<rparr>"
  have c: "txn_priority_queue_create [] True 3 = (Some ?q, [])" by code_simp
  have s: "map (\<lambda>r. global_txn_id (snd r)) (sort_key (\<lambda>r. - priority (snd r)) ?rs) = [2, 1, 3]" by code_simp
  from queue_is_stable_priority_sort[OF c, of ?rs] s c show ?thesis by (auto simp: numeral_3_eq_3)
qed

end
