(* ===== verification/Dist_Commit.thy ===== *)
theory Dist_Commit
  imports Dist_Txn
begin

text \<open>
  Two-phase commit under interleaving: what every reachable state of the coordinator of
  \<open>src/kvserver/kv_distributed_transaction.c\<close> satisfies, that a committed transaction is final,
  that the scheduler reaches the commit, and where the commit phase promises less than it says.
\<close>

section \<open>Reachable states\<close>

lemma dstep_dinv_pair: "dstep True s s' \<Longrightarrow> dinv s \<Longrightarrow> dinv s'"
  using dstep_dinv by (cases s; cases s') simp

lemma dsteps_dinv: "(dstep True)\<^sup>*\<^sup>* s s' \<Longrightarrow> dinv s \<Longrightarrow> dinv s'"
  by (induction rule: rtranclp_induct) (auto intro: dstep_dinv_pair)

lemma dinv_fresh: "transactions c = [] \<Longrightarrow> dinv (c, Idle)"
  by (simp add: dinv_def find_txn_def)

text \<open>A step leaves a committed transaction as it is.\<close>

lemma put_txn_same: "find_txn c i = Some t \<Longrightarrow> find_txn (put_txn c t) = find_txn c"
  using find_txn_id[of c i t] by (auto simp: fun_eq_iff find_put_txn)

lemma abort_ref_committed:
  assumes "find_txn c j = Some t" "find_txn c i = Some x" "dstatus x = DIST_TXN_COMMITTED"
    and "dinv (c, pc)" "abort_ref h ms c t = Inr (c', h')"
  shows "find_txn c' i = Some x"
proof -
  have "txn_inv t" using assms(1,4) by (simp add: dinv_def)
  from abort_ref_inv[OF assms(1) this assms(5)] obtain t' where
    "find_txn c' = (find_txn c)(j \<mapsto> t')" "dstatus t = DIST_TXN_COMMITTED \<longrightarrow> t' = t" by (metis (no_types, lifting))
  with assms show ?thesis by auto
qed

lemma commit_on_committed:
  "dstatus t = DIST_TXN_COMMITTED \<Longrightarrow> dist_txn_commit cb h ms c t = Inr (DIST_TXN_INVALID_STATE, t, c, h)"
  by (simp add: dist_txn_commit_def)

lemma commit_find:
  assumes "find_txn c j = Some t" "find_txn c i = Some x" "dstatus x = DIST_TXN_COMMITTED"
    and "dinv (c, pc)" "dist_txn_commit cb h ms c t = Inr (r, t', c', h')"
  shows "find_txn (put_txn c' t') i = Some x"
proof (cases "i = j")
  case True
  with assms show ?thesis by (simp add: commit_on_committed put_txn_same)
next
  case False
  have "txn_inv t" using assms(1,4) by (simp add: dinv_def)
  from dist_txn_commit_inv[OF this assms(5)] False find_txn_id[OF assms(1)] assms(2) show ?thesis
    by (simp add: find_put_txn)
qed

lemma dstep_committed:
  "dstep True s s' \<Longrightarrow> dinv s \<Longrightarrow> find_txn (fst s) i = Some x \<Longrightarrow> dstatus x = DIST_TXN_COMMITTED \<Longrightarrow>
     find_txn (fst s') i = Some x"
proof (induction rule: dstep.induct)
  case (started h sync_ok ms m c prio limit ids j c' m' h' pc)
  from dist_txn_begin_find[OF started(1)] started show ?case by auto
next
  case (overdue c j t h ms c' h' pc)
  from check_timeout_one_find[OF overdue(1,2)] overdue show ?case by auto
next
  case (client_abort c j t h ms c' h' pc)
  then show ?case using abort_ref_committed[of c j t i x] by simp
next
  case (dequeued c j q t ms)
  then show ?case by simp
next
  case (prep_send c j t cb ms t')
  have "txn_inv t" using prep_send by (simp add: dinv_def)
  from prepare_send_inv[OF this prep_send(2)] prep_send find_txn_id[OF prep_send(1)] show ?case
    by (auto simp: find_put_txn)
next
  case (prep_refused c j t cb ms)
  then show ?case by simp
next
  case (prep_vote c j t ms votes r t')
  then have "global_txn_id t' = j" "i \<noteq> j"
    using find_txn_id[OF prep_vote(1)] by (auto simp: dinv_def prepare_vote_def Let_def split: if_splits prod.splits)
  with prep_vote show ?case by (simp add: find_put_txn)
next
  case (set_committing c j t)
  then have "i \<noteq> j" by (auto simp: dinv_def)
  with set_committing find_txn_id[OF set_committing(1)] show ?case by (simp add: find_put_txn)
next
  case (requeued c j t h ms r q h')
  then show ?case by simp
next
  case (committed c j t cb h ms t' c' h')
  then show ?case using commit_find[of c j t i x] by simp
next
  case (commit_failed c j t cb h ms r t' c' h')
  then show ?case using commit_find[of c j t i x] by simp
next
  case (aborted c j t h ms c' h')
  then show ?case using abort_ref_committed[of c j t i x] by simp
next
  case (aborted_overdue c j t h ms c' h')
  then show ?case using abort_ref_committed[of c j t i x] by simp
qed

lemma dsteps_committed:
  assumes "(dstep True)\<^sup>*\<^sup>* s s'" "dinv s" "find_txn (fst s) i = Some x" "dstatus x = DIST_TXN_COMMITTED"
  shows "find_txn (fst s') i = Some x"
  using assms(1)
proof (induction rule: rtranclp_induct)
  case base
  from assms(3) show ?case .
next
  case (step y z)
  with dsteps_dinv[OF step(1) assms(2)] assms(4) show ?case by (auto intro: dstep_committed)
qed

section \<open>An undisturbed round is a sequence of steps\<close>

lemma put_put: "global_txn_id t = global_txn_id t' \<Longrightarrow> put_txn (put_txn c t) t' = put_txn c t'"
  by (auto simp: put_txn_def)

lemma put_txn_fields [simp]:
  "priority_queue (put_txn c t) = priority_queue c" "storage_engine (put_txn c t) = storage_engine c"
  by (simp_all add: put_txn_def)

lemma prepare_ids:
  "prepare_send cb ms c t = Some t1 \<Longrightarrow> global_txn_id t1 = global_txn_id t"
  "prepare_vote ms votes t = (r, t1) \<Longrightarrow> global_txn_id t1 = global_txn_id t"
  by (auto simp: prepare_send_def prepare_vote_def Let_def split: if_splits prod.splits)

text \<open>The prepare branch: send, vote, and either the mark and the requeue or the abort.\<close>

lemma prepare_round_steps:
  assumes t: "find_txn c i = Some t" and st: "dstatus t = DIST_TXN_PREPARING"
    and p: "dist_txn_prepare cb ms votes c t = (r, t1)"
  shows "(dstep nl)\<^sup>*\<^sup>* (c, PrepSend i) (put_txn c t1, if r = DIST_TXN_SUCCESS then SetCommitting i else Abort i) \<and>
    global_txn_id t1 = i"
proof -
  have gid: "global_txn_id t = i" by (rule find_txn_id[OF t])
  from p st obtain t0 where s: "prepare_send cb ms c t = Some t0" and v: "prepare_vote ms votes t0 = (r, t1)"
    by (auto simp: dist_txn_prepare_def prepare_send_def)
  note ids = prepare_ids(1)[OF s] prepare_ids(2)[OF v]
  have "dstep nl (c, PrepSend i) (put_txn c t0, PrepVote i)" by (rule dstep.prep_send[OF t s])
  moreover have "find_txn (put_txn c t0) i = Some t0" using t gid ids by (simp add: find_put_txn)
  from dstep.prep_vote[OF this v, of nl] have
    "dstep nl (put_txn c t0, PrepVote i) (put_txn c t1, if r = DIST_TXN_SUCCESS then SetCommitting i else Abort i)"
    using ids by (simp add: put_put)
  ultimately show ?thesis using gid ids by (auto intro: converse_rtranclp_into_rtranclp)
qed

lemma schedule_prepare_steps:
  assumes t: "find_txn c i = Some t" and st: "dstatus t = DIST_TXN_PREPARING"
    "\<not> is_timeout ms (create_time t) (timeout_ms t)" and r: "schedule_txn cb h ms votes c t = Inr (c', h')"
  shows "(dstep nl)\<^sup>*\<^sup>* (c, PrepSend i) (c', Idle)"
proof -
  obtain r t1 where p: "dist_txn_prepare cb ms votes c t = (r, t1)" by fastforce
  note steps = prepare_round_steps[OF t st(1) p, of nl]
  have f: "find_txn (put_txn c t1) i = Some t1" using t steps by (simp add: find_put_txn)
  show ?thesis
  proof (cases "r = DIST_TXN_SUCCESS")
    case True
    let ?t2 = "t1\<lparr>dstatus := DIST_TXN_COMMITTING\<rparr>"
    obtain r' q' h1 where e: "txn_priority_queue_enqueue h ms (priority_queue c) ?t2 = (r', q', h1)"
      using prod_cases3 by blast
    have f2: "find_txn (put_txn c ?t2) i = Some ?t2" using t steps by (simp add: find_put_txn)
    from dstep.set_committing[OF f, of nl] have
      "dstep nl (put_txn c t1, SetCommitting i) (put_txn c ?t2, Requeue i)" by (simp add: put_put)
    moreover from dstep.requeued[OF f2, of h ms r' q' h1 nl] e have
      "dstep nl (put_txn c ?t2, Requeue i) ((put_txn c ?t2)\<lparr>priority_queue := q'\<rparr>, Idle)" by simp
    moreover have "c' = (put_txn c ?t2)\<lparr>priority_queue := q'\<rparr>"
      using r st p True e by (simp add: schedule_txn_def)
    ultimately show ?thesis using steps True by (auto intro: rtranclp.rtrancl_into_rtrancl)
  next
    case False
    with r st p have "abort_ref h ms (put_txn c t1) t1 = Inr (c', h')" by (simp add: schedule_txn_def)
    from dstep.aborted[OF f this, of nl] steps False show ?thesis
      by (auto intro: rtranclp.rtrancl_into_rtrancl)
  qed
qed

lemma schedule_commit_steps:
  assumes t: "find_txn c i = Some t" and st: "dstatus t = DIST_TXN_COMMITTING"
    "\<not> is_timeout ms (create_time t) (timeout_ms t)" and r: "schedule_txn cb h ms votes c t = Inr (c', h')"
  shows "(dstep nl)\<^sup>*\<^sup>* (c, Commit i) (c', Idle)"
proof -
  from r st obtain r t1 c1 h1 where cm: "dist_txn_commit cb h ms c t = Inr (r, t1, c1, h1)"
    and res: "(if r = DIST_TXN_SUCCESS
      then Inr ((put_txn c1 t1)\<lparr>committed_transactions := committed_transactions c1 + 1\<rparr>, h1)
      else abort_ref h1 ms (put_txn c1 t1) t1) = Inr (c', h')"
    by (auto simp: schedule_txn_def obind_Inr_iff)
  show ?thesis
  proof (cases "r = DIST_TXN_SUCCESS")
    case True
    with dstep.committed[OF t, of cb h ms t1 c1 h1 nl] cm res show ?thesis by auto
  next
    case False
    have "find_txn c1 = find_txn c \<and> global_txn_id t1 = global_txn_id t" using cm False
      by (auto simp: dist_txn_commit_def obind_Inr_iff Let_def dest!: with_local_SomeD
          split: if_splits option.splits)
    then have "find_txn (put_txn c1 t1) i = Some t1" using t find_txn_id[OF t] by (simp add: find_put_txn)
    with dstep.aborted[of "put_txn c1 t1" i t1 h1 ms c' h' nl] dstep.commit_failed[OF t cm False, of nl] res False
    show ?thesis by (auto intro: converse_rtranclp_into_rtranclp)
  qed
qed

lemma scheduler_round_steps:
  assumes "scheduler_round cb h ms votes c0 = Inr (c', h')"
  shows "(dstep nl)\<^sup>*\<^sup>* (c0, Idle) (c', Idle)"
proof -
  from assms obtain ref q where deq: "txn_priority_queue_dequeue (priority_queue c0) = Inr (ref, q)"
    by (auto simp: scheduler_round_def obind_Inr_iff)
  let ?c = "c0\<lparr>priority_queue := q\<rparr>"
  show ?thesis
  proof (cases ref)
    case None
    with deq have "q = priority_queue c0"
      by (auto simp: txn_priority_queue_dequeue_def split: if_splits list.splits)
    with None deq assms show ?thesis by (simp add: scheduler_round_def)
  next
    case (Some i)
    with assms deq obtain t where t: "find_txn ?c i = Some t"
      and rd: "schedule_txn cb h ms votes ?c t = Inr (c', h')"
      by (auto simp: scheduler_round_def split: option.splits)
    note first = dstep.dequeued[OF deq[unfolded Some], of t nl ms]
    have "(dstep nl)\<^sup>*\<^sup>* (?c, if is_timeout ms (create_time t) (timeout_ms t) then AbortOverdue i
      else if dstatus t = DIST_TXN_PREPARING then PrepSend i
      else if dstatus t = DIST_TXN_COMMITTING then Commit i else Idle) (c', Idle)"
    proof (cases "is_timeout ms (create_time t) (timeout_ms t)")
      case True
      with rd dstep.aborted_overdue[OF t, of h ms _ h' nl] show ?thesis
        by (auto simp: schedule_txn_def obind_Inr_iff)
    next
      case False
      with schedule_prepare_steps[OF t _ False rd, of nl] schedule_commit_steps[OF t _ False rd, of nl] rd
      show ?thesis by (auto simp: schedule_txn_def split: dist_txn_status.splits)
    qed
    with first t show ?thesis by (auto intro: converse_rtranclp_into_rtranclp)
  qed
qed

section \<open>Safety\<close>


text \<open>A run: one transaction with two participants on an empty engine, two rounds of the scheduler.\<close>

definition sample_coord :: dist_txn_coordinator where
  "sample_coord = fst (snd (dist_txn_coordinator_init [] True True ''c1''
     (case kv_store_rbtree_create [] of Inl e \<Rightarrow> None | Inr (r, tree, h) \<Rightarrow> Some tree)
     \<lparr>coordinator_id = [], is_active = False, storage_engine = None, nodes = [], node_count = 0,
      transactions = [], transaction_count = 0, next_global_txn_id = 0,
      priority_queue = \<lparr>qnodes = [], qsize = 0, qmax = 0\<rparr>, total_transactions = 0,
      committed_transactions = 0, aborted_transactions = 0, timeout_transactions = 0, threads_running = False\<rparr>))"

definition sample_started :: "txn_ref option \<times> dist_txn_coordinator \<times> txn_manager \<times> script" where
  "sample_started = (case dist_txn_begin [] True 5000
      \<lparr>next_txn_id = 1, txn_count = 0, default_isolation = TXN_ISOLATION_READ_COMMITTED\<rparr>
      sample_coord 5 30000 [''n1'', ''n2''] of Inl e \<Rightarrow> (None, sample_coord, undefined, []) | Inr x \<Rightarrow> x)"

definition sample_round :: "nat list \<Rightarrow> dist_txn_coordinator \<Rightarrow> dist_txn_coordinator" where
  "sample_round votes c = (case scheduler_round None [] 5100 votes c of Inl e \<Rightarrow> c | Inr (c', h) \<Rightarrow> c')"

definition sample_final :: dist_txn_coordinator where
  "sample_final = sample_round [] (sample_round [10, 20] (fst (snd sample_started)))"

lemma sample_round_steps: "(dstep nl)\<^sup>*\<^sup>* (c, Idle) (sample_round votes c, Idle)"
  by (auto simp: sample_round_def split: sum.split intro: scheduler_round_steps)

lemma sample_final_reached: "(dstep True)\<^sup>*\<^sup>* (sample_coord, Idle) (sample_final, Idle)"
proof -
  have b: "dist_txn_begin [] True 5000
      \<lparr>next_txn_id = 1, txn_count = 0, default_isolation = TXN_ISOLATION_READ_COMMITTED\<rparr>
      sample_coord 5 30000 [''n1'', ''n2''] =
      Inr (Some 1, fst (snd sample_started), fst (snd (snd sample_started)), [])" by code_simp
  have n: "find_txn sample_coord 1 = None" by code_simp
  have l: "(case find_txn (fst (snd sample_started)) 1 of None \<Rightarrow> False | Some t \<Rightarrow> local_txn t \<noteq> None)" by code_simp
  have "dstep True (sample_coord, Idle) (fst (snd sample_started), Idle)"
    by (rule dstep.started[OF b n]) (use l in \<open>auto split: option.splits\<close>)
  then show ?thesis unfolding sample_final_def
    by (meson converse_rtranclp_into_rtranclp rtranclp_trans sample_round_steps)
qed

lemma sample_final_txn:
  "find_txn sample_final 1 = Some (hd (transactions sample_final))"
  "dstatus (hd (transactions sample_final)) = DIST_TXN_COMMITTED"
  "transactions sample_coord = []"
  by code_simp+



definition sample_abort :: dist_txn_coordinator where
  "sample_abort = (case abort_ref [] 6000 sample_final (hd (transactions sample_final)) of
     Inl e \<Rightarrow> sample_final | Inr (c, h) \<Rightarrow> c)"


section \<open>Progress\<close>

lemma collect_votes_yes:
  "\<forall>p \<in> set ps. pstatus p = DIST_TXN_PREPARING \<Longrightarrow> \<forall>v \<in> set vs. v mod 100 < 90 \<Longrightarrow>
     collect_votes ms vs ps =
       (int (length ps), map (\<lambda>p. p\<lparr>pstatus := DIST_TXN_PREPARED, response_time := ms div 1000\<rparr>) ps)"
proof (induction ms vs ps rule: collect_votes.induct)
  case (1 ms vs)
  then show ?case by simp
next
  case (2 ms vs p ps)
  then show ?case by (cases vs) auto
qed

lemma prepare_yes:
  assumes "dstatus t = DIST_TXN_PREPARING" "\<forall>p \<in> set (participants t). pstatus p = DIST_TXN_PREPARING"
    and "participant_count t = int (length (participants t))" "prepared_count t = 0"
    and "\<forall>v \<in> set votes. v mod 100 < 90" "\<forall>n m. dist_txn_send_message cb n m = DIST_TXN_SUCCESS"
  shows "\<exists>t1. dist_txn_prepare cb ms votes c t = (DIST_TXN_SUCCESS, t1) \<and> parts_in {DIST_TXN_PREPARED} t1 \<and>
    global_txn_id t1 = global_txn_id t \<and> local_txn t1 = local_txn t \<and> priority t1 = priority t \<and>
    create_time t1 = create_time t \<and> timeout_ms t1 = timeout_ms t"
proof -
  let ?ps = "map (\<lambda>p. p\<lparr>prepare_time := ms div 1000\<rparr>) (participants t)"
  have "collect_votes ms votes ?ps =
    (int (length ?ps), map (\<lambda>p. p\<lparr>pstatus := DIST_TXN_PREPARED, response_time := ms div 1000\<rparr>) ?ps)"
    using assms(2,5) by (intro collect_votes_yes) auto
  with assms show ?thesis
    by (simp add: dist_txn_prepare_def prepare_send_def prepare_vote_def parts_in_def)
qed

lemma commit_participants_all:
  assumes "parts_in {DIST_TXN_PREPARED} t" "\<forall>n m. dist_txn_send_message cb n m = DIST_TXN_SUCCESS"
  shows "parts_in {DIST_TXN_COMMITTED} (commit_participants cb ms c t)"
  using assms by (simp add: parts_in_def commit_participants_def Let_def)


definition sample_c :: dist_txn_coordinator where
  "sample_c = fst (snd sample_started)"

definition sample_t :: dist_transaction where
  "sample_t = hd (transactions sample_c)"

definition sample_local :: kv_transaction where
  "sample_local = (case local_txn sample_t of Some l \<Rightarrow> l)"

definition sample_engine :: rbtree where
  "sample_engine = (case storage_engine sample_c of Some tree \<Rightarrow> tree)"

lemma sample_c_facts:
  "find_txn sample_c 1 = Some sample_t" "dstatus sample_t = DIST_TXN_PREPARING" "prepared_count sample_t = 0"
  "\<forall>p \<in> set (participants sample_t). pstatus p = DIST_TXN_PREPARING"
  "participant_count sample_t = int (length (participants sample_t))"
  "priority_queue sample_c =
     \<lparr>qnodes = [\<lparr>qtxn = 1, qpriority = 5, queue_time = 5\<rparr>], qsize = 1, qmax = 1000\<rparr>"
  "\<not> is_timeout 5100 (create_time sample_t) (timeout_ms sample_t)"
  "local_txn sample_t = Some sample_local" "status sample_local = TXN_STATUS_ACTIVE"
  "isolation_level sample_local \<noteq> TXN_ISOLATION_READ_UNCOMMITTED"
  "storage_engine sample_c = Some sample_engine"
  "txn_commit [] (5100 div 1000) sample_local sample_engine =
     Inr (0, sample_local\<lparr>status := TXN_STATUS_COMMITTED, end_time := 5\<rparr>, sample_engine, [])"
  by code_simp+


lemma collect_votes_no:
  "\<forall>p \<in> set ps. pstatus p = DIST_TXN_PREPARING \<Longrightarrow> j < length ps \<Longrightarrow> j < length vs \<Longrightarrow> vs ! j mod 100 \<ge> 90 \<Longrightarrow>
     fst (collect_votes ms vs ps) < int (length ps)"
proof (induction ms vs ps arbitrary: j rule: collect_votes.induct)
  case (1 ms vs)
  then show ?case by simp
next
  case (2 ms vs p ps)
  then obtain v vs' where vs: "vs = v # vs'" by (cases vs) auto
  obtain n ps' where c: "collect_votes ms vs' ps = (n, ps')" by fastforce
  note bound = collect_votes_props[OF c]
  show ?case
  proof (cases j)
    case 0
    with 2 vs c bound show ?thesis by simp
  next
    case (Suc k)
    with "2.IH"(1)[OF _ refl, of k] "2.prems" vs have "fst (collect_votes ms vs' ps) < int (length ps)" by simp
    with "2.prems" vs c show ?thesis by simp
  qed
qed

lemma collect_votes_asked:
  "fst (collect_votes ms vs ps) \<le> int (length (filter (\<lambda>p. pstatus p = DIST_TXN_PREPARING) ps))"
  by (induction ms vs ps rule: collect_votes.induct) (auto simp: Let_def split: prod.splits)

lemma refused_votes:
  assumes "\<forall>p \<in> set ps. pstatus p = DIST_TXN_PREPARING"
    and "(\<exists>p \<in> set ps. \<forall>m. dist_txn_send_message cb (part_id p) m \<noteq> DIST_TXN_SUCCESS) \<or>
      (\<forall>a m. dist_txn_send_message cb a m = DIST_TXN_SUCCESS) \<and>
      (\<exists>j < length ps. j < length votes \<and> votes ! j mod 100 \<ge> 90)"
  shows "fst (collect_votes ms votes
    (map (\<lambda>p. if dist_txn_send_message cb (part_id p) (M p) \<noteq> DIST_TXN_SUCCESS
       then p\<lparr>pstatus := DIST_TXN_ABORTED\<rparr> else p\<lparr>prepare_time := now\<rparr>) ps)) < int (length ps)"
    (is "fst (collect_votes ms votes ?ps) < _")
  using assms(2)
proof
  assume "\<exists>p \<in> set ps. \<forall>m. dist_txn_send_message cb (part_id p) m \<noteq> DIST_TXN_SUCCESS"
  then have "\<exists>p \<in> set ?ps. pstatus p \<noteq> DIST_TXN_PREPARING" by force
  then have "length (filter (\<lambda>p. pstatus p = DIST_TXN_PREPARING) ?ps) < length ?ps"
    by (metis (mono_tags, lifting) length_filter_less)
  with collect_votes_asked[of ms votes ?ps] show ?thesis by simp
next
  assume "(\<forall>a m. dist_txn_send_message cb a m = DIST_TXN_SUCCESS) \<and>
    (\<exists>j < length ps. j < length votes \<and> votes ! j mod 100 \<ge> 90)"
  then obtain j where "j < length ?ps" "j < length votes" "votes ! j mod 100 \<ge> 90"
    and "\<forall>p \<in> set ?ps. pstatus p = DIST_TXN_PREPARING" using assms(1) by auto
  from collect_votes_no[OF this(4,1,2,3), of ms] show ?thesis by simp
qed

lemma abort_ref_active:
  assumes "find_txn c i = Some t0" "global_txn_id t = i" "dstatus t \<noteq> DIST_TXN_COMMITTED" "local_txn t = Some l"
    "status l = TXN_STATUS_ACTIVE" "isolation_level l \<noteq> TXN_ISOLATION_READ_UNCOMMITTED" "storage_engine c = Some tree"
  shows "\<exists>c' t'. abort_ref h ms c t = Inr (c', h) \<and> find_txn c' i = Some t' \<and> dstatus t' = DIST_TXN_ABORTED \<and>
    (\<forall>p \<in> set (participants t'). pstatus p = DIST_TXN_ABORTED) \<and>
    local_txn t' = Some (l\<lparr>status := TXN_STATUS_ABORTED, end_time := ms div 1000\<rparr>) \<and>
    storage_engine c' = storage_engine c \<and> priority_queue c' = priority_queue c \<and>
    aborted_transactions c' = aborted_transactions c + 1"
  using assms by (simp add: abort_ref_def dist_txn_abort_def with_local_def txn_rollback_def find_put_txn)
    (simp add: put_txn_def)

text \<open>
  C6: one refusal aborts. When a prepare message cannot be sent to some participant, or all are sent
  and some participant votes no, the round that prepares the transaction ends with it aborted: every
  participant is marked aborted, the local transaction is rolled back without touching the engine, the
  transaction is counted as aborted once and is not queued again.
\<close>

theorem refusal_aborts:
  assumes "find_txn c i = Some t" "dstatus t = DIST_TXN_PREPARING" "prepared_count t = 0"
    and "\<forall>p \<in> set (participants t). pstatus p = DIST_TXN_PREPARING"
    and "participant_count t = int (length (participants t))"
    and "priority_queue c = \<lparr>qnodes = [n], qsize = 1, qmax = limit\<rparr>" "qtxn n = i"
    and "\<not> is_timeout ms (create_time t) (timeout_ms t)"
    and "local_txn t = Some l" "status l = TXN_STATUS_ACTIVE"
    "isolation_level l \<noteq> TXN_ISOLATION_READ_UNCOMMITTED" "storage_engine c = Some tree"
    and refused: "(\<exists>p \<in> set (participants t). \<forall>m. dist_txn_send_message cb (part_id p) m \<noteq> DIST_TXN_SUCCESS) \<or>
      (\<forall>a m. dist_txn_send_message cb a m = DIST_TXN_SUCCESS) \<and>
      (\<exists>j < length (participants t). j < length votes \<and> votes ! j mod 100 \<ge> 90)"
  shows "\<exists>c' t'. scheduler_round cb h ms votes c = Inr (c', h) \<and> find_txn c' i = Some t' \<and>
    dstatus t' = DIST_TXN_ABORTED \<and> (\<forall>p \<in> set (participants t'). pstatus p = DIST_TXN_ABORTED) \<and>
    local_txn t' = Some (l\<lparr>status := TXN_STATUS_ABORTED, end_time := ms div 1000\<rparr>) \<and>
    storage_engine c' = Some tree \<and> aborted_transactions c' = aborted_transactions c + 1 \<and>
    qnodes (priority_queue c') = []"
proof -
  let ?c = "c\<lparr>priority_queue := \<lparr>qnodes = [], qsize = 0, qmax = limit\<rparr>\<rparr>"
  let ?ps = "map (\<lambda>p. if dist_txn_send_message cb (part_id p) (mk_msg DIST_MSG_PREPARE (global_txn_id t) ?c
      (part_id p) ms (timeout_ms t)) \<noteq> DIST_TXN_SUCCESS then p\<lparr>pstatus := DIST_TXN_ABORTED\<rparr>
    else p\<lparr>prepare_time := ms div 1000\<rparr>) (participants t)"
  have "fst (collect_votes ms votes ?ps) < int (length ?ps)"
    using refused_votes[OF assms(4) refused, where M = "\<lambda>p. mk_msg DIST_MSG_PREPARE (global_txn_id t) ?c
      (part_id p) ms (timeout_ms t)"] by simp
  moreover obtain k qs where kq: "collect_votes ms votes ?ps = (k, qs)" by fastforce
  ultimately have k: "k \<noteq> int (length (participants t))" by simp
  let ?t1 = "t\<lparr>dstart_time := ms div 1000, participants := qs, prepared_count := k, dstatus := DIST_TXN_ABORTING\<rparr>"
  have p: "dist_txn_prepare cb ms votes ?c t = (DIST_TXN_PREPARE_FAILED, ?t1)"
    using assms(2,3,5) k kq by (simp add: dist_txn_prepare_def prepare_send_def prepare_vote_def cong: if_cong)
  have gid: "global_txn_id t = i" by (rule find_txn_id[OF assms(1)])
  have f1: "find_txn (put_txn ?c ?t1) i = Some ?t1" using assms(1) gid by (simp add: find_put_txn)
  have "scheduler_round cb h ms votes c = abort_ref h ms (put_txn ?c ?t1) ?t1"
    using assms(1,2,6,7,8) p by (simp add: scheduler_round_def schedule_txn_def txn_priority_queue_dequeue_def)
  moreover note abort_ref_active[OF f1, of ?t1 l tree h ms]
  moreover have "aborted_transactions (put_txn ?c ?t1) = aborted_transactions c" by (simp add: put_txn_def)
  ultimately show ?thesis using assms(9-12) gid by auto
qed

theorem refusal_aborts_witness:
  "\<exists>c' t'. scheduler_round None [] 5100 [10, 95] sample_c = Inr (c', []) \<and> find_txn c' 1 = Some t' \<and>
     dstatus t' = DIST_TXN_ABORTED \<and> storage_engine c' = Some sample_engine"
proof -
  have "length (participants sample_t) = 2" by code_simp
  then have "\<exists>j < length (participants sample_t). j < length [10, 95 :: nat] \<and> [10, 95] ! j mod 100 \<ge> (90 :: nat)"
    by (intro exI[of _ 1]) simp
  then show ?thesis
    using refusal_aborts[OF sample_c_facts(1-6) _ sample_c_facts(7-11), of None "[10, 95]" "[]"]
    by (auto simp: dist_txn_send_message_def)
qed

section \<open>Where the commit phase promises less\<close>

text \<open>
  the commit phase ignores lost messages. A prepared transaction whose commit message cannot be
  sent to some participant is still marked committed and reported as a success: that participant
  stays prepared, is not counted as committed, and nothing is left to tell it later, since a committed
  transaction never changes again.
\<close>

theorem commit_ignores_lost_messages:
  assumes "dstatus t = DIST_TXN_COMMITTING" "p \<in> set (participants t)" "pstatus p = DIST_TXN_PREPARED"
    and "\<forall>m. dist_txn_send_message cb (part_id p) m \<noteq> DIST_TXN_SUCCESS"
    and "local_txn t = Some l" "status l = TXN_STATUS_ACTIVE" "storage_engine c = Some tree"
    and "txn_commit h (ms div 1000) l tree = Inr (r, l', tree', h')"
  shows "\<exists>t' c'. dist_txn_commit cb h ms c t = Inr (DIST_TXN_SUCCESS, t', c', h') \<and>
    dstatus t' = DIST_TXN_COMMITTED \<and> p \<in> set (participants t') \<and>
    committed_count t' < committed_count t + int (length (participants t)) \<and> priority_queue c' = priority_queue c"
proof -
  let ?c = "c\<lparr>storage_engine := Some tree'\<rparr>"
  let ?sent = "\<lambda>p. pstatus p = DIST_TXN_PREPARED \<and> dist_txn_send_message cb (part_id p)
    (mk_msg DIST_MSG_COMMIT (global_txn_id t) ?c (part_id p) ms 0) = DIST_TXN_SUCCESS"
  have "\<not> ?sent p" using assms(4) by simp
  from length_filter_less[of p "participants t" ?sent, OF assms(2) this]
  have "length (filter ?sent (participants t)) < length (participants t)" .
  moreover have "p \<in> set (map (\<lambda>p. if ?sent p then p\<lparr>pstatus := DIST_TXN_COMMITTED\<rparr> else p) (participants t))"
    using assms(2) \<open>\<not> ?sent p\<close> by force
  moreover have "r = 0" using txn_commit_status[OF assms(8)] assms(6) by simp
  ultimately show ?thesis using assms(1,5,7,8)
    by (simp add: dist_txn_commit_def with_local_def commit_participants_def Let_def)
qed

theorem commit_ignores_lost_messages_witness:
  "\<exists>t' c'. dist_txn_commit (Some (\<lambda>n m. if n = ''n2'' then -1 else 0)) [] 5100
      (sample_round [10, 20] sample_c) (hd (transactions (sample_round [10, 20] sample_c))) =
      Inr (DIST_TXN_SUCCESS, t', c', []) \<and> dstatus t' = DIST_TXN_COMMITTED"
proof -
  let ?c = "sample_round [10, 20] sample_c"
  let ?t = "hd (transactions ?c)"
  let ?p = "hd (participants ?t)"
  have "dstatus ?t = DIST_TXN_COMMITTING" "?p \<in> set (participants ?t)" "pstatus ?p = DIST_TXN_PREPARED"
    and n: "part_id ?p = ''n2''" and "local_txn ?t = Some sample_local" "storage_engine ?c = Some sample_engine" by code_simp+
  moreover have "\<forall>m. dist_txn_send_message (Some (\<lambda>n m. if n = ''n2'' then -1 else 0)) (part_id ?p) m \<noteq> DIST_TXN_SUCCESS"
    using n by (simp add: dist_txn_send_message_def)
  ultimately show ?thesis
    using commit_ignores_lost_messages sample_c_facts(9,12) by blast
qed

text \<open>
  A race. The coordinator has no engine, so its transactions have no local part. Between the prepare
  phase and the scheduler's assignment of \<open>COMMITTING\<close> a client aborts.
\<close>

definition race_coord :: dist_txn_coordinator where
  "race_coord = sample_coord\<lparr>storage_engine := None\<rparr>"

definition race_started :: dist_txn_coordinator where
  "race_started = (case dist_txn_begin [] True 5000
      \<lparr>next_txn_id = 1, txn_count = 0, default_isolation = TXN_ISOLATION_READ_COMMITTED\<rparr>
      race_coord 5 30000 [''n1'', ''n2''] of Inr (i, c, m, h) \<Rightarrow> c)"

definition race_prepared :: dist_txn_coordinator where
  "race_prepared = (let c = race_started\<lparr>priority_queue := \<lparr>qnodes = [], qsize = 0, qmax = 1000\<rparr>\<rparr> in
     put_txn c (snd (dist_txn_prepare None 5100 [10, 20] c (hd (transactions c)))))"

definition race_aborted :: dist_txn_coordinator where
  "race_aborted = (case abort_ref [] 5100 race_prepared (hd (transactions race_prepared)) of Inr (c, h) \<Rightarrow> c)"

definition race_marked :: dist_txn_coordinator where
  "race_marked = put_txn race_aborted ((hd (transactions race_aborted))\<lparr>dstatus := DIST_TXN_COMMITTING\<rparr>)"

definition race_requeued :: dist_txn_coordinator where
  "race_requeued = race_marked\<lparr>priority_queue :=
     fst (snd (txn_priority_queue_enqueue [] 5100 (priority_queue race_marked) (hd (transactions race_marked))))\<rparr>"

definition race_final :: dist_txn_coordinator where
  "race_final = sample_round [] race_requeued"

lemma race_facts:
  "find_txn race_coord 1 = None"
  "txn_priority_queue_dequeue (priority_queue race_started) =
     Inr (Some 1, \<lparr>qnodes = [], qsize = 0, qmax = 1000\<rparr>)"
  "find_txn race_started 1 = Some (hd (transactions race_started))"
  "dstatus (hd (transactions race_started)) = DIST_TXN_PREPARING"
  "\<not> is_timeout 5100 (create_time (hd (transactions race_started))) (timeout_ms (hd (transactions race_started)))"
  "fst (dist_txn_prepare None 5100 [10, 20] (race_started\<lparr>priority_queue := \<lparr>qnodes = [], qsize = 0, qmax = 1000\<rparr>\<rparr>)
     (hd (transactions race_started))) = DIST_TXN_SUCCESS"
  "find_txn race_prepared 1 = Some (hd (transactions race_prepared))"
  "abort_ref [] 5100 race_prepared (hd (transactions race_prepared)) = Inr (race_aborted, [])"
  "find_txn race_aborted 1 = Some (hd (transactions race_aborted))"
  "find_txn race_marked 1 = Some (hd (transactions race_marked))"
  by code_simp+

lemma race_reached: "(dstep False)\<^sup>*\<^sup>* (race_coord, Idle) (race_final, Idle)"
proof -
  let ?D = "(dstep False)\<^sup>*\<^sup>*"
  let ?c = "race_started\<lparr>priority_queue := \<lparr>qnodes = [], qsize = 0, qmax = 1000\<rparr>\<rparr>"
  have b: "dist_txn_begin [] True 5000
      \<lparr>next_txn_id = 1, txn_count = 0, default_isolation = TXN_ISOLATION_READ_COMMITTED\<rparr>
      race_coord 5 30000 [''n1'', ''n2''] = Inr (Some 1, race_started,
      \<lparr>next_txn_id = 1, txn_count = 0, default_isolation = TXN_ISOLATION_READ_COMMITTED\<rparr>, [])" by code_simp
  have "?D (race_coord, Idle) (race_started, Idle)"
    using race_facts(1) by (auto intro: dstep.started[OF b])
  also have "?D (race_started, Idle) (?c, PrepSend 1)"
    using dstep.dequeued[OF race_facts(2,3), of False 5100] race_facts(4,5) by auto
  also have "?D (?c, PrepSend 1) (race_prepared, SetCommitting 1)"
    using prepare_round_steps[of ?c 1 _ None 5100 "[10, 20]" DIST_TXN_SUCCESS _ False] race_facts(3,4,6)
    by (simp add: race_prepared_def prod_eq_iff Let_def)
  also have "?D (race_prepared, SetCommitting 1) (race_aborted, SetCommitting 1)"
    by (intro r_into_rtranclp dstep.client_abort[OF race_facts(7,8)])
  also have "?D (race_aborted, SetCommitting 1) (race_marked, Requeue 1)"
    unfolding race_marked_def by (intro r_into_rtranclp dstep.set_committing race_facts(9))
  also have "?D (race_marked, Requeue 1) (race_requeued, Idle)"
    unfolding race_requeued_def
    by (intro r_into_rtranclp dstep.requeued[OF race_facts(10)]) (simp add: prod_eq_iff)
  also have "?D (race_requeued, Idle) (race_final, Idle)"
    unfolding race_final_def by (rule sample_round_steps)
  finally show ?thesis .
qed

lemma race_final_facts:
  "transactions race_coord = []" "find_txn race_final 1 = Some (hd (transactions race_final))"
  "dstatus (hd (transactions race_final)) = DIST_TXN_COMMITTED"
  "list_all (\<lambda>p. pstatus p = DIST_TXN_ABORTED) (participants (hd (transactions race_final)))"
  "aborted_transactions race_final = 1" "committed_transactions race_final = 1"
  by code_simp+

text \<open>
  C39: a client's abort can be overwritten. On a coordinator without an engine, a reachable state holds
  a transaction that the client aborted, with every participant told to abort, and that the scheduler
  nevertheless committed and counted as committed: the scheduler sets \<open>COMMITTING\<close> after the prepare
  phase without looking at the status again. With a local transaction its refusal to commit prevents this.
\<close>

theorem abort_overwritten_by_scheduler:
  "\<exists>c t. (dstep False)\<^sup>*\<^sup>* (race_coord, Idle) (c, Idle) \<and> transactions race_coord = [] \<and> find_txn c 1 = Some t \<and>
     dstatus t = DIST_TXN_COMMITTED \<and> list_all (\<lambda>p. pstatus p = DIST_TXN_ABORTED) (participants t) \<and>
     aborted_transactions c = 1 \<and> committed_transactions c = 1"
  using race_reached race_final_facts by blast

end
