(* ===== verification/BTree.thy ===== *)
theory BTree
  imports KV_Interface "HOL-Library.Word"
begin

text \<open>
  The B+-tree engine, \<open>src/kvserver/kvstore_btree.c\<close>, and its adapter to string keys,
  \<open>src/kvserver/btree_adapter.c\<close>.

  A node is a leaf with its entries or an internal node with its keys and children; a value that
  the code stores as \<open>NULL\<close> is \<open>None\<close>. The leaves form a doubly linked list in the code; a
  leaf has an address here, and the list is the sequence of the addresses (\<open>leaf_chain\<close>).
  Parent pointers are the path from a node to the root. All nodes of a tree have the tree's order.
  The version counters of nodes and tree and the node locks are left out: nothing reads them, and every
  operation runs under the tree's lock.

  Allocation. A call of \<open>pthread_rwlock_init\<close> takes one outcome of the allocator script like an
  allocation. Where the code returns before it has changed anything, so does the model. Where it
  goes on with a null key, or returns between two dependent updates (entries moved to a node that
  no parent refers to), the result is the fault \<open>Torn\<close>.
\<close>

section \<open>Types\<close>

abbreviation BTREE_DEFAULT_ORDER :: int where "BTREE_DEFAULT_ORDER \<equiv> 100"
abbreviation BTREE_MIN_ORDER :: int where "BTREE_MIN_ORDER \<equiv> 3"
abbreviation BTREE_MAX_ORDER :: int where "BTREE_MAX_ORDER \<equiv> 1000"
abbreviation BTREE_KEY_MAX_LEN :: nat where "BTREE_KEY_MAX_LEN \<equiv> 256"
abbreviation BTREE_VALUE_MAX_LEN :: nat where "BTREE_VALUE_MAX_LEN \<equiv> 4096"

type_synonym btree_entry = "string \<times> string option"

datatype btree_node = BLeaf nat "btree_entry list" | BNode "string list" "btree_node list"

record btree_t =
  broot :: btree_node
  first_leaf :: nat
  last_leaf :: nat
  leaf_chain :: "nat list"
  border :: nat
  total_keys :: "64 word"
  btotal_size :: "64 word"
  bheight_of :: "32 word"
  internal_nodes :: "64 word"
  leaf_nodes :: "64 word"
  bread_count :: "64 word"
  bwrite_count :: "64 word"
  bdelete_count :: "64 word"
  next_addr :: nat

section \<open>Keys and copies\<close>

fun str_memcmp :: "nat \<Rightarrow> string \<Rightarrow> string \<Rightarrow> int" where
  "str_memcmp (Suc n) (a # as) (b # bs) = (if a = b then str_memcmp n as bs else of_char a - of_char b)"
| "str_memcmp _ _ _ = 0"

definition btree_key_compare :: "string option \<Rightarrow> string option \<Rightarrow> int" where
  "btree_key_compare key1 key2 =
     (case (key1, key2) of
        (Some k1, Some k2) \<Rightarrow>
          let cmp = str_memcmp (min (length k1) (length k2)) k1 k2 in
          if cmp \<noteq> 0 then cmp
          else if length k1 < length k2 then -1
          else if length k1 > length k2 then 1
          else 0
      | (Some k1, None) \<Rightarrow> 1
      | (None, Some k2) \<Rightarrow> -1
      | (None, None) \<Rightarrow> 0)"

abbreviation bcmp :: "string \<Rightarrow> string \<Rightarrow> int" where
  "bcmp k1 k2 \<equiv> btree_key_compare (Some k1) (Some k2)"

definition btree_key_copy :: "script \<Rightarrow> string option \<Rightarrow> string option \<times> script" where
  "btree_key_copy h key_p =
     (case key_p of
        None \<Rightarrow> (None, h)
      | Some k \<Rightarrow> if k = [] then (None, h)
                  else (let (ok, h1) = malloc h in (if ok then Some k else None, h1)))"

definition btree_value_copy :: "script \<Rightarrow> string option \<Rightarrow> string option \<times> script" where
  "btree_value_copy h value_p =
     (case value_p of
        None \<Rightarrow> (None, h)
      | Some v \<Rightarrow> if v = [] then (None, h)
                  else (let (ok, h1) = malloc h in (if ok then Some v else None, h1)))"

section \<open>Nodes\<close>

text \<open>Allocations in sequence: up to the first failure, and all of them regardless.\<close>

fun allocs :: "nat \<Rightarrow> script \<Rightarrow> bool \<times> script" where
  "allocs 0 h = (True, h)"
| "allocs (Suc n) h = (let (ok, h1) = malloc h in if ok then allocs n h1 else (False, h1))"

fun allocs_all :: "nat \<Rightarrow> script \<Rightarrow> bool \<times> script" where
  "allocs_all 0 h = (True, h)"
| "allocs_all (Suc n) h = (let (ok, h1) = malloc h; (oks, h2) = allocs_all n h1 in (ok \<and> oks, h2))"

text \<open>
  \<open>btree_node_create\<close> succeeds or gives everything back. A leaf takes the node, four arrays and the
  lock, an internal node one array less.
\<close>

definition btree_node_create :: "script \<Rightarrow> bool \<Rightarrow> int \<Rightarrow> bool \<times> script" where
  "btree_node_create h leaf order =
     (if order < BTREE_MIN_ORDER \<or> order > BTREE_MAX_ORDER then (False, h)
      else allocs (if leaf then 6 else 5) h)"

text \<open>\<open>btree_node_destroy\<close>: the keys and values it frees, in its order.\<close>

fun btree_node_destroy :: "btree_node \<Rightarrow> (string \<times> string option) list" where
  "btree_node_destroy (BLeaf i es) = es"
| "btree_node_destroy (BNode ks cs) = map (\<lambda>k. (k, None)) ks @ concat (map btree_node_destroy cs)"

fun node_keys :: "btree_node \<Rightarrow> string list" where
  "node_keys (BLeaf i es) = map fst es"
| "node_keys (BNode ks cs) = ks"

definition key_count :: "btree_node \<Rightarrow> nat" where
  "key_count n = length (node_keys n)"

text \<open>The binary search of \<open>btree_node_find_key\<close>: whether it hit, and the position.\<close>

function find_key_loop :: "string list \<Rightarrow> string \<Rightarrow> int \<Rightarrow> int \<Rightarrow> int \<Rightarrow> bool \<times> int" where
  "find_key_loop ks k left right result =
     (if left \<le> right then
        (let mid = left + (right - left) div 2; cmp = bcmp k (ks ! nat mid) in
         if cmp = 0 then (True, mid)
         else if cmp < 0 then find_key_loop ks k left (mid - 1) mid
         else find_key_loop ks k (mid + 1) right result)
      else (False, result))"
  by pat_completeness auto

termination
  by (relation "measure (\<lambda>(ks, k, left, right, result). nat (right - left + 1))") auto

declare find_key_loop.simps [simp del]

definition btree_node_find_key :: "string list \<Rightarrow> string \<Rightarrow> bool \<Rightarrow> int" where
  "btree_node_find_key ks k exact_match =
     (case find_key_loop ks k 0 (int (length ks) - 1) (int (length ks)) of
        (True, mid) \<Rightarrow> mid
      | (False, result) \<Rightarrow> if exact_match then -1 else result)"

definition btree_node_is_full :: "nat \<Rightarrow> nat \<Rightarrow> bool" where
  "btree_node_is_full max_keys count \<longleftrightarrow> count \<ge> max_keys"

definition btree_node_need_merge :: "nat \<Rightarrow> bool \<Rightarrow> nat \<Rightarrow> bool" where
  "btree_node_need_merge max_keys is_root count \<longleftrightarrow>
     (if is_root then count = 0 else int count < (int max_keys + 1) div 2 - 1)"

text \<open>What the shifting loops do to an array: a gap at an index, and the closing of one.\<close>

definition ins_at :: "nat \<Rightarrow> 'a \<Rightarrow> 'a list \<Rightarrow> 'a list" where
  "ins_at i x xs = take i xs @ x # drop i xs"

definition del_at :: "nat \<Rightarrow> 'a list \<Rightarrow> 'a list" where
  "del_at i xs = take i xs @ drop (Suc i) xs"

text \<open>
  \<open>btree_node_insert_at\<close> on a leaf, its only use. The entries are shifted before the copies are made, so
  a copy that cannot be made leaves a null or freed key among them. An empty key cannot be copied.
\<close>

definition btree_node_insert_at ::
  "nat \<Rightarrow> script \<Rightarrow> btree_entry list \<Rightarrow> int \<Rightarrow> string \<Rightarrow> string \<Rightarrow> (int \<times> btree_entry list \<times> script) outcome" where
  "btree_node_insert_at max_keys h es index k v =
     (if index < 0 \<or> index > int (length es) then Inr (KV_ERR_PARAM, es, h)
      else if btree_node_is_full max_keys (length es) then Inr (KV_ERR_BUSY, es, h)
      else (case btree_key_copy h (Some k) of
          (None, h1) \<Rightarrow> Inl Torn
        | (Some k', h1) \<Rightarrow>
            (if v = [] then Inr (KV_ERR_NONE, ins_at (nat index) (k', None) es, h1)
             else (case btree_value_copy h1 (Some v) of
                (None, h2) \<Rightarrow> Inl Torn
              | (Some v', h2) \<Rightarrow> Inr (KV_ERR_NONE, ins_at (nat index) (k', Some v') es, h2)))))"

definition btree_node_remove_at :: "btree_node \<Rightarrow> int \<Rightarrow> int \<times> btree_node" where
  "btree_node_remove_at n index =
     (if index < 0 \<or> index \<ge> int (key_count n) then (KV_ERR_PARAM, n)
      else (KV_ERR_NONE,
        case n of
          BLeaf i es \<Rightarrow> BLeaf i (del_at (nat index) es)
        | BNode ks cs \<Rightarrow> BNode (del_at (nat index) ks) (del_at (nat index + 1) cs)))"

fun ascending :: "string list \<Rightarrow> bool" where
  "ascending (a # b # ks) = (bcmp a b < 0 \<and> ascending (b # ks))"
| "ascending _ = True"

definition btree_node_validate :: "int \<Rightarrow> btree_node \<Rightarrow> bool" where
  "btree_node_validate max_keys n \<longleftrightarrow>
     int (key_count n) \<le> max_keys \<and> BTREE_MIN_ORDER \<le> max_keys \<and> max_keys \<le> BTREE_MAX_ORDER \<and>
     ascending (node_keys n) \<and>
     (case n of BLeaf i es \<Rightarrow> True | BNode ks cs \<Rightarrow> length cs = length ks + 1)"

section \<open>Trees\<close>

definition btree_create :: "script \<Rightarrow> int \<Rightarrow> btree_t option \<times> script" where
  "btree_create h order =
     (if order < BTREE_MIN_ORDER \<or> order > BTREE_MAX_ORDER then (None, h)
      else (let (ok, h1) = malloc h in
        if \<not> ok then (None, h1)
        else (let (ok2, h2) = btree_node_create h1 True order in
          if \<not> ok2 then (None, h2)
          else (let (ok3, h3) = malloc h2 in
            if \<not> ok3 then (None, h3)
            else (Some \<lparr>broot = BLeaf 0 [], first_leaf = 0, last_leaf = 0, leaf_chain = [0],
                        border = nat order, total_keys = 0, btotal_size = 0, bheight_of = 1,
                        internal_nodes = 0, leaf_nodes = 1, bread_count = 0, bwrite_count = 0,
                        bdelete_count = 0, next_addr = 1\<rparr>, h3)))))"

definition btree_destroy :: "btree_t \<Rightarrow> (string \<times> string option) list" where
  "btree_destroy t = btree_node_destroy (broot t)"

definition btree_count :: "btree_t \<Rightarrow> 64 word" where
  "btree_count t = total_keys t"

text \<open>\<open>sizeof(btree_t)\<close> and \<open>sizeof(btree_node_t)\<close> with the lock's 56 bytes on LP64.\<close>

definition btree_memory_usage :: "btree_t \<Rightarrow> 64 word" where
  "btree_memory_usage t = 160 + leaf_nodes t * 136 + internal_nodes t * 136 + btotal_size t"

text \<open>One level of the path to the root: the parent's keys and children, left and right of the child.\<close>

datatype btree_frame =
  BFrame (lkeys: "string list") (rkeys: "string list") (lsibs: "btree_node list") (rsibs: "btree_node list")

type_synonym btree_path = "btree_frame list"

fun bfill :: "btree_node \<Rightarrow> btree_frame \<Rightarrow> btree_node" where
  "bfill n (BFrame lk rk ls rs) = BNode (lk @ rk) (ls @ n # rs)"

definition bplug :: "btree_node \<Rightarrow> btree_path \<Rightarrow> btree_node" where
  "bplug n p = foldl bfill n p"

definition btree_find_left_sibling :: "btree_path \<Rightarrow> btree_node option" where
  "btree_find_left_sibling p =
     (case p of [] \<Rightarrow> None | f # p' \<Rightarrow> if lsibs f = [] then None else Some (last (lsibs f)))"

definition btree_find_right_sibling :: "btree_path \<Rightarrow> btree_node option" where
  "btree_find_right_sibling p =
     (case p of [] \<Rightarrow> None | f # p' \<Rightarrow> if rsibs f = [] then None else Some (hd (rsibs f)))"

section \<open>Insertion\<close>

text \<open>
  \<open>btree_split_internal_node\<close>: the keys and children with the new ones in place are cut at the middle, the
  middle key goes up. \<open>up\<close> is the call of \<open>btree_insert_to_parent\<close> for the parent.
\<close>

definition btree_split_internal_node ::
  "(btree_t \<Rightarrow> script \<Rightarrow> btree_node \<Rightarrow> btree_node \<Rightarrow> string \<Rightarrow> (int \<times> btree_t \<times> script) outcome) \<Rightarrow>
     btree_t \<Rightarrow> script \<Rightarrow> string list \<Rightarrow> btree_node list \<Rightarrow> string \<Rightarrow> btree_node \<Rightarrow>
     (int \<times> btree_t \<times> script) outcome" where
  "btree_split_internal_node up t h ks cs k right_child =
     (let (ok, h1) = btree_node_create h False (int (border t)) in
      if \<not> ok then Inl Torn
      else (let (ok2, h2) = allocs_all 3 h1 in
        if \<not> ok2 then Inl Torn
        else (case btree_key_copy h2 (Some k) of
            (None, h3) \<Rightarrow> Inl Torn
          | (Some k', h3) \<Rightarrow>
              (let split_point = border t div 2;
                   pos = nat (btree_node_find_key ks k False);
                   temp_keys = ins_at pos k' ks;
                   temp_children = ins_at (pos + 1) right_child cs;
                   left = BNode (take split_point temp_keys) (take (split_point + 1) temp_children);
                   right = BNode (drop (split_point + 1) temp_keys) (drop (split_point + 1) temp_children) in
               up (t\<lparr>internal_nodes := internal_nodes t + 1\<rparr>) h3 left right (temp_keys ! split_point)))))"

fun btree_insert_to_parent ::
  "btree_path \<Rightarrow> btree_t \<Rightarrow> script \<Rightarrow> btree_node \<Rightarrow> btree_node \<Rightarrow> string \<Rightarrow> (int \<times> btree_t \<times> script) outcome" where
  "btree_insert_to_parent [] t h left right k =
     (let (ok, h1) = btree_node_create h False (int (border t)) in
      if \<not> ok then Inl Torn
      else (case btree_key_copy h1 (Some k) of
          (None, h2) \<Rightarrow> Inl Torn
        | (Some k', h2) \<Rightarrow>
            Inr (KV_ERR_NONE, t\<lparr>broot := BNode [k'] [left, right], bheight_of := bheight_of t + 1,
              internal_nodes := internal_nodes t + 1\<rparr>, h2)))"
| "btree_insert_to_parent (BFrame lk rk ls rs # p) t h left right k =
     (let ks = lk @ rk; cs = ls @ left # rs in
      if \<not> btree_node_is_full (border t) (length ks) then
        (case btree_key_copy h (Some k) of
            (None, h1) \<Rightarrow> Inl Torn
          | (Some k', h1) \<Rightarrow>
              (let pos = nat (btree_node_find_key ks k False) in
               Inr (KV_ERR_NONE, t\<lparr>broot := bplug (BNode (ins_at pos k' ks) (ins_at (pos + 1) right cs)) p\<rparr>, h1)))
      else btree_split_internal_node (\<lambda>t h. btree_insert_to_parent p t h) t h ks cs k right)"

text \<open>Linking a new leaf behind a given one.\<close>

fun chain_insert :: "nat \<Rightarrow> nat \<Rightarrow> nat list \<Rightarrow> nat list" where
  "chain_insert a new [] = []"
| "chain_insert a new (x # xs) = (if x = a then x # new # xs else x # chain_insert a new xs)"

definition btree_split_leaf_node ::
  "btree_t \<Rightarrow> script \<Rightarrow> nat \<Rightarrow> btree_entry list \<Rightarrow> btree_path \<Rightarrow> string \<Rightarrow> string \<Rightarrow> (int \<times> btree_t \<times> script) outcome" where
  "btree_split_leaf_node t h i es p k v =
     (let (ok, h1) = btree_node_create h True (int (border t)) in
      if \<not> ok then Inr (KV_ERR_MEM, t, h1)
      else (let (ok2, h2) = allocs_all 4 h1 in
        if \<not> ok2 then Inr (KV_ERR_MEM, t, h2)
        else (let (kc, h3) = btree_key_copy h2 (Some k); (vc, h4) = btree_value_copy h3 (Some v) in
          (case (kc, vc) of
             (Some k', Some v') \<Rightarrow>
               (let split_point = (border t + 1) div 2;
                    pos = nat (btree_node_find_key (map fst es) k False);
                    temp = ins_at pos (k', Some v') es;
                    j = next_addr t;
                    left = BLeaf i (take split_point temp);
                    right = BLeaf j (drop split_point temp);
                    t1 = t\<lparr>leaf_chain := chain_insert i j (leaf_chain t),
                           last_leaf := (if last (leaf_chain t) = i then j else last_leaf t),
                           leaf_nodes := leaf_nodes t + 1, total_keys := total_keys t + 1,
                           next_addr := j + 1\<rparr> in
                (case btree_key_copy h4 (Some (fst (temp ! split_point))) of
                   (None, h5) \<Rightarrow> Inl Torn
                 | (Some sep, h5) \<Rightarrow> btree_insert_to_parent p t1 h5 left right sep))
           | _ \<Rightarrow> Inr (KV_ERR_MEM, t, h4)))))"

fun child_index :: "string list \<Rightarrow> string \<Rightarrow> nat" where
  "child_index [] k = 0"
| "child_index (x # xs) k = (if bcmp k x \<ge> 0 then Suc (child_index xs k) else 0)"

lemma size_nth_child: "j < length cs \<Longrightarrow> size (cs ! j) < Suc (size_list size cs)"
  using size_list_estimation'[of "cs ! j" cs "size (cs ! j)" size] by (simp add: less_Suc_eq_le)

text \<open>The way down to a leaf, with a rule for the child to take.\<close>

function btree_descend ::
  "(string list \<Rightarrow> string \<Rightarrow> nat) \<Rightarrow> string \<Rightarrow> btree_node \<Rightarrow> btree_path \<Rightarrow> (nat \<times> btree_entry list \<times> btree_path) outcome" where
  "btree_descend pick k (BLeaf i es) p = Inr (i, es, p)"
| "btree_descend pick k (BNode ks cs) p =
     (let j = pick ks k in
      if j < length cs
      then btree_descend pick k (cs ! j) (BFrame (take j ks) (drop j ks) (take j cs) (drop (Suc j) cs) # p)
      else Inl OutOfBounds)"
  by pat_completeness auto

termination
  by (relation "measure (\<lambda>(pick, k, n, p). size n)") (auto simp: size_nth_child less_SucI)

definition btree_insert_leaf ::
  "btree_t \<Rightarrow> script \<Rightarrow> nat \<Rightarrow> btree_entry list \<Rightarrow> btree_path \<Rightarrow> string \<Rightarrow> string \<Rightarrow> (int \<times> btree_t \<times> script) outcome" where
  "btree_insert_leaf t h i es p k v =
     (let index = btree_node_find_key (map fst es) k True in
      if index \<ge> 0 then
        (let (vc, h1) = btree_value_copy h (Some v) in
         Inr (if vc = None then KV_ERR_MEM else KV_ERR_NONE,
              t\<lparr>broot := bplug (BLeaf i (es[nat index := (fst (es ! nat index), vc)])) p\<rparr>, h1))
      else if \<not> btree_node_is_full (border t) (length es) then
        obind (btree_node_insert_at (border t) h es (btree_node_find_key (map fst es) k False) k v)
          (\<lambda>(r, es', h1).
            if r = KV_ERR_NONE
            then Inr (r, t\<lparr>broot := bplug (BLeaf i es') p, total_keys := total_keys t + 1,
                           bwrite_count := bwrite_count t + 1\<rparr>, h1)
            else Inr (r, t, h1))
      else btree_split_leaf_node t h i es p k v)"

definition btree_insert_recursive ::
  "btree_t \<Rightarrow> script \<Rightarrow> btree_node \<Rightarrow> string \<Rightarrow> string \<Rightarrow> (int \<times> btree_t \<times> script) outcome" where
  "btree_insert_recursive t h n k v =
     obind (btree_descend child_index k n []) (\<lambda>(i, es, p). btree_insert_leaf t h i es p k v)"

definition btree_insert_complete ::
  "btree_t \<Rightarrow> script \<Rightarrow> string \<Rightarrow> string \<Rightarrow> (int \<times> btree_t \<times> script) outcome" where
  "btree_insert_complete t h k v = btree_insert_recursive t h (broot t) k v"

section \<open>Deletion\<close>

text \<open>
  \<open>btree_borrow_from_sibling\<close>: the child with its left sibling, and with its right sibling. Between
  leaves one entry moves and the separating key is replaced; between internal nodes it is refused.
  The results are the parent's keys and children.
\<close>

definition borrow_left ::
  "script \<Rightarrow> btree_frame \<Rightarrow> btree_node \<Rightarrow> (int \<times> btree_node \<times> script) outcome" where
  "borrow_left h f n =
     (case (last (lsibs f), n) of
        (BLeaf i es, BLeaf j es') \<Rightarrow>
          (let x = last es; lk = butlast (lkeys f) in
           (case btree_key_copy h (Some (fst x)) of
              (None, h1) \<Rightarrow> Inl Torn
            | (Some sep, h1) \<Rightarrow>
                Inr (KV_ERR_NONE, BNode (lk @ sep # rkeys f)
                  (butlast (lsibs f) @ BLeaf i (butlast es) # BLeaf j (x # es') # rsibs f), h1)))
      | _ \<Rightarrow> Inr (KV_ERR_NOT_SUPPORTED, bfill n f, h))"

definition borrow_right ::
  "script \<Rightarrow> btree_frame \<Rightarrow> btree_node \<Rightarrow> (int \<times> btree_node \<times> script) outcome" where
  "borrow_right h f n =
     (case (n, hd (rsibs f)) of
        (BLeaf i es, BLeaf j es') \<Rightarrow>
          (case btree_key_copy h (Some (fst (es' ! 1))) of
             (None, h1) \<Rightarrow> Inl Torn
           | (Some sep, h1) \<Rightarrow>
               Inr (KV_ERR_NONE, BNode (lkeys f @ sep # tl (rkeys f))
                 (lsibs f @ BLeaf i (es @ [hd es']) # BLeaf j (tl es') # tl (rsibs f)), h1))
      | _ \<Rightarrow> Inr (KV_ERR_NOT_SUPPORTED, bfill n f, h))"

text \<open>Unlinking: \<open>left->next = right->next\<close>, and the last leaf when there is no further one.\<close>

definition chain_unlink :: "nat \<Rightarrow> nat \<Rightarrow> nat list \<Rightarrow> nat list" where
  "chain_unlink l r xs = takeWhile (\<lambda>x. x \<noteq> l) xs @ l # tl (dropWhile (\<lambda>x. x \<noteq> r) xs)"

text \<open>Nodes of different kinds are never siblings; reading one as the other is undefined.\<close>

definition btree_merge_nodes ::
  "btree_t \<Rightarrow> script \<Rightarrow> btree_node \<Rightarrow> btree_node \<Rightarrow> string \<Rightarrow> (btree_node \<times> btree_t \<times> script) outcome" where
  "btree_merge_nodes t h left right sep =
     (case (left, right) of
        (BLeaf i es, BLeaf j es') \<Rightarrow>
          Inr (BLeaf i (es @ es'),
            t\<lparr>leaf_chain := chain_unlink i j (leaf_chain t),
              last_leaf := (if last (leaf_chain t) = j then i else last_leaf t),
              leaf_nodes := leaf_nodes t - 1\<rparr>, h)
      | (BNode ks cs, BNode ks' cs') \<Rightarrow>
          (case btree_key_copy h (Some sep) of
             (None, h1) \<Rightarrow> Inl Torn
           | (Some sep', h1) \<Rightarrow>
               Inr (BNode (ks @ sep' # ks') (cs @ cs'), t\<lparr>internal_nodes := internal_nodes t - 1\<rparr>, h1))
      | _ \<Rightarrow> Inl Uninit)"

text \<open>
  \<open>btree_fix_after_delete\<close>, from a node up its path. After a merge the separating key and the right child
  are removed from the parent, and the parent is looked at next.
\<close>

fun btree_fix_after_delete ::
  "btree_path \<Rightarrow> btree_t \<Rightarrow> script \<Rightarrow> btree_node \<Rightarrow> (int \<times> btree_t \<times> script) outcome" where
  "btree_fix_after_delete [] t h n =
     (case n of
        BNode [] (c # cs) \<Rightarrow>
          Inr (KV_ERR_NONE, t\<lparr>broot := c, bheight_of := bheight_of t - 1,
            internal_nodes := internal_nodes t - 1\<rparr>, h)
      | _ \<Rightarrow> Inr (KV_ERR_NONE, t\<lparr>broot := n\<rparr>, h))"
| "btree_fix_after_delete (f # p) t h n =
     (if \<not> btree_node_need_merge (border t) False (key_count n)
      then Inr (KV_ERR_NONE, t\<lparr>broot := bplug n (f # p)\<rparr>, h)
      else (let many = (border t + 1) div 2;
                left_sibling = btree_find_left_sibling (f # p);
                right_sibling = btree_find_right_sibling (f # p) in
        if (case left_sibling of None \<Rightarrow> False | Some l \<Rightarrow> key_count l > many)
        then obind (borrow_left h f n) (\<lambda>(r, parent, h1). Inr (r, t\<lparr>broot := bplug parent p\<rparr>, h1))
        else if (case right_sibling of None \<Rightarrow> False | Some l \<Rightarrow> key_count l > many)
        then obind (borrow_right h f n) (\<lambda>(r, parent, h1). Inr (r, t\<lparr>broot := bplug parent p\<rparr>, h1))
        else (case (left_sibling, right_sibling) of
          (Some l, _) \<Rightarrow>
            obind (btree_merge_nodes t h l n (last (lkeys f))) (\<lambda>(m, t1, h1).
              btree_fix_after_delete p t1 h1
                (BNode (butlast (lkeys f) @ rkeys f) (butlast (lsibs f) @ m # rsibs f)))
        | (None, Some r) \<Rightarrow>
            obind (btree_merge_nodes t h n r (hd (rkeys f))) (\<lambda>(m, t1, h1).
              btree_fix_after_delete p t1 h1 (BNode (lkeys f @ tl (rkeys f)) (lsibs f @ m # tl (rsibs f))))
        | (None, None) \<Rightarrow> btree_fix_after_delete p t h (bfill n f))))"

text \<open>The child \<open>btree_delete_recursive\<close> takes: by binary search, to the right of an equal key.\<close>

definition delete_index :: "string list \<Rightarrow> string \<Rightarrow> nat" where
  "delete_index ks k =
     (let index = btree_node_find_key ks k False in
      if index \<ge> int (length ks) then length ks
      else if bcmp k (ks ! nat index) < 0 then nat index else nat index + 1)"

definition btree_delete_leaf ::
  "btree_t \<Rightarrow> script \<Rightarrow> nat \<Rightarrow> btree_entry list \<Rightarrow> btree_path \<Rightarrow> string \<Rightarrow> (int \<times> btree_t \<times> script) outcome" where
  "btree_delete_leaf t h i es p k =
     (let index = btree_node_find_key (map fst es) k True in
      if index < 0 then Inr (KV_ERR_NOT_FOUND, t, h)
      else (case btree_node_remove_at (BLeaf i es) index of (r, n) \<Rightarrow>
        if r = KV_ERR_NONE
        then btree_fix_after_delete p
          (t\<lparr>total_keys := total_keys t - 1, bdelete_count := bdelete_count t + 1\<rparr>) h n
        else Inr (r, t, h)))"

definition btree_delete_recursive ::
  "btree_t \<Rightarrow> script \<Rightarrow> btree_node \<Rightarrow> string \<Rightarrow> (int \<times> btree_t \<times> script) outcome" where
  "btree_delete_recursive t h n k =
     obind (btree_descend delete_index k n []) (\<lambda>(i, es, p). btree_delete_leaf t h i es p k)"

definition btree_delete_complete ::
  "btree_t \<Rightarrow> script \<Rightarrow> string \<Rightarrow> (int \<times> btree_t \<times> script) outcome" where
  "btree_delete_complete t h k = btree_delete_recursive t h (broot t) k"

section \<open>The adapter\<close>

definition btree_search_internal :: "btree_t \<Rightarrow> script \<Rightarrow> string \<Rightarrow> (string option \<times> script) outcome" where
  "btree_search_internal t h k =
     obind (btree_descend child_index k (broot t) []) (\<lambda>(i, es, p).
       let index = btree_node_find_key (map fst es) k True in
       if index \<ge> 0 then Inr (btree_value_copy h (snd (es ! nat index))) else Inr (None, h))"

definition kvs_btree_set ::
  "btree_t \<Rightarrow> script \<Rightarrow> string option \<Rightarrow> string option \<Rightarrow> (int \<times> btree_t \<times> script) outcome" where
  "kvs_btree_set t h key_p value_p =
     (case (key_p, value_p) of
        (Some k, Some v) \<Rightarrow>
          if length k > BTREE_KEY_MAX_LEN \<or> length v > BTREE_VALUE_MAX_LEN then Inr (KV_ERR_PARAM, t, h)
          else btree_insert_complete t h k v
      | _ \<Rightarrow> Inr (KV_ERR_PARAM, t, h))"

definition kvs_btree_get :: "btree_t \<Rightarrow> script \<Rightarrow> string option \<Rightarrow> (string option \<times> btree_t \<times> script) outcome" where
  "kvs_btree_get t h key_p =
     (case key_p of
        None \<Rightarrow> Inr (None, t, h)
      | Some k \<Rightarrow> obind (btree_search_internal t h k) (\<lambda>(res, h1).
          Inr (res, if res = None then t else t\<lparr>bread_count := bread_count t + 1\<rparr>, h1)))"

definition kvs_btree_delete :: "btree_t \<Rightarrow> script \<Rightarrow> string option \<Rightarrow> (int \<times> btree_t \<times> script) outcome" where
  "kvs_btree_delete t h key_p =
     (case key_p of
        None \<Rightarrow> Inr (KV_ERR_PARAM, t, h)
      | Some k \<Rightarrow> btree_delete_complete t h k)"

definition kvs_btree_modify ::
  "btree_t \<Rightarrow> script \<Rightarrow> string option \<Rightarrow> string option \<Rightarrow> (int \<times> btree_t \<times> script) outcome" where
  "kvs_btree_modify t h key_p value_p =
     (case (key_p, value_p) of
        (Some k, Some v) \<Rightarrow>
          if length k > BTREE_KEY_MAX_LEN \<or> length v > BTREE_VALUE_MAX_LEN then Inr (KV_ERR_PARAM, t, h)
          else obind (btree_search_internal t h k) (\<lambda>(old, h1).
            if old = None then Inr (1, t, h1) else btree_insert_complete t h1 k v)
      | _ \<Rightarrow> Inr (KV_ERR_PARAM, t, h))"

text \<open>The cast of the count to \<open>int\<close> keeps the low 32 bits.\<close>

definition kvs_btree_count :: "btree_t \<Rightarrow> int" where
  "kvs_btree_count t = sint (ucast (total_keys t) :: 32 word)"

definition kv_store_btree_create :: "script \<Rightarrow> int \<Rightarrow> btree_t option \<times> script" where
  "kv_store_btree_create h order = btree_create h (if order \<le> 0 then BTREE_DEFAULT_ORDER else order)"

definition kv_store_btree_destroy :: "btree_t option \<Rightarrow> (string \<times> string option) list" where
  "kv_store_btree_destroy t_p = (case t_p of None \<Rightarrow> [] | Some t \<Rightarrow> btree_destroy t)"

end
