(* ===== verification/BTree_Inv.thy ===== *)
theory BTree_Inv
  imports BTree
begin

text \<open>
  What a well-formed B+-tree is, and the facts about searching, paths and flattening that the
  correctness of insertion and deletion rests on.

  A tree is flattened to the sequence of its separating keys and entries from left to right. A
  separator bounds what is left of it from above, strictly, and what is right of it from below; with
  a separator ordered just before an entry of the same key, this is to say that the sequence is
  strictly ascending. Every operation rewrites a small part of that sequence.
\<close>

section \<open>Comparing and searching\<close>

lemma bcmp_cases:
  "(bcmp a b < 0 \<longleftrightarrow> a < b) \<and> (bcmp a b = 0 \<longleftrightarrow> a = b)"
proof (induction a b rule: strcmp.induct)
  case (4 x xs y ys)
  have ne: "x \<noteq> y \<Longrightarrow> of_char x - of_char y \<noteq> (0 :: int)" by simp
  have lt: "(of_char x - of_char y < (0 :: int)) = (x < y)" by (simp flip: of_char_less_iff)
  show ?case
  proof (cases "x = y")
    case True
    have "bcmp (x # xs) (y # ys) = bcmp xs ys" by (simp add: btree_key_compare_def True)
    with 4 True show ?thesis by simp
  next
    case False
    with ne lt show ?thesis by (auto simp: btree_key_compare_def)
  qed
qed (auto simp: btree_key_compare_def)

lemma bcmp_simps [simp]:
  "bcmp a b < 0 \<longleftrightarrow> a < b" "bcmp a b = 0 \<longleftrightarrow> a = b" "0 \<le> bcmp a b \<longleftrightarrow> b \<le> a"
  using bcmp_cases[of a b] by auto

text \<open>The number of keys below \<open>k\<close>: where \<open>k\<close> is, or belongs.\<close>

definition pos_of :: "string list \<Rightarrow> string \<Rightarrow> nat" where
  "pos_of ks k = length (takeWhile (\<lambda>x. x < k) ks)"

lemma pos_of_append:
  assumes "\<forall>x \<in> set xs. x < k" "\<forall>y \<in> set ys. k \<le> y"
  shows "pos_of (xs @ ys) k = length xs"
proof -
  have "takeWhile (\<lambda>x. x < k) ys = []" using assms(2) by (cases ys) auto
  with assms(1) show ?thesis by (simp add: pos_of_def)
qed

lemma pos_of_eq:
  assumes "r \<le> length ks" "\<forall>j < r. ks ! j < k" "\<forall>j. r \<le> j \<and> j < length ks \<longrightarrow> k \<le> ks ! j"
  shows "pos_of ks k = r"
proof -
  have "\<forall>x \<in> set (take r ks). x < k" "\<forall>y \<in> set (drop r ks). k \<le> y"
    using assms by (auto simp: in_set_conv_nth)
  from pos_of_append[OF this] assms(1) show ?thesis by simp
qed

lemma find_key_loop_spec:
  "sorted_wrt (<) ks \<Longrightarrow> 0 \<le> left \<Longrightarrow> right < int (length ks) \<Longrightarrow> left \<le> right + 1 \<Longrightarrow> result = right + 1 \<Longrightarrow>
     \<forall>j. int j < left \<longrightarrow> ks ! j < k \<Longrightarrow> \<forall>j. right < int j \<and> j < length ks \<longrightarrow> k < ks ! j \<Longrightarrow>
     find_key_loop ks k left right result = (k \<in> set ks, int (pos_of ks k))"
proof (induction ks k left right result rule: find_key_loop.induct)
  case (1 ks k left right result)
  note below = "1.prems"(6) and above = "1.prems"(7)
  show ?case
  proof (cases "left \<le> right")
    case False
    with "1.prems" have eq: "result = left" "right + 1 = left" by auto
    have "ks ! j \<noteq> k" if "j < length ks" for j
      using below[rule_format, of j] above[rule_format, of j] that eq by (cases "int j < left") auto
    then have "k \<notin> set ks" by (auto simp: in_set_conv_nth)
    moreover have "pos_of ks k = nat left"
      using "1.prems" eq by (intro pos_of_eq) (auto intro: less_imp_le)
    ultimately show ?thesis using False eq "1.prems"(2) by (subst find_key_loop.simps) simp
  next
    case True
    define mid where "mid = left + (right - left) div 2"
    have m: "left \<le> mid" "mid \<le> right" "nat mid < length ks" "0 \<le> mid" using True "1.prems"(2,3) by (auto simp: mid_def)
    have mono: "ks ! j < ks ! nat mid" if "j < nat mid" for j
      using "1.prems"(1) that m(3) by (auto simp: sorted_wrt_iff_nth_less)
    have mono': "ks ! nat mid < ks ! j" if "nat mid < j" "j < length ks" for j
      using "1.prems"(1) that by (auto simp: sorted_wrt_iff_nth_less)
    consider "k = ks ! nat mid" | "k < ks ! nat mid" | "ks ! nat mid < k" by fastforce
    then show ?thesis
    proof cases
      case 1
      have "pos_of ks k = nat mid"
        using mono mono' m 1 by (intro pos_of_eq) (auto simp: le_less)
      with 1 m True show ?thesis by (subst find_key_loop.simps) (simp flip: mid_def)
    next
      case 2
      have "find_key_loop ks k left (mid - 1) mid = (k \<in> set ks, int (pos_of ks k))"
      proof (rule "1.IH"(1)[OF True mid_def refl])
        show "\<forall>j. mid - 1 < int j \<and> j < length ks \<longrightarrow> k < ks ! j"
        proof (intro allI impI)
          fix j assume j: "mid - 1 < int j \<and> j < length ks"
          show "k < ks ! j"
          proof (cases "j = nat mid")
            case False
            with j m have "nat mid < j" by linarith
            with 2 mono'[of j] j show ?thesis by auto
          qed (use 2 in simp)
        qed
      qed (use 2 m "1.prems" in auto)
      with 2 m True show ?thesis by (subst find_key_loop.simps) (auto simp flip: mid_def)
    next
      case 3
      have "find_key_loop ks k (mid + 1) right result = (k \<in> set ks, int (pos_of ks k))"
      proof (rule "1.IH"(2)[OF True mid_def refl])
        show "\<forall>j. int j < mid + 1 \<longrightarrow> ks ! j < k"
        proof (intro allI impI)
          fix j assume j: "int j < mid + 1"
          show "ks ! j < k"
          proof (cases "j = nat mid")
            case False
            with j m have "j < nat mid" by linarith
            with 3 mono[of j] show ?thesis by auto
          qed (use 3 in simp)
        qed
      qed (use 3 m "1.prems" in auto)
      with 3 m True show ?thesis by (subst find_key_loop.simps) (auto simp flip: mid_def)
    qed
  qed
qed

lemma find_key_sorted:
  assumes "sorted_wrt (<) ks"
  shows "btree_node_find_key ks k False = int (pos_of ks k)"
    and "btree_node_find_key ks k True = (if k \<in> set ks then int (pos_of ks k) else -1)"
proof -
  have "find_key_loop ks k 0 (int (length ks) - 1) (int (length ks)) = (k \<in> set ks, int (pos_of ks k))"
    using assms by (intro find_key_loop_spec) auto
  then show "btree_node_find_key ks k False = int (pos_of ks k)"
    and "btree_node_find_key ks k True = (if k \<in> set ks then int (pos_of ks k) else -1)"
    by (simp_all add: btree_node_find_key_def split: bool.split)
qed

lemma pos_of_hit: "sorted_wrt (<) ks \<Longrightarrow> k \<in> set ks \<Longrightarrow> pos_of ks k < length ks \<and> ks ! pos_of ks k = k"
proof (induction ks)
  case Nil
  then show ?case by simp
next
  case (Cons x ks)
  then show ?case by (cases "x < k") (auto simp: pos_of_def)
qed

lemma child_index_takeWhile: "child_index ks k = length (takeWhile (\<lambda>x. x \<le> k) ks)"
  by (induction ks) auto

lemma delete_index_child:
  assumes "sorted_wrt (<) ks"
  shows "delete_index ks k = child_index ks k"
proof -
  have "child_index ks k = (if k \<in> set ks then Suc (pos_of ks k) else pos_of ks k)"
    using assms
  proof (induction ks)
    case Nil
    then show ?case by (simp add: pos_of_def)
  next
    case (Cons x ks)
    then consider "x < k" | "x = k" | "k < x" by fastforce
    then show ?case
    proof cases
      case 2
      with Cons have "takeWhile (\<lambda>y. y \<le> k) ks = []" by (cases ks) auto
      with 2 show ?thesis by (simp add: child_index_takeWhile pos_of_def)
    next
      case 3
      with Cons have "k \<notin> set ks" by auto
      moreover from 3 have "\<not> x < k" "\<not> x \<le> k" "x \<noteq> k" by auto
      ultimately show ?thesis by (simp add: pos_of_def)
    qed (use Cons in \<open>auto simp: pos_of_def\<close>)
  qed
  moreover have "pos_of ks k \<le> length ks" by (simp add: pos_of_def length_takeWhile_le)
  moreover have "k < ks ! pos_of ks k" if "k \<notin> set ks" "pos_of ks k < length ks"
  proof -
    have "\<not> ks ! pos_of ks k < k" using that(2) nth_length_takeWhile[of "\<lambda>x. x < k" ks] by (simp add: pos_of_def)
    moreover have "ks ! pos_of ks k \<noteq> k" using that nth_mem by metis
    ultimately show ?thesis by simp
  qed
  ultimately show ?thesis
    using find_key_sorted(1)[OF assms, of k] pos_of_hit[OF assms, of k]
    by (cases "k \<in> set ks"; cases "pos_of ks k = length ks") (auto simp: delete_index_def Let_def)
qed

section \<open>Flattening\<close>

type_synonym bitem = "string \<times> bool"

definition klt :: "bitem \<Rightarrow> bitem \<Rightarrow> bool" where
  "klt a b \<longleftrightarrow> fst a < fst b \<or> fst a = fst b \<and> \<not> snd a \<and> snd b"

abbreviation kasc :: "bitem list \<Rightarrow> bool" where
  "kasc \<equiv> sorted_wrt klt"

fun lweave :: "string list \<Rightarrow> bitem list list \<Rightarrow> bitem list" where
  "lweave (k # ks) (c # cs) = c @ (k, False) # lweave ks cs"
| "lweave _ _ = []"

fun rweave :: "string list \<Rightarrow> bitem list list \<Rightarrow> bitem list" where
  "rweave (k # ks) (c # cs) = (k, False) # c @ rweave ks cs"
| "rweave _ _ = []"

definition leaf_items :: "btree_entry list \<Rightarrow> bitem list" where
  "leaf_items es = map (\<lambda>e. (fst e, True)) es"

fun flat :: "btree_node \<Rightarrow> bitem list" where
  "flat (BLeaf i es) = leaf_items es"
| "flat (BNode ks cs) = (case map flat cs of [] \<Rightarrow> [] | f # fs \<Rightarrow> f @ rweave ks fs)"

fun leaves :: "btree_node \<Rightarrow> (nat \<times> btree_entry list) list" where
  "leaves (BLeaf i es) = [(i, es)]"
| "leaves (BNode ks cs) = concat (map leaves cs)"

definition entries :: "btree_node \<Rightarrow> btree_entry list" where
  "entries n = concat (map snd (leaves n))"

definition leaf_ids :: "btree_node \<Rightarrow> nat list" where
  "leaf_ids n = map fst (leaves n)"

fun inodes :: "btree_node \<Rightarrow> nat" where
  "inodes (BLeaf i es) = 0"
| "inodes (BNode ks cs) = Suc (sum_list (map inodes cs))"

fun depth :: "btree_node \<Rightarrow> nat" where
  "depth (BLeaf i es) = 0"
| "depth (BNode ks cs) = (case map depth cs of [] \<Rightarrow> 1 | d # ds \<Rightarrow> Suc d)"

text \<open>All leaves at the same depth, as many children as keys and one, nodes within the order.\<close>

fun shape :: "nat \<Rightarrow> nat \<Rightarrow> btree_node \<Rightarrow> bool" where
  "shape m 0 (BLeaf i es) \<longleftrightarrow> length es \<le> m"
| "shape m (Suc d) (BNode ks cs) \<longleftrightarrow> length cs = Suc (length ks) \<and> length ks \<le> m \<and> list_all (shape m d) cs"
| "shape m _ _ \<longleftrightarrow> False"

lemma leaf_items_simps [simp]:
  "leaf_items [] = []" "leaf_items (e # es) = (fst e, True) # leaf_items es"
  "leaf_items (es @ es') = leaf_items es @ leaf_items es'" "length (leaf_items es) = length es"
  "leaf_items es = [] \<longleftrightarrow> es = []"
  by (simp_all add: leaf_items_def)

lemma klt_simps [simp]:
  "klt (a, True) (b, True) \<longleftrightarrow> a < b" "klt (a, True) (b, False) \<longleftrightarrow> a < b"
  "klt (a, False) (b, False) \<longleftrightarrow> a < b" "klt (a, False) (b, True) \<longleftrightarrow> a \<le> b"
  by (auto simp: klt_def)

lemma klt_trans: "klt a b \<Longrightarrow> klt b c \<Longrightarrow> klt a c"
  by (auto simp: klt_def)

lemma lweave_append [simp]:
  "length ks = length cs \<Longrightarrow> lweave (ks @ ks') (cs @ cs') = lweave ks cs @ lweave ks' cs'"
  by (induction ks cs rule: list_induct2) auto

lemma rweave_append [simp]:
  "length ks = length cs \<Longrightarrow> rweave (ks @ ks') (cs @ cs') = rweave ks cs @ rweave ks' cs'"
  by (induction ks cs rule: list_induct2) auto

lemma rweave_lweave:
  "length ks = length cs \<Longrightarrow> c @ rweave (ks @ k # ks') (cs @ c' # cs') =
     lweave (ks @ [k]) (c # cs) @ c' @ rweave ks' cs'"
  by (induction ks cs arbitrary: c rule: list_induct2) auto

lemma flat_node:
  assumes "length lk = length ls" "length rk = length rs"
  shows "flat (BNode (lk @ rk) (ls @ n # rs)) = lweave lk (map flat ls) @ flat n @ rweave rk (map flat rs)"
proof (cases ls)
  case Nil
  with assms show ?thesis by simp
next
  case (Cons l ls')
  with assms obtain lk' k where lk: "lk = lk' @ [k]" "length lk' = length ls'"
    by (cases lk rule: rev_cases) auto
  with Cons show ?thesis using rweave_lweave[of lk' "map flat ls'" "flat l" k rk "flat n" "map flat rs"] by simp
qed

lemma depth_shape: "shape m d n \<Longrightarrow> depth n = d"
proof (induction m d n rule: shape.induct)
  case (2 m d ks cs)
  then obtain c cs' where "cs = c # cs'" by (cases cs) auto
  with 2 show ?case by simp
qed auto

lemma lweave_keys: "length ks = length cs \<Longrightarrow> k \<in> set ks \<Longrightarrow> (k, False) \<in> set (lweave ks cs)"
  by (induction ks cs rule: list_induct2) auto

lemma rweave_keys: "length ks = length cs \<Longrightarrow> k \<in> set ks \<Longrightarrow> (k, False) \<in> set (rweave ks cs)"
  by (induction ks cs rule: list_induct2) auto

lemma kasc_lweave: "length ks = length cs \<Longrightarrow> kasc (lweave ks cs) \<Longrightarrow> sorted_wrt (<) ks"
proof (induction ks cs rule: list_induct2)
  case (Cons k ks c cs)
  then have "klt (k, False) (x, False)" if "x \<in> set ks" for x
    using lweave_keys[OF Cons(1) that] by (auto simp: sorted_wrt_append simp del: klt_simps)
  with Cons show ?case by (auto simp: sorted_wrt_append)
qed simp

lemma kasc_rweave: "length ks = length cs \<Longrightarrow> kasc (rweave ks cs) \<Longrightarrow> sorted_wrt (<) ks"
proof (induction ks cs rule: list_induct2)
  case (Cons k ks c cs)
  then have "klt (k, False) (x, False)" if "x \<in> set ks" for x
    using rweave_keys[OF Cons(1) that] by (auto simp: sorted_wrt_append simp del: klt_simps)
  with Cons show ?case by (auto simp: sorted_wrt_append)
qed simp

lemma kasc_keys:
  assumes "kasc (lweave lk (map flat ls) @ xs @ rweave rk (map flat rs))" "length lk = length ls" "length rk = length rs"
  shows "sorted_wrt (<) (lk @ rk)"
proof -
  have "klt (a, False) (b, False)" if "a \<in> set lk" "b \<in> set rk" for a b
    using assms lweave_keys[of lk "map flat ls" a] rweave_keys[of rk "map flat rs" b] that
    by (auto simp: sorted_wrt_append simp del: klt_simps)
  moreover have "sorted_wrt (<) lk" "sorted_wrt (<) rk"
    using assms kasc_lweave[of lk "map flat ls"] kasc_rweave[of rk "map flat rs"] by (auto simp: sorted_wrt_append)
  ultimately show ?thesis by (auto simp: sorted_wrt_append)
qed

section \<open>Paths\<close>

fun fbef :: "btree_path \<Rightarrow> bitem list" where
  "fbef [] = []"
| "fbef (BFrame lk rk ls rs # p) = fbef p @ lweave lk (map flat ls)"

fun faft :: "btree_path \<Rightarrow> bitem list" where
  "faft [] = []"
| "faft (BFrame lk rk ls rs # p) = rweave rk (map flat rs) @ faft p"

fun lbef :: "btree_path \<Rightarrow> (nat \<times> btree_entry list) list" where
  "lbef [] = []"
| "lbef (BFrame lk rk ls rs # p) = lbef p @ concat (map leaves ls)"

fun laft :: "btree_path \<Rightarrow> (nat \<times> btree_entry list) list" where
  "laft [] = []"
| "laft (BFrame lk rk ls rs # p) = concat (map leaves rs) @ laft p"

fun pinodes :: "btree_path \<Rightarrow> nat" where
  "pinodes [] = 0"
| "pinodes (BFrame lk rk ls rs # p) = Suc (sum_list (map inodes (ls @ rs))) + pinodes p"

fun pshape :: "nat \<Rightarrow> nat \<Rightarrow> btree_path \<Rightarrow> bool" where
  "pshape m d [] \<longleftrightarrow> True"
| "pshape m d (BFrame lk rk ls rs # p) \<longleftrightarrow>
     length lk = length ls \<and> length rk = length rs \<and> length lk + length rk \<le> m \<and>
     list_all (shape m d) ls \<and> list_all (shape m d) rs \<and> pshape m (Suc d) p"

lemma bplug_simps [simp]: "bplug n [] = n" "bplug n (f # p) = bplug (bfill n f) p"
  by (simp_all add: bplug_def)

lemma flat_bplug: "pshape m d p \<Longrightarrow> flat (bplug n p) = fbef p @ flat n @ faft p"
proof (induction p arbitrary: n d)
  case (Cons f p)
  obtain lk rk ls rs where f: "f = BFrame lk rk ls rs" by (cases f) auto
  with Cons.prems have l: "length lk = length ls" "length rk = length rs" "pshape m (Suc d) p" by simp_all
  from Cons.IH[OF l(3), of "bfill n f"] flat_node[OF l(1,2), of n] f show ?case by simp
qed simp

lemma leaves_bplug: "leaves (bplug n p) = lbef p @ leaves n @ laft p"
proof (induction p arbitrary: n)
  case (Cons f p)
  then show ?case by (cases f) simp
qed simp

lemma inodes_bplug: "inodes (bplug n p) = inodes n + pinodes p"
proof (induction p arbitrary: n)
  case (Cons f p)
  then show ?case by (cases f) simp
qed simp

lemma shape_bfill: "shape m d n \<Longrightarrow> pshape m d (f # p) \<Longrightarrow> shape m (Suc d) (bfill n f)"
  by (cases f) simp

lemma shape_bplug: "shape m d n \<Longrightarrow> pshape m d p \<Longrightarrow> shape m (d + length p) (bplug n p)"
proof (induction p arbitrary: n d)
  case (Cons f p)
  have "pshape m (Suc d) p" using Cons.prems(2) by (cases f) simp
  from Cons.IH[OF shape_bfill[OF Cons.prems] this] show ?case by simp
qed simp

section \<open>Entries and order\<close>

lemma filter_weave:
  "length ks = length fs \<Longrightarrow> filter snd (lweave ks fs) = concat (map (filter snd) fs)"
  "length ks = length fs \<Longrightarrow> filter snd (rweave ks fs) = concat (map (filter snd) fs)"
  by (induction ks fs rule: list_induct2) auto

lemma leaf_items_concat: "leaf_items (concat ess) = concat (map leaf_items ess)"
  by (induction ess) auto

lemma filter_leaf_items [simp]: "filter snd (leaf_items es) = leaf_items es"
  by (induction es) auto

lemma flat_entries: "shape m d n \<Longrightarrow> filter snd (flat n) = leaf_items (entries n)"
proof (induction m d n rule: shape.induct)
  case (1 m i es)
  then show ?case by (simp add: entries_def)
next
  case (2 m d ks cs)
  then obtain c cs' where cs: "cs = c # cs'" "length cs' = length ks" by (cases cs) auto
  with 2 have IH: "\<forall>x \<in> set cs. filter snd (flat x) = leaf_items (entries x)" by (auto simp: list_all_iff)
  have "filter snd (flat (BNode ks cs)) = concat (map (\<lambda>x. filter snd (flat x)) cs)"
    using cs by (simp add: filter_weave o_def)
  also have "\<dots> = concat (map (\<lambda>x. leaf_items (entries x)) cs)" using IH by (metis (mono_tags, lifting) map_cong)
  also have "\<dots> = leaf_items (entries (BNode ks cs))"
    by (induction cs) (auto simp: entries_def)
  finally show ?case .
qed auto

lemma entries_sorted:
  assumes "shape m d n" "kasc (flat n)"
  shows "sorted_wrt (<) (map fst (entries n))"
proof -
  have "kasc (leaf_items (entries n))" using assms flat_entries[OF assms(1)] by (metis sorted_wrt_filter)
  then show ?thesis by (simp add: leaf_items_def sorted_wrt_map)
qed

lemma kasc_leaf: "kasc (leaf_items es) \<longleftrightarrow> sorted_wrt (<) (map fst es)"
  by (simp add: leaf_items_def sorted_wrt_map)

lemma kasc_insert:
  "kasc (xs @ ys) \<Longrightarrow> \<forall>x \<in> set xs. klt x z \<Longrightarrow> \<forall>y \<in> set ys. klt z y \<Longrightarrow> kasc (xs @ z # ys)"
  by (auto simp: sorted_wrt_append)

text \<open>A separator can be put between two neighbouring entries of a leaf.\<close>

lemma klt_sep: "klt a (z, True) \<Longrightarrow> z < x \<Longrightarrow> klt a (x, False)"
  by (auto simp: klt_def)

lemma klt_of_sep: "klt (x, True) b \<Longrightarrow> klt (x, False) b"
  by (auto simp: klt_def)

lemma kasc_separate:
  assumes "kasc (xs @ (z, True) # (x, True) # ys)"
  shows "kasc (xs @ (z, True) # (x, False) # (x, True) # ys)"
proof -
  from assms have z: "z < x" and l: "\<forall>a \<in> set xs. klt a (z, True)" and r: "\<forall>b \<in> set ys. klt (x, True) b"
    and all: "kasc (xs @ [(z, True)])" "kasc ((x, True) # ys)" "\<forall>b \<in> set ys. klt (z, True) b"
      "\<forall>a \<in> set xs. klt a (x, True)" "\<forall>a \<in> set xs. \<forall>b \<in> set ys. klt a b"
    by (auto simp: sorted_wrt_append)
  have "\<forall>a \<in> set xs. klt a (x, False)" using l z klt_sep by blast
  moreover have "\<forall>b \<in> set ys. klt (x, False) b" using r klt_of_sep by blast
  ultimately show ?thesis using all z l by (auto simp: sorted_wrt_append)
qed

section \<open>The way down\<close>

lemma lweave_below:
  "length lk = length fs \<Longrightarrow> kasc (lweave lk fs) \<Longrightarrow> \<forall>x \<in> set lk. x \<le> k \<Longrightarrow> y \<in> set (lweave lk fs) \<Longrightarrow> klt y (k, True)"
proof (induction lk fs rule: list_induct2)
  case (Cons x lk f fs)
  have x: "klt (x, False) (k, True)" using Cons.prems(2) by simp
  from Cons.prems(3) consider "y \<in> set f" | "y = (x, False)" | "y \<in> set (lweave lk fs)" by auto
  then show ?case
  proof cases
    case 1
    with Cons.prems(1) have "klt y (x, False)" by (auto simp: sorted_wrt_append simp del: klt_simps)
    then show ?thesis using x by (rule klt_trans)
  qed (use x Cons in \<open>auto simp: sorted_wrt_append simp del: klt_simps\<close>)
qed simp

lemma rweave_above:
  "length rk = length fs \<Longrightarrow> kasc (rweave rk fs) \<Longrightarrow> \<forall>x \<in> set rk. k < x \<Longrightarrow> y \<in> set (rweave rk fs) \<Longrightarrow> klt (k, True) y"
proof (induction rk fs rule: list_induct2)
  case (Cons x rk f fs)
  have x: "klt (k, True) (x, False)" using Cons.prems(2) by simp
  from Cons.prems(3) consider "y \<in> set f" | "y = (x, False)" | "y \<in> set (rweave rk fs)" by auto
  then show ?case
  proof cases
    case 1
    with Cons.prems(1) have "klt (x, False) y" by (auto simp: sorted_wrt_append simp del: klt_simps)
    with x show ?thesis by (rule klt_trans)
  qed (use x Cons in \<open>auto simp: sorted_wrt_append simp del: klt_simps\<close>)
qed simp

definition around :: "string \<Rightarrow> btree_path \<Rightarrow> bool" where
  "around k p \<longleftrightarrow> (\<forall>x \<in> set (fbef p). klt x (k, True)) \<and> (\<forall>x \<in> set (faft p). klt (k, True) x)"

text \<open>The child that is taken, and that everything beside it is on the right side of the key.\<close>

lemma child_frame:
  assumes "length cs = Suc (length ks)" "kasc (flat (BNode ks cs))" and j_def: "j = child_index ks k"
  shows "sorted_wrt (<) ks \<and> j \<le> length ks \<and> cs = take j cs @ cs ! j # drop (Suc j) cs \<and>
    flat (BNode ks cs) = lweave (take j ks) (map flat (take j cs)) @ flat (cs ! j) @
      rweave (drop j ks) (map flat (drop (Suc j) cs)) \<and>
    (\<forall>x \<in> set (lweave (take j ks) (map flat (take j cs))). klt x (k, True)) \<and>
    (\<forall>x \<in> set (rweave (drop j ks) (map flat (drop (Suc j) cs))). klt (k, True) x)"
proof -
  have j: "j \<le> length ks" by (simp add: j_def child_index_takeWhile length_takeWhile_le)
  have cs: "cs = take j cs @ cs ! j # drop (Suc j) cs" using j assms(1) by (simp add: id_take_nth_drop)
  have fl: "flat (BNode ks cs) = lweave (take j ks) (map flat (take j cs)) @ flat (cs ! j) @
      rweave (drop j ks) (map flat (drop (Suc j) cs))"
    using flat_node[of "take j ks" "take j cs" "drop j ks" "drop (Suc j) cs" "cs ! j"] j assms(1) cs
    by (simp add: min_def)
  have srt: "sorted_wrt (<) (take j ks @ drop j ks)"
    using assms(1,2) fl j
    by (intro kasc_keys[where ls = "take j cs" and xs = "flat (cs ! j)" and rs = "drop (Suc j) cs"]) auto
  have tk: "take j ks = takeWhile (\<lambda>x. x \<le> k) ks" "drop j ks = dropWhile (\<lambda>x. x \<le> k) ks"
    by (simp_all only: j_def child_index_takeWhile takeWhile_eq_take[symmetric] dropWhile_eq_drop[symmetric])
  have le: "\<forall>x \<in> set (take j ks). x \<le> k" unfolding tk by (auto dest: set_takeWhileD)
  have gt: "\<forall>x \<in> set (drop j ks). k < x"
  proof (cases "drop j ks")
    case (Cons x xs)
    then have "\<not> x \<le> k" using tk(2) hd_dropWhile[of "\<lambda>x. x \<le> k" ks] by simp
    with Cons srt show ?thesis by (auto simp: sorted_wrt_append)
  qed simp
  from assms(2) fl have "kasc (lweave (take j ks) (map flat (take j cs)))"
    "kasc (rweave (drop j ks) (map flat (drop (Suc j) cs)))" by (auto simp: sorted_wrt_append)
  with le gt have "\<forall>x \<in> set (lweave (take j ks) (map flat (take j cs))). klt x (k, True)"
    "\<forall>x \<in> set (rweave (drop j ks) (map flat (drop (Suc j) cs))). klt (k, True) x"
    using lweave_below[of "take j ks" "map flat (take j cs)" k]
      rweave_above[of "drop j ks" "map flat (drop (Suc j) cs)" k] j assms(1) by auto
  with j cs fl srt show ?thesis by simp
qed

lemma descend_ok:
  assumes "\<And>ks. sorted_wrt (<) ks \<Longrightarrow> pick ks k = child_index ks k"
  shows "shape m d n \<Longrightarrow> pshape m d p \<Longrightarrow> kasc (fbef p @ flat n @ faft p) \<Longrightarrow> around k p \<Longrightarrow>
    \<exists>i es p'. btree_descend pick k n p = Inr (i, es, p') \<and> bplug (BLeaf i es) p' = bplug n p \<and>
      pshape m 0 p' \<and> around k p' \<and> length p' = d + length p \<and> length es \<le> m"
proof (induction m d n arbitrary: p rule: shape.induct)
  case (1 m i es)
  then show ?case by simp
next
  case (2 m d ks cs)
  define j where "j = child_index ks k"
  let ?p = "BFrame (take j ks) (drop j ks) (take j cs) (drop (Suc j) cs) # p"
  from "2.prems"(1) have len: "length cs = Suc (length ks)" "length ks \<le> m" "list_all (shape m d) cs" by simp_all
  from "2.prems"(3) have "kasc (flat (BNode ks cs))" by (simp only: sorted_wrt_append)
  note c = child_frame[OF len(1) this j_def]
  have j: "j < length cs" "j \<le> length ks" using c len(1) by auto
  have "around k ?p" using c "2.prems"(4) by (auto simp: around_def)
  moreover have "shape m d (cs ! j)" using len(3) j by (simp add: list_all_length)
  moreover have "pshape m d ?p"
    using "2.prems"(2) len j by (auto simp: list_all_iff dest: in_set_takeD in_set_dropD)
  moreover have "kasc (fbef ?p @ flat (cs ! j) @ faft ?p)"
    using "2.prems"(3) c by (simp del: flat.simps)
  moreover have "cs ! j \<in> set cs" using j by simp
  ultimately obtain i es p' where r: "btree_descend pick k (cs ! j) ?p = Inr (i, es, p')"
    "bplug (BLeaf i es) p' = bplug (cs ! j) ?p" "pshape m 0 p'" "around k p'" "length p' = d + length ?p" "length es \<le> m"
    using "2.IH"[of "cs ! j" ?p] by blast
  moreover have "bfill (cs ! j) (hd ?p) = BNode ks cs" using c by simp
  moreover have "pick ks k = j" using assms c by (simp add: j_def)
  ultimately show ?case using j by auto
qed auto

end
