(* ===== verification/BTree_Engine.thy ===== *)
theory BTree_Engine
  imports BTree_Inv
begin

text \<open>
  The B+-tree engine keeps its invariant and refines a finite map: insertion with node splits,
  deletion with borrowing and merging, search, and the adapter's operations as an instance of
  the engine contract.
\<close>

section \<open>Invariant and abstraction\<close>

definition btree_inv :: "btree_t \<Rightarrow> bool" where
  "btree_inv t \<longleftrightarrow>
     (let r = broot t in
      3 \<le> border t \<and> border t \<le> 1000 \<and> shape (border t) (depth r) r \<and>
      bheight_of t = of_nat (Suc (depth r)) \<and> internal_nodes t = of_nat (inodes r) \<and>
      kasc (flat r) \<and> list_all (\<lambda>x. fst x \<noteq> []) (flat r) \<and>
      list_all (\<lambda>e. snd e \<noteq> None \<and> snd e \<noteq> Some []) (entries r) \<and>
      leaf_chain t = leaf_ids r \<and> distinct (leaf_chain t) \<and> list_all (\<lambda>i. i < next_addr t) (leaf_chain t) \<and>
      first_leaf t = hd (leaf_chain t) \<and> last_leaf t = last (leaf_chain t) \<and>
      leaf_nodes t = of_nat (length (leaf_chain t)) \<and> total_keys t = of_nat (length (entries r)))"

definition btree_content :: "btree_t \<Rightarrow> string \<rightharpoonup> string" where
  "btree_content t k = (case map_of (entries (broot t)) k of None \<Rightarrow> None | Some v \<Rightarrow> v)"

lemma allocs_Nil [simp]: "allocs n [] = (True, [])" "allocs_all n [] = (True, [])"
  by (induction n) simp_all

lemma node_create_Nil [simp]:
  "3 \<le> m \<Longrightarrow> m \<le> 1000 \<Longrightarrow> btree_node_create [] leaf (int m) = (True, [])"
  by (simp add: btree_node_create_def)

lemma copy_Nil [simp]:
  "k \<noteq> [] \<Longrightarrow> btree_key_copy [] (Some k) = (Some k, [])"
  "v \<noteq> [] \<Longrightarrow> btree_value_copy [] (Some v) = (Some v, [])"
  by (simp_all add: btree_key_copy_def btree_value_copy_def)

lemma kasc_middle: "kasc (a @ b @ c) \<Longrightarrow> kasc b"
  by (simp add: sorted_wrt_append)

section \<open>Insertion into the parents\<close>

lemma flat_cut:
  assumes "length cs = Suc (length ks)" "j < length ks"
  shows "flat (BNode (take j ks) (take (Suc j) cs)) @ (ks ! j, False) # flat (BNode (drop (Suc j) ks) (drop (Suc j) cs)) =
    flat (BNode ks cs)"
proof -
  obtain c cs' where cs: "cs = c # cs'" "length cs' = length ks" using assms(1) by (cases cs) auto
  have ks: "ks = take j ks @ ks ! j # drop (Suc j) ks" using assms(2) by (simp add: id_take_nth_drop)
  have cs': "cs' = take j cs' @ cs' ! j # drop (Suc j) cs'" using assms(2) cs by (simp add: id_take_nth_drop)
  have d: "drop (Suc j) cs = cs' ! j # drop (Suc j) cs'" using assms(2) cs by (simp add: Cons_nth_drop_Suc)
  have "rweave ks (map flat cs') = rweave (take j ks) (map flat (take j cs')) @
      rweave (ks ! j # drop (Suc j) ks) (flat (cs' ! j) # map flat (drop (Suc j) cs'))"
    using assms(2) cs(2)
    by (subst ks, subst cs') (simp only: map_append list.map, subst rweave_append, simp_all)
  with cs(1) d show ?thesis by simp
qed

lemma cut_sums:
  "concat (map f (take j cs)) @ concat (map f (drop j cs)) = concat (map f cs)"
  "sum_list (map g (take j cs)) + sum_list (map g (drop j cs)) = (sum_list (map g cs) :: nat)"
  by (simp_all flip: concat_append map_append sum_list_append)

lemma shape_cut:
  assumes "length ks = Suc m" "length cs = m + 2" "list_all (shape m d) cs" "j \<le> m"
  shows "shape m (Suc d) (BNode (take j ks) (take (Suc j) cs))"
    and "shape m (Suc d) (BNode (drop (Suc j) ks) (drop (Suc j) cs))"
  using assms by (auto simp: list_all_iff dest: in_set_takeD in_set_dropD)

text \<open>A key between its neighbours in the flattened tree has its place between the parent's keys.\<close>

lemma parent_pos:
  assumes "kasc (lweave lk (map flat ls) @ xs @ (k, False) # ys @ rweave rk (map flat rs))"
    "length lk = length ls" "length rk = length rs"
  shows "nat (btree_node_find_key (lk @ rk) k False) = length lk"
proof -
  have "klt (x, False) (k, False)" if "x \<in> set lk" for x
    using assms lweave_keys[of lk "map flat ls" x] that by (auto simp: sorted_wrt_append simp del: klt_simps)
  moreover have "klt (k, False) (x, False)" if "x \<in> set rk" for x
    using assms rweave_keys[of rk "map flat rs" x] that by (auto simp: sorted_wrt_append simp del: klt_simps)
  ultimately have "pos_of (lk @ rk) k = length lk" by (intro pos_of_append) (auto intro: less_imp_le)
  moreover have "sorted_wrt (<) (lk @ rk)"
    using assms by (intro kasc_keys[where xs = "xs @ (k, False) # ys" and ls = ls and rs = rs]) simp_all
  ultimately show ?thesis by (simp add: find_key_sorted)
qed

definition grown :: "btree_t \<Rightarrow> btree_node \<Rightarrow> nat \<Rightarrow> nat \<Rightarrow> btree_t" where
  "grown t r dh dn = t\<lparr>broot := r, bheight_of := bheight_of t + of_nat dh,
     internal_nodes := internal_nodes t + of_nat dn\<rparr>"

lemma insert_to_parent_ok:
  "pshape m d p \<Longrightarrow> shape m d l \<Longrightarrow> shape m d r \<Longrightarrow> kasc (fbef p @ flat l @ (k, False) # flat r @ faft p) \<Longrightarrow>
     list_all (\<lambda>x. fst x \<noteq> []) (fbef p @ flat l @ (k, False) # flat r @ faft p) \<Longrightarrow>
     3 \<le> m \<Longrightarrow> m \<le> 1000 \<Longrightarrow> border t = m \<Longrightarrow>
     \<exists>root dh dn. btree_insert_to_parent p t [] l r k = Inr (KV_ERR_NONE, grown t root dh dn, []) \<and>
       shape m (d + length p + dh) root \<and> inodes root = inodes l + inodes r + pinodes p + dn \<and>
       flat root = fbef p @ flat l @ (k, False) # flat r @ faft p \<and>
       leaves root = lbef p @ leaves l @ leaves r @ laft p"
proof (induction p arbitrary: d t l r k)
  case Nil
  then show ?case
    by (intro exI[of _ "BNode [k] [l, r]"] exI[of _ 1]) (simp add: grown_def)
next
  case (Cons f p)
  obtain lk rk ls rs where f: "f = BFrame lk rk ls rs" by (cases f)
  with Cons.prems(1) have s: "length lk = length ls" "length rk = length rs" "length lk + length rk \<le> m"
    "list_all (shape m d) ls" "list_all (shape m d) rs" "pshape m (Suc d) p" by simp_all
  have "kasc (lweave lk (map flat ls) @ flat l @ (k, False) # flat r @ rweave rk (map flat rs))"
    by (rule kasc_middle[where a = "fbef p" and c = "faft p"]) (use Cons.prems(4) f in simp)
  from parent_pos[OF this s(1,2)] have pos: "nat (btree_node_find_key (lk @ rk) k False) = length lk" .
  let ?ks = "lk @ k # rk" and ?cs = "ls @ l # r # rs"
  have ins: "ins_at (length lk) k (lk @ rk) = ?ks" "ins_at (length lk + 1) r (ls @ l # rs) = ?cs"
    using s(1) by (simp_all add: ins_at_def)
  have k: "k \<noteq> []" using Cons.prems(5) by simp
  have fl: "flat (BNode ?ks ?cs) = lweave lk (map flat ls) @ flat l @ (k, False) # flat r @ rweave rk (map flat rs)"
    using flat_node[of lk ls "k # rk" "r # rs" l] s by simp
  show ?case
  proof (cases "length lk + length rk < m")
    case True
    let ?n = "BNode ?ks ?cs"
    have "shape m (Suc d) ?n" using True s Cons.prems(2,3) by simp
    from shape_bplug[OF this s(6)] flat_bplug[OF s(6), of ?n] leaves_bplug[of ?n p] inodes_bplug[of ?n p] fl
    show ?thesis
      using True Cons.prems(8) k f pos ins
      by (intro exI[of _ "bplug ?n p"] exI[of _ 0])
        (simp add: grown_def btree_node_is_full_def del: flat.simps)
  next
    case False
    define sp where "sp = m div 2"
    define left where "left = BNode (take sp ?ks) (take (Suc sp) ?cs)"
    define right where "right = BNode (drop (Suc sp) ?ks) (drop (Suc sp) ?cs)"
    define t1 where "t1 = t\<lparr>internal_nodes := internal_nodes t + 1\<rparr>"
    have len: "length ?ks = Suc m" "length ?cs = m + 2" "sp \<le> m" using False s by (auto simp: sp_def)
    have "list_all (shape m d) ?cs" using s Cons.prems(2,3) by simp
    note sh = shape_cut[OF len(1,2) this len(3), folded left_def right_def]
    have cut: "flat left @ (?ks ! sp, False) # flat right = flat (BNode ?ks ?cs)"
      unfolding left_def right_def using len by (intro flat_cut) auto
    have step: "btree_insert_to_parent (f # p) t [] l r k = btree_insert_to_parent p t1 [] left right (?ks ! sp)"
      using False Cons.prems(6-8) k f pos ins
      by (simp add: btree_node_is_full_def btree_split_internal_node_def left_def right_def sp_def t1_def Let_def
          del: btree_insert_to_parent.simps(1))
    have all: "fbef p @ flat left @ (?ks ! sp, False) # flat right @ faft p =
      fbef (f # p) @ flat l @ (k, False) # flat r @ faft (f # p)"
      using cut fl f by (metis append.assoc append_Cons fbef.simps(2) faft.simps(2))
    obtain root dh dn where r: "btree_insert_to_parent p t1 [] left right (?ks ! sp) = Inr (KV_ERR_NONE, grown t1 root dh dn, [])"
      "shape m (Suc d + length p + dh) root" "inodes root = inodes left + inodes right + pinodes p + dn"
      "flat root = fbef (f # p) @ flat l @ (k, False) # flat r @ faft (f # p)"
      "leaves root = lbef p @ leaves left @ leaves right @ laft p"
      using Cons.IH[OF s(6) sh, of "?ks ! sp" t1] Cons.prems(4-8) all by (auto simp: t1_def)
    have "leaves left @ leaves right = concat (map leaves ls) @ leaves l @ leaves r @ concat (map leaves rs)"
      using cut_sums(1)[of leaves "Suc sp" ?cs] by (simp add: left_def right_def)
    moreover have "inodes left + inodes right = sum_list (map inodes (ls @ rs)) + inodes l + inodes r + 2"
      using cut_sums(2)[of inodes "Suc sp" ?cs] by (simp add: left_def right_def)
    moreover have "grown t1 root dh dn = grown t root dh (Suc dn)" by (simp add: grown_def t1_def)
    ultimately show ?thesis using step r f
      by (intro exI[of _ root] exI[of _ dh] exI[of _ "Suc dn"]) simp
  qed
qed

section \<open>A leaf and what is around it\<close>

definition ents :: "(nat \<times> btree_entry list) list \<Rightarrow> btree_entry list" where
  "ents ls = concat (map snd ls)"

lemma ents_simps [simp]: "ents [] = []" "ents (l # ls) = snd l @ ents ls" "ents (ls @ ls') = ents ls @ ents ls'"
  by (simp_all add: ents_def)

lemma entries_bplug: "entries (bplug n p) = ents (lbef p) @ entries n @ ents (laft p)"
  by (simp add: entries_def leaves_bplug ents_def)

lemma entries_leaf [simp]: "entries (BLeaf i es) = es"
  by (simp add: entries_def)

lemma sibs_entries:
  assumes "list_all (shape m d) cs" "length ks = length cs"
  shows "filter snd (lweave ks (map flat cs)) = leaf_items (ents (concat (map leaves cs)))"
    and "filter snd (rweave ks (map flat cs)) = leaf_items (ents (concat (map leaves cs)))"
proof -
  have "concat (map (filter snd) (map flat cs)) = leaf_items (ents (concat (map leaves cs)))"
    using assms(1) by (induction cs) (auto simp: ents_def flat_entries[unfolded entries_def])
  then show "filter snd (lweave ks (map flat cs)) = leaf_items (ents (concat (map leaves cs)))"
    and "filter snd (rweave ks (map flat cs)) = leaf_items (ents (concat (map leaves cs)))"
    using assms(2) by (simp_all add: filter_weave)
qed

lemma path_entries:
  "pshape m d p \<Longrightarrow> filter snd (fbef p) = leaf_items (ents (lbef p)) \<and> filter snd (faft p) = leaf_items (ents (laft p))"
proof (induction p arbitrary: d)
  case (Cons f p)
  obtain lk rk ls rs where f: "f = BFrame lk rk ls rs" by (cases f)
  with Cons.prems have s: "length lk = length ls" "length rk = length rs" "list_all (shape m d) ls"
    "list_all (shape m d) rs" "pshape m (Suc d) p" by simp_all
  from sibs_entries[OF s(3,1)] sibs_entries[OF s(4,2)] Cons.IH[OF s(5)] f show ?case by simp
qed simp

lemma around_entries:
  assumes "pshape m d p" "around k p"
  shows "k \<notin> fst ` set (ents (lbef p)) \<and> k \<notin> fst ` set (ents (laft p))"
proof -
  have "(fst e, True) \<in> set (fbef p)" if "e \<in> set (ents (lbef p))" for e
    using that path_entries[OF assms(1)] by (metis (no_types, lifting) filter_is_subset image_eqI leaf_items_def list.set_map subsetD)
  moreover have "(fst e, True) \<in> set (faft p)" if "e \<in> set (ents (laft p))" for e
    using that path_entries[OF assms(1)] by (metis (no_types, lifting) filter_is_subset image_eqI leaf_items_def list.set_map subsetD)
  ultimately show ?thesis using assms(2) unfolding around_def by fastforce
qed

lemma map_of_around:
  assumes "k \<notin> fst ` set as" "k \<notin> fst ` set bs" "map_of es' = (map_of es)(k := x)"
  shows "map_of (as @ es' @ bs) = (map_of (as @ es @ bs))(k := x)"
proof -
  have "map_of as k = None" "map_of bs k = None" using assms by (auto simp: map_of_eq_None_iff)
  with assms(3) show ?thesis by (auto simp: fun_eq_iff map_add_def split: option.splits)
qed

lemma leaf_at:
  assumes inv: "btree_inv t" and "\<And>ks. sorted_wrt (<) ks \<Longrightarrow> pick ks k = child_index ks k"
  obtains i es p where "btree_descend pick k (broot t) [] = Inr (i, es, p)" "broot t = bplug (BLeaf i es) p"
    "pshape (border t) 0 p" "around k p" "length p = depth (broot t)" "length es \<le> border t"
    "kasc (fbef p @ leaf_items es @ faft p)" "sorted_wrt (<) (map fst es)"
    "map_of (entries (broot t)) k = map_of es k"
proof -
  let ?r = "broot t"
  have s: "shape (border t) (depth ?r) ?r" "kasc (flat ?r)" using inv by (auto simp: btree_inv_def Let_def)
  obtain i es p where d: "btree_descend pick k ?r [] = Inr (i, es, p)" "bplug (BLeaf i es) p = ?r"
    "pshape (border t) 0 p" "around k p" "length p = depth ?r" "length es \<le> border t"
    using descend_ok[where pick = pick and k = k and p = "[]", OF assms(2) s(1)] s(2) by (auto simp: around_def)
  have asc: "kasc (fbef p @ leaf_items es @ faft p)" using s(2) flat_bplug[OF d(3), of "BLeaf i es"] d(2) by simp
  then have "sorted_wrt (<) (map fst es)" by (simp flip: kasc_leaf add: sorted_wrt_append)
  moreover have "map_of (entries ?r) k = map_of es k"
    using around_entries[OF d(3,4)] entries_bplug[of "BLeaf i es" p] d(2)
    by (auto simp: entries_def map_add_def map_of_eq_None_iff[symmetric] split: option.splits)
  ultimately show thesis by (rule that[OF d(1) d(2)[symmetric] d(3-6) asc])
qed

text \<open>Replacing the entries of a leaf keeps the invariant when the new ones fit in size and order.\<close>

lemma leaf_replace:
  assumes inv: "btree_inv t" and r: "broot t = bplug (BLeaf i es) p" and p: "pshape (border t) 0 p" "length p = depth (broot t)"
    and new: "length es' \<le> border t" "kasc (fbef p @ leaf_items es' @ faft p)"
      "list_all (\<lambda>e. fst e \<noteq> [] \<and> snd e \<noteq> None \<and> snd e \<noteq> Some []) es'"
    and n: "n = total_keys t + of_nat (length es') - of_nat (length es)"
  shows "btree_inv (t\<lparr>broot := bplug (BLeaf i es') p, total_keys := n, bwrite_count := w, bdelete_count := x\<rparr>)"
proof -
  let ?r = "bplug (BLeaf i es') p"
  have s: "shape (border t) (length p) ?r" using shape_bplug[of "border t" 0 "BLeaf i es'" p] p(1) new(1) by simp
  have d: "depth ?r = depth (broot t)" using depth_shape[OF s] p(2) by simp
  have fl: "flat ?r = fbef p @ leaf_items es' @ faft p" "flat (broot t) = fbef p @ leaf_items es @ faft p"
    using flat_bplug[OF p(1)] r by simp_all
  have e: "entries ?r = ents (lbef p) @ es' @ ents (laft p)" "entries (broot t) = ents (lbef p) @ es @ ents (laft p)"
    using r by (simp_all add: entries_bplug)
  have "leaf_ids ?r = leaf_ids (broot t)" "inodes ?r = inodes (broot t)"
    using r by (simp_all add: leaf_ids_def leaves_bplug inodes_bplug)
  with inv s d fl e new n p(2) show ?thesis
    by (auto simp: btree_inv_def Let_def list_all_iff leaf_items_def)
qed

section \<open>Insertion\<close>

lemma ins_at_pos:
  fixes es :: "btree_entry list"
  assumes "sorted_wrt (<) (map fst es)" "k \<notin> fst ` set es"
  defines "j \<equiv> pos_of (map fst es) k"
  shows "(\<forall>e \<in> set (take j es). fst e < k) \<and> (\<forall>e \<in> set (drop j es). k < fst e)"
proof -
  have tk: "take j (map fst es) = takeWhile (\<lambda>x. x < k) (map fst es)" "drop j (map fst es) = dropWhile (\<lambda>x. x < k) (map fst es)"
    by (simp_all only: j_def pos_of_def takeWhile_eq_take[symmetric] dropWhile_eq_drop[symmetric])
  have "\<forall>x \<in> set (take j (map fst es)). x < k" unfolding tk by (auto dest: set_takeWhileD)
  moreover have "\<forall>x \<in> set (drop j (map fst es)). k < x"
  proof (cases "drop j (map fst es)")
    case (Cons x xs)
    then have "\<not> x < k" using tk(2) hd_dropWhile[of "\<lambda>x. x < k" "map fst es"] by simp
    moreover have "x \<in> set (map fst es)" using Cons by (metis in_set_dropD list.set_intros(1))
    ultimately have "k < x" using assms(2) by force
    moreover have "sorted_wrt (<) (x # xs)" using assms(1) Cons by (metis sorted_wrt_drop)
    ultimately show ?thesis using Cons by auto
  qed simp
  ultimately show ?thesis by (auto simp: take_map drop_map)
qed

lemma map_of_ins_at:
  fixes es :: "btree_entry list"
  assumes "\<forall>e \<in> set (take j es). fst e < k"
  shows "map_of (ins_at j (k, v) es) = (map_of es)(k := Some v)"
proof -
  have *: "map_of (as @ (k, v) # bs) = (map_of (as @ bs))(k := Some v)" if "map_of as k = None" for as bs
    using that by (auto simp: fun_eq_iff map_add_def split: option.splits)
  have "map_of (take j es) k = None" using assms by (force simp: map_of_eq_None_iff)
  from *[OF this, of "drop j es"] show ?thesis by (simp add: ins_at_def)
qed

lemma kasc_ins_at:
  assumes "kasc (fbef p @ leaf_items es @ faft p)" "around k p"
    "(\<forall>e \<in> set (take j es). fst e < k) \<and> (\<forall>e \<in> set (drop j es). k < fst e)"
  shows "kasc (fbef p @ leaf_items (ins_at j (k, v) es) @ faft p)"
proof -
  have "leaf_items es = leaf_items (take j es) @ leaf_items (drop j es)" by (simp flip: leaf_items_simps(3))
  with assms(1) have "kasc ((fbef p @ leaf_items (take j es)) @ (leaf_items (drop j es) @ faft p))" by simp
  then have "kasc ((fbef p @ leaf_items (take j es)) @ (k, True) # (leaf_items (drop j es) @ faft p))"
    by (rule kasc_insert) (use assms(2,3) in \<open>auto simp: around_def leaf_items_def\<close>)
  then show ?thesis by (simp add: ins_at_def)
qed

lemma map_of_update_nth:
  fixes es :: "btree_entry list"
  assumes "sorted_wrt (<) (map fst es)" "j < length es" "fst (es ! j) = k"
  shows "map_of (es[j := (k, v)]) = (map_of es)(k := Some v)"
proof -
  have "distinct (map fst es)" using assms(1) by (simp add: strict_sorted_iff)
  with assms(2,3) show ?thesis
  proof (induction es arbitrary: j)
    case (Cons e es)
    show ?case
    proof (cases j)
      case (Suc i)
      with Cons.prems have "fst (es ! i) = k" "i < length es" "distinct (map fst es)" by simp_all
      moreover from this Cons.prems have "fst e \<noteq> k" by (metis distinct.simps(2) image_eqI list.simps(9) list.set_map nth_mem)
      ultimately show ?thesis using Suc Cons by (auto simp: fun_eq_iff)
    qed (use Cons.prems in \<open>auto simp: fun_eq_iff\<close>)
  qed simp
qed

definition btree_accepts :: "string \<Rightarrow> string \<Rightarrow> bool" where
  "btree_accepts k v \<longleftrightarrow> k \<noteq> [] \<and> length k \<le> BTREE_KEY_MAX_LEN \<and> v \<noteq> [] \<and> length v \<le> BTREE_VALUE_MAX_LEN"

lemma content_eq:
  assumes "map_of (entries (broot t')) = (map_of (entries (broot t)))(k := Some (Some v))"
  shows "btree_content t' = (btree_content t)(k \<mapsto> v)"
  using assms by (auto simp: fun_eq_iff btree_content_def)

text \<open>Linking a leaf into the chain of the leaves in order.\<close>

lemma chain_insert_split:
  "distinct (xs @ i # ys) \<Longrightarrow> chain_insert i j (xs @ i # ys) = xs @ i # j # ys"
  by (induction xs) auto

lemma last_insert: "last (xs @ i # j # ys) = (if ys = [] then j else last (xs @ i # ys))"
  by (cases ys) auto

lemma distinct_last: "distinct (xs @ i # ys) \<Longrightarrow> last (xs @ i # ys) = i \<longleftrightarrow> ys = []"
  by (cases ys rule: rev_cases) auto

lemma inv_fields:
  assumes "btree_inv t"
  shows "3 \<le> border t" "border t \<le> 1000" "list_all (\<lambda>x. fst x \<noteq> []) (flat (broot t))"
    "list_all (\<lambda>e. snd e \<noteq> None \<and> snd e \<noteq> Some []) (entries (broot t))"
    "leaf_chain t = leaf_ids (broot t)" "distinct (leaf_chain t)" "last_leaf t = last (leaf_chain t)"
  using assms by (auto simp: btree_inv_def Let_def)

lemma leaf_ok:
  assumes inv: "btree_inv t" and r: "broot t = bplug (BLeaf i es) p" and p: "pshape (border t) 0 p"
  shows "list_all (\<lambda>e. fst e \<noteq> [] \<and> snd e \<noteq> None \<and> snd e \<noteq> Some []) es"
proof -
  have "list_all (\<lambda>x. fst x \<noteq> []) (leaf_items es)" "list_all (\<lambda>e. snd e \<noteq> None \<and> snd e \<noteq> Some []) es"
    using inv_fields(3,4)[OF inv] r by (simp_all add: flat_bplug[OF p] entries_bplug)
  then show ?thesis by (simp add: list_all_iff leaf_items_def)
qed

lemma insert_leaf_present:
  assumes inv: "btree_inv t" and r: "broot t = bplug (BLeaf i es) p" and p: "pshape (border t) 0 p" "length p = depth (broot t)"
    and a: "around k p" "length es \<le> border t" "kasc (fbef p @ leaf_items es @ faft p)" "sorted_wrt (<) (map fst es)"
    and k: "k \<in> fst ` set es" "v \<noteq> []"
  shows "\<exists>t'. btree_insert_leaf t [] i es p k v = Inr (KV_ERR_NONE, t', []) \<and> btree_inv t' \<and>
    btree_content t' = (btree_content t)(k \<mapsto> v)"
proof -
  define j where "j = pos_of (map fst es) k"
  let ?es = "es[j := (k, Some v)]"
  have j: "j < length es" "fst (es ! j) = k" using pos_of_hit[OF a(4), of k] k by (auto simp: j_def)
  let ?t = "t\<lparr>broot := bplug (BLeaf i ?es) p\<rparr>"
  have "btree_insert_leaf t [] i es p k v = Inr (KV_ERR_NONE, ?t, [])"
    using find_key_sorted(2)[OF a(4), of k] k j by (simp add: btree_insert_leaf_def Let_def flip: j_def)
  moreover have li: "leaf_items ?es = leaf_items es"
    using j by (simp add: leaf_items_def map_update) (metis list_update_id nth_map)
  from leaf_ok[OF inv r p(1)] have "list_all (\<lambda>e. fst e \<noteq> [] \<and> snd e \<noteq> None \<and> snd e \<noteq> Some []) ?es"
    using j k(2) nth_mem[OF j(1)] by (auto simp: list_all_iff dest!: set_update_subset_insert[THEN subsetD])
  then have "btree_inv (t\<lparr>broot := bplug (BLeaf i ?es) p, total_keys := total_keys t,
      bwrite_count := bwrite_count t, bdelete_count := bdelete_count t\<rparr>)"
    using a li by (intro leaf_replace[OF inv r p]) simp_all
  then have "btree_inv ?t" by simp
  moreover have "map_of (entries (broot ?t)) = (map_of (entries (broot t)))(k := Some (Some v))"
    using around_entries[OF p(1) a(1)] map_of_update_nth[OF a(4) j]
    by (simp add: entries_bplug r map_of_around del: map_of_append)
  ultimately show ?thesis using content_eq by blast
qed

lemma insert_leaf_room:
  assumes inv: "btree_inv t" and r: "broot t = bplug (BLeaf i es) p" and p: "pshape (border t) 0 p" "length p = depth (broot t)"
    and a: "around k p" "length es < border t" "kasc (fbef p @ leaf_items es @ faft p)" "sorted_wrt (<) (map fst es)"
    and k: "k \<notin> fst ` set es" "k \<noteq> []" "v \<noteq> []"
  shows "\<exists>t'. btree_insert_leaf t [] i es p k v = Inr (KV_ERR_NONE, t', []) \<and> btree_inv t' \<and>
    btree_content t' = (btree_content t)(k \<mapsto> v)"
proof -
  define j where "j = pos_of (map fst es) k"
  let ?es = "ins_at j (k, Some v) es"
  note pos = ins_at_pos[OF a(4) k(1), folded j_def]
  have j: "j \<le> length es" using length_takeWhile_le[of "\<lambda>x. x < k" "map fst es"] by (simp add: j_def pos_of_def)
  let ?t = "t\<lparr>broot := bplug (BLeaf i ?es) p, total_keys := total_keys t + 1, bwrite_count := bwrite_count t + 1\<rparr>"
  have "btree_node_insert_at (border t) [] es (int j) k v = Inr (KV_ERR_NONE, ?es, [])"
    using j a(2) k by (simp add: btree_node_insert_at_def btree_node_is_full_def)
  then have "btree_insert_leaf t [] i es p k v = Inr (KV_ERR_NONE, ?t, [])"
    using find_key_sorted[OF a(4), of k] k(1) a(2)
    by (simp add: btree_insert_leaf_def btree_node_is_full_def flip: j_def)
  moreover from leaf_ok[OF inv r p(1)] have "list_all (\<lambda>e. fst e \<noteq> [] \<and> snd e \<noteq> None \<and> snd e \<noteq> Some []) ?es"
    using k by (auto simp: list_all_iff ins_at_def dest: in_set_takeD in_set_dropD)
  then have "btree_inv (t\<lparr>broot := bplug (BLeaf i ?es) p, total_keys := total_keys t + 1,
      bwrite_count := bwrite_count t + 1, bdelete_count := bdelete_count t\<rparr>)"
    using a j kasc_ins_at[OF a(3,1) pos] by (intro leaf_replace[OF inv r p]) (simp_all add: ins_at_def)
  then have "btree_inv ?t" by simp
  moreover have "map_of (entries (broot ?t)) = (map_of (entries (broot t)))(k := Some (Some v))"
    using around_entries[OF p(1) a(1)] map_of_ins_at[of j es k "Some v"] pos
    by (simp add: entries_bplug r map_of_around del: map_of_append)
  ultimately show ?thesis using content_eq by blast
qed

text \<open>Cutting a full leaf: the first key of the right half separates the halves.\<close>

lemma kasc_cut:
  assumes "kasc (xs @ leaf_items es @ ys)" "0 < j" "j < length es"
  shows "kasc (xs @ leaf_items (take j es) @ (fst (es ! j), False) # leaf_items (drop j es) @ ys)"
proof -
  obtain i where i: "j = Suc i" using assms(2) by (cases j) auto
  have tk: "take j es = take i es @ [es ! i]" "drop j es = es ! j # drop (Suc j) es"
    using i assms(3) by (simp_all add: take_Suc_conv_app_nth Cons_nth_drop_Suc)
  have "es = take i es @ es ! i # es ! j # drop (Suc j) es" using tk by (metis append.assoc append_Cons append_Nil append_take_drop_id)
  with assms(1) have "kasc ((xs @ leaf_items (take i es)) @ (fst (es ! i), True) # (fst (es ! j), True) #
      leaf_items (drop (Suc j) es) @ ys)" by (metis append.assoc append_Cons leaf_items_simps(2,3))
  from kasc_separate[OF this] show ?thesis unfolding tk by simp
qed

lemma inv_of_split:
  assumes inv: "btree_inv t" and r: "broot t = bplug (BLeaf i es) p" and p: "pshape (border t) 0 p" "length p = depth (broot t)"
    and root: "shape (border t) (length p + dh) root" "inodes root = pinodes p + dn"
      "map fst (leaves root) = map fst (lbef p) @ i # next_addr t # map fst (laft p)"
      "entries root = ents (lbef p) @ temp @ ents (laft p)" "length temp = Suc (length es)"
    and ok: "kasc (flat root)" "list_all (\<lambda>x. fst x \<noteq> []) (flat root)"
      "list_all (\<lambda>e. fst e \<noteq> [] \<and> snd e \<noteq> None \<and> snd e \<noteq> Some []) temp"
  shows "btree_inv (grown (t\<lparr>leaf_chain := chain_insert i (next_addr t) (leaf_chain t),
    last_leaf := (if last (leaf_chain t) = i then next_addr t else last_leaf t),
    leaf_nodes := leaf_nodes t + 1, total_keys := total_keys t + 1, next_addr := next_addr t + 1\<rparr>) root dh dn)"
proof -
  let ?xs = "map fst (lbef p)" and ?ys = "map fst (laft p)"
  have ch: "leaf_chain t = ?xs @ i # ?ys"
    using inv_fields(5)[OF inv] r by (simp add: leaf_ids_def leaves_bplug)
  with inv_fields(6)[OF inv] have di: "distinct (?xs @ i # ?ys)" by simp
  note lst = distinct_last[OF di] last_insert[of ?xs i "next_addr t" ?ys] and ci = chain_insert_split[OF di]
  have e: "entries (broot t) = ents (lbef p) @ es @ ents (laft p)" using r by (simp add: entries_bplug)
  have n: "inodes (broot t) = pinodes p" using r by (simp add: inodes_bplug)
  have fresh: "list_all (\<lambda>x. x < next_addr t) (?xs @ i # ?ys)" using inv unfolding btree_inv_def Let_def ch by blast
  then have di': "distinct (?xs @ i # next_addr t # ?ys)" using di by (auto simp: list_all_iff)
  have hd: "hd (?xs @ i # next_addr t # ?ys) = hd (?xs @ i # ?ys)" by (cases "lbef p") auto
  from inv root ok ci ch e n fresh di' hd lst depth_shape[OF root(1)] p(2) show ?thesis
    by (auto simp: btree_inv_def Let_def grown_def leaf_ids_def list_all_iff less_Suc_eq)
qed

lemma insert_leaf_split:
  assumes inv: "btree_inv t" and r: "broot t = bplug (BLeaf i es) p" and p: "pshape (border t) 0 p" "length p = depth (broot t)"
    and a: "around k p" "length es = border t" "kasc (fbef p @ leaf_items es @ faft p)" "sorted_wrt (<) (map fst es)"
    and k: "k \<notin> fst ` set es" "k \<noteq> []" "v \<noteq> []"
  shows "\<exists>t'. btree_insert_leaf t [] i es p k v = Inr (KV_ERR_NONE, t', []) \<and> btree_inv t' \<and>
    btree_content t' = (btree_content t)(k \<mapsto> v)"
proof -
  define j where "j = pos_of (map fst es) k"
  define temp where "temp = ins_at j (k, Some v) es"
  define sp where "sp = (border t + 1) div 2"
  define left where "left = BLeaf i (take sp temp)"
  define right where "right = BLeaf (next_addr t) (drop sp temp)"
  let ?sep = "fst (temp ! sp)" and ?t1 = "t\<lparr>leaf_chain := chain_insert i (next_addr t) (leaf_chain t),
    last_leaf := (if last (leaf_chain t) = i then next_addr t else last_leaf t),
    leaf_nodes := leaf_nodes t + 1, total_keys := total_keys t + 1, next_addr := next_addr t + 1\<rparr>"
  note pos = ins_at_pos[OF a(4) k(1), folded j_def] and m = inv_fields(1,2)[OF inv]
  have j: "j \<le> length es" using length_takeWhile_le[of "\<lambda>x. x < k" "map fst es"] by (simp add: j_def pos_of_def)
  have len: "length temp = border t + 1" "0 < sp" "sp < length temp" "length temp - sp \<le> border t"
    using a(2) j m by (auto simp: temp_def ins_at_def sp_def)
  from leaf_ok[OF inv r p(1)] have ok: "list_all (\<lambda>e. fst e \<noteq> [] \<and> snd e \<noteq> None \<and> snd e \<noteq> Some []) temp"
    using k by (auto simp: temp_def list_all_iff ins_at_def dest: in_set_takeD in_set_dropD)
  then have sep: "?sep \<noteq> []" using len(3) by (simp add: list_all_length)
  have asc: "kasc (fbef p @ flat left @ (?sep, False) # flat right @ faft p)"
    using kasc_cut[OF kasc_ins_at[OF a(3,1) pos, of "Some v", folded temp_def] len(2,3)]
    by (simp add: left_def right_def)
  have old: "flat (broot t) = fbef p @ leaf_items es @ faft p" using r by (simp add: flat_bplug[OF p(1)])
  have ne: "list_all (\<lambda>x. fst x \<noteq> []) (fbef p @ flat left @ (?sep, False) # flat right @ faft p)"
    using inv_fields(3)[OF inv] old ok sep
    by (fastforce simp: list_all_iff left_def right_def leaf_items_def dest: in_set_takeD in_set_dropD)
  obtain root dh dn where ins: "btree_insert_to_parent p ?t1 [] left right ?sep = Inr (KV_ERR_NONE, grown ?t1 root dh dn, [])"
    and root: "shape (border t) (length p + dh) root" "inodes root = pinodes p + dn"
      "flat root = fbef p @ flat left @ (?sep, False) # flat right @ faft p"
      "leaves root = lbef p @ leaves left @ leaves right @ laft p"
    using insert_to_parent_ok[of "border t" 0 p left right ?sep ?t1] p(1) len asc ne m
    by (auto simp: left_def right_def)
  have "btree_split_leaf_node t [] i es p k v = btree_insert_to_parent p ?t1 [] left right ?sep"
    using find_key_sorted(1)[OF a(4), of k] k m sep
    by (simp add: btree_split_leaf_node_def Let_def left_def right_def temp_def sp_def flip: j_def)
  then have "btree_insert_leaf t [] i es p k v = Inr (KV_ERR_NONE, grown ?t1 root dh dn, [])"
    using find_key_sorted(2)[OF a(4), of k] k(1) a(2) ins by (simp add: btree_insert_leaf_def btree_node_is_full_def)
  moreover have e: "entries root = ents (lbef p) @ temp @ ents (laft p)"
    by (simp add: entries_def root(4) ents_def left_def right_def)
  then have "map_of (entries root) = (map_of (entries (broot t)))(k := Some (Some v))"
    using around_entries[OF p(1) a(1)] map_of_ins_at[of j es k "Some v"] pos
    by (simp add: entries_bplug r map_of_around temp_def del: map_of_append)
  then have "btree_content (grown ?t1 root dh dn) = (btree_content t)(k \<mapsto> v)"
    by (intro content_eq) (simp add: grown_def)
  moreover have "btree_inv (grown ?t1 root dh dn)"
    using inv_of_split[OF inv r p, where temp = temp] root e asc ne ok a(2) len(1)
    by (simp add: left_def right_def)
  ultimately show ?thesis by blast
qed


section \<open>Set and get\<close>

lemma insert_ok:
  assumes inv: "btree_inv t" and k: "k \<noteq> []" "v \<noteq> []"
  shows "\<exists>t'. btree_insert_complete t [] k v = Inr (KV_ERR_NONE, t', []) \<and> btree_inv t' \<and>
    btree_content t' = (btree_content t)(k \<mapsto> v)"
proof -
  obtain i es p where d: "btree_descend child_index k (broot t) [] = Inr (i, es, p)" "broot t = bplug (BLeaf i es) p"
    "pshape (border t) 0 p" "around k p" "length p = depth (broot t)" "length es \<le> border t"
    "kasc (fbef p @ leaf_items es @ faft p)" "sorted_wrt (<) (map fst es)"
    using leaf_at[OF inv, of child_index k] by blast
  consider "k \<in> fst ` set es" | "k \<notin> fst ` set es" "length es < border t" | "k \<notin> fst ` set es" "length es = border t"
    using d(6) by linarith
  then have "\<exists>t'. btree_insert_leaf t [] i es p k v = Inr (KV_ERR_NONE, t', []) \<and> btree_inv t' \<and>
    btree_content t' = (btree_content t)(k \<mapsto> v)"
    using insert_leaf_present[OF inv d(2,3,5,4,6-8)] insert_leaf_room[OF inv d(2,3,5,4) _ d(7,8)]
      insert_leaf_split[OF inv d(2,3,5,4) _ d(7,8)] k by cases auto
  with d(1) show ?thesis by (simp add: btree_insert_complete_def btree_insert_recursive_def)
qed

lemma search_ok:
  assumes inv: "btree_inv t"
  shows "btree_search_internal t [] k = Inr (btree_content t k, [])"
proof -
  obtain i es p where d: "btree_descend child_index k (broot t) [] = Inr (i, es, p)" "broot t = bplug (BLeaf i es) p"
    "pshape (border t) 0 p" "sorted_wrt (<) (map fst es)" "map_of (entries (broot t)) k = map_of es k"
    using leaf_at[OF inv, of child_index k] by blast
  show ?thesis
  proof (cases "k \<in> fst ` set es")
    case True
    define j where "j = pos_of (map fst es) k"
    have j: "j < length es" "fst (es ! j) = k" using pos_of_hit[OF d(4), of k] True by (auto simp: j_def)
    obtain v where v: "es ! j = (k, Some v)" "v \<noteq> []"
      using leaf_ok[OF inv d(2,3)] j by (cases "es ! j") (auto simp: list_all_length)
    have "distinct (map fst es)" using d(4) by (simp add: strict_sorted_iff)
    then have "map_of es k = Some (Some v)" using j(1) v(1) by (metis map_of_is_SomeI nth_mem)
    with d(5) have "btree_content t k = Some v" by (simp add: btree_content_def)
    with v d(1) find_key_sorted(2)[OF d(4), of k] True show ?thesis
      by (simp add: btree_search_internal_def flip: j_def)
  next
    case False
    then have "map_of es k = None" by (simp add: map_of_eq_None_iff)
    with d False find_key_sorted(2)[OF d(4), of k] show ?thesis
      by (simp add: btree_search_internal_def btree_content_def)
  qed
qed

end
