(* ===== verification/BTree_Delete.thy ===== *)
theory BTree_Delete
  imports BTree_Engine
begin

text \<open>
  Deletion in the B+-tree: borrowing and merging keep the invariant and the entries, and the
  adapter's operations are an instance of the engine contract.
\<close>

section \<open>Two neighbouring children\<close>

text \<open>A parent seen as two neighbouring children with the key between them, and what is beside them.\<close>

abbreviation two :: "btree_frame \<Rightarrow> btree_node \<Rightarrow> string \<Rightarrow> btree_node \<Rightarrow> btree_node" where
  "two f a s b \<equiv> BNode (lkeys f @ s # rkeys f) (lsibs f @ a # b # rsibs f)"

definition two_ok :: "nat \<Rightarrow> nat \<Rightarrow> btree_frame \<Rightarrow> bool" where
  "two_ok m d f \<longleftrightarrow> length (lkeys f) = length (lsibs f) \<and> length (rkeys f) = length (rsibs f) \<and>
     length (lkeys f) + length (rkeys f) < m \<and> list_all (shape m d) (lsibs f) \<and> list_all (shape m d) (rsibs f)"

lemma two_pshape: "two_ok m d f \<Longrightarrow> pshape m (Suc d) p \<Longrightarrow> pshape m d (f # p)"
  by (cases f) (auto simp: two_ok_def)

lemma two_flat:
  assumes "two_ok m d f" "pshape m (Suc d) p"
  shows "flat (bplug (two f a s b) p) = fbef (f # p) @ flat a @ (s, False) # flat b @ faft (f # p)"
proof (cases f)
  case (BFrame lk rk ls rs)
  have "flat (two f a s b) = lweave lk (map flat ls) @ flat a @ (s, False) # flat b @ rweave rk (map flat rs)"
    using flat_node[of lk ls "s # rk" "b # rs" a] assms(1) BFrame by (simp add: two_ok_def)
  with flat_bplug[OF assms(2), of "two f a s b"] BFrame show ?thesis by simp
qed

lemma two_leaves: "leaves (bplug (two f a s b) p) = lbef (f # p) @ leaves a @ leaves b @ laft (f # p)"
  by (cases f) (simp add: leaves_bplug)

lemma two_inodes: "inodes (bplug (two f a s b) p) = inodes a + inodes b + pinodes (f # p)"
  by (cases f) (simp add: inodes_bplug)

lemma two_shape: "two_ok m d f \<Longrightarrow> shape m d a \<Longrightarrow> shape m d b \<Longrightarrow> shape m (Suc d) (two f a s b)"
  by (auto simp: two_ok_def)

lemma inv_at:
  assumes "btree_inv (t\<lparr>broot := bplug n p\<rparr>)" "pshape (border t) d p" "shape (border t) d n"
  shows "depth (bplug n p) = d + length p"
  using depth_shape[OF shape_bplug[OF assms(3,2)]] .

lemma kasc_join: "kasc (xs @ ys @ x # zs) \<Longrightarrow> kasc (xs @ ys @ zs)"
  by (auto simp: sorted_wrt_append)

text \<open>A new cut of two leaves' entries: borrowing in either direction.\<close>

lemma two_entries: "entries (bplug (two f a s b) p) = ents (lbef (f # p)) @ entries a @ entries b @ ents (laft (f # p))"
  by (simp add: entries_def two_leaves ents_def)

lemma recut_inv:
  fixes es es' :: "btree_entry list"
  assumes inv: "btree_inv (t\<lparr>broot := bplug (two f (BLeaf i es) s (BLeaf j es')) p\<rparr>)"
    and p: "pshape (border t) (Suc 0) p" "two_ok (border t) 0 f" and sz: "length es \<le> border t" "length es' \<le> border t"
    and xs: "es @ es' = xs"
    and c: "0 < c" "c < length xs" "c \<le> border t" "length xs - c \<le> border t"
  shows "btree_inv (t\<lparr>broot := bplug (two f (BLeaf i (take c xs)) (fst (xs ! c)) (BLeaf j (drop c xs))) p\<rparr>)"
    and "entries (bplug (two f (BLeaf i (take c xs)) (fst (xs ! c)) (BLeaf j (drop c xs))) p) =
      entries (bplug (two f (BLeaf i es) s (BLeaf j es')) p)"
proof -
  let ?old = "two f (BLeaf i es) s (BLeaf j es')" and ?new = "two f (BLeaf i (take c xs)) (fst (xs ! c)) (BLeaf j (drop c xs))"
  let ?l = "fbef (f # p)" and ?r = "faft (f # p)"
  note fl = two_flat[OF p(2,1)] and sh = two_shape[OF p(2)]
  have s: "shape (border t) (Suc 0) ?old" "shape (border t) (Suc 0) ?new" using sz c by (intro sh; simp)+
  show e: "entries (bplug ?new p) = entries (bplug ?old p)"
    by (simp only: two_entries entries_leaf append_assoc[symmetric] append_take_drop_id)
      (simp only: append_assoc append_take_drop_id xs[symmetric])
  have asc0: "kasc (?l @ leaf_items es @ (s, False) # leaf_items es' @ ?r)"
    and ne: "list_all (\<lambda>x. fst x \<noteq> []) (?l @ leaf_items es @ (s, False) # leaf_items es' @ ?r)"
    using inv fl by (simp_all add: btree_inv_def Let_def del: fbef.simps faft.simps)
  from kasc_join[OF asc0] have "kasc (?l @ leaf_items xs @ ?r)" by (simp flip: xs)
  note asc = kasc_cut[OF this c(1,2)]
  have "list_all (\<lambda>x. fst x \<noteq> []) (leaf_items xs)" "list_all (\<lambda>x. fst x \<noteq> []) ?l" "list_all (\<lambda>x. fst x \<noteq> []) ?r"
    using ne by (simp_all flip: xs del: fbef.simps faft.simps)
  then have ne': "list_all (\<lambda>x. fst x \<noteq> []) (?l @ leaf_items (take c xs) @ (fst (xs ! c), False) # leaf_items (drop c xs) @ ?r)"
    using c(2) by (fastforce simp: list_all_iff leaf_items_def dest: in_set_takeD in_set_dropD simp del: fbef.simps faft.simps)
  have "leaf_ids (bplug ?new p) = leaf_ids (bplug ?old p)" "inodes (bplug ?new p) = inodes (bplug ?old p)"
    by (simp_all add: leaf_ids_def two_leaves two_inodes)
  moreover have "depth (bplug ?new p) = depth (bplug ?old p)" "shape (border t) (depth (bplug ?new p)) (bplug ?new p)"
    using depth_shape shape_bplug[OF s(1) p(1)] shape_bplug[OF s(2) p(1)] by metis+
  ultimately show "btree_inv (t\<lparr>broot := bplug ?new p\<rparr>)"
    using inv e asc ne' fl by (auto simp: btree_inv_def Let_def simp del: fbef.simps faft.simps)
qed


text \<open>Merging two leaves, with the right one taken out of the chain; merging two internal nodes.\<close>

lemma chain_unlink_pair: "distinct (xs @ i # j # ys) \<Longrightarrow> chain_unlink i j (xs @ i # j # ys) = xs @ i # ys"
  by (induction xs) (auto simp: chain_unlink_def)

lemma bfill_leaves: "leaves (bplug (bfill n f) p) = lbef (f # p) @ leaves n @ laft (f # p)"
  using leaves_bplug[of n "f # p"] by simp

lemma merge_leaves_inv:
  assumes inv: "btree_inv (t\<lparr>broot := bplug (two f (BLeaf i es) s (BLeaf j es')) p\<rparr>)"
    and p: "pshape (border t) (Suc 0) p" "two_ok (border t) 0 f"
    and sz: "length es + length es' \<le> border t"
  shows "btree_inv (t\<lparr>leaf_chain := chain_unlink i j (leaf_chain t),
      last_leaf := (if last (leaf_chain t) = j then i else last_leaf t),
      leaf_nodes := leaf_nodes t - 1, broot := bplug (bfill (BLeaf i (es @ es')) f) p\<rparr>)"
    and "entries (bplug (bfill (BLeaf i (es @ es')) f) p) = entries (bplug (two f (BLeaf i es) s (BLeaf j es')) p)"
proof -
  let ?old = "two f (BLeaf i es) s (BLeaf j es')" and ?new = "bfill (BLeaf i (es @ es')) f"
  let ?l = "fbef (f # p)" and ?r = "faft (f # p)" and ?xs = "map fst (lbef (f # p))" and ?ys = "map fst (laft (f # p))"
  note fl = two_flat[OF p(2,1)] and p' = two_pshape[OF p(2,1)]
  have s: "shape (border t) (Suc 0) ?old" "shape (border t) (Suc 0) ?new"
    using sz by (intro two_shape[OF p(2)] shape_bfill[OF _ p']; simp)+
  show e: "entries (bplug ?new p) = entries (bplug ?old p)"
    using entries_bplug[of "BLeaf i (es @ es')" "f # p"] by (simp add: two_entries)
  have asc: "kasc (?l @ leaf_items es @ (s, False) # leaf_items es' @ ?r)"
    and ne: "list_all (\<lambda>x. fst x \<noteq> []) (?l @ leaf_items es @ (s, False) # leaf_items es' @ ?r)"
    using inv fl by (simp_all add: btree_inv_def Let_def del: fbef.simps faft.simps)
  have ch: "leaf_chain t = ?xs @ i # j # ?ys"
    using inv_fields(5)[OF inv] by (simp add: leaf_ids_def two_leaves del: lbef.simps laft.simps)
  have old: "distinct (leaf_chain t)" "list_all (\<lambda>x. x < next_addr t) (leaf_chain t)" "first_leaf t = hd (leaf_chain t)"
    "last_leaf t = last (leaf_chain t)" "leaf_nodes t = of_nat (length (leaf_chain t))"
    using inv by (auto simp: btree_inv_def Let_def)
  define zs where "zs = ?xs @ i # ?ys"
  have di: "distinct (?xs @ i # j # ?ys)" using old(1) unfolding ch .
  have zs: "chain_unlink i j (leaf_chain t) = zs" "distinct zs" "list_all (\<lambda>x. x < next_addr t) zs"
    "first_leaf t = hd zs" "leaf_nodes t - 1 = of_nat (length zs)"
    using old chain_unlink_pair[OF di] unfolding ch zs_def by (simp_all add: hd_append del: lbef.simps laft.simps)
  have ls: "(if last (leaf_chain t) = j then i else last_leaf t) = last zs"
    using di unfolding old(4) ch zs_def by (cases ?ys rule: rev_cases) auto
  have ids: "leaf_ids (bplug ?new p) = zs" "inodes (bplug ?new p) = inodes (bplug ?old p)"
    using inodes_bplug[of "BLeaf i (es @ es')" "f # p"] by (simp_all add: leaf_ids_def bfill_leaves two_inodes zs_def)
  have fl': "flat (bplug ?new p) = ?l @ leaf_items es @ leaf_items es' @ ?r"
    using flat_bplug[OF p', of "BLeaf i (es @ es')"] by simp
  moreover have "depth (bplug ?new p) = depth (bplug ?old p)" "shape (border t) (depth (bplug ?new p)) (bplug ?new p)"
    using depth_shape shape_bplug[OF s(1) p(1)] shape_bplug[OF s(2) p(1)] by metis+
  ultimately show "btree_inv (t\<lparr>leaf_chain := chain_unlink i j (leaf_chain t),
      last_leaf := (if last (leaf_chain t) = j then i else last_leaf t),
      leaf_nodes := leaf_nodes t - 1, broot := bplug ?new p\<rparr>)"
    unfolding ls zs(1,5) using inv e kasc_join[OF asc] ne zs(2-4) ids
    by (simp add: btree_inv_def Let_def del: fbef.simps faft.simps lbef.simps laft.simps bfill.simps)
qed


lemma flat_merge:
  assumes "length cs = Suc (length ks)" "length cs' = Suc (length ks')"
  shows "flat (BNode (ks @ s # ks') (cs @ cs')) = flat (BNode ks cs) @ (s, False) # flat (BNode ks' cs')"
proof -
  obtain c cs1 c' cs1' where "cs = c # cs1" "cs' = c' # cs1'" using assms by (metis length_Suc_conv)
  with assms show ?thesis by simp
qed

lemma merge_nodes_inv:
  assumes inv: "btree_inv (t\<lparr>broot := bplug (two f (BNode ks cs) s (BNode ks' cs')) p\<rparr>)"
    and p: "pshape (border t) (Suc d) p" "two_ok (border t) d f"
    and sh: "shape (border t) d (BNode ks cs)" "shape (border t) d (BNode ks' cs')"
    and sz: "length ks + length ks' < border t"
  shows "btree_inv (t\<lparr>internal_nodes := internal_nodes t - 1, broot := bplug (bfill (BNode (ks @ s # ks') (cs @ cs')) f) p\<rparr>)"
    and "entries (bplug (bfill (BNode (ks @ s # ks') (cs @ cs')) f) p) =
      entries (bplug (two f (BNode ks cs) s (BNode ks' cs')) p)"
    and "shape (border t) d (BNode (ks @ s # ks') (cs @ cs'))"
proof -
  let ?n = "BNode (ks @ s # ks') (cs @ cs')"
  let ?old = "two f (BNode ks cs) s (BNode ks' cs')" and ?new = "bfill ?n f"
  note fl = two_flat[OF p(2,1)] and p' = two_pshape[OF p(2,1)]
  obtain d' where d': "d = Suc d'" using sh(1) by (cases d) auto
  show sn: "shape (border t) d ?n" using sh sz d' by simp
  have s: "shape (border t) (Suc d) ?old" "shape (border t) (Suc d) ?new"
    by (rule two_shape[OF p(2) sh], rule shape_bfill[OF sn p'])
  have len: "length cs = Suc (length ks)" "length cs' = Suc (length ks')" using sh d' by simp_all
  show e: "entries (bplug ?new p) = entries (bplug ?old p)"
    using entries_bplug[of ?n "f # p"] by (simp add: two_entries) (simp add: entries_def)
  have fl': "flat (bplug ?new p) = flat (bplug ?old p)"
    using flat_bplug[OF p', of ?n] flat_merge[OF len, of s] fl by (simp del: flat.simps)
  have "leaf_ids (bplug ?new p) = leaf_ids (bplug ?old p)" "inodes (bplug ?old p) = Suc (inodes (bplug ?new p))"
    using inodes_bplug[of ?n "f # p"] by (simp_all add: leaf_ids_def bfill_leaves two_leaves two_inodes)
  moreover have "depth (bplug ?new p) = depth (bplug ?old p)" "shape (border t) (depth (bplug ?new p)) (bplug ?new p)"
    using depth_shape shape_bplug[OF s(1) p(1)] shape_bplug[OF s(2) p(1)] by metis+
  ultimately show "btree_inv (t\<lparr>internal_nodes := internal_nodes t - 1, broot := bplug ?new p\<rparr>)"
    using inv e fl' by (auto simp: btree_inv_def Let_def)
qed


lemma merge_ok:
  assumes inv: "btree_inv (t\<lparr>broot := bplug (two f a s b) p\<rparr>)"
    and p: "pshape (border t) (Suc d) p" "two_ok (border t) d f"
    and sh: "shape (border t) d a" "shape (border t) d b" and sz: "key_count a + key_count b < border t"
  shows "\<exists>n t1. btree_merge_nodes t [] a b s = Inr (n, t1, []) \<and> border t1 = border t \<and>
    shape (border t) d n \<and> btree_inv (t1\<lparr>broot := bplug (bfill n f) p\<rparr>) \<and>
    entries (bplug (bfill n f) p) = entries (bplug (two f a s b) p)"
proof (cases d)
  case 0
  then obtain i es j es' where "a = BLeaf i es" "b = BLeaf j es'" using sh by (cases a; cases b) auto
  with 0 merge_leaves_inv[where i = i and es = es and j = j and es' = es' and t = t and f = f and s = s and p = p] assms show ?thesis
    by (auto simp: btree_merge_nodes_def key_count_def)
next
  case (Suc d')
  then obtain ks cs ks' cs' where ab: "a = BNode ks cs" "b = BNode ks' cs'" using sh by (cases a; cases b) auto
  have "s \<noteq> []" using inv_fields(3)[OF inv] two_flat[OF p(2,1)] by simp
  with ab merge_nodes_inv[where ks = ks and cs = cs and ks' = ks' and cs' = cs' and t = t and f = f and s = s and p = p and d = d] assms show ?thesis
    by (auto simp: btree_merge_nodes_def key_count_def simp del: shape.simps)
qed

section \<open>Repair after a deletion\<close>

lemma bfill_sel: "bfill n g = BNode (lkeys g @ rkeys g) (lsibs g @ n # rsibs g)"
  by (cases g) simp

text \<open>A child with its left neighbour, and with its right one, as two neighbours.\<close>

lemma left_pair:
  assumes "pshape m d (f # p)" "lsibs f \<noteq> []"
  obtains g l s where "f = BFrame (lkeys g @ [s]) (rkeys g) (lsibs g @ [l]) (rsibs g)" "two_ok m d g"
    "shape m d l" "pshape m (Suc d) p" "\<And>n. bfill n f = two g l s n"
proof -
  obtain lk rk ls rs where f: "f = BFrame lk rk ls rs" by (cases f)
  obtain ls' l where ls: "ls = ls' @ [l]" using assms(2) f by (cases ls rule: rev_cases) auto
  obtain lk' s where lk: "lk = lk' @ [s]" using assms(1) f ls by (cases lk rule: rev_cases) auto
  show thesis by (rule that[of "BFrame lk' rk ls' rs" s l]) (use assms f ls lk in \<open>auto simp: two_ok_def\<close>)
qed

lemma right_pair:
  assumes "pshape m d (f # p)" "rsibs f \<noteq> []"
  obtains g r s where "f = BFrame (lkeys g) (s # rkeys g) (lsibs g) (r # rsibs g)" "two_ok m d g"
    "shape m d r" "pshape m (Suc d) p" "\<And>n. bfill n f = two g n s r"
proof -
  obtain lk rk ls rs where f: "f = BFrame lk rk ls rs" by (cases f)
  obtain rs' r where rs: "rs = r # rs'" using assms(2) f by (cases rs) auto
  obtain rk' s where rk: "rk = s # rk'" using assms(1) f rs by (cases rk) auto
  show thesis by (rule that[of "BFrame lk rk' ls rs'" s r]) (use assms f rs rk in \<open>auto simp: two_ok_def\<close>)
qed

abbreviation fixed :: "btree_node \<Rightarrow> int \<Rightarrow> btree_t \<Rightarrow> bool" where
  "fixed n r t' \<equiv> r \<in> {KV_ERR_NONE, KV_ERR_NOT_SUPPORTED} \<and> btree_inv t' \<and> entries (broot t') = entries n"

lemma borrow_left_ok:
  assumes inv: "btree_inv (t\<lparr>broot := bplug n (f # p)\<rparr>)" and p: "pshape (border t) d (f # p)" "shape (border t) d n"
    and l: "lsibs f \<noteq> []" "key_count (last (lsibs f)) > (border t + 1) div 2" "key_count n < border t"
  shows "\<exists>r n'. borrow_left [] f n = Inr (r, n', []) \<and> fixed (bplug n (f # p)) r (t\<lparr>broot := bplug n' p\<rparr>)"
proof -
  obtain g l s where g: "f = BFrame (lkeys g @ [s]) (rkeys g) (lsibs g @ [l]) (rsibs g)" "two_ok (border t) d g"
    "shape (border t) d l" "pshape (border t) (Suc d) p" "\<And>n. bfill n f = two g l s n"
    by (rule left_pair[OF p(1) l(1)], rule that)
  show ?thesis
  proof (cases d)
    case 0
    then obtain i es j es' where ab: "l = BLeaf i es" "n = BLeaf j es'" using p(2) g(3) by (cases l; cases n) auto
    have es: "2 \<le> length es" "length es \<le> border t" "length es' < border t"
      using l g ab 0 inv_fields(1)[OF inv] by (auto simp: key_count_def)
    then obtain zs x where zs: "es = zs @ [x]" by (cases es rule: rev_cases) auto
    let ?c = "length zs" and ?xs = "es @ es'"
    have c: "take ?c ?xs = zs" "drop ?c ?xs = x # es'" "?xs ! ?c = x" "zs \<noteq> []" using zs es(1) by auto
    have "bplug n (f # p) = bplug (two g (BLeaf i es) s (BLeaf j es')) p" using g(5) ab by simp
    with recut_inv[where t = t and f = g and i = i and es = es and s = s and j = j and es' = es' and p = p and xs = ?xs and c = ?c, unfolded c(1-3)] inv g(2,4) es zs c(4) 0
    have rc: "btree_inv (t\<lparr>broot := bplug (two g (BLeaf i zs) (fst x) (BLeaf j (x # es'))) p\<rparr>)"
      "entries (bplug (two g (BLeaf i zs) (fst x) (BLeaf j (x # es'))) p) = entries (bplug n (f # p))"
      by simp_all
    have "fst x \<noteq> []" using inv_fields(3)[OF rc(1)] two_flat[OF g(2,4)] by simp
    with rc show ?thesis unfolding g(1) ab zs by (simp add: borrow_left_def)
  next
    case (Suc d')
    then obtain ks cs ks' cs' where "l = BNode ks cs" "n = BNode ks' cs'" using p(2) g(3) by (cases l; cases n) auto
    with inv g show ?thesis by (simp add: borrow_left_def)
  qed
qed


lemma borrow_right_ok:
  assumes inv: "btree_inv (t\<lparr>broot := bplug n (f # p)\<rparr>)" and p: "pshape (border t) d (f # p)" "shape (border t) d n"
    and r: "rsibs f \<noteq> []" "key_count (hd (rsibs f)) > (border t + 1) div 2" "key_count n < border t"
  shows "\<exists>r n'. borrow_right [] f n = Inr (r, n', []) \<and> fixed (bplug n (f # p)) r (t\<lparr>broot := bplug n' p\<rparr>)"
proof -
  obtain g b s where g: "f = BFrame (lkeys g) (s # rkeys g) (lsibs g) (b # rsibs g)" "two_ok (border t) d g"
    "shape (border t) d b" "pshape (border t) (Suc d) p" "\<And>n. bfill n f = two g n s b"
    by (rule right_pair[OF p(1) r(1)], rule that)
  show ?thesis
  proof (cases d)
    case 0
    then obtain i es j es' where ab: "n = BLeaf i es" "b = BLeaf j es'" using p(2) g(3) by (cases b; cases n) auto
    have es: "2 \<le> length es'" "length es' \<le> border t" "length es < border t"
      using r g ab 0 inv_fields(1)[OF inv] by (auto simp: key_count_def)
    then obtain x y zs where es': "es' = x # y # zs" by (cases es'; cases "tl es'") auto
    let ?c = "Suc (length es)" and ?xs = "es @ es'"
    have c: "take ?c ?xs = es @ [x]" "drop ?c ?xs = y # zs" "?xs ! ?c = y"
      using es' by (simp_all add: nth_append)
    have "bplug n (f # p) = bplug (two g (BLeaf i es) s (BLeaf j es')) p" using g(5) ab by simp
    with recut_inv[where t = t and f = g and i = i and es = es and s = s and j = j and es' = es' and p = p and xs = ?xs and c = ?c, unfolded c] inv g(2,4) es 0
    have rc: "btree_inv (t\<lparr>broot := bplug (two g (BLeaf i (es @ [x])) (fst y) (BLeaf j (y # zs))) p\<rparr>)"
      "entries (bplug (two g (BLeaf i (es @ [x])) (fst y) (BLeaf j (y # zs))) p) = entries (bplug n (f # p))"
      by simp_all
    have "fst y \<noteq> []" using inv_fields(3)[OF rc(1)] two_flat[OF g(2,4)] by simp
    with rc show ?thesis unfolding g(1) ab es' by (simp add: borrow_right_def)
  next
    case (Suc d')
    then obtain ks cs ks' cs' where "b = BNode ks cs" "n = BNode ks' cs'" using p(2) g(3) by (cases b; cases n) auto
    with inv g show ?thesis by (simp add: borrow_right_def)
  qed
qed

text \<open>The root that has lost its last key is replaced by its only child.\<close>

lemma shrink_root:
  assumes inv: "btree_inv (t\<lparr>broot := n\<rparr>)" and s: "shape (border t) d n"
  shows "\<exists>t'. btree_fix_after_delete [] t [] n = Inr (KV_ERR_NONE, t', []) \<and> btree_inv t' \<and> entries (broot t') = entries n"
proof (cases "\<exists>cs. n = BNode [] cs")
  case True
  then obtain c d' where n: "n = BNode [] [c]" "d = Suc d'" "shape (border t) d' c"
    using s by (cases d; cases n) (auto simp: length_Suc_conv)
  moreover have "depth n = Suc (depth c)" using n by simp
  moreover have "flat n = flat c" "leaves n = leaves c" "inodes n = Suc (inodes c)" using n by simp_all
  ultimately show ?thesis using inv depth_shape[OF n(3)]
    by (auto simp: btree_inv_def Let_def leaf_ids_def entries_def simp del: flat.simps leaves.simps inodes.simps depth.simps)
next
  case False
  then have "btree_fix_after_delete [] t [] n = Inr (KV_ERR_NONE, t\<lparr>broot := n\<rparr>, [])"
    by (cases n) (auto split: list.splits)
  with inv show ?thesis by simp
qed

lemma fix_ok:
  "btree_inv (t\<lparr>broot := bplug n p\<rparr>) \<Longrightarrow> pshape (border t) d p \<Longrightarrow> shape (border t) d n \<Longrightarrow>
     \<exists>r t'. btree_fix_after_delete p t [] n = Inr (r, t', []) \<and> fixed (bplug n p) r t'"
proof (induction p arbitrary: t n d)
  case Nil
  then show ?case using shrink_root[where t = t and n = n and d = d] by fastforce
next
  case (Cons f p)
  let ?many = "(border t + 1) div 2"
  note lend_l = borrow_left_ok[OF Cons.prems] and lend_r = borrow_right_ok[OF Cons.prems]
  have m: "3 \<le> border t" using inv_fields(1)[OF Cons.prems(1)] by simp
  have p: "pshape (border t) (Suc d) p" using Cons.prems(2) by (cases f) auto
  have up: "\<exists>r t'. obind (btree_merge_nodes t [] a b s) (\<lambda>(n', t1, h1). btree_fix_after_delete p t1 h1 (bfill n' g)) =
      Inr (r, t', []) \<and> fixed (bplug n (f # p)) r t'"
    if g: "two_ok (border t) d g" "shape (border t) d a" "shape (border t) d b" "key_count a + key_count b < border t"
      "bfill n f = two g a s b" for g a s b
  proof -
    have inv: "btree_inv (t\<lparr>broot := bplug (two g a s b) p\<rparr>)" using Cons.prems(1) g(5) by simp
    obtain n' t1 where r: "btree_merge_nodes t [] a b s = Inr (n', t1, [])" "border t1 = border t" "shape (border t) d n'"
      "btree_inv (t1\<lparr>broot := bplug (bfill n' g) p\<rparr>)" "entries (bplug (bfill n' g) p) = entries (bplug (two g a s b) p)"
      using merge_ok[OF inv p g(1-4)] by blast
    have "shape (border t) (Suc d) (bfill n' g)" using shape_bfill[OF r(3) two_pshape[OF g(1) p]] .
    with Cons.IH[where t = t1 and n = "bfill n' g" and d = "Suc d"] r p g(5) show ?thesis by fastforce
  qed
  show ?case
  proof (cases "btree_node_need_merge (border t) False (key_count n)")
    case False
    with Cons.prems show ?thesis by simp
  next
    case True
    then have n: "key_count n < border t" "\<And>x. x \<le> ?many \<Longrightarrow> x + key_count n < border t" using m
      by (auto simp: btree_node_need_merge_def zdiv_int)
    consider (bl) "lsibs f \<noteq> []" "key_count (last (lsibs f)) > ?many"
      | (br) "\<not> (lsibs f \<noteq> [] \<and> key_count (last (lsibs f)) > ?many)" "rsibs f \<noteq> []" "key_count (hd (rsibs f)) > ?many"
      | (ml) "lsibs f \<noteq> []" "key_count (last (lsibs f)) \<le> ?many" "\<not> (rsibs f \<noteq> [] \<and> key_count (hd (rsibs f)) > ?many)"
      | (mr) "lsibs f = []" "rsibs f \<noteq> []" "key_count (hd (rsibs f)) \<le> ?many"
      | (none) "lsibs f = []" "rsibs f = []" by fastforce
    then show ?thesis
    proof cases
      case bl
      from lend_l[OF bl n(1)] True bl show ?thesis by (auto simp: btree_find_left_sibling_def)
    next
      case br
      from lend_r[OF br(2,3) n(1)] True br show ?thesis
        by (auto simp: btree_find_left_sibling_def btree_find_right_sibling_def)
    next
      case ml
      obtain g l s where g: "f = BFrame (lkeys g @ [s]) (rkeys g) (lsibs g @ [l]) (rsibs g)" "two_ok (border t) d g"
        "shape (border t) d l" "\<And>n. bfill n f = two g l s n"
        by (rule left_pair[OF Cons.prems(2) ml(1)], rule that)
      have "key_count l + key_count n < border t" using n(2) ml(2) g(1) by simp
      from up[OF g(2,3) Cons.prems(3) this g(4)] ml True show ?thesis unfolding g(1)
        by (cases "rsibs g") (auto simp: btree_find_left_sibling_def btree_find_right_sibling_def bfill_sel)
    next
      case mr
      obtain g r s where g: "f = BFrame (lkeys g) (s # rkeys g) (lsibs g) (r # rsibs g)" "two_ok (border t) d g"
        "shape (border t) d r" "\<And>n. bfill n f = two g n s r"
        by (rule right_pair[OF Cons.prems(2) mr(2)], rule that)
      have "key_count n + key_count r < border t" using n(2)[of "key_count r"] mr(3) g(1) by simp
      from up[OF g(2) Cons.prems(3) g(3) this g(4)] mr True show ?thesis unfolding g(1)
        by (auto simp: btree_find_left_sibling_def btree_find_right_sibling_def bfill_sel)
    next
      case none
      from Cons.IH[where n = "bfill n f" and d = "Suc d" and t = t] Cons.prems p shape_bfill[OF Cons.prems(3,2)] none True
      show ?thesis by (simp add: btree_find_left_sibling_def btree_find_right_sibling_def)
    qed
  qed
qed


lemma map_of_del_at:
  fixes es :: "btree_entry list"
  assumes "sorted_wrt (<) (map fst es)" "j < length es" "fst (es ! j) = k"
  shows "map_of (del_at j es) = (map_of es)(k := None)"
proof -
  have es: "es = take j es @ es ! j # drop (Suc j) es" using assms(2) by (simp add: id_take_nth_drop)
  have "distinct (map fst (take j es @ es ! j # drop (Suc j) es))" using assms(1) es by (metis strict_sorted_iff)
  with assms(3) have "map_of (take j es) k = None" "map_of (drop (Suc j) es) k = None"
    by (auto simp: map_of_eq_None_iff)
  then have "map_of (del_at j es) = (map_of (take j es @ es ! j # drop (Suc j) es))(k := None)"
    using assms(3) by (auto simp: del_at_def fun_eq_iff map_add_def split: option.splits)
  with es show ?thesis by simp
qed

lemma delete_ok:
  assumes inv: "btree_inv t"
  shows "\<exists>r t'. btree_delete_complete t [] k = Inr (r, t', []) \<and> btree_inv t' \<and>
    btree_content t' = (btree_content t)(k := None) \<and>
    (if btree_content t k = None then r = KV_ERR_NOT_FOUND \<and> t' = t else r \<in> {KV_ERR_NONE, KV_ERR_NOT_SUPPORTED})"
proof -
  obtain i es p where d: "btree_descend delete_index k (broot t) [] = Inr (i, es, p)" "broot t = bplug (BLeaf i es) p"
    "pshape (border t) 0 p" "around k p" "length p = depth (broot t)" "length es \<le> border t"
    "kasc (fbef p @ leaf_items es @ faft p)" "sorted_wrt (<) (map fst es)"
    "map_of (entries (broot t)) k = map_of es k"
    using leaf_at[OF inv, of delete_index k] delete_index_child by metis
  have run: "btree_delete_complete t [] k = btree_delete_leaf t [] i es p k"
    using d(1) by (simp add: btree_delete_complete_def btree_delete_recursive_def)
  show ?thesis
  proof (cases "k \<in> fst ` set es")
    case False
    then have "btree_content t k = None" using d(9) by (simp add: btree_content_def map_of_eq_None_iff[symmetric])
    moreover from this have "(btree_content t)(k := None) = btree_content t" by (simp add: fun_upd_idem)
    moreover have "btree_delete_leaf t [] i es p k = Inr (KV_ERR_NOT_FOUND, t, [])"
      using False find_key_sorted(2)[OF d(8), of k] by (simp add: btree_delete_leaf_def)
    ultimately show ?thesis using run inv by simp
  next
    case True
    define j where "j = pos_of (map fst es) k"
    have j: "j < length es" "fst (es ! j) = k" using pos_of_hit[OF d(8), of k] True by (auto simp: j_def)
    let ?es = "del_at j es" and ?t = "t\<lparr>total_keys := total_keys t - 1, bdelete_count := bdelete_count t + 1\<rparr>"
    have step: "btree_delete_leaf t [] i es p k = btree_fix_after_delete p ?t [] (BLeaf i ?es)"
      using True find_key_sorted(2)[OF d(8), of k] j
      by (simp add: btree_delete_leaf_def btree_node_remove_at_def key_count_def flip: j_def)
    have es: "leaf_items es = leaf_items (take j es) @ (k, True) # leaf_items (drop (Suc j) es)"
      using id_take_nth_drop[OF j(1)] j(2) by (metis leaf_items_simps(2,3))
    have asc: "kasc (fbef p @ leaf_items ?es @ faft p)"
      using kasc_join[of "fbef p @ leaf_items (take j es)" "[]" "(k, True)" "leaf_items (drop (Suc j) es) @ faft p"] d(7) es
      by (simp add: del_at_def)
    have "list_all (\<lambda>e. fst e \<noteq> [] \<and> snd e \<noteq> None \<and> snd e \<noteq> Some []) ?es"
      using leaf_ok[OF inv d(2,3)] by (auto simp: list_all_iff del_at_def dest: in_set_takeD in_set_dropD)
    moreover have len: "length ?es = length es - 1" "length ?es \<le> border t" using d(6) j(1) by (simp_all add: del_at_def)
    ultimately have "btree_inv (t\<lparr>broot := bplug (BLeaf i ?es) p, total_keys := total_keys t - 1,
        bwrite_count := bwrite_count t, bdelete_count := bdelete_count t + 1\<rparr>)"
      using asc j(1) by (intro leaf_replace[OF inv d(2,3,5)]) (simp_all add: of_nat_diff)
    then have "btree_inv (?t\<lparr>broot := bplug (BLeaf i ?es) p\<rparr>)" by (simp add: btree_inv_def)
    with fix_ok[where t = ?t and n = "BLeaf i ?es" and p = p and d = 0] d(3) len
    obtain r t' where r: "btree_fix_after_delete p ?t [] (BLeaf i ?es) = Inr (r, t', [])"
      "fixed (bplug (BLeaf i ?es) p) r t'" by auto
    have "map_of (entries (broot t')) = (map_of (entries (broot t)))(k := None)"
      using r(2) around_entries[OF d(3,4)] map_of_del_at[OF d(8) j] d(2)
      by (simp add: entries_bplug map_of_around del: map_of_append)
    then have "btree_content t' = (btree_content t)(k := None)" by (auto simp: btree_content_def fun_eq_iff)
    moreover obtain v where "snd (es ! j) = Some v" using leaf_ok[OF inv d(2,3)] j(1) by (auto simp: list_all_length)
    then have "(k, Some v) \<in> set es" using j by (metis nth_mem prod.collapse)
    then have "map_of es k = Some (Some v)" using d(8) by (intro map_of_is_SomeI) (simp_all add: strict_sorted_iff)
    then have "btree_content t k \<noteq> None" using d(9) by (simp add: btree_content_def)
    ultimately show ?thesis using run step r by auto
  qed
qed


section \<open>The adapter as an engine\<close>

definition btree_get_op :: "btree_t \<Rightarrow> string \<Rightarrow> cptr outcome" where
  "btree_get_op t k = map_sum id (\<lambda>(r, t', h). cptr_of r) (kvs_btree_get t [] (Some k))"

definition btree_set_op :: "btree_t \<Rightarrow> string \<Rightarrow> string \<Rightarrow> (int \<times> btree_t) outcome" where
  "btree_set_op t k v = map_sum id (\<lambda>(r, t', h). (r, t')) (kvs_btree_set t [] (Some k) (Some v))"

definition btree_del_op :: "btree_t \<Rightarrow> string \<Rightarrow> string \<Rightarrow> (int \<times> btree_t) outcome" where
  "btree_del_op t k v = map_sum id (\<lambda>(r, t', h). (r, t')) (kvs_btree_delete t [] (Some k))"

definition btree_mod_op :: "btree_t \<Rightarrow> string \<Rightarrow> string \<Rightarrow> (int \<times> btree_t) outcome" where
  "btree_mod_op t k v = map_sum id (\<lambda>(r, t', h). (r, t')) (kvs_btree_modify t [] (Some k) (Some v))"

lemma set_op_ok:
  assumes "btree_inv t" "btree_accepts k v"
  shows "\<exists>t'. kvs_btree_set t [] (Some k) (Some v) = Inr (KV_ERR_NONE, t', []) \<and> btree_inv t' \<and>
    btree_content t' = (btree_content t)(k \<mapsto> v)"
  using insert_ok[OF assms(1), of k v] assms(2) by (simp add: kvs_btree_set_def btree_accepts_def)

lemma modify_op_ok:
  assumes "btree_inv t" "btree_accepts k v"
  shows "\<exists>t'. kvs_btree_modify t [] (Some k) (Some v) = Inr (if btree_content t k = None then 1 else 0, t', []) \<and>
    btree_inv t' \<and> btree_content t' = spec_mod False (btree_content t) k v"
  using insert_ok[OF assms(1), of k v] assms search_ok[OF assms(1), of k]
  by (auto simp: kvs_btree_modify_def btree_accepts_def spec_mod_def)

lemma get_op_ok: "btree_inv t \<Longrightarrow> btree_get_op t k = Inr (cptr_of (btree_content t k))"
  by (simp add: btree_get_op_def kvs_btree_get_def search_ok)

interpretation bpt: kv_engine True False btree_inv "\<lambda>t. btree_accepts" "\<lambda>t k. True" btree_content
  btree_get_op btree_set_op btree_del_op btree_mod_op
proof unfold_locales
  fix s :: btree_t and k v :: string
  assume inv: "btree_inv s"
  then show "btree_get_op s k = Inr (cptr_of (btree_content s k))" by (rule get_op_ok)
  show "\<exists>r s'. btree_del_op s k v = Inr (r, s') \<and> btree_inv s' \<and> btree_content s' = (btree_content s)(k := None)"
    using delete_ok[OF inv, of k] by (auto simp: btree_del_op_def kvs_btree_delete_def)
  assume "btree_accepts k v"
  from set_op_ok[OF inv this] modify_op_ok[OF inv this]
  show "\<exists>r s'. btree_set_op s k v = Inr (r, s') \<and> btree_inv s' \<and> btree_content s' = spec_set True (btree_content s) k v"
    and "\<exists>r s'. btree_mod_op s k v = Inr (r, s') \<and> btree_inv s' \<and> btree_content s' = spec_mod False (btree_content s) k v"
    by (auto simp: btree_set_op_def btree_mod_op_def spec_set_def)
qed

lemma create_ok:
  assumes "order \<le> 1000" "3 \<le> order \<or> order \<le> 0"
  shows "\<exists>t. kv_store_btree_create [] order = (Some t, []) \<and> btree_inv t \<and> btree_content t = Map.empty"
  using assms
  by (auto simp: kv_store_btree_create_def btree_create_def btree_node_create_def btree_inv_def Let_def leaf_ids_def entries_def
      btree_content_def fun_eq_iff)


section \<open>Properties\<close>

text \<open>A tree of order 3 from the operations themselves, for the concrete instances.\<close>

fun btree_feed :: "string list \<Rightarrow> btree_t \<Rightarrow> btree_t option" where
  "btree_feed [] t = Some t"
| "btree_feed (k # ks) t =
     (case kvs_btree_set t [] (Some k) (Some ''v'') of Inr (r, t', h) \<Rightarrow> btree_feed ks t' | Inl e \<Rightarrow> None)"

fun btree_drop :: "string list \<Rightarrow> btree_t \<Rightarrow> btree_t option" where
  "btree_drop [] t = Some t"
| "btree_drop (k # ks) t =
     (case kvs_btree_delete t [] (Some k) of Inr (r, t', h) \<Rightarrow> btree_drop ks t' | Inl e \<Rightarrow> None)"

definition sample_btree :: btree_t where
  "sample_btree = the (Option.bind (Option.bind (fst (kv_store_btree_create [] 3))
     (btree_feed [''a'', ''b'', ''c'', ''d'', ''e'', ''f'', ''g'', ''h'', ''i'', ''j'', ''k'', ''l'', ''m'', ''n'', ''o'', ''p'']))
     (btree_drop [''a'', ''b'', ''c'', ''d'', ''e'']))"

text \<open>
  C1: On a well-formed B+-tree \<open>kvs_btree_set\<close> of a key and a value it accepts succeeds, whatever
  splits it takes up to the root: the tree stays well formed (sorted within and across nodes,
  separators in place, all leaves at one depth, nodes within the order, the leaf chain in order, the
  counters right) and stands for the old map with the key updated.
\<close>

theorem btree_set_refines:
  assumes "btree_inv t" "btree_accepts k v"
  shows "\<exists>t'. kvs_btree_set t [] (Some k) (Some v) = Inr (KV_ERR_NONE, t', []) \<and> btree_inv t' \<and>
    btree_content t' = (btree_content t)(k \<mapsto> v)"
  by (rule set_op_ok[OF assms])

theorem btree_set_refines_witness:
  "btree_inv sample_btree \<and> btree_accepts ''f'' ''w'' \<and>
   (\<exists>t'. kvs_btree_set sample_btree [] (Some ''f'') (Some ''w'') = Inr (KV_ERR_NONE, t', []) \<and> btree_inv t' \<and>
    btree_content t' = (btree_content sample_btree)(''f'' \<mapsto> ''w''))"
proof -
  have "btree_inv sample_btree" "btree_accepts ''f'' ''w''" by code_simp+
  with btree_set_refines[of sample_btree "''f''" "''w''"] show ?thesis by blast
qed

text \<open>
  C2: On a well-formed B+-tree \<open>kvs_btree_delete\<close> removes exactly the key it is given, through
  borrowing, merging and the collapse of the root, and keeps the tree well formed; an absent key is
  reported and leaves the tree as it is. The code of a deletion that did remove the key is success or
  \<open>KV_ERR_NOT_SUPPORTED\<close>.
\<close>

theorem btree_delete_refines:
  assumes "btree_inv t"
  shows "\<exists>r t'. kvs_btree_delete t [] (Some k) = Inr (r, t', []) \<and> btree_inv t' \<and>
    btree_content t' = (btree_content t)(k := None) \<and>
    (if btree_content t k = None then r = KV_ERR_NOT_FOUND \<and> t' = t else r \<in> {KV_ERR_NONE, KV_ERR_NOT_SUPPORTED})"
  using delete_ok[OF assms] by (simp add: kvs_btree_delete_def)

theorem btree_delete_refines_witness:
  "btree_inv sample_btree \<and> (\<exists>r t'. kvs_btree_delete sample_btree [] (Some ''g'') = Inr (r, t', []) \<and> btree_inv t' \<and>
    btree_content t' = (btree_content sample_btree)(''g'' := None) \<and>
    (if btree_content sample_btree ''g'' = None then r = KV_ERR_NOT_FOUND \<and> t' = sample_btree
     else r \<in> {KV_ERR_NONE, KV_ERR_NOT_SUPPORTED}))"
proof -
  have "btree_inv sample_btree" by code_simp
  with btree_delete_refines[of sample_btree "''g''"] show ?thesis by blast
qed

text \<open>
  Any sequence of accepted operations on a well-formed B+-tree runs without a fault, and a read
  afterwards returns what the sequence makes of the finite map: a set overwrites, a modification of an
  absent key does nothing.
\<close>

theorem btree_run_then_get:
  assumes "btree_inv t" "bpt.roomy ops t"
  shows "\<exists>t'. bpt.run ops t = Inr t' \<and> btree_get_op t' k = Inr (cptr_of (fold (spec_op True False) ops (btree_content t) k))"
  by (rule bpt.run_then_get[OF assms])

theorem btree_run_then_get_witness:
  "btree_inv sample_btree \<and> bpt.roomy [OpSet ''z'' ''1''] sample_btree \<and>
   (\<exists>t'. bpt.run [OpSet ''z'' ''1''] sample_btree = Inr t' \<and>
     btree_get_op t' ''z'' = Inr (cptr_of (fold (spec_op True False) [OpSet ''z'' ''1''] (btree_content sample_btree) ''z'')))"
proof -
  have inv: "btree_inv sample_btree" by code_simp
  have acc: "btree_accepts ''z'' ''1''" by code_simp
  obtain t' where "btree_set_op sample_btree ''z'' ''1'' = Inr (KV_ERR_NONE, t')"
    using set_op_ok[OF inv acc] by (auto simp: btree_set_op_def)
  with acc have "bpt.roomy [OpSet ''z'' ''1''] sample_btree" by simp
  with inv btree_run_then_get[OF inv this, of "''z''"] show ?thesis by blast
qed

text \<open>
  C3: A deletion that empties an internal node beside a sibling with keys to lend is reported as
  \<open>KV_ERR_NOT_SUPPORTED\<close>: borrowing between internal nodes is not implemented. The key is gone all
  the same, so the reported failure is of a deletion that took place.
\<close>

theorem btree_delete_reports_failure:
  "btree_content sample_btree ''f'' = Some ''v'' \<and>
   (case kvs_btree_delete sample_btree [] (Some ''f'') of
      Inr (r, t', h) \<Rightarrow> r = KV_ERR_NOT_SUPPORTED \<and> btree_content t' ''f'' = None \<and>
        total_keys t' = total_keys sample_btree - 1
    | Inl e \<Rightarrow> False)"
  by code_simp

end
