(* ===== verification/Shard_Hash.thy ===== *)
theory Shard_Hash
  imports Prelude "HOL-Library.Word"
begin

text \<open>
  The hash router, \<open>src/kvserver/sharding/shard_hash.c\<close>: Murmur3 on the bytes of a key, the shard
  of a hash, and the manager that remembers shards of keys in a cache with expiry and keeps
  statistics.

  A key with its length is the list of its bytes; a key stored in the cache is read back with
  \<open>strlen\<close>, up to its first NUL. Keys are shorter than 2 to the 31 bytes, so the cast of the length
  to \<open>int\<close> keeps it. Blocks are read as little-endian words, as on the platforms the server is built
  for. The clock is a parameter of the operations that read it, and the allocator a script. The ratios
  that \<open>shard_hash_get_stats\<close> computes in floating point are left out.
\<close>

unbundle bit_operations_syntax

section \<open>Murmur3\<close>

definition ROTL32 :: "32 word \<Rightarrow> nat \<Rightarrow> 32 word" where
  "ROTL32 x r = push_bit r x OR drop_bit (32 - r) x"

definition ROTL64 :: "64 word \<Rightarrow> nat \<Rightarrow> 64 word" where
  "ROTL64 x r = push_bit r x OR drop_bit (64 - r) x"

fun le32 :: "string \<Rightarrow> 32 word" where
  "le32 [] = 0"
| "le32 (c # cs) = of_char c + 256 * le32 cs"

fun le64 :: "string \<Rightarrow> 64 word" where
  "le64 [] = 0"
| "le64 (c # cs) = of_char c + 256 * le64 cs"

abbreviation m32_c1 :: "32 word" where "m32_c1 \<equiv> 0xcc9e2d51"
abbreviation m32_c2 :: "32 word" where "m32_c2 \<equiv> 0x1b873593"

definition mix32 :: "32 word \<Rightarrow> 32 word" where
  "mix32 k1 = ROTL32 (k1 * m32_c1) 15 * m32_c2"

fun body32 :: "nat \<Rightarrow> string \<Rightarrow> 32 word \<Rightarrow> 32 word" where
  "body32 0 data h1 = h1"
| "body32 (Suc n) data h1 = body32 n (drop 4 data) (ROTL32 (h1 XOR mix32 (le32 (take 4 data))) 13 * 5 + 0xe6546b64)"

text \<open>The \<open>switch\<close> with its fall-through: one conditional per label, from the highest on.\<close>

definition tail32 :: "string \<Rightarrow> nat \<Rightarrow> 32 word \<Rightarrow> 32 word" where
  "tail32 tail n h1 =
     (let k1 = 0;
          k1 = (if n \<ge> 3 then k1 XOR push_bit 16 (of_char (tail ! 2)) else k1);
          k1 = (if n \<ge> 2 then k1 XOR push_bit 8 (of_char (tail ! 1)) else k1) in
      if n \<ge> 1 then h1 XOR mix32 (k1 XOR of_char (tail ! 0)) else h1)"

definition fmix32 :: "32 word \<Rightarrow> 32 word" where
  "fmix32 h =
     (let h = h XOR drop_bit 16 h; h = h * 0x85ebca6b; h = h XOR drop_bit 13 h; h = h * 0xc2b2ae35 in
      h XOR drop_bit 16 h)"

definition murmur3_hash32 :: "string \<Rightarrow> 32 word \<Rightarrow> 32 word" where
  "murmur3_hash32 key seed =
     (let len = length key; nblocks = len div 4;
          h1 = body32 nblocks key seed;
          h1 = tail32 (drop (nblocks * 4) key) (len mod 4) h1 in
      fmix32 (h1 XOR of_nat len))"

abbreviation m64_c1 :: "64 word" where "m64_c1 \<equiv> 0x87c37b91114253d5"
abbreviation m64_c2 :: "64 word" where "m64_c2 \<equiv> 0x4cf5ad432745937f"

definition mix64_1 :: "64 word \<Rightarrow> 64 word" where
  "mix64_1 k1 = ROTL64 (k1 * m64_c1) 31 * m64_c2"

definition mix64_2 :: "64 word \<Rightarrow> 64 word" where
  "mix64_2 k2 = ROTL64 (k2 * m64_c2) 33 * m64_c1"

definition block64 :: "64 word \<Rightarrow> 64 word \<Rightarrow> 64 word \<times> 64 word \<Rightarrow> 64 word \<times> 64 word" where
  "block64 k1 k2 = (\<lambda>(h1, h2).
     let h1 = h1 XOR mix64_1 k1; h1 = ROTL64 h1 27; h1 = h1 + h2; h1 = h1 * 5 + 0x52dce729;
         h2 = h2 XOR mix64_2 k2; h2 = ROTL64 h2 31; h2 = h2 + h1; h2 = h2 * 5 + 0x38495ab5 in
     (h1, h2))"

fun body64 :: "nat \<Rightarrow> string \<Rightarrow> 64 word \<times> 64 word \<Rightarrow> 64 word \<times> 64 word" where
  "body64 0 data hs = hs"
| "body64 (Suc n) data hs =
     body64 n (drop 16 data) (block64 (le64 (take 8 data)) (le64 (take 8 (drop 8 data))) hs)"

text \<open>A label of the \<open>switch\<close>: the byte is shifted into place when the length reaches it.\<close>

definition label64 :: "string \<Rightarrow> nat \<Rightarrow> nat \<Rightarrow> nat \<Rightarrow> 64 word \<Rightarrow> 64 word" where
  "label64 tail n i s k = (if n > i then k XOR push_bit s (of_char (tail ! i)) else k)"

definition tail64 :: "string \<Rightarrow> nat \<Rightarrow> 64 word \<times> 64 word \<Rightarrow> 64 word \<times> 64 word" where
  "tail64 tail n = (\<lambda>(h1, h2).
     let k2 = 0;
         k2 = label64 tail n 14 48 k2; k2 = label64 tail n 13 40 k2; k2 = label64 tail n 12 32 k2;
         k2 = label64 tail n 11 24 k2; k2 = label64 tail n 10 16 k2; k2 = label64 tail n 9 8 k2;
         k2 = label64 tail n 8 0 k2;
         h2 = (if n > 8 then h2 XOR mix64_2 k2 else h2);
         k1 = 0;
         k1 = label64 tail n 7 56 k1; k1 = label64 tail n 6 48 k1; k1 = label64 tail n 5 40 k1;
         k1 = label64 tail n 4 32 k1; k1 = label64 tail n 3 24 k1; k1 = label64 tail n 2 16 k1;
         k1 = label64 tail n 1 8 k1; k1 = label64 tail n 0 0 k1;
         h1 = (if n > 0 then h1 XOR mix64_1 k1 else h1) in
     (h1, h2))"

definition fmix64 :: "64 word \<Rightarrow> 64 word" where
  "fmix64 h =
     (let h = h XOR drop_bit 33 h; h = h * 0xff51afd7ed558ccd; h = h XOR drop_bit 33 h;
          h = h * 0xc4ceb9fe1a85ec53 in
      h XOR drop_bit 33 h)"

definition murmur3_hash64 :: "string \<Rightarrow> 32 word \<Rightarrow> 64 word" where
  "murmur3_hash64 key seed =
     (let len = length key; nblocks = len div 16;
          hs = body64 nblocks key (ucast seed, ucast seed);
          (h1, h2) = tail64 (drop (nblocks * 16) key) (len mod 16) hs;
          h1 = h1 XOR of_nat len; h2 = h2 XOR of_nat len;
          h1 = h1 + h2; h2 = h2 + h1 in
      fmix64 h1 + fmix64 h2)"

section \<open>The manager\<close>

abbreviation SHARD_HASH_SEED :: "32 word" where "SHARD_HASH_SEED \<equiv> 0x9E3779B9"

record shard_hash_cache_entry =
  sc_key :: "string option"
  sc_hash :: "64 word"
  sc_shard_id :: "32 word"
  sc_timestamp :: int
  sc_valid :: bool

text \<open>\<open>cache_size\<close> is the length of the cache array.\<close>

record shard_hash_manager =
  sh_cache :: "shard_hash_cache_entry list"
  sh_cache_count :: nat
  sh_cache_ttl :: "32 word"
  shard_count :: "32 word"
  virtual_nodes :: "32 word"
  total_hash_requests :: "64 word"
  sh_cache_hits :: "64 word"
  sh_cache_misses :: "64 word"
  hash_collisions :: "64 word"
  shard_distribution :: "64 word list"

definition zero_entry :: shard_hash_cache_entry where
  "zero_entry = \<lparr>sc_key = None, sc_hash = 0, sc_shard_id = 0, sc_timestamp = 0, sc_valid = False\<rparr>"

text \<open>Five calls can fail: three allocations and two lock initialisations.\<close>

fun all_ok :: "nat \<Rightarrow> script \<Rightarrow> bool \<times> script" where
  "all_ok 0 h = (True, h)"
| "all_ok (Suc n) h = (let (ok, h1) = malloc h in if ok then all_ok n h1 else (False, h1))"

definition shard_hash_manager_create ::
  "script \<Rightarrow> 32 word \<Rightarrow> nat \<Rightarrow> 32 word \<Rightarrow> shard_hash_manager option \<times> script" where
  "shard_hash_manager_create h shards cache_size ttl =
     (if shards = 0 \<or> cache_size = 0 then (None, h)
      else (let (ok, h1) = all_ok 5 h in
        (if ok then Some \<lparr>sh_cache = replicate cache_size zero_entry, sh_cache_count = 0, sh_cache_ttl = ttl,
            shard_count = shards, virtual_nodes = 160, total_hash_requests = 0, sh_cache_hits = 0,
            sh_cache_misses = 0, hash_collisions = 0, shard_distribution = replicate (unat shards) 0\<rparr>
         else None, h1)))"

text \<open>The key copies that \<open>shard_hash_manager_destroy\<close> frees.\<close>

definition shard_hash_manager_destroy :: "shard_hash_manager \<Rightarrow> string list" where
  "shard_hash_manager_destroy m = List.map_filter sc_key (sh_cache m)"

definition shard_hash_compute :: "string option \<Rightarrow> 64 word" where
  "shard_hash_compute key_p =
     (case key_p of None \<Rightarrow> 0 | Some key \<Rightarrow> if key = [] then 0 else murmur3_hash64 key SHARD_HASH_SEED)"

definition shard_hash_to_shard_id :: "64 word \<Rightarrow> 32 word \<Rightarrow> 32 word" where
  "shard_hash_to_shard_id hash shards = (if shards = 0 then 0 else ucast (hash mod ucast shards))"

definition c_strlen :: "string \<Rightarrow> nat" where
  "c_strlen s = length (takeWhile (\<lambda>c. c \<noteq> CHR 0x00) s)"

text \<open>The cast \<open>(int)i\<close> of an index.\<close>

definition c_int :: "nat \<Rightarrow> int" where
  "c_int i = sint (of_nat i :: 32 word)"

definition sc_expired :: "int \<Rightarrow> 32 word \<Rightarrow> shard_hash_cache_entry \<Rightarrow> bool" where
  "sc_expired now ttl e \<longleftrightarrow> now - sc_timestamp e > uint ttl"

text \<open>The loop of \<open>shard_hash_cache_find\<close>: the index of the hit, and the cache with the expired entries it met invalidated.\<close>

fun find_entry ::
  "int \<Rightarrow> 32 word \<Rightarrow> string \<Rightarrow> shard_hash_cache_entry list \<Rightarrow> nat option \<times> shard_hash_cache_entry list" where
  "find_entry now ttl key [] = (None, [])"
| "find_entry now ttl key (e # es) =
     (let (r, es') = find_entry now ttl key es in
      (case sc_key e of
         None \<Rightarrow> (map_option Suc r, e # es')
       | Some k \<Rightarrow>
           if \<not> sc_valid e then (map_option Suc r, e # es')
           else if sc_expired now ttl e then (map_option Suc r, e\<lparr>sc_valid := False\<rparr> # es')
           else if c_strlen k = length key \<and> take (length key) k = key then (Some 0, e # es)
           else (map_option Suc r, e # es')))"

definition shard_hash_cache_find :: "shard_hash_manager \<Rightarrow> int \<Rightarrow> string \<Rightarrow> int \<times> shard_hash_manager" where
  "shard_hash_cache_find m now key =
     (let (r, es) = find_entry now (sh_cache_ttl m) key (sh_cache m) in
      (case r of None \<Rightarrow> -1 | Some i \<Rightarrow> c_int i, m\<lparr>sh_cache := es\<rparr>))"

fun free_slot :: "int \<Rightarrow> 32 word \<Rightarrow> nat \<Rightarrow> shard_hash_cache_entry list \<Rightarrow> int" where
  "free_slot now ttl i [] = -1"
| "free_slot now ttl i (e # es) =
     (if \<not> sc_valid e \<or> sc_key e = None \<or> sc_expired now ttl e then c_int i else free_slot now ttl (Suc i) es)"

fun oldest_slot :: "int \<Rightarrow> int \<Rightarrow> nat \<Rightarrow> shard_hash_cache_entry list \<Rightarrow> int" where
  "oldest_slot oldest idx i [] = idx"
| "oldest_slot oldest idx i (e # es) =
     (if sc_timestamp e < oldest then oldest_slot (sc_timestamp e) (c_int i) (Suc i) es
      else oldest_slot oldest idx (Suc i) es)"

definition shard_hash_cache_insert ::
  "shard_hash_manager \<Rightarrow> script \<Rightarrow> int \<Rightarrow> string \<Rightarrow> 64 word \<Rightarrow> 32 word \<Rightarrow> int \<times> shard_hash_manager \<times> script" where
  "shard_hash_cache_insert m h now key hash s =
     (let free = free_slot now (sh_cache_ttl m) 0 (sh_cache m);
          insert_idx = (if free = -1 then oldest_slot now (-1) 0 (sh_cache m) else free) in
      if insert_idx = -1 then (-1, m, h)
      else (let i = nat insert_idx; (ok, h1) = malloc h in
        if \<not> ok then (-1, m\<lparr>sh_cache := (sh_cache m)[i := (sh_cache m ! i)\<lparr>sc_key := None\<rparr>]\<rparr>, h1)
        else (insert_idx,
          m\<lparr>sh_cache := (sh_cache m)[i := \<lparr>sc_key = Some key, sc_hash = hash, sc_shard_id = s,
                                             sc_timestamp = now, sc_valid = True\<rparr>],
            sh_cache_count := (if i \<ge> sh_cache_count m then i + 1 else sh_cache_count m)\<rparr>, h1)))"

definition count_shard :: "shard_hash_manager \<Rightarrow> 32 word \<Rightarrow> shard_hash_manager" where
  "count_shard m s =
     (if s < shard_count m
      then m\<lparr>shard_distribution := (shard_distribution m)[unat s := shard_distribution m ! unat s + 1]\<rparr>
      else m)"

text \<open>
  \<open>shard_hash_get_shard_id\<close> holds no lock over the whole call. Up to the miss, and from the insertion on,
  it is two steps; the shard is computed between them from the shard count read there.
\<close>

definition get_lookup :: "shard_hash_manager \<Rightarrow> int \<Rightarrow> string \<Rightarrow> 32 word option \<times> shard_hash_manager" where
  "get_lookup m now key =
     (let m0 = m\<lparr>total_hash_requests := total_hash_requests m + 1\<rparr>;
          (cache_idx, m1) = shard_hash_cache_find m0 now key in
      if cache_idx \<ge> 0
      then (let s = sc_shard_id (sh_cache m1 ! nat cache_idx) in
            (Some s, count_shard (m1\<lparr>sh_cache_hits := sh_cache_hits m1 + 1\<rparr>) s))
      else (None, m1\<lparr>sh_cache_misses := sh_cache_misses m1 + 1\<rparr>))"

definition get_finish ::
  "shard_hash_manager \<Rightarrow> script \<Rightarrow> int \<Rightarrow> string \<Rightarrow> 64 word \<Rightarrow> 32 word \<Rightarrow> shard_hash_manager \<times> script" where
  "get_finish m h now key hash s =
     (let (i, m1, h1) = shard_hash_cache_insert m h now key hash s in (count_shard m1 s, h1))"

definition shard_hash_get_shard_id ::
  "shard_hash_manager \<Rightarrow> script \<Rightarrow> int \<Rightarrow> int \<Rightarrow> string option \<Rightarrow> 32 word \<times> shard_hash_manager \<times> script" where
  "shard_hash_get_shard_id m h now now' key_p =
     (case key_p of
        None \<Rightarrow> (0, m, h)
      | Some key \<Rightarrow>
          if key = [] then (0, m, h)
          else (case get_lookup m now key of
              (Some s, m1) \<Rightarrow> (s, m1, h)
            | (None, m1) \<Rightarrow>
                (let hash = shard_hash_compute (Some key);
                     s = shard_hash_to_shard_id hash (shard_count m1);
                     (m2, h2) = get_finish m1 h now' key hash s in
                 (s, m2, h2))))"

text \<open>A batch: the keys with the two clock readings of each lookup.\<close>

fun batch_loop ::
  "(string option \<times> int \<times> int) list \<Rightarrow> shard_hash_manager \<Rightarrow> script \<Rightarrow> 32 word list \<times> shard_hash_manager \<times> script" where
  "batch_loop [] m h = ([], m, h)"
| "batch_loop ((key_p, now, now') # ks) m h =
     (let (s, m1, h1) = shard_hash_get_shard_id m h now now' key_p;
          (ss, m2, h2) = batch_loop ks m1 h1 in
      (s # ss, m2, h2))"

definition shard_hash_batch_get_shard_ids ::
  "shard_hash_manager \<Rightarrow> script \<Rightarrow> (string option \<times> int \<times> int) list \<Rightarrow> int \<times> 32 word list \<times> shard_hash_manager \<times> script" where
  "shard_hash_batch_get_shard_ids m h keys =
     (if keys = [] then (-1, [], m, h)
      else (let (ss, m1, h1) = batch_loop keys m h in (0, ss, m1, h1)))"

section \<open>Cache and statistics management\<close>

definition shard_hash_cache_clear :: "shard_hash_manager \<Rightarrow> shard_hash_manager" where
  "shard_hash_cache_clear m =
     m\<lparr>sh_cache := map (\<lambda>e. e\<lparr>sc_key := None, sc_valid := False\<rparr>) (sh_cache m), sh_cache_count := 0\<rparr>"

definition shard_hash_cache_set_ttl :: "shard_hash_manager \<Rightarrow> 32 word \<Rightarrow> shard_hash_manager" where
  "shard_hash_cache_set_ttl m ttl = m\<lparr>sh_cache_ttl := ttl\<rparr>"

definition sc_stale :: "int \<Rightarrow> 32 word \<Rightarrow> shard_hash_cache_entry \<Rightarrow> bool" where
  "sc_stale now ttl e \<longleftrightarrow> sc_valid e \<and> sc_expired now ttl e"

definition shard_hash_cache_cleanup_expired :: "shard_hash_manager \<Rightarrow> int \<Rightarrow> nat \<times> shard_hash_manager" where
  "shard_hash_cache_cleanup_expired m now =
     (length (filter (sc_stale now (sh_cache_ttl m)) (sh_cache m)),
      m\<lparr>sh_cache := map (\<lambda>e. if sc_stale now (sh_cache_ttl m) e then e\<lparr>sc_key := None, sc_valid := False\<rparr> else e)
         (sh_cache m)\<rparr>)"

record shard_hash_stats =
  st_total_requests :: "64 word"
  st_cache_hits :: "64 word"
  st_cache_misses :: "64 word"
  st_hash_collisions :: "64 word"
  active_cache_entries :: "32 word"
  shard_key_counts :: "64 word list option"

text \<open>Without the memory for one of the two arrays the counts are not filled in; the code reports success.\<close>

definition shard_hash_get_stats :: "shard_hash_manager \<Rightarrow> script \<Rightarrow> int \<Rightarrow> shard_hash_stats \<times> script" where
  "shard_hash_get_stats m h now =
     (let (ok1, h1) = malloc h; (ok2, h2) = malloc h1 in
      (\<lparr>st_total_requests = total_hash_requests m, st_cache_hits = sh_cache_hits m,
         st_cache_misses = sh_cache_misses m, st_hash_collisions = hash_collisions m,
         active_cache_entries = of_nat (length (filter
           (\<lambda>e. sc_valid e \<and> sc_key e \<noteq> None \<and> \<not> sc_expired now (sh_cache_ttl m) e) (sh_cache m))),
         shard_key_counts = (if ok1 \<and> ok2 then Some (shard_distribution m) else None)\<rparr>, h2))"

definition shard_hash_reset_stats :: "shard_hash_manager \<Rightarrow> shard_hash_manager" where
  "shard_hash_reset_stats m =
     m\<lparr>total_hash_requests := 0, sh_cache_hits := 0, sh_cache_misses := 0, hash_collisions := 0,
       shard_distribution := replicate (unat (shard_count m)) 0\<rparr>"

definition shard_hash_update_shard_count ::
  "shard_hash_manager \<Rightarrow> script \<Rightarrow> 32 word \<Rightarrow> int \<times> shard_hash_manager \<times> script" where
  "shard_hash_update_shard_count m h n =
     (if n = 0 then (-1, m, h)
      else (let (ok, h1) = malloc h in
        if \<not> ok then (-1, m, h1)
        else (0, shard_hash_cache_clear
                (m\<lparr>shard_distribution := replicate (unat n) 0, shard_count := n\<rparr>), h1)))"

definition shard_hash_set_virtual_nodes :: "shard_hash_manager \<Rightarrow> 32 word \<Rightarrow> shard_hash_manager" where
  "shard_hash_set_virtual_nodes m n = m\<lparr>virtual_nodes := n\<rparr>"

definition shard_hash_validate_key :: "string option \<Rightarrow> bool" where
  "shard_hash_validate_key key_p \<longleftrightarrow> (case key_p of None \<Rightarrow> False | Some key \<Rightarrow> key \<noteq> [] \<and> length key \<le> 65536)"

text \<open>The loops over the distribution, with a comparison: the index of the best count so far.\<close>

fun best_shard :: "(64 word \<Rightarrow> 64 word \<Rightarrow> bool) \<Rightarrow> 64 word \<Rightarrow> nat \<Rightarrow> nat \<Rightarrow> 64 word list \<Rightarrow> nat" where
  "best_shard better best idx i [] = idx"
| "best_shard better best idx i (x # xs) =
     (if better x best then best_shard better x i (Suc i) xs else best_shard better best idx (Suc i) xs)"

definition shard_hash_find_hottest_shard :: "shard_hash_manager \<Rightarrow> 32 word" where
  "shard_hash_find_hottest_shard m =
     (case shard_distribution m of [] \<Rightarrow> 0 | x # xs \<Rightarrow> of_nat (best_shard (>) x 0 1 xs))"

definition shard_hash_find_coldest_shard :: "shard_hash_manager \<Rightarrow> 32 word" where
  "shard_hash_find_coldest_shard m =
     (case shard_distribution m of [] \<Rightarrow> 0 | x # xs \<Rightarrow> of_nat (best_shard (<) x 0 1 xs))"

lemma all_ok_Nil [simp]: "all_ok n [] = (True, [])"
  by (induction n) simp_all

end
