(* ===== verification/Shard_Route.thy ===== *)
theory Shard_Route
  imports Shard_Hash
begin

text \<open>
  The router is right: the hash agrees with a reference, the cache never changes a route, and the
  counters account for every lookup, over all sequences of operations.
\<close>

unbundle bit_operations_syntax

section \<open>The hash against a reference\<close>

lemma bit_of_char_word: "bit (of_char c :: 64 word) n \<Longrightarrow> n < 8"
proof (rule ccontr)
  assume b: "bit (of_char c :: 64 word) n" and "\<not> n < 8"
  then have "(2 :: nat) ^ 8 \<le> 2 ^ n" by (intro power_increasing) auto
  moreover have "(of_char c :: nat) < 2 ^ 8" by simp
  ultimately have "(of_char c :: nat) < 2 ^ n" by linarith
  then have "\<not> bit (of_char c :: nat) n" by (simp add: bit_iff_odd)
  moreover have "(of_char c :: 64 word) = of_nat (of_char c)" by (simp only: of_nat_of_char)
  ultimately show False using b by (simp add: bit_of_nat_iff)
qed

lemma le64_xor: "le64 (c # cs) = of_char c XOR push_bit 8 (le64 cs)"
proof -
  have "(of_char c :: 64 word) AND push_bit 8 (le64 cs) = 0"
    by (rule bit_eqI) (auto simp: bit_simps dest: bit_of_char_word)
  from disjunctive_add_eq_xor[OF this] show ?thesis by (simp add: push_bit_eq_mult mult.commute)
qed

text \<open>Mixing in a zero word changes nothing, so an empty half of the tail needs no case of its own.\<close>

lemma mix64_0 [simp]: "mix64_1 0 = 0" "mix64_2 0 = 0"
  by (simp_all add: mix64_1_def mix64_2_def ROTL64_def)

definition murmur3_ref :: "string \<Rightarrow> 32 word \<Rightarrow> 64 word" where
  "murmur3_ref key seed =
     (let n = length key div 16; tail = drop (n * 16) key;
          (h1, h2) = body64 n key (ucast seed, ucast seed);
          a = (h1 XOR mix64_1 (le64 (take 8 tail))) XOR of_nat (length key);
          b = (h2 XOR mix64_2 (le64 (drop 8 tail))) XOR of_nat (length key) in
      fmix64 (a + b) + fmix64 (b + (a + b)))"

lemma le64_load:
  assumes "length cs \<le> 8"
  shows "label64 cs (length cs) 0 0 (label64 cs (length cs) 1 8 (label64 cs (length cs) 2 16 (label64 cs (length cs) 3 24
    (label64 cs (length cs) 4 32 (label64 cs (length cs) 5 40 (label64 cs (length cs) 6 48 (label64 cs (length cs) 7 56 0))))))) =
    le64 cs"
proof -
  have "length cs \<in> {0, 1, 2, 3, 4, 5, 6, 7, 8}" unfolding insert_iff empty_iff using assms by arith
  then show ?thesis
    by (auto simp: label64_def le64_xor push_bit_xor push_bit_push_bit ac_simps length_Suc_conv numeral_eq_Suc
        simp del: le64.simps(2) push_bit_Suc)
qed


lemma label64_halves:
  "i < 8 \<Longrightarrow> label64 tb (length tb) i s k = label64 (take 8 tb) (length (take 8 tb)) i s k"
  "label64 tb (length tb) (8 + i) s k = label64 (drop 8 tb) (length (drop 8 tb)) i s k"
  by (auto simp: label64_def)

lemma tail64_load:
  assumes "length tb < 16"
  shows "tail64 tb (length tb) (h1, h2) = (h1 XOR mix64_1 (le64 (take 8 tb)), h2 XOR mix64_2 (le64 (drop 8 tb)))"
proof -
  have lo: "label64 tb (length tb) 0 0 (label64 tb (length tb) 1 8 (label64 tb (length tb) 2 16 (label64 tb (length tb) 3 24
    (label64 tb (length tb) 4 32 (label64 tb (length tb) 5 40 (label64 tb (length tb) 6 48 (label64 tb (length tb) 7 56 0))))))) =
    le64 (take 8 tb)" (is "?lo = _")
  proof -
    have "length (take 8 tb) \<le> 8" by simp
    from le64_load[OF this] show ?thesis by (simp add: label64_halves(1)[of _ tb] del: length_take)
  qed
  define u where "u = drop 8 tb"
  have half: "label64 tb (length tb) (8 + i) s k = label64 u (length u) i s k" for i s k
    unfolding u_def by (rule label64_halves(2))
  have u: "length u \<le> 8" "label64 u (length u) 7 56 0 = 0" using assms by (simp_all add: label64_def u_def)
  have hi: "label64 tb (length tb) 8 0 (label64 tb (length tb) 9 8 (label64 tb (length tb) 10 16 (label64 tb (length tb) 11 24
    (label64 tb (length tb) 12 32 (label64 tb (length tb) 13 40 (label64 tb (length tb) 14 48 0)))))) =
    le64 (drop 8 tb)" (is "?hi = _")
    using le64_load[OF u(1)] u(2)
    by (simp add: half[of 0, simplified] half[of 1, simplified] half[of 2, simplified] half[of 3, simplified]
        half[of 4, simplified] half[of 5, simplified] half[of 6, simplified] u_def[symmetric])
  have "tail64 tb (length tb) (h1, h2) =
    (if 0 < length tb then h1 XOR mix64_1 ?lo else h1, if 8 < length tb then h2 XOR mix64_2 ?hi else h2)"
    by (simp add: tail64_def Let_def)
  with lo hi show ?thesis by (cases "length tb = 0"; cases "length tb \<le> 8") (auto simp del: le64.simps(2))
qed

lemma murmur3_hash64_ref: "murmur3_hash64 key seed = murmur3_ref key seed"
proof -
  let ?n = "length key div 16"
  have len: "length (drop (?n * 16) key) = length key mod 16" by (simp add: minus_div_mult_eq_mod)
  obtain h1 h2 where "body64 ?n key (ucast seed, ucast seed) = (h1, h2)" by (cases "body64 ?n key (ucast seed, ucast seed)")
  with tail64_load[of "drop (?n * 16) key" h1 h2] len show ?thesis
    by (simp add: murmur3_hash64_def murmur3_ref_def Let_def)
qed


section \<open>Invariant\<close>

definition route :: "string \<Rightarrow> 32 word \<Rightarrow> 32 word" where
  "route key n = shard_hash_to_shard_id (shard_hash_compute (Some key)) n"

definition no_nul :: "string \<Rightarrow> bool" where
  "no_nul s \<longleftrightarrow> CHR 0x00 \<notin> set s"

text \<open>An entry that a lookup may use holds a key as \<open>strlen\<close> sees it, and its shard.\<close>

definition entry_ok :: "32 word \<Rightarrow> shard_hash_cache_entry \<Rightarrow> bool" where
  "entry_ok n e \<longleftrightarrow>
     (case sc_key e of
        None \<Rightarrow> True
      | Some k \<Rightarrow> sc_valid e \<longrightarrow> no_nul k \<and> sc_shard_id e = route k n)"

definition shard_inv :: "shard_hash_manager \<Rightarrow> bool" where
  "shard_inv m \<longleftrightarrow>
     shard_count m \<noteq> 0 \<and> length (shard_distribution m) = unat (shard_count m) \<and>
     length (sh_cache m) < 2 ^ 31 \<and> sh_cache_count m \<le> length (sh_cache m) \<and>
     list_all (entry_ok (shard_count m)) (sh_cache m)"

text \<open>Every request is a hit or a miss, and is counted for one shard.\<close>

definition stats_ok :: "shard_hash_manager \<Rightarrow> bool" where
  "stats_ok m \<longleftrightarrow> total_hash_requests m = sh_cache_hits m + sh_cache_misses m \<and>
     sum_list (shard_distribution m) = total_hash_requests m"

lemma route_lt: "n \<noteq> 0 \<Longrightarrow> route key n < n"
proof -
  assume n: "n \<noteq> 0"
  define x where "x = shard_hash_compute (Some key) mod ucast n"
  have lt: "unat n < 2 ^ 32" using unsigned_less[of n, where ?'a = nat] by simp
  then have n': "unat (ucast n :: 64 word) = unat n" by (simp add: unsigned_ucast_eq take_bit_nat_eq_self)
  have "unat x < unat n" using n n' by (simp add: x_def unat_mod mod_less_divisor unat_gt_0)
  with lt have "unat (ucast x :: 32 word) = unat x" by (simp add: unsigned_ucast_eq take_bit_nat_eq_self)
  with \<open>unat x < unat n\<close> n show "route key n < n"
    by (simp add: route_def shard_hash_to_shard_id_def x_def word_less_nat_alt)
qed

lemma c_int_small: "i < 2 ^ 31 \<Longrightarrow> c_int i = int i"
  by (simp add: c_int_def signed_of_nat signed_take_bit_int_eq_self_iff)

lemma c_strlen_no_nul: "no_nul s \<Longrightarrow> c_strlen s = length s"
  by (induction s) (auto simp: c_strlen_def no_nul_def)

lemma entry_ok_unused [simp]: "entry_ok n (e\<lparr>sc_valid := False\<rparr>)" "entry_ok n (e\<lparr>sc_key := None\<rparr>)"
    "entry_ok n (e\<lparr>sc_key := None, sc_valid := False\<rparr>)" "entry_ok n zero_entry"
  by (simp_all add: entry_ok_def zero_entry_def split: option.split)

lemma find_entry_spec:
  "find_entry now ttl key es = (r, es') \<Longrightarrow>
     length es' = length es \<and> (list_all (entry_ok n) es \<longrightarrow> list_all (entry_ok n) es') \<and>
     (case r of None \<Rightarrow> True | Some i \<Rightarrow> i < length es \<and> sc_valid (es' ! i) \<and>
        (\<exists>k. sc_key (es' ! i) = Some k \<and> c_strlen k = length key \<and> take (length key) k = key))"
proof (induction es arbitrary: r es')
  case (Cons e es)
  obtain r1 es1 where f: "find_entry now ttl key es = (r1, es1)" by (cases "find_entry now ttl key es")
  from Cons.IH[OF f] Cons.prems f show ?case
    by (auto split: option.splits if_splits)
qed simp

lemma free_slot_range:
  "i + length es < 2 ^ 31 \<Longrightarrow>
     free_slot now ttl i es = -1 \<or> int i \<le> free_slot now ttl i es \<and> free_slot now ttl i es < int (i + length es)"
proof (induction es arbitrary: i)
  case (Cons e es)
  from Cons.IH[of "Suc i"] Cons.prems show ?case by (auto simp: c_int_small)
qed simp

lemma oldest_slot_range:
  "i + length es < 2 ^ 31 \<Longrightarrow> idx = -1 \<or> 0 \<le> idx \<and> idx < int i \<Longrightarrow>
     oldest_slot old idx i es = -1 \<or> 0 \<le> oldest_slot old idx i es \<and> oldest_slot old idx i es < int (i + length es)"
proof (induction es arbitrary: i idx old)
  case (Cons e es)
  have i: "c_int i = int i" using Cons.prems(1) by (simp add: c_int_small)
  from Cons.IH[of "Suc i" "int i" "sc_timestamp e"] Cons.IH[of "Suc i" idx old] Cons.prems show ?case
    by (auto simp: i)
qed auto

lemma count_shard_keeps [simp]:
  "sh_cache (count_shard m s) = sh_cache m" "shard_count (count_shard m s) = shard_count m"
  "sh_cache_ttl (count_shard m s) = sh_cache_ttl m" "sh_cache_count (count_shard m s) = sh_cache_count m"
  "length (shard_distribution (count_shard m s)) = length (shard_distribution m)"
  "total_hash_requests (count_shard m s) = total_hash_requests m" "sh_cache_hits (count_shard m s) = sh_cache_hits m"
  "sh_cache_misses (count_shard m s) = sh_cache_misses m"
  by (simp_all add: count_shard_def)

lemma sum_list_inc: "i < length xs \<Longrightarrow> sum_list (xs[i := xs ! i + 1]) = (sum_list xs + 1 :: 64 word)"
  by (induction xs arbitrary: i) (auto split: nat.splits simp: nth_Cons algebra_simps)

lemma count_shard_sum:
  assumes "s < shard_count m" "length (shard_distribution m) = unat (shard_count m)"
  shows "sum_list (shard_distribution (count_shard m s)) = sum_list (shard_distribution m) + 1"
  using assms by (simp add: count_shard_def sum_list_inc word_less_nat_alt)

lemma insert_ok_entries:
  assumes "shard_inv m" "shard_hash_cache_insert m h now key hash s = (r, m', h')" "no_nul key" "s = route key (shard_count m)"
  shows "shard_inv m' \<and> shard_count m' = shard_count m \<and> shard_distribution m' = shard_distribution m \<and>
    total_hash_requests m' = total_hash_requests m \<and> sh_cache_hits m' = sh_cache_hits m \<and>
    sh_cache_misses m' = sh_cache_misses m"
proof -
  let ?free = "free_slot now (sh_cache_ttl m) 0 (sh_cache m)"
  define idx where "idx = (if ?free = -1 then oldest_slot now (-1) 0 (sh_cache m) else ?free)"
  have idx: "idx = -1 \<or> nat idx < length (sh_cache m)"
    using free_slot_range[of 0 "sh_cache m" now "sh_cache_ttl m"] oldest_slot_range[of 0 "sh_cache m" "-1" now] assms(1)
    by (auto simp: idx_def shard_inv_def)
  have "list_all (entry_ok (shard_count m)) ((sh_cache m)[i := e])"
    if "entry_ok (shard_count m) e" for i e
    using assms(1) that set_update_subset_insert[of "sh_cache m" i e] by (auto simp: shard_inv_def list_all_iff)
  moreover have "entry_ok (shard_count m) \<lparr>sc_key = Some key, sc_hash = hash, sc_shard_id = s, sc_timestamp = now, sc_valid = True\<rparr>"
    using assms(3,4) by (simp add: entry_ok_def)
  ultimately show ?thesis using assms idx
    by (auto simp: shard_hash_cache_insert_def Let_def shard_inv_def simp flip: idx_def split: prod.splits if_splits)
qed


section \<open>Lookups\<close>

lemma get_lookup_ok:
  assumes inv: "shard_inv m" and g: "get_lookup m now key = (r, m')" and k: "no_nul key"
  shows "shard_inv m' \<and> shard_count m' = shard_count m \<and> (case r of None \<Rightarrow> True | Some s \<Rightarrow> s = route key (shard_count m))"
    and "stats_ok m \<Longrightarrow> case r of Some s \<Rightarrow> stats_ok m'
      | None \<Rightarrow> total_hash_requests m' = sh_cache_hits m' + sh_cache_misses m' \<and> sum_list (shard_distribution m') + 1 = total_hash_requests m'"
proof -
  obtain i es where f: "find_entry now (sh_cache_ttl m) key (sh_cache m) = (i, es)"
    by (cases "find_entry now (sh_cache_ttl m) key (sh_cache m)")
  note spec = find_entry_spec[OF f, of "shard_count m"]
  let ?m = "m\<lparr>total_hash_requests := total_hash_requests m + 1, sh_cache := es\<rparr>"
  have lk: "get_lookup m now key = (case i of
      None \<Rightarrow> (None, ?m\<lparr>sh_cache_misses := sh_cache_misses m + 1\<rparr>)
    | Some j \<Rightarrow> (Some (sc_shard_id (es ! j)), count_shard (?m\<lparr>sh_cache_hits := sh_cache_hits m + 1\<rparr>) (sc_shard_id (es ! j))))"
    using spec inv f
    by (auto simp: get_lookup_def Let_def shard_hash_cache_find_def shard_inv_def c_int_small split: option.splits)
  have hit: "sc_shard_id (es ! j) = route key (shard_count m)" if "i = Some j" for j
  proof -
    from spec that obtain k' where k': "j < length es" "sc_valid (es ! j)" "sc_key (es ! j) = Some k'"
      "c_strlen k' = length key" "take (length key) k' = key" by auto
    moreover have "entry_ok (shard_count m) (es ! j)" using spec inv k'(1) by (auto simp: shard_inv_def list_all_length)
    ultimately show ?thesis by (auto simp: entry_ok_def c_strlen_no_nul)
  qed
  have n: "shard_count m \<noteq> 0" using inv by (simp add: shard_inv_def)
  show "shard_inv m' \<and> shard_count m' = shard_count m \<and> (case r of None \<Rightarrow> True | Some s \<Rightarrow> s = route key (shard_count m))"
    using lk g spec inv hit by (auto simp: shard_inv_def split: option.splits)
  show "case r of Some s \<Rightarrow> stats_ok m'
      | None \<Rightarrow> total_hash_requests m' = sh_cache_hits m' + sh_cache_misses m' \<and> sum_list (shard_distribution m') + 1 = total_hash_requests m'"
    if "stats_ok m"
    using lk g hit route_lt[OF n, of key] that inv
    by (auto simp: stats_ok_def shard_inv_def count_shard_sum split: option.splits)
qed

lemma get_finish_ok:
  assumes inv: "shard_inv m" and g: "get_finish m h now key hash s = (m', h')" and k: "no_nul key"
    and s: "s = route key (shard_count m)"
  shows "shard_inv m' \<and> shard_count m' = shard_count m"
    and "total_hash_requests m' = total_hash_requests m \<and> sh_cache_hits m' = sh_cache_hits m \<and>
      sh_cache_misses m' = sh_cache_misses m \<and> sum_list (shard_distribution m') = sum_list (shard_distribution m) + 1"
proof -
  obtain i m1 h1 where c: "shard_hash_cache_insert m h now key hash s = (i, m1, h1)"
    by (cases "shard_hash_cache_insert m h now key hash s")
  with g have m': "m' = count_shard m1 s" by (simp add: get_finish_def)
  note ins = insert_ok_entries[OF inv c k s]
  have "s < shard_count m1" using ins s route_lt inv by (simp add: shard_inv_def)
  with ins m' show "shard_inv m' \<and> shard_count m' = shard_count m"
    and "total_hash_requests m' = total_hash_requests m \<and> sh_cache_hits m' = sh_cache_hits m \<and>
      sh_cache_misses m' = sh_cache_misses m \<and> sum_list (shard_distribution m') = sum_list (shard_distribution m) + 1"
    using count_shard_sum[of s m1] by (auto simp: shard_inv_def)
qed

lemma get_shard_id_ok:
  assumes inv: "shard_inv m" and g: "shard_hash_get_shard_id m h now now' (Some key) = (s, m', h')" and k: "no_nul key" "key \<noteq> []"
  shows "s = route key (shard_count m) \<and> s < shard_count m \<and> shard_inv m' \<and> shard_count m' = shard_count m \<and>
    (stats_ok m \<longrightarrow> stats_ok m')"
proof -
  obtain r m1 where l: "get_lookup m now key = (r, m1)" by (cases "get_lookup m now key")
  note lk = get_lookup_ok[OF inv l k(1)]
  have lt: "route key (shard_count m) < shard_count m" using inv route_lt by (simp add: shard_inv_def)
  show ?thesis
  proof (cases r)
    case (Some a)
    with g k l lk lt show ?thesis by (auto simp: shard_hash_get_shard_id_def)
  next
    case None
    obtain m2 h2 where f: "get_finish m1 h now' key (shard_hash_compute (Some key)) (route key (shard_count m1)) = (m2, h2)"
      by (cases "get_finish m1 h now' key (shard_hash_compute (Some key)) (route key (shard_count m1))")
    have "(s, m', h') = (route key (shard_count m1), m2, h2)"
      using g k l None f by (simp add: shard_hash_get_shard_id_def Let_def flip: route_def)
    with get_finish_ok[OF _ f k(1) refl] lk None lt show ?thesis by (auto simp: stats_ok_def)
  qed
qed


lemma route_empty: "route [] n = 0"
  by (simp add: route_def shard_hash_compute_def shard_hash_to_shard_id_def)

text \<open>Every lookup of a C string, the empty one included.\<close>

lemma lookup_ok:
  assumes "shard_inv m" "shard_hash_get_shard_id m h now now' (Some key) = (s, m', h')" "no_nul key"
  shows "s = route key (shard_count m) \<and> s < shard_count m \<and> shard_inv m' \<and> shard_count m' = shard_count m \<and>
    (stats_ok m \<longrightarrow> stats_ok m')"
proof (cases "key = []")
  case True
  with assms show ?thesis
    by (auto simp: shard_hash_get_shard_id_def route_empty shard_inv_def word_gt_0)
next
  case False
  from get_shard_id_ok[OF assms False] show ?thesis .
qed

section \<open>The other operations\<close>

lemma clear_ok: "shard_inv m \<Longrightarrow> shard_inv (shard_hash_cache_clear m)"
  by (auto simp: shard_inv_def shard_hash_cache_clear_def list_all_iff)

lemma cleanup_ok: "shard_inv m \<Longrightarrow> shard_inv (snd (shard_hash_cache_cleanup_expired m now))"
  by (auto simp: shard_inv_def shard_hash_cache_cleanup_expired_def list_all_iff)

lemma reset_ok: "shard_inv m \<Longrightarrow> shard_inv (shard_hash_reset_stats m) \<and> stats_ok (shard_hash_reset_stats m)"
  by (auto simp: shard_inv_def shard_hash_reset_stats_def stats_ok_def sum_list_replicate)

lemma set_ok: "shard_inv m \<Longrightarrow> shard_inv (shard_hash_cache_set_ttl m ttl) \<and> shard_inv (shard_hash_set_virtual_nodes m n)"
  by (auto simp: shard_inv_def shard_hash_cache_set_ttl_def shard_hash_set_virtual_nodes_def)

lemma update_count_ok:
  assumes "shard_inv m" "shard_hash_update_shard_count m h n = (r, m', h')"
  shows "shard_inv m' \<and> (r = 0 \<longrightarrow> shard_count m' = n) \<and> (r \<noteq> 0 \<longrightarrow> m' = m)"
  using assms
  by (auto simp: shard_hash_update_shard_count_def shard_inv_def shard_hash_cache_clear_def list_all_iff
      split: if_splits prod.splits)

lemma manager_create_ok:
  assumes "shard_hash_manager_create h n c ttl = (Some m, h')" "c < 2 ^ 31"
  shows "shard_inv m \<and> stats_ok m \<and> shard_count m = n"
  using assms
  by (auto simp: shard_hash_manager_create_def shard_inv_def stats_ok_def list_all_iff sum_list_replicate
      split: if_splits prod.splits)

section \<open>The router as an interface\<close>

text \<open>
  What a client of a router relies on: a lookup answers the route of the key, which depends on nothing
  but the key and the number of shards, and keeps that number.
\<close>

locale key_router =
  fixes inv :: "'s \<Rightarrow> bool" and shards :: "'s \<Rightarrow> 'n" and spec :: "string \<Rightarrow> 'n \<Rightarrow> 'i"
    and in_range :: "'i \<Rightarrow> 'n \<Rightarrow> bool" and good :: "string \<Rightarrow> bool"
    and lookup :: "'s \<Rightarrow> 'c \<Rightarrow> string \<Rightarrow> 'i \<times> 's"
  assumes lookup_route: "inv s \<Longrightarrow> good k \<Longrightarrow> lookup s c k = (i, s') \<Longrightarrow>
    i = spec k (shards s) \<and> in_range i (shards s) \<and> inv s' \<and> shards s' = shards s"
begin

fun lookups :: "('c \<times> string) list \<Rightarrow> 's \<Rightarrow> 'i list \<times> 's" where
  "lookups [] s = ([], s)"
| "lookups ((c, k) # ks) s = (let (i, s1) = lookup s c k; (is, s2) = lookups ks s1 in (i # is, s2))"

lemma lookups_routes:
  "inv s \<Longrightarrow> list_all (\<lambda>(c, k). good k) ks \<Longrightarrow> lookups ks s = (is, s') \<Longrightarrow>
     is = map (\<lambda>(c, k). spec k (shards s)) ks \<and> inv s' \<and> shards s' = shards s"
proof (induction ks arbitrary: s "is" s')
  case (Cons ck ks)
  obtain c k where ck: "ck = (c, k)" by (cases ck)
  obtain i s1 where l: "lookup s c k = (i, s1)" by (cases "lookup s c k")
  obtain js s2 where r: "lookups ks s1 = (js, s2)" by (cases "lookups ks s1")
  from lookup_route[OF Cons.prems(1) _ l] Cons.IH[OF _ _ r] Cons.prems l r ck show ?case by auto
qed simp

text \<open>The order of lookups, and lookups in between, do not matter.\<close>

lemma route_stable:
  assumes "inv s" "list_all (\<lambda>(c, k). good k) ks" "good k" "lookups ks s = (is, s1)" "lookup s1 c k = (i, s2)" "lookup s c' k = (j, s3)"
  shows "i = j"
  using lookups_routes[OF assms(1,2,4)] lookup_route[OF _ assms(3,5)] lookup_route[OF assms(1,3,6)] by simp

end

text \<open>The clock readings and the allocator of a lookup are what varies between two of them.\<close>

definition shard_lookup :: "shard_hash_manager \<Rightarrow> script \<times> int \<times> int \<Rightarrow> string \<Rightarrow> 32 word \<times> shard_hash_manager" where
  "shard_lookup m = (\<lambda>(h, now, now') key. case shard_hash_get_shard_id m h now now' (Some key) of (s, m', h') \<Rightarrow> (s, m'))"

interpretation shr: key_router shard_inv shard_count route "(<)" no_nul shard_lookup
proof unfold_locales
  fix m m' :: shard_hash_manager and k :: string and c :: "script \<times> int \<times> int" and i :: "32 word"
  assume a: "shard_inv m" "no_nul k" "shard_lookup m c k = (i, m')"
  obtain h now now' where c: "c = (h, now, now')" by (cases c)
  obtain h' where "shard_hash_get_shard_id m h now now' (Some k) = (i, m', h')"
    using a(3) c by (auto simp: shard_lookup_def split: prod.splits)
  from lookup_ok[OF a(1) this a(2)]
  show "i = route k (shard_count m) \<and> i < shard_count m \<and> shard_inv m' \<and> shard_count m' = shard_count m" by blast
qed


section \<open>Properties\<close>

datatype router_op =
  RGet string int int | RClear | RTtl "32 word" | RCleanup int | RReset | RShards "32 word" | RVirtual "32 word"

fun router_step :: "router_op \<Rightarrow> shard_hash_manager \<times> script \<Rightarrow> shard_hash_manager \<times> script" where
  "router_step (RGet k now now') (m, h) = (case shard_hash_get_shard_id m h now now' (Some k) of (s, m', h') \<Rightarrow> (m', h'))"
| "router_step RClear (m, h) = (shard_hash_cache_clear m, h)"
| "router_step (RTtl t) (m, h) = (shard_hash_cache_set_ttl m t, h)"
| "router_step (RCleanup now) (m, h) = (snd (shard_hash_cache_cleanup_expired m now), h)"
| "router_step RReset (m, h) = (shard_hash_reset_stats m, h)"
| "router_step (RShards n) (m, h) = (case shard_hash_update_shard_count m h n of (r, m', h') \<Rightarrow> (m', h'))"
| "router_step (RVirtual n) (m, h) = (shard_hash_set_virtual_nodes m n, h)"

definition op_key_ok :: "router_op \<Rightarrow> bool" where
  "op_key_ok c = (case c of RGet k now now' \<Rightarrow> no_nul k | _ \<Rightarrow> True)"

lemma router_step_inv: "shard_inv m \<Longrightarrow> op_key_ok c \<Longrightarrow> shard_inv (fst (router_step c (m, h)))"
proof (cases c)
  case (RGet k now now')
  assume "shard_inv m" "op_key_ok c"
  with RGet lookup_ok[of m h now now' k] show ?thesis
    by (cases "shard_hash_get_shard_id m h now now' (Some k)") (simp add: op_key_ok_def)
next
  case (RShards n)
  assume "shard_inv m"
  with RShards update_count_ok[of m h n] show ?thesis by (cases "shard_hash_update_shard_count m h n") simp
qed (simp_all add: clear_ok cleanup_ok reset_ok set_ok)

lemma router_steps_inv:
  "shard_inv m \<Longrightarrow> list_all op_key_ok ops \<Longrightarrow> shard_inv (fst (fold router_step ops (m, h)))"
proof (induction ops arbitrary: m h)
  case (Cons c ops)
  obtain m1 h1 where s: "router_step c (m, h) = (m1, h1)" by (cases "router_step c (m, h)")
  from router_step_inv[of m c h] Cons.prems s have "shard_inv m1" by simp
  with Cons s show ?case by simp
qed simp


definition sample_router :: shard_hash_manager where
  "sample_router = the (fst (shard_hash_manager_create [] 16 2 300))"

definition sample_router_ops :: "router_op list" where
  "sample_router_ops = [RGet ''user:1'' 10 10, RGet ''user:2'' 20 20, RShards 7, RGet ''user:1'' 30 30, RGet ''user:3'' 400 400]"

lemma sample_router_ok: "shard_inv sample_router \<and> stats_ok sample_router \<and> shard_count sample_router = 16"
proof -
  have "shard_hash_manager_create [] 16 2 300 = (Some sample_router, [])" by code_simp
  then show ?thesis by (rule manager_create_ok) simp
qed


lemma batch_ok:
  "shard_inv m \<Longrightarrow> list_all (\<lambda>(k, t). case k of None \<Rightarrow> True | Some k \<Rightarrow> no_nul k) ks \<Longrightarrow> batch_loop ks m h = (ss, m', h') \<Longrightarrow>
     ss = map (\<lambda>(k, t). case k of None \<Rightarrow> 0 | Some k \<Rightarrow> route k (shard_count m)) ks \<and> shard_inv m' \<and> shard_count m' = shard_count m \<and>
     (stats_ok m \<longrightarrow> stats_ok m')"
proof (induction ks arbitrary: m h ss m' h')
  case (Cons kt ks)
  obtain k now now' where kt: "kt = (k, now, now')" by (cases kt)
  obtain s m1 h1 where g: "shard_hash_get_shard_id m h now now' k = (s, m1, h1)" by (cases "shard_hash_get_shard_id m h now now' k")
  obtain ss1 m2 h2 where b: "batch_loop ks m1 h1 = (ss1, m2, h2)" by (cases "batch_loop ks m1 h1")
  show ?case
  proof (cases k)
    case None
    with Cons g b kt show ?thesis by (simp add: shard_hash_get_shard_id_def)
  next
    case (Some key)
    with lookup_ok[of m h now now' key s m1 h1] Cons.prems g kt
    have m1: "s = route key (shard_count m)" "shard_inv m1" "shard_count m1 = shard_count m" "stats_ok m \<longrightarrow> stats_ok m1" by auto
    from Cons.IH[OF m1(2) _ b] Cons.prems g b kt m1 Some show ?thesis unfolding m1(3) by auto
  qed
qed simp

text \<open>
  A batch answers the route of every key in order, and its lookups are all accounted for: requests are hits
  plus misses, and each is counted for one shard.
\<close>

theorem router_batch_routes:
  assumes "shard_inv m" "stats_ok m" "list_all (\<lambda>(k, t). case k of None \<Rightarrow> True | Some k \<Rightarrow> no_nul k) ks" "ks \<noteq> []"
    and "shard_hash_batch_get_shard_ids m h ks = (r, ss, m', h')"
  shows "r = 0 \<and> ss = map (\<lambda>(k, t). case k of None \<Rightarrow> 0 | Some k \<Rightarrow> route k (shard_count m)) ks \<and> shard_inv m' \<and> stats_ok m'"
  using batch_ok[OF assms(1,3)] assms(2,4,5)
  by (auto simp: shard_hash_batch_get_shard_ids_def split: prod.splits)

theorem router_batch_routes_witness:
  "\<exists>r ss m' h'. shard_hash_batch_get_shard_ids sample_router [] [(Some ''a'', 1, 1), (None, 2, 2), (Some ''a'', 3, 3)] = (r, ss, m', h') \<and>
   r = 0 \<and> ss = [route ''a'' 16, 0, route ''a'' 16] \<and> shard_inv m' \<and> stats_ok m'"
proof -
  let ?ks = "[(Some ''a'', 1, 1), (None, 2, 2), (Some ''a'', 3, 3)] :: (string option \<times> int \<times> int) list"
  obtain r ss m' h' where b: "shard_hash_batch_get_shard_ids sample_router [] ?ks = (r, ss, m', h')"
    by (cases "shard_hash_batch_get_shard_ids sample_router [] ?ks")
  have "list_all (\<lambda>(k, t). case k of None \<Rightarrow> True | Some k \<Rightarrow> no_nul k) ?ks" by code_simp
  with router_batch_routes[of sample_router ?ks "[]" r ss m' h'] b sample_router_ok show ?thesis by auto
qed


text \<open>
  A key with a NUL byte, which the interface with explicit lengths admits, is cached under its prefix
  up to the NUL; a later lookup of that prefix hits the entry and is routed to the wrong shard.
\<close>

theorem router_nul_key_misroutes:
  "let (s1, m1, h1) = shard_hash_get_shard_id sample_router [] 10 10 (Some [CHR ''a'', CHR ''b'', CHR 0x00, CHR ''c'']);
       (s2, m2, h2) = shard_hash_get_shard_id m1 h1 11 11 (Some ''ab'') in
   s2 = s1 \<and> s2 \<noteq> route ''ab'' 16"
  by code_simp

text \<open>
  A change of the number of shards that runs between a lookup's computation of the shard and its insertion
  into the cache leaves an entry for the old number behind: later lookups of the key are answered
  with a shard that is out of range.
\<close>

theorem router_resize_race:
  "let (r, m1) = get_lookup sample_router 10 ''k3'';
       hash = shard_hash_compute (Some ''k3''); s = shard_hash_to_shard_id hash (shard_count m1);
       (rc, m2, h2) = shard_hash_update_shard_count m1 [] 2;
       (m3, h3) = get_finish m2 h2 10 ''k3'' hash s;
       (s', m4, h4) = shard_hash_get_shard_id m3 h3 11 11 (Some ''k3'') in
   r = None \<and> rc = 0 \<and> shard_count m4 = 2 \<and> s' = s \<and> \<not> s' < shard_count m4"
  by code_simp

end
