(* ===== verification/Engine_Factory.thy ===== *)
theory Engine_Factory
  imports Array_Engine Hash_Engine BTree_Delete
begin

text \<open>
  The engine factory, \<open>src/kvserver/kv_engine_factory.c\<close>: engines behind a table of functions, chosen
  by type, with their state and counters; and the batches of pairs that are passed to engines.

  A call through the table is a case distinction on the engine's type, which fixes the table. The
  private data is present while the engine is usable: \<open>kv_engine_create\<close> returns no engine without it,
  and the destroy functions, which clear it, leave the state \<open>SHUTDOWN\<close> that every operation refuses. A
  read of missing data is a fault of the model. Metrics are only recorded after \<open>init_metrics\<close>, into a
  separate manager, and are left out; of the configuration, so are the two floating-point fields.
\<close>

section \<open>Types\<close>

datatype kv_engine_type =
  KV_ENGINE_ARRAY | KV_ENGINE_RBTREE | KV_ENGINE_HASH | KV_ENGINE_BTREE | KV_ENGINE_LSM | KV_ENGINE_MAX

datatype kv_engine_state =
  KV_ENGINE_STATE_INIT | KV_ENGINE_STATE_RUNNING | KV_ENGINE_STATE_COMPACTING | KV_ENGINE_STATE_FLUSHING
  | KV_ENGINE_STATE_ERROR | KV_ENGINE_STATE_SHUTDOWN

record kv_engine_config =
  cfg_type :: kv_engine_type
  memory_limit :: "64 word"
  cfg_cache_size :: "64 word"
  enable_compression :: bool
  enable_checksum :: bool
  data_dir :: "string option"
  memtable_size :: "64 word"
  level0_file_limit :: "64 word"
  page_size :: "32 word"
  max_keys_per_node :: "32 word"
  initial_buckets :: "32 word"

datatype engine_data = DArray array_t | DRbtree rbtree | DHash hashtable_t | DBtree btree_t

record kv_engine_t =
  eng_type :: kv_engine_type
  eng_state :: kv_engine_state
  eng_config :: kv_engine_config
  engine_data :: "engine_data option"
  eng_read_count :: "64 word"
  eng_write_count :: "64 word"
  eng_delete_count :: "64 word"
  eng_name :: string

abbreviation KV_ERR_SYS :: int where "KV_ERR_SYS \<equiv> 1"

text \<open>\<open>KV_ENGINE_CHECK_VALID\<close>.\<close>

definition eng_invalid :: "kv_engine_t \<Rightarrow> bool" where
  "eng_invalid e \<longleftrightarrow> eng_state e = KV_ENGINE_STATE_ERROR \<or> eng_state e = KV_ENGINE_STATE_SHUTDOWN"

definition wrote :: "kv_engine_t \<Rightarrow> int \<Rightarrow> engine_data \<Rightarrow> kv_engine_t" where
  "wrote e ret d = e\<lparr>engine_data := Some d, eng_write_count := eng_write_count e + (if ret = 0 then 1 else 0)\<rparr>"

definition deleted :: "kv_engine_t \<Rightarrow> int \<Rightarrow> engine_data \<Rightarrow> kv_engine_t" where
  "deleted e ret d = e\<lparr>engine_data := Some d, eng_delete_count := eng_delete_count e + (if ret = 0 then 1 else 0)\<rparr>"

definition with_data :: "kv_engine_t \<Rightarrow> engine_data \<Rightarrow> kv_engine_t" where
  "with_data e d = e\<lparr>engine_data := Some d\<rparr>"

definition has_read :: "kv_engine_t \<Rightarrow> kv_engine_t" where
  "has_read e = e\<lparr>eng_read_count := eng_read_count e + 1\<rparr>"

definition sys_of :: "int \<Rightarrow> int" where
  "sys_of ret = (if ret = 0 then KV_ERR_NONE else KV_ERR_SYS)"

definition update_code :: "int \<Rightarrow> int" where
  "update_code ret = (if ret = 0 then KV_ERR_NONE else if ret > 0 then KV_ERR_NOT_FOUND else KV_ERR_SYS)"

type_synonym eng_result = "(int \<times> kv_engine_t \<times> script) outcome"

section \<open>Array\<close>

definition array_set :: "kv_engine_t \<Rightarrow> script \<Rightarrow> string option \<Rightarrow> string option \<Rightarrow> eng_result" where
  "array_set e h key_p value_p =
     (if eng_invalid e \<or> key_p = None \<or> value_p = None then Inr (KV_ERR_PARAM, e, h)
      else (case engine_data e of
          Some (DArray a) \<Rightarrow> obind (kvs_array_set h a key_p value_p) (\<lambda>(ret, a', h1).
            Inr (sys_of ret, wrote e ret (DArray a'), h1))
        | _ \<Rightarrow> Inl NullDeref))"

definition array_get :: "kv_engine_t \<Rightarrow> script \<Rightarrow> string option \<Rightarrow> (cptr \<times> kv_engine_t \<times> script) outcome" where
  "array_get e h key_p =
     (if eng_invalid e \<or> key_p = None then Inr (Null, e, h)
      else (case engine_data e of
          Some (DArray a) \<Rightarrow> Inr (kvs_array_get a key_p, has_read e, h)
        | _ \<Rightarrow> Inl NullDeref))"

definition array_delete :: "kv_engine_t \<Rightarrow> script \<Rightarrow> string option \<Rightarrow> eng_result" where
  "array_delete e h key_p =
     (if eng_invalid e \<or> key_p = None then Inr (KV_ERR_PARAM, e, h)
      else (case engine_data e of
          Some (DArray a) \<Rightarrow>
            if kvs_array_get a key_p = Null then Inr (KV_ERR_NOT_FOUND, e, h)
            else obind (kvs_array_delete a key_p) (\<lambda>(ret, a'). Inr (sys_of ret, deleted e ret (DArray a'), h))
        | _ \<Rightarrow> Inl NullDeref))"

definition array_update :: "kv_engine_t \<Rightarrow> script \<Rightarrow> string option \<Rightarrow> string option \<Rightarrow> eng_result" where
  "array_update e h key_p value_p =
     (if eng_invalid e \<or> key_p = None \<or> value_p = None then Inr (KV_ERR_PARAM, e, h)
      else (case engine_data e of
          Some (DArray a) \<Rightarrow> obind (kvs_array_modify h a key_p value_p) (\<lambda>(ret, a', h1).
            Inr (update_code ret, with_data e (DArray a'), h1))
        | _ \<Rightarrow> Inl NullDeref))"

definition array_count :: "kv_engine_t \<Rightarrow> int outcome" where
  "array_count e =
     (if eng_invalid e then Inr KV_ERR_PARAM
      else (case engine_data e of Some (DArray a) \<Rightarrow> Inr (kvs_array_count a) | _ \<Rightarrow> Inl NullDeref))"

section \<open>Red-black tree\<close>

definition rbtree_set :: "kv_engine_t \<Rightarrow> script \<Rightarrow> string option \<Rightarrow> string option \<Rightarrow> eng_result" where
  "rbtree_set e h key_p value_p =
     (if eng_invalid e \<or> key_p = None \<or> value_p = None then Inr (KV_ERR_PARAM, e, h)
      else (case engine_data e of
          Some (DRbtree t) \<Rightarrow> obind (kvs_rbtree_set h t key_p value_p) (\<lambda>(ret, t', h1).
            Inr (sys_of ret, wrote e ret (DRbtree t'), h1))
        | _ \<Rightarrow> Inl NullDeref))"

definition rbtree_get :: "kv_engine_t \<Rightarrow> script \<Rightarrow> string option \<Rightarrow> (cptr \<times> kv_engine_t \<times> script) outcome" where
  "rbtree_get e h key_p =
     (if eng_invalid e \<or> key_p = None then Inr (Null, e, h)
      else (case engine_data e of
          Some (DRbtree t) \<Rightarrow> obind (kvs_rbtree_get t key_p) (\<lambda>v. Inr (v, has_read e, h))
        | _ \<Rightarrow> Inl NullDeref))"

definition rbtree_engine_delete :: "kv_engine_t \<Rightarrow> script \<Rightarrow> string option \<Rightarrow> eng_result" where
  "rbtree_engine_delete e h key_p =
     (if eng_invalid e \<or> key_p = None then Inr (KV_ERR_PARAM, e, h)
      else (case engine_data e of
          Some (DRbtree t) \<Rightarrow> obind (kvs_rbtree_get t key_p) (\<lambda>v.
            if v = Null then Inr (KV_ERR_NOT_FOUND, e, h)
            else obind (kvs_rbtree_delete t key_p) (\<lambda>(ret, t'). Inr (sys_of ret, deleted e ret (DRbtree t'), h)))
        | _ \<Rightarrow> Inl NullDeref))"

definition rbtree_update :: "kv_engine_t \<Rightarrow> script \<Rightarrow> string option \<Rightarrow> string option \<Rightarrow> eng_result" where
  "rbtree_update e h key_p value_p =
     (if eng_invalid e \<or> key_p = None \<or> value_p = None then Inr (KV_ERR_PARAM, e, h)
      else (case engine_data e of
          Some (DRbtree t) \<Rightarrow> obind (kvs_rbtree_modify h t key_p value_p) (\<lambda>(ret, t', h1).
            Inr (update_code ret, with_data e (DRbtree t'), h1))
        | _ \<Rightarrow> Inl NullDeref))"

definition rbtree_count :: "kv_engine_t \<Rightarrow> int outcome" where
  "rbtree_count e =
     (if eng_invalid e then Inr KV_ERR_PARAM
      else (case engine_data e of Some (DRbtree t) \<Rightarrow> Inr (kvs_rbtree_count t) | _ \<Rightarrow> Inl NullDeref))"

section \<open>Hash table\<close>

definition hash_set :: "kv_engine_t \<Rightarrow> script \<Rightarrow> string option \<Rightarrow> string option \<Rightarrow> eng_result" where
  "hash_set e h key_p value_p =
     (if eng_invalid e \<or> key_p = None \<or> value_p = None then Inr (KV_ERR_PARAM, e, h)
      else (case engine_data e of
          Some (DHash t) \<Rightarrow> obind (kvs_hash_set h t key_p value_p) (\<lambda>(ret, t', h1).
            Inr (sys_of ret, wrote e ret (DHash t'), h1))
        | _ \<Rightarrow> Inl NullDeref))"

definition hash_get :: "kv_engine_t \<Rightarrow> script \<Rightarrow> string option \<Rightarrow> (cptr \<times> kv_engine_t \<times> script) outcome" where
  "hash_get e h key_p =
     (if eng_invalid e \<or> key_p = None then Inr (Null, e, h)
      else (case engine_data e of
          Some (DHash t) \<Rightarrow> obind (kvs_hash_get h t key_p) (\<lambda>(v, h1). Inr (v, has_read e, h1))
        | _ \<Rightarrow> Inl NullDeref))"

definition hash_delete :: "kv_engine_t \<Rightarrow> script \<Rightarrow> string option \<Rightarrow> eng_result" where
  "hash_delete e h key_p =
     (if eng_invalid e \<or> key_p = None then Inr (KV_ERR_PARAM, e, h)
      else (case engine_data e of
          Some (DHash t) \<Rightarrow> obind (kvs_hash_get h t key_p) (\<lambda>(v, h1).
            if v = Null then Inr (KV_ERR_NOT_FOUND, e, h1)
            else obind (kvs_hash_delete h1 t key_p) (\<lambda>(ret, t', h2). Inr (sys_of ret, deleted e ret (DHash t'), h2)))
        | _ \<Rightarrow> Inl NullDeref))"

definition hash_update :: "kv_engine_t \<Rightarrow> script \<Rightarrow> string option \<Rightarrow> string option \<Rightarrow> eng_result" where
  "hash_update e h key_p value_p =
     (if eng_invalid e \<or> key_p = None \<or> value_p = None then Inr (KV_ERR_PARAM, e, h)
      else (case engine_data e of
          Some (DHash t) \<Rightarrow> obind (kvs_hash_modify h t key_p value_p) (\<lambda>(ret, t', h1).
            Inr (update_code ret, with_data e (DHash t'), h1))
        | _ \<Rightarrow> Inl NullDeref))"

definition hash_count :: "kv_engine_t \<Rightarrow> int outcome" where
  "hash_count e =
     (if eng_invalid e then Inr KV_ERR_PARAM
      else (case engine_data e of Some (DHash t) \<Rightarrow> Inr (kvs_hash_count t) | _ \<Rightarrow> Inl NullDeref))"

section \<open>B+-tree\<close>

definition btree_adapter_set :: "kv_engine_t \<Rightarrow> script \<Rightarrow> string option \<Rightarrow> string option \<Rightarrow> eng_result" where
  "btree_adapter_set e h key_p value_p =
     (if eng_invalid e \<or> key_p = None \<or> value_p = None then Inr (KV_ERR_PARAM, e, h)
      else (case engine_data e of
          Some (DBtree t) \<Rightarrow> obind (kvs_btree_set t h key_p value_p) (\<lambda>(ret, t', h1).
            Inr (sys_of ret, wrote e ret (DBtree t'), h1))
        | _ \<Rightarrow> Inl NullDeref))"

definition btree_adapter_get :: "kv_engine_t \<Rightarrow> script \<Rightarrow> string option \<Rightarrow> (cptr \<times> kv_engine_t \<times> script) outcome" where
  "btree_adapter_get e h key_p =
     (if eng_invalid e \<or> key_p = None then Inr (Null, e, h)
      else (case engine_data e of
          Some (DBtree t) \<Rightarrow> obind (kvs_btree_get t h key_p) (\<lambda>(v, t', h1).
            Inr (cptr_of v, has_read (with_data e (DBtree t')), h1))
        | _ \<Rightarrow> Inl NullDeref))"

text \<open>The copy of the value that the look-up before a deletion returns is leaked.\<close>

definition btree_adapter_delete :: "kv_engine_t \<Rightarrow> script \<Rightarrow> string option \<Rightarrow> eng_result" where
  "btree_adapter_delete e h key_p =
     (if eng_invalid e \<or> key_p = None then Inr (KV_ERR_PARAM, e, h)
      else (case engine_data e of
          Some (DBtree t) \<Rightarrow> obind (kvs_btree_get t h key_p) (\<lambda>(v, t1, h1).
            if v = None then Inr (KV_ERR_NOT_FOUND, with_data e (DBtree t1), h1)
            else obind (kvs_btree_delete t1 h1 key_p) (\<lambda>(ret, t', h2). Inr (sys_of ret, deleted e ret (DBtree t'), h2)))
        | _ \<Rightarrow> Inl NullDeref))"

definition btree_adapter_update :: "kv_engine_t \<Rightarrow> script \<Rightarrow> string option \<Rightarrow> string option \<Rightarrow> eng_result" where
  "btree_adapter_update e h key_p value_p =
     (if eng_invalid e \<or> key_p = None \<or> value_p = None then Inr (KV_ERR_PARAM, e, h)
      else (case engine_data e of
          Some (DBtree t) \<Rightarrow> obind (kvs_btree_modify t h key_p value_p) (\<lambda>(ret, t', h1).
            Inr (update_code ret, with_data e (DBtree t'), h1))
        | _ \<Rightarrow> Inl NullDeref))"

definition btree_adapter_count :: "kv_engine_t \<Rightarrow> int outcome" where
  "btree_adapter_count e =
     (if eng_invalid e then Inr KV_ERR_PARAM
      else (case engine_data e of Some (DBtree t) \<Rightarrow> Inr (kvs_btree_count t) | _ \<Rightarrow> Inl NullDeref))"

section \<open>Calls through the table\<close>

text \<open>Only the four types have a table; an engine of another type is never created.\<close>

definition KV_ENGINE_SET :: "kv_engine_t \<Rightarrow> script \<Rightarrow> string option \<Rightarrow> string option \<Rightarrow> eng_result" where
  "KV_ENGINE_SET e =
     (case eng_type e of
        KV_ENGINE_ARRAY \<Rightarrow> array_set e | KV_ENGINE_RBTREE \<Rightarrow> rbtree_set e | KV_ENGINE_HASH \<Rightarrow> hash_set e
      | KV_ENGINE_BTREE \<Rightarrow> btree_adapter_set e | _ \<Rightarrow> (\<lambda>h k v. Inl NullDeref))"

definition KV_ENGINE_GET :: "kv_engine_t \<Rightarrow> script \<Rightarrow> string option \<Rightarrow> (cptr \<times> kv_engine_t \<times> script) outcome" where
  "KV_ENGINE_GET e =
     (case eng_type e of
        KV_ENGINE_ARRAY \<Rightarrow> array_get e | KV_ENGINE_RBTREE \<Rightarrow> rbtree_get e | KV_ENGINE_HASH \<Rightarrow> hash_get e
      | KV_ENGINE_BTREE \<Rightarrow> btree_adapter_get e | _ \<Rightarrow> (\<lambda>h k. Inl NullDeref))"

definition KV_ENGINE_DELETE :: "kv_engine_t \<Rightarrow> script \<Rightarrow> string option \<Rightarrow> eng_result" where
  "KV_ENGINE_DELETE e =
     (case eng_type e of
        KV_ENGINE_ARRAY \<Rightarrow> array_delete e | KV_ENGINE_RBTREE \<Rightarrow> rbtree_engine_delete e | KV_ENGINE_HASH \<Rightarrow> hash_delete e
      | KV_ENGINE_BTREE \<Rightarrow> btree_adapter_delete e | _ \<Rightarrow> (\<lambda>h k. Inl NullDeref))"

definition KV_ENGINE_UPDATE :: "kv_engine_t \<Rightarrow> script \<Rightarrow> string option \<Rightarrow> string option \<Rightarrow> eng_result" where
  "KV_ENGINE_UPDATE e =
     (case eng_type e of
        KV_ENGINE_ARRAY \<Rightarrow> array_update e | KV_ENGINE_RBTREE \<Rightarrow> rbtree_update e | KV_ENGINE_HASH \<Rightarrow> hash_update e
      | KV_ENGINE_BTREE \<Rightarrow> btree_adapter_update e | _ \<Rightarrow> (\<lambda>h k v. Inl NullDeref))"

definition KV_ENGINE_COUNT :: "kv_engine_t \<Rightarrow> int outcome" where
  "KV_ENGINE_COUNT e =
     (case eng_type e of
        KV_ENGINE_ARRAY \<Rightarrow> array_count e | KV_ENGINE_RBTREE \<Rightarrow> rbtree_count e | KV_ENGINE_HASH \<Rightarrow> hash_count e
      | KV_ENGINE_BTREE \<Rightarrow> btree_adapter_count e | _ \<Rightarrow> Inl NullDeref)"

section \<open>Creation and destruction\<close>

definition array_engine_init :: "kv_engine_t \<Rightarrow> script \<Rightarrow> eng_result" where
  "array_engine_init e h =
     (let (ok, h1) = malloc h in
      if \<not> ok then Inr (KV_ERR_MEM, e, h1)
      else (let (r, a, h2) = kv_store_array_create h1 \<lparr>array_table = None, array_idx = 0\<rparr> in
        if r \<noteq> 0 then Inr (KV_ERR_SYS, e, h2)
        else Inr (KV_ERR_NONE, e\<lparr>engine_data := Some (DArray a), eng_state := KV_ENGINE_STATE_RUNNING,
               eng_name := ''Array Engine''\<rparr>, h2)))"

definition rbtree_engine_init :: "kv_engine_t \<Rightarrow> script \<Rightarrow> eng_result" where
  "rbtree_engine_init e h =
     (let (ok, h1) = malloc h in
      if \<not> ok then Inr (KV_ERR_MEM, e, h1)
      else obind (kv_store_rbtree_create h1) (\<lambda>(r, t, h2).
        if r \<noteq> 0 then Inr (KV_ERR_SYS, e, h2)
        else Inr (KV_ERR_NONE, e\<lparr>engine_data := Some (DRbtree t), eng_state := KV_ENGINE_STATE_RUNNING,
               eng_name := ''RBTree Engine''\<rparr>, h2)))"

definition hash_engine_init :: "kv_engine_t \<Rightarrow> script \<Rightarrow> eng_result" where
  "hash_engine_init e h =
     (let (ok, h1) = malloc h in
      if \<not> ok then Inr (KV_ERR_MEM, e, h1)
      else (let (r, t, h2) = kv_store_hash_create h1 \<lparr>buckets = None, max_slots = 0, hcount = 0\<rparr> in
        if r \<noteq> 0 then Inr (KV_ERR_SYS, e, h2)
        else Inr (KV_ERR_NONE, e\<lparr>engine_data := Some (DHash t), eng_state := KV_ENGINE_STATE_RUNNING,
               eng_name := ''Hash Engine''\<rparr>, h2)))"

definition btree_engine_init :: "kv_engine_t \<Rightarrow> script \<Rightarrow> eng_result" where
  "btree_engine_init e h =
     (let order = (if max_keys_per_node (eng_config e) > 0 then sint (max_keys_per_node (eng_config e))
                   else BTREE_DEFAULT_ORDER) in
      (case kv_store_btree_create h order of
         (None, h1) \<Rightarrow> Inr (KV_ERR_SYS, e, h1)
       | (Some t, h1) \<Rightarrow>
           Inr (KV_ERR_NONE, e\<lparr>engine_data := Some (DBtree t), eng_state := KV_ENGINE_STATE_RUNNING,
               eng_name := ''BTree Engine''\<rparr>, h1)))"

definition kv_engine_config_create :: "script \<Rightarrow> kv_engine_type \<Rightarrow> kv_engine_config option \<times> script" where
  "kv_engine_config_create h type =
     (let (ok, h1) = malloc h in
      (if \<not> ok then None
       else Some \<lparr>cfg_type = type, memory_limit = 67108864, cfg_cache_size = 16777216, enable_compression = False,
         enable_checksum = True, data_dir = None,
         memtable_size = (if type = KV_ENGINE_LSM then 16777216 else 0),
         level0_file_limit = (if type = KV_ENGINE_LSM then 4 else 0),
         page_size = (if type = KV_ENGINE_BTREE then 4096 else 0),
         max_keys_per_node = (if type = KV_ENGINE_BTREE then 128 else 0),
         initial_buckets = (if type = KV_ENGINE_HASH then 1024 else 0)\<rparr>, h1))"

text \<open>The configuration of an engine created without one: the fields the code sets over zeros.\<close>

definition default_config :: "kv_engine_type \<Rightarrow> kv_engine_config" where
  "default_config type =
     \<lparr>cfg_type = type, memory_limit = 67108864, cfg_cache_size = 16777216, enable_compression = False,
       enable_checksum = True, data_dir = None, memtable_size = 0, level0_file_limit = 0, page_size = 0,
       max_keys_per_node = 0, initial_buckets = 0\<rparr>"

definition kv_engine_create ::
  "script \<Rightarrow> kv_engine_type \<Rightarrow> kv_engine_config option \<Rightarrow> (kv_engine_t option \<times> script) outcome" where
  "kv_engine_create h type config_p =
     (if type = KV_ENGINE_MAX then Inr (None, h)
      else (let (ok, h1) = malloc h in
        if \<not> ok then Inr (None, h1)
        else (let (ok2, h2) = malloc h1 in
          if \<not> ok2 then Inr (None, h2)
          else (let config = (case config_p of Some c \<Rightarrow> c | None \<Rightarrow> default_config type);
                    e = \<lparr>eng_type = type, eng_state = KV_ENGINE_STATE_INIT, eng_config = config, engine_data = None,
                         eng_read_count = 0, eng_write_count = 0, eng_delete_count = 0, eng_name = []\<rparr>;
                    init = (case type of
                        KV_ENGINE_ARRAY \<Rightarrow> array_engine_init e h2 | KV_ENGINE_RBTREE \<Rightarrow> rbtree_engine_init e h2
                      | KV_ENGINE_HASH \<Rightarrow> hash_engine_init e h2 | KV_ENGINE_BTREE \<Rightarrow> btree_engine_init e h2
                      | _ \<Rightarrow> Inr (KV_ERR_NOT_SUPPORTED, e, h2)) in
            obind init (\<lambda>(r, e', h3). Inr (if r = KV_ERR_NONE then Some e' else None, h3))))))"

text \<open>
  The destroy functions of the four tables: the code, and the engine that is then freed. Of the B+-tree, the
  nodes are freed in one pass, each once, with no fault to report.
\<close>

definition engine_destroy_impl :: "kv_engine_t \<Rightarrow> (int \<times> kv_engine_t) outcome" where
  "engine_destroy_impl e =
     (let done = e\<lparr>engine_data := None, eng_state := KV_ENGINE_STATE_SHUTDOWN\<rparr> in
      (case engine_data e of
         None \<Rightarrow> Inr (KV_ERR_PARAM, e)
       | Some (DArray a) \<Rightarrow> obind (kv_store_array_destroy a) (\<lambda>a'. Inr (KV_ERR_NONE, done))
       | Some (DRbtree t) \<Rightarrow> obind (kv_store_rbtree_destroy t) (\<lambda>t'. Inr (KV_ERR_NONE, done))
       | Some (DHash t) \<Rightarrow> obind (kv_store_hash_destroy t) (\<lambda>t'. Inr (KV_ERR_NONE, done))
       | Some (DBtree t) \<Rightarrow> Inr (KV_ERR_NONE, done)))"

definition kv_engine_destroy :: "kv_engine_t option \<Rightarrow> int outcome" where
  "kv_engine_destroy e_p =
     (case e_p of
        None \<Rightarrow> Inr KV_ERR_PARAM
      | Some e \<Rightarrow> obind (engine_destroy_impl e) (\<lambda>(r, e'). Inr r))"

fun kv_engine_type_to_string :: "kv_engine_type \<Rightarrow> string" where
  "kv_engine_type_to_string KV_ENGINE_ARRAY = ''Array''"
| "kv_engine_type_to_string KV_ENGINE_RBTREE = ''RBTree''"
| "kv_engine_type_to_string KV_ENGINE_HASH = ''Hash''"
| "kv_engine_type_to_string KV_ENGINE_BTREE = ''BTree''"
| "kv_engine_type_to_string KV_ENGINE_LSM = ''LSM''"
| "kv_engine_type_to_string KV_ENGINE_MAX = ''Unknown''"

fun kv_engine_state_to_string :: "kv_engine_state \<Rightarrow> string" where
  "kv_engine_state_to_string KV_ENGINE_STATE_INIT = ''Init''"
| "kv_engine_state_to_string KV_ENGINE_STATE_RUNNING = ''Running''"
| "kv_engine_state_to_string KV_ENGINE_STATE_COMPACTING = ''Compacting''"
| "kv_engine_state_to_string KV_ENGINE_STATE_FLUSHING = ''Flushing''"
| "kv_engine_state_to_string KV_ENGINE_STATE_ERROR = ''Error''"
| "kv_engine_state_to_string KV_ENGINE_STATE_SHUTDOWN = ''Shutdown''"

section \<open>Pairs and batches\<close>

type_synonym kv_pair = "string \<times> string"

text \<open>The first \<open>count\<close> pairs of the array; the lengths are those of the strings.\<close>

record kv_batch =
  batch_pairs :: "kv_pair list"
  batch_capacity :: nat

definition kv_pair_create :: "script \<Rightarrow> string option \<Rightarrow> string option \<Rightarrow> kv_pair option \<times> script" where
  "kv_pair_create h key_p value_p =
     (case (key_p, value_p) of
        (Some k, Some v) \<Rightarrow>
          (let (ok, h1) = malloc h in
           if \<not> ok then (None, h1)
           else (let (ok1, h2) = malloc h1; (ok2, h3) = malloc h2 in
             (if ok1 \<and> ok2 then Some (k, v) else None, h3)))
      | _ \<Rightarrow> (None, h))"

definition kv_batch_create :: "script \<Rightarrow> nat \<Rightarrow> kv_batch option \<times> script" where
  "kv_batch_create h capacity =
     (let c = (if capacity = 0 then 16 else capacity); (ok, h1) = malloc h in
      if \<not> ok then (None, h1)
      else (let (ok2, h2) = malloc h1 in
        (if ok2 then Some \<lparr>batch_pairs = [], batch_capacity = c\<rparr> else None, h2)))"

definition kv_batch_add :: "script \<Rightarrow> kv_batch \<Rightarrow> string option \<Rightarrow> string option \<Rightarrow> int \<times> kv_batch \<times> script" where
  "kv_batch_add h b key_p value_p =
     (case (key_p, value_p) of
        (Some k, Some v) \<Rightarrow>
          (let full = length (batch_pairs b) \<ge> batch_capacity b;
               (ok, h1) = (if full then malloc h else (True, h)) in
           if \<not> ok then (KV_ERR_MEM, b, h1)
           else (let b1 = (if full then b\<lparr>batch_capacity := batch_capacity b * 2\<rparr> else b);
                     (ok1, h2) = malloc h1; (ok2, h3) = malloc h2 in
             if ok1 \<and> ok2 then (KV_ERR_NONE, b1\<lparr>batch_pairs := batch_pairs b1 @ [(k, v)]\<rparr>, h3)
             else (KV_ERR_MEM, b1, h3)))
      | _ \<Rightarrow> (KV_ERR_PARAM, b, h))"

definition kv_batch_clear :: "kv_batch \<Rightarrow> kv_batch" where
  "kv_batch_clear b = b\<lparr>batch_pairs := []\<rparr>"

end
