(* ===== verification/Engine_Contract.thy ===== *)
theory Engine_Contract
  imports Engine_Factory
begin

text \<open>
  An engine of any type from the factory satisfies the engine contract; the two points in which
  the engines differ are functions of the type.
\<close>

definition eng_ok :: "kv_engine_t \<Rightarrow> bool" where
  "eng_ok e \<longleftrightarrow> \<not> eng_invalid e \<and>
     (case engine_data e of
        Some (DArray a) \<Rightarrow> eng_type e = KV_ENGINE_ARRAY \<and> array_inv a
      | Some (DRbtree t) \<Rightarrow> eng_type e = KV_ENGINE_RBTREE \<and> rbtree_inv t
      | Some (DHash t) \<Rightarrow> eng_type e = KV_ENGINE_HASH \<and> hash_inv t
      | Some (DBtree t) \<Rightarrow> eng_type e = KV_ENGINE_BTREE \<and> btree_inv t
      | None \<Rightarrow> False)"

definition eng_content :: "kv_engine_t \<Rightarrow> string \<rightharpoonup> string" where
  "eng_content e =
     (case engine_data e of
        Some (DArray a) \<Rightarrow> array_content a | Some (DRbtree t) \<Rightarrow> rbtree_content t
      | Some (DHash t) \<Rightarrow> hash_content t | Some (DBtree t) \<Rightarrow> btree_content t | None \<Rightarrow> Map.empty)"

definition eng_room :: "kv_engine_t \<Rightarrow> string \<Rightarrow> string \<Rightarrow> bool" where
  "eng_room e k v \<longleftrightarrow>
     (case engine_data e of
        Some (DArray a) \<Rightarrow> array_idx a < KVS_ARRAY_SIZE | Some (DHash t) \<Rightarrow> hash_room t
      | Some (DBtree t) \<Rightarrow> btree_accepts k v | _ \<Rightarrow> True)"

definition eng_del_ok :: "kv_engine_t \<Rightarrow> string \<Rightarrow> bool" where
  "eng_del_ok e k \<longleftrightarrow> (case engine_data e of Some (DHash t) \<Rightarrow> del_safe t k | _ \<Rightarrow> True)"

definition overwrites :: "kv_engine_type \<Rightarrow> bool" where
  "overwrites T \<longleftrightarrow> T \<noteq> KV_ENGINE_RBTREE"

definition inserts :: "kv_engine_type \<Rightarrow> bool" where
  "inserts T \<longleftrightarrow> T = KV_ENGINE_HASH"

lemma eng_ok_cases:
  assumes "eng_ok e"
  obtains (array) a where "engine_data e = Some (DArray a)" "eng_type e = KV_ENGINE_ARRAY" "array_inv a" "\<not> eng_invalid e"
    | (rbtree) t where "engine_data e = Some (DRbtree t)" "eng_type e = KV_ENGINE_RBTREE" "rbtree_inv t" "\<not> eng_invalid e"
    | (hash) ht where "engine_data e = Some (DHash ht)" "eng_type e = KV_ENGINE_HASH" "hash_inv ht" "\<not> eng_invalid e"
    | (btree) bt where "engine_data e = Some (DBtree bt)" "eng_type e = KV_ENGINE_BTREE" "btree_inv bt" "\<not> eng_invalid e"
  using assms by (auto simp: eng_ok_def split: option.splits engine_data.splits)

text \<open>What the calls return, as an update of the engine's data.\<close>

lemma eng_upd [simp]:
  "engine_data (wrote e r d) = Some d" "engine_data (deleted e r d) = Some d" "engine_data (with_data e d) = Some d"
  "engine_data (has_read e) = engine_data e"
  "eng_type (wrote e r d) = eng_type e" "eng_type (deleted e r d) = eng_type e" "eng_type (with_data e d) = eng_type e"
  "eng_type (has_read e) = eng_type e"
  "eng_invalid (wrote e r d) = eng_invalid e" "eng_invalid (deleted e r d) = eng_invalid e"
  "eng_invalid (with_data e d) = eng_invalid e" "eng_invalid (has_read e) = eng_invalid e"
  by (simp_all add: wrote_def deleted_def with_data_def has_read_def eng_invalid_def)

lemma btree_read [simp]:
  "btree_inv (t\<lparr>bread_count := n\<rparr>) = btree_inv t" "btree_content (t\<lparr>bread_count := n\<rparr>) = btree_content t"
  by (simp_all add: btree_inv_def btree_content_def fun_eq_iff)

lemma sys_of_simps [simp]: "sys_of 0 = 0" "r \<noteq> 0 \<Longrightarrow> sys_of r = 1"
  by (simp_all add: sys_of_def)

abbreviation keeps :: "kv_engine_t \<Rightarrow> kv_engine_t \<Rightarrow> (string \<rightharpoonup> string) \<Rightarrow> bool" where
  "keeps e e' m \<equiv> eng_ok e' \<and> eng_type e' = eng_type e \<and> eng_content e' = m"

lemmas eng_facts = eng_ok_def eng_content_def

lemma engine_get_ok:
  assumes "eng_ok e"
  shows "\<exists>e'. KV_ENGINE_GET e [] (Some k) = Inr (cptr_of (eng_content e k), e', []) \<and> keeps e e' (eng_content e)"
  using assms
proof (cases rule: eng_ok_cases)
  case array
  with kvs_array_get_content[of _ k] show ?thesis by (auto simp: KV_ENGINE_GET_def array_get_def eng_facts)
next
  case rbtree
  with kvs_rbtree_get_content[of _ k] show ?thesis by (auto simp: KV_ENGINE_GET_def rbtree_get_def eng_facts)
next
  case hash
  with kvs_hash_get_content[of _ k] show ?thesis
    by (auto simp: KV_ENGINE_GET_def hash_get_def eng_facts hash_inv_def)
next
  case btree
  with search_ok[of _ k] show ?thesis
    by (auto simp: KV_ENGINE_GET_def btree_adapter_get_def kvs_btree_get_def eng_facts)
qed

lemma engine_set_ok:
  assumes "eng_ok e" "eng_room e k v"
  shows "\<exists>e'. KV_ENGINE_SET e [] (Some k) (Some v) =
      Inr (if eng_type e = KV_ENGINE_HASH \<and> eng_content e k \<noteq> None then KV_ERR_SYS else KV_ERR_NONE, e', []) \<and>
    keeps e e' (spec_set (overwrites (eng_type e)) (eng_content e) k v)"
  using assms(1)
proof (cases rule: eng_ok_cases)
  case (array a)
  with kvs_array_set_ok[of a k v] assms(2) show ?thesis
    by (auto simp: KV_ENGINE_SET_def array_set_def eng_facts eng_room_def spec_set_def overwrites_def)
next
  case (rbtree t)
  with kvs_rbtree_set_present[of t k v] kvs_rbtree_set_fresh[of t k v] show ?thesis
    by (cases "rbtree_content t k")
      (auto simp: KV_ENGINE_SET_def rbtree_set_def eng_facts spec_set_def overwrites_def rbtree_inv_def rbtree_content_def)
next
  case (hash ht)
  with put_kv_hashtable_ok[of ht k v] assms(2) show ?thesis
    by (auto simp: KV_ENGINE_SET_def hash_set_def kvs_hash_set_def eng_facts eng_room_def spec_set_def overwrites_def
        grows_def domIff)
next
  case (btree bt)
  with set_op_ok[of bt k v] assms(2) show ?thesis
    by (auto simp: KV_ENGINE_SET_def btree_adapter_set_def eng_facts eng_room_def spec_set_def overwrites_def)
qed

lemma engine_delete_ok:
  assumes "eng_ok e" "eng_del_ok e k"
  shows "\<exists>r e'. KV_ENGINE_DELETE e [] (Some k) = Inr (r, e', []) \<and> keeps e e' ((eng_content e)(k := None)) \<and>
    (if eng_content e k = None then r = KV_ERR_NOT_FOUND
     else r = KV_ERR_NONE \<or> eng_type e = KV_ENGINE_BTREE \<and> r = KV_ERR_SYS)"
  using assms(1)
proof (cases rule: eng_ok_cases)
  case (array a)
  with kvs_array_delete_ok[of a k] kvs_array_get_content[of a k] show ?thesis
    by (cases "array_content a k") (auto simp: KV_ENGINE_DELETE_def array_delete_def eng_facts fun_upd_idem)
next
  case (rbtree t)
  with kvs_rbtree_delete_ok[of t k] kvs_rbtree_get_content[of t k] show ?thesis
    by (cases "rbtree_content t k") (auto simp: KV_ENGINE_DELETE_def rbtree_engine_delete_def eng_facts fun_upd_idem)
next
  case (hash ht)
  with kvs_hash_delete_ok[of ht k] kvs_hash_get_content[of ht k] assms(2) show ?thesis
    by (cases "hash_content ht k")
      (auto simp: KV_ENGINE_DELETE_def hash_delete_def eng_facts eng_del_ok_def hash_inv_def[of ht] fun_upd_idem)
next
  case (btree bt)
  show ?thesis
  proof (cases "btree_content bt k")
    case None
    with btree search_ok[of bt k] show ?thesis
      by (auto simp: KV_ENGINE_DELETE_def btree_adapter_delete_def kvs_btree_get_def eng_facts fun_upd_idem)
  next
    case (Some v)
    let ?bt = "bt\<lparr>bread_count := bread_count bt + 1\<rparr>"
    obtain r t' where "kvs_btree_delete ?bt [] (Some k) = Inr (r, t', [])" "btree_inv t'"
      "btree_content t' = (btree_content bt)(k := None)" "r \<in> {KV_ERR_NONE, KV_ERR_NOT_SUPPORTED}"
      using delete_ok[of ?bt k] btree(3) Some by (auto simp: kvs_btree_delete_def)
    with btree Some search_ok[of bt k] show ?thesis
      by (auto simp: KV_ENGINE_DELETE_def btree_adapter_delete_def kvs_btree_get_def eng_facts)
  qed
qed

lemma engine_update_ok:
  assumes "eng_ok e" "eng_room e k v"
  shows "\<exists>r e'. KV_ENGINE_UPDATE e [] (Some k) (Some v) = Inr (r, e', []) \<and>
    keeps e e' (spec_mod (inserts (eng_type e)) (eng_content e) k v)"
  using assms(1)
proof (cases rule: eng_ok_cases)
  case (array a)
  with kvs_array_modify_ok[of a k v] show ?thesis
    by (auto simp: KV_ENGINE_UPDATE_def array_update_def eng_facts inserts_def)
next
  case (rbtree t)
  with kvs_rbtree_modify_ok[of t k v] show ?thesis
    by (auto simp: KV_ENGINE_UPDATE_def rbtree_update_def eng_facts inserts_def)
next
  case (hash ht)
  with put_kv_hashtable_ok[of ht k v] assms(2) show ?thesis
    by (auto simp: KV_ENGINE_UPDATE_def hash_update_def kvs_hash_modify_def eng_facts eng_room_def spec_mod_def inserts_def)
next
  case (btree bt)
  with modify_op_ok[of bt k v] assms(2) show ?thesis
    by (auto simp: KV_ENGINE_UPDATE_def btree_adapter_update_def eng_facts eng_room_def inserts_def)
qed


section \<open>Creation and destruction\<close>

definition order_ok :: "kv_engine_config \<Rightarrow> bool" where
  "order_ok c \<longleftrightarrow> max_keys_per_node c = 0 \<or> 3 \<le> max_keys_per_node c \<and> max_keys_per_node c \<le> 1000"

lemma order_sint:
  assumes "3 \<le> n" "n \<le> 1000"
  shows "3 \<le> sint (n :: 32 word) \<and> sint n \<le> 1000"
proof -
  have u: "3 \<le> uint n" "uint n \<le> 1000" using assms by (simp_all add: word_le_def)
  then have "sint n = uint n" by (simp add: sint_uint signed_take_bit_int_eq_self_iff)
  with u show ?thesis by simp
qed

lemma engine_create_ok:
  assumes T: "T \<notin> {KV_ENGINE_LSM, KV_ENGINE_MAX}" and c: "case c of None \<Rightarrow> True | Some c \<Rightarrow> order_ok c"
  shows "\<exists>e. kv_engine_create [] T c = Inr (Some e, []) \<and> eng_ok e \<and> eng_type e = T \<and> eng_content e = Map.empty"
proof -
  let ?c = "case c of Some c \<Rightarrow> c | None \<Rightarrow> default_config T"
  let ?e = "\<lparr>eng_type = T, eng_state = KV_ENGINE_STATE_INIT, eng_config = ?c, engine_data = None,
      eng_read_count = 0, eng_write_count = 0, eng_delete_count = 0, eng_name = []\<rparr>"
  have cfg: "order_ok ?c" using c by (simp add: order_ok_def default_config_def split: option.splits)
  from T consider "T = KV_ENGINE_ARRAY" | "T = KV_ENGINE_RBTREE" | "T = KV_ENGINE_HASH" | "T = KV_ENGINE_BTREE"
    by (cases T) auto
  then show ?thesis
  proof cases
    case 1
    with kv_store_array_create_ok[of "\<lparr>array_table = None, array_idx = 0\<rparr>"] show ?thesis
      by (auto simp: kv_engine_create_def array_engine_init_def eng_facts eng_invalid_def)
  next
    case 2
    with kv_store_rbtree_create_ok show ?thesis
      by (auto simp: kv_engine_create_def rbtree_engine_init_def eng_facts eng_invalid_def)
  next
    case 3
    with init_hashtable_ok[of "\<lparr>buckets = None, max_slots = 0, hcount = 0\<rparr>"] show ?thesis
      by (auto simp: kv_engine_create_def hash_engine_init_def eng_facts eng_invalid_def)
  next
    case 4
    let ?o = "if max_keys_per_node ?c > 0 then sint (max_keys_per_node ?c) else 100"
    have "?o \<le> 1000" "3 \<le> ?o" using cfg order_sint by (auto simp: order_ok_def)
    then obtain t where "kv_store_btree_create [] ?o = (Some t, [])" "btree_inv t" "btree_content t = Map.empty"
      using create_ok[of ?o] by blast
    with 4 show ?thesis
      by (auto simp: kv_engine_create_def btree_engine_init_def eng_facts eng_invalid_def Let_def)
  qed
qed

lemma engine_destroy_ok:
  assumes "eng_ok e"
  shows "kv_engine_destroy (Some e) = Inr KV_ERR_NONE"
  using assms
proof (cases rule: eng_ok_cases)
  case (array a)
  with kv_store_array_destroy_ok[of a] show ?thesis by (auto simp: kv_engine_destroy_def engine_destroy_impl_def)
next
  case (rbtree t)
  then show ?thesis by (simp add: kv_engine_destroy_def engine_destroy_impl_def kv_store_rbtree_destroy_ok)
next
  case (hash ht)
  then show ?thesis by (simp add: kv_engine_destroy_def engine_destroy_impl_def dest_hashtable_ok hash_inv_def)
qed (simp_all add: kv_engine_destroy_def engine_destroy_impl_def)

section \<open>The contract\<close>

definition eng_get_op :: "kv_engine_t \<Rightarrow> string \<Rightarrow> cptr outcome" where
  "eng_get_op e k = map_sum id fst (KV_ENGINE_GET e [] (Some k))"

definition eng_set_op :: "kv_engine_t \<Rightarrow> string \<Rightarrow> string \<Rightarrow> (int \<times> kv_engine_t) outcome" where
  "eng_set_op e k v = map_sum id (\<lambda>(r, e', h). (r, e')) (KV_ENGINE_SET e [] (Some k) (Some v))"

definition eng_del_op :: "kv_engine_t \<Rightarrow> string \<Rightarrow> string \<Rightarrow> (int \<times> kv_engine_t) outcome" where
  "eng_del_op e k v = map_sum id (\<lambda>(r, e', h). (r, e')) (KV_ENGINE_DELETE e [] (Some k))"

definition eng_mod_op :: "kv_engine_t \<Rightarrow> string \<Rightarrow> string \<Rightarrow> (int \<times> kv_engine_t) outcome" where
  "eng_mod_op e k v = map_sum id (\<lambda>(r, e', h). (r, e')) (KV_ENGINE_UPDATE e [] (Some k) (Some v))"

interpretation fac: kv_engine "overwrites T" "inserts T" "\<lambda>e. eng_ok e \<and> eng_type e = T" eng_room eng_del_ok eng_content
  eng_get_op eng_set_op eng_del_op eng_mod_op for T
proof unfold_locales
  fix s :: kv_engine_t and k v :: string
  assume inv: "eng_ok s \<and> eng_type s = T"
  then show "eng_get_op s k = Inr (cptr_of (eng_content s k))"
    using engine_get_ok[of s k] by (auto simp: eng_get_op_def)
  show "\<exists>r s'. eng_del_op s k v = Inr (r, s') \<and> (eng_ok s' \<and> eng_type s' = T) \<and>
      eng_content s' = (eng_content s)(k := None)" if "eng_del_ok s k"
    using engine_delete_ok[of s k] inv that by (fastforce simp: eng_del_op_def)
  assume room: "eng_room s k v"
  show "\<exists>r s'. eng_set_op s k v = Inr (r, s') \<and> (eng_ok s' \<and> eng_type s' = T) \<and>
      eng_content s' = spec_set (overwrites T) (eng_content s) k v"
    using engine_set_ok[of s k v] inv room by (auto simp: eng_set_op_def)
  show "\<exists>r s'. eng_mod_op s k v = Inr (r, s') \<and> (eng_ok s' \<and> eng_type s' = T) \<and>
      eng_content s' = spec_mod (inserts T) (eng_content s) k v"
    using engine_update_ok[of s k v] inv room by (auto simp: eng_mod_op_def)
qed

text \<open>A red-black tree accepts every call.\<close>

lemma rbtree_roomy:
  assumes "eng_ok e" "eng_type e = KV_ENGINE_RBTREE"
  shows "fac.roomy ops e"
  using assms
proof (induction ops arbitrary: e)
  case (Cons c ops)
  have "fac.op_ok c e" using Cons.prems
    by (cases c; cases rule: eng_ok_cases[of e]) (auto simp: eng_room_def eng_del_ok_def)
  moreover from this Cons.prems obtain r e' where "fac.do_op c e = Inr (r, e')" "eng_ok e'" "eng_type e' = KV_ENGINE_RBTREE"
    using fac.do_op_content[of e KV_ENGINE_RBTREE c] by blast
  ultimately show ?case using Cons.IH by simp
qed simp

section \<open>Properties\<close>




text \<open>
  C0: Setting a present key of a hash engine through the table stores the value and reports
  \<open>KV_ERR_SYS\<close>: the engine's own code for an overwritten key is 1, and everything but 0 is taken for an
  error.
\<close>

theorem hash_engine_overwrite_misreported:
  assumes "eng_ok e" "eng_type e = KV_ENGINE_HASH" "eng_room e k v" "eng_content e k \<noteq> None"
  shows "\<exists>e'. KV_ENGINE_SET e [] (Some k) (Some v) = Inr (KV_ERR_SYS, e', []) \<and> eng_ok e' \<and> eng_content e' k = Some v"
  using engine_set_ok[OF assms(1,3)] assms(2,4) by (auto simp: spec_set_def overwrites_def)

definition sample_hash_engine :: kv_engine_t where
  "sample_hash_engine = \<lparr>eng_type = KV_ENGINE_HASH, eng_state = KV_ENGINE_STATE_RUNNING, eng_config = default_config KV_ENGINE_HASH,
     engine_data = Some (DHash table7), eng_read_count = 0, eng_write_count = 7, eng_delete_count = 0, eng_name = ''Hash Engine''\<rparr>"

theorem hash_engine_overwrite_misreported_witness:
  "\<exists>e'. KV_ENGINE_SET sample_hash_engine [] (Some ''ax'') (Some ''2'') = Inr (KV_ERR_SYS, e', []) \<and> eng_ok e' \<and>
     eng_content e' ''ax'' = Some ''2''"
proof (rule hash_engine_overwrite_misreported)
  show "eng_content sample_hash_engine ''ax'' \<noteq> None" by code_simp
qed (use table7_facts in \<open>simp_all add: sample_hash_engine_def eng_ok_def eng_invalid_def eng_room_def\<close>)

end
