(* ===== verification/Shard_Engine.thy ===== *)
theory Shard_Engine
  imports Complex_Main Shard_Route Engine_Contract
begin

text \<open>
  The sharded engine: its configuration, \<open>src/kvserver/sharding/shard_config.c\<close>, and the engine
  that routes every key to one of its shards, \<open>src/kvserver/sharding/shard_aware_engine.c\<close>, a client of
  the router and of the engines behind their tables.

  The clock readings of a lookup and the allocator script are parameters. A key is passed to the router
  with \<open>strlen\<close> as its length. The load threshold, a \<open>double\<close>, is a real number; a value that is not a number,
  which the comparisons of the code accept, is left out. Printing, and the functions that are stubs
  returning -1 (scans, adding, removing and rebalancing shards), are not modelled.
\<close>

section \<open>Configuration\<close>

datatype shard_strategy =
  SHARD_STRATEGY_HASH | SHARD_STRATEGY_RANGE | SHARD_STRATEGY_CONSISTENT | SHARD_STRATEGY_DIRECTORY | SHARD_STRATEGY_HYBRID

record shard_config =
  sf_shard_count :: "32 word"
  sf_strategy :: shard_strategy
  sf_virtual_nodes :: "32 word"
  replication_factor :: "32 word"
  hash_seed :: "32 word"
  hash_cache_size :: nat
  hash_cache_ttl :: "32 word"
  load_threshold :: real
  operation_timeout :: "32 word"
  enable_batch_operations :: bool
  max_concurrent_operations :: "32 word"
  enable_persistence :: bool
  persistence_dir :: string
  sf_enable_compression :: bool
  shard_engine_type :: kv_engine_type
  shard_engine_configs :: "kv_engine_config list option"

record shard_config_manager =
  cm_config :: "shard_config option"
  config_version :: "64 word"
  last_update :: int
  config_changed :: bool

fun shard_strategy_to_string :: "shard_strategy \<Rightarrow> string" where
  "shard_strategy_to_string SHARD_STRATEGY_HASH = ''hash''"
| "shard_strategy_to_string SHARD_STRATEGY_RANGE = ''range''"
| "shard_strategy_to_string SHARD_STRATEGY_CONSISTENT = ''consistent''"
| "shard_strategy_to_string SHARD_STRATEGY_DIRECTORY = ''directory''"
| "shard_strategy_to_string SHARD_STRATEGY_HYBRID = ''hybrid''"

fun config_list :: "nat \<Rightarrow> kv_engine_type \<Rightarrow> script \<Rightarrow> kv_engine_config list option \<times> script" where
  "config_list 0 T h = (Some [], h)"
| "config_list (Suc n) T h =
     (case kv_engine_config_create h T of
        (None, h1) \<Rightarrow> (None, h1)
      | (Some c, h1) \<Rightarrow> (case config_list n T h1 of (None, h2) \<Rightarrow> (None, h2) | (Some cs, h2) \<Rightarrow> (Some (c # cs), h2)))"

definition shard_config_create_default :: "script \<Rightarrow> shard_config option \<times> script" where
  "shard_config_create_default h =
     (let (ok, h1) = malloc h in
      if \<not> ok then (None, h1)
      else (let (ok2, h2) = malloc h1 in
        if \<not> ok2 then (None, h2)
        else (case config_list 16 KV_ENGINE_HASH h2 of
            (None, h3) \<Rightarrow> (None, h3)
          | (Some cs, h3) \<Rightarrow>
              (Some \<lparr>sf_shard_count = 16, sf_strategy = SHARD_STRATEGY_HASH, sf_virtual_nodes = 160,
                replication_factor = 3, hash_seed = 0x9E3779B9, hash_cache_size = 10000, hash_cache_ttl = 300,
                load_threshold = 8 / 10, operation_timeout = 5000, enable_batch_operations = True,
                max_concurrent_operations = 1000, enable_persistence = True,
                persistence_dir = ''/tmp/concord_shards'', sf_enable_compression = False,
                shard_engine_type = KV_ENGINE_HASH, shard_engine_configs = Some cs\<rparr>, h3))))"

definition shard_config_manager_create :: "script \<Rightarrow> int \<Rightarrow> shard_config_manager option \<times> script" where
  "shard_config_manager_create h now =
     (let (ok, h1) = malloc h in
      if \<not> ok then (None, h1)
      else (let (ok2, h2) = malloc h1 in
        if \<not> ok2 then (None, h2)
        else (case shard_config_create_default h2 of
            (None, h3) \<Rightarrow> (None, h3)
          | (Some c, h3) \<Rightarrow>
              (Some \<lparr>cm_config = Some c, config_version = 1, last_update = now, config_changed = False\<rparr>, h3))))"

definition shard_config_get_current :: "shard_config_manager option \<Rightarrow> shard_config option" where
  "shard_config_get_current cm_p = (case cm_p of None \<Rightarrow> None | Some cm \<Rightarrow> cm_config cm)"

definition shard_config_validate :: "shard_config option \<Rightarrow> bool" where
  "shard_config_validate config_p =
     (case config_p of
        None \<Rightarrow> False
      | Some c \<Rightarrow>
          \<not> (sf_shard_count c = 0 \<or> sf_shard_count c > 65536) \<and>
          \<not> (replication_factor c = 0 \<or> replication_factor c > 10) \<and>
          \<not> (sf_virtual_nodes c = 0 \<or> sf_virtual_nodes c > 1000) \<and>
          \<not> (load_threshold c \<le> 0 \<or> load_threshold c > 1) \<and>
          \<not> (operation_timeout c = 0 \<or> operation_timeout c > 300000) \<and>
          shard_engine_configs c \<noteq> None)"

text \<open>The new configuration becomes the current one; the old one is freed.\<close>

definition shard_config_update :: "shard_config_manager option \<Rightarrow> shard_config option \<Rightarrow> int \<Rightarrow> int \<times> shard_config_manager option" where
  "shard_config_update cm_p config_p now =
     (case (cm_p, config_p) of
        (Some cm, Some c) \<Rightarrow>
          if \<not> shard_config_validate (Some c) then (-1, Some cm)
          else (0, Some (cm\<lparr>cm_config := Some c, config_version := config_version cm + 1, last_update := now, config_changed := True\<rparr>))
      | _ \<Rightarrow> (-1, cm_p))"

definition shard_config_load_from_file :: "script \<Rightarrow> shard_config_manager option \<Rightarrow> bool \<Rightarrow> int \<Rightarrow> int \<times> shard_config_manager option \<times> script" where
  "shard_config_load_from_file h cm_p opens now =
     (if cm_p = None \<or> \<not> opens then (-1, cm_p, h)
      else (case shard_config_create_default h of
          (None, h1) \<Rightarrow> (-1, cm_p, h1)
        | (Some c, h1) \<Rightarrow> (case shard_config_update cm_p (Some c) now of (r, cm') \<Rightarrow> (r, cm', h1))))"

text \<open>\<open>snprintf\<close> into a buffer of 512 bytes, and \<open>strdup\<close>.\<close>

definition shard_config_create_engine_config :: "script \<Rightarrow> shard_config \<Rightarrow> 32 word \<Rightarrow> kv_engine_config option \<times> script" where
  "shard_config_create_engine_config h c shard_id =
     (if shard_id \<ge> sf_shard_count c then (None, h)
      else (case kv_engine_config_create h (shard_engine_type c) of
          (None, h1) \<Rightarrow> (None, h1)
        | (Some ec, h1) \<Rightarrow>
            (let (dir, h2) = (if enable_persistence c
                   then strdup h1 (take 511 (persistence_dir c @ ''/shard_'' @ print_dec (unat shard_id)))
                   else (data_dir ec, h1)) in
             (Some (ec\<lparr>data_dir := dir,
                cfg_cache_size := cfg_cache_size ec div ucast (sf_shard_count c),
                memory_limit := memory_limit ec div ucast (sf_shard_count c),
                enable_compression := sf_enable_compression c\<rparr>), h2))))"

section \<open>The sharded engine\<close>

datatype shard_engine_state =
  SHARD_ENGINE_STATE_INIT | SHARD_ENGINE_STATE_RUNNING | SHARD_ENGINE_STATE_REBALANCING
  | SHARD_ENGINE_STATE_ERROR | SHARD_ENGINE_STATE_SHUTDOWN

record shard_instance =
  si_shard_id :: "32 word"
  si_engine :: kv_engine_t
  si_operation_count :: "64 word"
  si_key_count :: "64 word"
  si_memory_usage :: "64 word"
  si_is_active :: bool

record shard_aware_engine =
  shard_state :: shard_engine_state
  base_state :: kv_engine_state
  hash_manager :: shard_hash_manager
  shards :: "shard_instance option list"
  sa_shard_count :: "32 word"
  sa_total_operations :: "64 word"
  cross_shard_operations :: "64 word"
  failed_operations :: "64 word"
  enable_parallel_operations :: bool
  max_parallel_threads :: "32 word"

definition shard_instance_create ::
  "script \<Rightarrow> 32 word \<Rightarrow> kv_engine_config \<Rightarrow> (shard_instance option \<times> script) outcome" where
  "shard_instance_create h i config =
     (let (ok, h1) = malloc h in
      if \<not> ok then Inr (None, h1)
      else obind (kv_engine_create h1 (cfg_type config) (Some config)) (\<lambda>(e_p, h2).
        (case e_p of
           None \<Rightarrow> Inr (None, h2)
         | Some e \<Rightarrow>
             (let (ok2, h3) = malloc h2 in
              if ok2 then Inr (Some \<lparr>si_shard_id = i, si_engine = e, si_operation_count = 0, si_key_count = 0,
                                      si_memory_usage = 0, si_is_active = True\<rparr>, h3)
              else obind (kv_engine_destroy (Some e)) (\<lambda>r. Inr (None, h3))))))"

definition shard_aware_engine_create ::
  "script \<Rightarrow> shard_config_manager option \<Rightarrow> shard_aware_engine option \<times> script" where
  "shard_aware_engine_create h cm_p =
     (if cm_p = None then (None, h)
      else (let (ok, h1) = malloc h in
        if \<not> ok then (None, h1)
        else (case shard_config_get_current cm_p of
            None \<Rightarrow> (None, h1)
          | Some c \<Rightarrow>
              (case shard_hash_manager_create h1 (sf_shard_count c) (hash_cache_size c) (hash_cache_ttl c) of
                 (None, h2) \<Rightarrow> (None, h2)
               | (Some hm, h2) \<Rightarrow>
                   (let (ok3, h3) = all_ok 2 h2 in
                    (if ok3 then Some \<lparr>shard_state = SHARD_ENGINE_STATE_INIT, base_state = KV_ENGINE_STATE_INIT,
                        hash_manager = hm, shards = replicate (unat (sf_shard_count c)) None,
                        sa_shard_count = sf_shard_count c, sa_total_operations = 0, cross_shard_operations = 0,
                        failed_operations = 0, enable_parallel_operations = enable_batch_operations c,
                        max_parallel_threads = max_concurrent_operations c\<rparr>
                     else None, h3))))))"

text \<open>The loop that creates the instances; an instance that is there already is overwritten.\<close>

fun init_shards ::
  "nat \<Rightarrow> nat \<Rightarrow> shard_config \<Rightarrow> shard_instance option list \<Rightarrow> script \<Rightarrow> (bool \<times> shard_instance option list \<times> script) outcome" where
  "init_shards 0 i c is h = Inr (True, is, h)"
| "init_shards (Suc n) i c is h =
     (case shard_config_create_engine_config h c (of_nat i) of
        (None, h1) \<Rightarrow> Inr (False, is, h1)
      | (Some ec, h1) \<Rightarrow>
          obind (shard_instance_create h1 (of_nat i) ec) (\<lambda>(inst, h2).
            if inst = None then Inr (False, is[i := None], h2)
            else init_shards n (Suc i) c (is[i := inst]) h2))"

definition shard_aware_engine_init ::
  "shard_aware_engine \<Rightarrow> shard_config_manager option \<Rightarrow> script \<Rightarrow> (int \<times> shard_aware_engine \<times> script) outcome" where
  "shard_aware_engine_init s cm_p h =
     (case shard_config_get_current cm_p of
        None \<Rightarrow> Inr (-1, s, h)
      | Some c \<Rightarrow>
          obind (init_shards (unat (sa_shard_count s)) 0 c (shards s) h) (\<lambda>(ok, is, h1).
            if \<not> ok then Inr (-1, s\<lparr>shards := is\<rparr>, h1)
            else Inr (0, s\<lparr>shards := is, shard_state := SHARD_ENGINE_STATE_RUNNING,
                            base_state := KV_ENGINE_STATE_RUNNING\<rparr>, h1)))"

definition shard_aware_engine_start ::
  "shard_aware_engine \<Rightarrow> shard_config_manager option \<Rightarrow> script \<Rightarrow> (int \<times> shard_aware_engine \<times> script) outcome" where
  "shard_aware_engine_start s cm_p h =
     (if shard_state s \<noteq> SHARD_ENGINE_STATE_INIT then shard_aware_engine_init s cm_p h else Inr (0, s, h))"

definition shard_aware_engine_stop :: "shard_aware_engine \<Rightarrow> int \<times> shard_aware_engine" where
  "shard_aware_engine_stop s =
     (0, s\<lparr>shard_state := SHARD_ENGINE_STATE_SHUTDOWN, base_state := KV_ENGINE_STATE_SHUTDOWN\<rparr>)"

fun destroy_shards :: "shard_instance option list \<Rightarrow> unit outcome" where
  "destroy_shards [] = Inr ()"
| "destroy_shards (inst # is) =
     (case inst of
        None \<Rightarrow> destroy_shards is
      | Some i \<Rightarrow> obind (kv_engine_destroy (Some (si_engine i))) (\<lambda>r. destroy_shards is))"

definition shard_aware_engine_destroy :: "shard_aware_engine \<Rightarrow> string list outcome" where
  "shard_aware_engine_destroy s =
     obind (destroy_shards (shards (snd (shard_aware_engine_stop s)))) (\<lambda>u.
       Inr (shard_hash_manager_destroy (hash_manager s)))"

type_synonym clock = "int \<times> int"

definition shard_aware_engine_get_shard_id ::
  "shard_aware_engine \<Rightarrow> script \<Rightarrow> clock \<Rightarrow> string option \<Rightarrow> 32 word \<times> shard_aware_engine \<times> script" where
  "shard_aware_engine_get_shard_id s h t key_p =
     (case key_p of
        None \<Rightarrow> (0, s, h)
      | Some k \<Rightarrow>
          (case shard_hash_get_shard_id (hash_manager s) h (fst t) (snd t) (Some (take (c_strlen k) k)) of
             (i, hm, h1) \<Rightarrow> (i, s\<lparr>hash_manager := hm\<rparr>, h1)))"

definition shard_aware_engine_get_shard_engine :: "shard_aware_engine \<Rightarrow> 32 word \<Rightarrow> shard_instance option" where
  "shard_aware_engine_get_shard_engine s i =
     (if i \<ge> sa_shard_count s then None
      else (case shards s ! unat i of None \<Rightarrow> None | Some inst \<Rightarrow> if si_is_active inst then Some inst else None))"

text \<open>The engine of a shard after a call, and the counters: \<open>counted\<close> says whether the shard's counter is increased.\<close>

definition account :: "shard_aware_engine \<Rightarrow> 32 word \<Rightarrow> shard_instance \<Rightarrow> kv_engine_t \<Rightarrow> bool \<Rightarrow> bool \<Rightarrow> shard_aware_engine" where
  "account s i inst e counted failed =
     s\<lparr>shards := (shards s)[unat i := Some (inst\<lparr>si_engine := e,
          si_operation_count := si_operation_count inst + (if counted then 1 else 0)\<rparr>)],
       sa_total_operations := sa_total_operations s + 1,
       failed_operations := failed_operations s + (if failed then 1 else 0)\<rparr>"

definition shard_aware_engine_set ::
  "shard_aware_engine \<Rightarrow> script \<Rightarrow> clock \<Rightarrow> string option \<Rightarrow> string option \<Rightarrow> (int \<times> shard_aware_engine \<times> script) outcome" where
  "shard_aware_engine_set s h t key_p value_p =
     (if key_p = None \<or> value_p = None then Inr (-1, s, h)
      else (case shard_aware_engine_get_shard_id s h t key_p of (i, s1, h1) \<Rightarrow>
        (case shard_aware_engine_get_shard_engine s1 i of
           None \<Rightarrow> Inr (-1, s1, h1)
         | Some inst \<Rightarrow>
             obind (KV_ENGINE_SET (si_engine inst) h1 key_p value_p) (\<lambda>(r, e, h2).
               Inr (r, account s1 i inst e (r = 0) (r \<noteq> 0), h2)))))"

definition shard_aware_engine_get ::
  "shard_aware_engine \<Rightarrow> script \<Rightarrow> clock \<Rightarrow> string option \<Rightarrow> (cptr \<times> shard_aware_engine \<times> script) outcome" where
  "shard_aware_engine_get s h t key_p =
     (if key_p = None then Inr (Null, s, h)
      else (case shard_aware_engine_get_shard_id s h t key_p of (i, s1, h1) \<Rightarrow>
        (case shard_aware_engine_get_shard_engine s1 i of
           None \<Rightarrow> Inr (Null, s1, h1)
         | Some inst \<Rightarrow>
             obind (KV_ENGINE_GET (si_engine inst) h1 key_p) (\<lambda>(v, e, h2). Inr (v, account s1 i inst e True False, h2)))))"

definition shard_aware_engine_delete ::
  "shard_aware_engine \<Rightarrow> script \<Rightarrow> clock \<Rightarrow> string option \<Rightarrow> (int \<times> shard_aware_engine \<times> script) outcome" where
  "shard_aware_engine_delete s h t key_p =
     (if key_p = None then Inr (-1, s, h)
      else (case shard_aware_engine_get_shard_id s h t key_p of (i, s1, h1) \<Rightarrow>
        (case shard_aware_engine_get_shard_engine s1 i of
           None \<Rightarrow> Inr (-1, s1, h1)
         | Some inst \<Rightarrow>
             obind (KV_ENGINE_DELETE (si_engine inst) h1 key_p) (\<lambda>(r, e, h2).
               Inr (r, account s1 i inst e (r = 0) (r \<noteq> 0), h2)))))"

definition shard_aware_engine_update ::
  "shard_aware_engine \<Rightarrow> script \<Rightarrow> clock \<Rightarrow> string option \<Rightarrow> string option \<Rightarrow> (int \<times> shard_aware_engine \<times> script) outcome" where
  "shard_aware_engine_update = shard_aware_engine_set"

text \<open>An \<open>int\<close> is added to a 64-bit counter when it is positive.\<close>

fun count_shards :: "shard_instance option list \<Rightarrow> 64 word \<Rightarrow> (64 word) outcome" where
  "count_shards [] acc = Inr acc"
| "count_shards (inst # is) acc =
     (case inst of
        None \<Rightarrow> count_shards is acc
      | Some i \<Rightarrow>
          if \<not> si_is_active i then count_shards is acc
          else obind (KV_ENGINE_COUNT (si_engine i)) (\<lambda>n. count_shards is (if n > 0 then acc + of_int n else acc)))"

definition shard_aware_engine_count :: "shard_aware_engine \<Rightarrow> (64 word) outcome" where
  "shard_aware_engine_count s = count_shards (shards s) 0"

definition shard_aware_engine_memory_usage :: "shard_aware_engine \<Rightarrow> 64 word" where
  "shard_aware_engine_memory_usage s =
     sum_list (map (\<lambda>inst. case inst of None \<Rightarrow> 0 | Some i \<Rightarrow> if si_is_active i then si_memory_usage i else 0) (shards s))"

fun shard_engine_state_to_string :: "shard_engine_state \<Rightarrow> string" where
  "shard_engine_state_to_string SHARD_ENGINE_STATE_INIT = ''Init''"
| "shard_engine_state_to_string SHARD_ENGINE_STATE_RUNNING = ''Running''"
| "shard_engine_state_to_string SHARD_ENGINE_STATE_REBALANCING = ''Rebalancing''"
| "shard_engine_state_to_string SHARD_ENGINE_STATE_ERROR = ''Error''"
| "shard_engine_state_to_string SHARD_ENGINE_STATE_SHUTDOWN = ''Shutdown''"

section \<open>Batches\<close>

record cross_shard_result =
  total_shards :: "32 word"
  successful_shards :: "32 word"
  failed_shards :: "32 word"
  cs_results :: kv_batch

definition cross_shard_result_create :: "script \<Rightarrow> 32 word \<Rightarrow> cross_shard_result option \<times> script" where
  "cross_shard_result_create h n =
     (let (ok, h1) = malloc h in
      if \<not> ok then (None, h1)
      else (case kv_batch_create h1 1000 of
          (None, h2) \<Rightarrow> (None, h2)
        | (Some b, h2) \<Rightarrow> (Some \<lparr>total_shards = n, successful_shards = 0, failed_shards = 0, cs_results = b\<rparr>, h2)))"

definition tally :: "cross_shard_result \<Rightarrow> bool \<Rightarrow> cross_shard_result" where
  "tally res ok =
     (if ok then res\<lparr>successful_shards := successful_shards res + 1\<rparr> else res\<lparr>failed_shards := failed_shards res + 1\<rparr>)"

fun batch_set_loop ::
  "(kv_pair \<times> clock) list \<Rightarrow> shard_aware_engine \<Rightarrow> script \<Rightarrow> cross_shard_result \<Rightarrow> (shard_aware_engine \<times> script \<times> cross_shard_result) outcome" where
  "batch_set_loop [] s h res = Inr (s, h, res)"
| "batch_set_loop (((k, v), t) # ps) s h res =
     obind (shard_aware_engine_set s h t (Some k) (Some v)) (\<lambda>(r, s1, h1). batch_set_loop ps s1 h1 (tally res (r = 0)))"

definition cross_done :: "shard_aware_engine \<Rightarrow> shard_aware_engine" where
  "cross_done s = s\<lparr>cross_shard_operations := cross_shard_operations s + 1\<rparr>"

definition shard_aware_engine_batch_set ::
  "shard_aware_engine \<Rightarrow> script \<Rightarrow> (kv_pair \<times> clock) list \<Rightarrow> cross_shard_result \<Rightarrow> (int \<times> shard_aware_engine \<times> script \<times> cross_shard_result) outcome" where
  "shard_aware_engine_batch_set s h ps res =
     obind (batch_set_loop ps s h res) (\<lambda>(s1, h1, res1). Inr (if failed_shards res1 = 0 then 0 else -1, cross_done s1, h1, res1))"

text \<open>
  Which engine a value came from: the shard of the key does not change between the two lookups.
\<close>

definition value_engine :: "shard_aware_engine \<Rightarrow> script \<Rightarrow> clock \<Rightarrow> string \<Rightarrow> kv_engine_type option" where
  "value_engine s h t k =
     map_option (\<lambda>inst. eng_type (si_engine inst))
       (shard_aware_engine_get_shard_engine s (fst (shard_aware_engine_get_shard_id s h t (Some k))))"

text \<open>
  \<open>shard_aware_engine_batch_get\<close> frees the value it was given. The B+-tree hands out copies; the other engines hand out
  their own storage, which is left dangling in the entry, and the model stops there.
\<close>

fun batch_get_loop ::
  "(string \<times> clock) list \<Rightarrow> shard_aware_engine \<Rightarrow> script \<Rightarrow> cross_shard_result \<Rightarrow> (shard_aware_engine \<times> script \<times> cross_shard_result) outcome" where
  "batch_get_loop [] s h res = Inr (s, h, res)"
| "batch_get_loop ((k, t) # ks) s h res =
     obind (shard_aware_engine_get s h t (Some k)) (\<lambda>(v, s1, h1).
       (case v of
          Null \<Rightarrow> batch_get_loop ks s1 h1 (tally res False)
        | Freed \<Rightarrow> Inl UseAfterFree
        | Str w \<Rightarrow>
            (case kv_batch_add h1 (cs_results res) (Some k) (Some w) of (r, b, h2) \<Rightarrow>
             if value_engine s h t k = Some KV_ENGINE_BTREE
             then batch_get_loop ks s1 h2 (tally (res\<lparr>cs_results := b\<rparr>) True)
             else Inl Torn)))"

definition shard_aware_engine_batch_get ::
  "shard_aware_engine \<Rightarrow> script \<Rightarrow> (string \<times> clock) list \<Rightarrow> cross_shard_result \<Rightarrow> (int \<times> shard_aware_engine \<times> script \<times> cross_shard_result) outcome" where
  "shard_aware_engine_batch_get s h ks res =
     obind (batch_get_loop ks s h res) (\<lambda>(s1, h1, res1). Inr (0, cross_done s1, h1, res1))"

fun batch_delete_loop ::
  "(string \<times> clock) list \<Rightarrow> shard_aware_engine \<Rightarrow> script \<Rightarrow> cross_shard_result \<Rightarrow> (shard_aware_engine \<times> script \<times> cross_shard_result) outcome" where
  "batch_delete_loop [] s h res = Inr (s, h, res)"
| "batch_delete_loop ((k, t) # ks) s h res =
     obind (shard_aware_engine_delete s h t (Some k)) (\<lambda>(r, s1, h1). batch_delete_loop ks s1 h1 (tally res (r = 0)))"

definition shard_aware_engine_batch_delete ::
  "shard_aware_engine \<Rightarrow> script \<Rightarrow> (string \<times> clock) list \<Rightarrow> cross_shard_result \<Rightarrow> (int \<times> shard_aware_engine \<times> script \<times> cross_shard_result) outcome" where
  "shard_aware_engine_batch_delete s h ks res =
     obind (batch_delete_loop ks s h res) (\<lambda>(s1, h1, res1). Inr (if failed_shards res1 = 0 then 0 else -1, cross_done s1, h1, res1))"

end
