(* ===== verification/Shard_Store.thy ===== *)
theory Shard_Store
  imports Shard_Engine
begin

text \<open>
  The sharded engine is one store: whatever the clock and the cache of the router do, every call reaches the
  one shard its key is at home in, and the shards together stand for one finite map. The proofs rest on
  the contract of the router and on that of the engines of the factory.
\<close>

section \<open>Abstraction and invariant\<close>

definition cstr :: "string \<Rightarrow> string" where
  "cstr k = take (c_strlen k) k"

definition home :: "shard_aware_engine \<Rightarrow> string \<Rightarrow> 32 word" where
  "home s k = route (cstr k) (sa_shard_count s)"

definition shard_at :: "shard_aware_engine \<Rightarrow> 32 word \<Rightarrow> kv_engine_t option" where
  "shard_at s i = (if unat i < length (shards s) then map_option si_engine (shards s ! unat i) else None)"

definition sa_content :: "shard_aware_engine \<Rightarrow> string \<rightharpoonup> string" where
  "sa_content s k = (case shard_at s (home s k) of None \<Rightarrow> None | Some e \<Rightarrow> eng_content e k)"

definition live_shard :: "kv_engine_type \<Rightarrow> shard_instance option \<Rightarrow> bool" where
  "live_shard T inst_p =
     (case inst_p of None \<Rightarrow> False
      | Some i \<Rightarrow> si_is_active i \<and> eng_ok (si_engine i) \<and> eng_type (si_engine i) = T)"

text \<open>Every key a shard holds is at home there.\<close>

definition placed :: "shard_aware_engine \<Rightarrow> bool" where
  "placed s \<longleftrightarrow> (\<forall>i e k. shard_at s i = Some e \<longrightarrow> eng_content e k \<noteq> None \<longrightarrow> home s k = i)"

definition sa_inv :: "kv_engine_type \<Rightarrow> shard_aware_engine \<Rightarrow> bool" where
  "sa_inv T s \<longleftrightarrow>
     shard_inv (hash_manager s) \<and> shard_count (hash_manager s) = sa_shard_count s \<and>
     length (shards s) = unat (sa_shard_count s) \<and> list_all (live_shard T) (shards s) \<and> placed s"

definition sa_room :: "shard_aware_engine \<Rightarrow> string \<Rightarrow> string \<Rightarrow> bool" where
  "sa_room s k v = (case shard_at s (home s k) of None \<Rightarrow> False | Some e \<Rightarrow> eng_room e k v)"

definition sa_del_ok :: "shard_aware_engine \<Rightarrow> string \<Rightarrow> bool" where
  "sa_del_ok s k = (case shard_at s (home s k) of None \<Rightarrow> False | Some e \<Rightarrow> eng_del_ok e k)"

section \<open>Routing\<close>

lemma no_nul_cstr: "no_nul (cstr k)"
  by (auto simp: no_nul_def cstr_def c_strlen_def simp flip: takeWhile_eq_take dest: set_takeWhileD)

lemma finish_script [simp]: "snd (get_finish m [] now k hash s) = []"
  by (simp add: get_finish_def shard_hash_cache_insert_def Let_def split: prod.splits)

lemma lookup_script: "shard_hash_get_shard_id m [] now now' k = (i, m', h') \<Longrightarrow> h' = []"
  by (auto simp: shard_hash_get_shard_id_def Let_def split: option.splits if_splits prod.splits) (metis finish_script snd_conv)

lemma unat_home: "sa_inv T s \<Longrightarrow> unat (home s k) < length (shards s)"
  using route_lt[of "sa_shard_count s" "cstr k"] by (auto simp: sa_inv_def home_def shard_inv_def word_less_nat_alt)

text \<open>A call finds the shard its key is at home in; only the router has changed.\<close>

definition reaches :: "kv_engine_type \<Rightarrow> shard_aware_engine \<Rightarrow> clock \<Rightarrow> string \<Rightarrow> shard_hash_manager \<Rightarrow> shard_instance \<Rightarrow> bool" where
  "reaches T s t k hm inst \<longleftrightarrow>
     shard_aware_engine_get_shard_id s [] t (Some k) = (home s k, s\<lparr>hash_manager := hm\<rparr>, []) \<and>
     shard_inv hm \<and> shard_count hm = sa_shard_count s \<and>
     shard_aware_engine_get_shard_engine (s\<lparr>hash_manager := hm\<rparr>) (home s k) = Some inst \<and>
     shards s ! unat (home s k) = Some inst \<and>
     si_is_active inst \<and> eng_ok (si_engine inst) \<and> eng_type (si_engine inst) = T"

lemma shard_id_ok:
  assumes "sa_inv T s"
  obtains hm inst where "reaches T s t k hm inst"
proof -
  obtain i hm h1 where g: "shard_hash_get_shard_id (hash_manager s) [] (fst t) (snd t) (Some (cstr k)) = (i, hm, h1)"
    by (cases "shard_hash_get_shard_id (hash_manager s) [] (fst t) (snd t) (Some (cstr k))")
  have r: "i = home s k" "home s k < sa_shard_count s" "shard_inv hm" "shard_count hm = sa_shard_count s"
    using lookup_ok[OF _ g no_nul_cstr] assms by (auto simp: sa_inv_def home_def)
  have "live_shard T (shards s ! unat (home s k))"
    using assms unat_home[OF assms] by (auto simp: sa_inv_def list_all_length)
  with g r lookup_script[OF g] that[of hm] show thesis
    by (auto simp: reaches_def shard_aware_engine_get_shard_id_def shard_aware_engine_get_shard_engine_def live_shard_def
        not_le simp flip: cstr_def split: option.splits)
qed

lemma account_sel [simp]:
  "hash_manager (account s i inst e c f) = hash_manager s" "sa_shard_count (account s i inst e c f) = sa_shard_count s"
  "home (account s i inst e c f) = home s" "length (shards (account s i inst e c f)) = length (shards s)"
  by (simp_all add: account_def home_def fun_eq_iff)

lemma hm_sel [simp]:
  "home (s\<lparr>hash_manager := hm\<rparr>) = home s" "shard_at (s\<lparr>hash_manager := hm\<rparr>) = shard_at s"
  by (simp_all add: home_def shard_at_def fun_eq_iff)

lemma account_shard_at:
  "unat i < length (shards s) \<Longrightarrow> shard_at (account s i inst e c f) = (shard_at s)(i := Some e)"
  by (auto simp: fun_eq_iff shard_at_def account_def nth_list_update dest!: unsigned_word_eqI)

text \<open>Replacing the engine of the home shard by one that differs at the key.\<close>

lemma account_ok:
  assumes inv: "sa_inv T s" and r: "reaches T s t k hm inst"
    and e: "eng_ok e" "eng_type e = T" "eng_content e = (eng_content (si_engine inst))(k := x)"
    and s': "s' = account (s\<lparr>hash_manager := hm\<rparr>) (home s k) inst e c f"
  shows "sa_inv T s' \<and> sa_content s' = (sa_content s)(k := x)"
proof -
  note lt = unat_home[OF inv, of k]
  have at: "shard_at s (home s k) = Some (si_engine inst)" using lt r by (simp add: shard_at_def reaches_def)
  have at': "shard_at s' = (shard_at s)(home s k := Some e)" using account_shard_at lt by (simp add: s')
  have home': "home s' = home s" by (simp add: s')
  have "placed s'" using inv at e(3) by (auto simp: placed_def at' home' sa_inv_def split: if_splits)
  moreover have "list_all (live_shard T) (shards s')"
    using inv r e by (auto simp: s' account_def sa_inv_def reaches_def list_all_iff live_shard_def dest!: set_update_subset_insert[THEN subsetD])
  ultimately have "sa_inv T s'" using inv r by (simp add: sa_inv_def s' reaches_def)
  moreover have "sa_content s' = (sa_content s)(k := x)"
    using at e(3) by (auto simp: sa_content_def at' home' fun_eq_iff)
  ultimately show ?thesis by blast
qed

lemma content_home:
  assumes "sa_inv T s" "reaches T s t k hm inst"
  shows "sa_content s k = eng_content (si_engine inst) k" "sa_room s k v = eng_room (si_engine inst) k v"
    "sa_del_ok s k = eng_del_ok (si_engine inst) k"
  using unat_home[OF assms(1), of k] assms(2)
  by (simp_all add: sa_content_def sa_room_def sa_del_ok_def shard_at_def reaches_def)

section \<open>The operations\<close>

lemma sa_get_ok:
  assumes inv: "sa_inv T s"
  shows "\<exists>s'. shard_aware_engine_get s [] t (Some k) = Inr (cptr_of (sa_content s k), s', []) \<and>
    sa_inv T s' \<and> sa_content s' = sa_content s \<and> sa_total_operations s' = sa_total_operations s + 1"
proof -
  from shard_id_ok[OF inv] obtain hm inst where r: "reaches T s t k hm inst" .
  note c = content_home[OF inv r] and r' = r[unfolded reaches_def]
  obtain e' where e': "KV_ENGINE_GET (si_engine inst) [] (Some k) = Inr (cptr_of (eng_content (si_engine inst) k), e', [])"
    "eng_ok e'" "eng_type e' = T" "eng_content e' = eng_content (si_engine inst)"
    using engine_get_ok[of "si_engine inst" k] r' by auto
  let ?s = "account (s\<lparr>hash_manager := hm\<rparr>) (home s k) inst e' True False"
  have "shard_aware_engine_get s [] t (Some k) = Inr (cptr_of (sa_content s k), ?s, [])"
    using r' e' c by (simp add: shard_aware_engine_get_def)
  moreover have "sa_inv T ?s \<and> sa_content ?s = (sa_content s)(k := eng_content (si_engine inst) k)"
    by (rule account_ok[OF inv r e'(2,3) _ refl]) (simp add: e'(4))
  moreover have "sa_total_operations ?s = sa_total_operations s + 1" by (simp add: account_def)
  ultimately show ?thesis using c by (auto simp: fun_upd_idem)
qed

lemma sa_set_ok:
  assumes inv: "sa_inv T s" and room: "sa_room s k v"
  shows "\<exists>s'. shard_aware_engine_set s [] t (Some k) (Some v) =
      Inr (if T = KV_ENGINE_HASH \<and> sa_content s k \<noteq> None then KV_ERR_SYS else KV_ERR_NONE, s', []) \<and>
    sa_inv T s' \<and> sa_content s' = spec_set (overwrites T) (sa_content s) k v"
proof -
  from shard_id_ok[OF inv] obtain hm inst where r: "reaches T s t k hm inst" .
  note c = content_home[OF inv r] and r' = r[unfolded reaches_def]
  obtain rc e' where e': "KV_ENGINE_SET (si_engine inst) [] (Some k) (Some v) = Inr (rc, e', [])"
    "eng_ok e'" "eng_type e' = T" "eng_content e' = spec_set (overwrites T) (eng_content (si_engine inst)) k v"
    "rc = (if T = KV_ENGINE_HASH \<and> sa_content s k \<noteq> None then KV_ERR_SYS else KV_ERR_NONE)"
    using engine_set_ok[of "si_engine inst" k v] c room r' by auto
  let ?s = "account (s\<lparr>hash_manager := hm\<rparr>) (home s k) inst e' (rc = 0) (rc \<noteq> 0)"
  let ?x = "spec_set (overwrites T) (sa_content s) k v k"
  have "sa_inv T ?s \<and> sa_content ?s = (sa_content s)(k := ?x)"
    by (rule account_ok[OF inv r e'(2,3) _ refl]) (simp add: e'(4) spec_set_def c fun_upd_idem)
  moreover have "shard_aware_engine_set s [] t (Some k) (Some v) = Inr (rc, ?s, [])"
    using r' e'(1) by (simp add: shard_aware_engine_set_def)
  ultimately show ?thesis using e'(5) by (auto simp: spec_set_def fun_upd_idem)
qed

lemma sa_delete_ok:
  assumes inv: "sa_inv T s" and dok: "sa_del_ok s k"
  shows "\<exists>rc s'. shard_aware_engine_delete s [] t (Some k) = Inr (rc, s', []) \<and>
    sa_inv T s' \<and> sa_content s' = (sa_content s)(k := None) \<and>
    (if sa_content s k = None then rc = KV_ERR_NOT_FOUND
     else rc = KV_ERR_NONE \<or> T = KV_ENGINE_BTREE \<and> rc = KV_ERR_SYS)"
proof -
  from shard_id_ok[OF inv] obtain hm inst where r: "reaches T s t k hm inst" .
  note c = content_home[OF inv r] and r' = r[unfolded reaches_def]
  obtain rc e' where e': "KV_ENGINE_DELETE (si_engine inst) [] (Some k) = Inr (rc, e', [])"
    "eng_ok e'" "eng_type e' = T" "eng_content e' = (eng_content (si_engine inst))(k := None)"
    "if sa_content s k = None then rc = KV_ERR_NOT_FOUND
     else rc = KV_ERR_NONE \<or> T = KV_ENGINE_BTREE \<and> rc = KV_ERR_SYS"
    using engine_delete_ok[of "si_engine inst" k] c dok r' by (auto split: if_splits)
  let ?s = "account (s\<lparr>hash_manager := hm\<rparr>) (home s k) inst e' (rc = 0) (rc \<noteq> 0)"
  have "sa_inv T ?s \<and> sa_content ?s = (sa_content s)(k := None)"
    by (rule account_ok[OF inv r e'(2,3,4) refl])
  moreover have "shard_aware_engine_delete s [] t (Some k) = Inr (rc, ?s, [])"
    using r' e'(1) by (simp add: shard_aware_engine_delete_def)
  ultimately show ?thesis using e'(5) by blast
qed


section \<open>The contract\<close>

text \<open>
  The store with the clock readings its calls will see. A shard of a red-black tree keeps the value of a key that is
  set again, so that an update, which is a \<open>set\<close>, has no effect; the contract is for the other types.
\<close>

type_synonym timed_store = "shard_aware_engine \<times> (nat \<Rightarrow> clock)"

definition ticked :: "(nat \<Rightarrow> clock) \<Rightarrow> (int \<times> shard_aware_engine \<times> script) outcome \<Rightarrow> (int \<times> timed_store) outcome" where
  "ticked c r = map_sum id (\<lambda>(rc, s, h). (rc, s, \<lambda>n. c (Suc n))) r"

definition sa_get_op :: "timed_store \<Rightarrow> string \<Rightarrow> cptr outcome" where
  "sa_get_op = (\<lambda>(s, c) k. map_sum id fst (shard_aware_engine_get s [] (c 0) (Some k)))"

definition sa_set_op :: "timed_store \<Rightarrow> string \<Rightarrow> string \<Rightarrow> (int \<times> timed_store) outcome" where
  "sa_set_op = (\<lambda>(s, c) k v. ticked c (shard_aware_engine_set s [] (c 0) (Some k) (Some v)))"

definition sa_del_op :: "timed_store \<Rightarrow> string \<Rightarrow> string \<Rightarrow> (int \<times> timed_store) outcome" where
  "sa_del_op = (\<lambda>(s, c) k v. ticked c (shard_aware_engine_delete s [] (c 0) (Some k)))"

definition sa_mod_op :: "timed_store \<Rightarrow> string \<Rightarrow> string \<Rightarrow> (int \<times> timed_store) outcome" where
  "sa_mod_op = (\<lambda>(s, c) k v. ticked c (shard_aware_engine_update s [] (c 0) (Some k) (Some v)))"

interpretation sha: kv_engine True True "\<lambda>(s, c). T \<noteq> KV_ENGINE_RBTREE \<and> sa_inv T s" "\<lambda>(s, c). sa_room s" "\<lambda>(s, c). sa_del_ok s"
  "\<lambda>(s, c). sa_content s" sa_get_op sa_set_op sa_del_op sa_mod_op for T
proof unfold_locales
  fix sc :: timed_store and k v :: string
  obtain s c where sc: "sc = (s, c)" by (cases sc)
  assume "case sc of (s, c) \<Rightarrow> T \<noteq> KV_ENGINE_RBTREE \<and> sa_inv T s"
  then have inv: "sa_inv T s" "overwrites T" by (simp_all add: sc overwrites_def)
  show "sa_get_op sc k = Inr (cptr_of ((case sc of (s, c) \<Rightarrow> sa_content s) k))"
    using sa_get_ok[OF inv(1), of "c 0" k] by (auto simp: sc sa_get_op_def)
  show "\<exists>r s'. sa_del_op sc k v = Inr (r, s') \<and> (case s' of (s, c) \<Rightarrow> T \<noteq> KV_ENGINE_RBTREE \<and> sa_inv T s) \<and>
      (case s' of (s, c) \<Rightarrow> sa_content s) = (case sc of (s, c) \<Rightarrow> sa_content s)(k := None)"
    if "(case sc of (s, c) \<Rightarrow> sa_del_ok s) k"
    using sa_delete_ok[OF inv(1), of k "c 0"] that inv(2) by (fastforce simp: sc sa_del_op_def ticked_def overwrites_def)
  assume "(case sc of (s, c) \<Rightarrow> sa_room s) k v"
  then obtain rc s' where s': "shard_aware_engine_set s [] (c 0) (Some k) (Some v) = Inr (rc, s', [])" "sa_inv T s'"
    "sa_content s' = (sa_content s)(k \<mapsto> v)"
    using sa_set_ok[OF inv(1), of k v "c 0"] inv(2) by (auto simp: sc spec_set_def)
  with inv(2) show "\<exists>r s'. sa_set_op sc k v = Inr (r, s') \<and> (case s' of (s, c) \<Rightarrow> T \<noteq> KV_ENGINE_RBTREE \<and> sa_inv T s) \<and>
      (case s' of (s, c) \<Rightarrow> sa_content s) = spec_set True (case sc of (s, c) \<Rightarrow> sa_content s) k v"
    by (simp add: sc sa_set_op_def ticked_def spec_set_def overwrites_def)
  from s' inv(2) show "\<exists>r s'. sa_mod_op sc k v = Inr (r, s') \<and> (case s' of (s, c) \<Rightarrow> T \<noteq> KV_ENGINE_RBTREE \<and> sa_inv T s) \<and>
      (case s' of (s, c) \<Rightarrow> sa_content s) = spec_mod True (case sc of (s, c) \<Rightarrow> sa_content s) k v"
    by (simp add: sc sa_mod_op_def ticked_def spec_mod_def shard_aware_engine_update_def overwrites_def)
qed

section \<open>Creation\<close>

definition fresh_shard :: "kv_engine_type \<Rightarrow> shard_instance option \<Rightarrow> bool" where
  "fresh_shard T inst_p \<longleftrightarrow> live_shard T inst_p \<and> (case inst_p of None \<Rightarrow> True | Some i \<Rightarrow> eng_content (si_engine i) = Map.empty)"

definition sharded_type :: "kv_engine_type \<Rightarrow> bool" where
  "sharded_type T \<longleftrightarrow> T \<notin> {KV_ENGINE_LSM, KV_ENGINE_MAX}"

lemma engine_config_ok:
  assumes "i < sf_shard_count c"
  shows "\<exists>ec. shard_config_create_engine_config [] c i = (Some ec, []) \<and> cfg_type ec = shard_engine_type c \<and> order_ok ec"
  using assms by (simp add: shard_config_create_engine_config_def kv_engine_config_create_def order_ok_def not_le[symmetric])

lemma instance_create_ok:
  assumes "sharded_type (cfg_type ec)" "order_ok ec"
  shows "\<exists>inst. shard_instance_create [] i ec = Inr (Some inst, []) \<and> fresh_shard (cfg_type ec) (Some inst)"
  using engine_create_ok[of "cfg_type ec" "Some ec"] assms
  by (auto simp: shard_instance_create_def sharded_type_def fresh_shard_def live_shard_def)

lemma init_shards_ok:
  assumes "sharded_type (shard_engine_type c)" "i + n = unat (sf_shard_count c)" "length is = unat (sf_shard_count c)"
    "list_all (fresh_shard (shard_engine_type c)) (take i is)"
  shows "\<exists>is'. init_shards n i c is [] = Inr (True, is', []) \<and> length is' = length is \<and>
    list_all (fresh_shard (shard_engine_type c)) is'"
  using assms(2-)
proof (induction n arbitrary: i "is")
  case (Suc n)
  have lt: "unat (of_nat i :: 32 word) = i" using Suc.prems(1) unsigned_less[of "sf_shard_count c", where ?'a = nat]
    by (simp add: unsigned_of_nat take_bit_nat_eq_self)
  with Suc.prems(1) have "(of_nat i :: 32 word) < sf_shard_count c" by (simp add: word_less_nat_alt)
  then obtain ec where ec: "shard_config_create_engine_config [] c (of_nat i) = (Some ec, [])"
    "cfg_type ec = shard_engine_type c" "order_ok ec" using engine_config_ok by blast
  then obtain inst where inst: "shard_instance_create [] (of_nat i) ec = Inr (Some inst, [])"
    "fresh_shard (shard_engine_type c) (Some inst)" using instance_create_ok[of ec "of_nat i"] assms(1) by auto
  have "list_all (fresh_shard (shard_engine_type c)) (take (Suc i) (is[i := Some inst]))"
    using Suc.prems inst(2) by (simp add: take_Suc_conv_app_nth)
  with Suc.IH[of "Suc i" "is[i := Some inst]"] Suc.prems ec inst(1) show ?case by auto
qed simp

lemma store_init_ok:
  assumes "sharded_type (shard_engine_type c)" "shard_config_get_current cm_p = Some c"
    and "shard_inv (hash_manager s)" "shard_count (hash_manager s) = sf_shard_count c"
    and "sa_shard_count s = sf_shard_count c" "length (shards s) = unat (sf_shard_count c)"
  shows "\<exists>s'. shard_aware_engine_init s cm_p [] = Inr (0, s', []) \<and> sa_inv (shard_engine_type c) s' \<and>
    sa_content s' = Map.empty \<and> shard_state s' = SHARD_ENGINE_STATE_RUNNING \<and> sa_shard_count s' = sf_shard_count c"
proof -
  obtain is' where i: "init_shards (unat (sf_shard_count c)) 0 c (shards s) [] = Inr (True, is', [])"
    "length is' = unat (sf_shard_count c)" "list_all (fresh_shard (shard_engine_type c)) is'"
    using init_shards_ok[of c 0 "unat (sf_shard_count c)" "shards s"] assms by auto
  let ?s = "s\<lparr>shards := is', shard_state := SHARD_ENGINE_STATE_RUNNING, base_state := KV_ENGINE_STATE_RUNNING\<rparr>"
  have e: "shard_at ?s j = Some e \<Longrightarrow> eng_content e = Map.empty" for j e
    using i(3) by (auto simp: shard_at_def list_all_length fresh_shard_def split: if_splits option.splits)
  then have "sa_inv (shard_engine_type c) ?s" using assms i
    by (auto simp: sa_inv_def placed_def list_all_iff fresh_shard_def)
  moreover have "sa_content ?s = Map.empty" using e by (auto simp: sa_content_def fun_eq_iff split: option.splits)
  ultimately show ?thesis using assms i(1) by (simp add: shard_aware_engine_init_def)
qed

lemma store_create_ok:
  assumes "shard_config_validate (Some c)" "0 < hash_cache_size c" "hash_cache_size c < 2 ^ 31" "shard_config_get_current cm_p = Some c"
  shows "\<exists>s. shard_aware_engine_create [] cm_p = (Some s, []) \<and> shard_state s = SHARD_ENGINE_STATE_INIT \<and>
    shard_inv (hash_manager s) \<and> shard_count (hash_manager s) = sf_shard_count c \<and>
    sa_shard_count s = sf_shard_count c \<and> shards s = replicate (unat (sf_shard_count c)) None"
proof -
  have "\<exists>hm. shard_hash_manager_create [] (sf_shard_count c) (hash_cache_size c) (hash_cache_ttl c) = (Some hm, [])"
    using assms(1,2) by (simp add: shard_hash_manager_create_def shard_config_validate_def)
  then obtain hm where hm: "shard_hash_manager_create [] (sf_shard_count c) (hash_cache_size c) (hash_cache_ttl c) = (Some hm, [])" ..
  with manager_create_ok[OF hm assms(3)] assms(4) show ?thesis
    by (auto simp: shard_aware_engine_create_def shard_config_get_current_def split: option.splits)
qed


section \<open>Batches over B+-tree shards\<close>

text \<open>
  The engines hand out their own storage, except for the B+-tree, which hands out copies; a batch of reads is
  sound over those only. A B+-tree also accepts every write of a key and a value it can hold.
\<close>

lemma btree_shard:
  assumes "sa_inv KV_ENGINE_BTREE s"
  shows "sa_room s k v = btree_accepts k v" "sa_del_ok s k" "value_engine s [] t k = Some KV_ENGINE_BTREE"
proof -
  from shard_id_ok[OF assms] obtain hm inst where r: "reaches KV_ENGINE_BTREE s t k hm inst" .
  then have "eng_ok (si_engine inst)" "eng_type (si_engine inst) = KV_ENGINE_BTREE" by (simp_all add: reaches_def)
  then obtain bt where "engine_data (si_engine inst) = Some (DBtree bt)" by (cases rule: eng_ok_cases) auto
  with content_home[OF assms r] show "sa_room s k v = btree_accepts k v" "sa_del_ok s k"
    by (simp_all add: eng_room_def eng_del_ok_def)
  from r show "value_engine s [] t k = Some KV_ENGINE_BTREE"
    by (auto simp: reaches_def value_engine_def shard_aware_engine_get_shard_engine_def split: if_splits option.splits)
qed

lemma cross_done_ok [simp]:
  "sa_inv T (cross_done s) = sa_inv T s" "sa_content (cross_done s) = sa_content s"
  by (simp_all add: cross_done_def sa_inv_def sa_content_def placed_def shard_at_def home_def fun_eq_iff)

lemma batch_set_ok:
  "sa_inv KV_ENGINE_BTREE s \<Longrightarrow> list_all (\<lambda>((k, v), t). btree_accepts k v) ps \<Longrightarrow>
   \<exists>s'. batch_set_loop ps s [] res = Inr (s', [], res\<lparr>successful_shards := successful_shards res + of_nat (length ps)\<rparr>) \<and> sa_inv KV_ENGINE_BTREE s' \<and>
     sa_content s' = fold (\<lambda>((k, v), t) m. m(k \<mapsto> v)) ps (sa_content s)"
proof (induction ps arbitrary: s res)
  case (Cons p ps)
  obtain k v t where p: "p = ((k, v), t)" by (cases p) auto
  then obtain s1 where "shard_aware_engine_set s [] t (Some k) (Some v) = Inr (0, s1, [])" "sa_inv KV_ENGINE_BTREE s1"
    "sa_content s1 = (sa_content s)(k \<mapsto> v)"
    using sa_set_ok[OF Cons.prems(1), of k v t] Cons.prems(2) btree_shard(1)[OF Cons.prems(1), of k v]
    by (auto simp: spec_set_def overwrites_def)
  with Cons.IH[of s1 "tally res True"] Cons.prems(2) p show ?case by (auto simp: tally_def algebra_simps)
qed simp

lemma batch_add_Nil:
  "\<exists>c. kv_batch_add [] b (Some k) (Some v) = (KV_ERR_NONE, b\<lparr>batch_capacity := c, batch_pairs := batch_pairs b @ [(k, v)]\<rparr>, [])"
  by (rule exI[of _ "if length (batch_pairs b) \<ge> batch_capacity b then batch_capacity b * 2 else batch_capacity b"])
    (simp add: kv_batch_add_def)

definition found :: "(string \<rightharpoonup> string) \<Rightarrow> (string \<times> clock) list \<Rightarrow> kv_pair list" where
  "found m ks = map (\<lambda>(k, t). (k, the (m k))) (filter (\<lambda>(k, t). m k \<noteq> None) ks)"

lemma batch_get_ok:
  "sa_inv KV_ENGINE_BTREE s \<Longrightarrow>
   \<exists>s' res'. batch_get_loop ks s [] res = Inr (s', [], res') \<and> sa_inv KV_ENGINE_BTREE s' \<and> sa_content s' = sa_content s \<and>
     batch_pairs (cs_results res') = batch_pairs (cs_results res) @ found (sa_content s) ks \<and>
     successful_shards res' = successful_shards res + of_nat (length (found (sa_content s) ks)) \<and>
     failed_shards res' + of_nat (length (found (sa_content s) ks)) = failed_shards res + of_nat (length ks)"
proof (induction ks arbitrary: s res)
  case (Cons p ks)
  obtain k t where p: "p = (k, t)" by (cases p)
  obtain s1 where s1: "shard_aware_engine_get s [] t (Some k) = Inr (cptr_of (sa_content s k), s1, [])"
    "sa_inv KV_ENGINE_BTREE s1" "sa_content s1 = sa_content s" using sa_get_ok[OF Cons.prems] by blast
  show ?case
  proof (cases "sa_content s k")
    case None
    with Cons.IH[OF s1(2), of "tally res False"] s1 p show ?thesis
      by (auto simp: found_def tally_def algebra_simps)
  next
    case (Some v)
    obtain c where b: "kv_batch_add [] (cs_results res) (Some k) (Some v) =
      (KV_ERR_NONE, (cs_results res)\<lparr>batch_capacity := c, batch_pairs := batch_pairs (cs_results res) @ [(k, v)]\<rparr>, [])"
      using batch_add_Nil by blast
    let ?b = "(cs_results res)\<lparr>batch_capacity := c, batch_pairs := batch_pairs (cs_results res) @ [(k, v)]\<rparr>"
    from Cons.IH[OF s1(2), of "tally (res\<lparr>cs_results := ?b\<rparr>) True"] s1 p Some b btree_shard(3)[OF Cons.prems, of t k] show ?thesis
      by (auto simp: found_def tally_def algebra_simps)
  qed
qed (simp add: found_def)


section \<open>Properties\<close>


definition sample_shard_config :: shard_config where
  "sample_shard_config =
     \<lparr>sf_shard_count = 2, sf_strategy = SHARD_STRATEGY_HASH, sf_virtual_nodes = 160, replication_factor = 3, hash_seed = 0x9E3779B9,
       hash_cache_size = 2, hash_cache_ttl = 300, load_threshold = 8 / 10, operation_timeout = 5000, enable_batch_operations = True,
       max_concurrent_operations = 1000, enable_persistence = True, persistence_dir = ''/tmp/concord_shards'',
       sf_enable_compression = False, shard_engine_type = KV_ENGINE_BTREE, shard_engine_configs = Some []\<rparr>"

definition sample_shard_manager :: shard_config_manager where
  "sample_shard_manager = \<lparr>cm_config = Some sample_shard_config, config_version = 1, last_update = 0, config_changed = False\<rparr>"

lemma sample_config_facts:
  "shard_config_validate (Some sample_shard_config)" "hash_cache_size sample_shard_config = 2"
  "shard_engine_type sample_shard_config = KV_ENGINE_BTREE"
  "shard_config_get_current (Some sample_shard_manager) = Some sample_shard_config" "sharded_type KV_ENGINE_BTREE"
  by (simp_all add: shard_config_validate_def sample_shard_config_def sample_shard_manager_def shard_config_get_current_def
      sharded_type_def word_less_def)

text \<open>B+-tree shards have room for every call with keys and values they accept.\<close>

fun accepted :: "kv_op \<Rightarrow> bool" where
  "accepted (OpSet k v) = btree_accepts k v"
| "accepted (OpDel k) = True"
| "accepted (OpMod k v) = btree_accepts k v"

lemma btree_store_roomy: "sa_inv KV_ENGINE_BTREE s \<Longrightarrow> list_all accepted ops \<Longrightarrow> sha.roomy ops (s, clk)"
proof (induction ops arbitrary: s clk)
  case (Cons c ops)
  have ok: "sha.op_ok c (s, clk)" using Cons.prems btree_shard by (cases c) auto
  with Cons.prems obtain r s' clk' where "sha.do_op c (s, clk) = Inr (r, s', clk')" "sa_inv KV_ENGINE_BTREE s'"
    using sha.do_op_content[of KV_ENGINE_BTREE "(s, clk)" c] by auto
  with Cons ok show ?case by simp
qed simp

lemma sample_store_exists:
  "\<exists>s0 s. shard_aware_engine_create [] (Some sample_shard_manager) = (Some s0, []) \<and>
    shard_aware_engine_init s0 (Some sample_shard_manager) [] = Inr (0, s, []) \<and> sa_inv KV_ENGINE_BTREE s \<and> sa_content s = Map.empty \<and>
    shard_state s = SHARD_ENGINE_STATE_RUNNING \<and> sa_shard_count s = 2"
proof -
  have two: "(2 :: nat) < 2 ^ 31" by simp
  then obtain s0 where s0: "shard_aware_engine_create [] (Some sample_shard_manager) = (Some s0, [])"
    "shard_inv (hash_manager s0)" "shard_count (hash_manager s0) = sf_shard_count sample_shard_config"
    "sa_shard_count s0 = sf_shard_count sample_shard_config" "length (shards s0) = unat (sf_shard_count sample_shard_config)"
    using store_create_ok[of sample_shard_config "Some sample_shard_manager"] sample_config_facts by auto
  from store_init_ok[OF _ sample_config_facts(4) s0(2-5)] obtain s where
    s: "shard_aware_engine_init s0 (Some sample_shard_manager) [] = Inr (0, s, [])" "sa_inv KV_ENGINE_BTREE s" "sa_content s = Map.empty"
      "shard_state s = SHARD_ENGINE_STATE_RUNNING" "sa_shard_count s = sf_shard_count sample_shard_config"
    using sample_config_facts by auto
  with s0(1) show ?thesis by (auto simp: sample_shard_config_def)
qed



text \<open>
  C11: A batch of writes to B+-tree shards stores every pair, later pairs over earlier ones, and counts them as
  successful; a batch of reads then returns the stored values of the keys that are present, in order, and
  counts the others as failed. Neither faults.
\<close>

theorem sharded_batch_roundtrip:
  assumes "sa_inv KV_ENGINE_BTREE s" "list_all (\<lambda>((k, v), t). btree_accepts k v) ps"
    and "failed_shards res = 0" "batch_pairs (cs_results got) = []"
  shows "\<exists>s1 s2 res' got'. shard_aware_engine_batch_set s [] ps res = Inr (0, s1, [], res') \<and>
    successful_shards res' = successful_shards res + of_nat (length ps) \<and>
    shard_aware_engine_batch_get s1 [] ks got = Inr (0, s2, [], got') \<and>
    batch_pairs (cs_results got') = found (fold (\<lambda>((k, v), t) m. m(k \<mapsto> v)) ps (sa_content s)) ks \<and>
    failed_shards got' = failed_shards got + of_nat (length ks) - of_nat (length (batch_pairs (cs_results got')))"
proof -
  obtain s1 where s1: "batch_set_loop ps s [] res = Inr (s1, [], res\<lparr>successful_shards := successful_shards res + of_nat (length ps)\<rparr>)"
    "sa_inv KV_ENGINE_BTREE s1" "sa_content s1 = fold (\<lambda>((k, v), t) m. m(k \<mapsto> v)) ps (sa_content s)"
    using batch_set_ok[OF assms(1,2)] by blast
  then have "sa_inv KV_ENGINE_BTREE (cross_done s1)" by simp
  from batch_get_ok[OF this, of ks got] s1 assms(3,4) show ?thesis
    by (auto simp: shard_aware_engine_batch_set_def shard_aware_engine_batch_get_def algebra_simps)
qed

theorem sharded_batch_roundtrip_witness:
  "\<exists>s s1 s2 res' got'. shard_aware_engine_batch_set s [] [((''a'', ''1''), (5, 5)), ((''b'', ''2''), (6, 6)), ((''a'', ''3''), (7, 7))]
      \<lparr>total_shards = 2, successful_shards = 0, failed_shards = 0, cs_results = \<lparr>batch_pairs = [], batch_capacity = 1000\<rparr>\<rparr>
      = Inr (0, s1, [], res') \<and>
    shard_aware_engine_batch_get s1 [] [(''a'', (8, 8)), (''c'', (9, 9)), (''b'', (10, 10))]
      \<lparr>total_shards = 2, successful_shards = 0, failed_shards = 0, cs_results = \<lparr>batch_pairs = [], batch_capacity = 1000\<rparr>\<rparr>
      = Inr (0, s2, [], got') \<and>
    batch_pairs (cs_results got') = [(''a'', ''3''), (''b'', ''2'')] \<and> successful_shards res' = 3 \<and> failed_shards got' = 1"
proof -
  let ?res = "\<lparr>total_shards = 2, successful_shards = 0, failed_shards = 0, cs_results = \<lparr>batch_pairs = [], batch_capacity = 1000\<rparr>\<rparr>"
  let ?ps = "[((''a'', ''1''), (5, 5)), ((''b'', ''2''), (6, 6)), ((''a'', ''3''), (7, 7))] :: (kv_pair \<times> clock) list"
  let ?ks = "[(''a'', (8, 8)), (''c'', (9, 9)), (''b'', (10, 10))] :: (string \<times> clock) list"
  obtain s where s: "sa_inv KV_ENGINE_BTREE s" "sa_content s = Map.empty" using sample_store_exists by blast
  have acc: "list_all (\<lambda>((k, v), t). btree_accepts k v) ?ps" by code_simp
  have f: "found (fold (\<lambda>((k, v), t) m. m(k \<mapsto> v)) ?ps Map.empty) ?ks = [(''a'', ''3''), (''b'', ''2'')]" by (simp add: found_def)
  obtain s1 s2 res' got' where r: "shard_aware_engine_batch_set s [] ?ps ?res = Inr (0, s1, [], res')"
    "shard_aware_engine_batch_get s1 [] ?ks ?res = Inr (0, s2, [], got')"
    "batch_pairs (cs_results got') = [(''a'', ''3''), (''b'', ''2'')]"
    "successful_shards res' = successful_shards ?res + of_nat (length ?ps)"
    "failed_shards got' = failed_shards ?res + of_nat (length ?ks) - of_nat (length (batch_pairs (cs_results got')))"
    using sharded_batch_roundtrip[OF s(1) acc, of ?res ?res ?ks] unfolding s(2) f by auto
  then show ?thesis by (intro exI[of _ s] exI[of _ s1] exI[of _ s2] exI[of _ res'] exI[of _ got']) simp
qed

text \<open>
  C39: \<open>shard_aware_engine_start\<close> tests the state the wrong way round. Started after its creation, an engine reports success
  without having a shard, and every write fails; started while it runs, or after a stop, it replaces all
  its shards by empty ones and reports success, and the data is gone.
\<close>

theorem sharded_start_inverted:
  assumes "shard_config_validate (Some c)" "0 < hash_cache_size c" "hash_cache_size c < 2 ^ 31"
    and "shard_config_get_current cm_p = Some c" "sharded_type (shard_engine_type c)"
    and "sa_inv T s" "sa_shard_count s = sf_shard_count c" "shard_state s \<noteq> SHARD_ENGINE_STATE_INIT"
  shows "\<exists>s0 s1 s'. shard_aware_engine_create [] cm_p = (Some s0, []) \<and> shard_aware_engine_start s0 cm_p [] = Inr (0, s0, []) \<and>
      shard_aware_engine_set s0 [] t (Some k) (Some v) = Inr (-1, s1, []) \<and>
      shard_aware_engine_start s cm_p [] = Inr (0, s', []) \<and> sa_content s' = Map.empty"
proof -
  obtain s0 where s0: "shard_aware_engine_create [] cm_p = (Some s0, [])" "shard_state s0 = SHARD_ENGINE_STATE_INIT"
    "shard_inv (hash_manager s0)" "shard_count (hash_manager s0) = sf_shard_count c" "sa_shard_count s0 = sf_shard_count c"
    "shards s0 = replicate (unat (sf_shard_count c)) None" using store_create_ok[OF assms(1-4)] by blast
  obtain i hm h1 where g: "shard_hash_get_shard_id (hash_manager s0) [] (fst t) (snd t) (Some (cstr k)) = (i, hm, h1)"
    by (cases "shard_hash_get_shard_id (hash_manager s0) [] (fst t) (snd t) (Some (cstr k))")
  have "i < sf_shard_count c" using lookup_ok[OF s0(3) g no_nul_cstr] s0(4) by auto
  then have "shard_aware_engine_get_shard_engine (s0\<lparr>hash_manager := hm\<rparr>) i = None"
    using s0(5,6) by (simp add: shard_aware_engine_get_shard_engine_def word_less_nat_alt)
  then have "\<exists>s1. shard_aware_engine_set s0 [] t (Some k) (Some v) = Inr (-1, s1, [])"
    using g lookup_script[OF g] by (simp add: shard_aware_engine_set_def shard_aware_engine_get_shard_id_def flip: cstr_def)
  moreover have "\<exists>s'. shard_aware_engine_start s cm_p [] = Inr (0, s', []) \<and> sa_content s' = Map.empty"
    using store_init_ok[OF assms(5,4), of s] assms(6-8) by (auto simp: shard_aware_engine_start_def sa_inv_def)
  ultimately show ?thesis using s0(1,2) by (auto simp: shard_aware_engine_start_def)
qed


theorem sharded_start_inverted_witness:
  "\<exists>s s0 s1 s'. shard_state s = SHARD_ENGINE_STATE_RUNNING \<and>
    shard_aware_engine_create [] (Some sample_shard_manager) = (Some s0, []) \<and>
    shard_aware_engine_start s0 (Some sample_shard_manager) [] = Inr (0, s0, []) \<and>
    shard_aware_engine_set s0 [] (1, 1) (Some ''a'') (Some ''1'') = Inr (-1, s1, []) \<and>
    shard_aware_engine_start s (Some sample_shard_manager) [] = Inr (0, s', []) \<and> sa_content s' = Map.empty"
proof -
  have two: "(2 :: nat) < 2 ^ 31" by simp
  have n: "sf_shard_count sample_shard_config = 2" by (simp add: sample_shard_config_def)
  obtain s where s: "sa_inv KV_ENGINE_BTREE s" "shard_state s = SHARD_ENGINE_STATE_RUNNING" "sa_shard_count s = 2"
    using sample_store_exists by blast
  with sharded_start_inverted[OF sample_config_facts(1) _ _ sample_config_facts(4) _ s(1), of "(1, 1)" "''a''" "''1''"]
    sample_config_facts(2,3,5) two n show ?thesis by auto
qed

end
