(* ===== verification/Cache.thy ===== *)
theory Cache
  imports Complex_Main Shard_Hash
begin

text \<open>
  The cache, \<open>src/kvserver/kv_cache.c\<close>: a hash table of entries, a doubly linked list over the same entries in
  order of use, and the managers of the LFU, CLOCK and ARC policies.

  Entries are shared: the list, the ring of CLOCK and the lists of ARC hold pointers to them, and the links
  of the list are fields of the entry. Entries therefore live in a heap, a map from addresses; an
  address that is not in its domain has been freed, and following it is the fault \<open>UseAfterFree\<close>. The chain of a bucket
  is the list of its addresses. An allocation takes the next unused address.

  Left out are the fields \<open>state\<close> and \<open>ref_count\<close> of an entry and the lock flags, which no code reads, and the
  magic number, which is right from creation to destruction. Locks that were created are acquired. The
  clock readings of a call, its random numbers and the byte that a new entry has in its uninitialised fields are
  parameters. The eviction factor, a \<open>float\<close>, is a real number.
\<close>

section \<open>Data\<close>

type_synonym addr = nat

datatype kv_cache_policy =
  KV_CACHE_POLICY_LRU | KV_CACHE_POLICY_LFU | KV_CACHE_POLICY_FIFO | KV_CACHE_POLICY_RANDOM
  | KV_CACHE_POLICY_CLOCK | KV_CACHE_POLICY_ARC | KV_CACHE_POLICY_MAX

datatype kv_cache_state =
  KV_CACHE_STATE_INIT | KV_CACHE_STATE_RUNNING | KV_CACHE_STATE_FULL | KV_CACHE_STATE_CLEANING | KV_CACHE_STATE_SHUTDOWN

record kv_cache_entry =
  ce_key :: string
  ce_value :: string
  ce_hash :: "64 word"
  create_time :: "64 word"
  access_time :: "64 word"
  update_time :: "64 word"
  ce_ttl :: "64 word"
  ce_prev :: "addr option"
  ce_next :: "addr option"
  frequency :: "64 word"
  frequency_time :: "64 word"
  reference_bit :: "8 word"
  arc_list_type :: "8 word"

record kv_cache_stats =
  total_requests :: "64 word"
  cs_hits :: "64 word"
  cs_misses :: "64 word"
  evictions :: "64 word"
  expirations :: "64 word"
  get_count :: "64 word"
  set_count :: "64 word"
  delete_count :: "64 word"
  update_count :: "64 word"
  avg_get_time :: "64 word"
  avg_set_time :: "64 word"
  max_get_time :: "64 word"
  max_set_time :: "64 word"
  current_entries :: "64 word"
  st_max_entries :: "64 word"
  current_memory :: "64 word"
  st_max_memory :: "64 word"
  cs_start_time :: "64 word"
  last_cleanup_time :: "64 word"

record kv_cache_config =
  cache_policy :: kv_cache_policy
  cf_max_entries :: "64 word"
  cf_max_memory :: "64 word"
  hash_table_size :: "64 word"
  default_ttl :: "64 word"
  cleanup_interval :: "64 word"
  max_idle_time :: "64 word"
  enable_stats :: bool
  cf_hash_seed :: "32 word"
  eviction_factor :: real
  min_eviction_count :: "32 word"
  max_eviction_count :: "32 word"
  frequency_decay_time :: "32 word"
  frequency_decay_factor :: real

record kv_cache_hashtable =
  hbuckets :: "addr list list"
  ht_entry_count :: "64 word"
  ht_seed :: "32 word"

record kv_cache_lru_list =
  lru_head :: "addr option"
  lru_tail :: "addr option"
  lru_size :: "64 word"

record kv_cache_frequency_manager =
  frequency_buckets :: "64 word list"
  min_frequency :: "64 word"
  max_frequency :: "64 word"
  total_accesses :: "64 word"

record kv_cache_clock_manager =
  clock_entries :: "addr option list"
  clock_size :: nat
  clock_hand :: nat

record kv_cache_arc_manager =
  t1_list :: kv_cache_lru_list
  t2_list :: kv_cache_lru_list
  b1_list :: kv_cache_lru_list
  b2_list :: kv_cache_lru_list
  arc_p :: "64 word"
  arc_c :: "64 word"

type_synonym entry_heap = "addr \<rightharpoonup> kv_cache_entry"

record kv_cache =
  cconfig :: kv_cache_config
  cstate :: kv_cache_state
  chashtable :: "kv_cache_hashtable option"
  clru :: "kv_cache_lru_list option"
  cfreq :: kv_cache_frequency_manager
  cclock :: "kv_cache_clock_manager option"
  carc :: "kv_cache_arc_manager option"
  cstats :: kv_cache_stats
  cheap :: entry_heap
  cnext :: addr

abbreviation KV_SUCCESS :: int where "KV_SUCCESS \<equiv> 0"
abbreviation KV_ERR_KEY_NOT_FOUND :: int where "KV_ERR_KEY_NOT_FOUND \<equiv> 29"
abbreviation KV_ERR_KEY_EXISTS :: int where "KV_ERR_KEY_EXISTS \<equiv> 30"
abbreviation KV_ERR_KEY_TOO_LONG :: int where "KV_ERR_KEY_TOO_LONG \<equiv> 31"
abbreviation KV_ERR_MEMORY_ALLOC :: int where "KV_ERR_MEMORY_ALLOC \<equiv> 32"

abbreviation KV_CACHE_MAX_KEY_LENGTH :: int where "KV_CACHE_MAX_KEY_LENGTH \<equiv> 1024"
abbreviation KV_CACHE_MAX_VALUE_LENGTH :: int where "KV_CACHE_MAX_VALUE_LENGTH \<equiv> 1048576"
abbreviation KV_CACHE_MIN_HASH_SIZE :: "64 word" where "KV_CACHE_MIN_HASH_SIZE \<equiv> 64"
abbreviation KV_CACHE_MAX_HASH_SIZE :: "64 word" where "KV_CACHE_MAX_HASH_SIZE \<equiv> 1048576"
abbreviation KV_CACHE_DEFAULT_HASH_SEED :: "32 word" where "KV_CACHE_DEFAULT_HASH_SEED \<equiv> 0x12345678"

section \<open>The heap of entries\<close>

definition rd :: "entry_heap \<Rightarrow> addr \<Rightarrow> kv_cache_entry outcome" where
  "rd hp a = (case hp a of None \<Rightarrow> Inl UseAfterFree | Some e \<Rightarrow> Inr e)"

definition wr :: "entry_heap \<Rightarrow> addr \<Rightarrow> (kv_cache_entry \<Rightarrow> kv_cache_entry) \<Rightarrow> entry_heap outcome" where
  "wr hp a f = (case hp a of None \<Rightarrow> Inl UseAfterFree | Some e \<Rightarrow> Inr (hp(a \<mapsto> f e)))"

text \<open>A write through a pointer that may be null and is tested first.\<close>

definition wr_if :: "entry_heap \<Rightarrow> addr option \<Rightarrow> (kv_cache_entry \<Rightarrow> kv_cache_entry) \<Rightarrow> entry_heap outcome" where
  "wr_if hp p f = (case p of None \<Rightarrow> Inr hp | Some a \<Rightarrow> wr hp a f)"

definition kv_cache_is_expired :: "kv_cache_entry \<Rightarrow> 64 word \<Rightarrow> bool" where
  "kv_cache_is_expired e now = (if ce_ttl e = 0 then False else now > create_time e + ce_ttl e)"

text \<open>The 32-bit Murmur3 once more; the blocks are read forwards.\<close>

definition kv_cache_hash_key :: "string \<Rightarrow> 32 word \<Rightarrow> 64 word" where
  "kv_cache_hash_key key seed =
     (let nblocks = length key div 4;
          hash = body32 nblocks key seed;
          hash = tail32 (drop (nblocks * 4) key) (length key mod 4) hash in
      ucast (fmix32 (hash XOR of_nat (length key))))"

definition kv_cache_hash_to_bucket :: "64 word \<Rightarrow> nat \<Rightarrow> nat" where
  "kv_cache_hash_to_bucket hash bucket_count = unat hash mod bucket_count"

text \<open>Evaluated on binary integers.\<close>

lemma hash_to_bucket_code [code]: "kv_cache_hash_to_bucket hash n = nat (uint hash mod int n)"
  by (simp add: kv_cache_hash_to_bucket_def nat_mod_distrib)

text \<open>The four calls that can fail: three allocations and a lock.\<close>

definition kv_cache_entry_create ::
  "script \<Rightarrow> 8 word \<Rightarrow> string \<Rightarrow> string \<Rightarrow> 64 word \<Rightarrow> 64 word \<Rightarrow> kv_cache_entry option \<times> script" where
  "kv_cache_entry_create h junk key value ttl now =
     (if key = [] \<or> value = [] then (None, h)
      else if int (length key) > KV_CACHE_MAX_KEY_LENGTH \<or> int (length value) > KV_CACHE_MAX_VALUE_LENGTH then (None, h)
      else (let (ok, h1) = all_ok 4 h in
        (if ok then Some \<lparr>ce_key = key, ce_value = value, ce_hash = kv_cache_hash_key key KV_CACHE_DEFAULT_HASH_SEED,
           create_time = now, access_time = now, update_time = now, ce_ttl = ttl, ce_prev = None, ce_next = None,
           frequency = 1, frequency_time = now, reference_bit = junk, arc_list_type = junk\<rparr>
         else None, h1)))"

definition kv_cache_entry_destroy :: "entry_heap \<Rightarrow> addr \<Rightarrow> entry_heap outcome" where
  "kv_cache_entry_destroy hp a = (case hp a of None \<Rightarrow> Inl DoubleFree | Some e \<Rightarrow> Inr (hp(a := None)))"

section \<open>Hash table\<close>

definition kv_cache_hashtable_create :: "script \<Rightarrow> 64 word \<Rightarrow> 32 word \<Rightarrow> kv_cache_hashtable option \<times> script" where
  "kv_cache_hashtable_create h bucket_count seed =
     (let n = (if bucket_count < KV_CACHE_MIN_HASH_SIZE then KV_CACHE_MIN_HASH_SIZE else bucket_count);
          (ok, h1) = all_ok 3 h in
      (if ok then Some \<lparr>hbuckets = replicate (unat n) [], ht_entry_count = 0, ht_seed = seed\<rparr> else None, h1))"

fun destroy_entries :: "addr list \<Rightarrow> entry_heap \<Rightarrow> entry_heap outcome" where
  "destroy_entries [] hp = Inr hp"
| "destroy_entries (a # as) hp =
     obind (rd hp a) (\<lambda>e. obind (kv_cache_entry_destroy hp a) (\<lambda>hp1. destroy_entries as hp1))"

definition kv_cache_hashtable_destroy :: "kv_cache_hashtable option \<Rightarrow> entry_heap \<Rightarrow> entry_heap outcome" where
  "kv_cache_hashtable_destroy table_p hp =
     (case table_p of None \<Rightarrow> Inr hp | Some t \<Rightarrow> destroy_entries (concat (hbuckets t)) hp)"

text \<open>The search of a chain: the first entry with the key and the hash.\<close>

fun chain_find :: "entry_heap \<Rightarrow> 64 word \<Rightarrow> string \<Rightarrow> addr list \<Rightarrow> addr option outcome" where
  "chain_find hp hash key [] = Inr None"
| "chain_find hp hash key (a # as) =
     obind (rd hp a) (\<lambda>e. if ce_hash e = hash \<and> ce_key e = key then Inr (Some a) else chain_find hp hash key as)"

definition kv_cache_hashtable_find :: "kv_cache_hashtable option \<Rightarrow> entry_heap \<Rightarrow> string \<Rightarrow> addr option outcome" where
  "kv_cache_hashtable_find table_p hp key =
     (case table_p of
        None \<Rightarrow> Inr None
      | Some t \<Rightarrow>
          if key = [] then Inr None
          else (let hash = kv_cache_hash_key key (ht_seed t);
                    bucket = kv_cache_hash_to_bucket hash (length (hbuckets t)) in
            chain_find hp hash key (hbuckets t ! bucket)))"

definition kv_cache_hashtable_insert ::
  "kv_cache_hashtable option \<Rightarrow> entry_heap \<Rightarrow> addr \<Rightarrow> (int \<times> kv_cache_hashtable option) outcome" where
  "kv_cache_hashtable_insert table_p hp a =
     (case table_p of
        None \<Rightarrow> Inr (KV_ERR_INVALID_PARAM, None)
      | Some t \<Rightarrow>
          obind (rd hp a) (\<lambda>e.
            (let bucket = kv_cache_hash_to_bucket (ce_hash e) (length (hbuckets t)) in
             obind (chain_find hp (ce_hash e) (ce_key e) (hbuckets t ! bucket)) (\<lambda>existing.
               if existing \<noteq> None then Inr (KV_ERR_KEY_EXISTS, Some t)
               else Inr (KV_SUCCESS, Some (t\<lparr>hbuckets := (hbuckets t)[bucket := a # hbuckets t ! bucket],
                                              ht_entry_count := ht_entry_count t + 1\<rparr>))))))"

definition kv_cache_hashtable_remove ::
  "kv_cache_hashtable option \<Rightarrow> entry_heap \<Rightarrow> string \<Rightarrow> (int \<times> kv_cache_hashtable option) outcome" where
  "kv_cache_hashtable_remove table_p hp key =
     (case table_p of
        None \<Rightarrow> Inr (KV_ERR_INVALID_PARAM, None)
      | Some t \<Rightarrow>
          if key = [] then Inr (KV_ERR_INVALID_PARAM, Some t)
          else (let hash = kv_cache_hash_key key (ht_seed t);
                    bucket = kv_cache_hash_to_bucket hash (length (hbuckets t)) in
            obind (chain_find hp hash key (hbuckets t ! bucket)) (\<lambda>found.
              (case found of
                 None \<Rightarrow> Inr (KV_ERR_KEY_NOT_FOUND, Some t)
               | Some a \<Rightarrow> Inr (KV_SUCCESS, Some (t\<lparr>hbuckets := (hbuckets t)[bucket := remove1 a (hbuckets t ! bucket)],
                                                     ht_entry_count := ht_entry_count t - 1\<rparr>))))))"

section \<open>Linked lists\<close>

definition kv_cache_lru_list_create :: "script \<Rightarrow> kv_cache_lru_list option \<times> script" where
  "kv_cache_lru_list_create h =
     (let (ok, h1) = all_ok 2 h in (if ok then Some \<lparr>lru_head = None, lru_tail = None, lru_size = 0\<rparr> else None, h1))"

definition kv_cache_lru_list_move_to_head ::
  "kv_cache_lru_list option \<Rightarrow> entry_heap \<Rightarrow> addr \<Rightarrow> (kv_cache_lru_list option \<times> entry_heap) outcome" where
  "kv_cache_lru_list_move_to_head list_p hp x =
     (case list_p of
        None \<Rightarrow> Inr (None, hp)
      | Some l \<Rightarrow>
          if lru_head l = Some x then Inr (Some l, hp)
          else obind (rd hp x) (\<lambda>e.
            obind (wr_if hp (ce_prev e) (\<lambda>p. p\<lparr>ce_next := ce_next e\<rparr>)) (\<lambda>hp1.
            obind (rd hp1 x) (\<lambda>e1.
            obind (wr_if hp1 (ce_next e1) (\<lambda>n. n\<lparr>ce_prev := ce_prev e1\<rparr>)) (\<lambda>hp2.
            (let tail1 = (if ce_next e1 = None then ce_prev e1 else lru_tail l) in
            obind (wr hp2 x (\<lambda>e2. e2\<lparr>ce_prev := None, ce_next := lru_head l\<rparr>)) (\<lambda>hp3.
            obind (wr_if hp3 (lru_head l) (\<lambda>hd. hd\<lparr>ce_prev := Some x\<rparr>)) (\<lambda>hp4.
              Inr (Some (l\<lparr>lru_head := Some x, lru_tail := (if tail1 = None then Some x else tail1)\<rparr>), hp4)))))))))"

definition kv_cache_lru_list_add_to_head ::
  "kv_cache_lru_list option \<Rightarrow> entry_heap \<Rightarrow> addr \<Rightarrow> (kv_cache_lru_list option \<times> entry_heap) outcome" where
  "kv_cache_lru_list_add_to_head list_p hp x =
     (case list_p of
        None \<Rightarrow> Inr (None, hp)
      | Some l \<Rightarrow>
          obind (wr hp x (\<lambda>e. e\<lparr>ce_prev := None, ce_next := lru_head l\<rparr>)) (\<lambda>hp1.
          obind (wr_if hp1 (lru_head l) (\<lambda>hd. hd\<lparr>ce_prev := Some x\<rparr>)) (\<lambda>hp2.
            Inr (Some (l\<lparr>lru_head := Some x, lru_tail := (if lru_head l = None then Some x else lru_tail l),
                          lru_size := lru_size l + 1\<rparr>), hp2))))"

definition kv_cache_lru_list_remove_tail ::
  "kv_cache_lru_list option \<Rightarrow> entry_heap \<Rightarrow> (addr option \<times> kv_cache_lru_list option \<times> entry_heap) outcome" where
  "kv_cache_lru_list_remove_tail list_p hp =
     (case list_p of
        None \<Rightarrow> Inr (None, None, hp)
      | Some l \<Rightarrow>
          (case lru_tail l of
             None \<Rightarrow> Inr (None, Some l, hp)
           | Some x \<Rightarrow>
               obind (rd hp x) (\<lambda>e.
               obind (wr_if hp (ce_prev e) (\<lambda>p. p\<lparr>ce_next := None\<rparr>)) (\<lambda>hp1.
               obind (wr hp1 x (\<lambda>e1. e1\<lparr>ce_prev := None, ce_next := None\<rparr>)) (\<lambda>hp2.
                 Inr (Some x, Some (l\<lparr>lru_tail := ce_prev e, lru_head := (if ce_prev e = None then None else lru_head l),
                                      lru_size := lru_size l - 1\<rparr>), hp2))))))"

definition kv_cache_lru_list_remove_entry ::
  "kv_cache_lru_list option \<Rightarrow> entry_heap \<Rightarrow> addr \<Rightarrow> (kv_cache_lru_list option \<times> entry_heap) outcome" where
  "kv_cache_lru_list_remove_entry list_p hp x =
     (case list_p of
        None \<Rightarrow> Inr (None, hp)
      | Some l \<Rightarrow>
          obind (rd hp x) (\<lambda>e.
          obind (wr_if hp (ce_prev e) (\<lambda>p. p\<lparr>ce_next := ce_next e\<rparr>)) (\<lambda>hp1.
          (let head1 = (if ce_prev e = None then ce_next e else lru_head l) in
          obind (rd hp1 x) (\<lambda>e1.
          obind (wr_if hp1 (ce_next e1) (\<lambda>n. n\<lparr>ce_prev := ce_prev e1\<rparr>)) (\<lambda>hp2.
          (let tail1 = (if ce_next e1 = None then ce_prev e1 else lru_tail l) in
          obind (wr hp2 x (\<lambda>e2. e2\<lparr>ce_prev := None, ce_next := None\<rparr>)) (\<lambda>hp3.
            Inr (Some (l\<lparr>lru_head := head1, lru_tail := tail1, lru_size := lru_size l - 1\<rparr>), hp3)))))))))"


section \<open>Policy managers\<close>

definition kv_cache_frequency_manager_create :: "script \<Rightarrow> nat \<Rightarrow> kv_cache_frequency_manager option \<times> script" where
  "kv_cache_frequency_manager_create h bucket_count =
     (let (ok, h1) = all_ok 3 h in
      (if ok then Some \<lparr>frequency_buckets = replicate bucket_count 0, min_frequency = 1, max_frequency = 1, total_accesses = 0\<rparr>
       else None, h1))"

definition kv_cache_frequency_manager_increment ::
  "kv_cache_frequency_manager \<Rightarrow> entry_heap \<Rightarrow> addr \<Rightarrow> 64 word \<Rightarrow> (kv_cache_frequency_manager \<times> entry_heap) outcome" where
  "kv_cache_frequency_manager_increment fm hp x now =
     obind (rd hp x) (\<lambda>e.
       (let f1 = (if now > frequency_time e + 3600000000
                  then (let f = (frequency e + 1) div 2 in if f = 0 then 1 else f) else frequency e);
            f2 = f1 + 1 in
        Inr (fm\<lparr>total_accesses := total_accesses fm + 1,
                 max_frequency := (if f2 > max_frequency fm then f2 else max_frequency fm)\<rparr>,
             hp(x \<mapsto> e\<lparr>frequency := f2, frequency_time := now\<rparr>))))"

fun min_freq :: "entry_heap \<Rightarrow> addr list \<Rightarrow> 64 word \<Rightarrow> addr option \<Rightarrow> addr option outcome" where
  "min_freq hp [] m best = Inr best"
| "min_freq hp (a # as) m best =
     obind (rd hp a) (\<lambda>e. if frequency e < m then min_freq hp as (frequency e) (Some a) else min_freq hp as m best)"

definition kv_cache_frequency_manager_find_lfu_entry :: "kv_cache_hashtable option \<Rightarrow> entry_heap \<Rightarrow> addr option outcome" where
  "kv_cache_frequency_manager_find_lfu_entry table_p hp =
     (case table_p of None \<Rightarrow> Inr None | Some t \<Rightarrow> min_freq hp (concat (hbuckets t)) (- 1) None)"

definition kv_cache_frequency_manager_decay :: "kv_cache_frequency_manager \<Rightarrow> kv_cache_frequency_manager" where
  "kv_cache_frequency_manager_decay fm =
     fm\<lparr>frequency_buckets := map (\<lambda>n. n div 2) (frequency_buckets fm),
        min_frequency := (if min_frequency fm > 1 then min_frequency fm div 2 else 1),
        max_frequency := (if max_frequency fm > 1 then max_frequency fm div 2 else 1)\<rparr>"

definition kv_cache_clock_manager_create :: "script \<Rightarrow> nat \<Rightarrow> kv_cache_clock_manager option \<times> script" where
  "kv_cache_clock_manager_create h capacity =
     (let (ok, h1) = all_ok 3 h in
      (if ok then Some \<lparr>clock_entries = replicate capacity None, clock_size = 0, clock_hand = 0\<rparr> else None, h1))"

fun first_hole :: "addr option list \<Rightarrow> nat option" where
  "first_hole [] = None"
| "first_hole (None # ps) = Some 0"
| "first_hole (Some a # ps) = map_option Suc (first_hole ps)"

definition kv_cache_clock_manager_add ::
  "kv_cache_clock_manager \<Rightarrow> entry_heap \<Rightarrow> addr \<Rightarrow> (kv_cache_clock_manager \<times> entry_heap) outcome" where
  "kv_cache_clock_manager_add cm hp x =
     (if clock_size cm < length (clock_entries cm)
      then (case first_hole (clock_entries cm) of
          None \<Rightarrow> Inr (cm, hp)
        | Some i \<Rightarrow> obind (wr hp x (\<lambda>e. e\<lparr>reference_bit := 1\<rparr>)) (\<lambda>hp1.
            Inr (cm\<lparr>clock_entries := (clock_entries cm)[i := Some x], clock_size := clock_size cm + 1\<rparr>, hp1)))
      else Inr (cm, hp))"

text \<open>The hand makes one turn: as many steps as the ring has places.\<close>

fun clock_turn ::
  "nat \<Rightarrow> kv_cache_clock_manager \<Rightarrow> entry_heap \<Rightarrow> (addr option \<times> kv_cache_clock_manager \<times> entry_heap) outcome" where
  "clock_turn 0 cm hp = Inr (None, cm, hp)"
| "clock_turn (Suc n) cm hp =
     (let i = clock_hand cm; cm1 = cm\<lparr>clock_hand := (i + 1) mod length (clock_entries cm)\<rparr> in
      (case clock_entries cm ! i of
         None \<Rightarrow> clock_turn n cm1 hp
       | Some a \<Rightarrow>
           obind (rd hp a) (\<lambda>e.
             if reference_bit e = 0
             then Inr (Some a, cm\<lparr>clock_entries := (clock_entries cm)[i := None], clock_size := clock_size cm - 1\<rparr>, hp)
             else clock_turn n cm1 (hp(a \<mapsto> e\<lparr>reference_bit := 0\<rparr>)))))"

definition kv_cache_clock_manager_evict ::
  "kv_cache_clock_manager option \<Rightarrow> entry_heap \<Rightarrow> (addr option \<times> kv_cache_clock_manager option \<times> entry_heap) outcome" where
  "kv_cache_clock_manager_evict cm_p hp =
     (case cm_p of
        None \<Rightarrow> Inr (None, None, hp)
      | Some cm \<Rightarrow>
          if clock_size cm = 0 then Inr (None, Some cm, hp)
          else obind (clock_turn (length (clock_entries cm)) cm hp) (\<lambda>(v, cm1, hp1). Inr (v, Some cm1, hp1)))"

definition kv_cache_clock_manager_access :: "kv_cache_clock_manager option \<Rightarrow> entry_heap \<Rightarrow> addr \<Rightarrow> entry_heap outcome" where
  "kv_cache_clock_manager_access cm_p hp x =
     (if cm_p = None then Inr hp else wr hp x (\<lambda>e. e\<lparr>reference_bit := 1\<rparr>))"

text \<open>All four lists are allocated before the result is tested.\<close>

definition kv_cache_arc_manager_create :: "script \<Rightarrow> 64 word \<Rightarrow> kv_cache_arc_manager option \<times> script" where
  "kv_cache_arc_manager_create h capacity =
     (let (ok, h0) = malloc h in
      if \<not> ok then (None, h0)
      else (let (t1, h1) = kv_cache_lru_list_create h0; (t2, h2) = kv_cache_lru_list_create h1;
                (b1, h3) = kv_cache_lru_list_create h2; (b2, h4) = kv_cache_lru_list_create h3 in
        (case (t1, t2, b1, b2) of
           (Some l1, Some l2, Some l3, Some l4) \<Rightarrow>
             (let (ok5, h5) = malloc h4 in
              (if ok5 then Some \<lparr>t1_list = l1, t2_list = l2, b1_list = l3, b2_list = l4, arc_p = 0, arc_c = capacity\<rparr> else None, h5))
         | _ \<Rightarrow> (None, h4))))"

text \<open>An entry goes from one list to the head of another.\<close>

definition arc_move ::
  "kv_cache_lru_list \<Rightarrow> kv_cache_lru_list \<Rightarrow> entry_heap \<Rightarrow> addr \<Rightarrow> (kv_cache_lru_list \<times> kv_cache_lru_list \<times> entry_heap) outcome" where
  "arc_move from_l to_l hp x =
     obind (kv_cache_lru_list_remove_entry (Some from_l) hp x) (\<lambda>(l1, hp1).
     obind (kv_cache_lru_list_add_to_head (Some to_l) hp1 x) (\<lambda>(l2, hp2).
     obind (wr hp2 x (\<lambda>e. e\<lparr>arc_list_type := 1\<rparr>)) (\<lambda>hp3. Inr (the l1, the l2, hp3))))"

definition kv_cache_arc_manager_access ::
  "kv_cache_arc_manager option \<Rightarrow> entry_heap \<Rightarrow> addr \<Rightarrow> (kv_cache_arc_manager option \<times> entry_heap) outcome" where
  "kv_cache_arc_manager_access am_p hp x =
     (case am_p of
        None \<Rightarrow> Inr (None, hp)
      | Some am \<Rightarrow>
          obind (rd hp x) (\<lambda>e.
            if arc_list_type e = 0
            then obind (arc_move (t1_list am) (t2_list am) hp x) (\<lambda>(l1, l2, hp1).
              Inr (Some (am\<lparr>t1_list := l1, t2_list := l2\<rparr>), hp1))
            else if arc_list_type e = 1
            then obind (kv_cache_lru_list_move_to_head (Some (t2_list am)) hp x) (\<lambda>(l2, hp1).
              Inr (Some (am\<lparr>t2_list := the l2\<rparr>), hp1))
            else if arc_list_type e = 2
            then obind (arc_move (b1_list am) (t2_list am) hp x) (\<lambda>(l1, l2, hp1).
              Inr (Some (am\<lparr>b1_list := l1, t2_list := l2,
                            arc_p := (if arc_p am + 1 < arc_c am then arc_p am + 1 else arc_c am)\<rparr>), hp1))
            else if arc_list_type e = 3
            then obind (arc_move (b2_list am) (t2_list am) hp x) (\<lambda>(l1, l2, hp1).
              Inr (Some (am\<lparr>b2_list := l1, t2_list := l2, arc_p := (if arc_p am > 0 then arc_p am - 1 else 0)\<rparr>), hp1))
            else obind (kv_cache_lru_list_add_to_head (Some (t1_list am)) hp x) (\<lambda>(l1, hp1).
              obind (wr hp1 x (\<lambda>e. e\<lparr>arc_list_type := 0\<rparr>)) (\<lambda>hp2. Inr (Some (am\<lparr>t1_list := the l1\<rparr>), hp2)))))"

definition kv_cache_arc_manager_evict ::
  "kv_cache_arc_manager option \<Rightarrow> entry_heap \<Rightarrow> (addr option \<times> kv_cache_arc_manager option \<times> entry_heap) outcome" where
  "kv_cache_arc_manager_evict am_p hp =
     (case am_p of
        None \<Rightarrow> Inr (None, None, hp)
      | Some am \<Rightarrow>
          (let from_t1 = lru_size (t1_list am) > arc_p am in
           obind (kv_cache_lru_list_remove_tail (Some (if from_t1 then t1_list am else t2_list am)) hp) (\<lambda>(v, l, hp1).
           obind (wr_if hp1 v (\<lambda>e. e\<lparr>arc_list_type := 255\<rparr>)) (\<lambda>hp2.
             Inr (v, Some (if from_t1 then am\<lparr>t1_list := the l\<rparr> else am\<lparr>t2_list := the l\<rparr>), hp2)))))"

section \<open>Eviction and expiry\<close>

text \<open>The first bucket with an entry, from a random one on.\<close>

definition random_victim :: "kv_cache_hashtable \<Rightarrow> nat \<Rightarrow> addr option" where
  "random_victim t r =
     (let n = length (hbuckets t) in
      if ht_entry_count t = 0 then None
      else (case filter (\<lambda>i. hbuckets t ! i \<noteq> []) (map (\<lambda>i. (r mod n + i) mod n) [0..<n]) of
          [] \<Rightarrow> None | i # _ \<Rightarrow> Some (hd (hbuckets t ! i))))"

text \<open>The victim of a policy, already off the list where the code takes it off; \<open>None\<close> in the first place: no such policy.\<close>

definition unlist :: "kv_cache \<Rightarrow> addr option \<Rightarrow> (addr option \<times> kv_cache) outcome" where
  "unlist c v =
     (case v of
        None \<Rightarrow> Inr (None, c)
      | Some a \<Rightarrow> obind (kv_cache_lru_list_remove_entry (clru c) (cheap c) a) (\<lambda>(l, hp).
          Inr (Some a, c\<lparr>clru := l, cheap := hp\<rparr>)))"

definition choose_victim :: "kv_cache \<Rightarrow> nat \<Rightarrow> (addr option \<times> kv_cache) option outcome" where
  "choose_victim c r =
     (let from_tail = obind (kv_cache_lru_list_remove_tail (clru c) (cheap c)) (\<lambda>(v, l, hp). Inr (Some (v, c\<lparr>clru := l, cheap := hp\<rparr>))) in
      (case cache_policy (cconfig c) of
         KV_CACHE_POLICY_LRU \<Rightarrow> from_tail
       | KV_CACHE_POLICY_FIFO \<Rightarrow> from_tail
       | KV_CACHE_POLICY_LFU \<Rightarrow>
           obind (kv_cache_frequency_manager_find_lfu_entry (chashtable c) (cheap c)) (\<lambda>v. obind (unlist c v) (\<lambda>r. Inr (Some r)))
       | KV_CACHE_POLICY_CLOCK \<Rightarrow>
           obind (kv_cache_clock_manager_evict (cclock c) (cheap c)) (\<lambda>(v, cm, hp).
             obind (unlist (c\<lparr>cclock := cm, cheap := hp\<rparr>) v) (\<lambda>r. Inr (Some r)))
       | KV_CACHE_POLICY_ARC \<Rightarrow>
           obind (kv_cache_arc_manager_evict (carc c) (cheap c)) (\<lambda>(v, am, hp). Inr (Some (v, c\<lparr>carc := am, cheap := hp\<rparr>)))
       | KV_CACHE_POLICY_RANDOM \<Rightarrow>
           (case chashtable c of None \<Rightarrow> Inl NullDeref | Some t \<Rightarrow> obind (unlist c (random_victim t r)) (\<lambda>r. Inr (Some r)))
       | KV_CACHE_POLICY_MAX \<Rightarrow> Inr None))"

fun kv_cache_evict_entries_by_policy :: "nat \<Rightarrow> (nat \<Rightarrow> nat) \<Rightarrow> kv_cache \<Rightarrow> (int \<times> kv_cache) outcome" where
  "kv_cache_evict_entries_by_policy 0 rnd c = Inr (KV_SUCCESS, c)"
| "kv_cache_evict_entries_by_policy (Suc n) rnd c =
     obind (choose_victim c (rnd 0)) (\<lambda>choice.
       (case choice of
          None \<Rightarrow> Inr (KV_ERR_INVALID_PARAM, c)
        | Some (None, c1) \<Rightarrow> Inr (KV_SUCCESS, c1)
        | Some (Some a, c1) \<Rightarrow>
            obind (rd (cheap c1) a) (\<lambda>e.
            obind (kv_cache_hashtable_remove (chashtable c1) (cheap c1) (ce_key e)) (\<lambda>(r, t).
            obind (kv_cache_entry_destroy (cheap c1) a) (\<lambda>hp.
              kv_cache_evict_entries_by_policy n (\<lambda>i. rnd (Suc i))
                (c1\<lparr>chashtable := t, cheap := hp,
                    cstats := (cstats c1)\<lparr>current_entries := current_entries (cstats c1) - 1,
                                          evictions := evictions (cstats c1) + 1\<rparr>\<rparr>))))))"

text \<open>One bucket: the entries that stay, and how many went.\<close>

fun expire_chain ::
  "addr list \<Rightarrow> 64 word \<Rightarrow> kv_cache_lru_list option \<Rightarrow> entry_heap \<Rightarrow> (addr list \<times> nat \<times> kv_cache_lru_list option \<times> entry_heap) outcome" where
  "expire_chain [] now l hp = Inr ([], 0, l, hp)"
| "expire_chain (a # as) now l hp =
     obind (rd hp a) (\<lambda>e.
       if kv_cache_is_expired e now
       then obind (kv_cache_lru_list_remove_entry l hp a) (\<lambda>(l1, hp1).
            obind (kv_cache_entry_destroy hp1 a) (\<lambda>hp2.
            obind (expire_chain as now l1 hp2) (\<lambda>(bs, n, l2, hp3). Inr (bs, n + 1, l2, hp3))))
       else obind (expire_chain as now l hp) (\<lambda>(bs, n, l2, hp3). Inr (a # bs, n, l2, hp3)))"

fun expire_buckets ::
  "addr list list \<Rightarrow> 64 word \<Rightarrow> kv_cache_lru_list option \<Rightarrow> entry_heap \<Rightarrow> (addr list list \<times> nat \<times> kv_cache_lru_list option \<times> entry_heap) outcome" where
  "expire_buckets [] now l hp = Inr ([], 0, l, hp)"
| "expire_buckets (b # bs) now l hp =
     obind (expire_chain b now l hp) (\<lambda>(b', n, l1, hp1).
     obind (expire_buckets bs now l1 hp1) (\<lambda>(bs', n', l2, hp2). Inr (b' # bs', n + n', l2, hp2)))"

definition kv_cache_cleanup_expired_entries :: "kv_cache \<Rightarrow> 64 word \<Rightarrow> (nat \<times> kv_cache) outcome" where
  "kv_cache_cleanup_expired_entries c now =
     (case chashtable c of
        None \<Rightarrow> Inl NullDeref
      | Some t \<Rightarrow> obind (expire_buckets (hbuckets t) now (clru c) (cheap c)) (\<lambda>(bs, n, l, hp).
          Inr (n, c\<lparr>chashtable := Some (t\<lparr>hbuckets := bs\<rparr>), clru := l, cheap := hp,
                    cstats := (cstats c)\<lparr>current_entries := current_entries (cstats c) - of_nat n,
                                         expirations := expirations (cstats c) + of_nat n\<rparr>\<rparr>)))"

text \<open>One round of the cleanup thread, under the write lock.\<close>

definition cleanup_round :: "kv_cache \<Rightarrow> 64 word \<Rightarrow> 64 word \<Rightarrow> kv_cache outcome" where
  "cleanup_round c now now' =
     obind (kv_cache_cleanup_expired_entries (c\<lparr>cstate := KV_CACHE_STATE_CLEANING\<rparr>) now) (\<lambda>(n, c1).
       Inr (c1\<lparr>cstats := (cstats c1)\<lparr>last_cleanup_time := now'\<rparr>, cstate := KV_CACHE_STATE_RUNNING\<rparr>))"


section \<open>Statistics\<close>

text \<open>A running average, and a maximum; a duration of 0 is not recorded.\<close>

definition new_avg :: "64 word \<Rightarrow> 64 word \<Rightarrow> 64 word \<Rightarrow> 64 word" where
  "new_avg n avg duration = (if duration > 0 then (if n = 1 then duration else (avg * (n - 1) + duration) div n) else avg)"

definition kv_cache_update_stats_get :: "kv_cache \<Rightarrow> bool \<Rightarrow> 64 word \<Rightarrow> kv_cache" where
  "kv_cache_update_stats_get c hit duration =
     (if \<not> enable_stats (cconfig c) then c
      else (let s = cstats c; n = get_count s + 1 in
        c\<lparr>cstats := s\<lparr>total_requests := total_requests s + 1, get_count := n,
           cs_hits := (if hit then cs_hits s + 1 else cs_hits s), cs_misses := (if hit then cs_misses s else cs_misses s + 1),
           avg_get_time := new_avg n (avg_get_time s) duration,
           max_get_time := (if duration > 0 \<and> duration > max_get_time s then duration else max_get_time s)\<rparr>\<rparr>))"

definition kv_cache_update_stats_set :: "kv_cache \<Rightarrow> 64 word \<Rightarrow> kv_cache" where
  "kv_cache_update_stats_set c duration =
     (if \<not> enable_stats (cconfig c) then c
      else (let s = cstats c; n = set_count s + 1 in
        c\<lparr>cstats := s\<lparr>set_count := n, avg_set_time := new_avg n (avg_set_time s) duration,
           max_set_time := (if duration > 0 \<and> duration > max_set_time s then duration else max_set_time s)\<rparr>\<rparr>))"

definition zero_cache_stats :: kv_cache_stats where
  "zero_cache_stats = \<lparr>total_requests = 0, cs_hits = 0, cs_misses = 0, evictions = 0, expirations = 0, get_count = 0, set_count = 0,
     delete_count = 0, update_count = 0, avg_get_time = 0, avg_set_time = 0, max_get_time = 0, max_set_time = 0,
     current_entries = 0, st_max_entries = 0, current_memory = 0, st_max_memory = 0, cs_start_time = 0, last_cleanup_time = 0\<rparr>"

section \<open>Configuration and life cycle\<close>

definition kv_cache_config_create_default :: "script \<Rightarrow> kv_cache_policy \<Rightarrow> kv_cache_config option \<times> script" where
  "kv_cache_config_create_default h policy =
     (let (ok, h1) = malloc h in
      (if ok then Some \<lparr>cache_policy = policy, cf_max_entries = 10000, cf_max_memory = 104857600, hash_table_size = 4096,
         default_ttl = 3600000000, cleanup_interval = 60000000, max_idle_time = 7200000000, enable_stats = True,
         cf_hash_seed = KV_CACHE_DEFAULT_HASH_SEED, eviction_factor = 1 / 10, min_eviction_count = 1, max_eviction_count = 1000,
         frequency_decay_time = 3600, frequency_decay_factor = 8 / 10\<rparr>
       else None, h1))"

definition kv_cache_config_validate :: "kv_cache_config \<Rightarrow> bool" where
  "kv_cache_config_validate cf \<longleftrightarrow>
     cache_policy cf \<noteq> KV_CACHE_POLICY_MAX \<and>
     \<not> (hash_table_size cf < KV_CACHE_MIN_HASH_SIZE \<or> hash_table_size cf > KV_CACHE_MAX_HASH_SIZE) \<and>
     \<not> (eviction_factor cf < 1 / 100 \<or> eviction_factor cf > 1 / 2) \<and>
     \<not> min_eviction_count cf > max_eviction_count cf \<and>
     \<not> (frequency_decay_factor cf < 1 / 10 \<or> frequency_decay_factor cf > 1)"

fun kv_cache_policy_name :: "kv_cache_policy \<Rightarrow> string" where
  "kv_cache_policy_name KV_CACHE_POLICY_LRU = ''LRU''"
| "kv_cache_policy_name KV_CACHE_POLICY_LFU = ''LFU''"
| "kv_cache_policy_name KV_CACHE_POLICY_FIFO = ''FIFO''"
| "kv_cache_policy_name KV_CACHE_POLICY_RANDOM = ''RANDOM''"
| "kv_cache_policy_name KV_CACHE_POLICY_CLOCK = ''CLOCK''"
| "kv_cache_policy_name KV_CACHE_POLICY_ARC = ''ARC''"
| "kv_cache_policy_name KV_CACHE_POLICY_MAX = ''UNKNOWN''"

fun kv_cache_state_name :: "kv_cache_state \<Rightarrow> string" where
  "kv_cache_state_name KV_CACHE_STATE_INIT = ''INIT''"
| "kv_cache_state_name KV_CACHE_STATE_RUNNING = ''RUNNING''"
| "kv_cache_state_name KV_CACHE_STATE_FULL = ''FULL''"
| "kv_cache_state_name KV_CACHE_STATE_CLEANING = ''CLEANING''"
| "kv_cache_state_name KV_CACHE_STATE_SHUTDOWN = ''SHUTDOWN''"

text \<open>The manager of the policy; \<open>None\<close> in the first place: its creation failed.\<close>

definition policy_managers ::
  "script \<Rightarrow> kv_cache_config \<Rightarrow> (kv_cache_clock_manager option \<times> kv_cache_arc_manager option) option \<times> script" where
  "policy_managers h cf =
     (if cache_policy cf = KV_CACHE_POLICY_CLOCK
      then (case kv_cache_clock_manager_create h (unat (cf_max_entries cf)) of
          (None, h1) \<Rightarrow> (None, h1) | (Some cm, h1) \<Rightarrow> (Some (Some cm, None), h1))
      else if cache_policy cf = KV_CACHE_POLICY_ARC
      then (case kv_cache_arc_manager_create h (cf_max_entries cf) of
          (None, h1) \<Rightarrow> (None, h1) | (Some am, h1) \<Rightarrow> (Some (None, Some am), h1))
      else (Some (None, None), h))"

text \<open>After the data structures, three locks and the thread.\<close>

definition kv_cache_create :: "script \<Rightarrow> kv_cache_config option \<Rightarrow> 64 word \<Rightarrow> kv_cache option \<times> script" where
  "kv_cache_create h config_p now =
     (case config_p of
        None \<Rightarrow> (None, h)
      | Some cf \<Rightarrow>
          if \<not> kv_cache_config_validate cf then (None, h)
          else (let (ok, h1) = malloc h in
            if \<not> ok then (None, h1)
            else (case kv_cache_hashtable_create h1 (hash_table_size cf) (cf_hash_seed cf) of
                (None, h2) \<Rightarrow> (None, h2)
              | (Some t, h2) \<Rightarrow>
                  (case kv_cache_lru_list_create h2 of
                     (None, h3) \<Rightarrow> (None, h3)
                   | (Some l, h3) \<Rightarrow>
                       (case kv_cache_frequency_manager_create h3 1024 of
                          (None, h4) \<Rightarrow> (None, h4)
                        | (Some fm, h4) \<Rightarrow>
                            (case policy_managers h4 cf of
                               (None, h5) \<Rightarrow> (None, h5)
                             | (Some (cm, am), h5) \<Rightarrow>
                                 (let (ok6, h6) = all_ok 4 h5 in
                                  (if ok6 then Some \<lparr>cconfig = cf, cstate = KV_CACHE_STATE_RUNNING, chashtable = Some t, clru = Some l,
                                      cfreq = fm, cclock = cm, carc = am,
                                      cstats = zero_cache_stats\<lparr>cs_start_time := now, st_max_entries := cf_max_entries cf,
                                                          st_max_memory := cf_max_memory cf\<rparr>,
                                      cheap = Map.empty, cnext = 0\<rparr>
                                   else None, h6))))))))"

text \<open>What is left of the heap after the entries of the table have been destroyed.\<close>

definition kv_cache_destroy :: "kv_cache \<Rightarrow> entry_heap outcome" where
  "kv_cache_destroy c = kv_cache_hashtable_destroy (chashtable c) (cheap c)"

section \<open>Operations\<close>

text \<open>What a policy does when an entry is used.\<close>

definition touch :: "kv_cache \<Rightarrow> addr \<Rightarrow> 64 word \<Rightarrow> kv_cache outcome" where
  "touch c a ftime =
     (case cache_policy (cconfig c) of
        KV_CACHE_POLICY_LRU \<Rightarrow>
          obind (kv_cache_lru_list_move_to_head (clru c) (cheap c) a) (\<lambda>(l, hp). Inr (c\<lparr>clru := l, cheap := hp\<rparr>))
      | KV_CACHE_POLICY_LFU \<Rightarrow>
          obind (kv_cache_frequency_manager_increment (cfreq c) (cheap c) a ftime) (\<lambda>(fm, hp). Inr (c\<lparr>cfreq := fm, cheap := hp\<rparr>))
      | KV_CACHE_POLICY_CLOCK \<Rightarrow>
          obind (kv_cache_clock_manager_access (cclock c) (cheap c) a) (\<lambda>hp. Inr (c\<lparr>cheap := hp\<rparr>))
      | KV_CACHE_POLICY_ARC \<Rightarrow>
          obind (kv_cache_arc_manager_access (carc c) (cheap c) a) (\<lambda>(am, hp). Inr (c\<lparr>carc := am, cheap := hp\<rparr>))
      | _ \<Rightarrow> Inr c)"

text \<open>The readings of the clock during a call: at its start, in the middle, by the LFU manager, at its end.\<close>

type_synonym readings = "64 word \<times> 64 word \<times> 64 word \<times> 64 word"

definition get_locked ::
  "kv_cache \<Rightarrow> script \<Rightarrow> readings \<Rightarrow> string \<Rightarrow> (int \<times> string option \<times> kv_cache \<times> script) outcome" where
  "get_locked c h = (\<lambda>(start, now, ftime, fin) key.
     obind (kv_cache_hashtable_find (chashtable c) (cheap c) key) (\<lambda>found.
       (case found of
          None \<Rightarrow> Inr (KV_ERR_KEY_NOT_FOUND, None, c, h)
        | Some a \<Rightarrow>
            obind (rd (cheap c) a) (\<lambda>e.
              if kv_cache_is_expired e now then Inr (KV_ERR_KEY_NOT_FOUND, None, c, h)
              else (let (ok, h1) = malloc h in
                if \<not> ok then Inr (KV_ERR_MEMORY_ALLOC, None, c, h1)
                else obind (touch (c\<lparr>cheap := (cheap c)(a \<mapsto> e\<lparr>access_time := now\<rparr>)\<rparr>) a ftime) (\<lambda>c1.
                  Inr (KV_SUCCESS, Some (ce_value e), c1, h1)))))))"

definition kv_cache_get ::
  "kv_cache \<Rightarrow> script \<Rightarrow> readings \<Rightarrow> string \<Rightarrow> (int \<times> string option \<times> kv_cache \<times> script) outcome" where
  "kv_cache_get c h ts key =
     (if cstate c \<noteq> KV_CACHE_STATE_RUNNING \<or> key = [] then Inr (KV_ERR_INVALID_PARAM, None, c, h)
      else if int (length key) > KV_CACHE_MAX_KEY_LENGTH then Inr (KV_ERR_KEY_TOO_LONG, None, c, h)
      else obind (get_locked c h ts key) (\<lambda>(r, v, c1, h1).
        Inr (r, v, kv_cache_update_stats_get c1 (r = KV_SUCCESS) (snd (snd (snd ts)) - fst ts), h1)))"

definition evict_count :: "kv_cache_config \<Rightarrow> nat" where
  "evict_count cf =
     (let n = nat \<lfloor>real (unat (cf_max_entries cf)) * eviction_factor cf\<rfloor> in
      if n < unat (min_eviction_count cf) then unat (min_eviction_count cf) else n)"

text \<open>The entry of a new key goes into the table, the list and the manager of the policy.\<close>

definition add_new ::
  "kv_cache \<Rightarrow> script \<Rightarrow> 8 word \<Rightarrow> 64 word \<Rightarrow> string \<Rightarrow> string \<Rightarrow> 64 word \<Rightarrow> (int \<times> kv_cache \<times> script) outcome" where
  "add_new c h junk now key value ttl =
     (case kv_cache_entry_create h junk key value ttl now of
        (None, h1) \<Rightarrow> Inr (KV_ERR_MEMORY_ALLOC, c, h1)
      | (Some e, h1) \<Rightarrow>
          (let a = cnext c; c1 = c\<lparr>cheap := (cheap c)(a \<mapsto> e), cnext := a + 1\<rparr> in
           obind (kv_cache_hashtable_insert (chashtable c1) (cheap c1) a) (\<lambda>(r, t).
             if r \<noteq> KV_SUCCESS
             then obind (kv_cache_entry_destroy (cheap c1) a) (\<lambda>hp. Inr (r, c1\<lparr>cheap := hp\<rparr>, h1))
             else obind (kv_cache_lru_list_add_to_head (clru c1) (cheap c1) a) (\<lambda>(l, hp).
               (let c2 = c1\<lparr>chashtable := t, clru := l, cheap := hp\<rparr> in
                obind (case cache_policy (cconfig c) of
                    KV_CACHE_POLICY_CLOCK \<Rightarrow>
                      (case cclock c2 of
                         None \<Rightarrow> Inr c2
                       | Some cm \<Rightarrow> obind (kv_cache_clock_manager_add cm hp a) (\<lambda>(cm1, hp1). Inr (c2\<lparr>cclock := Some cm1, cheap := hp1\<rparr>)))
                  | KV_CACHE_POLICY_ARC \<Rightarrow>
                      obind (kv_cache_arc_manager_access (carc c2) hp a) (\<lambda>(am, hp1). Inr (c2\<lparr>carc := am, cheap := hp1\<rparr>))
                  | KV_CACHE_POLICY_LFU \<Rightarrow>
                      obind (wr hp a (\<lambda>e. e\<lparr>frequency := 1, frequency_time := now\<rparr>)) (\<lambda>hp1. Inr (c2\<lparr>cheap := hp1\<rparr>))
                  | _ \<Rightarrow> Inr c2) (\<lambda>c3.
                Inr (KV_SUCCESS, c3\<lparr>cstats := (cstats c3)\<lparr>current_entries := current_entries (cstats c3) + 1\<rparr>\<rparr>, h1)))))))"

definition update_existing ::
  "kv_cache \<Rightarrow> script \<Rightarrow> addr \<Rightarrow> 64 word \<Rightarrow> 64 word \<Rightarrow> string \<Rightarrow> 64 word \<Rightarrow> (int \<times> kv_cache \<times> script) outcome" where
  "update_existing c h a now ftime value ttl =
     (let (ok, h1) = malloc h in
      if \<not> ok then Inr (KV_ERR_MEMORY_ALLOC, c, h1)
      else obind (wr (cheap c) a (\<lambda>e. e\<lparr>ce_value := value, update_time := now, access_time := now, ce_ttl := ttl\<rparr>)) (\<lambda>hp.
           obind (touch (c\<lparr>cheap := hp\<rparr>) a ftime) (\<lambda>c1.
             Inr (KV_SUCCESS, c1\<lparr>cstats := (cstats c1)\<lparr>update_count := update_count (cstats c1) + 1\<rparr>\<rparr>, h1))))"

definition set_locked ::
  "kv_cache \<Rightarrow> script \<Rightarrow> (nat \<Rightarrow> nat) \<Rightarrow> 8 word \<Rightarrow> 64 word \<Rightarrow> 64 word \<Rightarrow> string \<Rightarrow> string \<Rightarrow> 64 word \<Rightarrow> (int \<times> kv_cache \<times> script) outcome" where
  "set_locked c h rnd junk now ftime key value ttl =
     (let cf = cconfig c in
      obind (if cf_max_entries cf > 0 \<and> current_entries (cstats c) \<ge> cf_max_entries cf
             then kv_cache_evict_entries_by_policy (evict_count cf) rnd c else Inr (KV_SUCCESS, c)) (\<lambda>(r, c1).
        if r \<noteq> KV_SUCCESS then Inr (r, c1, h)
        else obind (kv_cache_hashtable_find (chashtable c1) (cheap c1) key) (\<lambda>found.
          (case found of
             Some a \<Rightarrow> update_existing c1 h a now ftime value ttl
           | None \<Rightarrow> add_new c1 h junk now key value ttl))))"

definition kv_cache_set ::
  "kv_cache \<Rightarrow> script \<Rightarrow> (nat \<Rightarrow> nat) \<Rightarrow> 8 word \<Rightarrow> readings \<Rightarrow> string \<Rightarrow> string \<Rightarrow> 64 word \<Rightarrow> (int \<times> kv_cache \<times> script) outcome" where
  "kv_cache_set c h rnd junk = (\<lambda>(start, mid, ftime, fin) key value ttl.
     (if key = [] \<or> value = [] then Inr (KV_ERR_INVALID_PARAM, c, h)
      else if int (length key) > KV_CACHE_MAX_KEY_LENGTH \<or> int (length value) > KV_CACHE_MAX_VALUE_LENGTH then Inr (KV_ERR_KEY_TOO_LONG, c, h)
      else obind (set_locked c h rnd junk start ftime key value ttl) (\<lambda>(r, c1, h1).
        (let c2 = kv_cache_update_stats_set c1 (fin - start) in
         Inr (r, if r = KV_SUCCESS then c2\<lparr>cstats := (cstats c2)\<lparr>set_count := set_count (cstats c2) + 1\<rparr>\<rparr> else c2, h1)))))"

definition kv_cache_delete :: "kv_cache \<Rightarrow> string \<Rightarrow> (int \<times> kv_cache) outcome" where
  "kv_cache_delete c key =
     (if cstate c \<noteq> KV_CACHE_STATE_RUNNING \<or> key = [] then Inr (KV_ERR_INVALID_PARAM, c)
      else if int (length key) > KV_CACHE_MAX_KEY_LENGTH then Inr (KV_ERR_KEY_TOO_LONG, c)
      else obind (kv_cache_hashtable_find (chashtable c) (cheap c) key) (\<lambda>found.
        (case found of
           None \<Rightarrow> Inr (KV_ERR_KEY_NOT_FOUND, c)
         | Some a \<Rightarrow>
             obind (kv_cache_hashtable_remove (chashtable c) (cheap c) key) (\<lambda>(r, t).
             obind (kv_cache_lru_list_remove_entry (clru c) (cheap c) a) (\<lambda>(l, hp).
             obind (kv_cache_entry_destroy hp a) (\<lambda>hp1.
               Inr (KV_SUCCESS, c\<lparr>chashtable := t, clru := l, cheap := hp1,
                 cstats := (cstats c)\<lparr>current_entries := current_entries (cstats c) - 1, delete_count := delete_count (cstats c) + 1\<rparr>\<rparr>)))))))"

definition kv_cache_exists :: "kv_cache \<Rightarrow> 64 word \<Rightarrow> string \<Rightarrow> bool outcome" where
  "kv_cache_exists c now key =
     (if cstate c \<noteq> KV_CACHE_STATE_RUNNING \<or> key = [] \<or> int (length key) > KV_CACHE_MAX_KEY_LENGTH then Inr False
      else obind (kv_cache_hashtable_find (chashtable c) (cheap c) key) (\<lambda>found.
        (case found of None \<Rightarrow> Inr False | Some a \<Rightarrow> obind (rd (cheap c) a) (\<lambda>e. Inr (\<not> kv_cache_is_expired e now)))))"

definition kv_cache_clear :: "kv_cache \<Rightarrow> script \<Rightarrow> (int \<times> kv_cache \<times> script) outcome" where
  "kv_cache_clear c h =
     obind (kv_cache_hashtable_destroy (chashtable c) (cheap c)) (\<lambda>hp.
       (let (t, h1) = kv_cache_hashtable_create h (hash_table_size (cconfig c)) (cf_hash_seed (cconfig c));
            (l, h2) = kv_cache_lru_list_create h1;
            c1 = c\<lparr>chashtable := t, clru := l, cheap := hp\<rparr>; s = cstats c in
        if t = None \<or> l = None then Inr (KV_ERR_MEMORY_ALLOC, c1, h2)
        else Inr (KV_SUCCESS, c1\<lparr>cstats := zero_cache_stats\<lparr>cs_start_time := cs_start_time s, st_max_entries := st_max_entries s,
                                                      st_max_memory := st_max_memory s\<rparr>\<rparr>, h2)))"

definition kv_cache_reset_stats :: "kv_cache \<Rightarrow> 64 word \<Rightarrow> kv_cache" where
  "kv_cache_reset_stats c now =
     (let s = cstats c in
      c\<lparr>cstats := zero_cache_stats\<lparr>cs_start_time := now, current_entries := current_entries s, st_max_entries := st_max_entries s,
                            current_memory := current_memory s, st_max_memory := st_max_memory s\<rparr>\<rparr>)"

definition kv_cache_cleanup_expired :: "kv_cache \<Rightarrow> 64 word \<Rightarrow> (nat \<times> kv_cache) outcome" where
  "kv_cache_cleanup_expired c now = kv_cache_cleanup_expired_entries c now"

definition kv_cache_evict_entries :: "kv_cache \<Rightarrow> nat \<Rightarrow> (nat \<Rightarrow> nat) \<Rightarrow> (int \<times> kv_cache) outcome" where
  "kv_cache_evict_entries c count rnd =
     (if count = 0 then Inr (KV_ERR_INVALID_PARAM, c) else kv_cache_evict_entries_by_policy count rnd c)"

definition kv_cache_validate_integrity :: "kv_cache \<Rightarrow> bool outcome" where
  "kv_cache_validate_integrity c =
     (case (chashtable c, clru c) of
        (Some t, Some l) \<Rightarrow>
          if ht_entry_count t \<noteq> lru_size l \<or> ht_entry_count t \<noteq> current_entries (cstats c) then Inr False
          else if lru_size l > 0
          then (case (lru_head l, lru_tail l) of
              (Some hd_p, Some tl_p) \<Rightarrow>
                obind (rd (cheap c) hd_p) (\<lambda>e. if ce_prev e \<noteq> None then Inr False
                  else obind (rd (cheap c) tl_p) (\<lambda>e'. Inr (ce_next e' = None)))
            | _ \<Rightarrow> Inr False)
          else Inr True
      | _ \<Rightarrow> Inr False)"

text \<open>The sizes of the four structures are those of the platform.\<close>

fun chain_bytes :: "entry_heap \<Rightarrow> addr list \<Rightarrow> 64 word \<Rightarrow> (64 word) outcome" where
  "chain_bytes hp [] acc = Inr acc"
| "chain_bytes hp (a # as) acc =
     obind (rd hp a) (\<lambda>e. chain_bytes hp as (acc + of_nat (length (ce_key e) + length (ce_value e))))"

definition kv_cache_get_memory_usage ::
  "64 word \<Rightarrow> 64 word \<Rightarrow> kv_cache \<Rightarrow> ((64 word \<times> 64 word \<times> 64 word) \<times> kv_cache) outcome" where
  "kv_cache_get_memory_usage sizeof_entry sizeof_fixed c =
     (case chashtable c of
        None \<Rightarrow> Inl NullDeref
      | Some t \<Rightarrow>
          obind (chain_bytes (cheap c) (concat (hbuckets t)) 0) (\<lambda>data.
            (let meta = sizeof_entry * of_nat (length (concat (hbuckets t))) + sizeof_fixed + of_nat (length (hbuckets t)) * 8 in
             Inr ((data + meta, data, meta), c\<lparr>cstats := (cstats c)\<lparr>current_memory := data + meta\<rparr>\<rparr>))))"

end
