(* ===== verification/Cache_List.thy ===== *)
theory Cache_List
  imports Cache
begin

text \<open>
  The linked lists of the cache over the heap of entries: a predicate that a list of addresses is what the links spell,
  and what each list operation does to that list. Operations change nothing of an entry but its links.
\<close>

section \<open>Chains in the heap\<close>

definition first_of :: "addr list \<Rightarrow> addr option \<Rightarrow> addr option" where
  "first_of xs n = (case xs of [] \<Rightarrow> n | x # _ \<Rightarrow> Some x)"

definition last_of :: "addr option \<Rightarrow> addr list \<Rightarrow> addr option" where
  "last_of p xs = (if xs = [] then p else Some (last xs))"

fun dl :: "entry_heap \<Rightarrow> addr option \<Rightarrow> addr list \<Rightarrow> addr option \<Rightarrow> bool" where
  "dl hp p [] n = True"
| "dl hp p (x # xs) n \<longleftrightarrow>
     (\<exists>e. hp x = Some e \<and> ce_prev e = p \<and> ce_next e = first_of xs n) \<and> dl hp (Some x) xs n"

lemma ends_simps [simp]:
  "first_of [] n = n" "first_of (x # xs) n = Some x" "last_of p [] = p" "last_of p (xs @ [x]) = Some x"
  "last_of p [x] = Some x" "last_of p (x # xs) = last_of (Some x) xs"
  by (simp_all add: first_of_def last_of_def)

lemma first_of_append [simp]: "first_of (xs @ ys) n = first_of xs (first_of ys n)"
  by (cases xs) simp_all

lemma first_of_None [simp]: "first_of xs None = None \<longleftrightarrow> xs = []" "last_of None xs = None \<longleftrightarrow> xs = []"
  by (cases xs) (simp_all add: last_of_def)

lemma dl_append [simp]: "dl hp p (xs @ ys) n \<longleftrightarrow> dl hp p xs (first_of ys n) \<and> dl hp (last_of p xs) ys n"
  by (induction xs arbitrary: p) auto

lemma dl_upd [simp]: "a \<notin> set xs \<Longrightarrow> dl (hp(a := e)) p xs n = dl hp p xs n"
  by (induction xs arbitrary: p) auto

lemma dl_in_heap: "dl hp p xs n \<Longrightarrow> x \<in> set xs \<Longrightarrow> hp x \<noteq> None"
  by (induction xs arbitrary: p) auto

text \<open>An update that keeps the links keeps the chain.\<close>

lemma dl_keep:
  assumes "hp a = Some e" "ce_prev e' = ce_prev e" "ce_next e' = ce_next e"
  shows "dl (hp(a \<mapsto> e')) p xs n = dl hp p xs n"
  using assms by (induction xs arbitrary: p) auto

definition list_ok :: "entry_heap \<Rightarrow> kv_cache_lru_list \<Rightarrow> addr list \<Rightarrow> bool" where
  "list_ok hp l xs \<longleftrightarrow> distinct xs \<and> dl hp None xs None \<and> lru_head l = first_of xs None \<and> lru_tail l = last_of None xs \<and>
     lru_size l = of_nat (length xs)"

text \<open>Everything of an entry but its links.\<close>

definition bare :: "kv_cache_entry \<Rightarrow> kv_cache_entry" where
  "bare e = e\<lparr>ce_prev := None, ce_next := None\<rparr>"

definition same_data :: "entry_heap \<Rightarrow> entry_heap \<Rightarrow> bool" where
  "same_data hp hp' \<longleftrightarrow> (\<forall>a. map_option bare (hp' a) = map_option bare (hp a))"

lemma bare_links [simp]: "bare (e\<lparr>ce_prev := p, ce_next := n\<rparr>) = bare e" "bare (e\<lparr>ce_prev := p\<rparr>) = bare e" "bare (e\<lparr>ce_next := n\<rparr>) = bare e"
  by (simp_all add: bare_def)

lemma same_data_refl [simp]: "same_data hp hp"
  by (simp add: same_data_def)

lemma same_data_trans [trans]: "same_data h1 h2 \<Longrightarrow> same_data h2 h3 \<Longrightarrow> same_data h1 h3"
  by (simp add: same_data_def)

lemma same_data_dom: "same_data hp hp' \<Longrightarrow> dom hp' = dom hp"
  unfolding same_data_def by (metis (no_types) map_option_is_None domIff set_eq_iff)

lemma same_dataD: "same_data hp hp' \<Longrightarrow> hp a = Some e \<Longrightarrow> \<exists>e'. hp' a = Some e' \<and> bare e' = bare e"
  by (auto simp: same_data_def dest: spec[of _ a])

section \<open>The list operations\<close>

lemma list_ok_keep:
  assumes "list_ok hp l xs" "hp a = Some e" "ce_prev e' = ce_prev e" "ce_next e' = ce_next e"
  shows "list_ok (hp(a \<mapsto> e')) l xs"
  using assms dl_keep by (simp add: list_ok_def)

lemma list_ok_free: "list_ok hp l xs \<Longrightarrow> a \<notin> set xs \<Longrightarrow> list_ok (hp(a := e)) l xs"
  by (simp add: list_ok_def)

lemma remove_entry_ok:
  assumes "list_ok hp l (as @ x # bs)"
  shows "\<exists>l' hp'. kv_cache_lru_list_remove_entry (Some l) hp x = Inr (Some l', hp') \<and> list_ok hp' l' (as @ bs) \<and> same_data hp hp'"
proof -
  obtain e where x: "hp x = Some e" "ce_prev e = last_of None as" "ce_next e = first_of bs None"
    and as: "dl hp None as (Some x)" and bs: "dl hp (Some x) bs None" and d: "distinct (as @ x # bs)"
    and l: "lru_head l = first_of (as @ x # bs) None" "lru_tail l = last_of None (as @ x # bs)" "lru_size l = of_nat (length as + length bs) + 1"
    using assms by (auto simp: list_ok_def)
  show ?thesis
  proof (cases as rule: rev_cases)
    case Nil
    with x as bs d l show ?thesis
      by (cases bs) (auto simp: kv_cache_lru_list_remove_entry_def rd_def wr_def wr_if_def list_ok_def same_data_def Let_def last_of_def)
  next
    case (snoc as' p)
    with x as bs d l show ?thesis
      by (cases bs) (auto simp: kv_cache_lru_list_remove_entry_def rd_def wr_def wr_if_def list_ok_def same_data_def Let_def last_of_def)
  qed
qed


lemmas list_op_defs = rd_def wr_def wr_if_def list_ok_def same_data_def Let_def last_of_def

lemma add_to_head_ok:
  assumes "list_ok hp l xs" "hp x = Some e" "x \<notin> set xs"
  shows "\<exists>l' hp'. kv_cache_lru_list_add_to_head (Some l) hp x = Inr (Some l', hp') \<and> list_ok hp' l' (x # xs) \<and> same_data hp hp'"
  using assms by (cases xs) (auto simp: kv_cache_lru_list_add_to_head_def list_op_defs)

lemma remove_tail_ok:
  assumes "list_ok hp l (as @ [x])"
  shows "\<exists>l' hp'. kv_cache_lru_list_remove_tail (Some l) hp = Inr (Some x, Some l', hp') \<and> list_ok hp' l' as \<and> same_data hp hp'"
  using assms by (cases as rule: rev_cases) (auto simp: kv_cache_lru_list_remove_tail_def list_op_defs)

lemma remove_tail_empty:
  "list_ok hp l [] \<Longrightarrow> kv_cache_lru_list_remove_tail (Some l) hp = Inr (None, Some l, hp)"
  by (simp add: kv_cache_lru_list_remove_tail_def list_ok_def)

lemma move_to_head_ok:
  assumes "list_ok hp l (as @ x # bs)"
  shows "\<exists>l' hp'. kv_cache_lru_list_move_to_head (Some l) hp x = Inr (Some l', hp') \<and> list_ok hp' l' (x # as @ bs) \<and> same_data hp hp'"
proof (cases as)
  case Nil
  with assms show ?thesis by (simp add: kv_cache_lru_list_move_to_head_def list_ok_def)
next
  case (Cons y ys)
  obtain e where x: "hp x = Some e" "ce_prev e = last_of None as" "ce_next e = first_of bs None"
    and as: "dl hp None as (Some x)" and bs: "dl hp (Some x) bs None" and d: "distinct (as @ x # bs)"
    and l: "lru_head l = Some y" "lru_tail l = last_of None (as @ x # bs)" "lru_size l = of_nat (length as + length bs) + 1"
    using assms Cons by (auto simp: list_ok_def)
  show ?thesis
  proof (cases ys rule: rev_cases)
    case Nil
    with Cons x as bs d l show ?thesis
      by (cases bs) (auto simp: kv_cache_lru_list_move_to_head_def list_op_defs)
  next
    case (snoc zs p)
    with Cons x as bs d l show ?thesis
      by (cases bs) (auto simp: kv_cache_lru_list_move_to_head_def list_op_defs)
  qed
qed

end
