(* ===== verification/Cache_Inv.thy ===== *)
theory Cache_Inv
  imports Cache_List "HOL-Library.Multiset"
begin

text \<open>
  The invariant of a cache whose policy orders entries by the list or by a counter (LRU, FIFO, LFU, RANDOM): table,
  list and heap hold the same entries, every entry is in the bucket of its hash, keys are different. Each
  operation keeps it and never follows a freed pointer.
\<close>

section \<open>Invariant\<close>

abbreviation key_hash :: "string \<Rightarrow> 64 word" where
  "key_hash k \<equiv> kv_cache_hash_key k KV_CACHE_DEFAULT_HASH_SEED"

definition keyof :: "entry_heap \<Rightarrow> addr \<Rightarrow> string" where
  "keyof hp a = ce_key (the (hp a))"

definition bucket_of :: "kv_cache_hashtable \<Rightarrow> string \<Rightarrow> addr list" where
  "bucket_of t k = hbuckets t ! kv_cache_hash_to_bucket (key_hash k) (length (hbuckets t))"

definition entry_good :: "kv_cache_hashtable \<Rightarrow> addr \<Rightarrow> kv_cache_entry \<Rightarrow> bool" where
  "entry_good t a e \<longleftrightarrow> ce_key e \<noteq> [] \<and> ce_hash e = key_hash (ce_key e) \<and> a \<in> set (bucket_of t (ce_key e))"

definition store_ok :: "entry_heap \<Rightarrow> kv_cache_hashtable \<Rightarrow> kv_cache_lru_list \<Rightarrow> addr list \<Rightarrow> bool" where
  "store_ok hp t l xs \<longleftrightarrow>
     list_ok hp l xs \<and> dom hp = set xs \<and> ht_seed t = KV_CACHE_DEFAULT_HASH_SEED \<and> hbuckets t \<noteq> [] \<and>
     mset (concat (hbuckets t)) = mset xs \<and> distinct (map (keyof hp) xs) \<and> (\<forall>a e. hp a = Some e \<longrightarrow> entry_good t a e)"

lemma bucket_lt: "hbuckets t \<noteq> [] \<Longrightarrow> kv_cache_hash_to_bucket h (length (hbuckets t)) < length (hbuckets t)"
  by (simp add: kv_cache_hash_to_bucket_def)

lemma mset_concat_update:
  "i < length bs \<Longrightarrow> mset (concat (bs[i := b])) + mset (bs ! i) = mset (concat bs) + mset b"
proof (induction bs arbitrary: i)
  case (Cons c bs)
  then show ?case by (cases i) (auto simp: ac_simps)
qed simp

lemma mset_concat_insert: "i < length bs \<Longrightarrow> mset (concat (bs[i := a # bs ! i])) = add_mset a (mset (concat bs))"
  using mset_concat_update[of i bs "a # bs ! i"] by simp

lemma mset_concat_remove:
  assumes "i < length bs" "a \<in> set (bs ! i)"
  shows "mset (concat (bs[i := remove1 a (bs ! i)])) = mset (concat bs) - {#a#}"
proof -
  define R where "R = mset (remove1 a (bs ! i))"
  have "mset (bs ! i) = add_mset a R" using assms(2) by (simp add: R_def)
  with mset_concat_update[OF assms(1), of "remove1 a (bs ! i)"]
  have "mset (concat (bs[i := remove1 a (bs ! i)])) + add_mset a R = mset (concat bs) + R" by (simp only: R_def)
  then have "add_mset a (mset (concat (bs[i := remove1 a (bs ! i)]))) = mset (concat bs)" by simp
  then show ?thesis by (metis add_mset_remove_trivial)
qed

section \<open>The table\<close>

lemma keys_unique:
  assumes "store_ok hp t l xs" "hp a = Some e" "hp b = Some e'" "ce_key e = ce_key e'"
  shows "a = b"
proof -
  have "a \<in> set xs" "b \<in> set xs" using assms by (auto simp: store_ok_def)
  moreover have "inj_on (keyof hp) (set xs)" using assms(1) by (simp add: store_ok_def distinct_map)
  ultimately show ?thesis using assms(2-4) by (auto simp: inj_on_def keyof_def)
qed

lemma chain_find_spec:
  assumes "\<forall>a\<in>set as. hp a \<noteq> None"
  shows "chain_find hp hash key as = Inr (find (\<lambda>a. ce_hash (the (hp a)) = hash \<and> ce_key (the (hp a)) = key) as)"
  using assms by (induction as) (auto simp: rd_def)

lemma bucket_heap:
  assumes "store_ok hp t l xs" "i < length (hbuckets t)" "a \<in> set (hbuckets t ! i)"
  shows "a \<in> set xs \<and> hp a \<noteq> None"
proof -
  have "a \<in> set (concat (hbuckets t))" using assms(2,3) by auto
  then have "a \<in># mset xs" using assms(1) by (metis store_ok_def set_mset_mset)
  then show ?thesis using assms(1) by (auto simp: store_ok_def)
qed

lemma find_present:
  assumes ok: "store_ok hp t l xs" and a: "hp a = Some e"
  shows "kv_cache_hashtable_find (Some t) hp (ce_key e) = Inr (Some a)"
    and "chain_find hp (key_hash (ce_key e)) (ce_key e) (bucket_of t (ce_key e)) = Inr (Some a)"
proof -
  let ?i = "kv_cache_hash_to_bucket (key_hash (ce_key e)) (length (hbuckets t))"
  let ?P = "\<lambda>b. ce_hash (the (hp b)) = key_hash (ce_key e) \<and> ce_key (the (hp b)) = ce_key e"
  have good: "entry_good t a e" using ok a by (simp add: store_ok_def)
  have in_heap: "\<forall>b\<in>set (bucket_of t (ce_key e)). hp b \<noteq> None"
    using bucket_heap[OF ok bucket_lt] ok by (auto simp: bucket_of_def store_ok_def)
  have uniq: "b = a" if b: "b \<in> set (bucket_of t (ce_key e))" "?P b" for b
  proof -
    from in_heap b(1) obtain e' where "hp b = Some e'" by blast
    with b(2) keys_unique[OF ok _ a, of b e'] show ?thesis by simp
  qed
  have "find ?P (bucket_of t (ce_key e)) = Some a"
  proof (cases "find ?P (bucket_of t (ce_key e))")
    case None
    then have "\<not> ?P a" using good unfolding find_None_iff entry_good_def by blast
    with good a show ?thesis by (simp add: entry_good_def)
  next
    case (Some b)
    then have "b \<in> set (bucket_of t (ce_key e)) \<and> ?P b" by (auto simp: find_Some_iff)
    with uniq Some show ?thesis by simp
  qed
  with chain_find_spec[OF in_heap] show c: "chain_find hp (key_hash (ce_key e)) (ce_key e) (bucket_of t (ce_key e)) = Inr (Some a)" by simp
  then show "kv_cache_hashtable_find (Some t) hp (ce_key e) = Inr (Some a)"
    using good ok by (simp add: kv_cache_hashtable_find_def Let_def entry_good_def bucket_of_def store_ok_def)
qed

lemma find_absent:
  assumes ok: "store_ok hp t l xs" and k: "\<And>a e. hp a = Some e \<Longrightarrow> ce_key e \<noteq> k"
  shows "kv_cache_hashtable_find (Some t) hp k = Inr None"
    and "chain_find hp (key_hash k) k (bucket_of t k) = Inr None"
proof -
  have in_heap: "\<forall>b\<in>set (bucket_of t k). hp b \<noteq> None"
    using bucket_heap[OF ok bucket_lt] ok by (auto simp: bucket_of_def store_ok_def)
  have "find (\<lambda>b. ce_hash (the (hp b)) = key_hash k \<and> ce_key (the (hp b)) = k) (bucket_of t k) = None"
    using in_heap k by (fastforce simp: find_None_iff)
  with chain_find_spec[OF in_heap] show "chain_find hp (key_hash k) k (bucket_of t k) = Inr None" by simp
  then show "kv_cache_hashtable_find (Some t) hp k = Inr None"
    using ok by (simp add: kv_cache_hashtable_find_def Let_def bucket_of_def store_ok_def)
qed

lemma remove_present:
  assumes ok: "store_ok hp t l xs" and a: "hp a = Some e"
  shows "kv_cache_hashtable_remove (Some t) hp (ce_key e) =
    Inr (KV_SUCCESS, Some (t\<lparr>hbuckets := (hbuckets t)[kv_cache_hash_to_bucket (key_hash (ce_key e)) (length (hbuckets t)) :=
      remove1 a (bucket_of t (ce_key e))], ht_entry_count := ht_entry_count t - 1\<rparr>))"
  using find_present(2)[OF assms] assms
  by (auto simp: kv_cache_hashtable_remove_def Let_def bucket_of_def store_ok_def entry_good_def)


section \<open>Changes of the store\<close>

lemma bare_fields:
  assumes "bare e' = bare e"
  shows "ce_key e' = ce_key e" "ce_value e' = ce_value e" "ce_hash e' = ce_hash e" "create_time e' = create_time e" "ce_ttl e' = ce_ttl e"
    "frequency e' = frequency e"
  using assms by (cases e; cases e'; simp add: bare_def)+

lemma same_data_back:
  assumes "same_data hp hp'" "hp' a = Some e'"
  shows "\<exists>e. hp a = Some e \<and> bare e' = bare e"
proof -
  have "map_option bare (hp a) = Some (bare e')" using assms by (metis same_data_def option.simps(9))
  then show ?thesis by auto
qed

lemma same_data_keyof:
  assumes "same_data hp hp'" "hp a = Some e"
  shows "keyof hp' a = keyof hp a"
proof -
  obtain e' where "hp' a = Some e'" "bare e' = bare e" using same_dataD[OF assms] by blast
  with bare_fields(1)[of e' e] assms(2) show ?thesis by (simp add: keyof_def)
qed

lemma good_bare: "bare e' = bare e \<Longrightarrow> entry_good t a e' = entry_good t a e"
  using bare_fields[of e' e] by (simp add: entry_good_def)

lemma store_entry:
  assumes "store_ok hp t l xs" "a \<in> set xs"
  obtains e where "hp a = Some e" "entry_good t a e"
proof -
  have "a \<in> dom hp" using assms by (simp add: store_ok_def)
  then obtain e where "hp a = Some e" by blast
  with that[of e] assms(1) show thesis by (simp add: store_ok_def)
qed

lemma store_keyof:
  assumes "store_ok hp t l xs" "same_data hp hp'" "a \<in> set xs"
  shows "keyof hp' a = keyof hp a"
  using store_entry[OF assms(1,3)] same_data_keyof[OF assms(2)] by blast

text \<open>Relinking.\<close>

lemma store_relink:
  assumes ok: "store_ok hp t l xs" and l': "list_ok hp' l' ys" and sd: "same_data hp hp'" and m: "mset ys = mset xs"
  shows "store_ok hp' t l' ys"
proof -
  have "set ys = set xs" using m by (metis set_mset_mset)
  have m1: "map (keyof hp') ys = map (keyof hp) ys"
    using store_keyof[OF ok sd] \<open>set ys = set xs\<close> by simp
  have m2: "distinct (map (keyof hp) ys)"
    using ok m by (metis store_ok_def mset_map mset_eq_imp_distinct_iff)
  have "distinct (map (keyof hp') ys)" unfolding m1 by (rule m2)
  moreover have "entry_good t a e'" if "hp' a = Some e'" for a e'
  proof -
    from same_data_back[OF sd that] obtain e where "hp a = Some e" "bare e' = bare e" by blast
    with ok good_bare[of e' e t a] show ?thesis by (simp add: store_ok_def)
  qed
  ultimately show ?thesis using ok l' m same_data_dom[OF sd] \<open>set ys = set xs\<close> by (simp add: store_ok_def)
qed

text \<open>Changing the data of an entry but its key.\<close>

lemma store_update:
  assumes ok: "store_ok hp t l xs" and a: "hp a = Some e"
    and e': "ce_key e' = ce_key e" "ce_hash e' = ce_hash e" "ce_prev e' = ce_prev e" "ce_next e' = ce_next e"
  shows "store_ok (hp(a \<mapsto> e')) t l xs"
proof -
  have "a \<in> set xs" using ok a by (auto simp: store_ok_def)
  moreover have "keyof (hp(a \<mapsto> e')) = keyof hp" using a e'(1) by (auto simp: keyof_def fun_eq_iff)
  moreover have "entry_good t a e'" using ok a e' by (auto simp: store_ok_def entry_good_def)
  ultimately show ?thesis using ok list_ok_keep[of hp l xs a e e'] a e'(3,4) by (auto simp: store_ok_def)
qed

text \<open>Freeing an entry that has been taken off the list and out of its bucket.\<close>

lemma store_drop:
  assumes ok: "store_ok hp t l xs" and a: "hp a = Some e"
    and l': "list_ok hp' l' ys" and sd: "same_data hp hp'" and m: "mset ys = mset xs - {#a#}"
    and t': "hbuckets t' = (hbuckets t)[kv_cache_hash_to_bucket (key_hash (ce_key e)) (length (hbuckets t)) :=
      remove1 a (bucket_of t (ce_key e))]" "ht_seed t' = ht_seed t"
  shows "store_ok (hp'(a := None)) t' l' ys"
proof -
  let ?i = "kv_cache_hash_to_bucket (key_hash (ce_key e)) (length (hbuckets t))"
  have xs: "a \<in> set xs" "distinct xs" using ok a by (auto simp: store_ok_def list_ok_def)
  have ys: "set ys = set xs - {a}" using m xs by (metis mset_remove1 set_mset_mset set_remove1_eq)
  have good: "entry_good t a e" using ok a by (simp add: store_ok_def)
  have ne: "hbuckets t \<noteq> []" using ok by (simp add: store_ok_def)
  have len: "length (hbuckets t') = length (hbuckets t)" by (simp add: t')
  have bk: "bucket_of t' k = (if kv_cache_hash_to_bucket (key_hash k) (length (hbuckets t)) = ?i then remove1 a (bucket_of t k) else bucket_of t k)" for k
    using bucket_lt[OF ne] by (auto simp: bucket_of_def t' nth_list_update)
  have "entry_good t' b e'" if "(hp'(a := None)) b = Some e'" for b e'
  proof -
    from that have b: "b \<noteq> a" "hp' b = Some e'" by (auto split: if_splits)
    then obtain e0 where "hp b = Some e0" "bare e' = bare e0" using same_data_back[OF sd] by blast
    then have "entry_good t b e'" using ok good_bare[of e' e0 t b] by (simp add: store_ok_def)
    then show ?thesis using b(1) by (auto simp: entry_good_def bk)
  qed
  moreover have "mset (concat (hbuckets t')) = mset (concat (hbuckets t)) - {#a#}"
    unfolding t'(1) bucket_of_def
  proof (rule mset_concat_remove[OF bucket_lt[OF ne]])
    show "a \<in> set (hbuckets t ! ?i)" using good by (simp add: entry_good_def bucket_of_def)
  qed
  then have "mset (concat (hbuckets t')) = mset ys" using ok m by (simp add: store_ok_def)
  moreover have "distinct (map (keyof (hp'(a := None))) ys)"
  proof -
    have "distinct ys" using l' by (simp add: list_ok_def)
    moreover have "keyof (hp'(a := None)) b = keyof hp b" if "b \<in> set ys" for b
      using store_keyof[OF ok sd, of b] that ys by (auto simp: keyof_def)
    moreover have "inj_on (keyof hp) (set ys)" using ok ys by (auto simp: store_ok_def distinct_map inj_on_def)
    ultimately show ?thesis by (simp add: distinct_map cong: inj_on_cong)
  qed
  moreover have "hbuckets t' \<noteq> []" "dom (hp'(a := None)) = set ys"
    using len ne same_data_dom[OF sd] ok ys by (auto simp: store_ok_def)
  moreover have "list_ok (hp'(a := None)) l' ys" using l' ys list_ok_free by auto
  ultimately show ?thesis using ok t'(2) by (simp add: store_ok_def)
qed


text \<open>A new entry.\<close>

lemma store_insert:
  assumes ok: "store_ok hp t l xs" and a: "a \<notin> set xs" and k: "\<And>b x. hp b = Some x \<Longrightarrow> ce_key x \<noteq> ce_key e"
    and e: "ce_key e \<noteq> []" "ce_hash e = key_hash (ce_key e)"
  shows "\<exists>t' l' hp'. kv_cache_hashtable_insert (Some t) (hp(a \<mapsto> e)) a = Inr (KV_SUCCESS, Some t') \<and>
    ht_entry_count t' = ht_entry_count t + 1 \<and> kv_cache_lru_list_add_to_head (Some l) (hp(a \<mapsto> e)) a = Inr (Some l', hp') \<and>
    store_ok hp' t' l' (a # xs) \<and> same_data (hp(a \<mapsto> e)) hp'"
proof -
  let ?hp = "hp(a \<mapsto> e)"
  let ?i = "kv_cache_hash_to_bucket (ce_hash e) (length (hbuckets t))"
  let ?t = "t\<lparr>hbuckets := (hbuckets t)[?i := a # hbuckets t ! ?i], ht_entry_count := ht_entry_count t + 1\<rparr>"
  have ne: "hbuckets t \<noteq> []" using ok by (simp add: store_ok_def)
  have not_in: "a \<notin> set (bucket_of t (ce_key e))" using bucket_heap[OF ok bucket_lt[OF ne]] a by (auto simp: bucket_of_def)
  have chain: "chain_find ?hp hash key bs = chain_find hp hash key bs" if "a \<notin> set bs" for hash key bs
    using that by (induction bs) (auto simp: rd_def split: option.split)
  have ins: "kv_cache_hashtable_insert (Some t) ?hp a = Inr (KV_SUCCESS, Some ?t)"
    using chain[OF not_in] find_absent(2)[OF ok k] e(2) by (simp add: kv_cache_hashtable_insert_def rd_def bucket_of_def Let_def)
  have l: "list_ok ?hp l xs" using ok a list_ok_free by (simp add: store_ok_def)
  from add_to_head_ok[OF l _ a, of e] obtain l' hp' where l': "kv_cache_lru_list_add_to_head (Some l) ?hp a = Inr (Some l', hp')"
    "list_ok hp' l' (a # xs)" "same_data ?hp hp'" by auto
  have bk: "set (bucket_of t key) \<subseteq> set (bucket_of ?t key)" "a \<in> set (bucket_of ?t (ce_key e))" for key
    using bucket_lt[OF ne] e(2) by (auto simp: bucket_of_def nth_list_update)
  have good: "entry_good ?t b x" if "?hp b = Some x" for b x
  proof (cases "b = a")
    case True
    with that e bk(2) show ?thesis by (simp add: entry_good_def)
  next
    case False
    with that ok have "entry_good t b x" by (simp add: store_ok_def)
    then show ?thesis using bk(1) by (auto simp: entry_good_def)
  qed
  have "entry_good ?t b x'" if "hp' b = Some x'" for b x'
  proof -
    from same_data_back[OF l'(3) that] obtain x where "?hp b = Some x" "bare x' = bare x" by blast
    with good[of b x] good_bare[of x' x ?t b] show ?thesis by simp
  qed
  moreover have "mset (concat (hbuckets ?t)) = mset (a # xs)"
    using mset_concat_insert[of ?i "hbuckets t" a] bucket_lt[OF ne] ok by (simp add: store_ok_def)
  moreover have "distinct (map (keyof hp') (a # xs))"
  proof -
    have "keyof hp' b = keyof hp b" if "b \<in> set xs" for b
    proof -
      from store_entry[OF ok that] obtain x where "hp b = Some x" .
      moreover have "b \<noteq> a" using that a by auto
      ultimately show ?thesis using same_data_keyof[OF l'(3), of b x] by (simp add: keyof_def)
    qed
    moreover have "keyof hp' a = ce_key e" using same_data_keyof[OF l'(3), of a e] by (simp add: keyof_def)
    moreover have "ce_key e \<notin> keyof hp ` set xs"
    proof
      assume "ce_key e \<in> keyof hp ` set xs"
      then obtain b where b: "b \<in> set xs" "keyof hp b = ce_key e" by auto
      from store_entry[OF ok b(1)] obtain x where "hp b = Some x" .
      with b(2) k[of b x] show False by (simp add: keyof_def)
    qed
    moreover have "distinct (map (keyof hp) xs)" using ok by (simp add: store_ok_def)
    ultimately show ?thesis by (auto simp: distinct_map inj_on_def)
  qed
  moreover have "dom hp' = set (a # xs)" using same_data_dom[OF l'(3)] ok by (simp add: store_ok_def)
  ultimately have "store_ok hp' ?t l' (a # xs)" using l'(2) ok ne by (simp add: store_ok_def)
  with ins l' show ?thesis by (intro exI[of _ ?t] exI[of _ l'] exI[of _ hp']) simp
qed

end
