(* ===== verification/Cache_Refine.thy ===== *)
theory Cache_Refine
  imports Cache_Inv
begin

text \<open>
  What the cache does, as operations on the list of its entries in the order of the linked list, and the proof that
  the operations on table, list and heap do that, for the policies that keep their entries by that list or
  by a counter in the entry (LRU, FIFO, LFU).
\<close>

section \<open>Specification\<close>

definition lookup :: "string \<Rightarrow> kv_cache_entry list \<Rightarrow> kv_cache_entry option" where
  "lookup k es = find (\<lambda>e. ce_key e = k) es"

definition without :: "string \<Rightarrow> kv_cache_entry list \<Rightarrow> kv_cache_entry list" where
  "without k es = filter (\<lambda>e. ce_key e \<noteq> k) es"

definition modify_key :: "string \<Rightarrow> (kv_cache_entry \<Rightarrow> kv_cache_entry) \<Rightarrow> kv_cache_entry list \<Rightarrow> kv_cache_entry list" where
  "modify_key k f es = map (\<lambda>e. if ce_key e = k then f e else e) es"

definition bump :: "64 word \<Rightarrow> kv_cache_entry \<Rightarrow> kv_cache_entry" where
  "bump now e =
     (let f1 = (if now > frequency_time e + 3600000000
                then (let f = (frequency e + 1) div 2 in if f = 0 then 1 else f) else frequency e) in
      e\<lparr>frequency := f1 + 1, frequency_time := now\<rparr>)"

definition spec_touch :: "kv_cache_policy \<Rightarrow> 64 word \<Rightarrow> string \<Rightarrow> kv_cache_entry list \<Rightarrow> kv_cache_entry list" where
  "spec_touch p ftime k es =
     (case p of
        KV_CACHE_POLICY_LRU \<Rightarrow> (case lookup k es of None \<Rightarrow> es | Some e \<Rightarrow> e # without k es)
      | KV_CACHE_POLICY_LFU \<Rightarrow> modify_key k (bump ftime) es
      | _ \<Rightarrow> es)"

definition spec_get :: "kv_cache_policy \<Rightarrow> readings \<Rightarrow> string \<Rightarrow> kv_cache_entry list \<Rightarrow> int \<times> string option \<times> kv_cache_entry list" where
  "spec_get p = (\<lambda>(start, now, ftime, fin) k es.
     (case lookup k es of
        None \<Rightarrow> (KV_ERR_KEY_NOT_FOUND, None, es)
      | Some e \<Rightarrow>
          if kv_cache_is_expired e now then (KV_ERR_KEY_NOT_FOUND, None, es)
          else (KV_SUCCESS, Some (ce_value e), spec_touch p ftime k (modify_key k (\<lambda>e. e\<lparr>access_time := now\<rparr>) es))))"

text \<open>Which entry goes, and what is left when \<open>n\<close> have gone: an entry is least recently or first in when it is last in the list. The search of LFU
  passes over entries whose counter is at its maximum.\<close>

definition victim :: "kv_cache_policy \<Rightarrow> kv_cache_entry list \<Rightarrow> kv_cache_entry \<Rightarrow> bool" where
  "victim p es e \<longleftrightarrow> e \<in> set es \<and> (if p = KV_CACHE_POLICY_LFU then \<forall>x\<in>set es. frequency e \<le> frequency x else e = last es)"

inductive evicted :: "kv_cache_policy \<Rightarrow> nat \<Rightarrow> kv_cache_entry list \<Rightarrow> kv_cache_entry list \<Rightarrow> bool" for p where
  evicted_0: "evicted p 0 es es"
| evicted_Nil: "evicted p (Suc n) [] []"
| evicted_stuck: "p = KV_CACHE_POLICY_LFU \<Longrightarrow> \<forall>e\<in>set es. frequency e = - 1 \<Longrightarrow> evicted p (Suc n) es es"
| evicted_Suc: "victim p es e \<Longrightarrow> evicted p n (without (ce_key e) es) es' \<Longrightarrow> evicted p (Suc n) es es'"

definition spec_store :: "kv_cache_policy \<Rightarrow> 8 word \<Rightarrow> 64 word \<Rightarrow> 64 word \<Rightarrow> string \<Rightarrow> string \<Rightarrow> 64 word \<Rightarrow> kv_cache_entry list \<Rightarrow> kv_cache_entry list" where
  "spec_store p junk now ftime k v ttl es =
     (case lookup k es of
        Some e \<Rightarrow> spec_touch p ftime k
          (modify_key k (\<lambda>e. e\<lparr>ce_value := v, update_time := now, access_time := now, ce_ttl := ttl\<rparr>) es)
      | None \<Rightarrow> \<lparr>ce_key = k, ce_value = v, ce_hash = key_hash k, create_time = now, access_time = now, update_time = now, ce_ttl = ttl,
          ce_prev = None, ce_next = None, frequency = 1, frequency_time = now, reference_bit = junk, arc_list_type = junk\<rparr> # es)"

section \<open>Abstraction\<close>

definition ents :: "entry_heap \<Rightarrow> addr list \<Rightarrow> kv_cache_entry list" where
  "ents hp xs = map (\<lambda>a. bare (the (hp a))) xs"

definition plain :: "kv_cache_policy \<Rightarrow> bool" where
  "plain p \<longleftrightarrow> p \<in> {KV_CACHE_POLICY_LRU, KV_CACHE_POLICY_FIFO, KV_CACHE_POLICY_LFU}"

definition cache_inv :: "kv_cache \<Rightarrow> addr list \<Rightarrow> bool" where
  "cache_inv c xs \<longleftrightarrow>
     (\<exists>t l. chashtable c = Some t \<and> clru c = Some l \<and> store_ok (cheap c) t l xs) \<and>
     current_entries (cstats c) = of_nat (length xs) \<and> (\<forall>a\<in>set xs. a < cnext c) \<and> plain (cache_policy (cconfig c))"

definition cache_rel :: "kv_cache \<Rightarrow> kv_cache_entry list \<Rightarrow> bool" where
  "cache_rel c es \<longleftrightarrow> (\<exists>xs. cache_inv c xs \<and> es = ents (cheap c) xs)"

lemma bare_sel [simp]:
  "ce_key (bare e) = ce_key e" "ce_value (bare e) = ce_value e" "ce_hash (bare e) = ce_hash e" "ce_ttl (bare e) = ce_ttl e"
  "create_time (bare e) = create_time e" "frequency (bare e) = frequency e" "frequency_time (bare e) = frequency_time e"
  "kv_cache_is_expired (bare e) now = kv_cache_is_expired e now" "bare (bare e) = bare e"
  by (simp_all add: bare_def kv_cache_is_expired_def)

lemma cache_ents_simps [simp]: "ents hp [] = []" "ents hp (x # xs) = bare (the (hp x)) # ents hp xs" "ents hp (xs @ ys) = ents hp xs @ ents hp ys"
    "length (ents hp xs) = length xs"
  by (simp_all add: ents_def)

lemma ents_relink: "same_data hp hp' \<Longrightarrow> set xs \<subseteq> dom hp \<Longrightarrow> ents hp' xs = ents hp xs"
  unfolding ents_def
proof (rule map_cong[OF refl])
  fix a assume sd: "same_data hp hp'" and "set xs \<subseteq> dom hp" "a \<in> set xs"
  then obtain e where "hp a = Some e" by blast
  with same_dataD[OF sd this] show "bare (the (hp' a)) = bare (the (hp a))" by auto
qed

lemma ents_upd [simp]: "a \<notin> set xs \<Longrightarrow> ents (hp(a := e)) xs = ents hp xs"
  by (auto simp: ents_def)

lemma keys_ents: "map ce_key (ents hp xs) = map (keyof hp) xs"
  by (simp add: ents_def keyof_def)

text \<open>The place of a key in the list.\<close>

lemma lookup_append: "lookup k (as @ bs) = (case lookup k as of None \<Rightarrow> lookup k bs | Some e \<Rightarrow> Some e)"
  by (induction as) (simp_all add: lookup_def)

lemma rel_split:
  assumes ok: "store_ok hp t l xs" and a: "hp a = Some e"
  obtains as bs where "xs = as @ a # bs" "a \<notin> set as" "a \<notin> set bs"
    "without (ce_key e) (ents hp xs) = ents hp as @ ents hp bs" "lookup (ce_key e) (ents hp xs) = Some (bare e)"
    "\<And>f. modify_key (ce_key e) f (ents hp xs) = ents hp as @ f (bare e) # ents hp bs"
proof -
  have "a \<in> set xs" using ok a by (auto simp: store_ok_def)
  then obtain as bs where xs: "xs = as @ a # bs" by (meson split_list)
  have d: "distinct xs" "distinct (map ce_key (ents hp xs))" using ok by (simp_all add: store_ok_def list_ok_def keys_ents)
  have k: "ce_key x \<noteq> ce_key e" if "x \<in> set (ents hp as) \<union> set (ents hp bs)" for x
    using d(2) that a unfolding xs by (auto simp: image_iff)
  have fs: "filter (\<lambda>x. ce_key x \<noteq> ce_key e) (ents hp as) = ents hp as" "filter (\<lambda>x. ce_key x \<noteq> ce_key e) (ents hp bs) = ents hp bs"
    "map (\<lambda>x. if ce_key x = ce_key e then f x else x) (ents hp as) = ents hp as"
    "map (\<lambda>x. if ce_key x = ce_key e then f x else x) (ents hp bs) = ents hp bs" for f
    using k by (auto simp: filter_id_conv map_idI)
  have "lookup (ce_key e) (ents hp as) = None" using k by (auto simp: lookup_def find_None_iff)
  then have "lookup (ce_key e) (ents hp xs) = Some (bare e)" using a by (simp add: xs lookup_append) (simp add: lookup_def)
  with that[of as bs] xs d(1) fs a show thesis by (auto simp: without_def modify_key_def)
qed

lemma lookup_None:
  assumes ok: "store_ok hp t l xs" and k: "lookup k (ents hp xs) = None" and a: "hp a = Some e"
  shows "ce_key e \<noteq> k"
proof -
  have "a \<in> set xs" using ok a by (auto simp: store_ok_def)
  then have "bare e \<in> set (ents hp xs)" using a by (force simp: ents_def)
  with k show ?thesis by (auto simp: lookup_def find_None_iff)
qed

lemma lookup_Some:
  assumes ok: "store_ok hp t l xs" and k: "lookup k (ents hp xs) = Some e'"
  obtains a e where "hp a = Some e" "ce_key e = k" "e' = bare e"
proof -
  from k have "e' \<in> set (ents hp xs)" "ce_key e' = k" by (auto simp: lookup_def find_Some_iff)
  then obtain a where a: "a \<in> set xs" "e' = bare (the (hp a))" by (auto simp: ents_def)
  from store_entry[OF ok a(1)] obtain e where "hp a = Some e" .
  with that[of a e] a(2) \<open>ce_key e' = k\<close> show thesis by simp
qed


section \<open>Using an entry\<close>

definition integral :: "kv_cache \<Rightarrow> bool" where
  "integral c \<longleftrightarrow> (case chashtable c of None \<Rightarrow> False | Some t \<Rightarrow> ht_entry_count t = current_entries (cstats c))"

lemma integral_upd [simp]:
  "integral (c\<lparr>cheap := x\<rparr>) = integral c" "integral (c\<lparr>clru := l\<rparr>) = integral c" "integral (c\<lparr>cfreq := fm\<rparr>) = integral c"
  "integral (c\<lparr>cnext := n\<rparr>) = integral c" "integral (c\<lparr>cstate := st\<rparr>) = integral c"
  by (cases "chashtable c"; simp add: integral_def)+

lemma integral_stats [simp]: "current_entries s = current_entries (cstats c) \<Longrightarrow> integral (c\<lparr>cstats := s\<rparr>) = integral c"
  by (cases "chashtable c") (simp_all add: integral_def)

definition frame :: "kv_cache \<Rightarrow> kv_cache \<Rightarrow> bool" where
  "frame c c' \<longleftrightarrow> cconfig c' = cconfig c \<and> cstate c' = cstate c \<and> (integral c \<longrightarrow> integral c')"

lemma frame_refl [simp]: "frame c c"
  by (simp add: frame_def)

lemma frame_trans [trans]: "frame c1 c2 \<Longrightarrow> frame c2 c3 \<Longrightarrow> frame c1 c3"
  by (simp add: frame_def)

lemma inv_parts:
  assumes "cache_inv c xs"
  obtains t l where "chashtable c = Some t" "clru c = Some l" "store_ok (cheap c) t l xs"
  using assms by (auto simp: cache_inv_def)

text \<open>Changing the data of an entry.\<close>

lemma inv_update:
  assumes inv: "cache_inv c xs" and a: "cheap c a = Some e"
    and e': "ce_key e' = ce_key e" "ce_hash e' = ce_hash e" "ce_prev e' = ce_prev e" "ce_next e' = ce_next e" "bare e' = f (bare e)"
  shows "cache_inv (c\<lparr>cheap := (cheap c)(a \<mapsto> e')\<rparr>) xs"
    and "ents ((cheap c)(a \<mapsto> e')) xs = modify_key (ce_key e) f (ents (cheap c) xs)"
proof -
  from inv obtain t l where tl: "chashtable c = Some t" "clru c = Some l" "store_ok (cheap c) t l xs" by (rule inv_parts)
  from store_update[OF tl(3) a e'(1-4)] tl inv show "cache_inv (c\<lparr>cheap := (cheap c)(a \<mapsto> e')\<rparr>) xs" by (simp add: cache_inv_def)
  from tl(3) a obtain as bs where "xs = as @ a # bs" "a \<notin> set as" "a \<notin> set bs"
    "\<And>f. modify_key (ce_key e) f (ents (cheap c) xs) = ents (cheap c) as @ f (bare e) # ents (cheap c) bs"
    by (rule rel_split) blast
  then show "ents ((cheap c)(a \<mapsto> e')) xs = modify_key (ce_key e) f (ents (cheap c) xs)" using e'(5) by simp
qed

lemma inv_relink:
  assumes inv: "cache_inv c xs" and l': "list_ok hp' l' ys" "same_data (cheap c) hp'" "mset ys = mset xs"
  shows "cache_inv (c\<lparr>clru := Some l', cheap := hp'\<rparr>) ys"
proof -
  from inv obtain t l where tl: "chashtable c = Some t" "clru c = Some l" "store_ok (cheap c) t l xs" by (rule inv_parts)
  from store_relink[OF tl(3) l'] tl(1) inv mset_eq_length[OF l'(3)] mset_eq_setD[OF l'(3)] show ?thesis
    by (simp add: cache_inv_def)
qed

lemma bump_ok:
  assumes "cheap c a = Some e"
  shows "\<exists>fm. kv_cache_frequency_manager_increment (cfreq c) (cheap c) a now = Inr (fm, (cheap c)(a \<mapsto> bump now e))"
  using assms by (simp add: kv_cache_frequency_manager_increment_def rd_def bump_def Let_def)

lemma bump_sel [simp]:
  "ce_key (bump now e) = ce_key e" "ce_hash (bump now e) = ce_hash e" "ce_prev (bump now e) = ce_prev e" "ce_next (bump now e) = ce_next e"
  "bare (bump now e) = bump now (bare e)"
  by (simp_all add: bump_def Let_def bare_def)

lemma touch_ok:
  assumes inv: "cache_inv c xs" and a: "cheap c a = Some e"
  shows "\<exists>c' ys. touch c a ftime = Inr c' \<and> cache_inv c' ys \<and> frame c c' \<and> cstats c' = cstats c \<and>
    ents (cheap c') ys = spec_touch (cache_policy (cconfig c)) ftime (ce_key e) (ents (cheap c) xs)"
proof -
  from inv obtain t l where tl: "chashtable c = Some t" "clru c = Some l" "store_ok (cheap c) t l xs" by (rule inv_parts)
  from inv consider (lru) "cache_policy (cconfig c) = KV_CACHE_POLICY_LRU" | (fifo) "cache_policy (cconfig c) = KV_CACHE_POLICY_FIFO"
    | (lfu) "cache_policy (cconfig c) = KV_CACHE_POLICY_LFU" by (auto simp: cache_inv_def plain_def)
  then show ?thesis
  proof cases
    case lru
    from tl(3) a obtain as bs where s: "xs = as @ a # bs" "without (ce_key e) (ents (cheap c) xs) = ents (cheap c) as @ ents (cheap c) bs"
      "lookup (ce_key e) (ents (cheap c) xs) = Some (bare e)" by (rule rel_split) blast
    from tl(3) s(1) obtain l' hp' where m: "kv_cache_lru_list_move_to_head (Some l) (cheap c) a = Inr (Some l', hp')"
      "list_ok hp' l' (a # as @ bs)" "same_data (cheap c) hp'"
      using move_to_head_ok[of "cheap c" l as a bs] by (auto simp: store_ok_def)
    have "set (a # as @ bs) \<subseteq> dom (cheap c)" using tl(3) s(1) by (auto simp: store_ok_def)
    from ents_relink[OF m(3) this] have "ents hp' (a # as @ bs) = bare e # ents (cheap c) as @ ents (cheap c) bs" using a by simp
    with inv_relink[OF inv m(2,3)] s m(1) tl lru show ?thesis
      by (intro exI[of _ "c\<lparr>clru := Some l', cheap := hp'\<rparr>"] exI[of _ "a # as @ bs"])
        (simp add: touch_def spec_touch_def frame_def)
  next
    case lfu
    from bump_ok[OF a] obtain fm where fm:
      "kv_cache_frequency_manager_increment (cfreq c) (cheap c) a ftime = Inr (fm, (cheap c)(a \<mapsto> bump ftime e))" by blast
    let ?c = "c\<lparr>cheap := (cheap c)(a \<mapsto> bump ftime e)\<rparr>"
    have "cache_inv ?c xs" "ents (cheap ?c) xs = modify_key (ce_key e) (bump ftime) (ents (cheap c) xs)"
      using inv_update[OF inv a, of "bump ftime e" "bump ftime"] by simp_all
    then have "cache_inv (?c\<lparr>cfreq := fm\<rparr>) xs" "ents (cheap (?c\<lparr>cfreq := fm\<rparr>)) xs = spec_touch KV_CACHE_POLICY_LFU ftime (ce_key e) (ents (cheap c) xs)"
      by (simp_all add: cache_inv_def spec_touch_def)
    with fm lfu show ?thesis
      by (intro exI[of _ "?c\<lparr>cfreq := fm\<rparr>"] exI[of _ xs]) (simp add: touch_def frame_def)
  next
    case fifo
    with inv show ?thesis by (intro exI[of _ c] exI[of _ xs]) (simp add: touch_def spec_touch_def)
  qed
qed

lemma get_locked_ok:
  assumes inv: "cache_inv c xs"
  shows "\<exists>c' ys r v es'. spec_get (cache_policy (cconfig c)) ts k (ents (cheap c) xs) = (r, v, es') \<and>
    get_locked c [] ts k = Inr (r, v, c', []) \<and> cache_inv c' ys \<and> frame c c' \<and> ents (cheap c') ys = es' \<and> cstats c' = cstats c"
proof -
  obtain start now ftime fin where ts: "ts = (start, now, ftime, fin)" by (cases ts)
  from inv obtain t l where tl: "chashtable c = Some t" "clru c = Some l" "store_ok (cheap c) t l xs" by (rule inv_parts)
  show ?thesis
  proof (cases "lookup k (ents (cheap c) xs)")
    case None
    with find_absent(1)[OF tl(3)] lookup_None[OF tl(3) None] inv tl show ?thesis
      by (intro exI[of _ c] exI[of _ xs]) (simp add: get_locked_def spec_get_def ts)
  next
    case (Some e')
    with tl(3) obtain a e where a: "cheap c a = Some e" "ce_key e = k" "e' = bare e" by (rule lookup_Some)
    have f: "kv_cache_hashtable_find (chashtable c) (cheap c) k = Inr (Some a)" using find_present(1)[OF tl(3) a(1)] tl(1) a(2) by simp
    let ?e = "e\<lparr>access_time := now\<rparr>"
    let ?c = "c\<lparr>cheap := (cheap c)(a \<mapsto> ?e)\<rparr>"
    have u: "cache_inv ?c xs" "ents (cheap ?c) xs = modify_key k (\<lambda>e. e\<lparr>access_time := now\<rparr>) (ents (cheap c) xs)"
      using inv_update[OF inv a(1), of ?e "\<lambda>e. e\<lparr>access_time := now\<rparr>"] a(2) by (simp_all add: bare_def)
    obtain c' ys where "touch ?c a ftime = Inr c'" "cache_inv c' ys" "frame ?c c'" "cstats c' = cstats ?c"
      "ents (cheap c') ys = spec_touch (cache_policy (cconfig ?c)) ftime (ce_key ?e) (ents (cheap ?c) xs)"
      using touch_ok[OF u(1), of a ?e ftime] by auto
    with Some a f inv u(2) show ?thesis
      by (cases "kv_cache_is_expired e now")
        (auto simp: get_locked_def spec_get_def ts rd_def frame_def)
  qed
qed


section \<open>Removing an entry\<close>

text \<open>What deletion and eviction share: the entry leaves the list and its bucket and is freed.\<close>

lemma drop_ok:
  assumes inv: "cache_inv c (as @ a # bs)" and a: "cheap c a = Some e"
    and l': "list_ok hp' l' (as @ bs)" "same_data (cheap c) hp'" and t: "chashtable c = Some t"
  obtains t' where
    "kv_cache_hashtable_remove (Some t) (cheap c) (ce_key e) = Inr (KV_SUCCESS, Some t')" "ht_entry_count t' = ht_entry_count t - 1"
    "kv_cache_entry_destroy hp' a = Inr (hp'(a := None))"
    "ents (hp'(a := None)) (as @ bs) = without (ce_key e) (ents (cheap c) (as @ a # bs))"
    "\<And>c'. chashtable c' = Some t' \<Longrightarrow> clru c' = Some l' \<Longrightarrow> cheap c' = hp'(a := None) \<Longrightarrow> cnext c' = cnext c \<Longrightarrow> cconfig c' = cconfig c \<Longrightarrow>
      current_entries (cstats c') = current_entries (cstats c) - 1 \<Longrightarrow> cache_inv c' (as @ bs)"
proof -
  from inv t obtain l where tl: "clru c = Some l" "store_ok (cheap c) t l (as @ a # bs)" by (auto simp: cache_inv_def)
  let ?t = "t\<lparr>hbuckets := (hbuckets t)[kv_cache_hash_to_bucket (key_hash (ce_key e)) (length (hbuckets t)) :=
      remove1 a (bucket_of t (ce_key e))], ht_entry_count := ht_entry_count t - 1\<rparr>"
  have d: "a \<notin> set as" "a \<notin> set bs" using tl(2) by (simp_all add: store_ok_def list_ok_def)
  have st: "store_ok (hp'(a := None)) ?t l' (as @ bs)" by (rule store_drop[OF tl(2) a l']) simp_all
  have sub: "set (as @ bs) \<subseteq> dom (cheap c)" using tl(2) by (auto simp: store_ok_def)
  from tl(2) a obtain as' bs' where s: "as @ a # bs = as' @ a # bs'" "a \<notin> set as'" "a \<notin> set bs'"
    "without (ce_key e) (ents (cheap c) (as @ a # bs)) = ents (cheap c) as' @ ents (cheap c) bs'" by (rule rel_split) blast
  from s(1-3) d have "as' = as" "bs' = bs" by (auto simp: append_eq_append_conv2 append_eq_Cons_conv Cons_eq_append_conv)
  with s(4) have w: "without (ce_key e) (ents (cheap c) (as @ a # bs)) = ents (cheap c) (as @ bs)" by simp
  have de: "ents (hp'(a := None)) (as @ bs) = ents (cheap c) (as @ bs)" using d ents_relink[OF l'(2) sub] by simp
  obtain e' where "hp' a = Some e'" using same_dataD[OF l'(2) a] by blast
  then have "kv_cache_entry_destroy hp' a = Inr (hp'(a := None))" by (simp add: kv_cache_entry_destroy_def)
  moreover have "cache_inv c' (as @ bs)" if "chashtable c' = Some ?t" "clru c' = Some l'" "cheap c' = hp'(a := None)" "cnext c' = cnext c"
    "cconfig c' = cconfig c" "current_entries (cstats c') = current_entries (cstats c) - 1" for c'
    using that st inv by (auto simp: cache_inv_def)
  ultimately show thesis using that[of ?t] remove_present[OF tl(2) a] w de by simp
qed

lemma cache_delete_ok:
  assumes inv: "cache_inv c xs"
  shows "cstate c = KV_CACHE_STATE_RUNNING \<Longrightarrow> k \<noteq> [] \<Longrightarrow> int (length k) \<le> KV_CACHE_MAX_KEY_LENGTH \<Longrightarrow>
    \<exists>c' ys. kv_cache_delete c k =
      Inr (if lookup k (ents (cheap c) xs) = None then KV_ERR_KEY_NOT_FOUND else KV_SUCCESS, c') \<and>
    cache_inv c' ys \<and> frame c c' \<and> ents (cheap c') ys = without k (ents (cheap c) xs)"
proof -
  assume g: "cstate c = KV_CACHE_STATE_RUNNING" "k \<noteq> []" "int (length k) \<le> KV_CACHE_MAX_KEY_LENGTH"
  from inv obtain t l where tl: "chashtable c = Some t" "clru c = Some l" "store_ok (cheap c) t l xs" by (rule inv_parts)
  show ?thesis
  proof (cases "lookup k (ents (cheap c) xs)")
    case None
    then have "without k (ents (cheap c) xs) = ents (cheap c) xs" by (auto simp: without_def lookup_def find_None_iff filter_id_conv)
    with find_absent(1)[OF tl(3) lookup_None[OF tl(3) None]] None g tl inv show ?thesis
      by (intro exI[of _ c] exI[of _ xs]) (simp add: kv_cache_delete_def)
  next
    case (Some e')
    with tl(3) obtain a e where a: "cheap c a = Some e" "ce_key e = k" by (rule lookup_Some)
    from tl(3) a(1) obtain as bs where xs: "xs = as @ a # bs" by (rule rel_split)
    obtain l' hp' where r: "kv_cache_lru_list_remove_entry (Some l) (cheap c) a = Inr (Some l', hp')" "list_ok hp' l' (as @ bs)" "same_data (cheap c) hp'"
      using remove_entry_ok[of "cheap c" l as a bs] tl(3) xs by (auto simp: store_ok_def)
    obtain t' where d:
      "kv_cache_hashtable_remove (Some t) (cheap c) (ce_key e) = Inr (KV_SUCCESS, Some t')" "ht_entry_count t' = ht_entry_count t - 1"
      "kv_cache_entry_destroy hp' a = Inr (hp'(a := None))" "ents (hp'(a := None)) (as @ bs) = without (ce_key e) (ents (cheap c) (as @ a # bs))"
      "\<And>c'. chashtable c' = Some t' \<Longrightarrow> clru c' = Some l' \<Longrightarrow> cheap c' = hp'(a := None) \<Longrightarrow> cnext c' = cnext c \<Longrightarrow> cconfig c' = cconfig c \<Longrightarrow>
        current_entries (cstats c') = current_entries (cstats c) - 1 \<Longrightarrow> cache_inv c' (as @ bs)"
      by (rule drop_ok[OF inv[unfolded xs] a(1) r(2,3) tl(1)]) blast
    let ?c = "c\<lparr>chashtable := Some t', clru := Some l', cheap := hp'(a := None),
      cstats := (cstats c)\<lparr>current_entries := current_entries (cstats c) - 1, delete_count := delete_count (cstats c) + 1\<rparr>\<rparr>"
    have "kv_cache_delete c k = Inr (KV_SUCCESS, ?c)"
      using g find_present(1)[OF tl(3) a(1)] a(2) tl d(1,3) r(1) by (simp add: kv_cache_delete_def)
    moreover have "cache_inv ?c (as @ bs)" by (rule d(5)) simp_all
    moreover have "frame c ?c" using d(2) tl(1) by (simp add: frame_def integral_def)
    ultimately show ?thesis using d(4) a(2) Some xs by (intro exI[of _ ?c] exI[of _ "as @ bs"]) simp
  qed
qed


section \<open>Eviction\<close>

lemma min_freq_spec:
  assumes "\<forall>a\<in>set as. hp a \<noteq> None"
  shows "\<exists>r. min_freq hp as m best = Inr r \<and>
    (r = best \<and> (\<forall>a\<in>set as. m \<le> frequency (the (hp a))) \<or>
     (\<exists>a\<in>set as. r = Some a \<and> frequency (the (hp a)) < m \<and> (\<forall>b\<in>set as. frequency (the (hp a)) \<le> frequency (the (hp b)))))"
  using assms
proof (induction as arbitrary: m best)
  case (Cons a as)
  then obtain e where e: "hp a = Some e" by auto
  show ?case
  proof (cases "frequency e < m")
    case True
    from Cons.IH[of "frequency e" "Some a"] Cons.prems obtain r where r: "min_freq hp as (frequency e) (Some a) = Inr r"
      "r = Some a \<and> (\<forall>b\<in>set as. frequency e \<le> frequency (the (hp b))) \<or>
       (\<exists>b\<in>set as. r = Some b \<and> frequency (the (hp b)) < frequency e \<and> (\<forall>x\<in>set as. frequency (the (hp b)) \<le> frequency (the (hp x))))" by auto
    from r(2) show ?thesis using r(1) e True by (fastforce simp: rd_def)
  next
    case False
    from Cons.IH[of m best] Cons.prems obtain r where r: "min_freq hp as m best = Inr r"
      "r = best \<and> (\<forall>b\<in>set as. m \<le> frequency (the (hp b))) \<or>
       (\<exists>b\<in>set as. r = Some b \<and> frequency (the (hp b)) < m \<and> (\<forall>x\<in>set as. frequency (the (hp b)) \<le> frequency (the (hp x))))" by auto
    from r(2) show ?thesis using r(1) e False by (fastforce simp: rd_def)
  qed
qed simp

text \<open>A victim has been chosen and taken off the list, or there is none.\<close>

definition chosen :: "kv_cache \<Rightarrow> addr list \<Rightarrow> nat \<Rightarrow> bool" where
  "chosen c xs r \<longleftrightarrow>
     choose_victim c r = Inr (Some (None, c)) \<and> (xs = [] \<or> cache_policy (cconfig c) = KV_CACHE_POLICY_LFU \<and> (\<forall>e\<in>set (ents (cheap c) xs). frequency e = - 1)) \<or>
     (\<exists>as a bs e l' hp'. xs = as @ a # bs \<and> cheap c a = Some e \<and> victim (cache_policy (cconfig c)) (ents (cheap c) xs) (bare e) \<and>
        choose_victim c r = Inr (Some (Some a, c\<lparr>clru := Some l', cheap := hp'\<rparr>)) \<and> list_ok hp' l' (as @ bs) \<and> same_data (cheap c) hp')"

lemma choose_tail:
  assumes inv: "cache_inv c xs" and p: "cache_policy (cconfig c) \<in> {KV_CACHE_POLICY_LRU, KV_CACHE_POLICY_FIFO}"
  shows "chosen c xs r"
proof -
  from inv obtain t l where tl: "chashtable c = Some t" "clru c = Some l" "store_ok (cheap c) t l xs" by (rule inv_parts)
  show ?thesis
  proof (cases xs rule: rev_cases)
    case Nil
    with remove_tail_empty[of "cheap c" l] tl p show ?thesis by (auto simp: chosen_def choose_victim_def store_ok_def)
  next
    case (snoc as a)
    from store_entry[OF tl(3), of a] snoc obtain e where e: "cheap c a = Some e" by auto
    obtain l' hp' where "kv_cache_lru_list_remove_tail (Some l) (cheap c) = Inr (Some a, Some l', hp')" "list_ok hp' l' as" "same_data (cheap c) hp'"
      using remove_tail_ok[of "cheap c" l as a] tl(3) snoc by (auto simp: store_ok_def)
    with snoc e tl(2) p show ?thesis
      by (intro chosen_def[THEN iffD2] disjI2 exI[of _ as] exI[of _ a] exI[of _ "[]"] exI[of _ e] exI[of _ l'] exI[of _ hp'])
        (auto simp: choose_victim_def victim_def)
  qed
qed

lemma choose_lfu:
  assumes inv: "cache_inv c xs" and p: "cache_policy (cconfig c) = KV_CACHE_POLICY_LFU"
  shows "chosen c xs r"
proof -
  from inv obtain t l where tl: "chashtable c = Some t" "clru c = Some l" "store_ok (cheap c) t l xs" by (rule inv_parts)
  have set_eq: "set (concat (hbuckets t)) = set xs" using tl(3) by (metis store_ok_def set_mset_mset)
  then have "\<forall>a\<in>set (concat (hbuckets t)). cheap c a \<noteq> None" using store_entry[OF tl(3)] by blast
  from min_freq_spec[OF this, of "-1" None] obtain v where v:
    "kv_cache_frequency_manager_find_lfu_entry (Some t) (cheap c) = Inr v"
    "v = None \<and> (\<forall>a\<in>set xs. - 1 \<le> frequency (the (cheap c a))) \<or>
     (\<exists>a\<in>set xs. v = Some a \<and> (\<forall>b\<in>set xs. frequency (the (cheap c a)) \<le> frequency (the (cheap c b))))"
    unfolding set_eq kv_cache_frequency_manager_find_lfu_entry_def by auto
  from v(2) consider (none) "v = None" "\<forall>a\<in>set xs. - 1 \<le> frequency (the (cheap c a))"
    | (some) a where "a \<in> set xs" "v = Some a" "\<forall>b\<in>set xs. frequency (the (cheap c a)) \<le> frequency (the (cheap c b))" by blast
  then show ?thesis
  proof cases
    case none
    have "\<forall>e\<in>set (ents (cheap c) xs). frequency e = - 1" using none(2) word_order.extremum_unique by (auto simp: ents_def)
    with none v(1) tl p show ?thesis by (simp add: chosen_def choose_victim_def unlist_def)
  next
    case some
    from store_entry[OF tl(3) some(1)] obtain e where e: "cheap c a = Some e" .
    from tl(3) e obtain as bs where xs: "xs = as @ a # bs" by (rule rel_split)
    obtain l' hp' where r: "kv_cache_lru_list_remove_entry (Some l) (cheap c) a = Inr (Some l', hp')" "list_ok hp' l' (as @ bs)" "same_data (cheap c) hp'"
      using remove_entry_ok[of "cheap c" l as a bs] tl(3) xs by (auto simp: store_ok_def)
    have "bare e \<in> set (ents (cheap c) xs)" using xs e by simp
    moreover have "\<forall>x\<in>set (ents (cheap c) xs). frequency e \<le> frequency x" using some(3) e by (auto simp: ents_def)
    ultimately have "victim KV_CACHE_POLICY_LFU (ents (cheap c) xs) (bare e)" by (simp add: victim_def)
    with xs e r v(1) some(2) tl p show ?thesis
      by (intro chosen_def[THEN iffD2] disjI2 exI[of _ as] exI[of _ a] exI[of _ bs] exI[of _ e] exI[of _ l'] exI[of _ hp'])
        (simp add: choose_victim_def unlist_def)
  qed
qed

lemma chosen_ok: "cache_inv c xs \<Longrightarrow> chosen c xs r"
  using choose_tail choose_lfu by (auto simp: cache_inv_def plain_def)


lemma evict_step:
  assumes inv: "cache_inv c (as @ a # bs)" and e: "cheap c a = Some e"
    and ch: "choose_victim c (rnd 0) = Inr (Some (Some a, c\<lparr>clru := Some l', cheap := hp'\<rparr>))"
    and l': "list_ok hp' l' (as @ bs)" "same_data (cheap c) hp'"
  obtains c' where "kv_cache_evict_entries_by_policy (Suc n) rnd c = kv_cache_evict_entries_by_policy n (\<lambda>i. rnd (Suc i)) c'"
    "cache_inv c' (as @ bs)" "frame c c'" "ents (cheap c') (as @ bs) = without (ce_key e) (ents (cheap c) (as @ a # bs))"
proof -
  from inv obtain t l where tl: "chashtable c = Some t" "clru c = Some l" "store_ok (cheap c) t l (as @ a # bs)" by (rule inv_parts)
  obtain e' where e': "hp' a = Some e'" "bare e' = bare e" using same_dataD[OF l'(2) e] by blast
  let ?c1 = "c\<lparr>clru := Some l', cheap := hp'\<rparr>"
  obtain t' where d:
    "kv_cache_hashtable_remove (Some t) (cheap c) (ce_key e) = Inr (KV_SUCCESS, Some t')" "ht_entry_count t' = ht_entry_count t - 1"
    "kv_cache_entry_destroy hp' a = Inr (hp'(a := None))" "ents (hp'(a := None)) (as @ bs) = without (ce_key e) (ents (cheap c) (as @ a # bs))"
    "\<And>c'. chashtable c' = Some t' \<Longrightarrow> clru c' = Some l' \<Longrightarrow> cheap c' = hp'(a := None) \<Longrightarrow> cnext c' = cnext c \<Longrightarrow> cconfig c' = cconfig c \<Longrightarrow>
      current_entries (cstats c') = current_entries (cstats c) - 1 \<Longrightarrow> cache_inv c' (as @ bs)"
    by (rule drop_ok[OF inv e l' tl(1)]) blast
  have rm: "kv_cache_hashtable_remove (Some t) hp' (ce_key e) = Inr (KV_SUCCESS, Some t')"
  proof -
    have dom: "\<forall>b\<in>set (bucket_of t (ce_key e)). cheap c b \<noteq> None"
      using bucket_heap[OF tl(3) bucket_lt] tl(3) by (auto simp: bucket_of_def store_ok_def)
    have "chain_find hp' (key_hash (ce_key e)) (ce_key e) bs' = chain_find (cheap c) (key_hash (ce_key e)) (ce_key e) bs'"
      if "\<forall>b\<in>set bs'. cheap c b \<noteq> None" for bs'
      using that
    proof (induction bs')
      case (Cons b bs')
      then obtain x where x: "cheap c b = Some x" by auto
      then obtain x' where "hp' b = Some x'" "bare x' = bare x" using same_dataD[OF l'(2)] by blast
      with x Cons bare_fields(1,3)[of x' x] show ?case by (simp add: rd_def)
    qed simp
    note eq = this[OF dom]
    have "ht_seed t = KV_CACHE_DEFAULT_HASH_SEED" using tl(3) by (simp add: store_ok_def)
    with eq d(1) show ?thesis
      by (auto simp: kv_cache_hashtable_remove_def Let_def bucket_of_def split: if_splits)
  qed
  let ?c = "?c1\<lparr>chashtable := Some t', cheap := hp'(a := None),
    cstats := (cstats c)\<lparr>current_entries := current_entries (cstats c) - 1, evictions := evictions (cstats c) + 1\<rparr>\<rparr>"
  have "kv_cache_evict_entries_by_policy (Suc n) rnd c = kv_cache_evict_entries_by_policy n (\<lambda>i. rnd (Suc i)) ?c"
    using ch e' tl(1) rm d(3) bare_fields(1)[OF e'(2)] by (simp add: rd_def)
  moreover have "cache_inv ?c (as @ bs)" by (rule d(5)) simp_all
  moreover have "frame c ?c" using d(2) tl(1) by (simp add: frame_def integral_def)
  ultimately show thesis using that[of ?c] d(4) by simp
qed

lemma evict_ok:
  "cache_inv c xs \<Longrightarrow> \<exists>c' ys. kv_cache_evict_entries_by_policy n rnd c = Inr (KV_SUCCESS, c') \<and> cache_inv c' ys \<and> frame c c' \<and>
     evicted (cache_policy (cconfig c)) n (ents (cheap c) xs) (ents (cheap c') ys)"
proof (induction n arbitrary: c xs rnd)
  case 0
  then show ?case by (auto intro: evicted_0)
next
  case (Suc n)
  from chosen_ok[OF Suc.prems, of "rnd 0"] show ?case unfolding chosen_def
  proof (elim disjE exE conjE)
    assume v: "choose_victim c (rnd 0) = Inr (Some (None, c))"
    then have "kv_cache_evict_entries_by_policy (Suc n) rnd c = Inr (KV_SUCCESS, c)" by simp
    moreover assume "xs = []"
    ultimately show ?thesis using Suc.prems by (metis cache_ents_simps(1) evicted_Nil frame_refl)
  next
    assume v: "choose_victim c (rnd 0) = Inr (Some (None, c))" "cache_policy (cconfig c) = KV_CACHE_POLICY_LFU"
      "\<forall>e\<in>set (ents (cheap c) xs). frequency e = - 1"
    then have "kv_cache_evict_entries_by_policy (Suc n) rnd c = Inr (KV_SUCCESS, c)" by simp
    with v Suc.prems show ?thesis by (metis evicted_stuck frame_refl)
  next
    fix as a bs e l' hp'
    assume xs: "xs = as @ a # bs" and e: "cheap c a = Some e" and v: "victim (cache_policy (cconfig c)) (ents (cheap c) xs) (bare e)"
      and ch: "choose_victim c (rnd 0) = Inr (Some (Some a, c\<lparr>clru := Some l', cheap := hp'\<rparr>))"
      and l': "list_ok hp' l' (as @ bs)" "same_data (cheap c) hp'"
    obtain c1 where c1: "kv_cache_evict_entries_by_policy (Suc n) rnd c = kv_cache_evict_entries_by_policy n (\<lambda>i. rnd (Suc i)) c1"
      "cache_inv c1 (as @ bs)" "frame c c1" "ents (cheap c1) (as @ bs) = without (ce_key e) (ents (cheap c) xs)"
      unfolding xs by (rule evict_step[where rnd = rnd and n = n, OF Suc.prems[unfolded xs] e ch l'])
    from Suc.IH[OF c1(2), of "\<lambda>i. rnd (Suc i)"] obtain c' ys where c':
      "kv_cache_evict_entries_by_policy (Suc n) rnd c = Inr (KV_SUCCESS, c')" "cache_inv c' ys" "frame c1 c'"
      "evicted (cache_policy (cconfig c)) n (without (ce_key e) (ents (cheap c) xs)) (ents (cheap c') ys)"
      unfolding c1(1) using c1(3,4) by (auto simp: frame_def)
    have "evicted (cache_policy (cconfig c)) (Suc n) (ents (cheap c) xs) (ents (cheap c') ys)"
      using evicted_Suc[OF v] c'(4) by simp
    with c' frame_trans[OF c1(3) c'(3)] show ?thesis by blast
  qed
qed


section \<open>Storing\<close>

definition new_entry :: "8 word \<Rightarrow> 64 word \<Rightarrow> string \<Rightarrow> string \<Rightarrow> 64 word \<Rightarrow> kv_cache_entry" where
  "new_entry junk now k v ttl =
     \<lparr>ce_key = k, ce_value = v, ce_hash = key_hash k, create_time = now, access_time = now, update_time = now, ce_ttl = ttl,
       ce_prev = None, ce_next = None, frequency = 1, frequency_time = now, reference_bit = junk, arc_list_type = junk\<rparr>"

definition storable :: "string \<Rightarrow> string \<Rightarrow> bool" where
  "storable k v \<longleftrightarrow> k \<noteq> [] \<and> v \<noteq> [] \<and> int (length k) \<le> KV_CACHE_MAX_KEY_LENGTH \<and> int (length v) \<le> KV_CACHE_MAX_VALUE_LENGTH"

lemma new_entry_sel [simp]:
  "ce_key (new_entry junk now k v ttl) = k" "ce_hash (new_entry junk now k v ttl) = key_hash k"
  "bare (new_entry junk now k v ttl) = new_entry junk now k v ttl" "frequency (new_entry junk now k v ttl) = 1"
  "frequency_time (new_entry junk now k v ttl) = now"
  by (simp_all add: new_entry_def bare_def)

lemma entry_create_ok: "storable k v \<Longrightarrow> kv_cache_entry_create [] junk k v ttl now = (Some (new_entry junk now k v ttl), [])"
  by (simp add: kv_cache_entry_create_def storable_def new_entry_def)

lemma add_new_ok:
  assumes inv: "cache_inv c xs" and k: "lookup k (ents (cheap c) xs) = None" "storable k v"
  shows "\<exists>c'. add_new c [] junk now k v ttl = Inr (KV_SUCCESS, c', []) \<and> cache_inv c' (cnext c # xs) \<and> frame c c' \<and>
    ents (cheap c') (cnext c # xs) = new_entry junk now k v ttl # ents (cheap c) xs"
proof -
  from inv obtain t l where tl: "chashtable c = Some t" "clru c = Some l" "store_ok (cheap c) t l xs" by (rule inv_parts)
  let ?a = "cnext c" and ?e = "new_entry junk now k v ttl"
  have a: "?a \<notin> set xs" using inv by (auto simp: cache_inv_def)
  obtain t' l' hp' where st: "kv_cache_hashtable_insert (Some t) ((cheap c)(?a \<mapsto> ?e)) ?a = Inr (KV_SUCCESS, Some t')"
    "ht_entry_count t' = ht_entry_count t + 1" "kv_cache_lru_list_add_to_head (Some l) ((cheap c)(?a \<mapsto> ?e)) ?a = Inr (Some l', hp')"
    "store_ok hp' t' l' (?a # xs)" "same_data ((cheap c)(?a \<mapsto> ?e)) hp'"
    using store_insert[OF tl(3) a, of ?e] lookup_None[OF tl(3) k(1)] k(2) by (auto simp: storable_def)
  obtain e' where e': "hp' ?a = Some e'" "bare e' = ?e" using same_dataD[OF st(5), of ?a ?e] by auto
  let ?c = "c\<lparr>cheap := hp', cnext := ?a + 1, chashtable := Some t', clru := Some l',
    cstats := (cstats c)\<lparr>current_entries := current_entries (cstats c) + 1\<rparr>\<rparr>"
  have "frequency e' = 1" "frequency_time e' = now"
    using e'(2) bare_sel(6,7)[of e'] by (simp_all del: bare_sel(6,7))
  then have "wr hp' ?a (\<lambda>e. e\<lparr>frequency := 1, frequency_time := now\<rparr>) = Inr hp'" using e'(1) by (cases e') (auto simp: wr_def)
  moreover have "plain (cache_policy (cconfig c))" using inv by (simp add: cache_inv_def)
  ultimately have "add_new c [] junk now k v ttl = Inr (KV_SUCCESS, ?c, [])"
    using entry_create_ok[OF k(2)] st tl by (auto simp: add_new_def Let_def plain_def)
  moreover have "cache_inv ?c (?a # xs)" using st(4) inv by (auto simp: cache_inv_def)
  moreover have "frame c ?c" using tl(1) st(2) by (simp add: frame_def integral_def)
  moreover have "ents hp' (?a # xs) = ?e # ents (cheap c) xs"
  proof -
    have "set (?a # xs) \<subseteq> dom ((cheap c)(?a \<mapsto> ?e))" using tl(3) by (auto simp: store_ok_def)
    from ents_relink[OF st(5) this] show ?thesis using a by simp
  qed
  ultimately show ?thesis by auto
qed

lemma update_existing_ok:
  assumes inv: "cache_inv c xs" and a: "cheap c a = Some e"
  shows "\<exists>c' ys. update_existing c [] a now ftime v ttl = Inr (KV_SUCCESS, c', []) \<and> cache_inv c' ys \<and> frame c c' \<and>
    ents (cheap c') ys = spec_touch (cache_policy (cconfig c)) ftime (ce_key e)
      (modify_key (ce_key e) (\<lambda>e. e\<lparr>ce_value := v, update_time := now, access_time := now, ce_ttl := ttl\<rparr>) (ents (cheap c) xs))"
proof -
  let ?f = "\<lambda>e. e\<lparr>ce_value := v, update_time := now, access_time := now, ce_ttl := ttl\<rparr>"
  let ?c = "c\<lparr>cheap := (cheap c)(a \<mapsto> ?f e)\<rparr>"
  have u: "cache_inv ?c xs" "ents (cheap ?c) xs = modify_key (ce_key e) ?f (ents (cheap c) xs)"
    using inv_update[OF inv a, of "?f e" ?f] by (simp_all add: bare_def)
  obtain c1 ys where c1: "touch ?c a ftime = Inr c1" "cache_inv c1 ys" "frame ?c c1"
    "ents (cheap c1) ys = spec_touch (cache_policy (cconfig c)) ftime (ce_key e) (ents (cheap ?c) xs)"
    using touch_ok[OF u(1), of a "?f e" ftime] by auto
  let ?c' = "c1\<lparr>cstats := (cstats c1)\<lparr>update_count := update_count (cstats c1) + 1\<rparr>\<rparr>"
  have "update_existing c [] a now ftime v ttl = Inr (KV_SUCCESS, ?c', [])"
    using a c1(1) by (simp add: update_existing_def wr_def)
  moreover have "cache_inv ?c' ys" using c1(2) by (simp add: cache_inv_def)
  moreover have "frame c ?c'" using c1(3) by (simp add: frame_def)
  ultimately show ?thesis using c1(4) u(2) by (intro exI[of _ ?c'] exI[of _ ys]) simp
qed


lemma spec_store_new: "lookup k es = None \<Longrightarrow> spec_store p junk now ftime k v ttl es = new_entry junk now k v ttl # es"
  by (simp add: spec_store_def new_entry_def)

definition full :: "kv_cache_config \<Rightarrow> nat \<Rightarrow> bool" where
  "full cf n \<longleftrightarrow> cf_max_entries cf > 0 \<and> of_nat n \<ge> cf_max_entries cf"

lemma set_locked_ok:
  assumes inv: "cache_inv c xs" and kv: "storable k v"
  shows "\<exists>c' ys es1. set_locked c [] rnd junk now ftime k v ttl = Inr (KV_SUCCESS, c', []) \<and> cache_inv c' ys \<and> frame c c' \<and>
    (if full (cconfig c) (length xs) then evicted (cache_policy (cconfig c)) (evict_count (cconfig c)) (ents (cheap c) xs) es1
     else es1 = ents (cheap c) xs) \<and>
    ents (cheap c') ys = spec_store (cache_policy (cconfig c)) junk now ftime k v ttl es1"
proof -
  let ?pre = "if full (cconfig c) (length xs) then kv_cache_evict_entries_by_policy (evict_count (cconfig c)) rnd c else Inr (KV_SUCCESS, c)"
  obtain c1 zs where c1: "?pre = Inr (KV_SUCCESS, c1)" "cache_inv c1 zs" "frame c c1"
    "if full (cconfig c) (length xs) then evicted (cache_policy (cconfig c)) (evict_count (cconfig c)) (ents (cheap c) xs) (ents (cheap c1) zs)
     else ents (cheap c1) zs = ents (cheap c) xs"
    using evict_ok[OF inv, of "evict_count (cconfig c)" rnd] inv by (cases "full (cconfig c) (length xs)") auto
  have pol: "cconfig c1 = cconfig c" using c1(3) by (simp add: frame_def)
  from c1(2) obtain t l where tl: "chashtable c1 = Some t" "clru c1 = Some l" "store_ok (cheap c1) t l zs" by (rule inv_parts)
  have cur: "current_entries (cstats c) = of_nat (length xs)" using inv by (simp add: cache_inv_def)
  have sl: "set_locked c [] rnd junk now ftime k v ttl =
    obind (kv_cache_hashtable_find (chashtable c1) (cheap c1) k) (\<lambda>found.
      case found of Some a \<Rightarrow> update_existing c1 [] a now ftime v ttl | None \<Rightarrow> add_new c1 [] junk now k v ttl)"
    using c1(1) by (simp add: set_locked_def full_def cur Let_def)
  show ?thesis
  proof (cases "lookup k (ents (cheap c1) zs)")
    case None
    from add_new_ok[OF c1(2) None kv, of junk now ttl] obtain c' where "add_new c1 [] junk now k v ttl = Inr (KV_SUCCESS, c', [])"
      "cache_inv c' (cnext c1 # zs)" "frame c1 c'" "ents (cheap c') (cnext c1 # zs) = new_entry junk now k v ttl # ents (cheap c1) zs" by blast
    with sl find_absent(1)[OF tl(3) lookup_None[OF tl(3) None]] tl(1) spec_store_new[OF None] frame_trans[OF c1(3)] c1(4) show ?thesis
      by (intro exI[of _ c'] exI[of _ "cnext c1 # zs"] exI[of _ "ents (cheap c1) zs"]) (auto split: if_splits)
  next
    case (Some e')
    with tl(3) obtain a e where a: "cheap c1 a = Some e" "ce_key e = k" by (rule lookup_Some)
    from update_existing_ok[OF c1(2) a(1), of now ftime v ttl] obtain c' ys where "update_existing c1 [] a now ftime v ttl = Inr (KV_SUCCESS, c', [])"
      "cache_inv c' ys" "frame c1 c'" "ents (cheap c') ys = spec_store (cache_policy (cconfig c)) junk now ftime k v ttl (ents (cheap c1) zs)"
      using Some a(2) pol by (auto simp: spec_store_def)
    with sl find_present(1)[OF tl(3) a(1)] a(2) tl(1) frame_trans[OF c1(3)] c1(4) show ?thesis
      by (intro exI[of _ c'] exI[of _ ys] exI[of _ "ents (cheap c1) zs"]) (auto split: if_splits)
  qed
qed

section \<open>The calls\<close>

lemma stats_get_inv [simp]:
  "cache_inv (kv_cache_update_stats_get c hit d) xs = cache_inv c xs" "cheap (kv_cache_update_stats_get c hit d) = cheap c"
  "frame c0 (kv_cache_update_stats_get c hit d) = frame c0 c"
  by (simp_all add: kv_cache_update_stats_get_def cache_inv_def Let_def frame_def)

lemma stats_set_inv [simp]:
  "cache_inv (kv_cache_update_stats_set c d) xs = cache_inv c xs" "cheap (kv_cache_update_stats_set c d) = cheap c"
  "frame c0 (kv_cache_update_stats_set c d) = frame c0 c"
  by (simp_all add: kv_cache_update_stats_set_def cache_inv_def Let_def frame_def)

lemma cache_get_ok:
  assumes inv: "cache_inv c xs" and g: "cstate c = KV_CACHE_STATE_RUNNING" "k \<noteq> []" "int (length k) \<le> KV_CACHE_MAX_KEY_LENGTH"
  shows "\<exists>c' ys r v es'. spec_get (cache_policy (cconfig c)) ts k (ents (cheap c) xs) = (r, v, es') \<and>
    kv_cache_get c [] ts k = Inr (r, v, c', []) \<and> cache_inv c' ys \<and> frame c c' \<and> ents (cheap c') ys = es'"
proof -
  obtain c' ys r v es' where l: "spec_get (cache_policy (cconfig c)) ts k (ents (cheap c) xs) = (r, v, es')"
    "get_locked c [] ts k = Inr (r, v, c', [])" "cache_inv c' ys" "frame c c'" "ents (cheap c') ys = es'"
    using get_locked_ok[OF inv, of ts k] by blast
  let ?c = "kv_cache_update_stats_get c' (r = KV_SUCCESS) (snd (snd (snd ts)) - fst ts)"
  have "kv_cache_get c [] ts k = Inr (r, v, ?c, [])" using g l(2) by (simp add: kv_cache_get_def)
  with l show ?thesis by (intro exI[of _ ?c] exI[of _ ys] exI[of _ r] exI[of _ v] exI[of _ es']) simp
qed

lemma cache_set_ok:
  assumes inv: "cache_inv c xs" and kv: "storable k v"
  shows "\<exists>c' ys es1. kv_cache_set c [] rnd junk (start, mid, ftime, fin) k v ttl = Inr (KV_SUCCESS, c', []) \<and> cache_inv c' ys \<and> frame c c' \<and>
    (if full (cconfig c) (length xs) then evicted (cache_policy (cconfig c)) (evict_count (cconfig c)) (ents (cheap c) xs) es1
     else es1 = ents (cheap c) xs) \<and>
    ents (cheap c') ys = spec_store (cache_policy (cconfig c)) junk start ftime k v ttl es1"
proof -
  obtain c1 ys es1 where l: "set_locked c [] rnd junk start ftime k v ttl = Inr (KV_SUCCESS, c1, [])" "cache_inv c1 ys" "frame c c1"
    "if full (cconfig c) (length xs) then evicted (cache_policy (cconfig c)) (evict_count (cconfig c)) (ents (cheap c) xs) es1
     else es1 = ents (cheap c) xs"
    "ents (cheap c1) ys = spec_store (cache_policy (cconfig c)) junk start ftime k v ttl es1"
    using set_locked_ok[OF inv kv, of rnd junk start ftime ttl] by blast
  let ?c2 = "kv_cache_update_stats_set c1 (fin - start)"
  let ?c = "?c2\<lparr>cstats := (cstats ?c2)\<lparr>set_count := set_count (cstats ?c2) + 1\<rparr>\<rparr>"
  have i: "cache_inv ?c2 ys" "frame c ?c2" using l(2,3) by simp_all
  have "kv_cache_set c [] rnd junk (start, mid, ftime, fin) k v ttl = Inr (KV_SUCCESS, ?c, [])"
    using kv l(1) by (simp add: kv_cache_set_def storable_def Let_def)
  moreover have "cache_inv ?c ys" using i(1) by (simp add: cache_inv_def)
  moreover have "frame c ?c" using i(2) by (simp add: frame_def)
  ultimately show ?thesis using l(4,5) by (intro exI[of _ ?c] exI[of _ ys] exI[of _ es1]) simp
qed

end
