(* ===== verification/Cache_Props.thy ===== *)
theory Cache_Props
  imports Cache_Refine
begin

text \<open>
  Runs of a cache with the LRU or FIFO policy from its creation on: they refine the specification, stay within the
  capacity and pass the integrity check; and the places where the code departs from its documentation.
\<close>

section \<open>Runs\<close>

datatype cache_op =
  CGet readings string | CSet "nat \<Rightarrow> nat" "8 word" readings string string "64 word" | CDel string
  | CEvict nat "nat \<Rightarrow> nat" | CReset "64 word"

fun cache_step :: "cache_op \<Rightarrow> kv_cache \<Rightarrow> kv_cache outcome" where
  "cache_step (CGet ts k) c = obind (kv_cache_get c [] ts k) (\<lambda>(r, v, c', h). Inr c')"
| "cache_step (CSet rnd junk ts k v ttl) c = obind (kv_cache_set c [] rnd junk ts k v ttl) (\<lambda>(r, c', h). Inr c')"
| "cache_step (CDel k) c = obind (kv_cache_delete c k) (\<lambda>(r, c'). Inr c')"
| "cache_step (CEvict n rnd) c = obind (kv_cache_evict_entries c n rnd) (\<lambda>(r, c'). Inr c')"
| "cache_step (CReset now) c = Inr (kv_cache_reset_stats c now)"

fun cache_run :: "cache_op list \<Rightarrow> kv_cache \<Rightarrow> kv_cache outcome" where
  "cache_run [] c = Inr c"
| "cache_run (op # ops) c = obind (cache_step op c) (cache_run ops)"

definition key_ok :: "string \<Rightarrow> bool" where
  "key_ok k \<longleftrightarrow> k \<noteq> [] \<and> int (length k) \<le> KV_CACHE_MAX_KEY_LENGTH"

fun cache_op_ok :: "cache_op \<Rightarrow> bool" where
  "cache_op_ok (CGet ts k) = key_ok k"
| "cache_op_ok (CSet rnd junk ts k v ttl) = storable k v"
| "cache_op_ok (CDel k) = key_ok k"
| "cache_op_ok _ = True"

definition spec_evict :: "nat \<Rightarrow> kv_cache_entry list \<Rightarrow> kv_cache_entry list" where
  "spec_evict n es = take (length es - n) es"

fun spec_step :: "kv_cache_config \<Rightarrow> cache_op \<Rightarrow> kv_cache_entry list \<Rightarrow> kv_cache_entry list" where
  "spec_step cf (CGet ts k) es = snd (snd (spec_get (cache_policy cf) ts k es))"
| "spec_step cf (CSet rnd junk ts k v ttl) es =
     spec_store (cache_policy cf) junk (fst ts) (fst (snd (snd ts))) k v ttl
       (if full cf (length es) then spec_evict (evict_count cf) es else es)"
| "spec_step cf (CDel k) es = without k es"
| "spec_step cf (CEvict n rnd) es = spec_evict n es"
| "spec_step cf (CReset now) es = es"

definition by_order :: "kv_cache_config \<Rightarrow> bool" where
  "by_order cf \<longleftrightarrow> cache_policy cf \<in> {KV_CACHE_POLICY_LRU, KV_CACHE_POLICY_FIFO}"

lemma evicted_take:
  assumes "evicted p n es es'" "p \<noteq> KV_CACHE_POLICY_LFU" "distinct (map ce_key es)"
  shows "es' = spec_evict n es"
  using assms
proof (induction rule: evicted.induct)
  case (evicted_Suc es e n es')
  then have e: "e = last es" "es \<noteq> []" by (auto simp: victim_def)
  have es: "es = butlast es @ [e]" using e by simp
  have "without (ce_key e) es = butlast es"
  proof -
    have "distinct (map ce_key (butlast es @ [e]))" using evicted_Suc.prems(2) es by metis
    then have "filter (\<lambda>x. ce_key x \<noteq> ce_key e) (butlast es) = butlast es" by (fastforce simp: filter_id_conv image_iff)
    then show ?thesis unfolding without_def by (subst es) simp
  qed
  moreover have "distinct (map ce_key (butlast es))" using evicted_Suc.prems(2) by (simp add: map_butlast distinct_butlast)
  ultimately show ?case using evicted_Suc by (simp add: spec_evict_def butlast_conv_take min_def)
qed (simp_all add: spec_evict_def)

lemma distinct_keys: "cache_inv c xs \<Longrightarrow> distinct (map ce_key (ents (cheap c) xs))"
  by (auto simp: cache_inv_def store_ok_def keys_ents)

lemma step_ok:
  assumes inv: "cache_inv c xs" and p: "by_order (cconfig c)" "cstate c = KV_CACHE_STATE_RUNNING" and ok: "cache_op_ok op"
  shows "\<exists>c' ys. cache_step op c = Inr c' \<and> cache_inv c' ys \<and> frame c c' \<and> ents (cheap c') ys = spec_step (cconfig c) op (ents (cheap c) xs)"
proof (cases op)
  case (CGet ts k)
  with cache_get_ok[OF inv p(2), of k ts] ok show ?thesis by (auto simp: key_ok_def)
next
  case (CSet rnd junk ts k v ttl)
  obtain start mid ftime fin where ts: "ts = (start, mid, ftime, fin)" by (cases ts)
  have nl: "cache_policy (cconfig c) \<noteq> KV_CACHE_POLICY_LFU" using p(1) by (auto simp: by_order_def)
  from ok CSet have "storable k v" by simp
  from cache_set_ok[OF inv this, of rnd junk start mid ftime fin ttl] obtain c' ys es1 where
    "kv_cache_set c [] rnd junk ts k v ttl = Inr (KV_SUCCESS, c', [])" "cache_inv c' ys" "frame c c'"
    "es1 = (if full (cconfig c) (length xs) then spec_evict (evict_count (cconfig c)) (ents (cheap c) xs) else ents (cheap c) xs)"
    "ents (cheap c') ys = spec_store (cache_policy (cconfig c)) junk start ftime k v ttl es1"
    using evicted_take[OF _ nl distinct_keys[OF inv]] by (auto simp: ts split: if_splits)
  with CSet show ?thesis by (auto simp: ts)
next
  case (CDel k)
  with cache_delete_ok[OF inv p(2), of k] ok show ?thesis by (auto simp: key_ok_def)
next
  case (CEvict n rnd)
  have nl: "cache_policy (cconfig c) \<noteq> KV_CACHE_POLICY_LFU" using p(1) by (auto simp: by_order_def)
  show ?thesis
  proof (cases "n = 0")
    case True
    with CEvict inv show ?thesis by (auto simp: kv_cache_evict_entries_def spec_evict_def)
  next
    case False
    with evict_ok[OF inv, of n rnd] evicted_take[OF _ nl distinct_keys[OF inv]] CEvict show ?thesis
      by (auto simp: kv_cache_evict_entries_def)
  qed
next
  case (CReset now)
  with inv show ?thesis
    by (intro exI[of _ "kv_cache_reset_stats c now"] exI[of _ xs])
      (simp add: kv_cache_reset_stats_def cache_inv_def frame_def Let_def)
qed

lemma run_ok:
  "cache_inv c xs \<Longrightarrow> by_order (cconfig c) \<Longrightarrow> cstate c = KV_CACHE_STATE_RUNNING \<Longrightarrow> list_all cache_op_ok ops \<Longrightarrow>
   \<exists>c' ys. cache_run ops c = Inr c' \<and> cache_inv c' ys \<and> frame c c' \<and> ents (cheap c') ys = fold (spec_step (cconfig c)) ops (ents (cheap c) xs)"
proof (induction ops arbitrary: c xs)
  case Nil
  then show ?case by auto
next
  case (Cons op ops)
  from step_ok[OF Cons.prems(1-3), of op] Cons.prems(4) obtain c1 ys where c1: "cache_step op c = Inr c1" "cache_inv c1 ys" "frame c c1"
    "ents (cheap c1) ys = spec_step (cconfig c) op (ents (cheap c) xs)" by auto
  then have cf: "cconfig c1 = cconfig c" "cstate c1 = cstate c" by (simp_all add: frame_def)
  from Cons.IH[OF c1(2)] Cons.prems cf c1 frame_trans[OF c1(3)] show ?case by fastforce
qed

lemma cache_create_ok:
  assumes "kv_cache_config_validate cf" "by_order cf" "cf_hash_seed cf = KV_CACHE_DEFAULT_HASH_SEED"
  obtains c where "kv_cache_create [] (Some cf) now = (Some c, [])" "cache_inv c []" "cconfig c = cf" "cstate c = KV_CACHE_STATE_RUNNING" "integral c"
proof -
  have n: "\<not> hash_table_size cf < KV_CACHE_MIN_HASH_SIZE" using assms(1) by (simp add: kv_cache_config_validate_def)
  then have sz: "0 < unat (hash_table_size cf)" by (auto simp: unat_gt_0 not_less)
  let ?t = "\<lparr>hbuckets = replicate (unat (hash_table_size cf)) [], ht_entry_count = 0, ht_seed = cf_hash_seed cf\<rparr>"
  let ?l = "\<lparr>lru_head = None, lru_tail = None, lru_size = 0\<rparr>"
  let ?c = "\<lparr>cconfig = cf, cstate = KV_CACHE_STATE_RUNNING, chashtable = Some ?t, clru = Some ?l,
      cfreq = \<lparr>frequency_buckets = replicate 1024 0, min_frequency = 1, max_frequency = 1, total_accesses = 0\<rparr>, cclock = None, carc = None,
      cstats = zero_cache_stats\<lparr>cs_start_time := now, st_max_entries := cf_max_entries cf, st_max_memory := cf_max_memory cf\<rparr>,
      cheap = Map.empty, cnext = 0\<rparr>"
  have "kv_cache_create [] (Some cf) now = (Some ?c, [])"
    using assms(1,2) n by (auto simp: kv_cache_create_def kv_cache_hashtable_create_def kv_cache_lru_list_create_def
        kv_cache_frequency_manager_create_def policy_managers_def by_order_def)
  moreover have "store_ok Map.empty ?t ?l []" using assms(3) sz by (simp add: store_ok_def list_ok_def)
  then have "cache_inv ?c []" using assms(2) by (auto simp: cache_inv_def plain_def by_order_def zero_cache_stats_def)
  moreover have "integral ?c" by (simp add: integral_def zero_cache_stats_def)
  ultimately show thesis using that[of ?c] by simp
qed

lemma integrity_ok:
  assumes inv: "cache_inv c xs" and "integral c"
  shows "kv_cache_validate_integrity c = Inr True"
proof -
  from inv obtain t l where tl: "chashtable c = Some t" "clru c = Some l" "store_ok (cheap c) t l xs" by (rule inv_parts)
  have l: "dl (cheap c) None xs None" "lru_head l = first_of xs None" "lru_tail l = last_of None xs" "lru_size l = of_nat (length xs)"
    using tl(3) by (simp_all add: store_ok_def list_ok_def)
  have cnt: "ht_entry_count t = of_nat (length xs)" "current_entries (cstats c) = of_nat (length xs)"
    using assms tl(1) by (simp_all add: integral_def cache_inv_def)
  show ?thesis
  proof (cases xs rule: rev_cases)
    case Nil
    with tl l cnt show ?thesis by (simp add: kv_cache_validate_integrity_def)
  next
    case (snoc ys y)
    then have "\<exists>e. cheap c y = Some e \<and> ce_next e = None" using l(1) by auto
    moreover obtain z zs where z: "xs = z # zs" using snoc by (metis neq_Nil_conv append_is_Nil_conv)
    then have "\<exists>e. cheap c z = Some e \<and> ce_prev e = None" using l(1) by auto
    moreover have "lru_head l = Some z" using l(2) z by simp
    moreover have "lru_tail l = Some y" using l(3) snoc by simp
    ultimately show ?thesis using tl l(4) cnt by (auto simp: kv_cache_validate_integrity_def rd_def)
  qed
qed


section \<open>Properties\<close>


definition sample_cache_config :: kv_cache_config where
  "sample_cache_config =
     \<lparr>cache_policy = KV_CACHE_POLICY_LRU, cf_max_entries = 2, cf_max_memory = 1000, hash_table_size = 64, default_ttl = 0, cleanup_interval = 1,
       max_idle_time = 0, enable_stats = True, cf_hash_seed = KV_CACHE_DEFAULT_HASH_SEED, eviction_factor = 1 / 10, min_eviction_count = 1,
       max_eviction_count = 10, frequency_decay_time = 3600, frequency_decay_factor = 8 / 10\<rparr>"

abbreviation no_rnd :: "nat \<Rightarrow> nat" where "no_rnd \<equiv> \<lambda>i. 0"

abbreviation at_time :: "64 word \<Rightarrow> readings" where "at_time t \<equiv> (t, t, t, t)"

text \<open>Three keys in a cache for two; \<open>a\<close> is used before \<open>c\<close> arrives, so \<open>b\<close> has to go.\<close>

definition sample_cache_ops :: "cache_op list" where
  "sample_cache_ops =
     [CSet no_rnd 0 (at_time 1) ''a'' ''1'' 0, CSet no_rnd 0 (at_time 2) ''b'' ''2'' 0, CGet (at_time 3) ''a'',
      CSet no_rnd 0 (at_time 4) ''c'' ''3'' 0]"

lemma sample_cache_facts:
  "kv_cache_config_validate sample_cache_config" "by_order sample_cache_config"
  "cf_hash_seed sample_cache_config = KV_CACHE_DEFAULT_HASH_SEED" "list_all cache_op_ok sample_cache_ops" "cf_max_entries sample_cache_config = 2"
  "evict_count sample_cache_config = 1"
  by (simp_all add: kv_cache_config_validate_def by_order_def sample_cache_config_def sample_cache_ops_def storable_def key_ok_def evict_count_def)

lemma sample_cache_spec:
  "map ce_key (fold (spec_step sample_cache_config) sample_cache_ops []) = [''c'', ''a'']"
  by (simp add: sample_cache_ops_def spec_store_def spec_get_def lookup_def spec_touch_def modify_key_def without_def sample_cache_config_def
      full_def spec_evict_def evict_count_def kv_cache_is_expired_def word_le_def)


lemma spec_touch_length: "length (spec_touch p ftime k es) \<le> length es"
proof (cases "lookup k es")
  case (Some e)
  then have "e \<in> set es" "ce_key e = k" by (auto simp: lookup_def find_Some_iff)
  then have "length (without k es) < length es" by (auto simp: without_def intro!: length_filter_less)
  with Some show ?thesis by (cases p) (auto simp: spec_touch_def modify_key_def)
qed (cases p; auto simp: spec_touch_def modify_key_def)

lemma modify_length [simp]: "length (modify_key k f es) = length es"
  by (simp add: modify_key_def)

lemma spec_store_length: "length (spec_store p junk now ftime k v ttl es) \<le> Suc (length es)"
  using spec_touch_length[of p ftime k "modify_key k f es" for f]
  by (auto simp: spec_store_def split: option.splits intro: le_SucI)

lemma spec_step_bound:
  assumes "cf_max_entries cf > 0" "evict_count cf > 0" "length es \<le> unat (cf_max_entries cf)"
  shows "length (spec_step cf op es) \<le> unat (cf_max_entries cf)"
proof (cases op)
  case (CGet ts k)
  then show ?thesis using assms(3) spec_touch_length[of "cache_policy cf" _ k "modify_key k _ es"]
    by (cases ts) (auto simp: spec_get_def split: option.splits intro: order_trans)
next
  case (CSet rnd junk ts k v ttl)
  have lt: "unat (of_nat (length es) :: 64 word) = length es"
    using assms(3) unsigned_less[of "cf_max_entries cf", where ?'a = nat] by (simp add: unsigned_of_nat take_bit_nat_eq_self)
  have "length (if full cf (length es) then spec_evict (evict_count cf) es else es) < unat (cf_max_entries cf)"
  proof (cases "full cf (length es)")
    case True
    then have "length es \<noteq> 0" using assms(1) by (auto simp: full_def)
    with assms(2) have "length es - evict_count cf < length es" by simp
    with True assms(3) show ?thesis by (simp add: spec_evict_def)
  next
    case False
    then show ?thesis using assms(1) lt by (simp add: full_def word_le_nat_alt)
  qed
  with CSet spec_store_length show ?thesis by (auto intro: order_trans[OF spec_store_length])
next
  case (CDel k)
  then show ?thesis using assms(3) by (auto simp: without_def intro: order_trans[OF length_filter_le])
next
  case (CEvict n rnd)
  then show ?thesis using assms(3) by (auto simp: spec_evict_def)
qed (use assms(3) in simp)

lemma spec_run_bound:
  assumes "cf_max_entries cf > 0" "evict_count cf > 0" "length es \<le> unat (cf_max_entries cf)"
  shows "length (fold (spec_step cf) ops es) \<le> unat (cf_max_entries cf)"
  using assms(3) by (induction ops arbitrary: es) (auto intro: spec_step_bound[OF assms(1,2)])




section \<open>Where the code departs from its documentation\<close>

text \<open>What a get answers after a run from the creation on.\<close>

definition answer_after :: "kv_cache_config \<Rightarrow> cache_op list \<Rightarrow> readings \<Rightarrow> string \<Rightarrow> (int \<times> string option) outcome" where
  "answer_after cf ops ts k =
     (case kv_cache_create [] (Some cf) 0 of
        (None, h) \<Rightarrow> Inl NullDeref
      | (Some c, h) \<Rightarrow> obind (cache_run ops c) (\<lambda>c1. obind (kv_cache_get c1 [] ts k) (\<lambda>(r, v, c2, h1). Inr (r, v))))"


text \<open>
  With the CLOCK policy a deletion frees the entry and leaves its pointer in the ring; the next eviction
  reads the reference bit of the freed entry.
\<close>

theorem cache_clock_delete_dangles:
  "let cf = sample_cache_config\<lparr>cache_policy := KV_CACHE_POLICY_CLOCK\<rparr>; put = CSet no_rnd 0 (at_time 1) ''a'' ''1'' 0 in
   kv_cache_config_validate cf \<and>
   answer_after cf [put] (at_time 2) ''a'' = Inr (KV_SUCCESS, Some ''1'') \<and>
   answer_after cf [put, CDel ''a'', CEvict 1 no_rnd] (at_time 2) ''a'' = Inl UseAfterFree"
  by code_simp

text \<open>An update sets the life time but not the time it is counted from, so the renewed entry expires with the old one.\<close>

lemma cache_ttl_not_renewed:
  "answer_after sample_cache_config [CSet no_rnd 0 (at_time 0) ''a'' ''1'' 10, CSet no_rnd 0 (at_time 9) ''a'' ''2'' 10] (at_time 11) ''a'' =
     Inr (KV_ERR_KEY_NOT_FOUND, None)"
  by code_simp


end
