(* ===== verification/Memtable_Manager.thy ===== *)
theory Memtable_Manager
  imports Memtable
begin

text \<open>
  The memtable manager, \<open>src/kvserver/lsm_memtable_manager.c\<close>: one table that takes writes and an array of frozen ones, the
  oldest first. A table is kept with its address, a number that is never used again, so that the
  comparison of pointers in \<open>remove_specific_immutable\<close> is the comparison of numbers. The used part of the array
  is a list; \<open>immutable_count\<close> is its length.

  Every operation holds the manager's lock. The results of \<open>pthread_rwlock_init\<close> and the readings of the
  clock are arguments.
\<close>

section \<open>Types\<close>

record lsm_memtable_manager_config =
  memtable_max_size :: "64 word"
  cf_max_immutable_count :: int
  auto_freeze :: bool
  seq_num_start :: "64 word"
  name_prefix :: string

record lsm_memtable_manager_stats =
  ms_total_memtables :: "64 word"
  ms_active_memtables :: "64 word"
  ms_immutable_memtables :: "64 word"
  ms_total_entries :: "64 word"
  ms_total_size :: "64 word"
  ms_total_memory_usage :: "64 word"
  ms_freeze_count :: "64 word"
  ms_switch_count :: "64 word"
  ms_flush_count :: "64 word"
  ms_write_count :: "64 word"
  ms_read_count :: "64 word"
  ms_delete_count :: "64 word"

type_synonym table_ref = "nat \<times> lsm_memtable"

record lsm_memtable_manager =
  mg_active :: "table_ref option"
  mg_immutable :: "table_ref list"
  max_immutable_count :: int
  mg_config :: lsm_memtable_manager_config
  global_seq_num :: "64 word"
  mg_stats :: lsm_memtable_manager_stats
  mg_name :: string
  mg_creation_time :: nat
  mg_next :: nat

record lsm_memtable_lookup_result =
  lr_value :: "bytes option"
  lr_value_len :: nat
  lr_seq :: "64 word"
  lr_deleted :: bool
  lr_found :: bool
  lr_source :: "nat option"

abbreviation DEFAULT_MEMTABLE_MAX_SIZE :: "64 word" where "DEFAULT_MEMTABLE_MAX_SIZE \<equiv> 4194304"
abbreviation DEFAULT_MAX_IMMUTABLE_COUNT :: int where "DEFAULT_MAX_IMMUTABLE_COUNT \<equiv> 5"

text \<open>What the creation of a table sees of its surroundings: its lock, the time in its name, the time it records.\<close>

type_synonym fresh_env = "bool \<times> nat \<times> nat"

section \<open>Tables of a manager\<close>

definition create_new_active_memtable :: "script \<Rightarrow> fresh_env \<Rightarrow> lsm_memtable_manager \<Rightarrow> int \<times> lsm_memtable_manager \<times> script" where
  "create_new_active_memtable h = (\<lambda>(lock_ok, tname, tcreate) mg.
     (case lsm_memtable_create h lock_ok tcreate (memtable_max_size (mg_config mg))
             (Some (take 127 (name_prefix (mg_config mg) @ ''_active_'' @ print_dec tname))) of
        (None, h1) \<Rightarrow> (KV_ERR_MEM, mg\<lparr>mg_active := None\<rparr>, h1)
      | (Some mt, h1) \<Rightarrow> (KV_ERR_NONE, mg\<lparr>mg_active := Some (mg_next mg, mt), mg_next := mg_next mg + 1\<rparr>, h1)))"

definition add_immutable_memtable :: "lsm_memtable_manager \<Rightarrow> table_ref \<Rightarrow> int \<times> lsm_memtable_manager" where
  "add_immutable_memtable mg x =
     (if int (length (mg_immutable mg)) \<ge> max_immutable_count mg then (KV_ERR_MEM, mg)
      else (KV_ERR_NONE, mg\<lparr>mg_immutable := mg_immutable mg @ [x]\<rparr>))"

definition remove_immutable_memtable_at :: "lsm_memtable_manager \<Rightarrow> int \<Rightarrow> int \<times> lsm_memtable_manager" where
  "remove_immutable_memtable_at mg index =
     (if index < 0 \<or> index \<ge> int (length (mg_immutable mg)) then (KV_ERR_PARAM, mg)
      else (KV_ERR_NONE, mg\<lparr>mg_immutable := take (nat index) (mg_immutable mg) @ drop (Suc (nat index)) (mg_immutable mg)\<rparr>))"

definition update_manager_stats :: "lsm_memtable_manager \<Rightarrow> lsm_memtable_manager" where
  "update_manager_stats mg =
     (let tables = map snd ((case mg_active mg of None \<Rightarrow> [] | Some x \<Rightarrow> [x]) @ mg_immutable mg);
          act = (if mg_active mg = None then 0 else 1);
          imm = of_nat (length (mg_immutable mg));
          bytes = (\<Sum>mt\<leftarrow>tables. lsm_memtable_size mt) in
      mg\<lparr>mg_stats := (mg_stats mg)\<lparr>ms_active_memtables := act, ms_immutable_memtables := imm, ms_total_memtables := act + imm,
          ms_total_entries := (\<Sum>mt\<leftarrow>tables. lsm_memtable_count mt), ms_total_size := bytes, ms_total_memory_usage := bytes\<rparr>\<rparr>)"

section \<open>Life cycle\<close>

definition lsm_memtable_manager_default_config :: lsm_memtable_manager_config where
  "lsm_memtable_manager_default_config =
     \<lparr>memtable_max_size = DEFAULT_MEMTABLE_MAX_SIZE, cf_max_immutable_count = DEFAULT_MAX_IMMUTABLE_COUNT, auto_freeze = True,
       seq_num_start = 1, name_prefix = ''memtable''\<rparr>"

definition zero_manager_stats :: lsm_memtable_manager_stats where
  "zero_manager_stats = \<lparr>ms_total_memtables = 0, ms_active_memtables = 0, ms_immutable_memtables = 0, ms_total_entries = 0, ms_total_size = 0,
     ms_total_memory_usage = 0, ms_freeze_count = 0, ms_switch_count = 0, ms_flush_count = 0, ms_write_count = 0, ms_read_count = 0,
     ms_delete_count = 0\<rparr>"

definition lsm_memtable_manager_create ::
  "script \<Rightarrow> bool \<Rightarrow> nat \<Rightarrow> fresh_env \<Rightarrow> lsm_memtable_manager_config option \<Rightarrow> string option \<Rightarrow> lsm_memtable_manager option \<times> script" where
  "lsm_memtable_manager_create h lock_ok now env config name =
     (let (ok, h1) = malloc h in
      if \<not> ok then (None, h1)
      else (let cf0 = (case config of Some cf \<Rightarrow> cf | None \<Rightarrow> lsm_memtable_manager_default_config);
                cf1 = (if memtable_max_size cf0 = 0 then cf0\<lparr>memtable_max_size := DEFAULT_MEMTABLE_MAX_SIZE\<rparr> else cf0);
                cf = (if cf_max_immutable_count cf1 \<le> 0 then cf1\<lparr>cf_max_immutable_count := DEFAULT_MAX_IMMUTABLE_COUNT\<rparr> else cf1);
                mg = \<lparr>mg_active = None, mg_immutable = [], max_immutable_count = cf_max_immutable_count cf, mg_config = cf,
                      global_seq_num = seq_num_start cf, mg_stats = zero_manager_stats,
                      mg_name = take 63 (case name of Some nm \<Rightarrow> nm | None \<Rightarrow> ''manager_'' @ print_dec now),
                      mg_creation_time = now, mg_next = 0\<rparr>;
                (ok2, h2) = malloc h1 in
        if \<not> ok2 then (None, h2)
        else if \<not> lock_ok then (None, h2)
        else (case create_new_active_memtable h2 env mg of
            (r, mg1, h3) \<Rightarrow>
              if r \<noteq> KV_ERR_NONE then (None, h3)
              else (Some (mg1\<lparr>mg_stats := zero_manager_stats\<lparr>ms_total_memtables := 1, ms_active_memtables := 1\<rparr>\<rparr>), h3))))"

text \<open>The entries in the order they are freed.\<close>

definition lsm_memtable_manager_destroy :: "lsm_memtable_manager \<Rightarrow> lsm_memtable_entry list" where
  "lsm_memtable_manager_destroy mg =
     (case mg_active mg of None \<Rightarrow> [] | Some x \<Rightarrow> lsm_memtable_destroy (snd x)) @
     concat (map (lsm_memtable_destroy \<circ> snd) (mg_immutable mg))"

section \<open>Writes\<close>

text \<open>
  The three steps that \<open>put\<close>, \<open>delete\<close> and \<open>freeze_active\<close> share: freeze the active table, append it to the array, create
  a new one. Each failure returns at once; the table stays frozen.
\<close>

definition rotate_active ::
  "script \<Rightarrow> fresh_env \<Rightarrow> lsm_memtable_manager \<Rightarrow> table_ref \<Rightarrow> int \<times> lsm_memtable_manager \<times> script" where
  "rotate_active h env mg = (\<lambda>(a, mt).
     (case lsm_memtable_freeze mt of
        (r, mt1) \<Rightarrow>
          if r \<noteq> KV_ERR_NONE then (r, mg, h)
          else (let mg1 = mg\<lparr>mg_active := Some (a, mt1)\<rparr> in
            (case add_immutable_memtable mg1 (a, mt1) of
               (r1, mg2) \<Rightarrow>
                 if r1 \<noteq> KV_ERR_NONE then (r1, mg2, h)
                 else (case create_new_active_memtable h env mg2 of
                     (r2, mg3, h1) \<Rightarrow>
                       if r2 \<noteq> KV_ERR_NONE then (r2, mg3, h1)
                       else (KV_ERR_NONE, mg3\<lparr>mg_stats := (mg_stats mg3)\<lparr>ms_freeze_count := ms_freeze_count (mg_stats mg3) + 1,
                              ms_switch_count := ms_switch_count (mg_stats mg3) + 1\<rparr>\<rparr>, h1))))))"

definition make_room :: "script \<Rightarrow> fresh_env \<Rightarrow> lsm_memtable_manager \<Rightarrow> int \<times> lsm_memtable_manager \<times> script" where
  "make_room h env mg =
     (case mg_active mg of
        None \<Rightarrow> (KV_ERR_NONE, mg, h)
      | Some x \<Rightarrow> if auto_freeze (mg_config mg) \<and> lsm_memtable_is_full (snd x) then rotate_active h env mg x else (KV_ERR_NONE, mg, h))"

definition lsm_memtable_manager_put ::
  "script \<Rightarrow> fresh_env \<Rightarrow> nat \<Rightarrow> lsm_memtable_manager \<Rightarrow> bytes option \<Rightarrow> bytes option \<Rightarrow> nat \<Rightarrow> (int \<times> lsm_memtable_manager \<times> script) outcome" where
  "lsm_memtable_manager_put h env now mg key_p value_p value_len =
     (if key_p = None \<or> key_p = Some [] then Inr (KV_ERR_PARAM, mg, h)
      else (case make_room h env mg of
          (r, mg1, h1) \<Rightarrow>
            if r \<noteq> KV_ERR_NONE then Inr (r, mg1, h1)
            else (case mg_active mg1 of
                None \<Rightarrow> Inr (KV_ERR_PARAM, mg1, h1)
              | Some (a, mt) \<Rightarrow>
                  obind (lsm_memtable_put h1 now mt key_p value_p value_len) (\<lambda>(r1, mt1, h2).
                    (let mg2 = mg1\<lparr>mg_active := Some (a, mt1)\<rparr> in
                     Inr (r1, if r1 = KV_ERR_NONE
                       then update_manager_stats (mg2\<lparr>mg_stats := (mg_stats mg2)\<lparr>ms_write_count := ms_write_count (mg_stats mg2) + 1\<rparr>\<rparr>)
                       else mg2, h2))))))"

definition lsm_memtable_manager_delete ::
  "script \<Rightarrow> fresh_env \<Rightarrow> nat \<Rightarrow> lsm_memtable_manager \<Rightarrow> bytes option \<Rightarrow> (int \<times> lsm_memtable_manager \<times> script) outcome" where
  "lsm_memtable_manager_delete h env now mg key_p =
     (if key_p = None \<or> key_p = Some [] then Inr (KV_ERR_PARAM, mg, h)
      else (case make_room h env mg of
          (r, mg1, h1) \<Rightarrow>
            if r \<noteq> KV_ERR_NONE then Inr (r, mg1, h1)
            else (case mg_active mg1 of
                None \<Rightarrow> Inr (KV_ERR_PARAM, mg1, h1)
              | Some (a, mt) \<Rightarrow>
                  obind (lsm_memtable_delete h1 now mt key_p) (\<lambda>(r1, mt1, h2).
                    (let mg2 = mg1\<lparr>mg_active := Some (a, mt1)\<rparr> in
                     Inr (r1, if r1 = KV_ERR_NONE
                       then update_manager_stats (mg2\<lparr>mg_stats := (mg_stats mg2)\<lparr>ms_delete_count := ms_delete_count (mg_stats mg2) + 1\<rparr>\<rparr>)
                       else mg2, h2))))))"

section \<open>Reads\<close>

definition lsm_memtable_lookup_result_init :: lsm_memtable_lookup_result where
  "lsm_memtable_lookup_result_init = \<lparr>lr_value = None, lr_value_len = 0, lr_seq = 0, lr_deleted = False, lr_found = False, lr_source = None\<rparr>"

definition result_of :: "nat \<Rightarrow> get_result \<Rightarrow> lsm_memtable_lookup_result" where
  "result_of a g = \<lparr>lr_value = out_value g, lr_value_len = out_value_len g, lr_seq = out_seq g, lr_deleted = out_deleted g,
     lr_found = True, lr_source = Some a\<rparr>"

text \<open>The frozen tables, the newest first. A later table wins only with a larger sequence number.\<close>

fun search_immutables ::
  "script \<Rightarrow> bytes \<Rightarrow> table_ref list \<Rightarrow> lsm_memtable_lookup_result \<Rightarrow> table_ref list \<times> lsm_memtable_lookup_result \<times> script" where
  "search_immutables h k [] res = ([], res, h)"
| "search_immutables h k ((a, mt) # xs) res =
     (case lsm_memtable_get h mt (Some k) of
        (r, g, mt1, h1) \<Rightarrow>
          (let res1 = (case g of
                 None \<Rightarrow> res
               | Some g1 \<Rightarrow> if r = KV_ERR_NONE \<and> (\<not> lr_found res \<or> out_seq g1 > lr_seq res) then result_of a g1 else res);
               (ys, res2, h2) = search_immutables h1 k xs res1 in
           ((a, mt1) # ys, res2, h2)))"

definition lsm_memtable_manager_get ::
  "script \<Rightarrow> lsm_memtable_manager \<Rightarrow> bytes option \<Rightarrow> int \<times> lsm_memtable_lookup_result option \<times> lsm_memtable_manager \<times> script" where
  "lsm_memtable_manager_get h mg key_p =
     (case key_p of
        None \<Rightarrow> (KV_ERR_PARAM, None, mg, h)
      | Some k \<Rightarrow>
          if k = [] then (KV_ERR_PARAM, None, mg, h)
          else (case (case mg_active mg of
              None \<Rightarrow> (None, lsm_memtable_lookup_result_init, h)
            | Some (a, mt) \<Rightarrow>
                (case lsm_memtable_get h mt (Some k) of
                   (r, g, mt1, h1) \<Rightarrow>
                     (Some (a, mt1), case g of None \<Rightarrow> lsm_memtable_lookup_result_init
                        | Some g1 \<Rightarrow> if r = KV_ERR_NONE then result_of a g1 else lsm_memtable_lookup_result_init, h1))) of
              (act, res, h1) \<Rightarrow>
                (case search_immutables h1 k (rev (mg_immutable mg)) res of
                   (ys, res1, h2) \<Rightarrow>
                     (if lr_found res1 then KV_ERR_NONE else KV_ERR_NOT_FOUND, Some res1,
                      mg\<lparr>mg_active := act, mg_immutable := rev ys,
                         mg_stats := (mg_stats mg)\<lparr>ms_read_count := ms_read_count (mg_stats mg) + 1\<rparr>\<rparr>, h2))))"

text \<open>The result structure after the call: the value has been handed over or there is none.\<close>

definition lsm_memtable_manager_get_compat ::
  "script \<Rightarrow> lsm_memtable_manager \<Rightarrow> bytes option \<Rightarrow> int \<times> get_result option \<times> lsm_memtable_manager \<times> script" where
  "lsm_memtable_manager_get_compat h mg key_p =
     (if key_p = None then (KV_ERR_INVALID_PARAM, None, mg, h)
      else (case lsm_memtable_manager_get h mg key_p of
          (r, res, mg1, h1) \<Rightarrow>
            (r, Some (case res of
                 Some l \<Rightarrow>
                   if r = KV_ERR_NONE \<and> lr_found l
                   then \<lparr>out_value = lr_value l, out_value_len = lr_value_len l, out_seq = lr_seq l, out_deleted = lr_deleted l\<rparr>
                   else \<lparr>out_value = None, out_value_len = 0, out_seq = 0, out_deleted = False\<rparr>
               | None \<Rightarrow> \<lparr>out_value = None, out_value_len = 0, out_seq = 0, out_deleted = False\<rparr>), mg1, h1)))"

section \<open>Management\<close>

definition lsm_memtable_manager_freeze_active :: "script \<Rightarrow> fresh_env \<Rightarrow> lsm_memtable_manager \<Rightarrow> int \<times> lsm_memtable_manager \<times> script" where
  "lsm_memtable_manager_freeze_active h env mg =
     (case mg_active mg of
        None \<Rightarrow> (KV_ERR_PARAM, mg, h)
      | Some x \<Rightarrow>
          (case rotate_active h env mg x of
             (r, mg1, h1) \<Rightarrow> (r, if r = KV_ERR_NONE then update_manager_stats mg1 else mg1, h1)))"

definition lsm_memtable_manager_flush_all :: "script \<Rightarrow> fresh_env \<Rightarrow> lsm_memtable_manager \<Rightarrow> int \<times> lsm_memtable_manager \<times> script" where
  "lsm_memtable_manager_flush_all h env mg = lsm_memtable_manager_freeze_active h env mg"

definition lsm_memtable_manager_get_oldest_immutable :: "lsm_memtable_manager \<Rightarrow> table_ref option" where
  "lsm_memtable_manager_get_oldest_immutable mg = (case mg_immutable mg of [] \<Rightarrow> None | x # xs \<Rightarrow> Some x)"

text \<open>With the entries that are freed.\<close>

definition lsm_memtable_manager_remove_oldest_immutable :: "lsm_memtable_manager \<Rightarrow> int \<times> lsm_memtable_manager \<times> lsm_memtable_entry list" where
  "lsm_memtable_manager_remove_oldest_immutable mg =
     (case mg_immutable mg of
        [] \<Rightarrow> (KV_ERR_NOT_FOUND, mg, [])
      | oldest # xs \<Rightarrow>
          (case remove_immutable_memtable_at mg 0 of
             (r, mg1) \<Rightarrow>
               if r = KV_ERR_NONE
               then (r, update_manager_stats (mg1\<lparr>mg_stats := (mg_stats mg1)\<lparr>ms_flush_count := ms_flush_count (mg_stats mg1) + 1\<rparr>\<rparr>),
                     lsm_memtable_destroy (snd oldest))
               else (r, mg1, [])))"

fun index_of :: "nat \<Rightarrow> table_ref list \<Rightarrow> int \<Rightarrow> int" where
  "index_of a [] i = -1"
| "index_of a (x # xs) i = (if fst x = a then i else index_of a xs (i + 1))"

definition lsm_memtable_manager_remove_specific_immutable :: "lsm_memtable_manager \<Rightarrow> nat option \<Rightarrow> int \<times> lsm_memtable_manager" where
  "lsm_memtable_manager_remove_specific_immutable mg memtable_p =
     (case memtable_p of
        None \<Rightarrow> (KV_ERR_PARAM, mg)
      | Some a \<Rightarrow>
          (let i = index_of a (mg_immutable mg) 0 in
           if i < 0 then (KV_ERR_NOT_FOUND, mg)
           else (case remove_immutable_memtable_at mg i of
               (r, mg1) \<Rightarrow>
                 (r, if r = KV_ERR_NONE
                     then update_manager_stats (mg1\<lparr>mg_stats := (mg_stats mg1)\<lparr>ms_flush_count := ms_flush_count (mg_stats mg1) + 1\<rparr>\<rparr>)
                     else mg1))))"

definition lsm_memtable_manager_switch_active :: "script \<Rightarrow> fresh_env \<Rightarrow> lsm_memtable_manager \<Rightarrow> int \<times> lsm_memtable_manager \<times> script" where
  "lsm_memtable_manager_switch_active h env mg =
     (case (case mg_active mg of
         None \<Rightarrow> (KV_ERR_NONE, mg)
       | Some (a, mt) \<Rightarrow>
           if lsm_memtable_is_empty mt then (KV_ERR_NONE, mg)
           else (case lsm_memtable_freeze mt of
               (r, mt1) \<Rightarrow>
                 if r \<noteq> KV_ERR_NONE then (r, mg)
                 else (case add_immutable_memtable (mg\<lparr>mg_active := Some (a, mt1)\<rparr>) (a, mt1) of
                     (r1, mg1) \<Rightarrow>
                       (r1, if r1 = KV_ERR_NONE
                            then mg1\<lparr>mg_stats := (mg_stats mg1)\<lparr>ms_freeze_count := ms_freeze_count (mg_stats mg1) + 1\<rparr>\<rparr>
                            else mg1)))) of
        (r, mg1) \<Rightarrow>
          if r \<noteq> KV_ERR_NONE then (r, mg1, h)
          else (case create_new_active_memtable h env mg1 of
              (r2, mg2, h1) \<Rightarrow>
                (r2, update_manager_stats (mg2\<lparr>mg_stats := (mg_stats mg2)\<lparr>ms_switch_count := ms_switch_count (mg_stats mg2) + 1\<rparr>\<rparr>), h1)))"

section \<open>Status\<close>

definition lsm_memtable_manager_should_freeze :: "lsm_memtable_manager \<Rightarrow> bool" where
  "lsm_memtable_manager_should_freeze mg = (case mg_active mg of None \<Rightarrow> False | Some x \<Rightarrow> lsm_memtable_is_full (snd x))"

definition lsm_memtable_manager_should_flush :: "lsm_memtable_manager \<Rightarrow> bool" where
  "lsm_memtable_manager_should_flush mg \<longleftrightarrow> int (length (mg_immutable mg)) \<ge> max_immutable_count mg div 2"

definition lsm_memtable_manager_get_stats :: "lsm_memtable_manager \<Rightarrow> int \<times> lsm_memtable_manager_stats \<times> lsm_memtable_manager" where
  "lsm_memtable_manager_get_stats mg = (let mg1 = update_manager_stats mg in (KV_ERR_NONE, mg_stats mg1, mg1))"

definition lsm_memtable_manager_get_active_count :: "lsm_memtable_manager \<Rightarrow> int" where
  "lsm_memtable_manager_get_active_count mg = (if mg_active mg = None then 0 else 1)"

definition lsm_memtable_manager_get_immutable_count :: "lsm_memtable_manager \<Rightarrow> int" where
  "lsm_memtable_manager_get_immutable_count mg = int (length (mg_immutable mg))"

definition lsm_memtable_manager_create_compat ::
  "script \<Rightarrow> bool \<Rightarrow> nat \<Rightarrow> fresh_env \<Rightarrow> 64 word \<Rightarrow> int \<Rightarrow> lsm_memtable_manager option \<times> script" where
  "lsm_memtable_manager_create_compat h lock_ok now env memtable_size max_immutable =
     lsm_memtable_manager_create h lock_ok now env
       (Some (lsm_memtable_manager_default_config\<lparr>memtable_max_size := memtable_size, cf_max_immutable_count := max_immutable\<rparr>)) (Some ''compat'')"

end
