(* ===== verification/Memtable_Store.thy ===== *)
theory Memtable_Store
  imports Memtable_Manager
begin

text \<open>
  The manager as a store of versions: each table holds at most one version of a key; writes add a version in front, a
  rotation keeps all of them, and a read picks the version with the largest sequence number. Runs of
  writes refine a map; reads agree with it as long as the numbers grow from table to table, which the code does not ensure.
\<close>

section \<open>Versions\<close>

fun vers :: "bytes \<Rightarrow> table_ref list \<Rightarrow> (nat \<times> lsm_memtable_entry) list" where
  "vers k [] = []"
| "vers k ((a, mt) # xs) = (case mt_map mt k of None \<Rightarrow> vers k xs | Some e \<Rightarrow> (a, e) # vers k xs)"

lemma vers_append [simp]: "vers k (xs @ ys) = vers k xs @ vers k ys"
  by (induction k xs rule: vers.induct) (simp_all split: option.split)

definition active_list :: "lsm_memtable_manager \<Rightarrow> table_ref list" where
  "active_list mg = (case mg_active mg of None \<Rightarrow> [] | Some x \<Rightarrow> [x])"

definition frozen_versions :: "lsm_memtable_manager \<Rightarrow> bytes \<Rightarrow> (nat \<times> lsm_memtable_entry) list" where
  "frozen_versions mg k = vers k (rev (mg_immutable mg))"

text \<open>All versions of a key, those of newer tables first.\<close>

definition versions :: "lsm_memtable_manager \<Rightarrow> bytes \<Rightarrow> (nat \<times> lsm_memtable_entry) list" where
  "versions mg k = vers k (active_list mg) @ frozen_versions mg k"

definition newest :: "lsm_memtable_manager \<Rightarrow> bytes \<rightharpoonup> lsm_memtable_entry" where
  "newest mg k = (case versions mg k of [] \<Rightarrow> None | v # _ \<Rightarrow> Some (snd v))"

text \<open>The choice of a read: a later version only with a larger number.\<close>

fun pick_version :: "(nat \<times> lsm_memtable_entry) option \<Rightarrow> (nat \<times> lsm_memtable_entry) list \<Rightarrow> (nat \<times> lsm_memtable_entry) option" where
  "pick_version acc [] = acc"
| "pick_version acc (v # vs) =
     pick_version (case acc of None \<Rightarrow> Some v | Some w \<Rightarrow> if eseq (snd v) > eseq (snd w) then Some v else Some w) vs"

lemma pickv_Some:
  "pick_version (Some w) vs \<noteq> None"
  "pick_version (Some w) vs = Some v \<Longrightarrow> v \<in> set (w # vs) \<and> (\<forall>x\<in>set (w # vs). eseq (snd x) \<le> eseq (snd v))"
  by (induction vs arbitrary: w) (auto split: if_splits; force)+

lemma pickv_keeps: "\<forall>x\<in>set vs. eseq (snd x) \<le> eseq (snd w) \<Longrightarrow> pick_version (Some w) vs = Some w"
  by (induction vs) (auto simp: not_less)

lemma pickv_None [simp]: "pick_version None vs = None \<longleftrightarrow> vs = []"
  by (cases vs) (simp_all add: pickv_Some(1))

text \<open>A choice is the newest of several exactly when no other has a larger number.\<close>

lemma pickv_first:
  "pick_version None (v # vs) = Some v \<longleftrightarrow> (\<forall>x\<in>set vs. eseq (snd x) \<le> eseq (snd v))"
  using pickv_keeps[of vs v] pickv_Some(2)[of v vs v] by auto

section \<open>Invariant\<close>

definition table_ok :: "table_ref \<Rightarrow> bool" where
  "table_ok x \<longleftrightarrow> memtable_inv (snd x) \<and> is_immutable (snd x)"

definition mgr_inv :: "lsm_memtable_manager \<Rightarrow> bool" where
  "mgr_inv mg \<longleftrightarrow> (\<exists>x. mg_active mg = Some x \<and> memtable_inv (snd x)) \<and> list_all table_ok (mg_immutable mg) \<and>
     int (length (mg_immutable mg)) \<le> max_immutable_count mg \<and> 0 < max_immutable_count mg \<and>
     distinct (map fst (active_list mg @ mg_immutable mg)) \<and> (\<forall>x\<in>set (active_list mg @ mg_immutable mg). fst x < mg_next mg)"

definition writable :: "lsm_memtable_manager \<Rightarrow> bool" where
  "writable mg \<longleftrightarrow> (\<forall>x. mg_active mg = Some x \<longrightarrow> \<not> is_immutable (snd x))"

definition roomy :: "lsm_memtable_manager \<Rightarrow> bool" where
  "roomy mg \<longleftrightarrow> int (length (mg_immutable mg)) < max_immutable_count mg"

definition same_setup :: "lsm_memtable_manager \<Rightarrow> lsm_memtable_manager \<Rightarrow> bool" where
  "same_setup mg mg' \<longleftrightarrow> mg_config mg' = mg_config mg \<and> max_immutable_count mg' = max_immutable_count mg"

lemma inv_active:
  assumes "mgr_inv mg"
  obtains a mt where "mg_active mg = Some (a, mt)" "memtable_inv mt" "active_list mg = [(a, mt)]"
  using assms that by (auto simp: mgr_inv_def active_list_def)

text \<open>Statistics do not matter.\<close>

lemma stats_irrelevant [simp]:
  "mgr_inv (mg\<lparr>mg_stats := s\<rparr>) = mgr_inv mg" "versions (mg\<lparr>mg_stats := s\<rparr>) = versions mg" "writable (mg\<lparr>mg_stats := s\<rparr>) = writable mg"
  "frozen_versions (mg\<lparr>mg_stats := s\<rparr>) = frozen_versions mg" "same_setup m (mg\<lparr>mg_stats := s\<rparr>) = same_setup m mg"
  "mgr_inv (update_manager_stats mg) = mgr_inv mg" "versions (update_manager_stats mg) = versions mg"
  "frozen_versions (update_manager_stats mg) = frozen_versions mg"
  "writable (update_manager_stats mg) = writable mg" "same_setup m (update_manager_stats mg) = same_setup m mg"
  "mg_active (update_manager_stats mg) = mg_active mg" "mg_immutable (update_manager_stats mg) = mg_immutable mg"
  by (simp_all add: mgr_inv_def versions_def fun_eq_iff frozen_versions_def active_list_def writable_def same_setup_def
      update_manager_stats_def Let_def)

lemma same_setup_refl [simp]: "same_setup mg mg" by (simp add: same_setup_def)

lemma same_setup_trans: "same_setup a b \<Longrightarrow> same_setup b c \<Longrightarrow> same_setup a c" by (simp add: same_setup_def)

text \<open>Replacing the active table by one at the same address.\<close>

lemma inv_active_upd:
  assumes "mgr_inv mg" "mg_active mg = Some (a, mt)" "memtable_inv mt'"
  shows "mgr_inv (mg\<lparr>mg_active := Some (a, mt')\<rparr>)"
  using assms by (simp add: mgr_inv_def active_list_def)

section \<open>Rotation\<close>

lemma fresh_table:
  assumes "lsm_memtable_create [] True now sz nm = (r, h)"
  obtains mt where "r = Some mt" "h = []" "memtable_inv mt" "\<not> is_immutable mt" "mt_map mt = Map.empty" "mseq mt = 1"
    "max_size mt = (if sz > 0 then sz else LSM_MEMTABLE_DEFAULT_SIZE)" "msize mt = 0"
  using assms that
  by (auto simp: lsm_memtable_create_def memtable_inv_def mt_map_def zero_stats_def map_sum_of_def)

lemma create_active_ok:
  assumes "fst env"
  shows "\<exists>mt. create_new_active_memtable [] env mg =
      (KV_ERR_NONE, mg\<lparr>mg_active := Some (mg_next mg, mt), mg_next := mg_next mg + 1\<rparr>, []) \<and>
    memtable_inv mt \<and> \<not> is_immutable mt \<and> mt_map mt = Map.empty \<and> mseq mt = 1"
proof -
  obtain tn tc where env: "env = (True, tn, tc)" using assms by (cases env) auto
  let ?nm = "Some (take 127 (name_prefix (mg_config mg) @ ''_active_'' @ print_dec tn))"
  obtain r h where c: "lsm_memtable_create [] True tc (memtable_max_size (mg_config mg)) ?nm = (r, h)" by fastforce
  from fresh_table[OF c] obtain mt where "r = Some mt" "h = []" "memtable_inv mt" "\<not> is_immutable mt" "mt_map mt = Map.empty" "mseq mt = 1"
    by metis
  with c show ?thesis by (auto simp: create_new_active_memtable_def env)
qed

lemma freeze_inv: "memtable_inv mt \<Longrightarrow> memtable_inv (mt\<lparr>is_immutable := True\<rparr>)"
  by (simp add: memtable_inv_def mt_map_def)

lemma freeze_map [simp]: "mt_map (mt\<lparr>is_immutable := True\<rparr>) = mt_map mt"
  by (simp add: mt_map_def)

lemma rotate_ok:
  assumes inv: "mgr_inv mg" and act: "mg_active mg = Some (a, mt)" and room: "roomy mg" and env: "fst env"
  shows "\<exists>mg' b mt'. rotate_active [] env mg (a, mt) = (KV_ERR_NONE, mg', []) \<and> mgr_inv mg' \<and> writable mg' \<and> versions mg' = versions mg \<and>
    same_setup mg mg' \<and> mg_immutable mg' = mg_immutable mg @ [(a, mt\<lparr>is_immutable := True\<rparr>)] \<and>
    mg_active mg' = Some (b, mt') \<and> mseq mt' = 1"
proof -
  let ?x = "(a, mt\<lparr>is_immutable := True\<rparr>)"
  let ?mg2 = "mg\<lparr>mg_active := Some ?x, mg_immutable := mg_immutable mg @ [?x]\<rparr>"
  from create_active_ok[OF env, of ?mg2] obtain mt' where c: "create_new_active_memtable [] env ?mg2 =
      (KV_ERR_NONE, ?mg2\<lparr>mg_active := Some (mg_next mg, mt'), mg_next := mg_next mg + 1\<rparr>, [])"
    and mt': "memtable_inv mt'" "\<not> is_immutable mt'" "mt_map mt' = Map.empty" "mseq mt' = 1" by auto
  let ?mg3 = "?mg2\<lparr>mg_active := Some (mg_next mg, mt'), mg_next := mg_next mg + 1\<rparr>"
  let ?s = "(mg_stats ?mg3)\<lparr>ms_freeze_count := ms_freeze_count (mg_stats ?mg3) + 1, ms_switch_count := ms_switch_count (mg_stats ?mg3) + 1\<rparr>"
  have r: "rotate_active [] env mg (a, mt) = (KV_ERR_NONE, ?mg3\<lparr>mg_stats := ?s\<rparr>, [])"
    using c room by (simp add: rotate_active_def lsm_memtable_freeze_def add_immutable_memtable_def roomy_def Let_def)
  have "mgr_inv ?mg3"
    using inv act room mt'(1) freeze_inv by (auto simp: mgr_inv_def active_list_def table_ok_def roomy_def less_Suc_eq)
  moreover have "versions ?mg3 = versions mg"
    using act mt'(3) by (auto simp: versions_def frozen_versions_def active_list_def fun_eq_iff split: option.split)
  moreover have "writable ?mg3" using mt'(2) by (simp add: writable_def)
  moreover have "same_setup mg ?mg3" by (simp add: same_setup_def)
  ultimately show ?thesis
    using r mt'(4) by (intro exI[of _ "?mg3\<lparr>mg_stats := ?s\<rparr>"] exI[of _ "mg_next mg"] exI[of _ mt']) simp
qed

lemma rotate_full:
  assumes "\<not> roomy mg"
  shows "rotate_active h env mg (a, mt) = (KV_ERR_MEM, mg\<lparr>mg_active := Some (a, mt\<lparr>is_immutable := True\<rparr>)\<rparr>, h)"
  using assms by (simp add: rotate_active_def lsm_memtable_freeze_def add_immutable_memtable_def roomy_def Let_def)

text \<open>Before a write: rotated or not, the versions are the same and the active table takes writes.\<close>

lemma make_room_ok:
  assumes inv: "mgr_inv mg" and w: "writable mg" and room: "roomy mg" and env: "fst env"
  shows "\<exists>mg'. make_room [] env mg = (KV_ERR_NONE, mg', []) \<and> mgr_inv mg' \<and> writable mg' \<and> versions mg' = versions mg \<and>
    same_setup mg mg' \<and> length (mg_immutable mg') \<le> Suc (length (mg_immutable mg))"
proof -
  from inv obtain a mt where act: "mg_active mg = Some (a, mt)" by (rule inv_active)
  show ?thesis
  proof (cases "auto_freeze (mg_config mg) \<and> lsm_memtable_is_full mt")
    case True
    with rotate_ok[OF inv act room env] act show ?thesis by (auto simp: make_room_def)
  next
    case False
    with inv w act show ?thesis by (auto simp: make_room_def)
  qed
qed

section \<open>Writes\<close>

text \<open>A version written to the active table comes before all others.\<close>

lemma active_write:
  assumes inv: "mgr_inv mg" and act: "mg_active mg = Some (a, mt)" and mt': "memtable_inv mt'" "\<not> is_immutable mt'"
    and m: "mt_map mt' = (mt_map mt)(k \<mapsto> e)"
  shows "mgr_inv (mg\<lparr>mg_active := Some (a, mt')\<rparr>)" "writable (mg\<lparr>mg_active := Some (a, mt')\<rparr>)"
    "newest (mg\<lparr>mg_active := Some (a, mt')\<rparr>) = (newest mg)(k \<mapsto> e)"
    "versions (mg\<lparr>mg_active := Some (a, mt')\<rparr>) k = (a, e) # frozen_versions mg k"
  using inv_active_upd[OF inv act mt'(1)] act mt'(2) m
  by (auto simp: writable_def newest_def versions_def frozen_versions_def active_list_def fun_eq_iff split: option.split)

lemma newest_cong: "versions mg = versions mg' \<Longrightarrow> newest mg = newest mg'"
  by (simp add: newest_def fun_eq_iff)

text \<open>The frozen versions do not depend on the statistics or the active table.\<close>

lemma frozen_upd [simp]:
  "frozen_versions (mg\<lparr>mg_active := x\<rparr>) = frozen_versions mg" "same_setup m (mg\<lparr>mg_active := x\<rparr>) = same_setup m mg"
  "newest (mg\<lparr>mg_stats := s\<rparr>) = newest mg" "newest (update_manager_stats mg) = newest mg"
  by (auto simp: frozen_versions_def same_setup_def intro: newest_cong)

lemma put_after_room:
  assumes room: "make_room [] env mg = (KV_ERR_NONE, mg1, [])" and mg1: "mgr_inv mg1" "writable mg1" and k: "k \<noteq> []" and v: "value_arg v n"
  shows "\<exists>mg' a sq. lsm_memtable_manager_put [] env now mg (Some k) v n = Inr (KV_ERR_NONE, mg', []) \<and> mgr_inv mg' \<and> writable mg' \<and>
    same_setup mg1 mg' \<and> mg_immutable mg' = mg_immutable mg1 \<and>
    newest mg' = (newest mg1)(k \<mapsto> put_entry k v n sq now) \<and> versions mg' k = (a, put_entry k v n sq now) # frozen_versions mg' k"
proof -
  from mg1(1) obtain a mt where act: "mg_active mg1 = Some (a, mt)" "memtable_inv mt" by (rule inv_active)
  have "\<not> is_immutable mt" using mg1(2) act(1) by (simp add: writable_def)
  from lsm_memtable_put_ok[OF act(2) this k v, of now] obtain mt' where mt': "lsm_memtable_put [] now mt (Some k) v n = Inr (KV_ERR_NONE, mt', [])"
    "memtable_inv mt'" "\<not> is_immutable mt'" "mt_map mt' = (mt_map mt)(k \<mapsto> put_entry k v n (mseq mt + 1) now)" by blast
  note aw = active_write[OF mg1(1) act(1) mt'(2-4)]
  show ?thesis using room act(1) mt'(1) k aw by (auto simp: lsm_memtable_manager_put_def Let_def)
qed

lemma put_ok:
  assumes inv: "mgr_inv mg" and w: "writable mg" and room: "roomy mg" and env: "fst env" and k: "k \<noteq> []" and v: "value_arg v n"
  shows "\<exists>mg' a sq. lsm_memtable_manager_put [] env now mg (Some k) v n = Inr (KV_ERR_NONE, mg', []) \<and> mgr_inv mg' \<and> writable mg' \<and>
    same_setup mg mg' \<and> length (mg_immutable mg') \<le> Suc (length (mg_immutable mg)) \<and>
    newest mg' = (newest mg)(k \<mapsto> put_entry k v n sq now) \<and> versions mg' k = (a, put_entry k v n sq now) # frozen_versions mg' k"
proof -
  from make_room_ok[OF inv w room env] obtain mg1 where mg1: "make_room [] env mg = (KV_ERR_NONE, mg1, [])" "mgr_inv mg1" "writable mg1"
    "versions mg1 = versions mg" "same_setup mg mg1" "length (mg_immutable mg1) \<le> Suc (length (mg_immutable mg))" by blast
  have "newest mg1 = newest mg" by (rule newest_cong[OF mg1(4)])
  with put_after_room[OF mg1(1-3) k v, of now] mg1(5,6) same_setup_trans[OF mg1(5)] show ?thesis by fastforce
qed

lemma manager_delete_ok:
  assumes inv: "mgr_inv mg" and w: "writable mg" and room: "roomy mg" and env: "fst env" and k: "k \<noteq> []"
  shows "\<exists>mg' a sq. lsm_memtable_manager_delete [] env now mg (Some k) = Inr (KV_ERR_NONE, mg', []) \<and> mgr_inv mg' \<and> writable mg' \<and>
    same_setup mg mg' \<and> length (mg_immutable mg') \<le> Suc (length (mg_immutable mg)) \<and>
    newest mg' = (newest mg)(k \<mapsto> tombstone k sq now) \<and> versions mg' k = (a, tombstone k sq now) # frozen_versions mg' k"
proof -
  from make_room_ok[OF inv w room env] obtain mg1 where mg1: "make_room [] env mg = (KV_ERR_NONE, mg1, [])" "mgr_inv mg1" "writable mg1"
    "versions mg1 = versions mg" "same_setup mg mg1" "length (mg_immutable mg1) \<le> Suc (length (mg_immutable mg))" by blast
  from mg1(2) obtain a mt where act: "mg_active mg1 = Some (a, mt)" "memtable_inv mt" by (rule inv_active)
  have "\<not> is_immutable mt" using mg1(3) act(1) by (simp add: writable_def)
  from lsm_memtable_delete_ok[OF act(2) this k, of now] obtain mt' where mt': "lsm_memtable_delete [] now mt (Some k) = Inr (KV_ERR_NONE, mt', [])"
    "memtable_inv mt'" "\<not> is_immutable mt'" "mt_map mt' = (mt_map mt)(k \<mapsto> tombstone k (mseq mt + 1) now)" by blast
  note aw = active_write[OF mg1(2) act(1) mt'(2-4)]
  have "newest mg1 = newest mg" by (rule newest_cong[OF mg1(4)])
  then show ?thesis using mg1 act(1) mt'(1) k aw by (auto simp: lsm_memtable_manager_delete_def Let_def)
qed

lemma freeze_ok:
  assumes inv: "mgr_inv mg" and room: "roomy mg" and env: "fst env"
  shows "\<exists>mg'. lsm_memtable_manager_freeze_active [] env mg = (KV_ERR_NONE, mg', []) \<and> mgr_inv mg' \<and> writable mg' \<and>
    versions mg' = versions mg \<and> same_setup mg mg' \<and> length (mg_immutable mg') \<le> Suc (length (mg_immutable mg))"
proof -
  from inv obtain a mt where act: "mg_active mg = Some (a, mt)" by (rule inv_active)
  from rotate_ok[OF inv act room env] act show ?thesis by (auto simp: lsm_memtable_manager_freeze_active_def)
qed

section \<open>Reads\<close>

definition render :: "(nat \<times> lsm_memtable_entry) option \<Rightarrow> lsm_memtable_lookup_result" where
  "render v = (case v of None \<Rightarrow> lsm_memtable_lookup_result_init | Some (a, e) \<Rightarrow> result_of a (get_of e))"

lemma render_sel [simp]:
  "lr_found (render v) \<longleftrightarrow> v \<noteq> None" "lr_seq (render (Some w)) = eseq (snd w)" "out_seq (get_of e) = eseq e"
  by (auto simp: render_def lsm_memtable_lookup_result_init_def result_of_def get_of_def split: option.split prod.split)

lemma get_keeps_flag: "lsm_memtable_get h mt k = (r, g, mt', h') \<Longrightarrow> is_immutable mt' = is_immutable mt"
  by (auto simp: lsm_memtable_get_def Let_def split: option.splits if_splits rbtree_node.splits prod.splits)

lemma search_immutables_ok:
  assumes "list_all table_ok xs" "k \<noteq> []"
  shows "\<exists>ys. search_immutables [] k xs (render acc) = (ys, render (pick_version acc (vers k xs)), []) \<and> list_all table_ok ys \<and>
    map fst ys = map fst xs \<and> (\<forall>k'. vers k' ys = vers k' xs)"
  using assms(1)
proof (induction xs arbitrary: acc)
  case (Cons x xs)
  obtain a mt where x: "x = (a, mt)" by (cases x)
  have mt: "memtable_inv mt" "is_immutable mt" using Cons.prems x by (simp_all add: table_ok_def)
  from lsm_memtable_get_ok[OF mt(1) assms(2)] obtain mt' where g: "lsm_memtable_get [] mt (Some k) =
    (if k \<in> dom (mt_map mt) then KV_ERR_NONE else KV_ERR_NOT_FOUND, map_option get_of (mt_map mt k), mt', [])"
    "mt_map mt' = mt_map mt" "memtable_inv mt'" by blast
  then have mt': "table_ok (a, mt')" using mt(2) get_keeps_flag[OF g(1)] by (simp add: table_ok_def)
  show ?case
  proof (cases "mt_map mt k")
    case None
    from Cons.IH[of acc] Cons.prems obtain ys where "search_immutables [] k xs (render acc) = (ys, render (pick_version acc (vers k xs)), [])"
      "list_all table_ok ys" "map fst ys = map fst xs" "\<forall>k'. vers k' ys = vers k' xs" by auto
    with None x g mt' show ?thesis by (auto split: option.split)
  next
    case (Some e)
    let ?acc = "case acc of None \<Rightarrow> Some (a, e) | Some w \<Rightarrow> if eseq e > eseq (snd w) then Some (a, e) else Some w"
    from Cons.IH[of ?acc] Cons.prems obtain ys where ys: "search_immutables [] k xs (render ?acc) = (ys, render (pick_version ?acc (vers k xs)), [])"
      "list_all table_ok ys" "map fst ys = map fst xs" "\<forall>k'. vers k' ys = vers k' xs" by auto
    have "result_of a (get_of e) = render (Some (a, e))" by (simp add: render_def)
    then have "(if \<not> lr_found (render acc) \<or> eseq e > lr_seq (render acc) then result_of a (get_of e) else render acc) = render ?acc"
      by (cases acc) simp_all
    with Some x g mt' ys show ?thesis by (auto simp: domI split: option.split)
  qed
qed simp

lemma get_ok:
  assumes inv: "mgr_inv mg" and k: "k \<noteq> []"
  shows "\<exists>mg'. lsm_memtable_manager_get [] mg (Some k) =
      (if versions mg k = [] then KV_ERR_NOT_FOUND else KV_ERR_NONE, Some (render (pick_version None (versions mg k))), mg', []) \<and>
    mgr_inv mg' \<and> versions mg' = versions mg \<and> writable mg' = writable mg \<and> same_setup mg mg' \<and> length (mg_immutable mg') = length (mg_immutable mg)"
proof -
  from inv obtain a mt where act: "mg_active mg = Some (a, mt)" "memtable_inv mt" "active_list mg = [(a, mt)]" by (rule inv_active)
  from lsm_memtable_get_ok[OF act(2) k] obtain mt' where g: "lsm_memtable_get [] mt (Some k) =
    (if k \<in> dom (mt_map mt) then KV_ERR_NONE else KV_ERR_NOT_FOUND, map_option get_of (mt_map mt k), mt', [])"
    "mt_map mt' = mt_map mt" "memtable_inv mt'" by blast
  let ?v = "map_option (Pair a) (mt_map mt k)"
  have "list_all table_ok (rev (mg_immutable mg))" using inv by (simp add: mgr_inv_def)
  from search_immutables_ok[OF this k, of ?v] obtain ys where ys: "search_immutables [] k (rev (mg_immutable mg)) (render ?v) =
      (ys, render (pick_version ?v (frozen_versions mg k)), [])" "list_all table_ok ys" "map fst ys = map fst (rev (mg_immutable mg))"
    "\<forall>k'. vers k' ys = vers k' (rev (mg_immutable mg))" by (auto simp: frozen_versions_def)
  have v: "pick_version None (versions mg k) = pick_version ?v (frozen_versions mg k)" "versions mg k = [] \<longleftrightarrow> pick_version ?v (frozen_versions mg k) = None"
    using act(3) by (auto simp: versions_def pickv_Some(1) split: option.split)
  have res: "(case map_option get_of (mt_map mt k) of None \<Rightarrow> lsm_memtable_lookup_result_init
      | Some g1 \<Rightarrow> if (if k \<in> dom (mt_map mt) then KV_ERR_NONE else KV_ERR_NOT_FOUND) = KV_ERR_NONE then result_of a g1
                    else lsm_memtable_lookup_result_init) = render ?v"
    by (auto simp: render_def domI split: option.split)
  let ?mg = "mg\<lparr>mg_active := Some (a, mt'), mg_immutable := rev ys, mg_stats := (mg_stats mg)\<lparr>ms_read_count := ms_read_count (mg_stats mg) + 1\<rparr>\<rparr>"
  have "lsm_memtable_manager_get [] mg (Some k) =
      (if versions mg k = [] then KV_ERR_NOT_FOUND else KV_ERR_NONE, Some (render (pick_version None (versions mg k))), ?mg, [])"
    using k act(1) g(1) ys(1) v res by (simp add: lsm_memtable_manager_get_def)
  moreover have "length ys = length (mg_immutable mg)" "map fst (rev ys) = map fst (mg_immutable mg)"
    using ys(3) by (metis length_map length_rev, metis rev_map rev_rev_ident)
  then have "mgr_inv ?mg"
  proof -
    have "fst ` set ys = fst ` set (mg_immutable mg)" using ys(3) by (metis list.set_map set_rev)
    moreover have "\<forall>b\<in>fst ` set (mg_immutable mg). b < mg_next mg" using inv by (auto simp: mgr_inv_def)
    ultimately have "\<forall>x\<in>set ys. fst x < mg_next mg" by (metis imageI)
    moreover have "map fst (active_list ?mg @ mg_immutable ?mg) = map fst (active_list mg @ mg_immutable mg)"
      using act(3) \<open>map fst (rev ys) = _\<close> by (simp add: active_list_def)
    then have "distinct (map fst (active_list ?mg @ mg_immutable ?mg))" using inv by (simp only: mgr_inv_def)
    ultimately show ?thesis using inv act g(3) ys(2) \<open>length ys = _\<close> by (simp add: mgr_inv_def active_list_def)
  qed
  moreover have "versions ?mg = versions mg" using act(3) g(2) ys(4) by (simp add: versions_def frozen_versions_def active_list_def fun_eq_iff)
  moreover have "writable ?mg = writable mg" using act(1) get_keeps_flag[OF g(1)] by (simp add: writable_def)
  moreover have "same_setup mg ?mg" "length (mg_immutable ?mg) = length (mg_immutable mg)" using \<open>length ys = _\<close> by (simp_all add: same_setup_def)
  ultimately show ?thesis by - (rule exI[of _ ?mg], intro conjI)
qed


section \<open>Runs\<close>

datatype mgr_op = MPut fresh_env nat bytes "bytes option" nat | MDel fresh_env nat bytes | MFreeze fresh_env | MGet bytes

fun mgr_step :: "mgr_op \<Rightarrow> lsm_memtable_manager \<Rightarrow> lsm_memtable_manager outcome" where
  "mgr_step (MPut env now k v n) mg = obind (lsm_memtable_manager_put [] env now mg (Some k) v n) (\<lambda>(r, mg1, h). Inr mg1)"
| "mgr_step (MDel env now k) mg = obind (lsm_memtable_manager_delete [] env now mg (Some k)) (\<lambda>(r, mg1, h). Inr mg1)"
| "mgr_step (MFreeze env) mg = (case lsm_memtable_manager_freeze_active [] env mg of (r, mg1, h) \<Rightarrow> Inr mg1)"
| "mgr_step (MGet k) mg = (case lsm_memtable_manager_get [] mg (Some k) of (r, res, mg1, h) \<Rightarrow> Inr mg1)"

fun mgr_run :: "mgr_op list \<Rightarrow> lsm_memtable_manager \<Rightarrow> lsm_memtable_manager outcome" where
  "mgr_run [] mg = Inr mg"
| "mgr_run (op # ops) mg = obind (mgr_step op mg) (mgr_run ops)"

fun mgr_op_ok :: "mgr_op \<Rightarrow> bool" where
  "mgr_op_ok (MPut env now k v n) \<longleftrightarrow> fst env \<and> k \<noteq> [] \<and> value_arg v n"
| "mgr_op_ok (MDel env now k) \<longleftrightarrow> fst env \<and> k \<noteq> []"
| "mgr_op_ok (MFreeze env) \<longleftrightarrow> fst env"
| "mgr_op_ok (MGet k) \<longleftrightarrow> k \<noteq> []"

text \<open>The specification: a map from keys to values, where a value may be empty.\<close>

fun mgr_spec :: "mgr_op \<Rightarrow> (bytes \<rightharpoonup> bytes option) \<Rightarrow> (bytes \<rightharpoonup> bytes option)" where
  "mgr_spec (MPut env now k v n) m = m(k \<mapsto> stored v)"
| "mgr_spec (MDel env now k) m = m(k := None)"
| "mgr_spec _ m = m"

definition live :: "lsm_memtable_manager \<Rightarrow> bytes \<rightharpoonup> bytes option" where
  "live mg k = (case newest mg k of None \<Rightarrow> None | Some e \<Rightarrow> if edeleted e then None else Some (evalue e))"

lemma live_upd:
  "newest mg' = (newest mg)(k \<mapsto> put_entry k v n sq now) \<Longrightarrow> live mg' = (live mg)(k \<mapsto> stored v)"
  "newest mg' = (newest mg)(k \<mapsto> tombstone k sq now) \<Longrightarrow> live mg' = (live mg)(k := None)"
  "versions mg' = versions mg \<Longrightarrow> live mg' = live mg"
  by (auto simp: live_def fun_eq_iff put_entry_def tombstone_def newest_def)

lemma mgr_step_ok:
  assumes "mgr_inv mg" "writable mg" "roomy mg" "mgr_op_ok op"
  shows "\<exists>mg'. mgr_step op mg = Inr mg' \<and> mgr_inv mg' \<and> writable mg' \<and> same_setup mg mg' \<and>
    length (mg_immutable mg') \<le> Suc (length (mg_immutable mg)) \<and> live mg' = mgr_spec op (live mg)"
proof (cases op)
  case (MPut env now k v n)
  with put_ok[OF assms(1-3), of env k v n now] assms(4) show ?thesis by (auto dest: live_upd(1))
next
  case (MDel env now k)
  with manager_delete_ok[OF assms(1-3), of env k now] assms(4) show ?thesis by (auto dest: live_upd(2))
next
  case (MFreeze env)
  with freeze_ok[OF assms(1,3), of env] assms(4) show ?thesis by (auto dest: live_upd(3))
next
  case (MGet k)
  with get_ok[OF assms(1), of k] assms(2,4) show ?thesis
    by (auto dest: live_upd(3))
qed

lemma mgr_run_ok:
  "mgr_inv mg \<Longrightarrow> writable mg \<Longrightarrow> list_all mgr_op_ok ops \<Longrightarrow> int (length (mg_immutable mg) + length ops) \<le> max_immutable_count mg \<Longrightarrow>
   \<exists>mg'. mgr_run ops mg = Inr mg' \<and> mgr_inv mg' \<and> writable mg' \<and> same_setup mg mg' \<and> live mg' = fold mgr_spec ops (live mg)"
proof (induction ops arbitrary: mg)
  case (Cons op ops)
  have "roomy mg" using Cons.prems(4) by (simp add: roomy_def)
  from mgr_step_ok[OF Cons.prems(1,2) this, of op] Cons.prems(3) obtain mg1 where mg1: "mgr_step op mg = Inr mg1" "mgr_inv mg1" "writable mg1"
    "same_setup mg mg1" "length (mg_immutable mg1) \<le> Suc (length (mg_immutable mg))" "live mg1 = mgr_spec op (live mg)" by auto
  then have "int (length (mg_immutable mg1) + length ops) \<le> max_immutable_count mg1" using Cons.prems(4) by (simp add: same_setup_def)
  from Cons.IH[OF mg1(2,3) _ this] Cons.prems(3) mg1 same_setup_trans[OF mg1(4)] show ?case by fastforce
qed simp

lemma mgr_create_ok:
  assumes "fst env" and "0 < cf_max_immutable_count cf"
  shows "\<exists>mg. lsm_memtable_manager_create [] True now env (Some cf) nm = (Some mg, []) \<and> mgr_inv mg \<and> writable mg \<and> mg_immutable mg = [] \<and>
    max_immutable_count mg = cf_max_immutable_count cf \<and> versions mg = (\<lambda>k. [])"
proof -
  let ?cf = "if memtable_max_size cf = 0 then cf\<lparr>memtable_max_size := DEFAULT_MEMTABLE_MAX_SIZE\<rparr> else cf"
  let ?mg = "\<lparr>mg_active = None, mg_immutable = [], max_immutable_count = cf_max_immutable_count cf, mg_config = ?cf,
                      global_seq_num = seq_num_start cf, mg_stats = zero_manager_stats,
                      mg_name = take 63 (case nm of Some nm \<Rightarrow> nm | None \<Rightarrow> ''manager_'' @ print_dec now),
                      mg_creation_time = now, mg_next = 0\<rparr>"
  from create_active_ok[OF assms(1), of ?mg] obtain mt where c: "create_new_active_memtable [] env ?mg =
      (KV_ERR_NONE, ?mg\<lparr>mg_active := Some (0, mt), mg_next := 1\<rparr>, [])" "memtable_inv mt" "\<not> is_immutable mt" "mt_map mt = Map.empty" by auto
  let ?mg1 = "?mg\<lparr>mg_active := Some (0, mt), mg_next := 1, mg_stats := zero_manager_stats\<lparr>ms_total_memtables := 1, ms_active_memtables := 1\<rparr>\<rparr>"
  have "lsm_memtable_manager_create [] True now env (Some cf) nm = (Some ?mg1, [])"
    using c(1) assms(2) by (auto simp: lsm_memtable_manager_create_def Let_def)
  moreover have "mgr_inv ?mg1" "writable ?mg1" "versions ?mg1 = (\<lambda>k. [])"
    using c(2-4) assms(2) by (auto simp: mgr_inv_def writable_def versions_def frozen_versions_def active_list_def)
  ultimately show ?thesis by (intro exI[of _ ?mg1]) simp
qed

section \<open>Properties\<close>

text \<open>
  C35: Writes through the manager, from its creation on: every run of puts, deletions, rotations and reads that is no longer than the
  array of frozen tables succeeds, and the newest versions of the keys are then what the writes say, whatever tables
  were frozen on the way; the manager stays well formed.
\<close>

theorem manager_run_refines:
  assumes "fst env" "int (length ops) \<le> cf_max_immutable_count cf" "0 < cf_max_immutable_count cf" "list_all mgr_op_ok ops"
  shows "\<exists>mg mg'. lsm_memtable_manager_create [] True now env (Some cf) nm = (Some mg, []) \<and> mgr_run ops mg = Inr mg' \<and> mgr_inv mg' \<and>
    live mg' = fold mgr_spec ops Map.empty"
proof -
  from mgr_create_ok[OF assms(1,3), of now nm] obtain mg where mg: "lsm_memtable_manager_create [] True now env (Some cf) nm = (Some mg, [])"
    "mgr_inv mg" "writable mg" "mg_immutable mg = []" "max_immutable_count mg = cf_max_immutable_count cf" "versions mg = (\<lambda>k. [])" by blast
  have "live mg = Map.empty" using mg(6) by (simp add: live_def newest_def fun_eq_iff)
  with mgr_run_ok[OF mg(2,3) assms(4)] mg(1,4,5) assms(2) show ?thesis by auto
qed

abbreviation ok_env :: fresh_env where "ok_env \<equiv> (True, 0, 0)"

definition sample_mgr_config :: lsm_memtable_manager_config where
  "sample_mgr_config = lsm_memtable_manager_default_config\<lparr>memtable_max_size := 100\<rparr>"

definition sample_mgr_ops :: "mgr_op list" where
  "sample_mgr_ops = [MPut ok_env 1 [97] (Some [1]) 1, MPut ok_env 2 [97] (Some [2]) 1, MFreeze ok_env, MPut ok_env 3 [97] (Some [3]) 1]"

theorem manager_run_refines_witness:
  "\<exists>mg mg'. lsm_memtable_manager_create [] True 0 ok_env (Some sample_mgr_config) None = (Some mg, []) \<and>
    mgr_run sample_mgr_ops mg = Inr mg' \<and> mgr_inv mg' \<and> live mg' = [[97] \<mapsto> Some [3]]"
proof -
  have "fold mgr_spec sample_mgr_ops Map.empty = [[97] \<mapsto> Some [3]]" by (simp add: sample_mgr_ops_def stored_def)
  with manager_run_refines[of ok_env sample_mgr_ops sample_mgr_config 0 None] show ?thesis
    by (simp add: sample_mgr_config_def sample_mgr_ops_def lsm_memtable_manager_default_config_def value_arg_def)
qed

text \<open>
  C36: A read of a key that has versions succeeds and returns one whose sequence number is the largest; it comes from the newest table that has
  the key exactly when no older table has a larger number for it.
\<close>

theorem manager_read_largest_number:
  assumes "mgr_inv mg" "k \<noteq> []" "versions mg k = (a, e) # vs"
  shows "\<exists>res mg'. lsm_memtable_manager_get [] mg (Some k) = (KV_ERR_NONE, Some res, mg', []) \<and> versions mg' = versions mg \<and>
    (\<exists>(b, f) \<in> set (versions mg k). res = result_of b (get_of f) \<and> (\<forall>(c, g) \<in> set (versions mg k). eseq g \<le> eseq f)) \<and>
    (res = result_of a (get_of e) \<longleftrightarrow> (\<forall>(c, g) \<in> set vs. eseq g \<le> eseq e))"
proof -
  obtain b f where bf: "pick_version None (versions mg k) = Some (b, f)" using assms(3) pickv_Some(1)[of "(a, e)" vs] by fastforce
  then have max: "(b, f) \<in> set (versions mg k)" "\<forall>x\<in>set (versions mg k). eseq (snd x) \<le> eseq f"
    using pickv_Some(2)[of "(a, e)" vs "(b, f)"] assms(3) by auto
  have src: "\<exists>mg'. lsm_memtable_manager_get [] mg (Some k) = (KV_ERR_NONE, Some (result_of b (get_of f)), mg', []) \<and> versions mg' = versions mg"
    using get_ok[OF assms(1,2)] assms(3) bf by (auto simp: render_def)
  have iff: "result_of b (get_of f) = result_of a (get_of e) \<longleftrightarrow> (\<forall>(c, g) \<in> set vs. eseq g \<le> eseq e)" (is "?l \<longleftrightarrow> ?r")
  proof
    assume ?l
    then have "eseq f = eseq e" by (simp add: result_of_def get_of_def)
    then show ?r using max(2) assms(3) by auto
  next
    assume ?r
    then have "pick_version None ((a, e) # vs) = Some (a, e)" using pickv_first[of "(a, e)" vs] by auto
    then show ?l using bf assms(3) by simp
  qed
  from src obtain mg' where g: "lsm_memtable_manager_get [] mg (Some k) = (KV_ERR_NONE, Some (result_of b (get_of f)), mg', [])"
    "versions mg' = versions mg" by blast
  have "\<exists>(b', f') \<in> set (versions mg k). result_of b (get_of f) = result_of b' (get_of f') \<and> (\<forall>(c, g) \<in> set (versions mg k). eseq g \<le> eseq f')"
    using max by (intro bexI[of _ "(b, f)"]) auto
  with g iff show ?thesis by (intro exI[of _ "result_of b (get_of f)"] exI[of _ mg'] conjI)
qed

definition sample_mgr :: lsm_memtable_manager where
  "sample_mgr = \<lparr>mg_active = Some (1, memtable_ab), mg_immutable = [(0, memtable_ab\<lparr>is_immutable := True\<rparr>)], max_immutable_count = 1,
     mg_config = sample_mgr_config, global_seq_num = 1, mg_stats = zero_manager_stats, mg_name = ''m'', mg_creation_time = 0, mg_next = 2\<rparr>"

lemma sample_mgr_facts: "mgr_inv sample_mgr" "writable sample_mgr" "\<not> roomy sample_mgr"
  using memtable_ab_inv freeze_inv[OF memtable_ab_inv(1)]
  by (auto simp: mgr_inv_def writable_def roomy_def sample_mgr_def active_list_def table_ok_def)

theorem manager_read_largest_number_witness:
  "\<exists>res mg'. lsm_memtable_manager_get [] sample_mgr (Some [97]) = (KV_ERR_NONE, Some res, mg', []) \<and> lr_source res = Some 1"
proof -
  let ?e = "\<lparr>ekey = [97], evalue = Some [1, 2], evalue_len = 2, eseq = 2, edeleted = False, etimestamp = 10\<rparr>"
  have "versions sample_mgr [97] = [(1, ?e), (0, ?e)]"
    by (simp add: versions_def frozen_versions_def active_list_def sample_mgr_def memtable_ab_map)
  from manager_read_largest_number[OF sample_mgr_facts(1) _ this] show ?thesis by (auto simp: result_of_def)
qed

definition value_read :: "mgr_op list \<Rightarrow> bytes \<Rightarrow> (int \<times> bytes option option) outcome" where
  "value_read ops k =
     (case lsm_memtable_manager_create [] True 0 ok_env (Some sample_mgr_config) None of
        (None, h) \<Rightarrow> Inl NullDeref
      | (Some mg, h) \<Rightarrow> obind (mgr_run ops mg) (\<lambda>mg1.
          (case lsm_memtable_manager_get [] mg1 (Some k) of (r, res, mg2, h1) \<Rightarrow> Inr (r, map_option lr_value res))))"


definition sample_full_mgr :: lsm_memtable_manager where
  "sample_full_mgr = sample_mgr\<lparr>mg_active := Some (1, memtable_ab\<lparr>max_size := 100\<rparr>)\<rparr>"

lemma sample_full_mgr_facts:
  "mgr_inv sample_full_mgr" "\<not> roomy sample_full_mgr" "auto_freeze (mg_config sample_full_mgr)" "lsm_memtable_manager_should_freeze sample_full_mgr"
proof -
  have "mgr_inv sample_full_mgr"
    unfolding sample_full_mgr_def
  proof (rule inv_active_upd[OF sample_mgr_facts(1)])
    show "mg_active sample_mgr = Some (1, memtable_ab)" by (simp add: sample_mgr_def)
    show "memtable_inv (memtable_ab\<lparr>max_size := 100\<rparr>)" using memtable_ab_inv(1) by (simp add: memtable_inv_def mt_map_def)
  qed
  then show "mgr_inv sample_full_mgr" "\<not> roomy sample_full_mgr" "auto_freeze (mg_config sample_full_mgr)"
    "lsm_memtable_manager_should_freeze sample_full_mgr"
    by (simp_all add: sample_full_mgr_def sample_mgr_def roomy_def sample_mgr_config_def lsm_memtable_manager_default_config_def
        lsm_memtable_manager_should_freeze_def lsm_memtable_is_full_def memtable_ab_def)
qed

text \<open>
  C38: When the active table and the array are full a write fails with \<open>KV_ERR_MEM\<close>, loses nothing and leaves the manager well formed; once the
  oldest frozen table has been flushed the next write succeeds.
\<close>

theorem manager_full_until_flushed:
  assumes inv: "mgr_inv mg" and "\<not> roomy mg" "auto_freeze (mg_config mg)" "lsm_memtable_manager_should_freeze mg" "k \<noteq> []" "value_arg v n" "fst env"
  shows "\<exists>mg1 mg2 mg3 freed. lsm_memtable_manager_put [] env now mg (Some k) v n = Inr (KV_ERR_MEM, mg1, []) \<and> mgr_inv mg1 \<and> versions mg1 = versions mg \<and>
    lsm_memtable_manager_remove_oldest_immutable mg1 = (KV_ERR_NONE, mg2, freed) \<and>
    lsm_memtable_manager_put [] env now mg2 (Some k) v n = Inr (KV_ERR_NONE, mg3, []) \<and> live mg3 k = Some (stored v)"
proof -
  from inv obtain a mt where act: "mg_active mg = Some (a, mt)" "memtable_inv mt" by (rule inv_active)
  let ?mt = "mt\<lparr>is_immutable := True\<rparr>"
  let ?mg1 = "mg\<lparr>mg_active := Some (a, ?mt)\<rparr>"
  have full: "lsm_memtable_is_full mt" using assms(4) act(1) by (simp add: lsm_memtable_manager_should_freeze_def)
  then have p1: "lsm_memtable_manager_put [] env now mg (Some k) v n = Inr (KV_ERR_MEM, ?mg1, [])"
    using rotate_full[OF assms(2), of "[]" env a mt] act(1) assms(3,5) by (simp add: lsm_memtable_manager_put_def make_room_def)
  have inv1: "mgr_inv ?mg1" by (rule inv_active_upd[OF inv act(1) freeze_inv[OF act(2)]])
  have v1: "versions ?mg1 = versions mg" using act(1) by (simp add: versions_def frozen_versions_def active_list_def fun_eq_iff)
  obtain x xs where imm: "mg_immutable mg = x # xs" using assms(2) inv by (cases "mg_immutable mg") (auto simp: roomy_def mgr_inv_def)
  let ?mg2 = "update_manager_stats (?mg1\<lparr>mg_immutable := xs, mg_stats := (mg_stats mg)\<lparr>ms_flush_count := ms_flush_count (mg_stats mg) + 1\<rparr>\<rparr>)"
  have f: "lsm_memtable_manager_remove_oldest_immutable ?mg1 = (KV_ERR_NONE, ?mg2, lsm_memtable_destroy (snd x))"
    using imm by (simp add: lsm_memtable_manager_remove_oldest_immutable_def remove_immutable_memtable_at_def)
  have same: "same_setup mg ?mg2" by (simp, simp add: same_setup_def)
  have "mgr_inv (?mg1\<lparr>mg_immutable := xs\<rparr>)" using inv1 imm by (auto simp: mgr_inv_def active_list_def)
  moreover have "?mg1\<lparr>mg_immutable := xs, mg_stats := s\<rparr> = ?mg1\<lparr>mg_immutable := xs\<rparr>\<lparr>mg_stats := s\<rparr>" for s by simp
  ultimately have inv2: "mgr_inv ?mg2" by (simp only: stats_irrelevant)
  have room2: "roomy ?mg2" using inv imm same by (simp add: roomy_def mgr_inv_def same_setup_def)
  have act2: "mg_active ?mg2 = Some (a, ?mt)" by simp
  from rotate_ok[OF inv2 act2 room2 assms(7)] obtain mg' where r: "rotate_active [] env ?mg2 (a, ?mt) = (KV_ERR_NONE, mg', [])"
    "mgr_inv mg'" "writable mg'" by blast
  have "make_room [] env ?mg2 = (KV_ERR_NONE, mg', [])"
    using r(1) act2 full same assms(3) by (simp add: make_room_def lsm_memtable_is_full_def same_setup_def)
  from put_after_room[OF this r(2,3) assms(5,6), of now]
  have "\<exists>mg3. lsm_memtable_manager_put [] env now ?mg2 (Some k) v n = Inr (KV_ERR_NONE, mg3, []) \<and> live mg3 k = Some (stored v)"
    by (auto simp: live_def put_entry_def)
  with p1 inv1 v1 f show ?thesis by blast
qed

theorem manager_full_until_flushed_witness:
  "\<exists>mg1 mg2 mg3 freed. lsm_memtable_manager_put [] ok_env 1 sample_full_mgr (Some [99]) (Some [7]) 1 = Inr (KV_ERR_MEM, mg1, []) \<and>
    mgr_inv mg1 \<and> lsm_memtable_manager_remove_oldest_immutable mg1 = (KV_ERR_NONE, mg2, freed) \<and>
    lsm_memtable_manager_put [] ok_env 1 mg2 (Some [99]) (Some [7]) 1 = Inr (KV_ERR_NONE, mg3, []) \<and> live mg3 [99] = Some (Some [7])"
  using manager_full_until_flushed[OF sample_full_mgr_facts, of "[99]" "Some [7]" 1 ok_env 1]
  by (simp add: value_arg_def stored_def) blast

text \<open>
  C0: A manual freeze while the array is full fails but leaves the active table frozen. When that table is not full, every
  later write is refused with \<open>KV_ERR_NOT_SUPPORTED\<close> and changes nothing, also after every frozen table has been flushed.
\<close>

theorem manager_failed_freeze_blocks:
  assumes inv: "mgr_inv mg" and "\<not> roomy mg" "\<not> lsm_memtable_manager_should_freeze mg" "k \<noteq> []"
  shows "\<exists>mg1. lsm_memtable_manager_freeze_active h env mg = (KV_ERR_MEM, mg1, h) \<and>
    (\<forall>xs. lsm_memtable_manager_put h env now (mg1\<lparr>mg_immutable := xs\<rparr>) (Some k) v n = Inr (KV_ERR_NOT_SUPPORTED, mg1\<lparr>mg_immutable := xs\<rparr>, h)) \<and>
    (\<forall>xs. lsm_memtable_manager_delete h env now (mg1\<lparr>mg_immutable := xs\<rparr>) (Some k) = Inr (KV_ERR_NOT_SUPPORTED, mg1\<lparr>mg_immutable := xs\<rparr>, h))"
proof -
  from inv obtain a mt where act: "mg_active mg = Some (a, mt)" by (rule inv_active)
  let ?mg1 = "mg\<lparr>mg_active := Some (a, mt\<lparr>is_immutable := True\<rparr>)\<rparr>"
  have "\<not> lsm_memtable_is_full mt" using assms(3) act by (simp add: lsm_memtable_manager_should_freeze_def)
  then have "make_room h env (?mg1\<lparr>mg_immutable := xs\<rparr>) = (KV_ERR_NONE, ?mg1\<lparr>mg_immutable := xs\<rparr>, h)" for xs
    by (simp add: make_room_def lsm_memtable_is_full_def)
  with rotate_full[OF assms(2), of h env a mt] act assms(4) show ?thesis
    by (intro exI[of _ ?mg1]) (simp add: lsm_memtable_manager_freeze_active_def lsm_memtable_manager_put_def lsm_memtable_manager_delete_def
        lsm_memtable_put_def lsm_memtable_delete_def Let_def)
qed


theorem manager_failed_freeze_blocks_witness:
  "\<exists>mg1. lsm_memtable_manager_freeze_active [] ok_env sample_mgr = (KV_ERR_MEM, mg1, []) \<and>
    lsm_memtable_manager_put [] ok_env 1 (mg1\<lparr>mg_immutable := []\<rparr>) (Some [99]) (Some [7]) 1 =
      Inr (KV_ERR_NOT_SUPPORTED, mg1\<lparr>mg_immutable := []\<rparr>, [])"
proof -
  have "\<not> lsm_memtable_manager_should_freeze sample_mgr"
    by (simp add: sample_mgr_def lsm_memtable_manager_should_freeze_def lsm_memtable_is_full_def memtable_ab_def)
  from manager_failed_freeze_blocks[OF sample_mgr_facts(1,3) this, of "[99]" "[]" ok_env 1 "Some [7]" 1] show ?thesis by auto
qed

end
