(* ===== verification/Bloom_Hash.thy ===== *)
theory Bloom_Hash
  imports Shard_Hash
begin

text \<open>
  The hash functions of \<open>src/kvserver/lsm_bloom_filter_optimized.c\<close>: Murmur3, FNV-1a and the simplified xxHash, in 32 and 64
  bits. A key with its length is the list of its bytes, words are read in little-endian order. The statements of
  the two Murmur3 functions are those of \<open>shard_hash.c\<close>.
\<close>

definition bloom_hash_murmur3_32 :: "string \<Rightarrow> 32 word \<Rightarrow> 32 word" where
  "bloom_hash_murmur3_32 key seed =
     (let nblocks = length key div 4;
          h1 = body32 nblocks key seed;
          h1 = tail32 (drop (nblocks * 4) key) (length key mod 4) h1 in
      fmix32 (h1 XOR of_nat (length key)))"

definition bloom_hash_murmur3_64 :: "string \<Rightarrow> 32 word \<Rightarrow> 64 word" where
  "bloom_hash_murmur3_64 key seed =
     (let nblocks = length key div 16;
          hs = body64 nblocks key (ucast seed, ucast seed);
          (h1, h2) = tail64 (drop (nblocks * 16) key) (length key mod 16) hs;
          h1 = h1 XOR of_nat (length key); h2 = h2 XOR of_nat (length key);
          h1 = h1 + h2; h2 = h2 + h1 in
      fmix64 h1 + fmix64 h2)"

section \<open>FNV-1a\<close>

abbreviation FNV_OFFSET_BASIS_32 :: "32 word" where "FNV_OFFSET_BASIS_32 \<equiv> 0x811c9dc5"
abbreviation FNV_PRIME_32 :: "32 word" where "FNV_PRIME_32 \<equiv> 0x01000193"
abbreviation FNV_OFFSET_BASIS_64 :: "64 word" where "FNV_OFFSET_BASIS_64 \<equiv> 0xcbf29ce484222325"
abbreviation FNV_PRIME_64 :: "64 word" where "FNV_PRIME_64 \<equiv> 0x100000001b3"

definition bloom_hash_fnv1a_32 :: "string \<Rightarrow> 32 word \<Rightarrow> 32 word" where
  "bloom_hash_fnv1a_32 key seed = foldl (\<lambda>hash c. (hash XOR of_char c) * FNV_PRIME_32) (FNV_OFFSET_BASIS_32 XOR seed) key"

definition bloom_hash_fnv1a_64 :: "string \<Rightarrow> 32 word \<Rightarrow> 64 word" where
  "bloom_hash_fnv1a_64 key seed = foldl (\<lambda>hash c. (hash XOR of_char c) * FNV_PRIME_64) (FNV_OFFSET_BASIS_64 XOR ucast seed) key"

section \<open>xxHash\<close>

abbreviation XXH_PRIME32_1 :: "32 word" where "XXH_PRIME32_1 \<equiv> 0x9E3779B1"
abbreviation XXH_PRIME32_2 :: "32 word" where "XXH_PRIME32_2 \<equiv> 0x85EBCA77"
abbreviation XXH_PRIME32_3 :: "32 word" where "XXH_PRIME32_3 \<equiv> 0xC2B2AE3D"
abbreviation XXH_PRIME32_4 :: "32 word" where "XXH_PRIME32_4 \<equiv> 0x27D4EB2F"
abbreviation XXH_PRIME32_5 :: "32 word" where "XXH_PRIME32_5 \<equiv> 0x165667B1"
abbreviation XXH_PRIME64_1 :: "64 word" where "XXH_PRIME64_1 \<equiv> 0x9E3779B185EBCA87"
abbreviation XXH_PRIME64_2 :: "64 word" where "XXH_PRIME64_2 \<equiv> 0xC2B2AE3D27D4EB4F"
abbreviation XXH_PRIME64_3 :: "64 word" where "XXH_PRIME64_3 \<equiv> 0x165667B19E3779F9"
abbreviation XXH_PRIME64_4 :: "64 word" where "XXH_PRIME64_4 \<equiv> 0x85EBCA77C2B2AE63"
abbreviation XXH_PRIME64_5 :: "64 word" where "XXH_PRIME64_5 \<equiv> 0x27D4EB2F165667C5"

text \<open>One lane of a stripe.\<close>

definition xx_lane32 :: "32 word \<Rightarrow> string \<Rightarrow> 32 word" where
  "xx_lane32 v data = ROTL32 (v + le32 (take 4 data) * XXH_PRIME32_2) 13 * XXH_PRIME32_1"

text \<open>The \<open>do\<close> loop runs while 16 bytes are left, that is once for each whole stripe.\<close>

fun xx_stripes32 :: "nat \<Rightarrow> string \<Rightarrow> 32 word \<times> 32 word \<times> 32 word \<times> 32 word \<Rightarrow> 32 word \<times> 32 word \<times> 32 word \<times> 32 word" where
  "xx_stripes32 0 data vs = vs"
| "xx_stripes32 (Suc n) data (v1, v2, v3, v4) =
     xx_stripes32 n (drop 16 data) (xx_lane32 v1 data, xx_lane32 v2 (drop 4 data), xx_lane32 v3 (drop 8 data), xx_lane32 v4 (drop 12 data))"

fun xx_words32 :: "nat \<Rightarrow> string \<Rightarrow> 32 word \<Rightarrow> 32 word" where
  "xx_words32 0 data h = h"
| "xx_words32 (Suc n) data h = xx_words32 n (drop 4 data) (ROTL32 (h + le32 (take 4 data) * XXH_PRIME32_3) 17 * XXH_PRIME32_4)"

definition bloom_hash_xxhash_32 :: "string \<Rightarrow> 32 word \<Rightarrow> 32 word" where
  "bloom_hash_xxhash_32 key seed =
     (let len = length key; stripes = len div 16;
          h = (if len \<ge> 16
               then (case xx_stripes32 stripes key (seed + XXH_PRIME32_1 + XXH_PRIME32_2, seed + XXH_PRIME32_2, seed + 0, seed - XXH_PRIME32_1) of
                   (v1, v2, v3, v4) \<Rightarrow> ROTL32 v1 1 + ROTL32 v2 7 + ROTL32 v3 12 + ROTL32 v4 18)
               else seed + XXH_PRIME32_5);
          h = h + of_nat len;
          rest = drop (stripes * 16) key;
          h = xx_words32 (length rest div 4) rest h;
          h = foldl (\<lambda>h c. ROTL32 (h + of_char c * XXH_PRIME32_5) 11 * XXH_PRIME32_1) h (drop (length rest div 4 * 4) rest);
          h = h XOR drop_bit 15 h; h = h * XXH_PRIME32_2; h = h XOR drop_bit 13 h; h = h * XXH_PRIME32_3 in
      h XOR drop_bit 16 h)"

definition xx_round64 :: "64 word \<Rightarrow> 64 word" where
  "xx_round64 k = ROTL64 (k * XXH_PRIME64_2) 31 * XXH_PRIME64_1"

definition xx_lane64 :: "64 word \<Rightarrow> string \<Rightarrow> 64 word" where
  "xx_lane64 v data = ROTL64 (v + le64 (take 8 data) * XXH_PRIME64_2) 31 * XXH_PRIME64_1"

fun xx_stripes64 :: "nat \<Rightarrow> string \<Rightarrow> 64 word \<times> 64 word \<times> 64 word \<times> 64 word \<Rightarrow> 64 word \<times> 64 word \<times> 64 word \<times> 64 word" where
  "xx_stripes64 0 data vs = vs"
| "xx_stripes64 (Suc n) data (v1, v2, v3, v4) =
     xx_stripes64 n (drop 32 data) (xx_lane64 v1 data, xx_lane64 v2 (drop 8 data), xx_lane64 v3 (drop 16 data), xx_lane64 v4 (drop 24 data))"

text \<open>A lane is mixed into the hash after the stripes.\<close>

definition xx_merge64 :: "64 word \<Rightarrow> 64 word \<Rightarrow> 64 word" where
  "xx_merge64 h v = (h XOR xx_round64 v) * XXH_PRIME64_1 + XXH_PRIME64_4"

fun xx_words64 :: "nat \<Rightarrow> string \<Rightarrow> 64 word \<Rightarrow> 64 word" where
  "xx_words64 0 data h = h"
| "xx_words64 (Suc n) data h =
     xx_words64 n (drop 8 data) (ROTL64 (h XOR xx_round64 (le64 (take 8 data))) 27 * XXH_PRIME64_1 + XXH_PRIME64_4)"

definition bloom_hash_xxhash_64 :: "string \<Rightarrow> 32 word \<Rightarrow> 64 word" where
  "bloom_hash_xxhash_64 key seed =
     (let len = length key; stripes = len div 32; s = ucast seed;
          h = (if len \<ge> 32
               then (case xx_stripes64 stripes key (s + XXH_PRIME64_1 + XXH_PRIME64_2, s + XXH_PRIME64_2, s + 0, s - XXH_PRIME64_1) of
                   (v1, v2, v3, v4) \<Rightarrow>
                     foldl xx_merge64 (ROTL64 v1 1 + ROTL64 v2 7 + ROTL64 v3 12 + ROTL64 v4 18) [v1, v2, v3, v4])
               else s + XXH_PRIME64_5);
          h = h + of_nat len;
          rest = drop (stripes * 32) key;
          words = length rest div 8;
          h = xx_words64 words rest h;
          rest = drop (words * 8) rest;
          half = (length rest \<ge> 4);
          h = (if half then ROTL64 (h XOR ucast (le32 (take 4 rest)) * XXH_PRIME64_1) 23 * XXH_PRIME64_2 + XXH_PRIME64_3 else h);
          rest = (if half then drop 4 rest else rest);
          h = foldl (\<lambda>h c. ROTL64 (h XOR of_char c * XXH_PRIME64_5) 11 * XXH_PRIME64_1) h rest;
          h = h XOR drop_bit 33 h; h = h * XXH_PRIME64_2; h = h XOR drop_bit 29 h; h = h * XXH_PRIME64_3 in
      h XOR drop_bit 32 h)"

text \<open>The two Murmur3 implementations of the server agree.\<close>

lemma bloom_murmur3_eq: "bloom_hash_murmur3_64 = murmur3_hash64" "bloom_hash_murmur3_32 = murmur3_hash32"
  by (simp_all add: fun_eq_iff bloom_hash_murmur3_64_def murmur3_hash64_def bloom_hash_murmur3_32_def murmur3_hash32_def Let_def)

end
