(* ===== verification/Bloom.thy ===== *)
theory Bloom
  imports Complex_Main Bloom_Hash
begin

text \<open>
  The Bloom filters of \<open>src/kvserver/lsm_bloom_filter_optimized.c\<close>: bit array, blocks of a cache line, 64-bit registers, counters
  and growing layers behind one interface, batches, removal and serialisation.

  The union of the five representations is the datatype \<open>filter_data\<close>; creation chooses the constructor from the configured type and
  nothing changes it, so the \<open>switch\<close> over the type is a case distinction over the constructor. Accesses outside an array are the
  fault \<open>OutOfBounds\<close>, a remainder by zero is \<open>DivByZero\<close>. Locks that were created are acquired. The clock and
  \<open>rand\<close> are arguments. The logarithms that give the number of bits and of hashes are taken in the reals instead of
  \<open>double\<close>. The floating-point figures of the statistics, the load factor, which no code reads, and the name are left out.
\<close>

abbreviation BLOOM_ERR_PARAM :: int where "BLOOM_ERR_PARAM \<equiv> -1"
abbreviation BLOOM_ERR_MEMORY :: int where "BLOOM_ERR_MEMORY \<equiv> -2"
abbreviation BLOOM_ERR_UNSUPPORTED :: int where "BLOOM_ERR_UNSUPPORTED \<equiv> -3"
abbreviation BLOOM_ERR_NOT_FOUND :: int where "BLOOM_ERR_NOT_FOUND \<equiv> -4"

section \<open>Types\<close>

datatype bloom_filter_type =
  BLOOM_TYPE_STANDARD | BLOOM_TYPE_BLOCKED | BLOOM_TYPE_REGISTER_BLOCKED | BLOOM_TYPE_SCALABLE | BLOOM_TYPE_COUNTING | BLOOM_TYPE_AUTO

datatype bloom_hash_type =
  BLOOM_HASH_MURMUR3 | BLOOM_HASH_FNV1A | BLOOM_HASH_CRC32 | BLOOM_HASH_XXHASH | BLOOM_HASH_CITY | BLOOM_HASH_HYBRID

record bloom_filter_config =
  bc_expected_entries :: "64 word"
  bc_false_positive_rate :: "32 word"
  bc_type :: bloom_filter_type
  bc_hash_type :: bloom_hash_type
  bc_optimization_flags :: "32 word"
  bc_max_hash_functions :: "32 word"
  bc_block_size :: "32 word"
  bc_enable_statistics :: bool
  bc_enable_auto_resize :: bool

record bloom_filter_stats =
  bs_total_insertions :: "64 word"
  bs_total_queries :: "64 word"
  bs_total_hits :: "64 word"
  bs_total_misses :: "64 word"
  bs_false_positives :: "64 word"
  bs_true_negatives :: "64 word"

record bloom_block =
  bb_bits :: "8 word list"
  bb_size_bits :: "32 word"
  bb_hash_count :: nat
  bb_entry_count :: "32 word"
  bb_max_entries :: "32 word"

record scalable_bloom_layer =
  ly_bits :: "8 word list"
  ly_bit_count :: "64 word"
  ly_hash_count :: nat
  ly_max_entries :: "64 word"
  ly_current_entries :: "64 word"
  ly_false_positive_rate :: "32 word"

text \<open>The layers are a list; \<open>current_layer\<close> is its last element, \<open>layer_count\<close> its length.\<close>

datatype filter_data =
  Standard "8 word list"
  | Blocked "bloom_block list" "32 word"
  | Registers "64 word list" "32 word"
  | Counting "32 word list" "32 word"
  | Scalable "scalable_bloom_layer list"

record optimized_bloom_filter =
  bf_config :: bloom_filter_config
  bf_stats :: bloom_filter_stats
  bf_bit_count :: "64 word"
  bf_hash_count :: nat
  bf_max_entries :: "64 word"
  bf_current_entries :: "64 word"
  bf_data :: filter_data
  bf_hash_seeds :: "32 word list"
  bf_salt :: "64 word"
  bf_creation_time :: nat

section \<open>Parameters and configuration\<close>

definition LN2 :: real where "LN2 = 6931471805599453 / 10000000000000000"
definition LN2_SQUARED :: real where "LN2_SQUARED = 4804530139182014 / 10000000000000000"

text \<open>The number of bits and of hash functions. The conversion of a negative number, which is undefined in C, gives 0 here.\<close>

definition bloom_filter_calculate_parameters :: "64 word \<Rightarrow> 32 word \<Rightarrow> int \<times> nat \<times> nat" where
  "bloom_filter_calculate_parameters expected_entries target_fpr =
     (if expected_entries = 0 \<or> target_fpr = 0 then (BLOOM_ERR_PARAM, 0, 0)
      else (let n = real (unat expected_entries); p = real (unat target_fpr) / 10000;
                optimal_m = - n * ln p / LN2_SQUARED; optimal_k = optimal_m / n * LN2;
                hash_count = nat (round optimal_k) in
        (KV_ERR_NONE, nat \<lceil>optimal_m\<rceil>, if hash_count = 0 then 1 else hash_count)))"

definition bloom_filter_create_default_config :: "64 word \<Rightarrow> 32 word \<Rightarrow> bloom_filter_config" where
  "bloom_filter_create_default_config expected_entries false_positive_rate =
     (let e = (if expected_entries < 100 then 100 else expected_entries); e = (if e > 100000000 then 100000000 else e);
          f = (if false_positive_rate < 1 then 1 else false_positive_rate); f = (if f > 5000 then 5000 else f) in
      \<lparr>bc_expected_entries = e, bc_false_positive_rate = f, bc_type = BLOOM_TYPE_AUTO, bc_hash_type = BLOOM_HASH_HYBRID,
        bc_optimization_flags = 32, bc_max_hash_functions = 16, bc_block_size = 512, bc_enable_statistics = True, bc_enable_auto_resize = False\<rparr>)"

definition bloom_filter_optimize_config :: "bloom_filter_config \<Rightarrow> 32 word \<Rightarrow> bloom_filter_config" where
  "bloom_filter_optimize_config cf target =
     (let c = cf;
          c = (if target AND 1 \<noteq> 0
               then (if bc_false_positive_rate c < 200 then c\<lparr>bc_false_positive_rate := 200\<rparr> else c)
                      \<lparr>bc_max_hash_functions := 8, bc_type := BLOOM_TYPE_STANDARD\<rparr> else c);
          c = (if target AND 2 \<noteq> 0
               then c\<lparr>bc_type := BLOOM_TYPE_BLOCKED, bc_block_size := 512, bc_hash_type := BLOOM_HASH_MURMUR3,
                      bc_optimization_flags := bc_optimization_flags c OR 8\<rparr> else c);
          c = (if target AND 4 \<noteq> 0
               then c\<lparr>bc_false_positive_rate := 100, bc_type := BLOOM_TYPE_REGISTER_BLOCKED, bc_hash_type := BLOOM_HASH_XXHASH,
                      bc_max_hash_functions := 12\<rparr> else c);
          c = (if target AND 8 \<noteq> 0 then c\<lparr>bc_type := BLOOM_TYPE_BLOCKED, bc_block_size := 512\<rparr> else c);
          c = (if target AND 16 \<noteq> 0 then c\<lparr>bc_type := BLOOM_TYPE_REGISTER_BLOCKED, bc_block_size := 64\<rparr> else c) in
      if target AND 32 \<noteq> 0
      then (if bc_expected_entries c < 10000 then c\<lparr>bc_type := BLOOM_TYPE_STANDARD, bc_hash_type := BLOOM_HASH_MURMUR3\<rparr>
            else if bc_expected_entries c < 1000000 then c\<lparr>bc_type := BLOOM_TYPE_BLOCKED, bc_hash_type := BLOOM_HASH_XXHASH\<rparr>
            else c\<lparr>bc_type := BLOOM_TYPE_REGISTER_BLOCKED, bc_hash_type := BLOOM_HASH_XXHASH, bc_optimization_flags := bc_optimization_flags c OR 16\<rparr>)
      else c)"

definition bloom_hash_auto_select :: "64 word \<Rightarrow> 32 word \<Rightarrow> bloom_hash_type" where
  "bloom_hash_auto_select expected_entries hash_count =
     (if expected_entries < 10000 then BLOOM_HASH_MURMUR3
      else if expected_entries < 1000000 then (if hash_count \<le> 4 then BLOOM_HASH_XXHASH else BLOOM_HASH_FNV1A)
      else BLOOM_HASH_FNV1A)"

text \<open>The estimate of the memory; \<open>sz_filter\<close> and \<open>sz_block\<close> are the sizes of the two structures. A block size of 0 is not replaced here.\<close>

definition bloom_filter_estimate_memory_optimized :: "64 word \<Rightarrow> 64 word \<Rightarrow> bloom_filter_config option \<Rightarrow> (64 word) outcome" where
  "bloom_filter_estimate_memory_optimized sz_filter sz_block config =
     (case config of
        None \<Rightarrow> Inr 0
      | Some cf \<Rightarrow>
          (case bloom_filter_calculate_parameters (bc_expected_entries cf) (bc_false_positive_rate cf) of
             (r, bits, hashes) \<Rightarrow>
               if r \<noteq> KV_ERR_NONE then Inr 0
               else (let bit_count = of_nat bits :: 64 word; memory = sz_filter + (bit_count + 7) div 8 + of_nat hashes * 4; bs = ucast (bc_block_size cf) in
                 (case bc_type cf of
                    BLOOM_TYPE_BLOCKED \<Rightarrow>
                      if bs = 0 then Inl DivByZero
                      else Inr (memory + ucast (ucast ((bit_count + bs - 1) div bs) :: 32 word) * sz_block)
                  | BLOOM_TYPE_REGISTER_BLOCKED \<Rightarrow> Inr (memory + ucast (ucast ((bit_count + 63) div 64) :: 32 word) * 8)
                  | BLOOM_TYPE_COUNTING \<Rightarrow> Inr (memory + bit_count * 4)
                  | _ \<Rightarrow> Inr memory))))"

section \<open>Creation\<close>

text \<open>
  The loop that doubles until the count is reached. Above 2 to the 31 the 32-bit power becomes 0 and the loop does not end; 33
  rounds are enough to see either.
\<close>

fun double_until :: "nat \<Rightarrow> 32 word \<Rightarrow> 32 word \<Rightarrow> (32 word) outcome" where
  "double_until 0 p n = Inl OutOfFuel"
| "double_until (Suc fuel) p n = (if p < n then double_until fuel (push_bit 1 p) n else Inr p)"

abbreviation power_of_2_for :: "32 word \<Rightarrow> (32 word) outcome" where
  "power_of_2_for n \<equiv> double_until 33 1 n"

definition byte_count :: "64 word \<Rightarrow> 64 word" where
  "byte_count bits = (bits + 7) div 8"

definition zero_bloom_stats :: bloom_filter_stats where
  "zero_bloom_stats = \<lparr>bs_total_insertions = 0, bs_total_queries = 0, bs_total_hits = 0, bs_total_misses = 0, bs_false_positives = 0,
     bs_true_negatives = 0\<rparr>"

text \<open>The representation of a type, all bits zero; \<open>None\<close> when an allocation fails.\<close>

definition create_data :: "script \<Rightarrow> bloom_filter_config \<Rightarrow> 64 word \<Rightarrow> nat \<Rightarrow> (filter_data option \<times> script) outcome" where
  "create_data h cf bit_count hash_count =
     (case bc_type cf of
        BLOOM_TYPE_BLOCKED \<Rightarrow>
          (let bs = (if bc_block_size cf > 0 then bc_block_size cf else 512);
               want = ucast ((bit_count + ucast bs - 1) div ucast bs) in
           obind (power_of_2_for want) (\<lambda>count.
             (let (ok, h1) = all_ok (Suc (unat count)) h;
                  block = \<lparr>bb_bits = replicate (unat (bs div 8)) 0, bb_size_bits = bs, bb_hash_count = hash_count - 1, bb_entry_count = 0,
                           bb_max_entries = ucast (bc_expected_entries cf div ucast count)\<rparr> in
              Inr (if ok then Some (Blocked (replicate (unat count) block) (count - 1)) else None, h1))))
      | BLOOM_TYPE_REGISTER_BLOCKED \<Rightarrow>
          obind (power_of_2_for (ucast ((bit_count + 63) div 64))) (\<lambda>count.
            (let (ok, h1) = malloc h in
             Inr (if ok then Some (Registers (replicate (unat count) 0) (count - 1)) else None, h1)))
      | BLOOM_TYPE_COUNTING \<Rightarrow>
          (let (ok, h1) = malloc h in Inr (if ok then Some (Counting (replicate (unat bit_count) 0) (- 1)) else None, h1))
      | BLOOM_TYPE_SCALABLE \<Rightarrow>
          (let (ok, h1) = all_ok 2 h in
           Inr (if ok then Some (Scalable [\<lparr>ly_bits = replicate (unat (byte_count bit_count)) 0, ly_bit_count = bit_count,
               ly_hash_count = hash_count, ly_max_entries = bc_expected_entries cf, ly_current_entries = 0,
               ly_false_positive_rate = bc_false_positive_rate cf\<rparr>]) else None, h1))
      | _ \<Rightarrow>
          (let (ok, h1) = malloc h in Inr (if ok then Some (Standard (replicate (unat (byte_count bit_count)) 0)) else None, h1)))"

text \<open>\<open>rnd\<close> are the numbers that \<open>rand\<close> gives; after the data come the lock of the statistics and that of the filter.\<close>

definition bloom_filter_create_optimized ::
  "script \<Rightarrow> (nat \<Rightarrow> 32 word) \<Rightarrow> nat \<Rightarrow> bloom_filter_config option \<Rightarrow> (optimized_bloom_filter option \<times> script) outcome" where
  "bloom_filter_create_optimized h rnd now config =
     (case config of
        None \<Rightarrow> Inr (None, h)
      | Some cf \<Rightarrow>
          (let (ok, h1) = malloc h in
           if \<not> ok then Inr (None, h1)
           else (case bloom_filter_calculate_parameters (bc_expected_entries cf) (bc_false_positive_rate cf) of
               (r, bits, hashes) \<Rightarrow>
                 if r \<noteq> KV_ERR_NONE then Inr (None, h1)
                 else (let (ok2, h2) = malloc h1 in
                   if \<not> ok2 then Inr (None, h2)
                   else obind (create_data h2 cf (of_nat bits) hashes) (\<lambda>(d, h3).
                     (case d of
                        None \<Rightarrow> Inr (None, h3)
                      | Some dat \<Rightarrow>
                          (let (ok4, h4) = all_ok (if bc_enable_statistics cf then 2 else 1) h3 in
                           Inr (if ok4 then Some \<lparr>bf_config = cf, bf_stats = zero_bloom_stats, bf_bit_count = of_nat bits, bf_hash_count = hashes,
                                bf_max_entries = bc_expected_entries cf, bf_current_entries = 0, bf_data = dat,
                                bf_hash_seeds = map rnd [0..<hashes],
                                bf_salt = push_bit 32 (ucast (rnd hashes)) OR ucast (rnd (hashes + 1)), bf_creation_time = now\<rparr>
                              else None, h4))))))))"

section \<open>Bits and hashes\<close>

definition set_bit_at :: "8 word list \<Rightarrow> nat \<Rightarrow> (8 word list) outcome" where
  "set_bit_at bits i =
     (if i div 8 < length bits then Inr (bits[i div 8 := bits ! (i div 8) OR push_bit (i mod 8) 1]) else Inl OutOfBounds)"

definition get_bit_at :: "8 word list \<Rightarrow> nat \<Rightarrow> bool outcome" where
  "get_bit_at bits i =
     (if i div 8 < length bits then Inr (bits ! (i div 8) AND push_bit (i mod 8) 1 \<noteq> 0) else Inl OutOfBounds)"

definition modulo :: "64 word \<Rightarrow> 64 word \<Rightarrow> nat outcome" where
  "modulo x n = (if n = 0 then Inl DivByZero else Inr (unat (x mod n)))"

definition two_hashes :: "bloom_hash_type \<Rightarrow> string \<Rightarrow> 32 word \<Rightarrow> 64 word \<times> 64 word" where
  "two_hashes t key seed =
     (case t of
        BLOOM_HASH_MURMUR3 \<Rightarrow> (bloom_hash_murmur3_64 key seed, bloom_hash_murmur3_64 key (seed XOR 0xAAAAAAAA))
      | BLOOM_HASH_XXHASH \<Rightarrow> (bloom_hash_xxhash_64 key seed, bloom_hash_xxhash_64 key (seed XOR 0xAAAAAAAA))
      | BLOOM_HASH_FNV1A \<Rightarrow> (bloom_hash_fnv1a_64 key seed, bloom_hash_fnv1a_64 key (seed XOR 0xAAAAAAAA))
      | _ \<Rightarrow> (bloom_hash_murmur3_64 key seed, bloom_hash_xxhash_64 key (seed XOR 0xAAAAAAAA)))"

text \<open>The array of the caller has 16 places.\<close>

definition compute_hashes :: "optimized_bloom_filter \<Rightarrow> string \<Rightarrow> (64 word list) outcome" where
  "compute_hashes f key =
     (case bf_hash_seeds f of
        [] \<Rightarrow> Inl OutOfBounds
      | seed # _ \<Rightarrow>
          if bf_hash_count f > 16 then Inl OutOfBounds
          else (case two_hashes (bc_hash_type (bf_config f)) key seed of
              (h1, h2) \<Rightarrow> Inr (map (\<lambda>i. h1 + of_nat i * h2) [0..<bf_hash_count f])))"

section \<open>Adding a key\<close>

fun set_bits :: "8 word list \<Rightarrow> 64 word \<Rightarrow> 64 word list \<Rightarrow> (8 word list) outcome" where
  "set_bits bits n [] = Inr bits"
| "set_bits bits n (x # xs) = obind (modulo x n) (\<lambda>i. obind (set_bit_at bits i) (\<lambda>bits1. set_bits bits1 n xs))"

fun count_up :: "32 word list \<Rightarrow> 32 word \<Rightarrow> 64 word \<Rightarrow> 64 word list \<Rightarrow> (32 word list) outcome" where
  "count_up cs max_count n [] = Inr cs"
| "count_up cs max_count n (x # xs) =
     obind (modulo x n) (\<lambda>i.
       if i < length cs then count_up (if cs ! i < max_count then cs[i := cs ! i + 1] else cs) max_count n xs else Inl OutOfBounds)"

definition register_mask :: "64 word list \<Rightarrow> 64 word" where
  "register_mask xs = foldl (\<lambda>msk x. msk OR push_bit (unat (x mod 64)) 1) 0 xs"

definition add_standard :: "8 word list \<Rightarrow> 64 word \<Rightarrow> 64 word list \<Rightarrow> filter_data outcome" where
  "add_standard bits n hashes = obind (set_bits bits n hashes) (\<lambda>bits1. Inr (Standard bits1))"

definition add_blocked :: "bloom_block list \<Rightarrow> 32 word \<Rightarrow> 64 word list \<Rightarrow> filter_data outcome" where
  "add_blocked blocks msk hashes =
     (case hashes of
        [] \<Rightarrow> Inl Uninit
      | x # xs \<Rightarrow>
          (let i = unat (x AND ucast msk) in
           if i < length blocks
           then (let b = blocks ! i in
             obind (set_bits (bb_bits b) (ucast (bb_size_bits b)) xs) (\<lambda>bits1.
               Inr (Blocked (blocks[i := b\<lparr>bb_bits := bits1, bb_entry_count := bb_entry_count b + 1\<rparr>]) msk)))
           else Inl OutOfBounds))"

definition add_register :: "64 word list \<Rightarrow> 32 word \<Rightarrow> 64 word list \<Rightarrow> filter_data outcome" where
  "add_register regs msk hashes =
     (case hashes of
        [] \<Rightarrow> Inl Uninit
      | x # xs \<Rightarrow>
          (let i = unat (x AND ucast msk) in
           if i < length regs then Inr (Registers (regs[i := regs ! i OR register_mask xs]) msk) else Inl OutOfBounds))"

text \<open>The layer that takes the key; when the last one is full, a new one of twice the size.\<close>

definition grow_layers :: "script \<Rightarrow> nat \<Rightarrow> scalable_bloom_layer list \<Rightarrow> (int \<times> scalable_bloom_layer list \<times> script)" where
  "grow_layers h hash_count layers =
     (let layer = last layers in
      if ly_current_entries layer \<ge> ly_max_entries layer
      then (let (ok, h1) = all_ok 2 h; n = ly_bit_count layer * 2 in
        if \<not> ok then (BLOOM_ERR_MEMORY, layers, h1)
        else (KV_ERR_NONE, layers @ [\<lparr>ly_bits = replicate (unat (byte_count n)) 0, ly_bit_count = n, ly_hash_count = hash_count,
                ly_max_entries = ly_max_entries layer * 2, ly_current_entries = 0,
                ly_false_positive_rate = ly_false_positive_rate layer div 2\<rparr>], h1))
      else (KV_ERR_NONE, layers, h))"

definition add_layer :: "scalable_bloom_layer list \<Rightarrow> 64 word list \<Rightarrow> filter_data outcome" where
  "add_layer layers hashes =
     (let layer = last layers in
      obind (set_bits (ly_bits layer) (ly_bit_count layer) (take (ly_hash_count layer) hashes)) (\<lambda>bits1.
        Inr (Scalable (butlast layers @ [layer\<lparr>ly_bits := bits1, ly_current_entries := ly_current_entries layer + 1\<rparr>]))))"

definition add_hashes :: "script \<Rightarrow> optimized_bloom_filter \<Rightarrow> 64 word list \<Rightarrow> (int \<times> filter_data \<times> script) outcome" where
  "add_hashes h f hashes =
     (case bf_data f of
        Standard bits \<Rightarrow> obind (add_standard bits (bf_bit_count f) hashes) (\<lambda>d. Inr (KV_ERR_NONE, d, h))
      | Blocked blocks msk \<Rightarrow> obind (add_blocked blocks msk hashes) (\<lambda>d. Inr (KV_ERR_NONE, d, h))
      | Registers regs msk \<Rightarrow> obind (add_register regs msk hashes) (\<lambda>d. Inr (KV_ERR_NONE, d, h))
      | Counting cs max_count \<Rightarrow>
          obind (count_up cs max_count (bf_bit_count f) hashes) (\<lambda>cs1. Inr (KV_ERR_NONE, Counting cs1 max_count, h))
      | Scalable layers \<Rightarrow>
          (case grow_layers h (bf_hash_count f) layers of
             (r, layers1, h1) \<Rightarrow>
               if r \<noteq> KV_ERR_NONE then Inr (r, bf_data f, h1)
               else obind (add_layer layers1 hashes) (\<lambda>d. Inr (KV_ERR_NONE, d, h1))))"

definition update_stats_insertion :: "bloom_filter_stats \<Rightarrow> bloom_filter_stats" where
  "update_stats_insertion s = s\<lparr>bs_total_insertions := bs_total_insertions s + 1\<rparr>"

definition bloom_filter_add_optimized ::
  "script \<Rightarrow> optimized_bloom_filter \<Rightarrow> string option \<Rightarrow> (int \<times> optimized_bloom_filter \<times> script) outcome" where
  "bloom_filter_add_optimized h f key_p =
     (case key_p of
        None \<Rightarrow> Inr (BLOOM_ERR_PARAM, f, h)
      | Some key \<Rightarrow>
          if key = [] then Inr (BLOOM_ERR_PARAM, f, h)
          else obind (compute_hashes f key) (\<lambda>hashes.
               obind (add_hashes h f hashes) (\<lambda>(r, d, h1).
                 Inr (r, if r = KV_ERR_NONE
                     then f\<lparr>bf_data := d, bf_current_entries := bf_current_entries f + 1,
                            bf_stats := (if bc_enable_statistics (bf_config f) then update_stats_insertion (bf_stats f) else bf_stats f)\<rparr>
                     else f, h1))))"

section \<open>Queries\<close>

fun test_bits :: "8 word list \<Rightarrow> 64 word \<Rightarrow> 64 word list \<Rightarrow> bool outcome" where
  "test_bits bits n [] = Inr True"
| "test_bits bits n (x # xs) =
     obind (modulo x n) (\<lambda>i. obind (get_bit_at bits i) (\<lambda>b. if b then test_bits bits n xs else Inr False))"

fun counted :: "32 word list \<Rightarrow> 64 word \<Rightarrow> 64 word list \<Rightarrow> bool outcome" where
  "counted cs n [] = Inr True"
| "counted cs n (x # xs) =
     obind (modulo x n) (\<lambda>i. if i < length cs then (if cs ! i = 0 then Inr False else counted cs n xs) else Inl OutOfBounds)"

definition test_blocked :: "bloom_block list \<Rightarrow> 32 word \<Rightarrow> 64 word list \<Rightarrow> bool outcome" where
  "test_blocked blocks msk hashes =
     (case hashes of
        [] \<Rightarrow> Inl Uninit
      | x # xs \<Rightarrow>
          (let i = unat (x AND ucast msk) in
           if i < length blocks then test_bits (bb_bits (blocks ! i)) (ucast (bb_size_bits (blocks ! i))) xs else Inl OutOfBounds))"

definition test_register :: "64 word list \<Rightarrow> 32 word \<Rightarrow> 64 word list \<Rightarrow> bool outcome" where
  "test_register regs msk hashes =
     (case hashes of
        [] \<Rightarrow> Inl Uninit
      | x # xs \<Rightarrow>
          (let i = unat (x AND ucast msk) in
           if i < length regs then Inr (regs ! i AND register_mask xs = register_mask xs) else Inl OutOfBounds))"

fun test_layers :: "scalable_bloom_layer list \<Rightarrow> 64 word list \<Rightarrow> bool outcome" where
  "test_layers [] hashes = Inr False"
| "test_layers (layer # layers) hashes =
     obind (test_bits (ly_bits layer) (ly_bit_count layer) (take (ly_hash_count layer) hashes)) (\<lambda>b.
       if b then Inr True else test_layers layers hashes)"

definition test_hashes :: "optimized_bloom_filter \<Rightarrow> 64 word list \<Rightarrow> bool outcome" where
  "test_hashes f hashes =
     (case bf_data f of
        Standard bits \<Rightarrow> test_bits bits (bf_bit_count f) hashes
      | Blocked blocks msk \<Rightarrow> test_blocked blocks msk hashes
      | Registers regs msk \<Rightarrow> test_register regs msk hashes
      | Counting cs max_count \<Rightarrow> counted cs (bf_bit_count f) hashes
      | Scalable layers \<Rightarrow> test_layers layers hashes)"

definition update_stats_query :: "bloom_filter_stats \<Rightarrow> bool \<Rightarrow> bloom_filter_stats" where
  "update_stats_query s hit =
     (if hit then s\<lparr>bs_total_queries := bs_total_queries s + 1, bs_total_hits := bs_total_hits s + 1\<rparr>
      else s\<lparr>bs_total_queries := bs_total_queries s + 1, bs_total_misses := bs_total_misses s + 1\<rparr>)"

definition bloom_filter_may_contain_optimized :: "optimized_bloom_filter \<Rightarrow> string option \<Rightarrow> (bool \<times> optimized_bloom_filter) outcome" where
  "bloom_filter_may_contain_optimized f key_p =
     (case key_p of
        None \<Rightarrow> Inr (False, f)
      | Some key \<Rightarrow>
          if key = [] then Inr (False, f)
          else obind (compute_hashes f key) (\<lambda>hashes.
               obind (test_hashes f hashes) (\<lambda>result.
                 Inr (result, if bc_enable_statistics (bf_config f) then f\<lparr>bf_stats := update_stats_query (bf_stats f) result\<rparr> else f))))"

section \<open>Removal\<close>

fun count_down :: "32 word list \<Rightarrow> 64 word \<Rightarrow> 64 word list \<Rightarrow> (32 word list) outcome" where
  "count_down cs n [] = Inr cs"
| "count_down cs n (x # xs) =
     obind (modulo x n) (\<lambda>i.
       if i < length cs then count_down (if cs ! i > 0 then cs[i := cs ! i - 1] else cs) n xs else Inl OutOfBounds)"

definition bloom_filter_remove_optimized :: "optimized_bloom_filter \<Rightarrow> string option \<Rightarrow> (int \<times> optimized_bloom_filter) outcome" where
  "bloom_filter_remove_optimized f key_p =
     (case key_p of
        None \<Rightarrow> Inr (BLOOM_ERR_PARAM, f)
      | Some key \<Rightarrow>
          if key = [] then Inr (BLOOM_ERR_PARAM, f)
          else (case bf_data f of
              Counting cs max_count \<Rightarrow>
                obind (compute_hashes f key) (\<lambda>hashes.
                obind (counted cs (bf_bit_count f) hashes) (\<lambda>present.
                  if present
                  then obind (count_down cs (bf_bit_count f) hashes) (\<lambda>cs1.
                    Inr (KV_ERR_NONE, f\<lparr>bf_data := Counting cs1 max_count, bf_current_entries := bf_current_entries f - 1\<rparr>))
                  else Inr (BLOOM_ERR_NOT_FOUND, f)))
            | _ \<Rightarrow> Inr (BLOOM_ERR_UNSUPPORTED, f)))"

section \<open>Batches\<close>

text \<open>One key of a batch: three of the representations, the others are not implemented.\<close>

definition batch_add_hashes :: "optimized_bloom_filter \<Rightarrow> 64 word list \<Rightarrow> (filter_data option) outcome" where
  "batch_add_hashes f hashes =
     (case bf_data f of
        Standard bits \<Rightarrow> obind (add_standard bits (bf_bit_count f) hashes) (\<lambda>d. Inr (Some d))
      | Blocked blocks msk \<Rightarrow> obind (add_blocked blocks msk hashes) (\<lambda>d. Inr (Some d))
      | Registers regs msk \<Rightarrow> obind (add_register regs msk hashes) (\<lambda>d. Inr (Some d))
      | _ \<Rightarrow> Inr None)"

fun add_batch_loop :: "optimized_bloom_filter \<Rightarrow> 64 word \<Rightarrow> string option list \<Rightarrow> (optimized_bloom_filter \<times> 64 word) outcome" where
  "add_batch_loop f n [] = Inr (f, n)"
| "add_batch_loop f n (key_p # keys) =
     (case key_p of
        None \<Rightarrow> add_batch_loop f n keys
      | Some key \<Rightarrow>
          if key = [] then add_batch_loop f n keys
          else obind (compute_hashes f key) (\<lambda>hashes.
               obind (batch_add_hashes f hashes) (\<lambda>added.
                 (case added of
                    None \<Rightarrow> add_batch_loop f n keys
                  | Some d \<Rightarrow> add_batch_loop (f\<lparr>bf_data := d, bf_current_entries := bf_current_entries f + 1\<rparr>) (n + 1) keys))))"

definition bloom_filter_add_batch_optimized :: "optimized_bloom_filter \<Rightarrow> string option list \<Rightarrow> (64 word \<times> optimized_bloom_filter) outcome" where
  "bloom_filter_add_batch_optimized f keys =
     (if keys = [] then Inr (0, f)
      else obind (add_batch_loop f 0 keys) (\<lambda>(f1, n).
        Inr (n, if bc_enable_statistics (bf_config f1) \<and> n > 0
                then f1\<lparr>bf_stats := (bf_stats f1)\<lparr>bs_total_insertions := bs_total_insertions (bf_stats f1) + n\<rparr>\<rparr> else f1)))"

definition batch_test_hashes :: "optimized_bloom_filter \<Rightarrow> 64 word list \<Rightarrow> bool outcome" where
  "batch_test_hashes f hashes =
     (case bf_data f of
        Standard bits \<Rightarrow> test_bits bits (bf_bit_count f) hashes
      | Blocked blocks msk \<Rightarrow> test_blocked blocks msk hashes
      | Registers regs msk \<Rightarrow> test_register regs msk hashes
      | _ \<Rightarrow> Inr False)"

text \<open>The results, the number of queries and the number of hits.\<close>

fun query_batch_loop :: "optimized_bloom_filter \<Rightarrow> string option list \<Rightarrow> (bool list \<times> 64 word \<times> 64 word) outcome" where
  "query_batch_loop f [] = Inr ([], 0, 0)"
| "query_batch_loop f (key_p # keys) =
     obind (case key_p of
         None \<Rightarrow> Inr (False, 0)
       | Some key \<Rightarrow>
           if key = [] then Inr (False, 0)
           else obind (compute_hashes f key) (\<lambda>hashes. obind (batch_test_hashes f hashes) (\<lambda>b. Inr (b, 1)))) (\<lambda>(b, one).
     obind (query_batch_loop f keys) (\<lambda>(bs, q, hits). Inr (b # bs, q + one, if b then hits + 1 else hits)))"

definition bloom_filter_query_batch_optimized ::
  "optimized_bloom_filter \<Rightarrow> string option list \<Rightarrow> (64 word \<times> bool list \<times> optimized_bloom_filter) outcome" where
  "bloom_filter_query_batch_optimized f keys =
     (if keys = [] then Inr (0, [], f)
      else obind (query_batch_loop f keys) (\<lambda>(bs, q, hits).
        Inr (q, bs, if bc_enable_statistics (bf_config f) \<and> q > 0
             then f\<lparr>bf_stats := (bf_stats f)\<lparr>bs_total_queries := bs_total_queries (bf_stats f) + q, bs_total_hits := bs_total_hits (bf_stats f) + hits,
                                             bs_total_misses := bs_total_misses (bf_stats f) + (q - hits)\<rparr>\<rparr> else f)))"

definition bloom_filter_reset_stats_optimized :: "optimized_bloom_filter \<Rightarrow> int \<times> optimized_bloom_filter" where
  "bloom_filter_reset_stats_optimized f =
     (if \<not> bc_enable_statistics (bf_config f) then (BLOOM_ERR_UNSUPPORTED, f) else (KV_ERR_NONE, f\<lparr>bf_stats := zero_bloom_stats\<rparr>))"

section \<open>Serialisation\<close>

text \<open>
  The buffer is a header and the bytes after it; \<open>hdr\<close> is the size of the header on the platform. Words are written in little-endian order.
\<close>

record bloom_filter_header =
  bh_magic :: "32 word"
  bh_version :: "32 word"
  bh_config :: bloom_filter_config
  bh_bit_count :: "64 word"
  bh_hash_count :: "32 word"
  bh_max_entries :: "64 word"
  bh_current_entries :: "64 word"
  bh_salt :: "64 word"
  bh_creation_time :: nat
  bh_data_size :: "32 word"
  bh_checksum :: "32 word"

abbreviation BLOOM_FILTER_MAGIC :: "32 word" where "BLOOM_FILTER_MAGIC \<equiv> 0x424C4F4D"
abbreviation (input) BLOOM_FILTER_VERSION :: "32 word" where "BLOOM_FILTER_VERSION \<equiv> 1"

definition bytes32 :: "32 word \<Rightarrow> 8 word list" where
  "bytes32 w = map (\<lambda>i. ucast (drop_bit (8 * i) w)) [0..<4]"

definition bytes64 :: "64 word \<Rightarrow> 8 word list" where
  "bytes64 w = map (\<lambda>i. ucast (drop_bit (8 * i) w)) [0..<8]"

fun words32 :: "8 word list \<Rightarrow> 32 word list" where
  "words32 (a # b # c # d # bs) = (ucast a OR push_bit 8 (ucast b) OR push_bit 16 (ucast c) OR push_bit 24 (ucast d)) # words32 bs"
| "words32 _ = []"

fun words64 :: "8 word list \<Rightarrow> 64 word list" where
  "words64 (a # b # c # d # e # f # g # h # bs) =
     (ucast a OR push_bit 8 (ucast b) OR push_bit 16 (ucast c) OR push_bit 24 (ucast d) OR
      push_bit 32 (ucast e) OR push_bit 40 (ucast f) OR push_bit 48 (ucast g) OR push_bit 56 (ucast h)) # words64 bs"
| "words64 _ = []"

definition calculate_checksum :: "8 word list \<Rightarrow> 32 word" where
  "calculate_checksum bytes = foldl (\<lambda>checksum b. checksum * 31 + ucast b) 0 bytes"

text \<open>\<open>memcpy\<close> out of an array and into one.\<close>

definition copy_out :: "nat \<Rightarrow> 8 word list \<Rightarrow> (8 word list) outcome" where
  "copy_out n src = (if n \<le> length src then Inr (take n src) else Inl OutOfBounds)"

definition copy_in :: "8 word list \<Rightarrow> 8 word list \<Rightarrow> (8 word list) outcome" where
  "copy_in src dst = (if length src \<le> length dst then Inr (src @ drop (length src) dst) else Inl OutOfBounds)"

definition data_size_of :: "optimized_bloom_filter \<Rightarrow> 64 word" where
  "data_size_of f =
     (case bf_data f of
        Standard bits \<Rightarrow> byte_count (bf_bit_count f)
      | Blocked blocks msk \<Rightarrow> ucast ((of_nat (length blocks) * bc_block_size (bf_config f)) div 8)
      | Registers regs msk \<Rightarrow> of_nat (length regs) * 8
      | Counting cs max_count \<Rightarrow> bf_bit_count f * 4
      | Scalable layers \<Rightarrow> (\<Sum>ly\<leftarrow>layers. byte_count (ly_bit_count ly)))"

fun copy_blocks :: "nat \<Rightarrow> bloom_block list \<Rightarrow> (8 word list) outcome" where
  "copy_blocks n [] = Inr []"
| "copy_blocks n (b # bs) = obind (copy_out n (bb_bits b)) (\<lambda>xs. obind (copy_blocks n bs) (\<lambda>ys. Inr (xs @ ys)))"

fun copy_layers :: "scalable_bloom_layer list \<Rightarrow> (8 word list) outcome" where
  "copy_layers [] = Inr []"
| "copy_layers (l # ls) = obind (copy_out (unat (byte_count (ly_bit_count l))) (ly_bits l)) (\<lambda>xs. obind (copy_layers ls) (\<lambda>ys. Inr (xs @ ys)))"

definition data_bytes :: "optimized_bloom_filter \<Rightarrow> (8 word list) outcome" where
  "data_bytes f =
     (case bf_data f of
        Standard bits \<Rightarrow> copy_out (unat (data_size_of f)) bits
      | Blocked blocks msk \<Rightarrow> copy_blocks (unat (bc_block_size (bf_config f) div 8)) blocks
      | Registers regs msk \<Rightarrow> copy_out (unat (data_size_of f)) (concat (map bytes64 regs))
      | Counting cs max_count \<Rightarrow> copy_out (unat (data_size_of f)) (concat (map bytes32 cs))
      | Scalable layers \<Rightarrow> copy_layers layers)"

text \<open>
  The result and what has been written; nothing when the buffer is too small. The checksum is taken over the announced size: when the blocks
  write less, their size not being a multiple of eight, it covers bytes that were never written.
\<close>

definition bloom_filter_serialize_optimized ::
  "64 word \<Rightarrow> 64 word \<Rightarrow> optimized_bloom_filter \<Rightarrow> (64 word \<times> (bloom_filter_header \<times> 8 word list) option) outcome" where
  "bloom_filter_serialize_optimized hdr buffer_size f =
     (let data_size = data_size_of f; required = hdr + of_nat (bf_hash_count f) * 4 + data_size in
      if buffer_size < required then Inr (required, None)
      else obind (copy_out (bf_hash_count f * 4) (concat (map bytes32 (bf_hash_seeds f)))) (\<lambda>seeds.
           obind (data_bytes f) (\<lambda>dat.
             if length dat < unat data_size then Inl Uninit
             else if unat data_size < length dat then Inl OutOfBounds
             else Inr (required, Some (\<lparr>bh_magic = BLOOM_FILTER_MAGIC, bh_version = BLOOM_FILTER_VERSION, bh_config = bf_config f,
               bh_bit_count = bf_bit_count f, bh_hash_count = of_nat (bf_hash_count f), bh_max_entries = bf_max_entries f,
               bh_current_entries = bf_current_entries f, bh_salt = bf_salt f, bh_creation_time = bf_creation_time f,
               bh_data_size = ucast data_size, bh_checksum = calculate_checksum (seeds @ dat)\<rparr>, seeds @ dat)))))"

text \<open>\<open>None\<close> also when the representation is one that cannot be restored.\<close>

definition restore_data :: "filter_data \<Rightarrow> 8 word list \<Rightarrow> (filter_data option) outcome" where
  "restore_data d bytes =
     (case d of
        Standard bits \<Rightarrow> obind (copy_in bytes bits) (\<lambda>bits1. Inr (Some (Standard bits1)))
      | Registers regs msk \<Rightarrow> obind (copy_in bytes (concat (map bytes64 regs))) (\<lambda>bs. Inr (Some (Registers (words64 bs) msk)))
      | Counting cs max_count \<Rightarrow> obind (copy_in bytes (concat (map bytes32 cs))) (\<lambda>bs. Inr (Some (Counting (words32 bs) max_count)))
      | _ \<Rightarrow> Inr None)"

definition bloom_filter_deserialize_optimized ::
  "script \<Rightarrow> (nat \<Rightarrow> 32 word) \<Rightarrow> nat \<Rightarrow> 64 word \<Rightarrow> (bloom_filter_header \<times> 8 word list) \<Rightarrow> 64 word \<Rightarrow> (optimized_bloom_filter option \<times> script) outcome" where
  "bloom_filter_deserialize_optimized h rnd now hdr = (\<lambda>(header, payload) buffer_size.
     (let seed_bytes = unat (bh_hash_count header) * 4;
          expected = hdr + ucast (bh_hash_count header) * 4 + ucast (bh_data_size header) in
      if buffer_size < hdr then Inr (None, h)
      else if bh_magic header \<noteq> BLOOM_FILTER_MAGIC \<or> bh_version header \<noteq> BLOOM_FILTER_VERSION then Inr (None, h)
      else if buffer_size < expected then Inr (None, h)
      else obind (copy_out (seed_bytes + unat (bh_data_size header)) payload) (\<lambda>body.
        if calculate_checksum body \<noteq> bh_checksum header then Inr (None, h)
        else obind (bloom_filter_create_optimized h rnd now (Some (bh_config header))) (\<lambda>(fp, h1).
          (case fp of
             None \<Rightarrow> Inr (None, h1)
           | Some f \<Rightarrow>
               obind (copy_in (take seed_bytes body) (concat (map bytes32 (bf_hash_seeds f)))) (\<lambda>seeds.
               obind (restore_data (bf_data f) (drop seed_bytes body)) (\<lambda>dat.
                 Inr (map_option (\<lambda>d. f\<lparr>bf_bit_count := bh_bit_count header, bf_hash_count := unat (bh_hash_count header),
                        bf_max_entries := bh_max_entries header, bf_current_entries := bh_current_entries header, bf_salt := bh_salt header,
                        bf_creation_time := bh_creation_time header, bf_hash_seeds := words32 seeds, bf_data := d\<rparr>) dat, h1))))))))"


end
