(* ===== verification/Bloom_Props.thy ===== *)
theory Bloom_Props
  imports Bloom
begin

text \<open>
  A Bloom filter has no false negatives. The interface is the locale \<open>membership\<close>: an addition makes its key pass the test and
  keeps what passed before; it is interpreted on the filters of all six types.
\<close>

section \<open>Membership filters\<close>

fun add_all :: "('f \<Rightarrow> 'k \<Rightarrow> 'f outcome) \<Rightarrow> 'k list \<Rightarrow> 'f \<Rightarrow> 'f outcome" where
  "add_all add [] f = Inr f"
| "add_all add (k # ks) f = obind (add f k) (add_all add ks)"

text \<open>\<open>ok n f\<close>: the filter is well formed and takes \<open>n\<close> more keys.\<close>

locale membership =
  fixes ok :: "nat \<Rightarrow> 'f \<Rightarrow> bool" and accepts :: "'k \<Rightarrow> bool" and add :: "'f \<Rightarrow> 'k \<Rightarrow> 'f outcome" and test :: "'f \<Rightarrow> 'k \<Rightarrow> bool outcome"
  assumes add_ok: "ok (Suc n) f \<Longrightarrow> accepts k \<Longrightarrow>
    \<exists>f'. add f k = Inr f' \<and> ok n f' \<and> test f' k = Inr True \<and> (\<forall>k'. test f k' = Inr True \<longrightarrow> test f' k' = Inr True)"
begin

lemma add_all_ok:
  "ok (length ks + n) f \<Longrightarrow> list_all accepts ks \<Longrightarrow>
   \<exists>f'. add_all add ks f = Inr f' \<and> ok n f' \<and> (\<forall>k\<in>set ks. test f' k = Inr True) \<and> (\<forall>k. test f k = Inr True \<longrightarrow> test f' k = Inr True)"
proof (induction ks arbitrary: f)
  case (Cons k ks)
  from add_ok[of "length ks + n" f k] Cons.prems obtain f1 where f1: "add f k = Inr f1" "ok (length ks + n) f1" "test f1 k = Inr True"
    "\<forall>k'. test f k' = Inr True \<longrightarrow> test f1 k' = Inr True" by auto
  from Cons.IH[OF f1(2)] Cons.prems(2) obtain f' where "add_all add ks f1 = Inr f'" "ok n f'" "\<forall>k\<in>set ks. test f' k = Inr True"
    "\<forall>k. test f1 k = Inr True \<longrightarrow> test f' k = Inr True" by auto
  with f1 show ?case by auto
qed simp

end

section \<open>Bits\<close>

definition on :: "8 word list \<Rightarrow> nat \<Rightarrow> bool" where
  "on bits i \<longleftrightarrow> bit (bits ! (i div 8)) (i mod 8)"

lemma get_bit_on: "i < 8 * length bits \<Longrightarrow> get_bit_at bits i = Inr (on bits i)"
  by (simp add: get_bit_at_def on_def bit_iff_and_push_bit_not_eq_0 less_mult_imp_div_less mult.commute)

lemma set_bit_on:
  assumes "i < 8 * length bits"
  shows "\<exists>bits'. set_bit_at bits i = Inr bits' \<and> length bits' = length bits \<and> (\<forall>j. on bits' j \<longleftrightarrow> on bits j \<or> j = i)"
proof -
  have lt: "i div 8 < length bits" using assms by (simp add: less_mult_imp_div_less mult.commute)
  have "on (bits[i div 8 := bits ! (i div 8) OR push_bit (i mod 8) 1]) j \<longleftrightarrow> on bits j \<or> j = i" for j
  proof (cases "j div 8 = i div 8")
    case True
    then have "j = i \<longleftrightarrow> j mod 8 = i mod 8" by (metis mod_div_mult_eq)
    with True lt show ?thesis by (auto simp: on_def bit_or_iff bit_exp_iff)
  next
    case False
    then show ?thesis by (auto simp: on_def)
  qed
  with lt show ?thesis by (simp add: set_bit_at_def)
qed

definition idx :: "64 word \<Rightarrow> 64 word \<Rightarrow> nat" where
  "idx n x = unat (x mod n)"

lemma idx_lt: "n \<noteq> 0 \<Longrightarrow> idx n x < unat n"
  by (simp add: idx_def unat_mod unat_gt_0)

lemma modulo_idx: "n \<noteq> 0 \<Longrightarrow> modulo x n = Inr (idx n x)"
  by (simp add: modulo_def idx_def)

text \<open>An array that has room for \<open>n\<close> bits.\<close>

definition fits :: "8 word list \<Rightarrow> 64 word \<Rightarrow> bool" where
  "fits bits n \<longleftrightarrow> n \<noteq> 0 \<and> unat n \<le> 8 * length bits"

lemma fits_idx: "fits bits n \<Longrightarrow> idx n x < 8 * length bits"
  using idx_lt[of n x] by (simp add: fits_def)

lemma test_bits_spec: "fits bits n \<Longrightarrow> test_bits bits n xs = Inr (\<forall>x\<in>set xs. on bits (idx n x))"
  by (induction xs) (auto simp: modulo_idx fits_def get_bit_on[OF fits_idx, unfolded fits_def])

lemma set_bits_spec:
  assumes "fits bits n"
  shows "\<exists>bits'. set_bits bits n xs = Inr bits' \<and> length bits' = length bits \<and> (\<forall>j. on bits' j \<longleftrightarrow> on bits j \<or> j \<in> idx n ` set xs)"
  using assms
proof (induction xs arbitrary: bits)
  case (Cons x xs)
  from set_bit_on[OF fits_idx[OF Cons.prems]] obtain b1 where b1: "set_bit_at bits (idx n x) = Inr b1" "length b1 = length bits"
    "\<forall>j. on b1 j \<longleftrightarrow> on bits j \<or> j = idx n x" by blast
  then have "fits b1 n" using Cons.prems by (simp add: fits_def)
  from Cons.IH[OF this] b1 Cons.prems show ?case by (auto simp: modulo_idx fits_def)
qed simp

text \<open>An addition to an array of bits makes its own hashes pass and keeps what passed.\<close>

lemma set_bits_ok:
  assumes "fits bits n"
  shows "\<exists>bits'. set_bits bits n xs = Inr bits' \<and> length bits' = length bits \<and> test_bits bits' n xs = Inr True \<and>
    (\<forall>ys. test_bits bits n ys = Inr True \<longrightarrow> test_bits bits' n ys = Inr True)"
proof -
  from set_bits_spec[OF assms, of xs] obtain bits' where b: "set_bits bits n xs = Inr bits'" "length bits' = length bits"
    "\<forall>j. on bits' j \<longleftrightarrow> on bits j \<or> j \<in> idx n ` set xs" by blast
  then have "fits bits' n" using assms by (simp add: fits_def)
  with b assms show ?thesis by (auto simp: test_bits_spec)
qed

section \<open>Registers and counters\<close>

lemma and_mask_mono:
  "(r OR m) AND m = (m :: 64 word)" "r AND m' = m' \<Longrightarrow> (r OR m) AND m' = (m' :: 64 word)"
  by (auto simp: bit_eq_iff bit_and_iff bit_or_iff)

lemma counted_spec:
  assumes "n \<noteq> 0" "unat n \<le> length cs"
  shows "counted cs n xs = Inr (\<forall>x\<in>set xs. cs ! idx n x \<noteq> 0)"
proof (induction xs)
  case (Cons x xs)
  have "idx n x < length cs" using idx_lt[OF assms(1), of x] assms(2) by simp
  with Cons show ?case by (simp add: modulo_idx[OF assms(1)])
qed simp

lemma count_up_ok:
  assumes "n \<noteq> 0" "unat n \<le> length cs" "mx \<noteq> 0"
  shows "\<exists>cs'. count_up cs mx n xs = Inr cs' \<and> length cs' = length cs \<and> (\<forall>x\<in>set xs. cs' ! idx n x \<noteq> 0) \<and>
    (\<forall>j<length cs. cs ! j \<noteq> 0 \<longrightarrow> cs' ! j \<noteq> 0)"
  using assms(2)
proof (induction xs arbitrary: cs)
  case (Cons x xs)
  have lt: "idx n x < length cs" using idx_lt[OF assms(1), of x] Cons.prems by simp
  define c1 where "c1 = (if cs ! idx n x < mx then cs[idx n x := cs ! idx n x + 1] else cs)"
  have "c + 1 \<noteq> 0" if "c < mx" for c :: "32 word"
  proof
    assume "c + 1 = 0"
    then have "c = - 1" by (simp add: eq_neg_iff_add_eq_0)
    with that show False by simp
  qed
  then have nz: "c1 ! idx n x \<noteq> 0" "\<forall>j<length cs. cs ! j \<noteq> 0 \<longrightarrow> c1 ! j \<noteq> 0"
    using lt assms(3) by (auto simp: c1_def nth_list_update not_less)
  have len: "length c1 = length cs" by (simp add: c1_def)
  from Cons.IH[of c1] Cons.prems obtain cs' where c': "count_up c1 mx n xs = Inr cs'" "length cs' = length cs"
    "\<forall>x\<in>set xs. cs' ! idx n x \<noteq> 0" "\<forall>j<length cs. c1 ! j \<noteq> 0 \<longrightarrow> cs' ! j \<noteq> 0" unfolding len by blast
  then have "count_up cs mx n (x # xs) = Inr cs'" using lt by (simp add: modulo_idx[OF assms(1)] c1_def)
  then show ?case using c' lt nz by auto
qed simp

section \<open>The filter\<close>

definition layer_ok :: "scalable_bloom_layer \<Rightarrow> bool" where
  "layer_ok ly \<longleftrightarrow> fits (ly_bits ly) (ly_bit_count ly)"

text \<open>
  A growing filter takes keys until 2 to the 57 have been added: a layer that is full has held its maximum, so maxima and
  numbers of bits, at most 32 for an entry, can be doubled without overflow.
\<close>

definition last_layer_ok :: "nat \<Rightarrow> nat \<Rightarrow> scalable_bloom_layer \<Rightarrow> bool" where
  "last_layer_ok n tot ly \<longleftrightarrow> tot + n < 2 ^ 57 \<and> unat (ly_current_entries ly) \<le> tot \<and> unat (ly_bit_count ly) \<le> 32 * unat (ly_max_entries ly)"

definition data_ok :: "nat \<Rightarrow> optimized_bloom_filter \<Rightarrow> bool" where
  "data_ok n f =
     (case bf_data f of
        Standard bits \<Rightarrow> fits bits (bf_bit_count f)
      | Blocked blocks msk \<Rightarrow> unat msk < length blocks \<and> list_all (\<lambda>b. fits (bb_bits b) (ucast (bb_size_bits b))) blocks
      | Registers regs msk \<Rightarrow> unat msk < length regs
      | Counting cs mx \<Rightarrow> bf_bit_count f \<noteq> 0 \<and> unat (bf_bit_count f) \<le> length cs \<and> mx \<noteq> 0
      | Scalable layers \<Rightarrow> layers \<noteq> [] \<and> list_all layer_ok layers \<and> last_layer_ok n (unat (bf_current_entries f)) (last layers))"

definition filter_ok :: "nat \<Rightarrow> optimized_bloom_filter \<Rightarrow> bool" where
  "filter_ok n f \<longleftrightarrow> bf_hash_seeds f \<noteq> [] \<and> 0 < bf_hash_count f \<and> bf_hash_count f \<le> 16 \<and> data_ok n f"

definition hashes_of :: "optimized_bloom_filter \<Rightarrow> string \<Rightarrow> 64 word list" where
  "hashes_of f key = (case two_hashes (bc_hash_type (bf_config f)) key (hd (bf_hash_seeds f)) of
     (h1, h2) \<Rightarrow> map (\<lambda>i. h1 + of_nat i * h2) [0..<bf_hash_count f])"

lemma compute_hashes_ok: "filter_ok n f \<Longrightarrow> compute_hashes f key = Inr (hashes_of f key) \<and> hashes_of f key \<noteq> []"
  by (cases "bf_hash_seeds f") (auto simp: filter_ok_def compute_hashes_def hashes_of_def split: prod.split)

lemma masked_lt: "unat msk < n \<Longrightarrow> unat (x AND ucast (msk :: 32 word) :: 64 word) < n"
proof -
  assume lt: "unat msk < n"
  have "unat (x AND ucast msk) \<le> unat (ucast msk :: 64 word)" by (simp add: unat_arith_simps(1)[symmetric] word_and_le1)
  also have "\<dots> = unat msk" using unsigned_less[of msk, where ?'a = nat] by (simp add: unsigned_ucast_eq take_bit_nat_eq_self)
  finally show ?thesis using lt by simp
qed

text \<open>What an addition of hashes has to do; \<open>T\<close> is the test of the representation.\<close>

definition covers :: "('d \<Rightarrow> 64 word list \<Rightarrow> bool outcome) \<Rightarrow> 64 word list \<Rightarrow> 'd \<Rightarrow> 'd \<Rightarrow> bool" where
  "covers T hs d d' \<longleftrightarrow> T d' hs = Inr True \<and> (\<forall>ys. T d ys = Inr True \<longrightarrow> T d' ys = Inr True)"

lemma blocked_ok:
  assumes "unat msk < length bs" "list_all (\<lambda>b. fits (bb_bits b) (ucast (bb_size_bits b))) bs" "hs \<noteq> []"
  shows "\<exists>bs'. add_blocked bs msk hs = Inr (Blocked bs' msk) \<and> length bs' = length bs \<and>
    list_all (\<lambda>b. fits (bb_bits b) (ucast (bb_size_bits b))) bs' \<and> covers (\<lambda>b. test_blocked b msk) hs bs bs'"
proof -
  obtain x xs where hs: "hs = x # xs" using assms(3) by (cases hs) auto
  let ?i = "unat (x AND ucast msk)"
  let ?b = "bs ! ?i"
  have i: "?i < length bs" by (rule masked_lt[OF assms(1)])
  then have fit: "fits (bb_bits ?b) (ucast (bb_size_bits ?b))" using assms(2) by (simp add: list_all_length)
  from set_bits_ok[OF fit, of xs] obtain b1 where b1: "set_bits (bb_bits ?b) (ucast (bb_size_bits ?b)) xs = Inr b1"
    "length b1 = length (bb_bits ?b)" "test_bits b1 (ucast (bb_size_bits ?b)) xs = Inr True"
    "\<forall>ys. test_bits (bb_bits ?b) (ucast (bb_size_bits ?b)) ys = Inr True \<longrightarrow> test_bits b1 (ucast (bb_size_bits ?b)) ys = Inr True" by blast
  let ?bs = "bs[?i := ?b\<lparr>bb_bits := b1, bb_entry_count := bb_entry_count ?b + 1\<rparr>]"
  have "add_blocked bs msk hs = Inr (Blocked ?bs msk)" using hs i b1(1) by (simp add: add_blocked_def Let_def)
  moreover have "list_all (\<lambda>b. fits (bb_bits b) (ucast (bb_size_bits b))) ?bs"
    using assms(2) fit b1(2) by (auto simp: list_all_iff fits_def dest!: set_update_subset_insert[THEN subsetD])
  moreover have "test_blocked ?bs msk ys = Inr True" if t: "test_blocked bs msk ys = Inr True" for ys
  proof (cases ys)
    case (Cons y zs)
    have "unat (y AND ucast msk) < length bs" by (rule masked_lt[OF assms(1)])
    with Cons t b1(4) i show ?thesis by (auto simp: test_blocked_def Let_def nth_list_update)
  qed (use t in \<open>simp add: test_blocked_def\<close>)
  moreover have "test_blocked ?bs msk hs = Inr True" using hs i b1(3) by (simp add: test_blocked_def Let_def)
  ultimately show ?thesis by (intro exI[of _ ?bs]) (simp add: covers_def)
qed

lemma register_ok:
  assumes "unat msk < length rs" "hs \<noteq> []"
  shows "\<exists>rs'. add_register rs msk hs = Inr (Registers rs' msk) \<and> length rs' = length rs \<and> covers (\<lambda>r. test_register r msk) hs rs rs'"
proof -
  obtain x xs where hs: "hs = x # xs" using assms(2) by (cases hs) auto
  have i: "unat (y AND ucast msk) < length rs" for y :: "64 word" by (rule masked_lt[OF assms(1)])
  let ?rs = "rs[unat (x AND ucast msk) := rs ! unat (x AND ucast msk) OR register_mask xs]"
  have "test_register ?rs msk ys = Inr True" if "test_register rs msk ys = Inr True" for ys
    using that i and_mask_mono by (cases ys) (auto simp: test_register_def Let_def nth_list_update)
  moreover have "test_register ?rs msk hs = Inr True" using hs i and_mask_mono by (simp add: test_register_def Let_def)
  ultimately show ?thesis using hs i by (intro exI[of _ ?rs]) (simp add: add_register_def covers_def Let_def)
qed


section \<open>Layers\<close>

lemma byte_count_fits:
  assumes "n \<noteq> 0" "unat n < 2 ^ 63"
  shows "fits (replicate (unat (byte_count n)) 0) n"
proof -
  have seven: "unat (n + 7) = unat n + 7"
    using assms(2) by (subst unat_plus_simple[THEN iffD1]) (simp_all add: word_le_nat_alt unat_word_ariths)
  have "unat (byte_count n) = (unat n + 7) div 8" by (simp add: byte_count_def unat_div seven)
  then have "unat n \<le> 8 * unat (byte_count n)" by simp
  with assms(1) show ?thesis by (simp add: fits_def)
qed

lemma grow_ok:
  assumes "layers \<noteq> []" "list_all layer_ok layers" "last_layer_ok (Suc n) tot (last layers)"
  shows "\<exists>new. grow_layers [] hc layers = (KV_ERR_NONE, layers @ new, []) \<and> list_all layer_ok new \<and>
    last_layer_ok (Suc n) tot (last (layers @ new))"
proof (cases "ly_current_entries (last layers) \<ge> ly_max_entries (last layers)")
  case False
  with assms show ?thesis by (intro exI[of _ "[]"]) (simp add: grow_layers_def Let_def)
next
  case True
  let ?L = "last layers"
  have mx: "unat (ly_max_entries ?L) < 2 ^ 57" "unat (ly_bit_count ?L) < 2 ^ 62"
    using True assms(3) by (auto simp: last_layer_ok_def word_le_nat_alt)
  have n2: "unat (ly_bit_count ?L * 2) = unat (ly_bit_count ?L) * 2" "unat (ly_max_entries ?L * 2) = unat (ly_max_entries ?L) * 2"
    using mx by (simp_all add: unat_word_ariths)
  have "ly_bit_count ?L \<noteq> 0" using assms(1,2) by (simp add: list_all_iff layer_ok_def fits_def)
  then have "ly_bit_count ?L * 2 \<noteq> 0" using n2(1) by (metis mult_is_0 unat_eq_zero zero_neq_numeral unat_0)
  with byte_count_fits[of "ly_bit_count ?L * 2"] n2(1) mx(2)
  have "fits (replicate (unat (byte_count (ly_bit_count ?L * 2))) 0) (ly_bit_count ?L * 2)" by simp
  with True n2 assms(3) show ?thesis
    by (intro exI[of _ "[\<lparr>ly_bits = replicate (unat (byte_count (ly_bit_count ?L * 2))) 0, ly_bit_count = ly_bit_count ?L * 2, ly_hash_count = hc,
                ly_max_entries = ly_max_entries ?L * 2, ly_current_entries = 0,
                ly_false_positive_rate = ly_false_positive_rate ?L div 2\<rparr>]"])
      (simp add: grow_layers_def Let_def layer_ok_def last_layer_ok_def)
qed

lemma test_layers_True:
  "list_all layer_ok ls \<Longrightarrow> test_layers ls hs = Inr (\<exists>ly\<in>set ls. test_bits (ly_bits ly) (ly_bit_count ly) (take (ly_hash_count ly) hs) = Inr True)"
  by (induction ls) (auto simp: layer_ok_def test_bits_spec)

lemma layers_ok:
  assumes "layers \<noteq> []" "list_all layer_ok layers" "last_layer_ok (Suc n) tot (last layers)"
  shows "\<exists>layers'. add_layer layers hs = Inr (Scalable layers') \<and> layers' \<noteq> [] \<and> list_all layer_ok layers' \<and>
    last_layer_ok n (Suc tot) (last layers') \<and> covers test_layers hs layers layers'"
proof -
  let ?L = "last layers"
  have split: "layers = butlast layers @ [?L]" using assms(1) by simp
  have L: "layer_ok ?L" using assms(1,2) by (simp add: list_all_iff)
  from set_bits_ok[of "ly_bits ?L" "ly_bit_count ?L" "take (ly_hash_count ?L) hs"] L obtain b1 where
    b1: "set_bits (ly_bits ?L) (ly_bit_count ?L) (take (ly_hash_count ?L) hs) = Inr b1" "length b1 = length (ly_bits ?L)"
    "test_bits b1 (ly_bit_count ?L) (take (ly_hash_count ?L) hs) = Inr True"
    "\<forall>ys. test_bits (ly_bits ?L) (ly_bit_count ?L) ys = Inr True \<longrightarrow> test_bits b1 (ly_bit_count ?L) ys = Inr True"
    by (auto simp: layer_ok_def)
  let ?L1 = "?L\<lparr>ly_bits := b1, ly_current_entries := ly_current_entries ?L + 1\<rparr>"
  let ?ls = "butlast layers @ [?L1]"
  have L1: "layer_ok ?L1" using L b1(2) by (simp add: layer_ok_def fits_def)
  have bl: "list_all layer_ok (butlast layers)" using assms(2) by (auto simp: list_all_iff dest: in_set_butlastD)
  then have ok: "list_all layer_ok ?ls" using L1 by simp
  have "unat (ly_current_entries ?L) < 2 ^ 57" using assms(3) by (simp add: last_layer_ok_def)
  then have "unat (ly_current_entries ?L + 1) = Suc (unat (ly_current_entries ?L))" by (simp add: unat_word_ariths)
  then have "last_layer_ok n (Suc tot) ?L1" using assms(3) by (simp add: last_layer_ok_def)
  moreover have "test_layers ?ls ys = Inr True" if t: "test_layers layers ys = Inr True" for ys
  proof -
    from t obtain ly where ly: "ly \<in> set layers" "test_bits (ly_bits ly) (ly_bit_count ly) (take (ly_hash_count ly) ys) = Inr True"
      by (auto simp: test_layers_True[OF assms(2)])
    then have "ly \<in> set (butlast layers) \<or> ly = ?L" by (metis split UnE set_append set_ConsD empty_iff list.set(1))
    with ly(2) b1(4) show ?thesis by (auto simp: test_layers_True[OF ok])
  qed
  moreover have "test_layers ?ls hs = Inr True" using b1(3) by (auto simp: test_layers_True[OF ok])
  ultimately show ?thesis using ok b1(1) by (intro exI[of _ ?ls]) (simp add: add_layer_def covers_def Let_def)
qed

lemma test_layers_grow:
  assumes "list_all layer_ok layers" "list_all layer_ok new" "test_layers layers ys = Inr True"
  shows "test_layers (layers @ new) ys = Inr True"
proof -
  have "list_all layer_ok (layers @ new)" using assms(1,2) by simp
  then show ?thesis using assms(3) by (auto simp: test_layers_True[OF assms(1)] test_layers_True)
qed


section \<open>Additions to a filter\<close>

text \<open>What a query asks of a filter, apart from its statistics.\<close>

definition passes :: "optimized_bloom_filter \<Rightarrow> string \<Rightarrow> bool outcome" where
  "passes f key = obind (bloom_filter_may_contain_optimized f (Some key)) (\<lambda>(b, f1). Inr b)"

definition add_key :: "optimized_bloom_filter \<Rightarrow> string \<Rightarrow> optimized_bloom_filter outcome" where
  "add_key f key = obind (bloom_filter_add_optimized [] f (Some key)) (\<lambda>(r, f1, h). if r = KV_ERR_NONE then Inr f1 else Inl Torn)"

definition with_data :: "optimized_bloom_filter \<Rightarrow> filter_data \<Rightarrow> optimized_bloom_filter" where
  "with_data f d = f\<lparr>bf_data := d, bf_current_entries := bf_current_entries f + 1,
     bf_stats := (if bc_enable_statistics (bf_config f) then update_stats_insertion (bf_stats f) else bf_stats f)\<rparr>"

lemma with_data_sel [simp]:
  "bf_data (with_data f d) = d" "bf_bit_count (with_data f d) = bf_bit_count f" "bf_hash_count (with_data f d) = bf_hash_count f"
  "bf_hash_seeds (with_data f d) = bf_hash_seeds f" "bf_config (with_data f d) = bf_config f"
  "bf_current_entries (with_data f d) = bf_current_entries f + 1" "hashes_of (with_data f d) = hashes_of f"
  by (simp_all add: with_data_def hashes_of_def fun_eq_iff)

lemma add_hashes_ok:
  assumes ok: "filter_ok (Suc n) f" and hs: "hs \<noteq> []"
  shows "\<exists>d. add_hashes [] f hs = Inr (KV_ERR_NONE, d, []) \<and> filter_ok n (with_data f d) \<and> covers test_hashes hs f (with_data f d)"
proof -
  have ok': "bf_hash_seeds f \<noteq> []" "0 < bf_hash_count f" "bf_hash_count f \<le> 16" "data_ok (Suc n) f" using ok by (simp_all add: filter_ok_def)
  show ?thesis
  proof (cases "bf_data f")
    case (Standard bits)
    with ok'(4) have fit: "fits bits (bf_bit_count f)" by (simp add: data_ok_def)
    from set_bits_ok[OF fit, of hs] obtain b1 where "set_bits bits (bf_bit_count f) hs = Inr b1" "length b1 = length bits"
      "test_bits b1 (bf_bit_count f) hs = Inr True"
      "\<forall>ys. test_bits bits (bf_bit_count f) ys = Inr True \<longrightarrow> test_bits b1 (bf_bit_count f) ys = Inr True" by blast
    with Standard ok' fit show ?thesis
      by (intro exI[of _ "Bloom.Standard b1"])
        (simp add: add_hashes_def add_standard_def filter_ok_def data_ok_def covers_def test_hashes_def fits_def)
  next
    case (Blocked bs msk)
    with ok'(4) have b: "unat msk < length bs" "list_all (\<lambda>b. fits (bb_bits b) (ucast (bb_size_bits b))) bs" by (simp_all add: data_ok_def)
    from blocked_ok[OF b hs] obtain bs' where "add_blocked bs msk hs = Inr (Bloom.Blocked bs' msk)" "length bs' = length bs"
      "list_all (\<lambda>b. fits (bb_bits b) (ucast (bb_size_bits b))) bs'" "covers (\<lambda>b. test_blocked b msk) hs bs bs'" by blast
    with Blocked ok' b show ?thesis
      by (intro exI[of _ "Bloom.Blocked bs' msk"]) (simp add: add_hashes_def filter_ok_def data_ok_def covers_def test_hashes_def)
  next
    case (Registers rs msk)
    with ok'(4) have r: "unat msk < length rs" by (simp add: data_ok_def)
    from register_ok[OF r hs] obtain rs' where "add_register rs msk hs = Inr (Bloom.Registers rs' msk)" "length rs' = length rs"
      "covers (\<lambda>r. test_register r msk) hs rs rs'" by blast
    with Registers ok' r show ?thesis
      by (intro exI[of _ "Bloom.Registers rs' msk"]) (simp add: add_hashes_def filter_ok_def data_ok_def covers_def test_hashes_def)
  next
    case (Counting cs mx)
    with ok'(4) have c: "bf_bit_count f \<noteq> 0" "unat (bf_bit_count f) \<le> length cs" "mx \<noteq> 0" by (simp_all add: data_ok_def)
    from count_up_ok[OF c, of hs] obtain cs' where cs': "count_up cs mx (bf_bit_count f) hs = Inr cs'" "length cs' = length cs"
      "\<forall>x\<in>set hs. cs' ! idx (bf_bit_count f) x \<noteq> 0" "\<forall>j<length cs. cs ! j \<noteq> 0 \<longrightarrow> cs' ! j \<noteq> 0" by blast
    have lt: "idx (bf_bit_count f) x < length cs" for x using idx_lt[OF c(1), of x] c(2) by simp
    have "covers (\<lambda>c. counted c (bf_bit_count f)) hs cs cs'"
      using cs'(2-4) c lt by (simp add: covers_def counted_spec)
    with Counting cs' ok' c show ?thesis
      by (intro exI[of _ "Bloom.Counting cs' mx"]) (simp add: add_hashes_def filter_ok_def data_ok_def covers_def test_hashes_def)
  next
    case (Scalable layers)
    with ok'(4) have l: "layers \<noteq> []" "list_all layer_ok layers" "last_layer_ok (Suc n) (unat (bf_current_entries f)) (last layers)"
      by (simp_all add: data_ok_def)
    from grow_ok[OF l, of "bf_hash_count f"] obtain new where g: "grow_layers [] (bf_hash_count f) layers = (KV_ERR_NONE, layers @ new, [])"
      "list_all layer_ok new" "last_layer_ok (Suc n) (unat (bf_current_entries f)) (last (layers @ new))" by blast
    from layers_ok[of "layers @ new" n "unat (bf_current_entries f)" hs] l g obtain ls where ls: "add_layer (layers @ new) hs = Inr (Bloom.Scalable ls)"
      "ls \<noteq> []" "list_all layer_ok ls" "last_layer_ok n (Suc (unat (bf_current_entries f))) (last ls)" "covers test_layers hs (layers @ new) ls" by auto
    have "unat (bf_current_entries f) < 2 ^ 57" using l(3) by (simp add: last_layer_ok_def)
    then have "unat (bf_current_entries f + 1) = Suc (unat (bf_current_entries f))" by (simp add: unat_word_ariths)
    with Scalable ls g ok' test_layers_grow[OF l(2) g(2)] show ?thesis
      by (intro exI[of _ "Bloom.Scalable ls"]) (simp add: add_hashes_def filter_ok_def data_ok_def covers_def test_hashes_def)
  qed
qed

lemma passes_conv: "filter_ok n f \<Longrightarrow> key \<noteq> [] \<Longrightarrow> passes f key = test_hashes f (hashes_of f key)"
  using compute_hashes_ok[of n f key] by (cases "test_hashes f (hashes_of f key)") (simp_all add: passes_def bloom_filter_may_contain_optimized_def)

interpretation flt: membership filter_ok "\<lambda>key. key \<noteq> []" add_key passes
proof
  fix n f and key :: string
  assume ok: "filter_ok (Suc n) f" and key: "key \<noteq> []"
  from compute_hashes_ok[OF ok, of key] have ch: "compute_hashes f key = Inr (hashes_of f key)" "hashes_of f key \<noteq> []" by auto
  from add_hashes_ok[OF ok ch(2)] obtain d where d: "add_hashes [] f (hashes_of f key) = Inr (KV_ERR_NONE, d, [])" "filter_ok n (with_data f d)"
    "covers test_hashes (hashes_of f key) f (with_data f d)" by blast
  have "add_key f key = Inr (with_data f d)"
    using key ch d(1) by (simp add: add_key_def bloom_filter_add_optimized_def with_data_def)
  moreover have "passes (with_data f d) k = Inr True" if "passes f k = Inr True" for k
  proof -
    have "k \<noteq> []" using that by (auto simp: passes_def bloom_filter_may_contain_optimized_def)
    then show ?thesis using that d(2,3) ok by (simp add: passes_conv covers_def)
  qed
  ultimately show "\<exists>f'. add_key f key = Inr f' \<and> filter_ok n f' \<and> passes f' key = Inr True \<and>
      (\<forall>k. passes f k = Inr True \<longrightarrow> passes f' k = Inr True)"
    using d(2,3) key by (intro exI[of _ "with_data f d"]) (simp add: passes_conv covers_def)
qed

end
