(* ===== verification/Bloom_Create.thy ===== *)
theory Bloom_Create
  imports Bloom_Props
begin

text \<open>
  Creation of a Bloom filter: the bounds of its parameters, that a created filter is well formed, and the properties of
  membership, batches and removal.
\<close>

section \<open>Parameters\<close>

lemma ln_10_bound: "ln 10 \<le> (7 / 3 :: real)"
proof -
  have "(10 :: real) \<le> (1 + 7 / 24 + (7 / 24)\<^sup>2 / 2) ^ 8" by (simp add: power2_eq_square eval_nat_numeral)
  also have "\<dots> \<le> exp (7 / 24) ^ 8"
    using exp_lower_Taylor_quadratic[of "7 / 24 :: real"] by (intro power_mono) (simp_all add: power2_eq_square)
  also have "\<dots> = exp (7 / 3)" by (simp add: exp_of_nat_mult[symmetric])
  finally have "ln 10 \<le> ln (exp (7 / 3 :: real))" by (subst ln_le_cancel_iff) simp_all
  then show ?thesis by simp
qed

lemma log_bound:
  assumes "(1 :: nat) \<le> q"
  shows "- ln (real q / 10000) \<le> 28 / 3"
proof -
  have "- ln (real q / 10000) = ln 10000 - ln (real q)" using assms by (simp add: ln_div)
  also have "\<dots> \<le> ln 10000" using assms by simp
  also have "\<dots> = 4 * ln (10 :: real)" using ln_realpow[of 10 4] by simp
  finally show ?thesis using ln_10_bound by simp
qed



text \<open>The two real numbers of the calculation.\<close>

lemma optimal_k_bound:
  assumes "1 \<le> N" "1 \<le> q"
  shows "- real N * ln (real q / 10000) / LN2_SQUARED / real N * LN2 < 27 / 2"
proof -
  have "- real N * ln (real q / 10000) / LN2_SQUARED / real N * LN2 = - ln (real q / 10000) * (LN2 / LN2_SQUARED)" using assms(1) by simp
  also have "\<dots> \<le> 28 / 3 * (LN2 / LN2_SQUARED)"
    using log_bound[OF assms(2)] by (intro mult_right_mono) (simp_all add: LN2_def LN2_SQUARED_def)
  also have "\<dots> < 27 / 2" by (simp add: LN2_def LN2_SQUARED_def)
  finally show ?thesis .
qed

lemma optimal_m_bound:
  assumes "1 \<le> N" "1 \<le> q" "q < 10000"
  shows "1 \<le> nat \<lceil>- real N * ln (real q / 10000) / LN2_SQUARED\<rceil>" "nat \<lceil>- real N * ln (real q / 10000) / LN2_SQUARED\<rceil> \<le> 32 * N"
proof -
  define l where "l = - ln (real q / 10000)"
  have l: "0 < l" "l \<le> 28 / 3" using assms(2,3) log_bound[OF assms(2)] by (simp_all add: l_def ln_less_zero)
  have n: "1 \<le> real N" using assms(1) by simp
  define m where "m = real N * l / LN2_SQUARED"
  have pos: "0 < m" using n l(1) by (simp add: m_def LN2_SQUARED_def)
  have "m \<le> real N * (28 / 3) / LN2_SQUARED" using l n by (simp add: m_def LN2_SQUARED_def)
  also have "\<dots> \<le> 31 * real N" using n by (simp add: LN2_SQUARED_def)
  finally have m: "m + 1 \<le> 32 * real N" using n by simp
  have eq: "- real N * ln (real q / 10000) / LN2_SQUARED = m" by (simp add: m_def l_def)
  show "1 \<le> nat \<lceil>- real N * ln (real q / 10000) / LN2_SQUARED\<rceil>" "nat \<lceil>- real N * ln (real q / 10000) / LN2_SQUARED\<rceil> \<le> 32 * N"
    unfolding eq using pos m by linarith+
qed

lemma word_pos: "(w :: 'a::len word) \<noteq> 0 \<Longrightarrow> 1 \<le> unat w"
  by (simp add: unat_gt_0 Suc_le_eq)

lemma calculate_hashes:
  assumes "bloom_filter_calculate_parameters n fpr = (KV_ERR_NONE, bits, hashes)"
  shows "1 \<le> hashes" "hashes \<le> 13"
proof -
  define k where "k = - real (unat n) * ln (real (unat fpr) / 10000) / LN2_SQUARED / real (unat n) * LN2"
  have ne: "n \<noteq> 0" "fpr \<noteq> 0" and h: "hashes = (if nat (round k) = 0 then 1 else nat (round k))"
    using assms by (auto simp only: bloom_filter_calculate_parameters_def k_def Let_def prod.inject split: if_splits)
  have "k < 27 / 2" unfolding k_def by (rule optimal_k_bound[OF word_pos[OF ne(1)] word_pos[OF ne(2)]])
  then have "round k \<le> 13" by (simp add: round_def floor_le_iff)
  then show "1 \<le> hashes" "hashes \<le> 13" using h by auto
qed

text \<open>The usual range: a rate below one.\<close>

lemma calculate_bits:
  assumes "n \<noteq> 0" "fpr \<noteq> 0" "fpr < 10000"
  shows "\<exists>bits hashes. bloom_filter_calculate_parameters n fpr = (KV_ERR_NONE, bits, hashes) \<and> 1 \<le> bits \<and> bits \<le> 32 * unat n"
proof -
  have q: "unat fpr < 10000" using assms(3) by (simp add: word_less_nat_alt)
  note m = optimal_m_bound[OF word_pos[OF assms(1)] word_pos[OF assms(2)] q]
  show ?thesis using assms(1,2) m by (auto simp only: bloom_filter_calculate_parameters_def Let_def if_False prod.inject simp_thms)
qed

section \<open>Creation\<close>

lemma unat_2p: "i < 32 \<Longrightarrow> unat (2 ^ i :: 32 word) = 2 ^ i"
proof -
  assume "i < 32"
  then have "(2 :: nat) ^ i < 2 ^ 32" by (rule power_strict_increasing) simp
  moreover have "unat (of_nat (2 ^ i) :: 32 word) = 2 ^ i mod 2 ^ 32" by (simp only: unat_of_nat) simp
  ultimately have "unat (of_nat (2 ^ i) :: 32 word) = 2 ^ i" by (simp only: mod_less)
  then show ?thesis by (simp only: of_nat_power of_nat_numeral)
qed

lemma double_until_ok:
  assumes "unat n \<le> 2 ^ 31" "i \<le> 31" "31 - i < fuel"
  shows "\<exists>p. double_until fuel (2 ^ i) n = Inr p \<and> n \<le> p \<and> p \<noteq> 0"
  using assms(2,3)
proof (induction fuel arbitrary: i)
  case (Suc fuel)
  have u: "unat (2 ^ i :: 32 word) = 2 ^ i" using Suc.prems(1) by (intro unat_2p) simp
  show ?case
  proof (cases "(2 ^ i :: 32 word) < n")
    case True
    then have "2 ^ i < (2 ^ 31 :: nat)" using assms(1) u by (simp add: word_less_nat_alt)
    then have "i < 31" by (simp only: power_strict_increasing_iff[of "2 :: nat"] one_less_numeral_iff semiring_norm)
    with Suc.IH[of "Suc i"] Suc.prems True show ?thesis by (simp add: push_bit_eq_mult mult.commute)
  next
    case False
    have "(2 ^ i :: 32 word) \<noteq> 0" using u by (metis power_eq_0_iff unat_0 zero_neq_numeral)
    with False show ?thesis by simp
  qed
qed simp

lemma power_of_2_ok: "unat n \<le> 2 ^ 31 \<Longrightarrow> \<exists>p. power_of_2_for n = Inr p \<and> n \<le> p \<and> p \<noteq> 0"
  using double_until_ok[of n 0 33] by simp

lemma pred_lt: "(w :: 'a::len word) \<noteq> 0 \<Longrightarrow> unat (w - 1) < unat w"
  by (simp add: unat_minus_one unat_gt_0)

text \<open>The configurations for which creation succeeds.\<close>

definition config_ok :: "bloom_filter_config \<Rightarrow> bool" where
  "config_ok cf \<longleftrightarrow> bc_expected_entries cf \<noteq> 0 \<and> bc_expected_entries cf \<le> 100000000 \<and> bc_false_positive_rate cf \<noteq> 0 \<and>
     bc_false_positive_rate cf < 10000 \<and> bc_block_size cf mod 8 = 0"

lemma data_bits:
  assumes "config_ok cf" "1 \<le> bits" "bits \<le> 32 * unat (bc_expected_entries cf)"
  shows "unat (of_nat bits :: 64 word) = bits" "bits \<le> 3200000000" "(of_nat bits :: 64 word) \<noteq> 0"
proof -
  have "unat (bc_expected_entries cf) \<le> unat (100000000 :: 64 word)" using assms(1) by (simp only: config_ok_def word_le_nat_alt)
  then show b: "bits \<le> 3200000000" using assms(3) by simp
  then show u: "unat (of_nat bits :: 64 word) = bits" by (simp add: unsigned_of_nat take_bit_nat_eq_self)
  then show "(of_nat bits :: 64 word) \<noteq> 0" using assms(2) by (metis unat_0 not_one_le_zero)
qed

lemma bytes_dvd: "bs mod 8 = (0 :: 32 word) \<Longrightarrow> 8 dvd unat bs"
proof -
  assume "bs mod 8 = 0"
  moreover have "unat (bs mod 8) = unat bs mod 8" by (simp add: unat_mod)
  ultimately show ?thesis by (simp add: dvd_eq_mod_eq_0)
qed

lemma blocks_wanted:
  assumes "bits \<le> 3200000000" "bs \<noteq> 0" "bs mod 8 = (0 :: 32 word)"
  shows "unat (ucast ((of_nat bits + ucast bs - 1) div ucast bs :: 64 word) :: 32 word) \<le> 2 ^ 31"
proof -
  have bs: "8 \<le> unat bs"
  proof -
    show ?thesis using bytes_dvd[OF assms(3)] assms(2) by (intro dvd_imp_le) (simp_all add: unat_gt_0)
  qed
  have b32: "unat bs < 4294967296" using unsigned_less[of bs, where ?'a = nat] by simp
  have ub: "unat (ucast bs :: 64 word) = unat bs" using b32 by (simp add: unsigned_ucast_eq take_bit_nat_eq_self)
  define x where "x = bits + unat bs - 1"
  have x: "of_nat bits + ucast bs - 1 = (of_nat x :: 64 word)"
  proof -
    have "(ucast bs :: 64 word) = of_nat (unat bs)" by (rule unsigned_word_eqI[where ?'a = nat]) (use ub b32 in \<open>simp add: unsigned_of_nat take_bit_nat_eq_self\<close>)
    then show ?thesis using bs by (simp add: x_def of_nat_diff)
  qed
  have xs: "x < 2 ^ 64" "unat (of_nat x :: 64 word) = x"
    using assms(1) b32 by (simp_all add: x_def unsigned_of_nat take_bit_nat_eq_self)
  have d: "unat ((of_nat bits + ucast bs - 1) div ucast bs :: 64 word) = x div unat bs" by (simp add: x unat_div ub xs(2))
  have "x div unat bs \<le> (bits + unat bs) div unat bs" by (rule div_le_mono) (simp add: x_def)
  also have "\<dots> = bits div unat bs + 1" using bs by simp
  also have "\<dots> \<le> bits div 8 + 1" using bs by (simp add: div_le_mono2)
  also have "\<dots> \<le> 2 ^ 31" using assms(1) by simp
  finally have "x div unat bs \<le> 2 ^ 31" .
  then show ?thesis by (simp add: unsigned_ucast_eq d take_bit_nat_eq_self)
qed

lemma create_data_ok:
  assumes cf: "config_ok cf" and bits: "1 \<le> bits" "bits \<le> 32 * unat (bc_expected_entries cf)" and n: "n < 2 ^ 57"
    and f: "bf_bit_count f = of_nat bits" "bf_current_entries f = 0"
  shows "\<exists>d. create_data [] cf (of_nat bits) hashes = Inr (Some d, []) \<and> data_ok n (f\<lparr>bf_data := d\<rparr>)"
proof -
  note b = data_bits[OF cf bits]
  have fit: "fits (replicate (unat (byte_count (of_nat bits))) 0) (of_nat bits)" using b by (intro byte_count_fits) simp_all
  show ?thesis
  proof (cases "bc_type cf")
    case BLOOM_TYPE_STANDARD
    with fit f show ?thesis by (simp add: create_data_def data_ok_def)
  next
    case BLOOM_TYPE_AUTO
    with fit f show ?thesis by (simp add: create_data_def data_ok_def)
  next
    case BLOOM_TYPE_BLOCKED
    define bs where "bs = (if bc_block_size cf > 0 then bc_block_size cf else 512)"
    have bs: "bs \<noteq> 0" "bs mod 8 = 0" using cf by (auto simp: bs_def config_ok_def)
    from power_of_2_ok[OF blocks_wanted[OF b(2) bs]] obtain p where
      p: "power_of_2_for (ucast ((of_nat bits + ucast bs - 1 :: 64 word) div ucast bs)) = Inr p" "p \<noteq> 0" by blast
    have "unat bs \<le> 8 * unat (bs div 8)" using bytes_dvd[OF bs(2)] by (simp add: unat_div)
    moreover have u: "unat (ucast bs :: 64 word) = unat bs"
      using unsigned_less[of bs, where ?'a = nat] by (simp add: unsigned_ucast_eq take_bit_nat_eq_self)
    moreover have "(ucast bs :: 64 word) \<noteq> 0" using u bs(1) by (metis unat_eq_zero unat_0)
    ultimately have "fits (replicate (unat (bs div 8)) 0) (ucast bs)" by (simp add: fits_def)
    with BLOOM_TYPE_BLOCKED p pred_lt[OF p(2)] show ?thesis
      by (simp add: create_data_def data_ok_def Let_def list_all_iff bs_def[symmetric])
  next
    case BLOOM_TYPE_REGISTER_BLOCKED
    have "unat (ucast ((of_nat bits + 63) div 64 :: 64 word) :: 32 word) \<le> 2 ^ 31"
    proof -
      have "unat (of_nat bits + 63 :: 64 word) = bits + 63" using b by (simp add: unat_word_ariths)
      then have "unat ((of_nat bits + 63) div 64 :: 64 word) = (bits + 63) div 64" by (simp add: unat_div)
      then show ?thesis using b(2) by (simp add: unsigned_ucast_eq take_bit_nat_eq_self)
    qed
    from power_of_2_ok[OF this] obtain p where "power_of_2_for (ucast ((of_nat bits + 63 :: 64 word) div 64)) = Inr p" "p \<noteq> 0" by blast
    with BLOOM_TYPE_REGISTER_BLOCKED pred_lt[of p] show ?thesis by (simp add: create_data_def data_ok_def)
  next
    case BLOOM_TYPE_COUNTING
    with b f show ?thesis by (simp add: create_data_def data_ok_def)
  next
    case BLOOM_TYPE_SCALABLE
    with fit f b bits(2) n show ?thesis by (simp add: create_data_def data_ok_def layer_ok_def last_layer_ok_def)
  qed
qed

lemma filter_create_ok:
  assumes cf: "config_ok cf" and n: "n < 2 ^ 57"
  shows "\<exists>f. bloom_filter_create_optimized [] rnd now (Some cf) = Inr (Some f, []) \<and> filter_ok n f \<and> bf_config f = cf"
proof -
  from calculate_bits[of "bc_expected_entries cf" "bc_false_positive_rate cf"] cf obtain bits hashes where
    c: "bloom_filter_calculate_parameters (bc_expected_entries cf) (bc_false_positive_rate cf) = (KV_ERR_NONE, bits, hashes)"
    "1 \<le> bits" "bits \<le> 32 * unat (bc_expected_entries cf)" by (auto simp: config_ok_def)
  note h = calculate_hashes[OF c(1)]
  define f where "f d = \<lparr>bf_config = cf, bf_stats = zero_bloom_stats, bf_bit_count = of_nat bits, bf_hash_count = hashes,
      bf_max_entries = bc_expected_entries cf, bf_current_entries = 0, bf_data = d, bf_hash_seeds = map rnd [0..<hashes],
      bf_salt = push_bit 32 (ucast (rnd hashes)) OR ucast (rnd (hashes + 1)), bf_creation_time = now\<rparr>" for d
  from create_data_ok[OF cf c(2,3) n, of "f (Standard [])" hashes] obtain d where
    d: "create_data [] cf (of_nat bits) hashes = Inr (Some d, [])" "data_ok n (f d)" by (auto simp: f_def)
  have "bloom_filter_create_optimized [] rnd now (Some cf) = Inr (Some (f d), [])"
    using c(1) d(1) by (simp add: bloom_filter_create_optimized_def f_def)
  moreover have "filter_ok n (f d)" using d(2) h by (simp add: filter_ok_def f_def)
  ultimately show ?thesis by (auto simp: f_def)
qed

section \<open>Properties\<close>

text \<open>
  C31: No false negatives. A filter of any of the six types, created with a valid configuration, whatever seeds \<open>rand\<close> gave: after up to
  2 to the 57 additions every key that was added passes the test, also the keys added before a growing filter got new layers; nothing is accessed
  out of bounds.
\<close>

theorem bloom_no_false_negatives:
  assumes "config_ok cf" "list_all (\<lambda>k. k \<noteq> []) keys" "length keys < 2 ^ 57"
  shows "\<exists>f f'. bloom_filter_create_optimized [] rnd now (Some cf) = Inr (Some f, []) \<and> add_all add_key keys f = Inr f' \<and>
    (\<forall>k\<in>set keys. passes f' k = Inr True)"
  using filter_create_ok[OF assms(1,3), of rnd now] flt.add_all_ok[of keys 0] assms(2) by fastforce

lemma default_config_ok: "config_ok (bloom_filter_create_default_config n fpr)"
  by (auto simp: config_ok_def bloom_filter_create_default_config_def Let_def not_less word_less_nat_alt word_le_nat_alt unat_eq_zero)

theorem bloom_no_false_negatives_witness:
  "\<exists>f f'. bloom_filter_create_optimized [] (\<lambda>i. 7) 0 (Some (bloom_filter_create_default_config 1000 100)) = Inr (Some f, []) \<and>
    add_all add_key [''a'', ''b''] f = Inr f' \<and> passes f' ''a'' = Inr True \<and> passes f' ''b'' = Inr True"
  using bloom_no_false_negatives[OF default_config_ok, of "[''a'', ''b'']" "\<lambda>i. 7" 0 1000 100] by auto



section \<open>Batches\<close>

definition batchable :: "filter_data \<Rightarrow> bool" where
  "batchable d = (case d of Standard bits \<Rightarrow> True | Blocked bs msk \<Rightarrow> True | Registers rs msk \<Rightarrow> True | _ \<Rightarrow> False)"

lemma batch_add_eq:
  "batchable (bf_data f) \<Longrightarrow> add_hashes [] f hs = Inr (r, d, h) \<Longrightarrow> batch_add_hashes f hs = Inr (Some d) \<and> r = KV_ERR_NONE \<and> batchable d"
  by (auto simp: batchable_def batch_add_hashes_def add_hashes_def add_standard_def add_blocked_def add_register_def Let_def obind_Inr_iff
      split: filter_data.splits list.splits if_splits)

text \<open>The statistics do not matter to hashes, additions and well-formedness.\<close>

lemma bloom_stats_irrelevant [simp]:
  "hashes_of (f\<lparr>bf_stats := s\<rparr>) = hashes_of f" "batch_add_hashes (f\<lparr>bf_stats := s\<rparr>) = batch_add_hashes f"
  "filter_ok n (f\<lparr>bf_stats := s\<rparr>) = filter_ok n f"
proof -
  show "hashes_of (f\<lparr>bf_stats := s\<rparr>) = hashes_of f" by (rule ext) (simp add: hashes_of_def)
  show "batch_add_hashes (f\<lparr>bf_stats := s\<rparr>) = batch_add_hashes f"
    by (rule ext, cases "bf_data f") (simp_all add: batch_add_hashes_def)
  show "filter_ok n (f\<lparr>bf_stats := s\<rparr>) = filter_ok n f"
    by (cases "bf_data f") (simp_all add: filter_ok_def data_ok_def)
qed

lemma add_key_steps:
  assumes ok: "filter_ok (Suc n) f" and key: "key \<noteq> []"
  shows "\<exists>d. add_hashes [] f (hashes_of f key) = Inr (KV_ERR_NONE, d, []) \<and> add_key f key = Inr (with_data f d) \<and> filter_ok n (with_data f d)"
proof -
  from compute_hashes_ok[OF ok, of key] have ch: "compute_hashes f key = Inr (hashes_of f key)" "hashes_of f key \<noteq> []" by auto
  from add_hashes_ok[OF ok ch(2)] obtain d where d: "add_hashes [] f (hashes_of f key) = Inr (KV_ERR_NONE, d, [])" "filter_ok n (with_data f d)"
    by blast
  have "add_key f key = Inr (with_data f d)"
    using key ch d(1) by (simp add: add_key_def bloom_filter_add_optimized_def with_data_def)
  with d show ?thesis by blast
qed

text \<open>What a batch adds to the statistics at its end.\<close>

definition more_insertions :: "optimized_bloom_filter \<Rightarrow> 64 word \<Rightarrow> bloom_filter_stats" where
  "more_insertions f n = (if bc_enable_statistics (bf_config f)
     then (bf_stats f)\<lparr>bs_total_insertions := bs_total_insertions (bf_stats f) + n\<rparr> else bf_stats f)"

lemma batch_loop_adds:
  assumes "filter_ok (length keys) f" "batchable (bf_data f)" "list_all (\<lambda>k. k \<noteq> []) keys"
  shows "\<exists>f'. add_all add_key keys f = Inr f' \<and> bf_config f' = bf_config f \<and> bf_stats f' = more_insertions f (of_nat (length keys)) \<and>
    (\<forall>s c. add_batch_loop (f\<lparr>bf_stats := s\<rparr>) c (map Some keys) = Inr (f'\<lparr>bf_stats := s\<rparr>, c + of_nat (length keys)))"
  using assms
proof (induction keys arbitrary: f)
  case Nil
  then show ?case by (simp add: more_insertions_def)
next
  case (Cons k ks)
  have ok: "filter_ok (Suc (length ks)) f" and k: "k \<noteq> []" using Cons.prems by simp_all
  from add_key_steps[OF ok k] obtain d where d: "add_hashes [] f (hashes_of f k) = Inr (KV_ERR_NONE, d, [])"
    "add_key f k = Inr (with_data f d)" "filter_ok (length ks) (with_data f d)" by blast
  note b = batch_add_eq[OF Cons.prems(2) d(1)]
  from Cons.IH[OF d(3)] b Cons.prems(3) obtain f' where f': "add_all add_key ks (with_data f d) = Inr f'" "bf_config f' = bf_config f"
    "bf_stats f' = more_insertions (with_data f d) (of_nat (length ks))"
    "\<forall>s c. add_batch_loop ((with_data f d)\<lparr>bf_stats := s\<rparr>) c (map Some ks) = Inr (f'\<lparr>bf_stats := s\<rparr>, c + of_nat (length ks))" by auto
  have "add_batch_loop (f\<lparr>bf_stats := s\<rparr>) c (map Some (k # ks)) = Inr (f'\<lparr>bf_stats := s\<rparr>, c + of_nat (length (k # ks)))" for s c
  proof -
    have "filter_ok (Suc (length ks)) (f\<lparr>bf_stats := s\<rparr>)" using ok by simp
    from compute_hashes_ok[OF this, of k] have "compute_hashes (f\<lparr>bf_stats := s\<rparr>) k = Inr (hashes_of f k)" by simp
    moreover have "(f\<lparr>bf_stats := s\<rparr>)\<lparr>bf_data := d, bf_current_entries := bf_current_entries f + 1\<rparr> = (with_data f d)\<lparr>bf_stats := s\<rparr>"
      by (simp add: with_data_def)
    ultimately show ?thesis using k b f'(4) by (simp add: ac_simps)
  qed
  moreover have "bf_stats f' = more_insertions f (of_nat (length (k # ks)))"
    using f'(3) by (simp add: more_insertions_def with_data_def update_stats_insertion_def ac_simps)
  ultimately show ?case using d(2) f'(1,2) by auto
qed

text \<open>
  Equivalence. A batch of keys into a filter with a bit array, blocks or registers gives exactly the filter, statistics included,
  that adding the keys one after the other gives, and returns the number of keys.
\<close>

theorem bloom_batch_eq_singles:
  assumes "filter_ok (length keys) f" "batchable (bf_data f)" "list_all (\<lambda>k. k \<noteq> []) keys"
  shows "\<exists>f'. add_all add_key keys f = Inr f' \<and> bloom_filter_add_batch_optimized f (map Some keys) = Inr (of_nat (length keys), f')"
proof -
  from batch_loop_adds[OF assms] obtain f' where f': "add_all add_key keys f = Inr f'" "bf_config f' = bf_config f"
    "bf_stats f' = more_insertions f (of_nat (length keys))"
    "add_batch_loop (f\<lparr>bf_stats := bf_stats f\<rparr>) 0 (map Some keys) = Inr (f'\<lparr>bf_stats := bf_stats f\<rparr>, 0 + of_nat (length keys))" by blast
  then have same: "f'\<lparr>bf_stats := more_insertions f (of_nat (length keys))\<rparr> = f'" by simp
  have "f'\<lparr>bf_stats := bf_stats f\<rparr> = f'" if "of_nat (length keys) = (0 :: 64 word)"
    using same that by (simp add: more_insertions_def split: if_splits)
  with f' same have "bloom_filter_add_batch_optimized f (map Some keys) = Inr (of_nat (length keys), f')" if "keys \<noteq> []"
    using that by (auto simp: bloom_filter_add_batch_optimized_def more_insertions_def word_greater_zero_iff)
  then show ?thesis using f'(1) by (cases "keys = []") (auto simp: bloom_filter_add_batch_optimized_def)
qed

definition small_filter :: "filter_data \<Rightarrow> optimized_bloom_filter" where
  "small_filter d = \<lparr>bf_config = bloom_filter_create_default_config 100 100, bf_stats = zero_bloom_stats, bf_bit_count = 16, bf_hash_count = 2,
     bf_max_entries = 4, bf_current_entries = 0, bf_data = d, bf_hash_seeds = [7, 9], bf_salt = 0, bf_creation_time = 0\<rparr>"

theorem bloom_batch_eq_singles_witness:
  "\<exists>f'. add_all add_key [''a'', ''b''] (small_filter (Registers [0, 0] 1)) = Inr f' \<and>
    bloom_filter_add_batch_optimized (small_filter (Registers [0, 0] 1)) [Some ''a'', Some ''b''] = Inr (2, f')"
  using bloom_batch_eq_singles[of "[''a'', ''b'']" "small_filter (Registers [0, 0] 1)"]
  by (simp add: small_filter_def filter_ok_def data_ok_def batchable_def)

section \<open>Removal\<close>

text \<open>Without saturation counting up and down is exact: the counter of an index changes by the number of hashes that have it.\<close>

lemma count_up_exact:
  assumes "n \<noteq> 0" "unat n \<le> length cs" "\<forall>j<length cs. unat (cs ! j) + length xs \<le> unat mx"
  shows "\<exists>cs'. count_up cs mx n xs = Inr cs' \<and> length cs' = length cs \<and>
    (\<forall>j<length cs. unat (cs' ! j) = unat (cs ! j) + count_list (map (idx n) xs) j)"
  using assms(2,3)
proof (induction xs arbitrary: cs)
  case (Cons x xs)
  have lt: "idx n x < length cs" using idx_lt[OF assms(1), of x] Cons.prems(1) by simp
  then have less: "unat (cs ! idx n x) < unat mx" using Cons.prems(2) by fastforce
  then have c: "cs ! idx n x < mx" by (simp add: word_less_nat_alt)
  have "unat mx < 2 ^ 32" using unsigned_less[of mx, where ?'a = nat] by simp
  then have up: "unat (cs ! idx n x + 1) = Suc (unat (cs ! idx n x))" using less by (simp add: unat_word_ariths)
  let ?c = "cs[idx n x := cs ! idx n x + 1]"
  have "unat (?c ! j) + length xs \<le> unat mx" if "j < length ?c" for j
    using Cons.prems(2)[rule_format, of j] that up by (cases "j = idx n x") simp_all
  then have "\<forall>j<length ?c. unat (?c ! j) + length xs \<le> unat mx" by blast
  with Cons.IH[of ?c] Cons.prems(1) obtain cs' where cs': "count_up ?c mx n xs = Inr cs'" "length cs' = length cs"
    "\<forall>j<length cs. unat (cs' ! j) = unat (?c ! j) + count_list (map (idx n) xs) j" by auto
  have "count_up cs mx n (x # xs) = Inr cs'" using cs'(1) lt c by (simp add: modulo_idx[OF assms(1)])
  then show ?case using cs' up by (auto simp: nth_list_update)
qed simp

lemma count_down_exact:
  assumes "n \<noteq> 0" "unat n \<le> length cs" "\<forall>j<length cs. count_list (map (idx n) xs) j \<le> unat (cs ! j)"
  shows "\<exists>cs'. count_down cs n xs = Inr cs' \<and> length cs' = length cs \<and>
    (\<forall>j<length cs. unat (cs' ! j) = unat (cs ! j) - count_list (map (idx n) xs) j)"
  using assms(2,3)
proof (induction xs arbitrary: cs)
  case (Cons x xs)
  have lt: "idx n x < length cs" using idx_lt[OF assms(1), of x] Cons.prems(1) by simp
  then have pos: "0 < unat (cs ! idx n x)" using Cons.prems(2) by fastforce
  then have c: "cs ! idx n x > 0" by (simp add: word_less_nat_alt)
  have down: "unat (cs ! idx n x - 1) = unat (cs ! idx n x) - 1" using pos by (intro unat_minus_one) auto
  let ?c = "cs[idx n x := cs ! idx n x - 1]"
  have "count_list (map (idx n) xs) j \<le> unat (?c ! j)" if "j < length ?c" for j
    using Cons.prems(2)[rule_format, of j] that down by (cases "j = idx n x") simp_all
  then have "\<forall>j<length ?c. count_list (map (idx n) xs) j \<le> unat (?c ! j)" by blast
  with Cons.IH[of ?c] Cons.prems(1) obtain cs' where cs': "count_down ?c n xs = Inr cs'" "length cs' = length cs"
    "\<forall>j<length cs. unat (cs' ! j) = unat (?c ! j) - count_list (map (idx n) xs) j" by auto
  have "count_down cs n (x # xs) = Inr cs'" using cs'(1) lt c by (simp add: modulo_idx[OF assms(1)])
  then show ?case using cs' down by (auto simp: nth_list_update)
qed simp

lemma count_up_down:
  assumes "n \<noteq> 0" "unat n \<le> length cs" "\<forall>j<length cs. unat (cs ! j) + length xs \<le> unat mx"
  shows "\<exists>cs'. count_up cs mx n xs = Inr cs' \<and> counted cs' n xs = Inr True \<and> count_down cs' n xs = Inr cs"
proof -
  from count_up_exact[OF assms] obtain c1 where c1: "count_up cs mx n xs = Inr c1" "length c1 = length cs"
    "\<forall>j<length cs. unat (c1 ! j) = unat (cs ! j) + count_list (map (idx n) xs) j" by blast
  then obtain c2 where c2: "count_down c1 n xs = Inr c2" "length c2 = length cs"
    "\<forall>j<length cs. unat (c2 ! j) = unat (c1 ! j) - count_list (map (idx n) xs) j"
    using count_down_exact[of n c1 xs] assms(1,2) by auto
  have "c2 = cs" using c1(3) c2(2,3) by (intro nth_equalityI) (auto intro: unsigned_word_eqI[where ?'a = nat])
  moreover have "c1 ! idx n x \<noteq> 0" if "x \<in> set xs" for x
  proof -
    have "count_list (map (idx n) xs) (idx n x) \<noteq> 0" using that by (auto simp: count_list_0_iff)
    moreover have "idx n x < length cs" using idx_lt[OF assms(1), of x] assms(2) by simp
    ultimately show ?thesis using c1(3) by (metis add_is_0 unat_0)
  qed
  ultimately show ?thesis using c1(1,2) c2(1) assms(1,2) by (auto simp: counted_spec)
qed

text \<open>
  Round trip. Removing a key that has just been added to a counting filter succeeds and restores every counter and the number of entries,
  also when several hashes of the key meet in one counter, as long as no counter can saturate.
\<close>

theorem bloom_add_remove:
  assumes "filter_ok (Suc n) f" "bf_data f = Counting cs mx" "\<forall>c\<in>set cs. unat c + bf_hash_count f \<le> unat mx" "key \<noteq> []"
  shows "\<exists>f'. add_key f key = Inr f' \<and> passes f' key = Inr True \<and>
    bloom_filter_remove_optimized f' (Some key) = Inr (KV_ERR_NONE, f\<lparr>bf_stats := bf_stats f'\<rparr>)"
proof -
  have c: "bf_bit_count f \<noteq> 0" "unat (bf_bit_count f) \<le> length cs" using assms(1,2) by (simp_all add: filter_ok_def data_ok_def)
  have "length (hashes_of f key) = bf_hash_count f" by (simp add: hashes_of_def split: prod.split)
  then have "\<forall>j<length cs. unat (cs ! j) + length (hashes_of f key) \<le> unat mx" using assms(3) by simp
  from count_up_down[OF c this] obtain c1 where c1: "count_up cs mx (bf_bit_count f) (hashes_of f key) = Inr c1"
    "counted c1 (bf_bit_count f) (hashes_of f key) = Inr True" "count_down c1 (bf_bit_count f) (hashes_of f key) = Inr cs" by blast
  from add_key_steps[OF assms(1,4)] obtain d where d: "add_hashes [] f (hashes_of f key) = Inr (KV_ERR_NONE, d, [])"
    "add_key f key = Inr (with_data f d)" "filter_ok n (with_data f d)" by blast
  then have dd: "d = Counting c1 mx" using c1(1) assms(2) by (simp add: add_hashes_def)
  have "compute_hashes (with_data f d) key = Inr (hashes_of f key)" using compute_hashes_ok[OF d(3), of key] by simp
  moreover have "passes (with_data f d) key = Inr True" using passes_conv[OF d(3) assms(4)] c1(2) by (simp add: test_hashes_def dd)
  moreover have "f\<lparr>bf_data := Counting cs mx\<rparr> = f" using assms(2) by simp
  ultimately show ?thesis using d(2) c1(2,3) assms(2,4)
    by (intro exI[of _ "with_data f d"]) (simp add: bloom_filter_remove_optimized_def dd, simp add: with_data_def)
qed

theorem bloom_add_remove_witness:
  "\<exists>f'. add_key (small_filter (Counting (replicate 16 3) 255)) ''a'' = Inr f' \<and>
    bloom_filter_remove_optimized f' (Some ''a'') = Inr (KV_ERR_NONE, (small_filter (Counting (replicate 16 3) 255))\<lparr>bf_stats := bf_stats f'\<rparr>)"
  using bloom_add_remove[of 0 "small_filter (Counting (replicate 16 3) 255)" "replicate 16 3" 255 "''a''"]
  by (fastforce simp: small_filter_def filter_ok_def data_ok_def)

end
