(* ===== verification/Bloom_Serial.thy ===== *)
theory Bloom_Serial
  imports Bloom_Create
begin

text \<open>
  Serialisation of the Bloom filters of \<open>src/kvserver/lsm_bloom_filter_optimized.c\<close>: bytes and words, the shape of the data, which additions
  keep, and the round trip through \<open>bloom_filter_serialize_optimized\<close> and \<open>bloom_filter_deserialize_optimized\<close>.
\<close>

section \<open>Bytes\<close>

lemma bytes32_word:
  "(ucast (ucast w :: 8 word) OR push_bit 8 (ucast (ucast (drop_bit 8 w) :: 8 word)) OR push_bit 16 (ucast (ucast (drop_bit 16 w) :: 8 word)) OR
    push_bit 24 (ucast (ucast (drop_bit 24 w) :: 8 word))) = (w :: 32 word)"
proof (rule bit_word_eqI)
  fix n
  assume "n < LENGTH(32)"
  then have "n < 8 \<or> 8 \<le> n \<and> n < 16 \<or> 16 \<le> n \<and> n < 24 \<or> 24 \<le> n \<and> n < 32" by auto
  then show "bit (ucast (ucast w :: 8 word) OR push_bit 8 (ucast (ucast (drop_bit 8 w) :: 8 word)) OR
      push_bit 16 (ucast (ucast (drop_bit 16 w) :: 8 word)) OR push_bit 24 (ucast (ucast (drop_bit 24 w) :: 8 word)) :: 32 word) n = bit w n"
    by (elim disjE conjE) (simp_all add: bit_simps less_diff_conv2)
qed

lemma bytes64_word:
  "(ucast (ucast w :: 8 word) OR push_bit 8 (ucast (ucast (drop_bit 8 w) :: 8 word)) OR push_bit 16 (ucast (ucast (drop_bit 16 w) :: 8 word)) OR
    push_bit 24 (ucast (ucast (drop_bit 24 w) :: 8 word)) OR push_bit 32 (ucast (ucast (drop_bit 32 w) :: 8 word)) OR
    push_bit 40 (ucast (ucast (drop_bit 40 w) :: 8 word)) OR push_bit 48 (ucast (ucast (drop_bit 48 w) :: 8 word)) OR
    push_bit 56 (ucast (ucast (drop_bit 56 w) :: 8 word))) = (w :: 64 word)"
proof (rule bit_word_eqI)
  fix n
  assume "n < LENGTH(64)"
  then have "n < 8 \<or> 8 \<le> n \<and> n < 16 \<or> 16 \<le> n \<and> n < 24 \<or> 24 \<le> n \<and> n < 32 \<or> 32 \<le> n \<and> n < 40 \<or> 40 \<le> n \<and> n < 48 \<or>
    48 \<le> n \<and> n < 56 \<or> 56 \<le> n \<and> n < 64" by auto
  then show "bit (ucast (ucast w :: 8 word) OR push_bit 8 (ucast (ucast (drop_bit 8 w) :: 8 word)) OR
      push_bit 16 (ucast (ucast (drop_bit 16 w) :: 8 word)) OR
      push_bit 24 (ucast (ucast (drop_bit 24 w) :: 8 word)) OR push_bit 32 (ucast (ucast (drop_bit 32 w) :: 8 word)) OR
      push_bit 40 (ucast (ucast (drop_bit 40 w) :: 8 word)) OR push_bit 48 (ucast (ucast (drop_bit 48 w) :: 8 word)) OR
      push_bit 56 (ucast (ucast (drop_bit 56 w) :: 8 word)) :: 64 word) n = bit w n"
    by (elim disjE conjE) (simp_all add: bit_simps less_diff_conv2)
qed

lemma bytes_explicit:
  "bytes32 w = [ucast w, ucast (drop_bit 8 w), ucast (drop_bit 16 w), ucast (drop_bit 24 w)]"
  "bytes64 v = [ucast v, ucast (drop_bit 8 v), ucast (drop_bit 16 v), ucast (drop_bit 24 v),
     ucast (drop_bit 32 v), ucast (drop_bit 40 v), ucast (drop_bit 48 v), ucast (drop_bit 56 v)]"
  by (simp_all add: bytes32_def bytes64_def upt_rec numeral_eq_Suc)

lemma words_bytes [simp]:
  "words32 (concat (map bytes32 ws)) = ws" "words64 (concat (map bytes64 vs)) = vs"
  by (induction ws, simp_all add: bytes_explicit bytes32_word) (induction vs, simp_all add: bytes_explicit bytes64_word)

lemma length_bytes [simp]:
  "length (concat (map bytes32 ws)) = 4 * length ws" "length (concat (map bytes64 vs)) = 8 * length vs"
  by (induction ws, simp_all add: bytes_explicit) (induction vs, simp_all add: bytes_explicit)

lemma copy_whole [simp]:
  "length xs = n \<Longrightarrow> copy_out n xs = Inr xs" "length xs = length ys \<Longrightarrow> copy_in xs ys = Inr xs"
  by (simp_all add: copy_out_def copy_in_def)

section \<open>The shape of the data\<close>

text \<open>The two have arrays of the same length; only for the types that can be restored.\<close>

definition same_shape :: "filter_data \<Rightarrow> filter_data \<Rightarrow> bool" where
  "same_shape d d' =
     (case d of
        Standard a \<Rightarrow> (case d' of Standard b \<Rightarrow> length a = length b | _ \<Rightarrow> False)
      | Registers a m \<Rightarrow> (case d' of Registers b m' \<Rightarrow> length a = length b \<and> m = m' | _ \<Rightarrow> False)
      | Counting a m \<Rightarrow> (case d' of Counting b m' \<Rightarrow> length a = length b \<and> m = m' | _ \<Rightarrow> False)
      | _ \<Rightarrow> False)"

lemma same_shape_trans: "same_shape a b \<Longrightarrow> same_shape b c \<Longrightarrow> same_shape a c"
  by (auto simp: same_shape_def split: filter_data.splits)

lemma set_bits_length: "set_bits bits n xs = Inr bits' \<Longrightarrow> length bits' = length bits"
  by (induction bits n xs rule: set_bits.induct) (auto simp: obind_Inr_iff set_bit_at_def split: if_splits)

lemma count_up_length: "count_up cs mx n xs = Inr cs' \<Longrightarrow> length cs' = length cs"
  by (induction cs mx n xs rule: count_up.induct) (auto simp: obind_Inr_iff split: if_splits)

lemma add_hashes_shape:
  "add_hashes h f hs = Inr (KV_ERR_NONE, d, h') \<Longrightarrow> same_shape (bf_data f) (bf_data f) \<Longrightarrow> same_shape (bf_data f) d"
  by (cases "bf_data f")
    (auto simp: same_shape_def add_hashes_def add_standard_def add_register_def obind_Inr_iff set_bits_length count_up_length Let_def
      split: list.splits if_splits)

text \<open>What additions keep of a filter.\<close>

definition same_frame :: "optimized_bloom_filter \<Rightarrow> optimized_bloom_filter \<Rightarrow> bool" where
  "same_frame f f' \<longleftrightarrow> bf_config f' = bf_config f \<and> bf_bit_count f' = bf_bit_count f \<and> bf_hash_count f' = bf_hash_count f \<and>
     length (bf_hash_seeds f') = length (bf_hash_seeds f) \<and> same_shape (bf_data f) (bf_data f')"

lemma add_key_frame:
  assumes "add_key f k = Inr f'" "same_shape (bf_data f) (bf_data f)"
  shows "same_frame f f'"
proof -
  from assms(1) obtain hs r d h where d: "add_hashes [] f hs = Inr (r, d, h)" "r = KV_ERR_NONE" "f' = with_data f d"
    by (auto simp: add_key_def bloom_filter_add_optimized_def obind_Inr_iff with_data_def split: if_splits)
  with add_hashes_shape[of "[]" f hs d h] assms(2) show ?thesis by (simp add: same_frame_def)
qed

lemma same_shape_refl: "same_shape a b \<Longrightarrow> same_shape b b"
  by (auto simp: same_shape_def split: filter_data.splits)

lemma add_all_frame: "add_all add_key keys f = Inr f' \<Longrightarrow> same_shape (bf_data f) (bf_data f) \<Longrightarrow> same_frame f f'"
proof (induction keys arbitrary: f)
  case (Cons k ks)
  from Cons.prems(1) obtain f1 where f1: "add_key f k = Inr f1" "add_all add_key ks f1 = Inr f'" by (auto simp: obind_Inr_iff)
  have "same_frame f f1" by (rule add_key_frame[OF f1(1) Cons.prems(2)])
  moreover from this have "same_frame f1 f'" using Cons.IH[OF f1(2)] same_shape_refl by (auto simp: same_frame_def)
  ultimately show ?case by (auto simp: same_frame_def intro: same_shape_trans)
qed (simp add: same_frame_def)

section \<open>The round trip\<close>

definition sized :: "64 word \<Rightarrow> filter_data \<Rightarrow> bool" where
  "sized n d =
     (case d of
        Standard a \<Rightarrow> unat (byte_count n) = length a
      | Registers a m \<Rightarrow> length a < 2 ^ 32
      | Counting a m \<Rightarrow> unat n = length a \<and> length a \<le> 3200000000
      | _ \<Rightarrow> False)"

lemma sized_shape: "sized n d \<Longrightarrow> same_shape d d' \<Longrightarrow> sized n d'"
  by (auto simp: sized_def same_shape_def split: filter_data.splits)

lemma sized_same: "sized n d \<Longrightarrow> same_shape d d"
  by (auto simp: sized_def same_shape_def split: filter_data.splits)

definition restorable :: "bloom_filter_type \<Rightarrow> bool" where
  "restorable t \<longleftrightarrow> t \<noteq> BLOOM_TYPE_BLOCKED \<and> t \<noteq> BLOOM_TYPE_SCALABLE"

definition fresh_filter :: "bloom_filter_config \<Rightarrow> 64 word \<Rightarrow> nat \<Rightarrow> filter_data \<Rightarrow> (nat \<Rightarrow> 32 word) \<Rightarrow> nat \<Rightarrow> optimized_bloom_filter" where
  "fresh_filter cf n hashes d rnd now = \<lparr>bf_config = cf, bf_stats = zero_bloom_stats, bf_bit_count = n, bf_hash_count = hashes,
     bf_max_entries = bc_expected_entries cf, bf_current_entries = 0, bf_data = d, bf_hash_seeds = map rnd [0..<hashes],
     bf_salt = push_bit 32 (ucast (rnd hashes)) OR ucast (rnd (hashes + 1)), bf_creation_time = now\<rparr>"

text \<open>Creation with a valid configuration differs only in the seeds, the salt and the time.\<close>

lemma create_fresh:
  assumes "config_ok cf" "restorable (bc_type cf)"
  shows "\<exists>n hashes d. (\<forall>rnd now. bloom_filter_create_optimized [] rnd now (Some cf) = Inr (Some (fresh_filter cf n hashes d rnd now), [])) \<and>
    hashes \<le> 13 \<and> sized n d \<and> unat n \<le> 3200000000 \<and> (bc_type cf = BLOOM_TYPE_AUTO \<longrightarrow> (\<exists>a. d = Standard a))"
proof -
  from calculate_bits[of "bc_expected_entries cf" "bc_false_positive_rate cf"] assms(1) obtain bits hashes where
    c: "bloom_filter_calculate_parameters (bc_expected_entries cf) (bc_false_positive_rate cf) = (KV_ERR_NONE, bits, hashes)"
    "1 \<le> bits" "bits \<le> 32 * unat (bc_expected_entries cf)" by (auto simp: config_ok_def)
  note b = data_bits[OF assms(1) c(2,3)]
  from create_data_ok[OF assms(1) c(2,3), of 0 "fresh_filter cf (of_nat bits) hashes (Standard []) rnd now" hashes for rnd now]
  obtain d where d: "create_data [] cf (of_nat bits) hashes = Inr (Some d, [])" by (auto simp: fresh_filter_def)
  have "sized (of_nat bits) d"
  proof (cases "bc_type cf")
    case BLOOM_TYPE_REGISTER_BLOCKED
    then obtain p :: "32 word" where "d = Registers (replicate (unat p) 0) (p - 1)" using d by (auto simp: create_data_def obind_Inr_iff)
    then show ?thesis using unsigned_less[of p, where ?'a = nat] by (simp add: sized_def)
  qed (use d b assms(2) in \<open>auto simp: create_data_def sized_def restorable_def\<close>)
  moreover have "bloom_filter_create_optimized [] rnd now (Some cf) = Inr (Some (fresh_filter cf (of_nat bits) hashes d rnd now), [])" for rnd now
    using c(1) d by (simp add: bloom_filter_create_optimized_def fresh_filter_def)
  moreover have "\<exists>a. d = Standard a" if "bc_type cf = BLOOM_TYPE_AUTO" using d that by (auto simp: create_data_def)
  ultimately show ?thesis using calculate_hashes[OF c(1)] b(1,2) by metis
qed

text \<open>The bytes of the data have the announced size and restore the data into an array of the same shape.\<close>

lemma data_bytes_ok:
  assumes "sized (bf_bit_count f) (bf_data f)"
  shows "\<exists>bs. data_bytes f = Inr bs \<and> length bs = unat (data_size_of f) \<and>
    (\<forall>d. same_shape d (bf_data f) \<longrightarrow> restore_data d bs = Inr (Some (bf_data f)))"
proof (cases "bf_data f")
  case (Standard a)
  with assms show ?thesis by (auto simp: sized_def data_bytes_def data_size_of_def same_shape_def restore_data_def split: filter_data.splits)
next
  case (Registers a m)
  with assms have "unat (of_nat (length a) * 8 :: 64 word) = 8 * length a"
    by (simp add: sized_def unat_word_ariths unsigned_of_nat take_bit_nat_eq_self)
  with Registers show ?thesis by (auto simp: data_bytes_def data_size_of_def same_shape_def restore_data_def split: filter_data.splits)
next
  case (Counting a m)
  with assms have "unat (bf_bit_count f * 4) = 4 * length a" by (simp add: sized_def unat_word_ariths)
  with Counting show ?thesis by (auto simp: data_bytes_def data_size_of_def same_shape_def restore_data_def split: filter_data.splits)
qed (use assms in \<open>simp_all add: sized_def\<close>)

lemma required_size:
  assumes "unat hdr < 2 ^ 32" "k \<le> 13" "unat ds < 2 ^ 32"
  shows "(ucast (of_nat k :: 32 word) :: 64 word) = of_nat k" "unat (of_nat k :: 32 word) = k"
    "(ucast (ucast (ds :: 64 word) :: 32 word) :: 64 word) = ds" "unat (ucast ds :: 32 word) = unat ds" "\<not> hdr + of_nat k * 4 + ds < (hdr :: 64 word)"
proof -
  show u: "unat (of_nat k :: 32 word) = k" using assms(2) by (simp add: unsigned_of_nat take_bit_nat_eq_self)
  show "(ucast (of_nat k :: 32 word) :: 64 word) = of_nat k" by (metis u of_nat_unat)
  show v: "unat (ucast ds :: 32 word) = unat ds" using assms(3) by (simp add: unsigned_ucast_eq take_bit_nat_eq_self)
  show "(ucast (ucast ds :: 32 word) :: 64 word) = ds" by (metis v of_nat_unat ucast_id)
  have "unat (of_nat k :: 64 word) = k" using assms(2) by (simp add: unsigned_of_nat take_bit_nat_eq_self)
  then have "unat (hdr + of_nat k * 4 + ds) = unat hdr + k * 4 + unat ds" using assms by (simp add: unat_word_ariths)
  then show "\<not> hdr + of_nat k * 4 + ds < hdr" by (simp add: word_less_nat_alt)
qed


lemma serialise_fresh:
  assumes fr: "same_frame (fresh_filter cf n k d rnd now) f" and sz: "sized n d" and k: "k \<le> 13"
    and ds: "unat (data_size_of f) < 2 ^ 32" and hdr: "unat hdr < 2 ^ 32"
    and cr: "\<forall>rnd now. bloom_filter_create_optimized [] rnd now (Some cf) = Inr (Some (fresh_filter cf n k d rnd now), [])"
  shows "\<exists>m s. (\<forall>size. bloom_filter_serialize_optimized hdr size f = Inr (m, if size < m then None else Some s)) \<and>
    bloom_filter_deserialize_optimized [] rnd' now' hdr s m = Inr (Some (f\<lparr>bf_stats := zero_bloom_stats\<rparr>), [])"
proof -
  have f: "bf_config f = cf" "bf_bit_count f = n" "bf_hash_count f = k" "length (bf_hash_seeds f) = k" "same_shape d (bf_data f)"
    using fr by (simp_all add: same_frame_def fresh_filter_def)
  have "sized (bf_bit_count f) (bf_data f)" using sized_shape[OF sz f(5)] f(2) by simp
  from data_bytes_ok[OF this] f(5) obtain bs where bs: "data_bytes f = Inr bs" "length bs = unat (data_size_of f)"
    "restore_data d bs = Inr (Some (bf_data f))" by blast
  note r = required_size[OF hdr k ds]
  define sb where "sb = concat (map bytes32 (bf_hash_seeds f))"
  have len: "length sb = k * 4" by (simp add: sb_def f(4) mult.commute)
  define m where "m = hdr + of_nat k * 4 + data_size_of f"
  define s where "s = (\<lparr>bh_magic = BLOOM_FILTER_MAGIC, bh_version = BLOOM_FILTER_VERSION, bh_config = cf, bh_bit_count = n, bh_hash_count = of_nat k,
      bh_max_entries = bf_max_entries f, bh_current_entries = bf_current_entries f, bh_salt = bf_salt f, bh_creation_time = bf_creation_time f,
      bh_data_size = ucast (data_size_of f), bh_checksum = calculate_checksum (sb @ bs)\<rparr>, sb @ bs)"
  have ser: "bloom_filter_serialize_optimized hdr size f = Inr (m, if size < m then None else Some s)" for size
    using bs(1,2) len by (simp add: bloom_filter_serialize_optimized_def f(1-3) sb_def[symmetric] m_def[symmetric] s_def Let_def)
  have "copy_in sb (concat (map bytes32 (map rnd' [0..<k]))) = Inr sb" using len by (intro copy_whole(2)) (simp only: length_bytes, simp)
  moreover have "words32 sb = bf_hash_seeds f" by (simp add: sb_def)
  moreover have "fresh_filter cf n k d rnd' now'\<lparr>bf_bit_count := n, bf_hash_count := k, bf_max_entries := bf_max_entries f,
      bf_current_entries := bf_current_entries f, bf_salt := bf_salt f, bf_creation_time := bf_creation_time f,
      bf_hash_seeds := bf_hash_seeds f, bf_data := bf_data f\<rparr> = f\<lparr>bf_stats := zero_bloom_stats\<rparr>"
    using f(1-3) by (cases f) (simp add: fresh_filter_def)
  ultimately have "bloom_filter_deserialize_optimized [] rnd' now' hdr s m = Inr (Some (f\<lparr>bf_stats := zero_bloom_stats\<rparr>), [])"
    using cr bs len r by (simp add: bloom_filter_deserialize_optimized_def s_def m_def, simp add: fresh_filter_def)
  with ser show ?thesis by blast
qed


lemma standard_size:
  assumes "bf_data f = Standard a" "unat (bf_bit_count f) \<le> 3200000000"
  shows "unat (data_size_of f) < 2 ^ 32"
proof -
  have "unat (bf_bit_count f + 7) = unat (bf_bit_count f) + 7" using assms(2) by (simp add: unat_word_ariths)
  then show ?thesis using assms by (simp add: data_size_of_def byte_count_def unat_div)
qed


lemma default_instance:
  "\<exists>f0 f. bloom_filter_create_optimized [] rnd now (Some (bloom_filter_create_default_config e p)) = Inr (Some f0, []) \<and>
    add_all add_key [''a''] f0 = Inr f \<and> unat (data_size_of f) < 2 ^ 32"
proof -
  let ?cf = "bloom_filter_create_default_config e p"
  have t: "bc_type ?cf = BLOOM_TYPE_AUTO" by (simp add: bloom_filter_create_default_config_def Let_def)
  then have "restorable (bc_type ?cf)" by (simp add: restorable_def)
  from create_fresh[OF default_config_ok this] t obtain n k a where
    c: "bloom_filter_create_optimized [] rnd now (Some ?cf) = Inr (Some (fresh_filter ?cf n k (Standard a) rnd now), [])" "unat n \<le> 3200000000"
    by metis
  from filter_create_ok[OF default_config_ok, of 1 rnd now e p] c(1) have "filter_ok 1 (fresh_filter ?cf n k (Standard a) rnd now)" by auto
  from flt.add_all_ok[of "[''a'']" 0, OF _, of "fresh_filter ?cf n k (Standard a) rnd now"] this obtain f where
    f: "add_all add_key [''a''] (fresh_filter ?cf n k (Standard a) rnd now) = Inr f" by auto
  from add_all_frame[OF f] have "same_frame (fresh_filter ?cf n k (Standard a) rnd now) f" by (simp add: fresh_filter_def same_shape_def)
  then have "bf_bit_count f = n" "same_shape (Standard a) (bf_data f)" by (simp_all add: same_frame_def fresh_filter_def)
  then obtain b where "bf_data f = Standard b" "bf_bit_count f = n" by (auto simp: same_shape_def split: filter_data.splits)
  then show ?thesis using c f standard_size[of f b] by auto
qed


end
