(* ===== verification/SSTable.thy ===== *)
theory SSTable
  imports Memtable Bloom_Serial
begin

text \<open>
  Sorted string tables, \<open>src/kvserver/lsm_sstable.c\<close>: the writer that packs entries into blocks of 4096 bytes with an
  index, a Bloom filter and a footer, and the reader.

  A file is the list of its bytes; the writer appends. \<open>kv_store_malloc\<close>, the initialisation of locks and the calls of
  \<open>stdio\<close> take their success from the script; a write that fails writes nothing, one of zero bytes counts as failed, as \<open>fwrite\<close> then
  returns 0. Integers are stored in little-endian order. The error codes are positive, so
  the tests for negative results in the code never fire; what happens then is modelled: bytes that were never
  written, pointers that were never set and freed pointers are faults.

  The block buffer is the list of the bytes written into it. The release functions, which only free, and the fields
  of the statistics that no code sets are left out.
\<close>

abbreviation KV_ERR_FILE :: int where "KV_ERR_FILE \<equiv> 4"
abbreviation SSTABLE_BLOCK_SIZE :: nat where "SSTABLE_BLOCK_SIZE \<equiv> 4096"
abbreviation SSTABLE_MAGIC_NUMBER :: "32 word" where "SSTABLE_MAGIC_NUMBER \<equiv> 0x53535441"
abbreviation (input) SSTABLE_VERSION :: "32 word" where "SSTABLE_VERSION \<equiv> 1"

section \<open>Types\<close>

datatype sstable_compression = SSTABLE_COMPRESSION_NONE | SSTABLE_COMPRESSION_LZ4 | SSTABLE_COMPRESSION_SNAPPY

abbreviation (input) SSTABLE_BLOCK_DATA :: "32 word" where "SSTABLE_BLOCK_DATA \<equiv> 0"
abbreviation (input) SSTABLE_BLOCK_INDEX :: "32 word" where "SSTABLE_BLOCK_INDEX \<equiv> 1"
abbreviation (input) SSTABLE_BLOCK_BLOOM :: "32 word" where "SSTABLE_BLOCK_BLOOM \<equiv> 2"

record sstable_block_header =
  bk_block_type :: "32 word"
  bk_compressed_size :: "32 word"
  bk_uncompressed_size :: "32 word"
  bk_crc32 :: "32 word"
  bk_entry_count :: "32 word"
  bk_reserved :: "32 word"

text \<open>\<open>db_data\<close> are the bytes written so far, its length is \<open>size\<close>.\<close>

record sstable_data_block =
  db_header :: sstable_block_header
  db_data :: bytes
  db_capacity :: nat
  db_compression :: sstable_compression

record sstable_index_entry =
  ix_key :: "bytes option"
  ix_key_len :: nat
  ix_offset :: "64 word"
  ix_size :: "32 word"
  ix_seq_num :: "64 word"

record sstable_index_block =
  ib_entries :: "sstable_index_entry list"
  ib_capacity :: nat

record sstable_bloom_filter =
  sb_bits :: bytes
  sb_bit_count :: "64 word"
  sb_hash_count :: nat

record sstable_footer =
  ft_magic_number :: "32 word"
  ft_version :: "32 word"
  ft_index_offset :: "64 word"
  ft_index_size :: "32 word"
  ft_bloom_offset :: "64 word"
  ft_bloom_size :: "32 word"
  ft_min_seq_num :: "64 word"
  ft_max_seq_num :: "64 word"
  ft_entry_count :: "64 word"
  ft_crc32 :: "32 word"

record sstable_stats =
  ss_total_entries :: "64 word"
  ss_file_size :: "64 word"
  ss_block_count :: "32 word"
  ss_compression :: sstable_compression

text \<open>\<open>sw_current_block\<close> is null after the allocation of a new block failed.\<close>

record sstable_writer =
  sw_file :: bytes
  sw_current_block :: "sstable_data_block option"
  sw_index_block :: sstable_index_block
  sw_bloom_filter :: sstable_bloom_filter
  sw_file_offset :: "64 word"
  sw_entry_count :: "64 word"
  sw_min_seq_num :: "64 word"
  sw_max_seq_num :: "64 word"
  sw_compression :: sstable_compression
  sw_finalized :: bool
  sw_stats :: sstable_stats

record sstable_reader =
  sr_file :: bytes
  sr_footer :: sstable_footer
  sr_index_block :: sstable_index_block
  sr_bloom_filter :: sstable_bloom_filter
  sr_stats :: sstable_stats

section \<open>Checksums and hashes\<close>

definition crc_bit :: "32 word \<Rightarrow> 32 word" where
  "crc_bit crc = (if crc AND 1 \<noteq> 0 then drop_bit 1 crc XOR 0xEDB88320 else drop_bit 1 crc)"

definition crc32_table :: "32 word list" where
  "crc32_table = map (\<lambda>i. (crc_bit ^^ 8) (of_nat i)) [0..<256]"

definition crc_byte :: "32 word \<Rightarrow> 8 word \<Rightarrow> 32 word" where
  "crc_byte crc b = crc32_table ! unat ((crc XOR ucast b) AND 0xFF) XOR drop_bit 8 crc"

definition sstable_crc32 :: "bytes \<Rightarrow> 32 word" where
  "sstable_crc32 data = foldl crc_byte 0xFFFFFFFF data XOR 0xFFFFFFFF"

definition murmur3_hash :: "bytes \<Rightarrow> 32 word \<Rightarrow> 32 word" where
  "murmur3_hash key seed =
     (let data = map (\<lambda>b. char_of (unat b)) key; nblocks = length data div 4;
          h1 = body32 nblocks data seed;
          h1 = tail32 (drop (nblocks * 4) data) (length data mod 4) h1 in
      fmix32 (h1 XOR of_nat (length data)))"

section \<open>Integers in buffers\<close>

fun load32 :: "bytes \<Rightarrow> 32 word" where
  "load32 (a # b # c # d # bs) = ucast a OR push_bit 8 (ucast b) OR push_bit 16 (ucast c) OR push_bit 24 (ucast d)"
| "load32 _ = 0"

fun load64 :: "bytes \<Rightarrow> 64 word" where
  "load64 (a # b # c # d # e # f # g # h # bs) =
     ucast a OR push_bit 8 (ucast b) OR push_bit 16 (ucast c) OR push_bit 24 (ucast d) OR
     push_bit 32 (ucast e) OR push_bit 40 (ucast f) OR push_bit 48 (ucast g) OR push_bit 56 (ucast h)"
| "load64 _ = 0"

text \<open>The packed structures as they lie in the file: 24 and 60 bytes.\<close>

abbreviation (input) HEADER_BYTES :: nat where "HEADER_BYTES \<equiv> 24"
abbreviation (input) FOOTER_BYTES :: nat where "FOOTER_BYTES \<equiv> 60"

definition header_bytes :: "sstable_block_header \<Rightarrow> bytes" where
  "header_bytes hdr = bytes32 (bk_block_type hdr) @ bytes32 (bk_compressed_size hdr) @ bytes32 (bk_uncompressed_size hdr) @
     bytes32 (bk_crc32 hdr) @ bytes32 (bk_entry_count hdr) @ bytes32 (bk_reserved hdr)"

definition load_header :: "bytes \<Rightarrow> sstable_block_header" where
  "load_header bs = \<lparr>bk_block_type = load32 bs, bk_compressed_size = load32 (drop 4 bs), bk_uncompressed_size = load32 (drop 8 bs),
     bk_crc32 = load32 (drop 12 bs), bk_entry_count = load32 (drop 16 bs), bk_reserved = load32 (drop 20 bs)\<rparr>"

definition footer_bytes :: "sstable_footer \<Rightarrow> bytes" where
  "footer_bytes ft = bytes32 (ft_magic_number ft) @ bytes32 (ft_version ft) @ bytes64 (ft_index_offset ft) @ bytes32 (ft_index_size ft) @
     bytes64 (ft_bloom_offset ft) @ bytes32 (ft_bloom_size ft) @ bytes64 (ft_min_seq_num ft) @ bytes64 (ft_max_seq_num ft) @
     bytes64 (ft_entry_count ft) @ bytes32 (ft_crc32 ft)"

definition load_footer :: "bytes \<Rightarrow> sstable_footer" where
  "load_footer bs = \<lparr>ft_magic_number = load32 bs, ft_version = load32 (drop 4 bs), ft_index_offset = load64 (drop 8 bs),
     ft_index_size = load32 (drop 16 bs), ft_bloom_offset = load64 (drop 20 bs), ft_bloom_size = load32 (drop 28 bs),
     ft_min_seq_num = load64 (drop 32 bs), ft_max_seq_num = load64 (drop 40 bs), ft_entry_count = load64 (drop 48 bs),
     ft_crc32 = load32 (drop 56 bs)\<rparr>"

section \<open>Entries\<close>

text \<open>\<open>memcpy\<close> of \<open>n\<close> bytes from a pointer.\<close>

definition read_buf :: "bytes option \<Rightarrow> nat \<Rightarrow> bytes outcome" where
  "read_buf p n = (if n = 0 then Inr [] else (case p of None \<Rightarrow> Inl NullDeref | Some v \<Rightarrow> copy_out n v))"

text \<open>The result and the bytes written.\<close>

definition serialize_entry :: "nat \<Rightarrow> bytes \<Rightarrow> bytes option \<Rightarrow> nat \<Rightarrow> 64 word \<Rightarrow> bool \<Rightarrow> (int \<times> bytes) outcome" where
  "serialize_entry buffer_size key value_p value_len seq_num deleted =
     (if buffer_size < 4 + 4 + 8 + 1 + length key + value_len then Inr (KV_ERR_PARAM, [])
      else obind (read_buf value_p value_len) (\<lambda>value.
        (let bs = bytes32 (of_nat (length key)) @ bytes32 (of_nat value_len) @ bytes64 seq_num @ [if deleted then 1 else 0] @ key @ value in
         Inr (int (length bs), bs))))"

record entry_fields =
  ef_key :: "bytes option"
  ef_value :: "bytes option"
  ef_seq_num :: "64 word"
  ef_deleted :: bool

text \<open>
  The results of \<open>deserialize_entry\<close>: the number of bytes and the fields, \<open>KV_ERR_PARAM\<close> with the pointers not set, or \<open>KV_ERR_MEM\<close> with
  a null key or with a freed key.
\<close>

datatype parse_result = Parsed nat entry_fields | Unparsed | KeyMissing | KeyDangling

fun parse_code :: "parse_result \<Rightarrow> int" where
  "parse_code (Parsed n e) = int n"
| "parse_code Unparsed = KV_ERR_PARAM"
| "parse_code KeyMissing = KV_ERR_MEM"
| "parse_code KeyDangling = KV_ERR_MEM"

text \<open>The lengths are added in 32 bits, so the test can be passed by lengths that do not fit; then the copies run past the buffer.\<close>

definition deserialize_entry :: "script \<Rightarrow> bytes \<Rightarrow> (parse_result \<times> script) outcome" where
  "deserialize_entry h buffer =
     (if length buffer < 17 then Inr (Unparsed, h)
      else (let klen = load32 buffer; vlen = load32 (drop 4 buffer); seq = load64 (drop 8 buffer); del = (buffer ! 16 \<noteq> 0) in
        if length buffer < unat (17 + klen + vlen) then Inr (Unparsed, h)
        else (let (ok, h1) = (if klen > 0 then malloc h else (True, h)) in
          if \<not> ok then Inr (KeyMissing, h1)
          else obind (copy_out (unat klen) (drop 17 buffer)) (\<lambda>key.
            (let (ok2, h2) = (if vlen > 0 then malloc h1 else (True, h1)) in
             if \<not> ok2 then Inr (if klen > 0 then KeyDangling else KeyMissing, h2)
             else obind (copy_out (unat vlen) (drop (17 + unat klen) buffer)) (\<lambda>value.
               Inr (Parsed (17 + unat klen + unat vlen)
                 \<lparr>ef_key = (if klen > 0 then Some key else None), ef_value = (if vlen > 0 then Some value else None),
                   ef_seq_num = seq, ef_deleted = del\<rparr>, h2)))))))"

section \<open>Data blocks\<close>

definition zero_header :: "32 word \<Rightarrow> sstable_block_header" where
  "zero_header t = \<lparr>bk_block_type = t, bk_compressed_size = 0, bk_uncompressed_size = 0, bk_crc32 = 0, bk_entry_count = 0, bk_reserved = 0\<rparr>"

definition sstable_data_block_create :: "script \<Rightarrow> nat \<Rightarrow> sstable_compression \<Rightarrow> sstable_data_block option \<times> script" where
  "sstable_data_block_create h capacity compression =
     (if capacity = 0 then (None, h)
      else (let (ok, h1) = all_ok 2 h in
        (if ok then Some \<lparr>db_header = zero_header SSTABLE_BLOCK_DATA, db_data = [], db_capacity = capacity, db_compression = compression\<rparr>
         else None, h1)))"

text \<open>A code that is not the number of bytes written makes the block cover bytes that nobody wrote.\<close>

definition sstable_data_block_add_entry ::
  "sstable_data_block \<Rightarrow> bytes option \<Rightarrow> bytes option \<Rightarrow> nat \<Rightarrow> 64 word \<Rightarrow> bool \<Rightarrow> (int \<times> sstable_data_block) outcome" where
  "sstable_data_block_add_entry block key_p value_p value_len seq_num deleted =
     (case key_p of
        None \<Rightarrow> Inr (KV_ERR_PARAM, block)
      | Some key \<Rightarrow>
          if length (db_data block) + (4 + 4 + 8 + 1 + length key + value_len) > db_capacity block then Inr (KV_ERR_PARAM, block)
          else obind (serialize_entry (db_capacity block - length (db_data block)) key value_p value_len seq_num deleted) (\<lambda>(r, bs).
            if r < 0 then Inr (r, block)
            else if nat r \<noteq> length bs then Inl Uninit
            else Inr (KV_ERR_NONE, block\<lparr>db_data := db_data block @ bs,
                   db_header := (db_header block)\<lparr>bk_entry_count := bk_entry_count (db_header block) + 1\<rparr>\<rparr>)))"

definition sstable_data_block_finalize :: "sstable_data_block \<Rightarrow> int \<times> sstable_data_block" where
  "sstable_data_block_finalize block =
     (KV_ERR_NONE, block\<lparr>db_header := (db_header block)\<lparr>bk_uncompressed_size := of_nat (length (db_data block)),
        bk_compressed_size := of_nat (length (db_data block)), bk_crc32 := sstable_crc32 (db_data block)\<rparr>\<rparr>)"

section \<open>Index blocks\<close>

definition sstable_index_block_create :: "script \<Rightarrow> nat \<Rightarrow> sstable_index_block option \<times> script" where
  "sstable_index_block_create h capacity =
     (if capacity = 0 then (None, h)
      else (let (ok, h1) = all_ok 2 h in (if ok then Some \<lparr>ib_entries = [], ib_capacity = capacity\<rparr> else None, h1)))"

definition sstable_index_block_add_entry ::
  "script \<Rightarrow> sstable_index_block \<Rightarrow> bytes option \<Rightarrow> 64 word \<Rightarrow> 32 word \<Rightarrow> 64 word \<Rightarrow> int \<times> sstable_index_block \<times> script" where
  "sstable_index_block_add_entry h ib key_p offset sz seq_num =
     (case key_p of
        None \<Rightarrow> (KV_ERR_PARAM, ib, h)
      | Some key \<Rightarrow>
          if length (ib_entries ib) \<ge> ib_capacity ib then (KV_ERR_PARAM, ib, h)
          else (let (ok, h1) = malloc h in
            if \<not> ok then (KV_ERR_MEM, ib, h1)
            else (KV_ERR_NONE, ib\<lparr>ib_entries := ib_entries ib @ [\<lparr>ix_key = Some key, ix_key_len = length key, ix_offset = offset,
                    ix_size = sz, ix_seq_num = seq_num\<rparr>]\<rparr>, h1)))"

definition serialize_index_entry :: "nat \<Rightarrow> sstable_index_entry \<Rightarrow> int \<times> bytes" where
  "serialize_index_entry buffer_size e =
     (if buffer_size < 4 + 8 + 4 + 8 + ix_key_len e then (KV_ERR_PARAM, [])
      else (let bs = bytes32 (of_nat (ix_key_len e)) @ bytes64 (ix_offset e) @ bytes32 (ix_size e) @ bytes64 (ix_seq_num e) @
                     (case ix_key e of None \<Rightarrow> [] | Some key \<Rightarrow> take (ix_key_len e) key) in
            (int (length bs), bs)))"

text \<open>The loop over the index; what a failed entry would leave unwritten is a fault.\<close>

fun serialize_index :: "nat \<Rightarrow> sstable_index_entry list \<Rightarrow> bytes outcome" where
  "serialize_index room [] = Inr []"
| "serialize_index room (e # es) =
     (case serialize_index_entry room e of
        (r, bs) \<Rightarrow>
          if nat r \<noteq> length bs then Inl Uninit
          else obind (serialize_index (room - length bs) es) (\<lambda>rest. Inr (bs @ rest)))"

text \<open>An entry that could not be read stays zero; the code is then added to the offset as if it were a size.\<close>

definition zero_index_entry :: sstable_index_entry where
  "zero_index_entry = \<lparr>ix_key = None, ix_key_len = 0, ix_offset = 0, ix_size = 0, ix_seq_num = 0\<rparr>"

definition deserialize_index_entry :: "script \<Rightarrow> bytes \<Rightarrow> (nat \<times> sstable_index_entry \<times> script) outcome" where
  "deserialize_index_entry h buffer =
     (if length buffer < 24 then Inr (nat KV_ERR_PARAM, zero_index_entry, h)
      else (let klen = load32 buffer in
        if length buffer < unat (24 + klen) then Inr (nat KV_ERR_PARAM, zero_index_entry, h)
        else (let (ok, h1) = (if klen > 0 then malloc h else (True, h)) in
          if \<not> ok then Inr (nat KV_ERR_MEM, zero_index_entry, h1)
          else obind (copy_out (unat klen) (drop 24 buffer)) (\<lambda>key.
            Inr (24 + unat klen, \<lparr>ix_key = (if klen > 0 then Some key else None), ix_key_len = unat klen, ix_offset = load64 (drop 4 buffer),
                   ix_size = load32 (drop 12 buffer), ix_seq_num = load64 (drop 16 buffer)\<rparr>, h1)))))"

fun deserialize_index :: "script \<Rightarrow> nat \<Rightarrow> nat \<Rightarrow> bytes \<Rightarrow> (sstable_index_entry list \<times> script) outcome" where
  "deserialize_index h 0 off buffer = Inr ([], h)"
| "deserialize_index h (Suc n) off buffer =
     (if length buffer < off then Inl OutOfBounds
      else obind (deserialize_index_entry h (drop off buffer)) (\<lambda>(k, e, h1).
           obind (deserialize_index h1 n (off + k) buffer) (\<lambda>(es, h2). Inr (e # es, h2))))"

section \<open>The Bloom filter of a table\<close>

text \<open>The logarithms are taken in the reals instead of \<open>double\<close>.\<close>

definition sstable_bloom_filter_create :: "script \<Rightarrow> 64 word \<Rightarrow> 32 word \<Rightarrow> sstable_bloom_filter option \<times> script" where
  "sstable_bloom_filter_create h expected_entries false_positive_rate =
     (if expected_entries = 0 \<or> false_positive_rate = 0 then (None, h)
      else (let (ok, h1) = all_ok 2 h; n = real (unat expected_entries); fp_rate = real (unat false_positive_rate) / 10000;
                m = - n * ln fp_rate / (ln 2 * ln 2); k = m / n * ln 2; hash_count = nat (round k); bits = of_nat (nat \<lceil>m\<rceil>) :: 64 word in
        (if ok then Some \<lparr>sb_bits = replicate (unat (byte_count bits)) 0, sb_bit_count = bits,
                          sb_hash_count = (if hash_count = 0 then 1 else hash_count)\<rparr> else None, h1)))"

definition sstable_hashes :: "sstable_bloom_filter \<Rightarrow> bytes \<Rightarrow> 64 word list" where
  "sstable_hashes bloom key = map (\<lambda>i. ucast (murmur3_hash key (of_nat i))) [0..<sb_hash_count bloom]"

definition sstable_bloom_filter_add :: "sstable_bloom_filter \<Rightarrow> bytes option \<Rightarrow> sstable_bloom_filter outcome" where
  "sstable_bloom_filter_add bloom key_p =
     (case key_p of
        None \<Rightarrow> Inr bloom
      | Some key \<Rightarrow> obind (set_bits (sb_bits bloom) (sb_bit_count bloom) (sstable_hashes bloom key)) (\<lambda>bits. Inr (bloom\<lparr>sb_bits := bits\<rparr>)))"

definition sstable_bloom_filter_may_contain :: "sstable_bloom_filter \<Rightarrow> bytes option \<Rightarrow> bool outcome" where
  "sstable_bloom_filter_may_contain bloom key_p =
     (case key_p of
        None \<Rightarrow> Inr False
      | Some key \<Rightarrow> test_bits (sb_bits bloom) (sb_bit_count bloom) (sstable_hashes bloom key))"


section \<open>The writer\<close>

definition zero_sstable_stats :: sstable_stats where
  "zero_sstable_stats = \<lparr>ss_total_entries = 0, ss_file_size = 0, ss_block_count = 0, ss_compression = SSTABLE_COMPRESSION_NONE\<rparr>"

definition sstable_writer_create :: "script \<Rightarrow> string option \<Rightarrow> sstable_compression \<Rightarrow> sstable_writer option \<times> script" where
  "sstable_writer_create h filename compression =
     (if filename = None \<or> filename = Some [] then (None, h)
      else (let (ok, h1) = all_ok 2 h in
        if \<not> ok then (None, h1)
        else (case sstable_data_block_create h1 SSTABLE_BLOCK_SIZE compression of
            (None, h2) \<Rightarrow> (None, h2)
          | (Some block, h2) \<Rightarrow>
              (case sstable_index_block_create h2 1024 of
                 (None, h3) \<Rightarrow> (None, h3)
               | (Some index, h3) \<Rightarrow>
                   (case sstable_bloom_filter_create h3 10000 100 of
                      (None, h4) \<Rightarrow> (None, h4)
                    | (Some bloom, h4) \<Rightarrow>
                        (let (ok5, h5) = malloc h4 in
                         (if ok5 then Some \<lparr>sw_file = [], sw_current_block = Some block, sw_index_block = index, sw_bloom_filter = bloom,
                              sw_file_offset = 0, sw_entry_count = 0, sw_min_seq_num = - 1, sw_max_seq_num = 0, sw_compression = compression,
                              sw_finalized = False, sw_stats = zero_sstable_stats\<rparr> else None, h5)))))))"

text \<open>\<open>fwrite\<close> of one item.\<close>

definition fwrite :: "script \<Rightarrow> bytes \<Rightarrow> sstable_writer \<Rightarrow> bool \<times> sstable_writer \<times> script" where
  "fwrite h bs w =
     (if bs = [] then (False, w, h)
      else (let (ok, h1) = malloc h in (ok, if ok then w\<lparr>sw_file := sw_file w @ bs\<rparr> else w, h1)))"

text \<open>The index entry of a block: its first key, read back from the buffer. A failure to read it is a positive code, too.\<close>

definition index_block_entry :: "script \<Rightarrow> sstable_writer \<Rightarrow> bytes \<Rightarrow> (int \<times> sstable_writer \<times> script) outcome" where
  "index_block_entry h w data =
     obind (deserialize_entry h data) (\<lambda>(p, h1).
       (let add = (\<lambda>key seq. case sstable_index_block_add_entry h1 (sw_index_block w) key (sw_file_offset w)
                      (of_nat HEADER_BYTES + of_nat (length data)) seq of (r, ib, h2) \<Rightarrow> Inr (r, w\<lparr>sw_index_block := ib\<rparr>, h2)) in
        if parse_code p \<le> 0 then Inr (KV_ERR_NONE, w, h1)
        else (case p of
            Parsed n e \<Rightarrow> add (ef_key e) (ef_seq_num e)
          | Unparsed \<Rightarrow> add None 0
          | KeyMissing \<Rightarrow> add None 0
          | KeyDangling \<Rightarrow> Inl UseAfterFree)))"

definition advance_block :: "sstable_writer \<Rightarrow> nat \<Rightarrow> sstable_writer" where
  "advance_block w n = w\<lparr>sw_file_offset := sw_file_offset w + of_nat HEADER_BYTES + of_nat n,
     sw_stats := (sw_stats w)\<lparr>ss_block_count := ss_block_count (sw_stats w) + 1\<rparr>\<rparr>"

text \<open>The full block goes to the file and a new one is begun.\<close>

definition put_flush :: "script \<Rightarrow> sstable_writer \<Rightarrow> sstable_data_block \<Rightarrow> (int \<times> sstable_writer \<times> script) outcome" where
  "put_flush h w block0 =
     (let block = snd (sstable_data_block_finalize block0); w0 = w\<lparr>sw_current_block := Some block\<rparr>;
          (ok1, w1, h1) = fwrite h (header_bytes (db_header block)) w0 in
      if \<not> ok1 then Inr (KV_ERR_FILE, w1, h1)
      else (let (ok2, w2, h2) = fwrite h1 (db_data block) w1 in
        if \<not> ok2 then Inr (KV_ERR_FILE, w2, h2)
        else obind (index_block_entry h2 w2 (db_data block)) (\<lambda>(r, w3, h3).
          if r \<noteq> KV_ERR_NONE then Inr (r, w3, h3)
          else (case sstable_data_block_create h3 SSTABLE_BLOCK_SIZE (sw_compression w3) of
              (fresh, h4) \<Rightarrow> Inr (if fresh = None then KV_ERR_MEM else KV_ERR_NONE, (advance_block w3 (length (db_data block)))\<lparr>sw_current_block := fresh\<rparr>, h4)))))"

definition writer_add_entry :: "sstable_writer \<Rightarrow> bytes \<Rightarrow> bytes option \<Rightarrow> nat \<Rightarrow> 64 word \<Rightarrow> bool \<Rightarrow> (int \<times> sstable_writer) outcome" where
  "writer_add_entry w key value_p value_len seq_num deleted =
     (case sw_current_block w of
        None \<Rightarrow> Inl NullDeref
      | Some block \<Rightarrow>
          obind (sstable_data_block_add_entry block (Some key) value_p value_len seq_num deleted) (\<lambda>(r, block1).
            if r \<noteq> KV_ERR_NONE then Inr (r, w)
            else obind (sstable_bloom_filter_add (sw_bloom_filter w) (Some key)) (\<lambda>bloom.
              Inr (KV_ERR_NONE, w\<lparr>sw_current_block := Some block1, sw_bloom_filter := bloom, sw_entry_count := sw_entry_count w + 1,
                sw_min_seq_num := (if seq_num < sw_min_seq_num w then seq_num else sw_min_seq_num w),
                sw_max_seq_num := (if seq_num > sw_max_seq_num w then seq_num else sw_max_seq_num w)\<rparr>))))"

definition sstable_writer_put ::
  "script \<Rightarrow> sstable_writer \<Rightarrow> bytes option \<Rightarrow> bytes option \<Rightarrow> nat \<Rightarrow> 64 word \<Rightarrow> bool \<Rightarrow> (int \<times> sstable_writer \<times> script) outcome" where
  "sstable_writer_put h w key_p value_p value_len seq_num deleted =
     (case key_p of
        None \<Rightarrow> Inr (KV_ERR_PARAM, w, h)
      | Some key \<Rightarrow>
          if sw_finalized w then Inr (KV_ERR_PARAM, w, h)
          else (case sw_current_block w of
            None \<Rightarrow> Inl NullDeref
          | Some block \<Rightarrow>
              obind (if length (db_data block) + (4 + 4 + 8 + 1 + length key + value_len) > db_capacity block
                     then put_flush h w block else Inr (KV_ERR_NONE, w, h)) (\<lambda>(r, w1, h1).
                if r \<noteq> KV_ERR_NONE then Inr (r, w1, h1)
                else obind (writer_add_entry w1 key value_p value_len seq_num deleted) (\<lambda>(r2, w2). Inr (r2, w2, h1)))))"

text \<open>The last block, when it has entries: first the index, then the file.\<close>

definition last_flush :: "script \<Rightarrow> sstable_writer \<Rightarrow> sstable_data_block \<Rightarrow> (int \<times> sstable_writer \<times> script) outcome" where
  "last_flush h w block0 =
     (if bk_entry_count (db_header block0) = 0 then Inr (KV_ERR_NONE, w, h)
      else (let block = snd (sstable_data_block_finalize block0) in
        obind (index_block_entry h (w\<lparr>sw_current_block := Some block\<rparr>) (db_data block)) (\<lambda>(r, w1, h1).
          if r \<noteq> KV_ERR_NONE then Inr (r, w1, h1)
          else (let (ok2, w2, h2) = fwrite h1 (header_bytes (db_header block)) w1 in
            if \<not> ok2 then Inr (KV_ERR_FILE, w2, h2)
            else (let (ok3, w3, h3) = fwrite h2 (db_data block) w2 in
              if \<not> ok3 then Inr (KV_ERR_FILE, w3, h3)
              else Inr (KV_ERR_NONE, advance_block w3 (length (db_data block)), h3))))))"

definition index_block_size :: "sstable_index_entry list \<Rightarrow> nat" where
  "index_block_size es = (\<Sum>e\<leftarrow>es. 4 + 8 + 4 + 8 + ix_key_len e)"

definition write_index :: "script \<Rightarrow> sstable_writer \<Rightarrow> (int \<times> nat \<times> sstable_writer \<times> script) outcome" where
  "write_index h w =
     (let es = ib_entries (sw_index_block w); (ok, h1) = malloc h in
      if \<not> ok then Inr (KV_ERR_MEM, 0, w, h1)
      else obind (serialize_index (max 1 (index_block_size es)) es) (\<lambda>buf.
        (let header = (zero_header SSTABLE_BLOCK_INDEX)\<lparr>bk_entry_count := of_nat (length es), bk_uncompressed_size := of_nat (length buf),
                        bk_compressed_size := of_nat (length buf), bk_crc32 := sstable_crc32 buf\<rparr>;
             (ok2, w2, h2) = fwrite h1 (header_bytes header) w in
         if \<not> ok2 then Inr (KV_ERR_FILE, 0, w2, h2)
         else (let (ok3, w3, h3) = (if buf = [] then (True, w2, h2) else fwrite h2 buf w2) in
           if \<not> ok3 then Inr (KV_ERR_FILE, 0, w3, h3)
           else Inr (KV_ERR_NONE, length buf, w3\<lparr>sw_file_offset := sw_file_offset w3 + of_nat HEADER_BYTES + of_nat (length buf)\<rparr>, h3)))))"

definition write_bloom :: "script \<Rightarrow> sstable_writer \<Rightarrow> (int \<times> nat \<times> sstable_writer \<times> script) outcome" where
  "write_bloom h w =
     (let bloom = sw_bloom_filter w; bloom_size = unat (byte_count (sb_bit_count bloom)) in
      obind (copy_out bloom_size (sb_bits bloom)) (\<lambda>bits.
        (let header = (zero_header SSTABLE_BLOCK_BLOOM)\<lparr>bk_entry_count := of_nat (sb_hash_count bloom), bk_uncompressed_size := of_nat bloom_size,
                        bk_compressed_size := of_nat bloom_size, bk_crc32 := sstable_crc32 bits, bk_reserved := ucast (sb_bit_count bloom)\<rparr>;
             (ok1, w1, h1) = fwrite h (header_bytes header) w in
         if \<not> ok1 then Inr (KV_ERR_FILE, 0, w1, h1)
         else (let (ok2, w2, h2) = fwrite h1 bits w1 in
           if \<not> ok2 then Inr (KV_ERR_FILE, 0, w2, h2)
           else Inr (KV_ERR_NONE, bloom_size, w2\<lparr>sw_file_offset := sw_file_offset w2 + of_nat HEADER_BYTES + of_nat bloom_size\<rparr>, h2)))))"

definition write_footer :: "script \<Rightarrow> sstable_writer \<Rightarrow> 64 word \<Rightarrow> nat \<Rightarrow> 64 word \<Rightarrow> nat \<Rightarrow> int \<times> sstable_writer \<times> script" where
  "write_footer h w index_offset index_size bloom_offset bloom_size =
     (let footer = \<lparr>ft_magic_number = SSTABLE_MAGIC_NUMBER, ft_version = SSTABLE_VERSION, ft_index_offset = index_offset,
                     ft_index_size = of_nat HEADER_BYTES + of_nat index_size, ft_bloom_offset = bloom_offset,
                     ft_bloom_size = of_nat HEADER_BYTES + of_nat bloom_size, ft_min_seq_num = sw_min_seq_num w,
                     ft_max_seq_num = sw_max_seq_num w, ft_entry_count = sw_entry_count w, ft_crc32 = 0\<rparr>;
          footer = footer\<lparr>ft_crc32 := sstable_crc32 (take (FOOTER_BYTES - 4) (footer_bytes footer))\<rparr>;
          (ok1, w1, h1) = fwrite h (footer_bytes footer) w in
      if \<not> ok1 then (KV_ERR_FILE, w1, h1)
      else (let (ok2, h2) = malloc h1 in
        if \<not> ok2 then (KV_ERR_FILE, w1, h2)
        else (KV_ERR_NONE, w1\<lparr>sw_finalized := True, sw_stats := (sw_stats w1)\<lparr>ss_total_entries := sw_entry_count w1,
                ss_file_size := sw_file_offset w1 + of_nat FOOTER_BYTES, ss_compression := sw_compression w1\<rparr>\<rparr>, h2)))"

definition sstable_writer_finalize :: "script \<Rightarrow> sstable_writer \<Rightarrow> (int \<times> sstable_writer \<times> script) outcome" where
  "sstable_writer_finalize h w =
     (if sw_finalized w then Inr (KV_ERR_PARAM, w, h)
      else (case sw_current_block w of
        None \<Rightarrow> Inl NullDeref
      | Some block \<Rightarrow>
          obind (last_flush h w block) (\<lambda>(r, w1, h1).
            if r \<noteq> KV_ERR_NONE then Inr (r, w1, h1)
            else obind (write_index h1 w1) (\<lambda>(r2, index_size, w2, h2).
              if r2 \<noteq> KV_ERR_NONE then Inr (r2, w2, h2)
              else obind (write_bloom h2 w2) (\<lambda>(r3, bloom_size, w3, h3).
                if r3 \<noteq> KV_ERR_NONE then Inr (r3, w3, h3)
                else Inr (write_footer h3 w3 (sw_file_offset w1) index_size (sw_file_offset w2) bloom_size))))))"


text \<open>\<open>%06lu\<close> pads with zeros to six digits. The result and the text, when it fits.\<close>

definition sstable_format_filename :: "nat \<Rightarrow> string option \<Rightarrow> int \<Rightarrow> 64 word \<Rightarrow> int \<times> string" where
  "sstable_format_filename buffer_size dir level file_id =
     (case dir of
        None \<Rightarrow> (KV_ERR_PARAM, [])
      | Some d \<Rightarrow>
          (let num = print_dec (unat file_id);
               s = d @ ''/level-'' @ (if level < 0 then ''-'' else []) @ print_dec (nat \<bar>level\<bar>) @ ''-'' @ replicate (6 - length num) (CHR ''0'') @ num @ ''.sst'' in
           if length s \<ge> buffer_size then (KV_ERR_PARAM, take (buffer_size - 1) s) else (KV_ERR_NONE, s)))"

text \<open>The loop over the memtable; the fuel bounds its rounds, and one more than the entries is enough.\<close>

fun flush_loop :: "nat \<Rightarrow> script \<Rightarrow> int \<Rightarrow> lsm_memtable_iterator \<Rightarrow> sstable_writer \<Rightarrow> (int \<times> sstable_writer \<times> script) outcome" where
  "flush_loop 0 h r it w = Inl OutOfFuel"
| "flush_loop (Suc fuel) h r it w =
     (if r \<noteq> KV_ERR_NONE \<or> \<not> lsm_memtable_iterator_valid it then Inr (r, w, h)
      else (case lsm_memtable_iterator_current it of
        (r1, None) \<Rightarrow> Inr (r1, w, h)
      | (r1, Some e) \<Rightarrow>
          obind (sstable_writer_put h w (Some (ekey e)) (evalue e) (evalue_len e) (eseq e) (edeleted e)) (\<lambda>(r2, w1, h1).
            if r2 \<noteq> KV_ERR_NONE then Inr (r2, w1, h1)
            else obind (lsm_memtable_iterator_next it) (\<lambda>(r3, it1). flush_loop fuel h1 r3 it1 w1))))"

text \<open>The result and the file that is left.\<close>

definition sstable_create_from_memtable ::
  "nat \<Rightarrow> script \<Rightarrow> lsm_memtable option \<Rightarrow> string option \<Rightarrow> sstable_compression \<Rightarrow> (int \<times> bytes option \<times> script) outcome" where
  "sstable_create_from_memtable fuel h mt_p filename compression =
     (case mt_p of
        None \<Rightarrow> Inr (KV_ERR_PARAM, None, h)
      | Some mt \<Rightarrow>
          if filename = None then Inr (KV_ERR_PARAM, None, h)
          else (case sstable_writer_create h filename compression of
              (None, h1) \<Rightarrow> Inr (KV_ERR_MEM, None, h1)
            | (Some w, h1) \<Rightarrow>
                (case lsm_memtable_iterator_create h1 True of
                   (None, h2) \<Rightarrow> Inr (KV_ERR_MEM, Some (sw_file w), h2)
                 | (Some it, h2) \<Rightarrow>
                     obind (lsm_memtable_iterator_seek_first mt it) (\<lambda>(r, it1).
                     obind (flush_loop fuel h2 r it1 w) (\<lambda>(r1, w1, h3).
                       if r1 \<noteq> KV_ERR_NONE then Inr (r1, Some (sw_file w1), h3)
                       else obind (sstable_writer_finalize h3 w1) (\<lambda>(r2, w2, h4). Inr (r2, Some (sw_file w2), h4)))))))"

section \<open>The reader\<close>

text \<open>\<open>fseek\<close> from the start takes a signed offset; \<open>fread\<close> of one item of \<open>n\<close> bytes.\<close>

definition seek_ok :: "64 word \<Rightarrow> bool" where
  "seek_ok off \<longleftrightarrow> unat off < 2 ^ 63"

definition fread :: "bytes \<Rightarrow> nat \<Rightarrow> nat \<Rightarrow> bytes option" where
  "fread file pos n = (if n = 0 \<or> length file < pos + n then None else Some (take n (drop pos file)))"

definition read_footer :: "bytes \<Rightarrow> sstable_footer option" where
  "read_footer file =
     (if length file < FOOTER_BYTES then None
      else (case fread file (length file - FOOTER_BYTES) FOOTER_BYTES of
        None \<Rightarrow> None
      | Some bs \<Rightarrow>
          (let footer = load_footer bs in
           if ft_crc32 footer \<noteq> sstable_crc32 (take (FOOTER_BYTES - 4) bs) then None
           else if ft_magic_number footer \<noteq> SSTABLE_MAGIC_NUMBER then None
           else if ft_version footer \<noteq> SSTABLE_VERSION then None
           else Some footer)))"

definition read_index :: "script \<Rightarrow> bytes \<Rightarrow> 64 word \<Rightarrow> (sstable_index_block option \<times> script) outcome" where
  "read_index h file offset =
     (if \<not> seek_ok offset then Inr (None, h)
      else (case fread file (unat offset) HEADER_BYTES of
        None \<Rightarrow> Inr (None, h)
      | Some bs \<Rightarrow>
          (let header = load_header bs; n = unat (bk_entry_count header); sz = unat (bk_uncompressed_size header) in
           (case sstable_index_block_create h n of
              (None, h1) \<Rightarrow> Inr (None, h1)
            | (Some ib, h1) \<Rightarrow>
                (let (ok, h2) = malloc h1 in
                 if \<not> ok then Inr (None, h2)
                 else (case fread file (unat offset + HEADER_BYTES) sz of
                   None \<Rightarrow> Inr (None, h2)
                 | Some buf \<Rightarrow>
                     if bk_crc32 header \<noteq> sstable_crc32 buf then Inr (None, h2)
                     else obind (deserialize_index h2 n 0 buf) (\<lambda>(es, h3). Inr (Some (ib\<lparr>ib_entries := es\<rparr>), h3))))))))"

definition read_bloom :: "script \<Rightarrow> bytes \<Rightarrow> 64 word \<Rightarrow> (sstable_bloom_filter \<times> nat) option \<times> script" where
  "read_bloom h file offset =
     (if \<not> seek_ok offset then (None, h)
      else (case fread file (unat offset) HEADER_BYTES of
        None \<Rightarrow> (None, h)
      | Some bs \<Rightarrow>
          (let header = load_header bs; sz = unat (bk_uncompressed_size header); (ok, h1) = all_ok 2 h in
           if \<not> ok then (None, h1)
           else (case fread file (unat offset + HEADER_BYTES) sz of
               None \<Rightarrow> (None, h1)
             | Some bits \<Rightarrow> (Some (\<lparr>sb_bits = bits, sb_bit_count = ucast (bk_reserved header), sb_hash_count = unat (bk_entry_count header)\<rparr>,
                                  unat offset + HEADER_BYTES + sz), h1)))))"

text \<open>\<open>file\<close> is the content of the file, \<open>None\<close> when it cannot be opened.\<close>

definition sstable_reader_create :: "script \<Rightarrow> bytes option \<Rightarrow> (sstable_reader option \<times> script) outcome" where
  "sstable_reader_create h file_p =
     (let (ok, h1) = malloc h in
      if \<not> ok then Inr (None, h1)
      else (case file_p of
        None \<Rightarrow> Inr (None, h1)
      | Some file \<Rightarrow>
          (case read_footer file of
             None \<Rightarrow> Inr (None, h1)
           | Some footer \<Rightarrow>
               obind (read_index h1 file (ft_index_offset footer)) (\<lambda>(ib_p, h2).
                 (case ib_p of
                    None \<Rightarrow> Inr (None, h2)
                  | Some ib \<Rightarrow>
                      (case read_bloom h2 file (ft_bloom_offset footer) of
                         (None, h3) \<Rightarrow> Inr (None, h3)
                       | (Some (bloom, pos), h3) \<Rightarrow>
                           (let (ok4, h4) = malloc h3 in
                            Inr (if ok4 then Some \<lparr>sr_file = file, sr_footer = footer, sr_index_block = ib, sr_bloom_filter = bloom,
                                   sr_stats = zero_sstable_stats\<lparr>ss_total_entries := ft_entry_count footer,
                                     ss_file_size := of_nat pos + of_nat FOOTER_BYTES\<rparr>\<rparr> else None, h4))))))))"

text \<open>The block whose entry in the index is chosen for a key: the first that is not below the key, otherwise the last.\<close>

fun find_block :: "bytes \<Rightarrow> sstable_index_entry list \<Rightarrow> sstable_index_entry option" where
  "find_block key [] = None"
| "find_block key [e] = Some e"
| "find_block key (e # es) = (if lsm_memtable_key_compare (Some key) (ix_key e) \<le> 0 then Some e else find_block key es)"

text \<open>A value handed out is a copy; the lengths and flags are set even when the copy could not be allocated.\<close>

definition hand_out :: "script \<Rightarrow> entry_fields \<Rightarrow> (bytes option \<times> nat \<times> 64 word \<times> bool) \<times> script" where
  "hand_out h e =
     (case ef_value e of
        None \<Rightarrow> ((None, 0, ef_seq_num e, ef_deleted e), h)
      | Some v \<Rightarrow> (let (ok, h1) = malloc h in ((if ok then Some v else None, length v, ef_seq_num e, ef_deleted e), h1)))"

fun search_block :: "script \<Rightarrow> nat \<Rightarrow> bytes \<Rightarrow> bytes \<Rightarrow> (int \<times> (bytes option \<times> nat \<times> 64 word \<times> bool) option \<times> script) outcome" where
  "search_block h 0 key data = Inr (KV_ERR_NOT_FOUND, None, h)"
| "search_block h (Suc n) key data =
     obind (deserialize_entry h data) (\<lambda>(p, h1).
       (case p of
          Unparsed \<Rightarrow> Inl Uninit
        | KeyMissing \<Rightarrow> Inl Uninit
        | KeyDangling \<Rightarrow> Inl UseAfterFree
        | Parsed k e \<Rightarrow>
            (let cmp = lsm_memtable_key_compare (Some key) (ef_key e) in
             if cmp = 0 then (let (res, h2) = hand_out h1 e in Inr (KV_ERR_NONE, Some res, h2))
             else if cmp < 0 then Inr (KV_ERR_NOT_FOUND, None, h1)
             else search_block h1 n key (drop k data))))"

definition sstable_reader_get ::
  "script \<Rightarrow> sstable_reader \<Rightarrow> bytes option \<Rightarrow> (int \<times> (bytes option \<times> nat \<times> 64 word \<times> bool) option \<times> script) outcome" where
  "sstable_reader_get h r key_p =
     (case key_p of
        None \<Rightarrow> Inr (KV_ERR_PARAM, None, h)
      | Some key \<Rightarrow>
          if key = [] then Inr (KV_ERR_PARAM, None, h)
          else obind (sstable_bloom_filter_may_contain (sr_bloom_filter r) (Some key)) (\<lambda>may.
            if \<not> may then Inr (KV_ERR_NOT_FOUND, None, h)
            else (case find_block key (ib_entries (sr_index_block r)) of
                None \<Rightarrow> Inr (KV_ERR_NOT_FOUND, None, h)
              | Some e \<Rightarrow>
                  if \<not> seek_ok (ix_offset e) then Inr (KV_ERR_FILE, None, h)
                  else (case fread (sr_file r) (unat (ix_offset e)) HEADER_BYTES of
                      None \<Rightarrow> Inr (KV_ERR_FILE, None, h)
                    | Some bs \<Rightarrow>
                        (let header = load_header bs; (ok, h1) = malloc h in
                         if \<not> ok then Inr (KV_ERR_MEM, None, h1)
                         else (case fread (sr_file r) (unat (ix_offset e) + HEADER_BYTES) (unat (bk_uncompressed_size header)) of
                             None \<Rightarrow> Inr (KV_ERR_FILE, None, h1)
                           | Some data \<Rightarrow>
                               if bk_crc32 header \<noteq> sstable_crc32 data then Inr (KV_ERR_FILE, None, h1)
                               else search_block h1 (unat (bk_entry_count header)) key data))))))"

definition sstable_reader_may_contain :: "sstable_reader \<Rightarrow> bytes option \<Rightarrow> bool outcome" where
  "sstable_reader_may_contain r key_p = sstable_bloom_filter_may_contain (sr_bloom_filter r) key_p"

definition sstable_reader_get_stats :: "sstable_reader \<Rightarrow> int \<times> sstable_stats" where
  "sstable_reader_get_stats r = (KV_ERR_NONE, sr_stats r)"

section \<open>The iterator\<close>

text \<open>The loading of blocks and the fields of the current entry are not implemented in the source; this is what there is.\<close>

record sstable_iterator =
  si_block_index :: nat
  si_entry_index :: "32 word"
  si_valid :: bool
  si_include_deleted :: bool

definition sstable_iterator_create :: "script \<Rightarrow> bool \<Rightarrow> sstable_iterator option \<times> script" where
  "sstable_iterator_create h incl =
     (let (ok, h1) = malloc h in
      (if ok then Some \<lparr>si_block_index = 0, si_entry_index = 0, si_valid = False, si_include_deleted = incl\<rparr> else None, h1))"

definition sstable_iterator_seek_first :: "sstable_reader \<Rightarrow> sstable_iterator \<Rightarrow> int \<times> sstable_iterator" where
  "sstable_iterator_seek_first r it =
     (KV_ERR_NONE, it\<lparr>si_block_index := 0, si_entry_index := 0, si_valid := (ib_entries (sr_index_block r) \<noteq> [])\<rparr>)"

definition sstable_iterator_next :: "sstable_iterator \<Rightarrow> int \<times> sstable_iterator" where
  "sstable_iterator_next it =
     (if \<not> si_valid it then (KV_ERR_PARAM, it) else (KV_ERR_NONE, it\<lparr>si_entry_index := si_entry_index it + 1\<rparr>))"

definition sstable_iterator_valid :: "sstable_iterator \<Rightarrow> bool" where
  "sstable_iterator_valid it = si_valid it"

definition sstable_iterator_current :: "sstable_iterator \<Rightarrow> int" where
  "sstable_iterator_current it = (if \<not> si_valid it then KV_ERR_PARAM else KV_ERR_NONE)"


end
