(* ===== verification/SSTable_CRC.thy ===== *)
theory SSTable_CRC
  imports SSTable
begin

text \<open>
  The checksum of the table files: the table-driven loop is the bitwise CRC-32, and a change of a single byte changes it.
\<close>

section \<open>The bitwise checksum\<close>

definition crc32_bitwise :: "bytes \<Rightarrow> 32 word" where
  "crc32_bitwise data = NOT (foldl (\<lambda>crc b. (crc_bit ^^ 8) (crc XOR ucast b)) (NOT 0) data)"

lemma crc_bit_alt: "crc_bit c = drop_bit 1 c XOR (if bit c 0 then 0xEDB88320 else 0)"
proof -
  have "c AND 1 \<noteq> 0 \<longleftrightarrow> bit c 0" by (metis bit_0_eq and_one_eq mod_2_eq_odd bit_0 of_bool_eq_0_iff)
  then show ?thesis by (simp add: crc_bit_def)
qed

lemma crc_bit_xor: "crc_bit (a XOR b) = crc_bit a XOR crc_bit b"
  by (simp add: crc_bit_alt bit_xor_iff drop_bit_xor ac_simps)

lemma crc_bits_xor: "(crc_bit ^^ n) (a XOR b) = (crc_bit ^^ n) a XOR (crc_bit ^^ n) b"
  by (induction n) (simp_all add: crc_bit_xor)

lemma crc_bits_high: "take_bit n c = 0 \<Longrightarrow> (crc_bit ^^ n) c = drop_bit n c"
proof (induction n)
  case (Suc n)
  have low: "\<not> bit c k" if "k \<le> n" for k
  proof -
    have "bit (take_bit (Suc n) c) k = bit c k" using that by (simp add: bit_take_bit_iff)
    then show ?thesis using Suc.prems by simp
  qed
  then have "take_bit n c = 0" by (intro bit_word_eqI) (auto simp: bit_take_bit_iff)
  with Suc.IH have "(crc_bit ^^ Suc n) c = crc_bit (drop_bit n c)" by simp
  also have "\<dots> = drop_bit (Suc n) c" using low[of n] by (simp add: crc_bit_alt bit_drop_bit_eq)
  finally show ?case .
qed simp

lemma crc_byte_bits: "crc_byte crc b = (crc_bit ^^ 8) (crc XOR ucast b)"
proof -
  define x where "x = crc XOR ucast b"
  have ff: "(0xFF :: 32 word) = mask 8" by (simp add: mask_eq_exp_minus_1)
  have low: "x AND 0xFF = take_bit 8 x" by (simp only: ff take_bit_eq_mask)
  then have "unat (x AND 0xFF) < 256" using take_bit_nat_less_exp[of 8 "unat x"] by (simp add: unsigned_take_bit_eq)
  then have t: "crc32_table ! unat (x AND 0xFF) = (crc_bit ^^ 8) (x AND 0xFF)" by (simp add: crc32_table_def)
  define y where "y = push_bit 8 (drop_bit 8 x)"
  have split: "x = (x AND 0xFF) XOR y" unfolding low y_def by (rule bit_word_eqI) (auto simp: bit_simps)
  have "(crc_bit ^^ 8) y = drop_bit 8 y" unfolding y_def by (rule crc_bits_high, rule bit_word_eqI) (auto simp: bit_simps)
  also have "\<dots> = drop_bit 8 crc"
    unfolding y_def x_def by (rule bit_word_eqI) (auto simp: bit_simps dest: bit_imp_le_length)
  finally have "(crc_bit ^^ 8) x = crc32_table ! unat (x AND 0xFF) XOR drop_bit 8 crc"
    by (subst split) (simp only: crc_bits_xor t)
  then show ?thesis by (simp add: crc_byte_def x_def)
qed

section \<open>Detection of changes\<close>

lemma xor_cancel: "(a :: 'a::len word) XOR c = b XOR c \<Longrightarrow> a = b"
proof -
  assume "a XOR c = b XOR c"
  then have "(a XOR c) XOR c = (b XOR c) XOR c" by (rule arg_cong)
  then show "a = b" by (simp add: xor.assoc)
qed

lemma crc_bit_zero: "crc_bit c = 0 \<Longrightarrow> c = 0"
proof -
  assume z: "crc_bit c = 0"
  have "bit (crc_bit c) 31 = bit c 0" by (auto simp: crc_bit_alt bit_simps dest: bit_imp_le_length)
  with z have b0: "\<not> bit c 0" by simp
  with z have d: "drop_bit 1 c = 0" by (simp add: crc_bit_alt)
  have "\<not> bit c n" for n
  proof (cases n)
    case (Suc k)
    have "bit (drop_bit 1 c) k = bit c n" by (simp add: Suc bit_drop_bit_eq)
    then show ?thesis using d by (simp only: bit_0_eq bot_apply bot_bool_def simp_thms)
  qed (use b0 in simp)
  then show "c = 0" by (intro bit_word_eqI) simp
qed

lemma crc_bit_inj: "crc_bit a = crc_bit b \<Longrightarrow> a = b"
proof -
  assume "crc_bit a = crc_bit b"
  then have "crc_bit (a XOR b) = 0" by (simp add: crc_bit_xor)
  then have "a XOR b = b XOR b" using crc_bit_zero by simp
  then show "a = b" by (rule xor_cancel)
qed

lemma crc_bits_inj: "(crc_bit ^^ n) a = (crc_bit ^^ n) b \<Longrightarrow> a = b"
  by (induction n) (auto dest: crc_bit_inj)

lemma crc_fold_inj: "foldl crc_byte a xs = foldl crc_byte b xs \<Longrightarrow> a = b"
proof (induction xs arbitrary: a b)
  case (Cons x xs)
  then have "crc_byte a x = crc_byte b x" by simp
  then show ?case unfolding crc_byte_bits by (rule xor_cancel[OF crc_bits_inj])
qed simp

lemma crc_byte_eq: "crc_byte a x = crc_byte b y \<Longrightarrow> (crc_bit ^^ 8) (a XOR ucast x) = (crc_bit ^^ 8) (b XOR ucast y)"
  by (simp only: crc_byte_bits)

lemma crc_one_byte:
  assumes "x \<noteq> y"
  shows "sstable_crc32 (pre @ x # post) \<noteq> sstable_crc32 (pre @ y # post)"
proof
  assume "sstable_crc32 (pre @ x # post) = sstable_crc32 (pre @ y # post)"
  then have "foldl crc_byte (crc_byte (foldl crc_byte 0xFFFFFFFF pre) x) post = foldl crc_byte (crc_byte (foldl crc_byte 0xFFFFFFFF pre) y) post"
    by (auto simp: sstable_crc32_def dest: xor_cancel)
  from crc_bits_inj[OF crc_byte_eq[OF crc_fold_inj[OF this]]]
  have "ucast x XOR foldl crc_byte 0xFFFFFFFF pre = ucast y XOR foldl crc_byte 0xFFFFFFFF pre" by (simp only: xor.commute)
  then have "(ucast x :: 32 word) = ucast y" by (rule xor_cancel)
  then have "(ucast (ucast x :: 32 word) :: 8 word) = ucast (ucast y :: 32 word)" by simp
  then have "x = y" by (simp add: ucast_up_ucast_id is_up)
  with assms show False by simp
qed

lemma crc_update:
  assumes "i < length data" "data ! i \<noteq> b"
  shows "sstable_crc32 (data[i := b]) \<noteq> sstable_crc32 data"
  using crc_one_byte[OF assms(2), of "take i data" "drop (Suc i) data"] id_take_nth_drop[OF assms(1)] upd_conv_take_nth_drop[OF assms(1), of b]
  by metis

section \<open>Properties\<close>

lemma crc_eight: "(crc_bit ^^ 8) c = crc_bit (crc_bit (crc_bit (crc_bit (crc_bit (crc_bit (crc_bit (crc_bit c)))))))"
  by (simp add: numeral_eq_Suc)

text \<open>
  C28: Equivalence. The checksum with its table of 256 entries is the bitwise CRC-32 on every input, and the check value of the standard comes out.
\<close>

theorem crc32_matches_bitwise:
  "sstable_crc32 data = crc32_bitwise data \<and> sstable_crc32 ([0x31, 0x32, 0x33, 0x34, 0x35, 0x36, 0x37, 0x38, 0x39]) = 0xCBF43926"
proof -
  have eq: "sstable_crc32 d = crc32_bitwise d" for d
  proof -
    have f: "crc_byte = (\<lambda>crc b. (crc_bit ^^ 8) (crc XOR ucast b))" by (intro ext) (rule crc_byte_bits)
    have ones: "(0xFFFFFFFF :: 32 word) = NOT 0" by simp
    show ?thesis unfolding sstable_crc32_def crc32_bitwise_def f ones by simp
  qed
  have "crc32_bitwise ([0x31, 0x32, 0x33, 0x34, 0x35, 0x36, 0x37, 0x38, 0x39]) = 0xCBF43926"
    by (simp add: crc32_bitwise_def crc_bit_def crc_eight)
  with eq show ?thesis by simp
qed

end
