(* ===== verification/SSTable_Write.thy ===== *)
theory SSTable_Write
  imports SSTable_CRC
begin

text \<open>
  The writer of the tables: the encoding of rows, the bytes of a finished table as a function of its blocks, and that the writer produces them.
\<close>

section \<open>Integers and rows\<close>

lemma length_words [simp]: "length (bytes32 w) = 4" "length (bytes64 v) = 8"
  by (simp_all add: bytes_explicit)

lemma load_bytes [simp]: "load32 (bytes32 w @ xs) = w" "load64 (bytes64 v @ xs) = v"
  by (simp_all only: bytes_explicit append.simps load32.simps load64.simps bytes32_word bytes64_word)

lemma load_bytes_only [simp]: "load32 (bytes32 w) = w" "load64 (bytes64 v) = v"
  using load_bytes(1)[of w "[]"] load_bytes(2)[of v "[]"] by simp_all

text \<open>What a table holds for a key.\<close>

record row =
  row_key :: bytes
  row_value :: bytes
  row_seq :: "64 word"
  row_deleted :: bool

definition enc :: "row \<Rightarrow> bytes" where
  "enc r = bytes32 (of_nat (length (row_key r))) @ bytes32 (of_nat (length (row_value r))) @ bytes64 (row_seq r) @
     [if row_deleted r then 1 else 0] @ row_key r @ row_value r"

lemma length_enc: "length (enc r) = 17 + length (row_key r) + length (row_value r)"
  by (simp add: enc_def)

definition row_ok :: "row \<Rightarrow> bool" where
  "row_ok r \<longleftrightarrow> row_key r \<noteq> [] \<and> 17 + length (row_key r) + length (row_value r) \<le> SSTABLE_BLOCK_SIZE"

definition fields_of :: "row \<Rightarrow> entry_fields" where
  "fields_of r = \<lparr>ef_key = Some (row_key r), ef_value = (if row_value r = [] then None else Some (row_value r)),
     ef_seq_num = row_seq r, ef_deleted = row_deleted r\<rparr>"

lemma unat_small: "n < 2 ^ 32 \<Longrightarrow> unat (of_nat n :: 32 word) = n"
  by (simp add: unsigned_of_nat take_bit_nat_eq_self)

lemma word_pos_iff: "n < 2 ^ 32 \<Longrightarrow> (of_nat n :: 32 word) > 0 \<longleftrightarrow> n > 0"
  by (simp add: word_less_nat_alt unat_small)

lemma parse_enc:
  assumes "row_ok r"
  shows "deserialize_entry [] (enc r @ rest) = Inr (Parsed (length (enc r)) (fields_of r), [])"
proof -
  let ?k = "length (row_key r)" and ?v = "length (row_value r)"
  have b: "?k < 2 ^ 32" "?v < 2 ^ 32" "17 + ?k + ?v < 2 ^ 32" "?k > 0" using assms by (auto simp: row_ok_def)
  have u: "unat (17 + of_nat ?k + of_nat ?v :: 32 word) = 17 + ?k + ?v" using b(3) unat_small[of "17 + ?k + ?v"] by simp
  define buf where "buf = enc r @ rest"
  have l: "load32 buf = of_nat ?k" "load32 (drop 4 buf) = of_nat ?v" "load64 (drop 8 buf) = row_seq r"
    "buf ! 16 = (if row_deleted r then 1 else 0)" "length buf = 17 + ?k + ?v + length rest"
    "drop 17 buf = row_key r @ row_value r @ rest" by (simp_all add: buf_def enc_def nth_append)
  have d: "drop (17 + ?k) buf = row_value r @ rest" using l(6) by (metis append_eq_conv_conj drop_drop add.commute)
  have "deserialize_entry [] buf = Inr (Parsed (17 + ?k + ?v) (fields_of r), [])"
    using b by (simp add: deserialize_entry_def Let_def l u d word_pos_iff unat_small fields_of_def copy_out_def)
  then show ?thesis by (simp add: buf_def length_enc)
qed

section \<open>Blocks\<close>

definition block_data :: "row list \<Rightarrow> bytes" where
  "block_data rows = concat (map enc rows)"

lemma block_data_simps [simp]:
  "block_data [] = []" "block_data (r # rs) = enc r @ block_data rs" "block_data (xs @ ys) = block_data xs @ block_data ys"
  by (simp_all add: block_data_def)

definition block_header :: "row list \<Rightarrow> sstable_block_header" where
  "block_header rows = \<lparr>bk_block_type = SSTABLE_BLOCK_DATA, bk_compressed_size = of_nat (length (block_data rows)),
     bk_uncompressed_size = of_nat (length (block_data rows)), bk_crc32 = sstable_crc32 (block_data rows),
     bk_entry_count = of_nat (length rows), bk_reserved = 0\<rparr>"

definition block_bytes :: "row list \<Rightarrow> bytes" where
  "block_bytes rows = header_bytes (block_header rows) @ block_data rows"

lemma length_header [simp]: "length (header_bytes hdr) = HEADER_BYTES"
  by (simp add: header_bytes_def)

lemma load_header_bytes [simp]: "load_header (header_bytes hdr @ xs) = hdr"
  by (cases hdr) (simp add: load_header_def header_bytes_def)

lemma length_footer [simp]: "length (footer_bytes ft) = FOOTER_BYTES"
  by (simp add: footer_bytes_def)

lemma load_footer_bytes [simp]: "load_footer (footer_bytes ft) = ft"
  by (cases ft) (simp add: load_footer_def footer_bytes_def)

text \<open>A block in the file: it has rows and they fit.\<close>

definition block_ok :: "row list \<Rightarrow> bool" where
  "block_ok rows \<longleftrightarrow> rows \<noteq> [] \<and> list_all row_ok rows \<and> length (block_data rows) \<le> SSTABLE_BLOCK_SIZE"

text \<open>The index of blocks that begin at an offset.\<close>

definition index_entry :: "nat \<Rightarrow> row list \<Rightarrow> sstable_index_entry" where
  "index_entry off rows = \<lparr>ix_key = Some (row_key (hd rows)), ix_key_len = length (row_key (hd rows)), ix_offset = of_nat off,
     ix_size = of_nat (HEADER_BYTES + length (block_data rows)), ix_seq_num = row_seq (hd rows)\<rparr>"

fun index_of_blocks :: "nat \<Rightarrow> row list list \<Rightarrow> sstable_index_entry list" where
  "index_of_blocks off [] = []"
| "index_of_blocks off (b # bs) = index_entry off b # index_of_blocks (off + length (block_bytes b)) bs"

definition blocks_bytes :: "row list list \<Rightarrow> bytes" where
  "blocks_bytes bs = concat (map block_bytes bs)"

lemma blocks_bytes_simps [simp]:
  "blocks_bytes [] = []" "blocks_bytes (b # bs) = block_bytes b @ blocks_bytes bs" "blocks_bytes (as @ bs) = blocks_bytes as @ blocks_bytes bs"
  by (simp_all add: blocks_bytes_def)

lemma index_append:
  "index_of_blocks off (as @ bs) = index_of_blocks off as @ index_of_blocks (off + length (blocks_bytes as)) bs"
  by (induction as arbitrary: off) (simp_all add: add.assoc)

lemma length_index [simp]: "length (index_of_blocks off bs) = length bs"
  by (induction bs arbitrary: off) simp_all

lemma length_block_bytes: "block_ok b \<Longrightarrow> length (block_bytes b) \<le> 4120"
  by (simp add: block_bytes_def block_ok_def)

lemma length_blocks_bytes: "list_all block_ok bs \<Longrightarrow> length (blocks_bytes bs) \<le> 4120 * length bs"
  by (induction bs) (auto dest: length_block_bytes)

section \<open>The writer\<close>

text \<open>The Bloom filter of a table passes a set of keys.\<close>

definition bloom_covers :: "sstable_bloom_filter \<Rightarrow> bytes set \<Rightarrow> bool" where
  "bloom_covers bloom keys \<longleftrightarrow> fits (sb_bits bloom) (sb_bit_count bloom) \<and> length (sb_bits bloom) = unat (byte_count (sb_bit_count bloom)) \<and>
     unat (sb_bit_count bloom) < 2 ^ 32 \<and> sb_hash_count bloom < 2 ^ 32 \<and>
     (\<forall>k\<in>keys. sstable_bloom_filter_may_contain bloom (Some k) = Inr True)"

lemma bloom_add_ok:
  assumes "bloom_covers bloom keys"
  shows "\<exists>bloom'. sstable_bloom_filter_add bloom (Some k) = Inr bloom' \<and> bloom_covers bloom' (insert k keys)"
proof -
  have fit: "fits (sb_bits bloom) (sb_bit_count bloom)" using assms by (simp add: bloom_covers_def)
  from set_bits_ok[OF fit, of "sstable_hashes bloom k"] obtain bits where
    b: "set_bits (sb_bits bloom) (sb_bit_count bloom) (sstable_hashes bloom k) = Inr bits" "length bits = length (sb_bits bloom)"
    "test_bits bits (sb_bit_count bloom) (sstable_hashes bloom k) = Inr True"
    "\<forall>ys. test_bits (sb_bits bloom) (sb_bit_count bloom) ys = Inr True \<longrightarrow> test_bits bits (sb_bit_count bloom) ys = Inr True" by blast
  have h: "sstable_hashes (bloom\<lparr>sb_bits := bits\<rparr>) = sstable_hashes bloom" by (simp add: sstable_hashes_def fun_eq_iff)
  show ?thesis using assms b
    by (intro exI[of _ "bloom\<lparr>sb_bits := bits\<rparr>"]) (simp add: sstable_bloom_filter_add_def bloom_covers_def sstable_bloom_filter_may_contain_def h fits_def)
qed

text \<open>Blocks \<open>bs\<close> are in the file and rows \<open>cur\<close> in the block being filled.\<close>

definition writer_inv :: "sstable_writer \<Rightarrow> row list list \<Rightarrow> row list \<Rightarrow> bool" where
  "writer_inv w bs cur \<longleftrightarrow> \<not> sw_finalized w \<and> list_all block_ok bs \<and> list_all row_ok cur \<and> length (block_data cur) \<le> SSTABLE_BLOCK_SIZE \<and>
     length bs \<le> 1024 \<and> sw_file w = blocks_bytes bs \<and> sw_file_offset w = of_nat (length (blocks_bytes bs)) \<and>
     ib_entries (sw_index_block w) = index_of_blocks 0 bs \<and> ib_capacity (sw_index_block w) = 1024 \<and>
     bloom_covers (sw_bloom_filter w) (row_key ` set (concat bs @ cur)) \<and>
     (\<exists>block. sw_current_block w = Some block \<and> db_data block = block_data cur \<and> db_capacity block = SSTABLE_BLOCK_SIZE \<and>
        bk_block_type (db_header block) = SSTABLE_BLOCK_DATA \<and> bk_reserved (db_header block) = 0 \<and>
        bk_entry_count (db_header block) = of_nat (length cur))"

text \<open>How rows are packed into blocks.\<close>

fun pack_row :: "row list list \<times> row list \<Rightarrow> row \<Rightarrow> row list list \<times> row list" where
  "pack_row (bs, cur) r = (if length (block_data cur) + length (enc r) > SSTABLE_BLOCK_SIZE then (bs @ [cur], [r]) else (bs, cur @ [r]))"

lemma fwrite_Nil [simp]: "bs \<noteq> [] \<Longrightarrow> fwrite [] bs w = (True, w\<lparr>sw_file := sw_file w @ bs\<rparr>, [])"
  by (simp add: fwrite_def)

lemma header_not_Nil [simp]: "header_bytes hdr \<noteq> []" "footer_bytes ft \<noteq> []"
  by (metis length_header list.size(3) zero_neq_numeral) (metis length_footer list.size(3) zero_neq_numeral)

lemma finalize_header:
  "bk_block_type (db_header block) = SSTABLE_BLOCK_DATA \<Longrightarrow> bk_reserved (db_header block) = 0 \<Longrightarrow>
   bk_entry_count (db_header block) = of_nat (length cur) \<Longrightarrow> db_data block = block_data cur \<Longrightarrow>
   db_header (snd (sstable_data_block_finalize block)) = block_header cur \<and> db_data (snd (sstable_data_block_finalize block)) = block_data cur"
  by (simp add: sstable_data_block_finalize_def block_header_def)

lemma index_block_entry_ok:
  assumes "row_ok r" "cur = r # rs" "length (ib_entries (sw_index_block w)) < ib_capacity (sw_index_block w)" "sw_file_offset w = of_nat off"
  shows "index_block_entry [] w (block_data cur) =
    Inr (KV_ERR_NONE, w\<lparr>sw_index_block := (sw_index_block w)\<lparr>ib_entries := ib_entries (sw_index_block w) @ [index_entry off cur]\<rparr>\<rparr>, [])"
  using assms parse_enc[OF assms(1), of "block_data rs"]
  by (simp add: index_block_entry_def length_enc fields_of_def sstable_index_block_add_entry_def index_entry_def)

lemma put_flush_ok:
  assumes inv: "writer_inv w bs cur" and cur: "cur \<noteq> []" and n: "length bs < 1024" and b: "sw_current_block w = Some block"
  shows "\<exists>w'. put_flush [] w block = Inr (KV_ERR_NONE, w', []) \<and> writer_inv w' (bs @ [cur]) []"
proof -
  obtain r rs where rs: "cur = r # rs" using cur by (cases cur) auto
  have i: "list_all row_ok cur" "row_ok r" "length (block_data cur) \<le> SSTABLE_BLOCK_SIZE" "db_data block = block_data cur" "block_data cur \<noteq> []"
    using inv b rs by (auto simp: writer_inv_def enc_def)
  have f: "db_header (snd (sstable_data_block_finalize block)) = block_header cur" "db_data (snd (sstable_data_block_finalize block)) = block_data cur"
    using finalize_header[of block cur] inv b by (auto simp: writer_inv_def)
  define w1 where "w1 = w\<lparr>sw_current_block := Some (snd (sstable_data_block_finalize block)), sw_file := sw_file w @ header_bytes (block_header cur) @ block_data cur\<rparr>"
  have "index_block_entry [] w1 (block_data cur) = Inr (KV_ERR_NONE,
      w1\<lparr>sw_index_block := (sw_index_block w1)\<lparr>ib_entries := ib_entries (sw_index_block w1) @ [index_entry (length (blocks_bytes bs)) cur]\<rparr>\<rparr>, [])"
    using inv n by (intro index_block_entry_ok[OF i(2) rs]) (simp_all add: writer_inv_def w1_def)
  then show ?thesis using inv n i(1,3,5) f cur
    by (simp add: put_flush_def Let_def w1_def sstable_data_block_create_def advance_block_def)
      (simp add: writer_inv_def zero_header_def index_append block_ok_def block_bytes_def)
qed


lemma writer_add_entry_ok:
  assumes inv: "writer_inv w bs cur" and r: "row_ok r" and fit: "length (block_data cur) + length (enc r) \<le> SSTABLE_BLOCK_SIZE"
    and v: "read_buf vp (length (row_value r)) = Inr (row_value r)"
  shows "\<exists>w'. writer_add_entry w (row_key r) vp (length (row_value r)) (row_seq r) (row_deleted r) = Inr (KV_ERR_NONE, w') \<and> writer_inv w' bs (cur @ [r])"
proof -
  obtain block where b: "sw_current_block w = Some block" "db_data block = block_data cur" "db_capacity block = SSTABLE_BLOCK_SIZE"
    "bk_block_type (db_header block) = SSTABLE_BLOCK_DATA" "bk_reserved (db_header block) = 0" "bk_entry_count (db_header block) = of_nat (length cur)"
    using inv by (auto simp: writer_inv_def)
  have "bloom_covers (sw_bloom_filter w) (row_key ` set (concat bs @ cur))" using inv by (simp add: writer_inv_def)
  from bloom_add_ok[OF this, of "row_key r"] obtain bloom where
    bl: "sstable_bloom_filter_add (sw_bloom_filter w) (Some (row_key r)) = Inr bloom" "bloom_covers bloom (insert (row_key r) (row_key ` set (concat bs @ cur)))"
    by blast
  have "serialize_entry (SSTABLE_BLOCK_SIZE - length (block_data cur)) (row_key r) vp (length (row_value r)) (row_seq r) (row_deleted r) =
      Inr (int (length (enc r)), enc r)"
    using fit v by (simp add: serialize_entry_def length_enc) (simp add: enc_def)
  then have "sstable_data_block_add_entry block (Some (row_key r)) vp (length (row_value r)) (row_seq r) (row_deleted r) =
      Inr (KV_ERR_NONE, block\<lparr>db_data := db_data block @ enc r,
        db_header := (db_header block)\<lparr>bk_entry_count := bk_entry_count (db_header block) + 1\<rparr>\<rparr>)"
    using fit b by (simp add: sstable_data_block_add_entry_def length_enc)
  moreover have "row_key ` set (concat bs @ cur @ [r]) = insert (row_key r) (row_key ` set (concat bs @ cur))" by auto
  ultimately show ?thesis using inv r fit b bl
    by (simp add: writer_add_entry_def) (simp add: writer_inv_def add.commute)
qed

lemma writer_put_ok:
  assumes inv: "writer_inv w bs cur" and r: "row_ok r" and n: "length bs < 1024" and v: "read_buf vp (length (row_value r)) = Inr (row_value r)"
    and p: "pack_row (bs, cur) r = (bs', cur')"
  shows "\<exists>w'. sstable_writer_put [] w (Some (row_key r)) vp (length (row_value r)) (row_seq r) (row_deleted r) = Inr (KV_ERR_NONE, w', []) \<and>
    writer_inv w' bs' cur'"
proof -
  obtain block where b: "sw_current_block w = Some block" "db_data block = block_data cur" "db_capacity block = SSTABLE_BLOCK_SIZE" "\<not> sw_finalized w"
    using inv by (auto simp: writer_inv_def)
  have small: "length (enc r) \<le> SSTABLE_BLOCK_SIZE" using r by (simp add: row_ok_def length_enc)
  show ?thesis
  proof (cases "length (block_data cur) + length (enc r) > SSTABLE_BLOCK_SIZE")
    case True
    then have "cur \<noteq> []" using small by auto
    from put_flush_ok[OF inv this n b(1)] obtain w1 where w1: "put_flush [] w block = Inr (KV_ERR_NONE, w1, [])" "writer_inv w1 (bs @ [cur]) []" by blast
    from writer_add_entry_ok[OF w1(2) r _ v] small obtain w2 where
      "writer_add_entry w1 (row_key r) vp (length (row_value r)) (row_seq r) (row_deleted r) = Inr (KV_ERR_NONE, w2)" "writer_inv w2 (bs @ [cur]) [r]" by auto
    with True b w1 p show ?thesis by (auto simp: sstable_writer_put_def length_enc)
  next
    case False
    with writer_add_entry_ok[OF inv r _ v] obtain w2 where
      "writer_add_entry w (row_key r) vp (length (row_value r)) (row_seq r) (row_deleted r) = Inr (KV_ERR_NONE, w2)" "writer_inv w2 bs (cur @ [r])" by auto
    with False b p show ?thesis by (auto simp: sstable_writer_put_def length_enc)
  qed
qed

lemma pack_row_keeps:
  "pack_row (bs, cur) r = (bs', cur') \<Longrightarrow> concat bs' @ cur' = concat bs @ cur @ [r] \<and> cur' \<noteq> [] \<and> length bs' \<le> Suc (length bs)"
  by (auto split: if_splits)

text \<open>The writer starts empty.\<close>

lemma ln2_bounds: "1 / 2 \<le> ln (2 :: real)" "ln (2 :: real) \<le> 1"
  using ln_le_minus_one[of "1 / 2 :: real"] ln_le_minus_one[of "2 :: real"] by (simp_all add: ln_div)

lemma bloom_create_ok: "\<exists>bloom. sstable_bloom_filter_create [] 10000 100 = (Some bloom, []) \<and> bloom_covers bloom {}"
proof -
  define m where "m = - 10000 * ln (100 / 10000 :: real) / (ln 2 * ln 2)"
  define k where "k = m / 10000 * ln 2"
  have l: "ln (100 / 10000 :: real) = - (2 * ln 10)" using ln_realpow[of 10 2] by (simp add: ln_div)
  have l10: "1 \<le> ln (10 :: real)" "ln (10 :: real) \<le> 7 / 3" using ln_10_bound ln_ge_iff[of 10 1] exp_le by auto
  have m: "m = 20000 * ln 10 / (ln 2 * ln 2)" unfolding m_def l by simp
  have sq: "1 / 4 \<le> ln (2 :: real) * ln 2" "ln (2 :: real) * ln 2 \<le> 1" using mult_mono[OF ln2_bounds(1) ln2_bounds(1)] mult_mono[OF ln2_bounds(2) ln2_bounds(2)] by auto
  have "m \<le> 20000 * (7 / 3) / (1 / 4)" unfolding m using sq l10 by (intro frac_le mult_mono) auto
  then have hi: "m \<le> 190000" by simp
  have "20000 * 1 / 1 \<le> m" unfolding m using sq l10 by (intro frac_le mult_mono) auto
  then have lo: "20000 \<le> m" by simp
  have "k \<le> m / 10000 * 1" unfolding k_def using ln2_bounds lo by (intro mult_left_mono) auto
  then have kh: "k \<le> 19" using hi by simp
  define bits where "bits = nat \<lceil>m\<rceil>"
  have b: "20000 \<le> bits" "bits \<le> 190000" using lo hi by (simp_all add: bits_def le_nat_iff nat_le_iff le_ceiling_iff ceiling_le_iff)
  have u: "unat (of_nat bits :: 64 word) = bits" using b by (simp add: unsigned_of_nat take_bit_nat_eq_self)
  then have ne: "(of_nat bits :: 64 word) \<noteq> 0" using b(1) by (metis not_numeral_le_zero unat_0)
  have "fits (replicate (unat (byte_count (of_nat bits))) 0) (of_nat bits)" using byte_count_fits[OF ne] u b by simp
  moreover have "nat (round k) < 2 ^ 32" using kh round_mono[OF kh] by (simp add: nat_less_iff)
  moreover have "sstable_bloom_filter_create [] 10000 100 = (Some \<lparr>sb_bits = replicate (unat (byte_count (of_nat bits))) 0, sb_bit_count = of_nat bits,
      sb_hash_count = (if nat (round k) = 0 then 1 else nat (round k))\<rparr>, [])"
    unfolding sstable_bloom_filter_create_def bits_def k_def m_def by (simp add: Let_def)
  ultimately show ?thesis using u b by (simp add: bloom_covers_def)
qed


lemma writer_create_ok:
  "name \<noteq> [] \<Longrightarrow> \<exists>w. sstable_writer_create [] (Some name) cm = (Some w, []) \<and> writer_inv w [] [] \<and> sw_entry_count w = 0"
  using bloom_create_ok
  by (auto simp: sstable_writer_create_def sstable_data_block_create_def sstable_index_block_create_def writer_inv_def zero_header_def)

section \<open>The finished table\<close>

definition index_bytes :: "sstable_index_entry list \<Rightarrow> bytes" where
  "index_bytes es = concat (map (\<lambda>e. bytes32 (of_nat (ix_key_len e)) @ bytes64 (ix_offset e) @ bytes32 (ix_size e) @ bytes64 (ix_seq_num e) @
     (case ix_key e of None \<Rightarrow> [] | Some key \<Rightarrow> take (ix_key_len e) key)) es)"

definition index_ok :: "sstable_index_entry \<Rightarrow> bool" where
  "index_ok e \<longleftrightarrow> (\<exists>key. ix_key e = Some key \<and> length key = ix_key_len e \<and> key \<noteq> [] \<and> length key \<le> SSTABLE_BLOCK_SIZE)"

lemma index_bytes_simps [simp]:
  "index_bytes [] = []"
  "index_bytes (e # es) = bytes32 (of_nat (ix_key_len e)) @ bytes64 (ix_offset e) @ bytes32 (ix_size e) @ bytes64 (ix_seq_num e) @
     (case ix_key e of None \<Rightarrow> [] | Some key \<Rightarrow> take (ix_key_len e) key) @ index_bytes es"
  by (simp_all add: index_bytes_def)

lemma index_size_simps [simp]:
  "index_block_size [] = 0" "index_block_size (e # es) = 24 + ix_key_len e + index_block_size es"
  by (simp_all add: index_block_size_def)

lemma serialize_index_ok:
  "list_all index_ok es \<Longrightarrow> index_block_size es \<le> room \<Longrightarrow> serialize_index room es = Inr (index_bytes es) \<and> length (index_bytes es) = index_block_size es"
proof (induction es arbitrary: room)
  case (Cons e es)
  from Cons.prems(1) obtain key where k: "ix_key e = Some key" "length key = ix_key_len e" by (auto simp: index_ok_def)
  with Cons.IH[of "room - (24 + ix_key_len e)"] Cons.prems show ?case by (simp add: serialize_index_entry_def)
qed simp

lemma index_of_blocks_ok: "list_all block_ok bs \<Longrightarrow> list_all index_ok (index_of_blocks off bs)"
proof (induction bs arbitrary: off)
  case (Cons b bs)
  then have "row_ok (hd b)" by (cases b) (auto simp: block_ok_def)
  with Cons show ?case by (simp add: index_ok_def index_entry_def row_ok_def)
qed simp

lemma index_size_bound: "list_all index_ok es \<Longrightarrow> index_block_size es \<le> 4120 * length es"
  by (induction es) (auto simp: index_ok_def)

definition index_header :: "sstable_index_entry list \<Rightarrow> sstable_block_header" where
  "index_header es = (zero_header SSTABLE_BLOCK_INDEX)\<lparr>bk_entry_count := of_nat (length es), bk_uncompressed_size := of_nat (length (index_bytes es)),
     bk_compressed_size := of_nat (length (index_bytes es)), bk_crc32 := sstable_crc32 (index_bytes es)\<rparr>"

definition bloom_header :: "sstable_bloom_filter \<Rightarrow> sstable_block_header" where
  "bloom_header bloom = (zero_header SSTABLE_BLOCK_BLOOM)\<lparr>bk_entry_count := of_nat (sb_hash_count bloom),
     bk_uncompressed_size := of_nat (length (sb_bits bloom)), bk_compressed_size := of_nat (length (sb_bits bloom)),
     bk_crc32 := sstable_crc32 (sb_bits bloom), bk_reserved := ucast (sb_bit_count bloom)\<rparr>"

text \<open>The part of a table before its footer, and the offsets in it.\<close>

definition bloom_start :: "row list list \<Rightarrow> nat" where
  "bloom_start bs = length (blocks_bytes bs) + HEADER_BYTES + length (index_bytes (index_of_blocks 0 bs))"

definition body_bytes :: "row list list \<Rightarrow> sstable_bloom_filter \<Rightarrow> bytes" where
  "body_bytes bs bloom = blocks_bytes bs @ header_bytes (index_header (index_of_blocks 0 bs)) @ index_bytes (index_of_blocks 0 bs) @
     header_bytes (bloom_header bloom) @ sb_bits bloom"

text \<open>A footer that belongs to the table.\<close>

definition footer_for :: "row list list \<Rightarrow> sstable_footer \<Rightarrow> bool" where
  "footer_for bs ft \<longleftrightarrow> ft_magic_number ft = SSTABLE_MAGIC_NUMBER \<and> ft_version ft = SSTABLE_VERSION \<and>
     ft_index_offset ft = of_nat (length (blocks_bytes bs)) \<and> ft_bloom_offset ft = of_nat (bloom_start bs) \<and>
     ft_crc32 ft = sstable_crc32 (take 56 (footer_bytes ft))"

lemma footer_crc: "take 56 (footer_bytes (ft\<lparr>ft_crc32 := c\<rparr>)) = take 56 (footer_bytes ft)"
  by (simp add: footer_bytes_def)


lemma last_flush_ok:
  assumes inv: "writer_inv w bs cur" and cur: "cur \<noteq> []" and n: "length bs < 1024" and b: "sw_current_block w = Some block"
    and len: "length cur < 2 ^ 32"
  shows "\<exists>w'. last_flush [] w block = Inr (KV_ERR_NONE, w', []) \<and> sw_file w' = blocks_bytes (bs @ [cur]) \<and>
    sw_file_offset w' = of_nat (length (blocks_bytes (bs @ [cur]))) \<and> ib_entries (sw_index_block w') = index_of_blocks 0 (bs @ [cur]) \<and>
    sw_bloom_filter w' = sw_bloom_filter w \<and> list_all block_ok (bs @ [cur])"
proof -
  obtain r rs where rs: "cur = r # rs" using cur by (cases cur) auto
  have i: "list_all row_ok cur" "row_ok r" "length (block_data cur) \<le> SSTABLE_BLOCK_SIZE" "block_data cur \<noteq> []"
    using inv b rs by (auto simp: writer_inv_def enc_def)
  have f: "db_header (snd (sstable_data_block_finalize block)) = block_header cur" "db_data (snd (sstable_data_block_finalize block)) = block_data cur"
    using finalize_header[of block cur] inv b by (auto simp: writer_inv_def)
  have "unat (of_nat (length cur) :: 32 word) \<noteq> 0" using len cur by (simp add: unat_small)
  then have "bk_entry_count (db_header block) \<noteq> 0" using inv b by (auto simp: writer_inv_def)
  moreover define w1 where "w1 = w\<lparr>sw_current_block := Some (snd (sstable_data_block_finalize block))\<rparr>"
  moreover have "index_block_entry [] w1 (block_data cur) = Inr (KV_ERR_NONE,
      w1\<lparr>sw_index_block := (sw_index_block w1)\<lparr>ib_entries := ib_entries (sw_index_block w1) @ [index_entry (length (blocks_bytes bs)) cur]\<rparr>\<rparr>, [])"
    using inv n by (intro index_block_entry_ok[OF i(2) rs]) (simp_all add: writer_inv_def w1_def)
  ultimately show ?thesis using inv i f cur
    by (simp add: last_flush_def Let_def advance_block_def) (simp add: writer_inv_def index_append block_ok_def block_bytes_def)
qed

lemma write_index_ok:
  assumes "sw_file w = blocks_bytes bs" "sw_file_offset w = of_nat (length (blocks_bytes bs))"
    "ib_entries (sw_index_block w) = index_of_blocks 0 bs" "list_all block_ok bs"
  shows "\<exists>n w'. write_index [] w = Inr (KV_ERR_NONE, n, w', []) \<and>
    sw_file w' = blocks_bytes bs @ header_bytes (index_header (index_of_blocks 0 bs)) @ index_bytes (index_of_blocks 0 bs) \<and>
    sw_file_offset w' = of_nat (bloom_start bs) \<and> sw_bloom_filter w' = sw_bloom_filter w"
proof -
  let ?es = "index_of_blocks 0 bs"
  note ok = index_of_blocks_ok[OF assms(4), of 0]
  from serialize_index_ok[OF ok, of "max 1 (index_block_size ?es)"] have "serialize_index (max 1 (index_block_size ?es)) ?es = Inr (index_bytes ?es)" by simp
  then show ?thesis using assms(1-3)
    by (cases "index_bytes ?es = []") (simp_all add: write_index_def Let_def bloom_start_def index_header_def)
qed

lemma write_bloom_ok:
  assumes "sw_file_offset w = of_nat n" "bloom_covers (sw_bloom_filter w) keys"
  shows "\<exists>m w'. write_bloom [] w = Inr (KV_ERR_NONE, m, w', []) \<and>
    sw_file w' = sw_file w @ header_bytes (bloom_header (sw_bloom_filter w)) @ sb_bits (sw_bloom_filter w)"
proof -
  have len: "length (sb_bits (sw_bloom_filter w)) = unat (byte_count (sb_bit_count (sw_bloom_filter w)))" and "fits (sb_bits (sw_bloom_filter w)) (sb_bit_count (sw_bloom_filter w))"
    using assms(2) by (simp_all add: bloom_covers_def)
  then have "sb_bits (sw_bloom_filter w) \<noteq> []" by (auto simp: fits_def unat_eq_zero)
  then show ?thesis using len by (simp add: write_bloom_def Let_def bloom_header_def)
qed

text \<open>The writer produces the table of its rows.\<close>

lemma writer_finalize_ok:
  assumes inv: "writer_inv w bs cur" and cur: "cur \<noteq> []" and n: "length bs < 1024" and len: "length cur < 2 ^ 32"
  shows "\<exists>w' ft. sstable_writer_finalize [] w = Inr (KV_ERR_NONE, w', []) \<and> footer_for (bs @ [cur]) ft \<and>
    sw_file w' = body_bytes (bs @ [cur]) (sw_bloom_filter w) @ footer_bytes ft"
proof -
  obtain block where b: "sw_current_block w = Some block" "\<not> sw_finalized w" using inv by (auto simp: writer_inv_def)
  have cov: "bloom_covers (sw_bloom_filter w) (row_key ` set (concat bs @ cur))" using inv by (simp add: writer_inv_def)
  from last_flush_ok[OF inv cur n b(1) len] obtain w1 where w1: "last_flush [] w block = Inr (KV_ERR_NONE, w1, [])" "sw_file w1 = blocks_bytes (bs @ [cur])"
    "sw_file_offset w1 = of_nat (length (blocks_bytes (bs @ [cur])))" "ib_entries (sw_index_block w1) = index_of_blocks 0 (bs @ [cur])"
    "sw_bloom_filter w1 = sw_bloom_filter w" "list_all block_ok (bs @ [cur])" by blast
  from write_index_ok[OF w1(2,3,4,6)] obtain m w2 where w2: "write_index [] w1 = Inr (KV_ERR_NONE, m, w2, [])"
    "sw_file w2 = blocks_bytes (bs @ [cur]) @ header_bytes (index_header (index_of_blocks 0 (bs @ [cur]))) @ index_bytes (index_of_blocks 0 (bs @ [cur]))"
    "sw_file_offset w2 = of_nat (bloom_start (bs @ [cur]))" "sw_bloom_filter w2 = sw_bloom_filter w" using w1(5) by auto
  from write_bloom_ok[OF w2(3)] w2(4) cov obtain k w3 where w3: "write_bloom [] w2 = Inr (KV_ERR_NONE, k, w3, [])"
    "sw_file w3 = sw_file w2 @ header_bytes (bloom_header (sw_bloom_filter w)) @ sb_bits (sw_bloom_filter w)" by metis
  define ft where "ft = \<lparr>ft_magic_number = SSTABLE_MAGIC_NUMBER, ft_version = SSTABLE_VERSION, ft_index_offset = sw_file_offset w1,
      ft_index_size = of_nat HEADER_BYTES + of_nat m, ft_bloom_offset = sw_file_offset w2, ft_bloom_size = of_nat HEADER_BYTES + of_nat k,
      ft_min_seq_num = sw_min_seq_num w3, ft_max_seq_num = sw_max_seq_num w3, ft_entry_count = sw_entry_count w3, ft_crc32 = 0\<rparr>"
  define ft1 where "ft1 = ft\<lparr>ft_crc32 := sstable_crc32 (take 56 (footer_bytes ft))\<rparr>"
  have fin: "sstable_writer_finalize [] w = Inr (write_footer [] w3 (sw_file_offset w1) m (sw_file_offset w2) k)"
    using b w1(1) w2(1) w3(1) by (simp add: sstable_writer_finalize_def)
  have "\<exists>w'. write_footer [] w3 (sw_file_offset w1) m (sw_file_offset w2) k = (KV_ERR_NONE, w', []) \<and> sw_file w' = sw_file w3 @ footer_bytes ft1"
    by (simp add: write_footer_def Let_def ft1_def ft_def)
  moreover have "footer_for (bs @ [cur]) ft1" unfolding footer_for_def ft1_def footer_crc by (simp add: ft_def w1(3) w2(3))
  moreover have "sw_file w3 = body_bytes (bs @ [cur]) (sw_bloom_filter w)" by (simp add: w3(2) w2(2) body_bytes_def)
  ultimately show ?thesis using fin by auto
qed

end
