(* ===== verification/SSTable_Read.thy ===== *)
theory SSTable_Read
  imports SSTable_Write
begin

text \<open>
  The reader of the tables: opening a finished table gives back its index and its Bloom filter, a read finds exactly the rows of the block
  that the search in the index chooses, and a changed byte is reported.
\<close>

section \<open>Opening a table\<close>

lemma fread_at: "n = length xs \<Longrightarrow> xs \<noteq> [] \<Longrightarrow> pos = length pre \<Longrightarrow> fread (pre @ xs @ post) pos n = Some xs"
  by (simp add: fread_def)

lemma unat_small64: "n < 2 ^ 64 \<Longrightarrow> unat (of_nat n :: 64 word) = n"
  by (simp add: unsigned_of_nat take_bit_nat_eq_self)

lemma read_footer_ok:
  assumes "footer_for bs ft"
  shows "read_footer (body @ footer_bytes ft) = Some ft"
proof -
  have "fread (body @ footer_bytes ft) (length body) 60 = Some (footer_bytes ft)" using fread_at[of 60 "footer_bytes ft" _ body "[]"] by simp
  with assms show ?thesis by (simp add: read_footer_def Let_def footer_for_def)
qed

lemma deserialize_index_entry_ok:
  assumes "index_ok e"
  shows "deserialize_index_entry [] (index_bytes (e # es)) = Inr (24 + ix_key_len e, e, [])"
proof -
  from assms obtain key where k: "ix_key e = Some key" "length key = ix_key_len e" "key \<noteq> []" "length key \<le> SSTABLE_BLOCK_SIZE" by (auto simp: index_ok_def)
  have b: "ix_key_len e < 2 ^ 32" "24 + ix_key_len e < 2 ^ 32" "0 < ix_key_len e" using k(2-4) by (auto simp del: length_greater_0_conv simp: length_greater_0_conv[symmetric])
  have u: "unat (24 + of_nat (ix_key_len e) :: 32 word) = 24 + ix_key_len e" using unat_small[OF b(2)] by simp
  define buf where "buf = index_bytes (e # es)"
  have l: "load32 buf = of_nat (ix_key_len e)" "load64 (drop 4 buf) = ix_offset e" "load32 (drop 12 buf) = ix_size e" "load64 (drop 16 buf) = ix_seq_num e"
    "drop 24 buf = key @ index_bytes es" "length buf = 24 + ix_key_len e + length (index_bytes es)"
    using k by (simp_all add: buf_def)
  have "deserialize_index_entry [] buf = Inr (24 + ix_key_len e, \<lparr>ix_key = Some key, ix_key_len = ix_key_len e, ix_offset = ix_offset e,
      ix_size = ix_size e, ix_seq_num = ix_seq_num e\<rparr>, [])"
    using b k(2,3) by (simp add: deserialize_index_entry_def Let_def l u word_pos_iff unat_small copy_out_def)
  then show ?thesis using k(1) by (cases e) (simp add: buf_def)
qed

lemma deserialize_index_ok:
  "list_all index_ok es \<Longrightarrow> length pre = off \<Longrightarrow> deserialize_index [] (length es) off (pre @ index_bytes es) = Inr (es, [])"
proof (induction es arbitrary: off pre)
  case (Cons e es)
  let ?b = "index_bytes (e # es)"
  from Cons.prems(1) obtain key where k: "ix_key e = Some key" "length key = ix_key_len e" by (auto simp: index_ok_def)
  have e: "deserialize_index_entry [] (drop off (pre @ ?b)) = Inr (24 + ix_key_len e, e, [])"
    using deserialize_index_entry_ok[of e es] Cons.prems by (simp del: index_bytes_simps)
  obtain c where c: "?b = c @ index_bytes es" "length c = 24 + ix_key_len e" using k by simp
  from Cons.IH[of "pre @ c" "off + (24 + ix_key_len e)"] Cons.prems c
  have "deserialize_index [] (length es) (off + (24 + ix_key_len e)) (pre @ ?b) = Inr (es, [])" by (simp del: index_bytes_simps)
  with e Cons.prems(2) show ?case by (simp del: index_bytes_simps)
qed simp

lemma read_index_ok:
  assumes ok: "list_all block_ok bs" and n: "bs \<noteq> []" "length bs \<le> 1024"
  shows "read_index [] (body_bytes bs bloom @ post) (of_nat (length (blocks_bytes bs))) =
    Inr (Some \<lparr>ib_entries = index_of_blocks 0 bs, ib_capacity = length bs\<rparr>, [])"
proof -
  let ?es = "index_of_blocks 0 bs"
  note ix = index_of_blocks_ok[OF ok, of 0]
  have len: "length (index_bytes ?es) = index_block_size ?es" using serialize_index_ok[OF ix order.refl] by simp
  have small: "length (blocks_bytes bs) < 2 ^ 32" "length (index_bytes ?es) < 2 ^ 32"
    using length_blocks_bytes[OF ok] index_size_bound[OF ix] n(2) len by auto
  have ne: "index_bytes ?es \<noteq> []" using n(1) by (cases bs) (simp_all add: bytes_explicit)
  have whole: "body_bytes bs bloom @ post = blocks_bytes bs @ header_bytes (index_header ?es) @ index_bytes ?es @
      (header_bytes (bloom_header bloom) @ sb_bits bloom @ post)" by (simp add: body_bytes_def)
  have r1: "fread (body_bytes bs bloom @ post) (length (blocks_bytes bs)) 24 = Some (header_bytes (index_header ?es))"
    unfolding whole by (rule fread_at) simp_all
  have r2: "fread (body_bytes bs bloom @ post) (length (blocks_bytes bs) + 24) (length (index_bytes ?es)) = Some (index_bytes ?es)"
    unfolding whole using fread_at[of "length (index_bytes ?es)" "index_bytes ?es" _ "blocks_bytes bs @ header_bytes (index_header ?es)"] ne by simp
  have "load_header (header_bytes (index_header ?es)) = index_header ?es" using load_header_bytes[of _ "[]"] by simp
  moreover have "unat (of_nat (length (blocks_bytes bs)) :: 64 word) = length (blocks_bytes bs)" using small(1) by (intro unat_small64) simp
  ultimately show ?thesis using r1 r2 small n deserialize_index_ok[OF ix, of "[]" 0]
    by (simp add: read_index_def Let_def seek_ok_def index_header_def zero_header_def unat_small sstable_index_block_create_def)
qed

lemma read_bloom_ok:
  assumes ok: "list_all block_ok bs" and n: "length bs \<le> 1024" and cov: "bloom_covers bloom keys"
  shows "\<exists>pos. read_bloom [] (body_bytes bs bloom @ post) (of_nat (bloom_start bs)) = (Some (bloom, pos), [])"
proof -
  let ?es = "index_of_blocks 0 bs"
  note ix = index_of_blocks_ok[OF ok, of 0]
  have len: "length (index_bytes ?es) = index_block_size ?es" using serialize_index_ok[OF ix order.refl] by simp
  have small: "bloom_start bs < 2 ^ 32"
    using length_blocks_bytes[OF ok] index_size_bound[OF ix] n len by (auto simp: bloom_start_def)
  have b: "length (sb_bits bloom) = unat (byte_count (sb_bit_count bloom))" "unat (sb_bit_count bloom) < 2 ^ 32" "sb_hash_count bloom < 2 ^ 32"
    "fits (sb_bits bloom) (sb_bit_count bloom)" using cov by (simp_all add: bloom_covers_def)
  then have ne: "sb_bits bloom \<noteq> []" by (auto simp: fits_def unat_eq_zero)
  have "unat (byte_count (sb_bit_count bloom)) \<le> unat (sb_bit_count bloom + 7)" by (simp add: byte_count_def unat_div)
  also have "\<dots> = unat (sb_bit_count bloom) + 7" using b(2) by (simp add: unat_word_ariths)
  finally have bl: "length (sb_bits bloom) < 2 ^ 32" using b(1,2) by (simp add: byte_count_def unat_div unat_word_ariths)
  let ?pre = "blocks_bytes bs @ header_bytes (index_header ?es) @ index_bytes ?es"
  have whole: "body_bytes bs bloom @ post = ?pre @ header_bytes (bloom_header bloom) @ sb_bits bloom @ post" by (simp add: body_bytes_def)
  have start: "length ?pre = bloom_start bs" by (simp add: bloom_start_def)
  have r1: "fread (body_bytes bs bloom @ post) (bloom_start bs) 24 = Some (header_bytes (bloom_header bloom))"
    unfolding whole by (rule fread_at) (simp_all add: start[symmetric])
  have r2: "fread (body_bytes bs bloom @ post) (bloom_start bs + 24) (length (sb_bits bloom)) = Some (sb_bits bloom)"
    unfolding whole using fread_at[of "length (sb_bits bloom)" "sb_bits bloom" _ "?pre @ header_bytes (bloom_header bloom)"] ne by (simp add: start[symmetric] ac_simps)
  have "load_header (header_bytes (bloom_header bloom)) = bloom_header bloom" using load_header_bytes[of _ "[]"] by simp
  moreover have "unat (of_nat (bloom_start bs) :: 64 word) = bloom_start bs" using small by (intro unat_small64) simp
  moreover have "(ucast (ucast (sb_bit_count bloom) :: 32 word) :: 64 word) = sb_bit_count bloom"
    using required_size(3)[of 0 0 "sb_bit_count bloom"] b(2) by simp
  ultimately show ?thesis using r1 r2 small bl b(3)
    by (cases bloom) (simp add: read_bloom_def Let_def seek_ok_def bloom_header_def zero_header_def unat_small)
qed

text \<open>A reader of a table with given blocks.\<close>

definition reader_for :: "row list list \<Rightarrow> sstable_bloom_filter \<Rightarrow> bytes \<Rightarrow> sstable_reader \<Rightarrow> bool" where
  "reader_for bs bloom post r \<longleftrightarrow> sr_file r = body_bytes bs bloom @ post \<and> ib_entries (sr_index_block r) = index_of_blocks 0 bs \<and> sr_bloom_filter r = bloom"

lemma reader_create_ok:
  assumes "list_all block_ok bs" "bs \<noteq> []" "length bs \<le> 1024" "bloom_covers bloom keys" "footer_for bs ft"
  shows "\<exists>r. sstable_reader_create [] (Some (body_bytes bs bloom @ footer_bytes ft)) = Inr (Some r, []) \<and> reader_for bs bloom (footer_bytes ft) r"
proof -
  from read_bloom_ok[OF assms(1,3,4), of "footer_bytes ft"] obtain pos where
    "read_bloom [] (body_bytes bs bloom @ footer_bytes ft) (of_nat (bloom_start bs)) = (Some (bloom, pos), [])" by blast
  with read_footer_ok[OF assms(5)] read_index_ok[OF assms(1-3)] assms(5) show ?thesis
    by (simp add: sstable_reader_create_def footer_for_def reader_for_def)
qed

section \<open>Reading a key\<close>

text \<open>The block that is searched for a key.\<close>

fun pick :: "bytes \<Rightarrow> row list list \<Rightarrow> row list" where
  "pick k [] = []"
| "pick k [b] = b"
| "pick k (b # bs) = (if k \<le> row_key (hd b) then b else pick k bs)"

definition row_result :: "row \<Rightarrow> bytes option \<times> nat \<times> 64 word \<times> bool" where
  "row_result r = (if row_value r = [] then None else Some (row_value r), length (row_value r), row_seq r, row_deleted r)"

definition lookup_row :: "bytes \<Rightarrow> row list \<Rightarrow> int \<times> (bytes option \<times> nat \<times> 64 word \<times> bool) option \<times> script" where
  "lookup_row k rows = (case find (\<lambda>r. row_key r = k) rows of None \<Rightarrow> (KV_ERR_NOT_FOUND, None, []) | Some r \<Rightarrow> (KV_ERR_NONE, Some (row_result r), []))"

abbreviation ascending_rows :: "row list \<Rightarrow> bool" where
  "ascending_rows \<equiv> sorted_wrt (\<lambda>a b. row_key a < row_key b)"

lemma kcmp_le_iff: "kcmp a b \<le> 0 \<longleftrightarrow> a \<le> b"
  using kcmp_less_iff[of a b] kcmp_eq_iff[of a b] by (auto simp: le_less simp del: kcmp_eq_iff)

lemma find_block_step: "es \<noteq> [] \<Longrightarrow> find_block k (e # es) = (if lsm_memtable_key_compare (Some k) (ix_key e) \<le> 0 then Some e else find_block k es)"
  by (cases es) simp_all

lemma index_key: "ix_key (index_entry off b) = Some (row_key (hd b))"
  by (simp add: index_entry_def)

lemma find_block_pick:
  "bs \<noteq> [] \<Longrightarrow> \<exists>pre b post. bs = pre @ b # post \<and> pick k bs = b \<and>
     find_block k (index_of_blocks off bs) = Some (index_entry (off + length (blocks_bytes pre)) b)"
proof (induction bs arbitrary: off rule: pick.induct)
  case (2 k b)
  show ?case by (rule exI[of _ "[]"], rule exI[of _ b], rule exI[of _ "[]"]) simp
next
  case (3 k b c bs)
  show ?case
  proof (cases "k \<le> row_key (hd b)")
    case True
    show ?thesis
      by (rule exI[of _ "[]"], rule exI[of _ b], rule exI[of _ "c # bs"]) (simp add: True index_entry_def kcmp_def[symmetric] kcmp_le_iff)
  next
    case False
    from 3(1)[OF False, of "off + length (block_bytes b)"] obtain pre d post where
      "c # bs = pre @ d # post" "pick k (c # bs) = d"
      "find_block k (index_of_blocks (off + length (block_bytes b)) (c # bs)) = Some (index_entry (off + length (block_bytes b) + length (blocks_bytes pre)) d)"
      by auto
    note d = this
    let ?ix = "index_of_blocks (off + length (block_bytes b)) (c # bs)"
    have "?ix \<noteq> []" "\<not> lsm_memtable_key_compare (Some k) (ix_key (index_entry off b)) \<le> 0"
      using False by (simp_all add: index_key kcmp_def[symmetric] kcmp_le_iff)
    then have "find_block k (index_entry off b # ?ix) = find_block k ?ix" by (simp only: find_block_step if_False simp_thms)
    then have "find_block k (index_of_blocks off (b # c # bs)) = Some (index_entry (off + length (blocks_bytes (b # pre))) d)"
      by (simp only: index_of_blocks.simps(2)[of off b] d(3)) (simp add: add.assoc)
    moreover have "pick k (b # c # bs) = d" using False d(2) by simp
    moreover have "b # c # bs = (b # pre) @ d # post" using d(1) by simp
    ultimately show ?thesis by blast
  qed
qed simp

lemma find_none_above: "ascending_rows (r # rs) \<Longrightarrow> k < row_key r \<Longrightarrow> find (\<lambda>r. row_key r = k) (r # rs) = None"
  by (auto simp: find_None_iff dest: less_trans)

lemma search_block_ok:
  "list_all row_ok rows \<Longrightarrow> ascending_rows rows \<Longrightarrow> search_block [] (length rows) k (block_data rows) = Inr (lookup_row k rows)"
proof (induction rows)
  case (Cons r rs)
  have p: "deserialize_entry [] (enc r @ block_data rs) = Inr (Parsed (length (enc r)) (fields_of r), [])" using Cons.prems by (intro parse_enc) simp
  have ef: "ef_key (fields_of r) = Some (row_key r)" by (simp add: fields_of_def)
  consider "k = row_key r" | "k < row_key r" | "row_key r < k" by fastforce
  then show ?case
  proof cases
    case 1
    then show ?thesis using p
      by (simp add: ef kcmp_def[symmetric] hand_out_def lookup_row_def row_result_def) (simp add: fields_of_def)
  next
    case 2
    then have "kcmp k (row_key r) < 0" "k \<noteq> row_key r" by (auto simp: kcmp_less_iff)
    then show ?thesis using p find_none_above[OF Cons.prems(2) 2] by (simp add: ef kcmp_def[symmetric] lookup_row_def)
  next
    case 3
    then have "\<not> kcmp k (row_key r) < 0" "kcmp k (row_key r) \<noteq> 0" by (auto simp: kcmp_less_iff)
    then show ?thesis using p Cons 3 by (simp add: ef kcmp_def[symmetric] lookup_row_def)
  qed
qed (simp add: lookup_row_def)

lemma bloom_answer: "bloom_covers bloom keys \<Longrightarrow> \<exists>b. sstable_bloom_filter_may_contain bloom (Some k) = Inr b \<and> (k \<in> keys \<longrightarrow> b)"
  by (auto simp: bloom_covers_def sstable_bloom_filter_may_contain_def test_bits_spec)

lemma block_count_bound: "list_all row_ok rows \<Longrightarrow> length rows \<le> length (block_data rows)"
  by (induction rows) (auto simp: length_enc)

text \<open>What the code after the search in the index does.\<close>

lemma read_block:
  assumes r: "sr_file r = front @ header_bytes (block_header b) @ data @ rest" and ok: "block_ok b" and len: "length data = length (block_data b)"
    and small: "length front < 2 ^ 32" and fb: "find_block k (ib_entries (sr_index_block r)) = Some (index_entry (length front) b)"
    and may: "sstable_bloom_filter_may_contain (sr_bloom_filter r) (Some k) = Inr True" and k: "k \<noteq> []"
  shows "sstable_reader_get [] r (Some k) =
    (if sstable_crc32 data = sstable_crc32 (block_data b) then search_block [] (length b) k data else Inr (KV_ERR_FILE, None, []))"
proof -
  have b: "list_all row_ok b" "length (block_data b) \<le> SSTABLE_BLOCK_SIZE" "block_data b \<noteq> []"
    using ok by (cases b; auto simp: block_ok_def enc_def)+
  have cnt: "length b < 2 ^ 32" "length (block_data b) < 2 ^ 32" using block_count_bound[OF b(1)] b(2) by simp_all
  have ne: "data \<noteq> []" using len b(3) by auto
  have r1: "fread (sr_file r) (length front) 24 = Some (header_bytes (block_header b))" unfolding r by (rule fread_at) simp_all
  have r2: "fread (sr_file r) (length front + 24) (length (block_data b)) = Some data"
    unfolding r using fread_at[of "length (block_data b)" data _ "front @ header_bytes (block_header b)"] ne len by simp
  have hd: "load_header (header_bytes (block_header b)) = block_header b" using load_header_bytes[of _ "[]"] by simp
  have u: "unat (of_nat (length front) :: 64 word) = length front" using small by (intro unat_small64) simp
  have ix: "ix_offset (index_entry (length front) b) = of_nat (length front)" by (simp add: index_entry_def)
  have h: "bk_uncompressed_size (block_header b) = of_nat (length (block_data b))" "bk_crc32 (block_header b) = sstable_crc32 (block_data b)"
    "bk_entry_count (block_header b) = of_nat (length b)" by (simp_all add: block_header_def)
  show ?thesis using k may fb small
    by (simp add: sstable_reader_get_def Let_def seek_ok_def ix u r1 hd h r2 unat_small[OF cnt(1)] unat_small[OF cnt(2)])
qed

lemma read_block_ok:
  assumes r: "sr_file r = front @ block_bytes b @ rest" and ok: "block_ok b" and asc: "ascending_rows b"
    and "length front < 2 ^ 32" "find_block k (ib_entries (sr_index_block r)) = Some (index_entry (length front) b)"
    "sstable_bloom_filter_may_contain (sr_bloom_filter r) (Some k) = Inr True" "k \<noteq> []"
  shows "sstable_reader_get [] r (Some k) = Inr (lookup_row k b)"
proof -
  have "list_all row_ok b" using ok by (simp add: block_ok_def)
  with read_block[of r front b "block_data b" rest k] search_block_ok[OF _ asc] assms show ?thesis by (simp add: block_bytes_def)
qed

lemma reader_get_ok:
  assumes rd: "reader_for bs bloom post r" and ok: "list_all block_ok bs" and ne: "bs \<noteq> []" and n: "length bs \<le> 1024"
    and asc: "\<forall>b\<in>set bs. ascending_rows b" and cov: "bloom_covers bloom (row_key ` set (concat bs))" and k: "k \<noteq> []"
  shows "sstable_reader_get [] r (Some k) = Inr (lookup_row k (pick k bs))"
proof -
  from find_block_pick[OF ne, of k 0] obtain pre b post' where
    b: "bs = pre @ b # post'" "pick k bs = b" "find_block k (index_of_blocks 0 bs) = Some (index_entry (length (blocks_bytes pre)) b)" by auto
  from bloom_answer[OF cov, of k] obtain may where may: "sstable_bloom_filter_may_contain bloom (Some k) = Inr may" "k \<in> row_key ` set (concat bs) \<longrightarrow> may" by blast
  show ?thesis
  proof (cases may)
    case True
    have "length (blocks_bytes pre) \<le> 4120 * length pre" using ok b(1) by (intro length_blocks_bytes) simp
    then have small: "length (blocks_bytes pre) < 2 ^ 32" using n b(1) by simp
    show ?thesis unfolding b(2)
    proof (rule read_block_ok[OF _ _ _ small _ _ k])
      show "sr_file r = blocks_bytes pre @ block_bytes b @ (blocks_bytes post' @ header_bytes (index_header (index_of_blocks 0 bs)) @
          index_bytes (index_of_blocks 0 bs) @ header_bytes (bloom_header bloom) @ sb_bits bloom @ post)"
        using rd by (simp add: reader_for_def body_bytes_def) (simp add: b(1))
    qed (use rd ok asc b may True in \<open>auto simp: reader_for_def\<close>)
  next
    case False
    with may(2) have "find (\<lambda>r. row_key r = k) b = None" using b(1) by (auto simp: find_None_iff)
    with False may(1) rd k b(2) show ?thesis by (simp add: sstable_reader_get_def reader_for_def lookup_row_def)
  qed
qed

end
