(* ===== verification/SSTable_Props.thy ===== *)
theory SSTable_Props
  imports SSTable_Read
begin

text \<open>
  From a memtable to a table file and back: what a read of a flushed memtable returns, and that damage is reported.
\<close>

section \<open>Flushing a memtable\<close>

definition row_of :: "lsm_memtable_entry \<Rightarrow> row" where
  "row_of e = \<lparr>row_key = ekey e, row_value = (case evalue e of None \<Rightarrow> [] | Some v \<Rightarrow> v), row_seq = eseq e, row_deleted = edeleted e\<rparr>"

definition rows_of :: "lsm_memtable \<Rightarrow> row list" where
  "rows_of mt = map row_of (inorder (mroot mt))"

definition blocks_of :: "row list \<Rightarrow> row list list" where
  "blocks_of rows = (case foldl pack_row ([], []) rows of (bs, cur) \<Rightarrow> bs @ [cur])"

lemma flush_entry:
  assumes "entry_ok e"
  shows "ekey e = row_key (row_of e)" "evalue_len e = length (row_value (row_of e))" "eseq e = row_seq (row_of e)" "edeleted e = row_deleted (row_of e)"
    "read_buf (evalue e) (length (row_value (row_of e))) = Inr (row_value (row_of e))"
  using assms by (auto simp: row_of_def entry_ok_def read_buf_def split: option.splits)

lemma next_code: "lsm_memtable_iterator_next it = Inr (r, it') \<Longrightarrow> valid it \<Longrightarrow> r = KV_ERR_NONE"
  by (auto simp: lsm_memtable_iterator_next_def Let_def split: option.splits prod.splits)

lemma seek_code: "lsm_memtable_iterator_seek_first mt it = Inr (r, it') \<Longrightarrow> r = KV_ERR_NONE"
  by (auto simp: lsm_memtable_iterator_seek_first_def Let_def dest: next_code split: prod.splits rbtree_node.splits if_splits)

lemma flush_loop_ok:
  "iter_list n it = Inr es \<Longrightarrow> writer_inv w bs cur \<Longrightarrow> list_all entry_ok es \<Longrightarrow> list_all (row_ok \<circ> row_of) es \<Longrightarrow> length bs + length es \<le> 1024 \<Longrightarrow>
   foldl pack_row (bs, cur) (map row_of es) = (bs', cur') \<Longrightarrow>
   \<exists>w'. flush_loop n [] KV_ERR_NONE it w = Inr (KV_ERR_NONE, w', []) \<and> writer_inv w' bs' cur'"
proof (induction n arbitrary: it es w bs cur)
  case (Suc n)
  show ?case
  proof (cases "valid it")
    case False
    with Suc.prems show ?thesis by (auto simp: lsm_memtable_iterator_valid_def)
  next
    case True
    then obtain r1 e where c: "lsm_memtable_iterator_current it = (r1, Some e)" using Suc.prems(1)
      by (auto simp: lsm_memtable_iterator_valid_def split: prod.splits option.splits)
    with True Suc.prems(1) obtain r3 it1 es1 where nx: "lsm_memtable_iterator_next it = Inr (r3, it1)" "iter_list n it1 = Inr es1" "es = e # es1"
      by (auto simp: lsm_memtable_iterator_valid_def obind_Inr_iff)
    have e: "entry_ok e" "row_ok (row_of e)" using Suc.prems(3,4) nx(3) by simp_all
    obtain bs1 cur1 where p: "pack_row (bs, cur) (row_of e) = (bs1, cur1)" by fastforce
    have "length bs < 1024" using Suc.prems(5) nx(3) by simp
    from writer_put_ok[OF Suc.prems(2) e(2) this flush_entry(5)[OF e(1)] p] obtain w1 where
      w1: "sstable_writer_put [] w (Some (ekey e)) (evalue e) (evalue_len e) (eseq e) (edeleted e) = Inr (KV_ERR_NONE, w1, [])" "writer_inv w1 bs1 cur1"
      using flush_entry[OF e(1)] by auto
    have "length bs1 + length es1 \<le> 1024" using pack_row_keeps[OF p] Suc.prems(5) nx(3) by simp
    from Suc.IH[OF nx(2) w1(2) _ _ this] Suc.prems(3,4,6) nx(3) p obtain w' where
      "flush_loop n [] KV_ERR_NONE it1 w1 = Inr (KV_ERR_NONE, w', [])" "writer_inv w' bs' cur'" by auto
    then show ?thesis using True c w1(1) nx(1) next_code[OF nx(1) True] by (simp add: lsm_memtable_iterator_valid_def)
  qed
qed simp

lemma pack_rows:
  "foldl pack_row (bs, cur) rows = (bs', cur') \<Longrightarrow> concat bs' @ cur' = concat bs @ cur @ rows \<and> (rows \<noteq> [] \<longrightarrow> cur' \<noteq> []) \<and> (rows = [] \<longrightarrow> cur' = cur)"
proof (induction rows arbitrary: bs cur)
  case (Cons r rs)
  obtain bs1 cur1 where p: "pack_row (bs, cur) r = (bs1, cur1)" by fastforce
  with Cons.IH[of bs1 cur1] Cons.prems pack_row_keeps[OF p] show ?case by (cases rs) auto
qed simp

lemma concat_blocks: "concat (blocks_of rows) = rows"
  using pack_rows[of "[]" "[]" rows] by (auto simp: blocks_of_def split: prod.split)

lemma nonempty_count: "list_all block_ok bs \<Longrightarrow> length bs \<le> length (concat bs)"
  by (induction bs) (auto simp: block_ok_def neq_Nil_conv)

lemma flush_ok:
  assumes inv: "memtable_inv mt" and ok: "list_all row_ok (rows_of mt)" and ne: "rows_of mt \<noteq> []" and n: "length (rows_of mt) \<le> 1024"
    and name: "name \<noteq> []" and fuel: "Suc (length (rows_of mt)) < fuel"
  shows "\<exists>bloom ft. sstable_create_from_memtable fuel [] (Some mt) (Some name) cm =
      Inr (KV_ERR_NONE, Some (body_bytes (blocks_of (rows_of mt)) bloom @ footer_bytes ft), []) \<and>
    footer_for (blocks_of (rows_of mt)) ft \<and> list_all block_ok (blocks_of (rows_of mt)) \<and> length (blocks_of (rows_of mt)) \<le> 1024 \<and>
    bloom_covers bloom (row_key ` set (rows_of mt))"
proof -
  let ?es = "inorder (mroot mt)"
  from writer_create_ok[OF name] obtain w where w: "sstable_writer_create [] (Some name) cm = (Some w, [])" "writer_inv w [] []" by blast
  define it where "it = \<lparr>current = None, valid = False, include_deleted = True\<rparr>"
  have it: "lsm_memtable_iterator_create [] True = (Some it, [])" "include_deleted it = True" by (simp_all add: lsm_memtable_iterator_create_def it_def)
  have "Suc (length ?es) < fuel" using fuel by (simp add: rows_of_def)
  from iter_seek_list[OF it(2) this] obtain r it1 where sk: "lsm_memtable_iterator_seek_first mt it = Inr (r, it1)" "iter_list fuel it1 = Inr ?es"
    by (auto simp: visible_def)
  have rb: "rb_inv kcmp ekey (mroot mt)" using inv by (simp add: memtable_inv_def)
  have "set ?es = ran (mt_map mt)" using memkey.in_inorder_iff[OF rb] memkey.kmap_key[of ekey "mroot mt"] by (auto simp: ran_def mt_map_def)
  then have eok: "list_all entry_ok ?es" using inv by (simp add: memtable_inv_def list_all_iff)
  obtain bs cur where p: "foldl pack_row ([], []) (map row_of ?es) = (bs, cur)" by fastforce
  then have bl: "blocks_of (rows_of mt) = bs @ [cur]" by (simp add: blocks_of_def rows_of_def)
  have "list_all (row_ok \<circ> row_of) ?es" "length ([] :: row list list) + length ?es \<le> 1024" using ok n by (simp_all add: rows_of_def list_all_iff)
  from flush_loop_ok[OF sk(2) w(2) eok this p] obtain w1 where w1: "flush_loop fuel [] KV_ERR_NONE it1 w = Inr (KV_ERR_NONE, w1, [])" "writer_inv w1 bs cur" by blast
  have cc: "concat bs @ cur = rows_of mt" "cur \<noteq> []" using pack_rows[OF p] ne by (simp_all add: rows_of_def)
  have bok: "list_all block_ok bs" "list_all row_ok cur" "length (block_data cur) \<le> SSTABLE_BLOCK_SIZE" using w1(2) by (simp_all add: writer_inv_def)
  have "length bs + length cur \<le> length (rows_of mt)" using nonempty_count[OF bok(1)] cc(1) by (metis add_le_mono1 length_append)
  then have cnt: "length bs < 1024" "length cur < 2 ^ 32" using cc(2) n by (cases cur; simp)+
  from writer_finalize_ok[OF w1(2) cc(2) cnt] obtain w2 ft where
    f: "sstable_writer_finalize [] w1 = Inr (KV_ERR_NONE, w2, [])" "footer_for (bs @ [cur]) ft"
    "sw_file w2 = body_bytes (bs @ [cur]) (sw_bloom_filter w1) @ footer_bytes ft" by blast
  have "bloom_covers (sw_bloom_filter w1) (row_key ` set (rows_of mt))" using w1(2) by (simp add: writer_inv_def cc(1))
  moreover have "block_ok cur" using bok cc(2) by (simp add: block_ok_def)
  ultimately show ?thesis using w(1) it(1) sk(1) seek_code[OF sk(1)] w1(1) f bok(1) cnt(1) bl
    by (intro exI[of _ "sw_bloom_filter w1"] exI[of _ ft]) (simp add: sstable_create_from_memtable_def)
qed

section \<open>What a read can see\<close>

text \<open>The rows that a read of a table finds: the first row of every block and the rows of the last one.\<close>

definition readable :: "row list list \<Rightarrow> row list" where
  "readable bs = map hd (butlast bs) @ last bs"

lemma pick_readable:
  assumes "list_all block_ok bs" "ascending_rows (concat bs)" "bs \<noteq> []"
  shows "lookup_row k (pick k bs) = lookup_row k (readable bs)"
  using assms
proof (induction bs rule: pick.induct)
  case (3 k b c bs)
  obtain r rs where b: "b = r # rs" using 3(2) by (cases b) (auto simp: block_ok_def)
  have ne: "concat (c # bs) \<noteq> []" using 3(2) by (auto simp: block_ok_def)
  have asc: "ascending_rows (concat (c # bs))" using 3(3) by (simp add: sorted_wrt_append)
  have sub: "set (readable (c # bs)) \<subseteq> set (concat (c # bs))"
  proof -
    have "list_all (\<lambda>x. x \<noteq> []) (c # bs)" using 3(2) by (auto simp: block_ok_def list_all_iff)
    then show ?thesis by (auto simp: readable_def list_all_iff dest!: in_set_butlastD split: if_splits)
  qed
  have above: "row_key r < row_key x" if "x \<in> set (readable (c # bs))" for x
    using subsetD[OF sub that] 3(3) by (auto simp: b sorted_wrt_append)
  have split: "readable (b # c # bs) = r # readable (c # bs)" by (simp add: readable_def b)
  consider "k = row_key r" | "k < row_key r" | "row_key r < k" by fastforce
  then show ?case
  proof cases
    case 1
    then show ?thesis by (simp add: split) (simp add: b lookup_row_def)
  next
    case 2
    have "find (\<lambda>r. row_key r = k) (r # readable (c # bs)) = None" using 2 above by (auto simp: find_None_iff dest: less_trans)
    moreover have "find (\<lambda>r. row_key r = k) b = None" unfolding b by (rule find_none_above[OF _ 2]) (use 3(3) in \<open>simp add: b sorted_wrt_append\<close>)
    moreover have "pick k (b # c # bs) = b" using 2 by (simp add: b less_imp_le)
    ultimately show ?thesis by (simp add: split lookup_row_def)
  next
    case 3: 3
    then have nle: "\<not> k \<le> row_key (hd b)" by (simp add: b)
    with "3.IH" asc "3.prems"(1) have "lookup_row k (pick k (c # bs)) = lookup_row k (readable (c # bs))" by simp
    moreover have "row_key r \<noteq> k" using 3 by auto
    ultimately show ?thesis using nle by (simp add: split) (simp add: lookup_row_def)
  qed
qed (simp_all add: readable_def)

lemma rows_ascending: "memtable_inv mt \<Longrightarrow> ascending_rows (rows_of mt)"
  by (simp add: memtable_inv_def rb_inv_def ksorted_def kcmp_less_iff rows_of_def sorted_wrt_map row_of_def)

lemma blocks_ascending: "ascending_rows (concat bs) \<Longrightarrow> \<forall>b\<in>set bs. ascending_rows b"
  by (induction bs) (auto simp: sorted_wrt_append)

lemma open_flushed:
  assumes "memtable_inv mt" "list_all row_ok (rows_of mt)" "rows_of mt \<noteq> []" "length (rows_of mt) \<le> 1024" "name \<noteq> []" "Suc (length (rows_of mt)) < fuel"
  shows "\<exists>file r bloom post. sstable_create_from_memtable fuel [] (Some mt) (Some name) cm = Inr (KV_ERR_NONE, Some file, []) \<and>
    sstable_reader_create [] (Some file) = Inr (Some r, []) \<and> reader_for (blocks_of (rows_of mt)) bloom post r \<and>
    list_all block_ok (blocks_of (rows_of mt)) \<and> length (blocks_of (rows_of mt)) \<le> 1024 \<and>
    bloom_covers bloom (row_key ` set (concat (blocks_of (rows_of mt)))) \<and> ascending_rows (concat (blocks_of (rows_of mt)))"
proof -
  let ?bs = "blocks_of (rows_of mt)"
  from flush_ok[OF assms, of cm] obtain bloom ft where f: "sstable_create_from_memtable fuel [] (Some mt) (Some name) cm =
      Inr (KV_ERR_NONE, Some (body_bytes ?bs bloom @ footer_bytes ft), [])"
    "footer_for ?bs ft" "list_all block_ok ?bs" "length ?bs \<le> 1024" "bloom_covers bloom (row_key ` set (rows_of mt))" by blast
  have ne: "?bs \<noteq> []" by (simp add: blocks_of_def split: prod.split)
  from reader_create_ok[OF f(3) ne f(4,5,2)] f(1,3-5) rows_ascending[OF assms(1)] show ?thesis unfolding concat_blocks by blast
qed

lemma flushed_table:
  assumes "memtable_inv mt" "list_all row_ok (rows_of mt)" "rows_of mt \<noteq> []" "length (rows_of mt) \<le> 1024" "name \<noteq> []" "Suc (length (rows_of mt)) < fuel"
  shows "\<exists>file r. sstable_create_from_memtable fuel [] (Some mt) (Some name) cm = Inr (KV_ERR_NONE, Some file, []) \<and>
    sstable_reader_create [] (Some file) = Inr (Some r, []) \<and>
    (\<forall>k. k \<noteq> [] \<longrightarrow> sstable_reader_get [] r (Some k) = Inr (lookup_row k (readable (blocks_of (rows_of mt)))))"
proof -
  let ?bs = "blocks_of (rows_of mt)"
  from open_flushed[OF assms, of cm] obtain fb r bloom post where
    f: "sstable_create_from_memtable fuel [] (Some mt) (Some name) cm = Inr (KV_ERR_NONE, Some fb, [])" "sstable_reader_create [] (Some fb) = Inr (Some r, [])"
    "reader_for ?bs bloom post r" "list_all block_ok ?bs" "length ?bs \<le> 1024" "bloom_covers bloom (row_key ` set (concat ?bs))"
    and asc: "ascending_rows (concat ?bs)" by blast
  have ne: "?bs \<noteq> []" by (simp add: blocks_of_def split: prod.split)
  have "sstable_reader_get [] r (Some k) = Inr (lookup_row k (readable ?bs))" if "k \<noteq> []" for k
    using reader_get_ok[OF f(3,4) ne f(5) blocks_ascending[OF asc] f(6) that] pick_readable[OF f(4) asc ne, of k] by simp
  with f(1,2) show ?thesis by blast
qed

lemma pack_one_block: "length (block_data (cur @ rows)) \<le> SSTABLE_BLOCK_SIZE \<Longrightarrow> foldl pack_row (bs, cur) rows = (bs, cur @ rows)"
  by (induction rows arbitrary: cur) auto

lemma find_map_of:
  assumes "memtable_inv mt"
  shows "find (\<lambda>r. row_key r = k) (rows_of mt) = map_option row_of (mt_map mt k)"
proof -
  have rb: "rb_inv kcmp ekey (mroot mt)" using assms by (simp add: memtable_inv_def)
  have asc: "sorted_wrt (\<lambda>a b. ekey a < ekey b) (inorder (mroot mt))" using rb by (simp add: rb_inv_def ksorted_def kcmp_less_iff)
  show ?thesis
  proof (cases "mt_map mt k")
    case None
    then have "\<forall>e\<in>set (inorder (mroot mt)). ekey e \<noteq> k" using memkey.in_inorder_iff[OF rb] by (auto simp: mt_map_def)
    with None show ?thesis by (auto simp: rows_of_def find_None_iff row_of_def)
  next
    case (Some e)
    then have e: "e \<in> set (inorder (mroot mt))" "ekey e = k"
      using memkey.in_inorder_iff[OF rb] memkey.kmap_key[of ekey "mroot mt"] by (auto simp: mt_map_def)
    from split_list[OF e(1)] obtain xs ys where xs: "inorder (mroot mt) = xs @ e # ys" by blast
    then have "\<forall>x\<in>set xs. ekey x \<noteq> k" using asc e(2) by (auto simp: sorted_wrt_append)
    then have "find (\<lambda>r. row_key r = k) (map row_of xs) = None" by (auto simp: find_None_iff row_of_def)
    moreover have "row_key (row_of e) = k" using e(2) by (simp add: row_of_def)
    ultimately have "find (\<lambda>r. row_key r = k) (map row_of xs @ row_of e # map row_of ys) = Some (row_of e)"
      by (induction xs) (auto split: if_splits)
    with Some show ?thesis by (simp add: rows_of_def xs)
  qed
qed

section \<open>Damage\<close>

text \<open>One byte of the data of one block is changed under an open reader.\<close>

definition damaged :: "sstable_reader \<Rightarrow> nat \<Rightarrow> 8 word \<Rightarrow> sstable_reader" where
  "damaged r i c = r\<lparr>sr_file := (sr_file r)[i := c]\<rparr>"

lemma split_compare:
  assumes "xs @ x # ys = us @ u # vs"
  obtains "us = xs" "u = x" "vs = ys" | mid where "us = xs @ x # mid" "ys = mid @ u # vs" | mid where "xs = us @ u # mid" "vs = mid @ x # ys"
  using assms by (fastforce simp: append_eq_append_conv2 Cons_eq_append_conv append_eq_Cons_conv)

lemma pick_first:
  "list_all block_ok (pre @ b # others) \<Longrightarrow> ascending_rows (concat (pre @ b # others)) \<Longrightarrow> pick (row_key (hd b)) (pre @ b # others) = b"
proof (induction pre)
  case Nil
  then show ?case by (cases others) simp_all
next
  case (Cons a pre)
  then have "a \<noteq> []" "b \<noteq> []" by (simp_all add: block_ok_def)
  then have "row_key (hd a) < row_key (hd b)" using Cons.prems(2) by (cases a; cases b) (auto simp: sorted_wrt_append)
  moreover obtain c cs where "pre @ b # others = c # cs" by (cases pre) simp_all
  ultimately show ?case using Cons by (auto simp: sorted_wrt_append)
qed

lemma block_once: "ascending_rows (concat (xs @ b # ys @ b # zs)) \<Longrightarrow> b = []"
  by (cases b) (auto simp: sorted_wrt_append)

lemma damaged_get:
  assumes rd: "reader_for bs bloom post r" and ok: "list_all block_ok bs" and n: "length bs \<le> 1024"
    and asc: "\<forall>b\<in>set bs. ascending_rows b" and cov: "bloom_covers bloom (row_key ` set (concat bs))" and k: "k \<noteq> []"
    and bs: "bs = pre @ b # others" and j: "j < length (block_data b)" "block_data b ! j \<noteq> c"
  shows "sstable_reader_get [] (damaged r (length (blocks_bytes pre) + 24 + j) c) (Some k) = sstable_reader_get [] r (Some k) \<or>
    sstable_reader_get [] (damaged r (length (blocks_bytes pre) + 24 + j) c) (Some k) = Inr (KV_ERR_FILE, None, [])"
    (is "sstable_reader_get [] ?d _ = _ \<or> _")
    "ascending_rows (concat bs) \<Longrightarrow> k = row_key (hd b) \<Longrightarrow>
      sstable_reader_get [] (damaged r (length (blocks_bytes pre) + 24 + j) c) (Some k) = Inr (KV_ERR_FILE, None, [])"
proof -
  define end_bytes where "end_bytes = header_bytes (index_header (index_of_blocks 0 bs)) @ index_bytes (index_of_blocks 0 bs) @
    header_bytes (bloom_header bloom) @ sb_bits bloom @ post"
  have same: "sr_index_block ?d = sr_index_block r" "sr_bloom_filter ?d = bloom" using rd by (simp_all add: damaged_def reader_for_def)
  have whole: "sr_file r = blocks_bytes bs @ end_bytes" using rd by (simp add: reader_for_def body_bytes_def end_bytes_def)
  have upd: "sr_file ?d = blocks_bytes pre @ header_bytes (block_header b) @ (block_data b)[j := c] @ blocks_bytes others @ end_bytes"
    using j(1) by (simp add: damaged_def whole bs block_bytes_def list_update_append)
  from bs have ne: "bs \<noteq> []" by simp
  from find_block_pick[OF ne, of k 0] obtain us u vs where
    u: "bs = us @ u # vs" "pick k bs = u" "find_block k (index_of_blocks 0 bs) = Some (index_entry (length (blocks_bytes us)) u)" by auto
  from bloom_answer[OF cov, of k] obtain may where may: "sstable_bloom_filter_may_contain bloom (Some k) = Inr may" "k \<in> row_key ` set (concat bs) \<longrightarrow> may" by blast
  have fb: "find_block k (ib_entries (sr_index_block ?d)) = Some (index_entry (length (blocks_bytes us)) u)" using u(3) rd same(1) by (simp add: reader_for_def)
  have "length (blocks_bytes us) \<le> 4120 * length us" using ok u(1) by (intro length_blocks_bytes) simp
  then have small: "length (blocks_bytes us) < 2 ^ 32" using n u(1) by simp
  have uok: "block_ok u" "ascending_rows u" using ok asc u(1) by simp_all
  have hit: "sstable_reader_get [] ?d (Some k) = Inr (KV_ERR_FILE, None, [])" if "us = pre" "u = b" may
    using read_block[OF upd _ _ _ _ _ k] that uok small fb crc_update[OF j] may same by simp
  have good: "sstable_reader_get [] ?d (Some k) = sstable_reader_get [] r (Some k)"
    if "sr_file ?d = front @ block_bytes u @ rest" "length front = length (blocks_bytes us)" may for front rest
    using read_block_ok[OF that(1) uok _ _ _ k] fb small that(2,3) same may reader_get_ok[OF rd ok ne n asc cov k] u(2) by simp
  from bs u(1) have both: "pre @ b # others = us @ u # vs" by simp
  show "sstable_reader_get [] ?d (Some k) = sstable_reader_get [] r (Some k) \<or> sstable_reader_get [] ?d (Some k) = Inr (KV_ERR_FILE, None, [])"
  proof (cases may)
    case False
    then show ?thesis using may same rd k by (simp add: sstable_reader_get_def reader_for_def)
  next
    case True
    from both show ?thesis
    proof (cases rule: split_compare)
      case 1
      with hit True show ?thesis by simp
    next
      case (2 mid)
      have "sr_file ?d = (blocks_bytes pre @ header_bytes (block_header b) @ (block_data b)[j := c] @ blocks_bytes mid) @ block_bytes u @ (blocks_bytes vs @ end_bytes)"
        unfolding upd by (simp add: 2)
      from good[OF this _ True] show ?thesis by (simp add: 2 block_bytes_def)
    next
      case (3 mid)
      have "sr_file ?d = blocks_bytes us @ block_bytes u @ (blocks_bytes mid @ header_bytes (block_header b) @ (block_data b)[j := c] @ blocks_bytes others @ end_bytes)"
        unfolding upd by (simp add: 3)
      from good[OF this _ True] show ?thesis by simp
    qed
  qed
  assume a: "ascending_rows (concat bs)" "k = row_key (hd b)"
  have bne: "b \<noteq> []" using ok bs by (simp add: block_ok_def)
  have ub: "u = b" using pick_first[of pre b others] ok a u(2) bs by simp
  have "us = pre"
    using both
  proof (cases rule: split_compare)
    case (2 mid)
    with block_once[of pre b mid vs] a(1) bne ub bs show ?thesis by simp
  next
    case (3 mid)
    with block_once[of us b mid others] a(1) bne ub bs show ?thesis by simp
  qed simp
  moreover have may using bne may(2) a(2) bs by (cases b) auto
  ultimately show "sstable_reader_get [] ?d (Some k) = Inr (KV_ERR_FILE, None, [])" using hit ub by simp
qed

section \<open>Properties\<close>

text \<open>
  C22: Refinement. A memtable whose entries fill at most one block is flushed to a file that opens, and the table is then the memtable: every
  key reads its value, sequence number and tombstone mark, every other key is not found.
\<close>

theorem sstable_flush_refines:
  assumes "memtable_inv mt" "rows_of mt \<noteq> []" "length (block_data (rows_of mt)) \<le> SSTABLE_BLOCK_SIZE" "name \<noteq> []" "4098 < fuel"
  shows "\<exists>file r. sstable_create_from_memtable fuel [] (Some mt) (Some name) cm = Inr (KV_ERR_NONE, Some file, []) \<and>
    sstable_reader_create [] (Some file) = Inr (Some r, []) \<and>
    (\<forall>k. k \<noteq> [] \<longrightarrow> sstable_reader_get [] r (Some k) = Inr (case mt_map mt k of
        None \<Rightarrow> (KV_ERR_NOT_FOUND, None, [])
      | Some e \<Rightarrow> (KV_ERR_NONE, Some (row_result (row_of e)), [])))"
proof -
  have rb: "rb_inv kcmp ekey (mroot mt)" using assms(1) by (simp add: memtable_inv_def)
  have "set (inorder (mroot mt)) = ran (mt_map mt)" using memkey.in_inorder_iff[OF rb] memkey.kmap_key[of ekey "mroot mt"] by (auto simp: ran_def mt_map_def)
  then have keys: "\<forall>r\<in>set (rows_of mt). row_key r \<noteq> []" using assms(1) by (auto simp: memtable_inv_def rows_of_def row_of_def entry_ok_def)
  have sz: "length (enc r) \<le> length (block_data rows)" if "r \<in> set rows" for r rows using that by (induction rows) auto
  have len: "18 * length rows \<le> length (block_data rows)" if "\<forall>r\<in>set rows. row_key r \<noteq> []" for rows
    using that by (induction rows) (auto simp: length_enc neq_Nil_conv)
  have ok: "list_all row_ok (rows_of mt)" using keys sz[of _ "rows_of mt"] assms(3) by (fastforce simp: list_all_iff row_ok_def length_enc)
  have n: "length (rows_of mt) \<le> 1024" "Suc (length (rows_of mt)) < fuel" using len[OF keys] assms(3,5) by auto
  have "blocks_of (rows_of mt) = [rows_of mt]" using pack_one_block[of "[]" "rows_of mt" "[]"] assms(3) by (simp add: blocks_of_def)
  then have "readable (blocks_of (rows_of mt)) = rows_of mt" by (simp add: readable_def)
  moreover have "lookup_row k (rows_of mt) = (case mt_map mt k of
        None \<Rightarrow> (KV_ERR_NOT_FOUND, None, []) | Some e \<Rightarrow> (KV_ERR_NONE, Some (row_result (row_of e)), []))" for k
    by (simp add: lookup_row_def find_map_of[OF assms(1)] split: option.split)
  ultimately show ?thesis using flushed_table[OF assms(1) ok assms(2) n(1) assms(4) n(2), of cm] by simp
qed

theorem sstable_flush_refines_witness:
  "\<exists>file r. sstable_create_from_memtable 5000 [] (Some memtable_ab) (Some ''t.sst'') SSTABLE_COMPRESSION_NONE = Inr (KV_ERR_NONE, Some file, []) \<and>
    sstable_reader_create [] (Some file) = Inr (Some r, []) \<and>
    sstable_reader_get [] r (Some [97]) = Inr (KV_ERR_NONE, Some (Some [1, 2], 2, 2, False), [])"
proof -
  have m: "mt_map memtable_ab [97] = Some \<lparr>ekey = [97], evalue = Some [1, 2], evalue_len = 2, eseq = 2, edeleted = False, etimestamp = 10\<rparr>"
    by (simp add: memtable_ab_map)
  have "rows_of memtable_ab \<noteq> []" "length (block_data (rows_of memtable_ab)) \<le> SSTABLE_BLOCK_SIZE"
    by (simp_all add: memtable_ab_def rows_of_def row_of_def tombstone_def length_enc)
  from sstable_flush_refines[OF memtable_ab_inv(1) this, of "''t.sst''" 5000 SSTABLE_COMPRESSION_NONE] show ?thesis
    by (force simp: m row_result_def row_of_def)
qed




text \<open>
  C30: Error. In a table of more than one block the second row of the first block is lost: the flush succeeds, the table opens,
  and the read of the row's key answers that it is not there.
\<close>

theorem sstable_loses_rows:
  assumes "memtable_inv mt" "list_all row_ok (rows_of mt)" "length (rows_of mt) \<le> 1024" "name \<noteq> []" "Suc (length (rows_of mt)) < fuel"
    and "blocks_of (rows_of mt) = (a # b # tail) # others" "others \<noteq> []"
  shows "b \<in> set (rows_of mt) \<and>
    (\<exists>file r. sstable_create_from_memtable fuel [] (Some mt) (Some name) cm = Inr (KV_ERR_NONE, Some file, []) \<and>
      sstable_reader_create [] (Some file) = Inr (Some r, []) \<and> sstable_reader_get [] r (Some (row_key b)) = Inr (KV_ERR_NOT_FOUND, None, []))"
proof -
  have cc: "rows_of mt = a # b # tail @ concat others" using concat_blocks[of "rows_of mt"] assms(6) by simp
  then have ne: "rows_of mt \<noteq> []" and bk: "row_ok b" using assms(2) by simp_all
  have asc: "ascending_rows (a # b # tail @ concat others)" using rows_ascending[OF assms(1)] cc by simp
  from flush_ok[OF assms(1,2) ne assms(3,4,5)] assms(6) have "list_all block_ok others" by auto
  then have sub: "set (readable others) \<subseteq> set (concat others)"
    using assms(7) by (auto simp: readable_def list_all_iff block_ok_def dest!: in_set_butlastD intro: bexI[OF _ last_in_set])
  have above: "\<forall>x\<in>set (concat others). row_key b < row_key x" using asc by simp
  have "row_key x \<noteq> row_key b" if "x \<in> set (readable others)" for x using above subsetD[OF sub that] by (metis less_irrefl)
  moreover have "row_key a \<noteq> row_key b" using asc by auto
  moreover have "readable ((a # b # tail) # others) = a # readable others" using assms(7) by (simp add: readable_def)
  ultimately have "lookup_row (row_key b) (readable (blocks_of (rows_of mt))) = (KV_ERR_NOT_FOUND, None, [])"
    by (auto simp: assms(6) lookup_row_def find_None_iff split: option.split)
  moreover have "row_key b \<noteq> []" using bk by (simp add: row_ok_def)
  ultimately show ?thesis using flushed_table[OF assms(1,2) ne assms(3,4,5), of cm] cc by auto
qed

text \<open>
  C23: Safety. One damaged byte in the entries of a block of a flushed table never gives a wrong answer: every read is answered as before
  the damage or fails with a file error, and the read of the first key of the damaged block fails.
\<close>

theorem sstable_damage_detected:
  assumes "memtable_inv mt" "list_all row_ok (rows_of mt)" "rows_of mt \<noteq> []" "length (rows_of mt) \<le> 1024" "name \<noteq> []" "Suc (length (rows_of mt)) < fuel"
    and b: "blocks_of (rows_of mt) = pre @ b # others" and j: "j < length (block_data b)" "block_data b ! j \<noteq> c"
  shows "\<exists>file r. sstable_create_from_memtable fuel [] (Some mt) (Some name) cm = Inr (KV_ERR_NONE, Some file, []) \<and>
    sstable_reader_create [] (Some file) = Inr (Some r, []) \<and>
    (\<forall>k. k \<noteq> [] \<longrightarrow> sstable_reader_get [] (damaged r (length (blocks_bytes pre) + 24 + j) c) (Some k) \<in>
       {sstable_reader_get [] r (Some k), Inr (KV_ERR_FILE, None, [])}) \<and>
    sstable_reader_get [] (damaged r (length (blocks_bytes pre) + 24 + j) c) (Some (row_key (hd b))) = Inr (KV_ERR_FILE, None, [])"
proof -
  let ?bs = "blocks_of (rows_of mt)"
  from open_flushed[OF assms(1-6), of cm] obtain fb r bloom post where
    f: "sstable_create_from_memtable fuel [] (Some mt) (Some name) cm = Inr (KV_ERR_NONE, Some fb, [])" "sstable_reader_create [] (Some fb) = Inr (Some r, [])"
    "reader_for ?bs bloom post r" "list_all block_ok ?bs" "length ?bs \<le> 1024" "bloom_covers bloom (row_key ` set (concat ?bs))"
    and asc: "ascending_rows (concat ?bs)" by blast
  have "row_ok (hd b)" using f(4) b by (cases b) (simp_all add: block_ok_def)
  then have "row_key (hd b) \<noteq> []" by (simp add: row_ok_def)
  with damaged_get[OF f(3-5) blocks_ascending[OF asc] f(6) _ b j] f(1,2) asc show ?thesis by simp
qed

theorem sstable_damage_detected_witness:
  "\<exists>file r. sstable_create_from_memtable 4 [] (Some memtable_ab) (Some ''t.sst'') SSTABLE_COMPRESSION_NONE = Inr (KV_ERR_NONE, Some file, []) \<and>
    sstable_reader_create [] (Some file) = Inr (Some r, []) \<and> sstable_reader_get [] (damaged r 24 7) (Some [97]) = Inr (KV_ERR_FILE, None, [])"
proof -
  have rows: "rows_of memtable_ab = [\<lparr>row_key = [97], row_value = [1, 2], row_seq = 2, row_deleted = False\<rparr>,
      \<lparr>row_key = [98], row_value = [], row_seq = 3, row_deleted = True\<rparr>]"
    by (simp add: memtable_ab_def rows_of_def row_of_def tombstone_def)
  have ok: "list_all row_ok (rows_of memtable_ab)" "rows_of memtable_ab \<noteq> []" "length (rows_of memtable_ab) \<le> 1024" "''t.sst'' \<noteq> []"
    "Suc (length (rows_of memtable_ab)) < 4" by (simp_all add: rows row_ok_def)
  have bl: "blocks_of (rows_of memtable_ab) = [] @ rows_of memtable_ab # []" by (simp add: rows blocks_of_def length_enc)
  have j: "0 < length (block_data (rows_of memtable_ab))" "block_data (rows_of memtable_ab) ! 0 \<noteq> 7" by (simp_all add: rows enc_def bytes_explicit)
  have "row_key (hd (rows_of memtable_ab)) = [97]" by (simp add: rows)
  with sstable_damage_detected[OF memtable_ab_inv(1) ok bl j, of SSTABLE_COMPRESSION_NONE] show ?thesis by auto
qed

definition big_entry :: "8 word \<Rightarrow> 64 word \<Rightarrow> lsm_memtable_entry" where
  "big_entry c n = \<lparr>ekey = [c], evalue = Some (replicate 1500 c), evalue_len = 1500, eseq = n, edeleted = False, etimestamp = 0\<rparr>"

definition big_memtable :: lsm_memtable where
  "big_memtable = \<lparr>mroot = RNode BLACK (RNode RED RNil (big_entry 97 1) RNil) (big_entry 98 2) (RNode RED RNil (big_entry 99 3) RNil),
     msize = 4767, max_size = 8192, mseq = 3, is_immutable = False,
     mstats = zero_stats\<lparr>total_entries := 3, active_entries := 3\<rparr>, mname = ''t'', creation_time = 0\<rparr>"

lemma big_memtable_map: "mt_map big_memtable = [[97] \<mapsto> big_entry 97 1, [98] \<mapsto> big_entry 98 2, [99] \<mapsto> big_entry 99 3]"
  by (auto simp: big_memtable_def mt_map_def kmap_def big_entry_def fun_eq_iff)

lemma big_memtable_inv: "memtable_inv big_memtable"
proof -
  have sum: "map_sum_of entry_bytes (mt_map big_memtable) = 4767"
    unfolding big_memtable_map by (simp add: map_sum_of_def entry_bytes_def big_entry_def)
  show ?thesis unfolding memtable_inv_def sum unfolding big_memtable_map
    by (auto simp: big_memtable_def rb_inv_def rbt_def ksorted_def big_entry_def entry_ok_def ran_def split: if_splits)
qed

theorem sstable_loses_rows_witness:
  "\<exists>file r. sstable_create_from_memtable 5 [] (Some big_memtable) (Some ''t.sst'') SSTABLE_COMPRESSION_NONE = Inr (KV_ERR_NONE, Some file, []) \<and>
    sstable_reader_create [] (Some file) = Inr (Some r, []) \<and> sstable_reader_get [] r (Some [98]) = Inr (KV_ERR_NOT_FOUND, None, [])"
proof -
  have rows: "rows_of big_memtable = map row_of [big_entry 97 1, big_entry 98 2, big_entry 99 3]" by (simp add: big_memtable_def rows_of_def)
  have enc: "length (enc (row_of (big_entry c n))) = 1518" "row_ok (row_of (big_entry c n))" "row_key (row_of (big_entry c n)) = [c]" for c n
    by (simp_all add: length_enc row_ok_def row_of_def big_entry_def)
  have "blocks_of (rows_of big_memtable) = [[row_of (big_entry 97 1), row_of (big_entry 98 2)], [row_of (big_entry 99 3)]]"
    by (simp add: rows blocks_of_def enc)
  from sstable_loses_rows[OF big_memtable_inv _ _ _ _ this, of "''t.sst''" 5 SSTABLE_COMPRESSION_NONE] show ?thesis by (simp add: rows enc)
qed

end
