(* ===== verification/Compaction.thy ===== *)
theory Compaction
  imports Memtable_Store SSTable_Props
begin

text \<open>
  The levels of table files and their scheduler, \<open>src/kvserver/lsm_compaction.c\<close>. The manager of the levels keeps for each of
  seven levels the files in the order they were added. A background thread takes tasks from a queue; the task of level 0 writes a frozen
  memtable to a file, registers the file and drops the memtable.

  Pointers to the description of a file and to a memtable are compared, so these are kept with an address, a number that is never used again. The
  disk is a list of paths with contents and modification times. Answers of the allocator and of lock initialisations come from one script;
  readings of the clock and the identity of the thread are arguments. A memtable given to a task is frozen; it is not
  freed when it leaves the manager, so the task keeps it by value.
\<close>

abbreviation (input) KV_ERR_OUT_OF_MEMORY :: int where "KV_ERR_OUT_OF_MEMORY \<equiv> 20"
abbreviation (input) KV_ERR_IO_ERROR :: int where "KV_ERR_IO_ERROR \<equiv> 21"
abbreviation (input) KV_ERR_NO_SPACE :: int where "KV_ERR_NO_SPACE \<equiv> 22"
abbreviation (input) KV_ERR_THREAD_ERROR :: int where "KV_ERR_THREAD_ERROR \<equiv> 23"
abbreviation (input) KV_ERR_NOT_IMPLEMENTED :: int where "KV_ERR_NOT_IMPLEMENTED \<equiv> 25"
abbreviation (input) LSM_MAX_LEVELS :: nat where "LSM_MAX_LEVELS \<equiv> 7"
abbreviation (input) LSM_LEVEL0_FILE_LIMIT :: nat where "LSM_LEVEL0_FILE_LIMIT \<equiv> 4"
abbreviation (input) LSM_LEVEL_SIZE_MULTIPLIER :: "64 word" where "LSM_LEVEL_SIZE_MULTIPLIER \<equiv> 10"
abbreviation (input) LSM_MAX_FILES_PER_LEVEL :: nat where "LSM_MAX_FILES_PER_LEVEL \<equiv> 100"
abbreviation (input) LSM_MAX_FILENAME :: nat where "LSM_MAX_FILENAME \<equiv> 256"

section \<open>The disk\<close>

record disk_file =
  df_mtime :: nat
  df_bytes :: bytes

type_synonym files = "(string \<times> disk_file) list"

fun store_file :: "string \<Rightarrow> disk_file \<Rightarrow> files \<Rightarrow> files" where
  "store_file p f [] = [(p, f)]"
| "store_file p f ((q, g) # fs) = (if q = p then (p, f) # fs else (q, g) # store_file p f fs)"

definition unlink :: "string \<Rightarrow> files \<Rightarrow> files" where
  "unlink p fs = filter (\<lambda>x. fst x \<noteq> p) fs"

definition contents :: "files \<Rightarrow> string \<Rightarrow> bytes option" where
  "contents fs p = map_option df_bytes (map_of fs p)"

section \<open>Types\<close>

datatype lsm_compaction_task_type =
  LSM_COMPACTION_TASK_NONE | LSM_COMPACTION_TASK_LEVEL0 | LSM_COMPACTION_TASK_LEVEL_N | LSM_COMPACTION_TASK_MAJOR | LSM_COMPACTION_TASK_MANUAL

datatype lsm_compaction_status =
  LSM_COMPACTION_STATUS_PENDING | LSM_COMPACTION_STATUS_RUNNING | LSM_COMPACTION_STATUS_COMPLETED | LSM_COMPACTION_STATUS_FAILED |
  LSM_COMPACTION_STATUS_CANCELLED

abbreviation (input) LSM_COMPACTION_PRIORITY_NORMAL :: nat where "LSM_COMPACTION_PRIORITY_NORMAL \<equiv> 1"
abbreviation (input) LSM_COMPACTION_PRIORITY_HIGH :: nat where "LSM_COMPACTION_PRIORITY_HIGH \<equiv> 2"
abbreviation (input) LSM_COMPACTION_PRIORITY_URGENT :: nat where "LSM_COMPACTION_PRIORITY_URGENT \<equiv> 3"

record lsm_sstable_meta =
  sm_filename :: string
  sm_file_id :: "64 word"
  sm_level :: int
  sm_file_size :: "64 word"
  sm_entry_count :: "64 word"
  sm_min_key :: "bytes option"
  sm_max_key :: "bytes option"
  sm_creation_time :: "64 word"
  sm_reader :: "sstable_reader option"

type_synonym meta_ref = "nat \<times> lsm_sstable_meta"

record lsm_level_manager =
  lv_levels :: "meta_ref list list"
  lv_size :: "64 word list"
  lv_next_file_id :: "64 word"
  lv_data_dir :: string
  lv_next :: nat

record lsm_compaction_task =
  tk_id :: "64 word"
  tk_type :: lsm_compaction_task_type
  tk_priority :: nat
  tk_status :: lsm_compaction_status
  tk_source_level :: int
  tk_target_level :: int
  tk_input_files :: "nat list option"
  tk_input_memtable :: "table_ref option"
  tk_output_files :: "nat list"
  tk_start_time :: "64 word"
  tk_end_time :: "64 word"
  tk_bytes_read :: "64 word"
  tk_bytes_written :: "64 word"
  tk_error_code :: int

record lsm_compaction_config =
  cc_level0_file_limit :: "64 word"
  cc_level_size_multiplier :: "64 word"
  cc_max_level_bytes :: "64 word list"
  cc_enable_background_compaction :: bool
  cc_background_thread_count :: nat
  cc_compression :: sstable_compression

record lsm_compaction_stats =
  cs_total_compactions :: "64 word"
  cs_level0_compactions :: "64 word"
  cs_level_n_compactions :: "64 word"
  cs_bytes_compacted :: "64 word"
  cs_bytes_written :: "64 word"
  cs_total_compaction_time :: "64 word"
  cs_pending_tasks :: "64 word"
  cs_running_tasks :: "64 word"
  cs_completed_tasks :: "64 word"
  cs_failed_tasks :: "64 word"

text \<open>The queue from its head; \<open>sc_worker_threads\<close> tells whether the array of threads is there.\<close>

record lsm_compaction_scheduler =
  sc_config :: lsm_compaction_config
  sc_queue :: "lsm_compaction_task list"
  sc_worker_threads :: bool
  sc_shutdown :: bool
  sc_stats :: lsm_compaction_stats
  sc_next_task_id :: "64 word"

text \<open>The scheduler and the two managers it points to.\<close>

record lsm_store =
  st_mem :: lsm_memtable_manager
  st_levels :: lsm_level_manager
  st_sched :: lsm_compaction_scheduler

section \<open>Keys and names\<close>

definition lsm_compaction_key_compare :: "bytes option \<Rightarrow> bytes option \<Rightarrow> int" where
  "lsm_compaction_key_compare key1 key2 =
     (case (key1, key2) of
        (Some k1, Some k2) \<Rightarrow>
          (let result = memcmp (min (length k1) (length k2)) k1 k2 in
           if result = 0 then (if length k1 < length k2 then - 1 else if length k1 > length k2 then 1 else 0) else result)
      | _ \<Rightarrow> if key1 \<noteq> None then 1 else if key2 \<noteq> None then - 1 else 0)"

definition print_int :: "int \<Rightarrow> string" where
  "print_int i = (if i < 0 then ''-'' else []) @ print_dec (nat \<bar>i\<bar>)"

definition hex_digit :: "nat \<Rightarrow> char" where
  "hex_digit d = (if d < 10 then digit d else char_of (87 + d))"

fun print_hex :: "nat \<Rightarrow> string" where
  "print_hex n = (if n < 16 then [hex_digit n] else print_hex (n div 16) @ [hex_digit (n mod 16)])"

declare print_hex.simps [simp del]

definition lsm_compaction_format_filename :: "nat \<Rightarrow> string option \<Rightarrow> int \<Rightarrow> 64 word \<Rightarrow> int \<times> string" where
  "lsm_compaction_format_filename buffer_size dir level file_id =
     (case dir of
        None \<Rightarrow> (KV_ERR_INVALID_PARAM, [])
      | Some d \<Rightarrow>
          (let s = d @ ''/level_'' @ print_int level @ ''_'' @ print_dec (unat file_id) @ ''.sst'' in
           if length s \<ge> buffer_size then (KV_ERR_INVALID_PARAM, take (buffer_size - 1) s) else (KV_ERR_NONE, s)))"

section \<open>Descriptions of files\<close>

definition lsm_sstable_meta_create :: "script \<Rightarrow> 64 word \<Rightarrow> string option \<Rightarrow> int \<Rightarrow> 64 word \<Rightarrow> lsm_sstable_meta option \<times> script" where
  "lsm_sstable_meta_create h now filename level file_id =
     (case filename of
        None \<Rightarrow> (None, h)
      | Some nm \<Rightarrow>
          if level < 0 \<or> level \<ge> int LSM_MAX_LEVELS then (None, h)
          else (let (ok, h1) = malloc h in
            (if ok then Some \<lparr>sm_filename = take (LSM_MAX_FILENAME - 1) nm, sm_file_id = file_id, sm_level = level, sm_file_size = 0,
                 sm_entry_count = 0, sm_min_key = None, sm_max_key = None, sm_creation_time = now, sm_reader = None\<rparr> else None, h1)))"

definition lsm_sstable_meta_load_from_file :: "script \<Rightarrow> files \<Rightarrow> lsm_sstable_meta \<Rightarrow> (int \<times> lsm_sstable_meta \<times> script) outcome" where
  "lsm_sstable_meta_load_from_file h fs meta =
     (case contents fs (sm_filename meta) of
        None \<Rightarrow> Inr (KV_ERR_IO_ERROR, meta, h)
      | Some bs \<Rightarrow>
          (let meta1 = meta\<lparr>sm_file_size := of_nat (length bs)\<rparr> in
           obind (sstable_reader_create h (Some bs)) (\<lambda>(reader_p, h1).
             (case reader_p of
                None \<Rightarrow> Inr (KV_ERR_IO_ERROR, meta1\<lparr>sm_reader := None\<rparr>, h1)
              | Some reader \<Rightarrow>
                  (case sstable_reader_get_stats reader of
                     (r, stats) \<Rightarrow>
                       if r \<noteq> KV_ERR_NONE then Inr (r, meta1\<lparr>sm_reader := None\<rparr>, h1)
                       else Inr (KV_ERR_NONE, meta1\<lparr>sm_reader := Some reader, sm_entry_count := ss_total_entries stats\<rparr>, h1))))))"

definition lsm_sstable_meta_contains_key :: "lsm_sstable_meta \<Rightarrow> bytes option \<Rightarrow> bool" where
  "lsm_sstable_meta_contains_key meta key_p =
     (if key_p = None \<or> sm_min_key meta = None \<or> sm_max_key meta = None then True
      else if lsm_compaction_key_compare key_p (sm_min_key meta) < 0 then False
      else if lsm_compaction_key_compare key_p (sm_max_key meta) > 0 then False
      else True)"

section \<open>Levels\<close>

definition lsm_level_manager_create :: "script \<Rightarrow> string option \<Rightarrow> lsm_level_manager option \<times> script" where
  "lsm_level_manager_create h data_dir =
     (case data_dir of
        None \<Rightarrow> (None, h)
      | Some d \<Rightarrow>
          (let (ok, h1) = all_ok (2 + LSM_MAX_LEVELS) h in
           (if ok then Some \<lparr>lv_levels = replicate LSM_MAX_LEVELS [], lv_size = replicate LSM_MAX_LEVELS 0, lv_next_file_id = 1,
                lv_data_dir = take (LSM_MAX_FILENAME - 1) d, lv_next = 0\<rparr> else None, h1)))"

definition level_ok :: "int \<Rightarrow> bool" where
  "level_ok level \<longleftrightarrow> 0 \<le> level \<and> level < int LSM_MAX_LEVELS"

definition lsm_level_manager_add_sstable :: "lsm_level_manager \<Rightarrow> int \<Rightarrow> meta_ref option \<Rightarrow> int \<times> lsm_level_manager" where
  "lsm_level_manager_add_sstable lv level meta_p =
     (case meta_p of
        None \<Rightarrow> (KV_ERR_INVALID_PARAM, lv)
      | Some x \<Rightarrow>
          if \<not> level_ok level then (KV_ERR_INVALID_PARAM, lv)
          else (let n = nat level; fl = lv_levels lv ! n in
            if length fl \<ge> LSM_MAX_FILES_PER_LEVEL then (KV_ERR_NO_SPACE, lv)
            else (KV_ERR_NONE, lv\<lparr>lv_levels := (lv_levels lv)[n := fl @ [x]],
                   lv_size := (lv_size lv)[n := lv_size lv ! n + sm_file_size (snd x)]\<rparr>)))"

fun drop_ref :: "nat \<Rightarrow> meta_ref list \<Rightarrow> meta_ref list option" where
  "drop_ref a [] = None"
| "drop_ref a (x # xs) = (if fst x = a then Some xs else map_option (Cons x) (drop_ref a xs))"

definition lsm_level_manager_remove_sstable :: "lsm_level_manager \<Rightarrow> int \<Rightarrow> meta_ref option \<Rightarrow> int \<times> lsm_level_manager" where
  "lsm_level_manager_remove_sstable lv level meta_p =
     (case meta_p of
        None \<Rightarrow> (KV_ERR_INVALID_PARAM, lv)
      | Some x \<Rightarrow>
          if \<not> level_ok level then (KV_ERR_INVALID_PARAM, lv)
          else (let n = nat level in
            (case drop_ref (fst x) (lv_levels lv ! n) of
               None \<Rightarrow> (KV_ERR_NOT_FOUND, lv)
             | Some fl \<Rightarrow> (KV_ERR_NONE, lv\<lparr>lv_levels := (lv_levels lv)[n := fl],
                   lv_size := (lv_size lv)[n := lv_size lv ! n - sm_file_size (snd x)]\<rparr>))))"

type_synonym found_row = "bytes option \<times> nat \<times> 64 word \<times> bool"

text \<open>
  One level, the file added first before the others. A reader that is not there is loaded first; a file that cannot be loaded or read is passed over.
\<close>

fun search_level :: "script \<Rightarrow> files \<Rightarrow> bytes \<Rightarrow> meta_ref list \<Rightarrow> (found_row option \<times> meta_ref list \<times> script) outcome" where
  "search_level h fs key [] = Inr (None, [], h)"
| "search_level h fs key ((a, meta) # xs) =
     (let skip = (\<lambda>meta1 h1. obind (search_level h1 fs key xs) (\<lambda>(res, ys, h2). Inr (res, (a, meta1) # ys, h2))) in
      if \<not> lsm_sstable_meta_contains_key meta (Some key) then skip meta h
      else obind (if sm_reader meta = None then lsm_sstable_meta_load_from_file h fs meta else Inr (KV_ERR_NONE, meta, h)) (\<lambda>(r, meta1, h1).
        if r \<noteq> KV_ERR_NONE then skip meta1 h1
        else (case sm_reader meta1 of
            None \<Rightarrow> Inl NullDeref
          | Some reader \<Rightarrow>
              obind (sstable_reader_may_contain reader (Some key)) (\<lambda>may.
                if \<not> may then skip meta1 h1
                else obind (sstable_reader_get h1 reader (Some key)) (\<lambda>(r1, res, h2).
                  if r1 = KV_ERR_NONE then Inr (res, (a, meta1) # xs, h2) else skip meta1 h2)))))"

fun search_levels :: "script \<Rightarrow> files \<Rightarrow> bytes \<Rightarrow> meta_ref list list \<Rightarrow> (found_row option \<times> meta_ref list list \<times> script) outcome" where
  "search_levels h fs key [] = Inr (None, [], h)"
| "search_levels h fs key (l # ls) =
     obind (search_level h fs key l) (\<lambda>(res, l1, h1).
       if res \<noteq> None then Inr (res, l1 # ls, h1)
       else obind (search_levels h1 fs key ls) (\<lambda>(res2, ls1, h2). Inr (res2, l1 # ls1, h2)))"

definition lsm_level_manager_get ::
  "script \<Rightarrow> files \<Rightarrow> lsm_level_manager \<Rightarrow> bytes option \<Rightarrow> (int \<times> found_row option \<times> lsm_level_manager \<times> script) outcome" where
  "lsm_level_manager_get h fs lv key_p =
     (case key_p of
        None \<Rightarrow> Inr (KV_ERR_INVALID_PARAM, None, lv, h)
      | Some key \<Rightarrow>
          obind (search_levels h fs key (lv_levels lv)) (\<lambda>(res, ls, h1).
            Inr (if res = None then KV_ERR_NOT_FOUND else KV_ERR_NONE, res, lv\<lparr>lv_levels := ls\<rparr>, h1)))"

definition lsm_level_manager_needs_compaction :: "lsm_level_manager \<Rightarrow> int \<Rightarrow> bool" where
  "lsm_level_manager_needs_compaction lv level =
     (if \<not> level_ok level then False
      else if level = 0 then length (lv_levels lv ! 0) \<ge> LSM_LEVEL0_FILE_LIMIT
      else lv_size lv ! nat level > 10 * 1024 * 1024 * LSM_LEVEL_SIZE_MULTIPLIER ^ (nat level - 1))"

definition lsm_level_manager_get_file_count :: "lsm_level_manager \<Rightarrow> int \<Rightarrow> int" where
  "lsm_level_manager_get_file_count lv level = (if level_ok level then int (length (lv_levels lv ! nat level)) else 0)"

section \<open>Tasks\<close>

definition lsm_compaction_task_create :: "script \<Rightarrow> lsm_compaction_task_type \<Rightarrow> nat \<Rightarrow> lsm_compaction_task option \<times> script" where
  "lsm_compaction_task_create h ty prio =
     (let (ok, h1) = all_ok 2 h in
      (if ok then Some \<lparr>tk_id = 0, tk_type = ty, tk_priority = prio, tk_status = LSM_COMPACTION_STATUS_PENDING, tk_source_level = - 1,
           tk_target_level = - 1, tk_input_files = None, tk_input_memtable = None, tk_output_files = [], tk_start_time = 0, tk_end_time = 0,
           tk_bytes_read = 0, tk_bytes_written = 0, tk_error_code = 0\<rparr> else None, h1))"

definition lsm_compaction_task_set_level0_params :: "lsm_compaction_task \<Rightarrow> table_ref option \<Rightarrow> int \<Rightarrow> int \<times> lsm_compaction_task" where
  "lsm_compaction_task_set_level0_params task memtable_p output_level =
     (if memtable_p = None \<or> \<not> level_ok output_level then (KV_ERR_INVALID_PARAM, task)
      else (KV_ERR_NONE, task\<lparr>tk_input_memtable := memtable_p, tk_source_level := - 1, tk_target_level := output_level,
             tk_type := LSM_COMPACTION_TASK_LEVEL0\<rparr>))"

definition lsm_compaction_task_set_level_n_params ::
  "script \<Rightarrow> lsm_compaction_task \<Rightarrow> int \<Rightarrow> int \<Rightarrow> nat list option \<Rightarrow> int \<times> lsm_compaction_task \<times> script" where
  "lsm_compaction_task_set_level_n_params h task source target input_files =
     (if input_files = None \<or> input_files = Some [] \<or> \<not> level_ok source \<or> \<not> level_ok target then (KV_ERR_INVALID_PARAM, task, h)
      else (let task1 = task\<lparr>tk_source_level := source, tk_target_level := target, tk_type := LSM_COMPACTION_TASK_LEVEL_N\<rparr>;
                (ok, h1) = malloc h in
        if \<not> ok then (KV_ERR_OUT_OF_MEMORY, task1\<lparr>tk_input_files := None\<rparr>, h1)
        else (KV_ERR_NONE, task1\<lparr>tk_input_files := input_files\<rparr>, h1)))"

section \<open>The scheduler\<close>

definition lsm_compaction_default_config :: lsm_compaction_config where
  "lsm_compaction_default_config = \<lparr>cc_level0_file_limit = of_nat LSM_LEVEL0_FILE_LIMIT, cc_level_size_multiplier = LSM_LEVEL_SIZE_MULTIPLIER,
     cc_max_level_bytes = map (\<lambda>i. 10 * 1024 * 1024 * LSM_LEVEL_SIZE_MULTIPLIER ^ i) [0..<LSM_MAX_LEVELS],
     cc_enable_background_compaction = True, cc_background_thread_count = 2, cc_compression = SSTABLE_COMPRESSION_NONE\<rparr>"

definition zero_compaction_stats :: lsm_compaction_stats where
  "zero_compaction_stats = \<lparr>cs_total_compactions = 0, cs_level0_compactions = 0, cs_level_n_compactions = 0, cs_bytes_compacted = 0, cs_bytes_written = 0,
     cs_total_compaction_time = 0, cs_pending_tasks = 0, cs_running_tasks = 0, cs_completed_tasks = 0, cs_failed_tasks = 0\<rparr>"

text \<open>One answer for the structure, four for the locks.\<close>

definition lsm_compaction_scheduler_create :: "script \<Rightarrow> lsm_compaction_config option \<Rightarrow> lsm_compaction_scheduler option \<times> script" where
  "lsm_compaction_scheduler_create h config =
     (let (ok, h1) = all_ok 5 h in
      (if ok then Some \<lparr>sc_config = (case config of Some cf \<Rightarrow> cf | None \<Rightarrow> lsm_compaction_default_config), sc_queue = [], sc_worker_threads = False,
           sc_shutdown = False, sc_stats = zero_compaction_stats, sc_next_task_id = 1\<rparr> else None, h1))"

text \<open>The script also answers the thread creations.\<close>

definition lsm_compaction_scheduler_start :: "script \<Rightarrow> lsm_compaction_scheduler \<Rightarrow> int \<times> lsm_compaction_scheduler \<times> script" where
  "lsm_compaction_scheduler_start h sc =
     (if sc_worker_threads sc then (KV_ERR_NONE, sc, h)
      else if \<not> cc_enable_background_compaction (sc_config sc) then (KV_ERR_NONE, sc\<lparr>sc_shutdown := False\<rparr>, h)
      else (let (ok, h1) = malloc h in
        if \<not> ok then (KV_ERR_OUT_OF_MEMORY, sc\<lparr>sc_shutdown := True\<rparr>, h1)
        else (let (started, h2) = all_ok (cc_background_thread_count (sc_config sc)) h1 in
          if started then (KV_ERR_NONE, sc\<lparr>sc_shutdown := False, sc_worker_threads := True\<rparr>, h2)
          else (KV_ERR_THREAD_ERROR, sc\<lparr>sc_shutdown := True, sc_worker_threads := False\<rparr>, h2))))"

definition lsm_compaction_scheduler_stop :: "lsm_compaction_scheduler \<Rightarrow> int \<times> lsm_compaction_scheduler" where
  "lsm_compaction_scheduler_stop sc =
     (KV_ERR_NONE, if sc_shutdown sc then sc else sc\<lparr>sc_shutdown := True, sc_worker_threads := False\<rparr>)"

fun insert_behind :: "lsm_compaction_task \<Rightarrow> lsm_compaction_task list \<Rightarrow> lsm_compaction_task list" where
  "insert_behind t [] = [t]"
| "insert_behind t (y # ys) = (if tk_priority y \<ge> tk_priority t then y # insert_behind t ys else t # y # ys)"

fun queue_insert :: "lsm_compaction_task \<Rightarrow> lsm_compaction_task list \<Rightarrow> lsm_compaction_task list" where
  "queue_insert t [] = [t]"
| "queue_insert t (x # xs) = (if tk_priority t > tk_priority x then t # x # xs else x # insert_behind t xs)"

definition lsm_compaction_scheduler_submit_task :: "lsm_compaction_scheduler \<Rightarrow> lsm_compaction_task option \<Rightarrow> int \<times> lsm_compaction_scheduler" where
  "lsm_compaction_scheduler_submit_task sc task_p =
     (case task_p of
        None \<Rightarrow> (KV_ERR_INVALID_PARAM, sc)
      | Some task \<Rightarrow>
          (KV_ERR_NONE, sc\<lparr>sc_next_task_id := sc_next_task_id sc + 1, sc_queue := queue_insert (task\<lparr>tk_id := sc_next_task_id sc\<rparr>) (sc_queue sc),
             sc_stats := (sc_stats sc)\<lparr>cs_pending_tasks := cs_pending_tasks (sc_stats sc) + 1\<rparr>\<rparr>))"

definition already_queued :: "nat \<Rightarrow> lsm_compaction_task list \<Rightarrow> bool" where
  "already_queued a q \<longleftrightarrow> list_ex (\<lambda>t. tk_type t = LSM_COMPACTION_TASK_LEVEL0 \<and> map_option fst (tk_input_memtable t) = Some a) q"

definition check_memtable :: "script \<Rightarrow> lsm_memtable_manager \<Rightarrow> lsm_compaction_scheduler \<Rightarrow> int \<times> lsm_compaction_scheduler \<times> script" where
  "check_memtable h mg sc =
     (if \<not> lsm_memtable_manager_should_flush mg then (KV_ERR_NONE, sc, h)
      else (case lsm_memtable_manager_get_oldest_immutable mg of
        None \<Rightarrow> (KV_ERR_NONE, sc, h)
      | Some memtable \<Rightarrow>
          if already_queued (fst memtable) (sc_queue sc) then (KV_ERR_NONE, sc, h)
          else (case lsm_compaction_task_create h LSM_COMPACTION_TASK_LEVEL0 LSM_COMPACTION_PRIORITY_HIGH of
              (None, h1) \<Rightarrow> (KV_ERR_OUT_OF_MEMORY, sc, h1)
            | (Some task, h1) \<Rightarrow>
                (case lsm_compaction_task_set_level0_params task (Some memtable) 0 of
                   (r, task1) \<Rightarrow>
                     if r \<noteq> KV_ERR_NONE then (r, sc, h1)
                     else (case lsm_compaction_scheduler_submit_task sc (Some task1) of (r1, sc1) \<Rightarrow> (r1, sc1, h1))))))"

fun check_levels :: "script \<Rightarrow> lsm_level_manager \<Rightarrow> nat list \<Rightarrow> lsm_compaction_scheduler \<Rightarrow> lsm_compaction_scheduler \<times> script" where
  "check_levels h lv [] sc = (sc, h)"
| "check_levels h lv (n # ns) sc =
     (if \<not> lsm_level_manager_needs_compaction lv (int n) then check_levels h lv ns sc
      else (case lsm_compaction_task_create h LSM_COMPACTION_TASK_LEVEL_N LSM_COMPACTION_PRIORITY_NORMAL of
          (None, h1) \<Rightarrow> check_levels h1 lv ns sc
        | (Some task, h1) \<Rightarrow>
            check_levels h1 lv ns (snd (lsm_compaction_scheduler_submit_task sc
              (Some (task\<lparr>tk_source_level := int n, tk_target_level := int n + 1\<rparr>))))))"

definition lsm_compaction_scheduler_trigger_check :: "script \<Rightarrow> lsm_store \<Rightarrow> int \<times> lsm_store \<times> script" where
  "lsm_compaction_scheduler_trigger_check h st =
     (case check_memtable h (st_mem st) (st_sched st) of
        (r, sc, h1) \<Rightarrow>
          if r \<noteq> KV_ERR_NONE then (r, st\<lparr>st_sched := sc\<rparr>, h1)
          else (case check_levels h1 (st_levels st) [0..<LSM_MAX_LEVELS - 1] sc of
              (sc1, h2) \<Rightarrow> (KV_ERR_NONE, st\<lparr>st_sched := sc1\<rparr>, h2)))"

definition lsm_compaction_scheduler_get_stats :: "lsm_compaction_scheduler \<Rightarrow> int \<times> lsm_compaction_stats" where
  "lsm_compaction_scheduler_get_stats sc = (KV_ERR_NONE, sc_stats sc)"

definition lsm_compaction_scheduler_manual_compact :: "script \<Rightarrow> lsm_store \<Rightarrow> int \<Rightarrow> int \<times> lsm_store \<times> script" where
  "lsm_compaction_scheduler_manual_compact h st level =
     (if \<not> level_ok level then (KV_ERR_INVALID_PARAM, st, h)
      else if \<not> lsm_level_manager_needs_compaction (st_levels st) level then (KV_ERR_NONE, st, h)
      else (case lsm_compaction_task_create h LSM_COMPACTION_TASK_MANUAL LSM_COMPACTION_PRIORITY_HIGH of
          (None, h1) \<Rightarrow> (KV_ERR_OUT_OF_MEMORY, st, h1)
        | (Some task, h1) \<Rightarrow>
            (case lsm_compaction_scheduler_submit_task (st_sched st) (Some (task\<lparr>tk_source_level := level, tk_target_level := level + 1\<rparr>)) of
               (r, sc) \<Rightarrow> (r, st\<lparr>st_sched := sc\<rparr>, h1))))"

section \<open>Execution\<close>

definition failed :: "int \<Rightarrow> lsm_compaction_task \<Rightarrow> lsm_compaction_task" where
  "failed r task = task\<lparr>tk_status := LSM_COMPACTION_STATUS_FAILED, tk_error_code := r\<rparr>"

definition finish_level0 :: "64 word \<Rightarrow> 64 word \<Rightarrow> lsm_compaction_task \<Rightarrow> lsm_compaction_scheduler \<Rightarrow> lsm_compaction_task \<times> lsm_compaction_scheduler" where
  "finish_level0 now written task sc =
     (let task1 = task\<lparr>tk_end_time := now, tk_status := LSM_COMPACTION_STATUS_COMPLETED, tk_bytes_written := written\<rparr>; s = sc_stats sc in
      (task1, sc\<lparr>sc_stats := s\<lparr>cs_total_compactions := cs_total_compactions s + 1, cs_level0_compactions := cs_level0_compactions s + 1,
         cs_bytes_written := cs_bytes_written s + written,
         cs_total_compaction_time := cs_total_compaction_time s + (tk_end_time task1 - tk_start_time task1),
         cs_completed_tasks := cs_completed_tasks s + 1\<rparr>\<rparr>))"

definition level_filename :: "string \<Rightarrow> int \<Rightarrow> 64 word \<Rightarrow> 64 word \<Rightarrow> 64 word \<Rightarrow> string" where
  "level_filename dir level file_id tid timestamp =
     take (LSM_MAX_FILENAME - 1) (dir @ ''/level_'' @ print_int level @ ''_'' @ print_dec (unat file_id) @ ''_'' @ print_hex (unat tid) @ ''_'' @
       print_dec (unat timestamp) @ ''.sst'')"

text \<open>
  The search for a name that is free: at most ten further attempts, and the tenth is a failure even if its name is free. \<open>clock\<close> is the reading of the
  clock at each attempt. The result is the number of the file and its name.
\<close>

fun unique_name ::
  "nat \<Rightarrow> files \<Rightarrow> 64 word \<Rightarrow> (nat \<Rightarrow> 64 word) \<Rightarrow> int \<Rightarrow> lsm_level_manager \<Rightarrow> 64 word \<times> string \<Rightarrow> (64 word \<times> string) option \<times> lsm_level_manager" where
  "unique_name n fs tid clock level lv (file_id, name) =
     (if contents fs name = None then (if n = 0 then None else Some (file_id, name), lv)
      else (case n of
          0 \<Rightarrow> (None, lv)
        | Suc m \<Rightarrow> unique_name m fs tid clock level (lv\<lparr>lv_next_file_id := lv_next_file_id lv + 1\<rparr>)
            (lv_next_file_id lv, level_filename (lv_data_dir lv) level (lv_next_file_id lv) tid (clock (11 - n)))))"

text \<open>Up to three attempts to write the file.\<close>

fun write_table ::
  "nat \<Rightarrow> nat \<Rightarrow> script \<Rightarrow> nat \<Rightarrow> files \<Rightarrow> lsm_memtable \<Rightarrow> string \<Rightarrow> sstable_compression \<Rightarrow> (int \<times> files \<times> script) outcome" where
  "write_table 0 fuel h mtime fs mt name compression = Inr (KV_ERR_NONE, fs, h)"
| "write_table (Suc n) fuel h mtime fs mt name compression =
     obind (sstable_create_from_memtable fuel h (Some mt) (Some name) compression) (\<lambda>(r, file_p, h1).
       (let fs1 = (case file_p of None \<Rightarrow> fs | Some bs \<Rightarrow> store_file name \<lparr>df_mtime = mtime, df_bytes = bs\<rparr> fs) in
        if r = KV_ERR_NONE \<or> n = 0 then Inr (r, fs1, h1) else write_table n fuel h1 mtime fs1 mt name compression))"

text \<open>The file has been written: it is described, opened, registered, and the memtable is dropped.\<close>

definition register_table ::
  "script \<Rightarrow> 64 word \<Rightarrow> 64 word \<Rightarrow> files \<Rightarrow> lsm_store \<Rightarrow> lsm_compaction_task \<Rightarrow> table_ref \<Rightarrow> 64 word \<Rightarrow> string \<Rightarrow>
     (int \<times> lsm_compaction_task \<times> lsm_store \<times> files \<times> script) outcome" where
  "register_table h now t_end fs st task memtable file_id name =
     (case lsm_sstable_meta_create h now (Some name) (tk_target_level task) file_id of
        (None, h1) \<Rightarrow> Inr (KV_ERR_OUT_OF_MEMORY, failed KV_ERR_OUT_OF_MEMORY task, st, unlink name fs, h1)
      | (Some meta, h1) \<Rightarrow>
          obind (lsm_sstable_meta_load_from_file h1 fs meta) (\<lambda>(r, meta1, h2).
            if r \<noteq> KV_ERR_NONE then Inr (r, failed r task, st, unlink name fs, h2)
            else (let a = lv_next (st_levels st) in
              (case lsm_level_manager_add_sstable (st_levels st) (tk_target_level task) (Some (a, meta1)) of
                 (r1, lv) \<Rightarrow>
                   if r1 \<noteq> KV_ERR_NONE then Inr (r1, failed r1 task, st, unlink name fs, h2)
                   else (let st1 = st\<lparr>st_levels := lv\<lparr>lv_next := a + 1\<rparr>\<rparr>; (ok, h3) = malloc h2 in
                     if \<not> ok then Inr (KV_ERR_OUT_OF_MEMORY, failed KV_ERR_OUT_OF_MEMORY task, st1, fs, h3)
                     else (case lsm_memtable_manager_remove_specific_immutable (st_mem st1) (Some (fst memtable)) of
                         (r2, mg) \<Rightarrow>
                           (case finish_level0 t_end (sm_file_size meta1) (task\<lparr>tk_output_files := [a]\<rparr>) (st_sched st1) of
                              (task1, sc) \<Rightarrow> Inr (KV_ERR_NONE, task1, st1\<lparr>st_mem := mg, st_sched := sc\<rparr>, fs, h3))))))))"

definition lsm_compaction_execute_level0 ::
  "nat \<Rightarrow> script \<Rightarrow> 64 word \<Rightarrow> (nat \<Rightarrow> 64 word) \<Rightarrow> 64 word \<Rightarrow> nat \<Rightarrow> files \<Rightarrow> lsm_store \<Rightarrow> lsm_compaction_task \<Rightarrow>
     (int \<times> lsm_compaction_task \<times> lsm_store \<times> files \<times> script) outcome" where
  "lsm_compaction_execute_level0 fuel h tid clock t_end mtime fs st task =
     (case tk_input_memtable task of
        None \<Rightarrow> Inr (KV_ERR_INVALID_PARAM, task, st, fs, h)
      | Some memtable \<Rightarrow>
          (let task1 = task\<lparr>tk_start_time := clock 0, tk_status := LSM_COMPACTION_STATUS_RUNNING\<rparr> in
           if lsm_memtable_count (snd memtable) = 0 then
             (case lsm_memtable_manager_remove_specific_immutable (st_mem st) (Some (fst memtable)) of
                (r, mg) \<Rightarrow>
                  if r = KV_ERR_NONE \<or> r = KV_ERR_NOT_FOUND then
                    (case finish_level0 t_end 0 task1 (st_sched st) of (task2, sc) \<Rightarrow> Inr (KV_ERR_NONE, task2, st\<lparr>st_mem := mg, st_sched := sc\<rparr>, fs, h))
                  else Inr (r, failed r task1, st\<lparr>st_mem := mg\<rparr>, fs, h))
           else (let lv = st_levels st; file_id = lv_next_file_id lv; level = tk_target_level task in
             (case unique_name 10 fs tid (\<lambda>i. clock (1 + i)) level (lv\<lparr>lv_next_file_id := file_id + 1\<rparr>)
                 (file_id, level_filename (lv_data_dir lv) level file_id tid (clock 1)) of
                (None, lv1) \<Rightarrow> Inr (KV_ERR_IO_ERROR, failed KV_ERR_IO_ERROR task1, st\<lparr>st_levels := lv1\<rparr>, fs, h)
              | (Some (file_id1, name), lv1) \<Rightarrow>
                  obind (write_table 3 fuel h mtime fs (snd memtable) name (cc_compression (sc_config (st_sched st)))) (\<lambda>(r, fs1, h1).
                    if r \<noteq> KV_ERR_NONE then Inr (r, failed r task1, st\<lparr>st_levels := lv1\<rparr>, fs1, h1)
                    else register_table h1 (clock 12) t_end fs1 (st\<lparr>st_levels := lv1\<rparr>) task1 memtable file_id1 name)))))"

definition lsm_compaction_execute_level_n ::
  "64 word \<Rightarrow> 64 word \<Rightarrow> lsm_store \<Rightarrow> lsm_compaction_task \<Rightarrow> int \<times> lsm_compaction_task \<times> lsm_store" where
  "lsm_compaction_execute_level_n t_start t_end st task =
     (if tk_input_files task = None \<or> tk_input_files task = Some [] then (KV_ERR_INVALID_PARAM, task, st)
      else (let s = sc_stats (st_sched st) in
        (KV_ERR_NONE, task\<lparr>tk_start_time := t_start, tk_end_time := t_end, tk_status := LSM_COMPACTION_STATUS_COMPLETED\<rparr>,
         st\<lparr>st_sched := (st_sched st)\<lparr>sc_stats := s\<lparr>cs_total_compactions := cs_total_compactions s + 1, cs_level_n_compactions := cs_level_n_compactions s + 1,
           cs_total_compaction_time := cs_total_compaction_time s + (t_end - t_start), cs_completed_tasks := cs_completed_tasks s + 1\<rparr>\<rparr>\<rparr>)))"

section \<open>The worker\<close>

text \<open>Without waiting: \<open>None\<close> is a time-out or the end of the service.\<close>

definition lsm_compaction_scheduler_get_next_task :: "lsm_compaction_scheduler \<Rightarrow> lsm_compaction_task option \<times> lsm_compaction_scheduler" where
  "lsm_compaction_scheduler_get_next_task sc =
     (if sc_shutdown sc then (None, sc)
      else (case sc_queue sc of [] \<Rightarrow> (None, sc) | task # q \<Rightarrow> (Some task, sc\<lparr>sc_queue := q\<rparr>)))"

definition lsm_compaction_scheduler_complete_task :: "lsm_compaction_scheduler \<Rightarrow> lsm_compaction_task \<Rightarrow> int \<Rightarrow> lsm_compaction_scheduler" where
  "lsm_compaction_scheduler_complete_task sc task result =
     (let s = (sc_stats sc)\<lparr>cs_running_tasks := cs_running_tasks (sc_stats sc) - 1\<rparr> in
      sc\<lparr>sc_stats := (if result \<noteq> KV_ERR_NONE then s\<lparr>cs_failed_tasks := cs_failed_tasks s + 1\<rparr>
        else s\<lparr>cs_completed_tasks := cs_completed_tasks s + 1, cs_total_compactions := cs_total_compactions s + 1,
          cs_level0_compactions := cs_level0_compactions s + (if tk_type task = LSM_COMPACTION_TASK_LEVEL0 then 1 else 0),
          cs_level_n_compactions := cs_level_n_compactions s + (if tk_type task = LSM_COMPACTION_TASK_LEVEL_N then 1 else 0),
          cs_bytes_compacted := cs_bytes_compacted s + tk_bytes_read task, cs_bytes_written := cs_bytes_written s + tk_bytes_written task,
          cs_total_compaction_time := cs_total_compaction_time s + (tk_end_time task - tk_start_time task)\<rparr>)\<rparr>)"

definition execute_task ::
  "nat \<Rightarrow> script \<Rightarrow> 64 word \<Rightarrow> (nat \<Rightarrow> 64 word) \<Rightarrow> 64 word \<Rightarrow> nat \<Rightarrow> files \<Rightarrow> lsm_store \<Rightarrow> lsm_compaction_task \<Rightarrow>
     (int \<times> lsm_compaction_task \<times> lsm_store \<times> files \<times> script) outcome" where
  "execute_task fuel h tid clock t_end mtime fs st task =
     (case tk_type task of
        LSM_COMPACTION_TASK_LEVEL0 \<Rightarrow> lsm_compaction_execute_level0 fuel h tid clock t_end mtime fs st task
      | LSM_COMPACTION_TASK_LEVEL_N \<Rightarrow> (case lsm_compaction_execute_level_n (clock 0) t_end st task of (r, task1, st1) \<Rightarrow> Inr (r, task1, st1, fs, h))
      | LSM_COMPACTION_TASK_MAJOR \<Rightarrow> Inr (KV_ERR_NOT_IMPLEMENTED, task, st, fs, h)
      | LSM_COMPACTION_TASK_MANUAL \<Rightarrow> Inr (KV_ERR_NOT_IMPLEMENTED, task, st, fs, h)
      | LSM_COMPACTION_TASK_NONE \<Rightarrow> Inr (KV_ERR_INVALID_PARAM, task, st, fs, h))"

text \<open>One round of the loop of a worker: the result of the task that was run.\<close>

definition compaction_worker_thread ::
  "nat \<Rightarrow> script \<Rightarrow> 64 word \<Rightarrow> (nat \<Rightarrow> 64 word) \<Rightarrow> 64 word \<Rightarrow> nat \<Rightarrow> files \<Rightarrow> lsm_store \<Rightarrow> (int option \<times> lsm_store \<times> files \<times> script) outcome" where
  "compaction_worker_thread fuel h tid clock t_end mtime fs st =
     (case lsm_compaction_scheduler_get_next_task (st_sched st) of
        (None, sc) \<Rightarrow> Inr (None, st, fs, h)
      | (Some task, sc) \<Rightarrow>
          (let s = sc_stats sc;
               st1 = st\<lparr>st_sched := sc\<lparr>sc_stats := s\<lparr>cs_running_tasks := cs_running_tasks s + 1, cs_pending_tasks := cs_pending_tasks s - 1\<rparr>\<rparr>\<rparr> in
           obind (execute_task fuel h tid clock t_end mtime fs st1 (task\<lparr>tk_start_time := clock 0, tk_status := LSM_COMPACTION_STATUS_RUNNING\<rparr>))
             (\<lambda>(r, task1, st2, fs1, h1).
               Inr (Some r, st2\<lparr>st_sched := lsm_compaction_scheduler_complete_task (st_sched st2) (task1\<lparr>tk_end_time := t_end\<rparr>) r\<rparr>, fs1, h1))))"

definition lsm_compaction_scheduler_check_worker_health :: "(nat \<Rightarrow> bool) \<Rightarrow> lsm_compaction_scheduler \<Rightarrow> nat" where
  "lsm_compaction_scheduler_check_worker_health alive sc =
     (if sc_worker_threads sc \<and> \<not> sc_shutdown sc then length (filter alive [0..<cc_background_thread_count (sc_config sc)]) else 0)"


end
