(* ===== verification/Compaction_Props.thy ===== *)
theory Compaction_Props
  imports Compaction "HOL-Library.Sublist"
begin

text \<open>
  What the levels answer, what a flush does to them, and what the scheduler never does: files are only ever added.
\<close>

section \<open>Reading the levels\<close>

definition table_reads :: "sstable_reader \<Rightarrow> row list \<Rightarrow> bool" where
  "table_reads r rows \<longleftrightarrow> (\<forall>k. k \<noteq> [] \<longrightarrow> sstable_reader_get [] r (Some k) = Inr (lookup_row k rows))"

definition meta_reads :: "meta_ref \<Rightarrow> row list \<Rightarrow> bool" where
  "meta_reads x rows \<longleftrightarrow> sm_min_key (snd x) = None \<and> (\<exists>r. sm_reader (snd x) = Some r \<and> table_reads r rows)"

text \<open>The rows of the files, file by file, level by level.\<close>

definition levels_read :: "lsm_level_manager \<Rightarrow> row list list list \<Rightarrow> bool" where
  "levels_read lv rss \<longleftrightarrow> list_all2 (list_all2 meta_reads) (lv_levels lv) rss"

abbreviation row_at :: "bytes \<Rightarrow> row list \<Rightarrow> row option" where
  "row_at k rows \<equiv> find (\<lambda>r. row_key r = k) rows"

lemma find_append: "find P (xs @ ys) = (case find P xs of None \<Rightarrow> find P ys | Some x \<Rightarrow> Some x)"
  by (induction xs) simp_all

lemma table_reads_may:
  assumes "table_reads r rows" "k \<noteq> []"
  obtains b where "sstable_reader_may_contain r (Some k) = Inr b" "b \<or> row_at k rows = None"
proof -
  have g: "sstable_reader_get [] r (Some k) = Inr (lookup_row k rows)" using assms by (simp add: table_reads_def)
  then obtain b where b: "sstable_bloom_filter_may_contain (sr_bloom_filter r) (Some k) = Inr b"
    using assms(2) by (auto simp: sstable_reader_get_def obind_Inr_iff)
  moreover have "b \<or> row_at k rows = None"
    using g b assms(2) by (auto simp: sstable_reader_get_def lookup_row_def split: option.splits if_splits)
  ultimately show ?thesis by (intro that[of b]) (simp_all add: sstable_reader_may_contain_def)
qed

lemma search_level_ok:
  "list_all2 meta_reads xs rs \<Longrightarrow> k \<noteq> [] \<Longrightarrow>
   search_level [] fs k xs = Inr (map_option row_result (row_at k (concat rs)), xs, [])"
proof (induction xs rs rule: list_all2_induct)
  case (Cons x xs rows rs)
  obtain a meta where x: "x = (a, meta)" by (cases x)
  from Cons.hyps(1) x obtain r where r: "sm_min_key meta = None" "sm_reader meta = Some r" "table_reads r rows" by (auto simp: meta_reads_def)
  obtain b where b: "sstable_reader_may_contain r (Some k) = Inr b" "b \<or> row_at k rows = None" by (rule table_reads_may[OF r(3) Cons.prems])
  have g: "sstable_reader_get [] r (Some k) = Inr (lookup_row k rows)" using r(3) Cons.prems by (simp add: table_reads_def)
  show ?case using r b g Cons.IH[OF Cons.prems]
    by (auto simp: x lsm_sstable_meta_contains_key_def find_append lookup_row_def split: option.splits)
qed simp

lemma search_levels_ok:
  "list_all2 (list_all2 meta_reads) ls rss \<Longrightarrow> k \<noteq> [] \<Longrightarrow>
   search_levels [] fs k ls = Inr (map_option row_result (row_at k (concat (concat rss))), ls, [])"
proof (induction ls rss rule: list_all2_induct)
  case (Cons l ls rs rss)
  note sl = search_level_ok[OF Cons.hyps(1) Cons.prems, of fs]
  show ?case
  proof (cases "row_at k (concat rs)")
    case None
    with sl Cons.IH[OF Cons.prems] show ?thesis by (simp add: find_append)
  next
    case (Some r)
    with sl show ?thesis by (cases "row_result r") (simp add: find_append)
  qed
qed simp

lemma level_get_ok:
  "levels_read lv rss \<Longrightarrow> k \<noteq> [] \<Longrightarrow> lsm_level_manager_get [] fs lv (Some k) =
     Inr (case row_at k (concat (concat rss)) of None \<Rightarrow> (KV_ERR_NOT_FOUND, None, lv, []) | Some r \<Rightarrow> (KV_ERR_NONE, Some (row_result r), lv, []))"
  using search_levels_ok[of "lv_levels lv" rss k fs] by (simp add: levels_read_def lsm_level_manager_get_def split: option.split)

section \<open>Flushing a memtable\<close>

lemma contents_store [simp]: "contents (store_file p f fs) q = (if q = p then Some (df_bytes f) else contents fs q)"
  by (induction p f fs rule: store_file.induct) (auto simp: contents_def)

lemma name_not_empty: "level_filename d l i t c \<noteq> []"
  by (simp add: level_filename_def)

lemma one_block:
  assumes "memtable_inv mt" "length (block_data (rows_of mt)) \<le> SSTABLE_BLOCK_SIZE"
  shows "list_all row_ok (rows_of mt)" "length (rows_of mt) \<le> 1024" "readable (blocks_of (rows_of mt)) = rows_of mt"
proof -
  have rb: "rb_inv kcmp ekey (mroot mt)" using assms(1) by (simp add: memtable_inv_def)
  have "\<forall>e\<in>set (inorder (mroot mt)). entry_ok e"
    using assms(1) memkey.in_inorder_iff[OF rb] memkey.kmap_key[of ekey "mroot mt"] by (fastforce simp: memtable_inv_def mt_map_def ran_def)
  then have keys: "\<forall>r\<in>set (rows_of mt). row_key r \<noteq> []" by (auto simp: rows_of_def row_of_def entry_ok_def)
  have sz: "length (enc r) \<le> length (block_data rows)" if "r \<in> set rows" for r rows using that by (induction rows) auto
  have len: "18 * length rows \<le> length (block_data rows)" if "\<forall>r\<in>set rows. row_key r \<noteq> []" for rows
    using that by (induction rows) (auto simp: length_enc neq_Nil_conv)
  show "list_all row_ok (rows_of mt)" using keys sz[of _ "rows_of mt"] assms(2) by (fastforce simp: list_all_iff row_ok_def length_enc)
  show "length (rows_of mt) \<le> 1024" using len[OF keys] assms(2) by auto
  have "blocks_of (rows_of mt) = [rows_of mt]" using pack_one_block[of "[]" "rows_of mt" "[]"] assms(2) by (simp add: blocks_of_def)
  then show "readable (blocks_of (rows_of mt)) = rows_of mt" by (simp add: readable_def)
qed

lemma flushed_reads:
  assumes "memtable_inv mt" "rows_of mt \<noteq> []" "length (block_data (rows_of mt)) \<le> SSTABLE_BLOCK_SIZE" "name \<noteq> []" "4098 < fuel"
  shows "\<exists>bs r. sstable_create_from_memtable fuel [] (Some mt) (Some name) cm = Inr (KV_ERR_NONE, Some bs, []) \<and>
    sstable_reader_create [] (Some bs) = Inr (Some r, []) \<and> table_reads r (rows_of mt)"
proof -
  note o = one_block[OF assms(1,3)]
  have "Suc (length (rows_of mt)) < fuel" using o(2) assms(5) by simp
  from flushed_table[OF assms(1) o(1) assms(2) o(2) assms(4) this, of cm] o(3) show ?thesis by (auto simp: table_reads_def)
qed

lemma write_table_ok:
  "sstable_create_from_memtable fuel [] (Some mt) (Some name) cm = Inr (KV_ERR_NONE, Some bs, []) \<Longrightarrow>
   write_table 3 fuel [] mtime fs mt name cm = Inr (KV_ERR_NONE, store_file name \<lparr>df_mtime = mtime, df_bytes = bs\<rparr> fs, [])"
  by (simp add: numeral_3_eq_3)

definition fresh_meta :: "64 word \<Rightarrow> string \<Rightarrow> 64 word \<Rightarrow> bytes \<Rightarrow> sstable_reader \<Rightarrow> lsm_sstable_meta" where
  "fresh_meta now name file_id bs r = \<lparr>sm_filename = name, sm_file_id = file_id, sm_level = 0, sm_file_size = of_nat (length bs),
     sm_entry_count = ss_total_entries (sr_stats r), sm_min_key = None, sm_max_key = None, sm_creation_time = now, sm_reader = Some r\<rparr>"

lemma register_table_ok:
  assumes lvl: "tk_target_level task = 0" and room: "length (lv_levels (st_levels st) ! 0) < 100"
    and imm: "mg_immutable (st_mem st) = (a, mt) # xs"
    and fs: "contents fs name = Some bs" "sstable_reader_create [] (Some bs) = Inr (Some r, [])" and name: "length name \<le> 255"
  shows "\<exists>task' st'. register_table [] now t_end fs st task (a, mt) file_id name = Inr (KV_ERR_NONE, task', st', fs, []) \<and>
    mg_active (st_mem st') = mg_active (st_mem st) \<and> mg_immutable (st_mem st') = xs \<and>
    st_levels st' = (st_levels st)\<lparr>lv_levels := (lv_levels (st_levels st))[0 := lv_levels (st_levels st) ! 0 @ [(lv_next (st_levels st), fresh_meta now name file_id bs r)]],
      lv_size := (lv_size (st_levels st))[0 := lv_size (st_levels st) ! 0 + of_nat (length bs)], lv_next := lv_next (st_levels st) + 1\<rparr> \<and>
    sc_queue (st_sched st') = sc_queue (st_sched st)"
proof -
  let ?m0 = "\<lparr>sm_filename = name, sm_file_id = file_id, sm_level = 0, sm_file_size = 0, sm_entry_count = 0, sm_min_key = None, sm_max_key = None,
     sm_creation_time = now, sm_reader = None\<rparr>"
  have c: "lsm_sstable_meta_create [] now (Some name) 0 file_id = (Some ?m0, [])" using name by (simp add: lsm_sstable_meta_create_def)
  have l: "lsm_sstable_meta_load_from_file [] fs ?m0 = Inr (KV_ERR_NONE, fresh_meta now name file_id bs r, [])"
    using fs by (simp add: lsm_sstable_meta_load_from_file_def sstable_reader_get_stats_def fresh_meta_def)
  have rm: "remove_immutable_memtable_at (st_mem st) 0 = (KV_ERR_NONE, (st_mem st)\<lparr>mg_immutable := xs\<rparr>)"
    using imm by (simp add: remove_immutable_memtable_at_def)
  show ?thesis using c l room imm rm lvl
    by (simp add: register_table_def lsm_level_manager_add_sstable_def level_ok_def Let_def lsm_memtable_manager_remove_specific_immutable_def
        finish_level0_def split: prod.split) (simp add: fresh_meta_def)
qed


lemma unique_name_free:
  "contents fs name = None \<Longrightarrow> 0 < n \<Longrightarrow> unique_name n fs tid clock level lv (file_id, name) = (Some (file_id, name), lv)"
  by (subst unique_name.simps) simp

lemma count_not_zero:
  assumes "memtable_inv mt" "rows_of mt \<noteq> []" "length (rows_of mt) \<le> 1024"
  shows "lsm_memtable_count mt \<noteq> 0"
proof -
  have l: "length (rows_of mt) = length (inorder (mroot mt))" by (simp add: rows_of_def)
  then have "length (inorder (mroot mt)) < 2 ^ 64" using assms(3) by simp
  then have "unat (of_nat (length (inorder (mroot mt))) :: 64 word) = length (inorder (mroot mt))" by (rule unat_small64)
  moreover have "length (inorder (mroot mt)) \<noteq> 0" using assms(2) l by (metis length_0_conv)
  ultimately have "(of_nat (length (inorder (mroot mt))) :: 64 word) \<noteq> 0" by (metis unat_0)
  with assms(1) show ?thesis by (simp add: memtable_inv_def lsm_memtable_count_def)
qed

text \<open>The conditions under which the oldest frozen table of a store can be written to level 0.\<close>

definition flush_ready :: "64 word \<Rightarrow> (nat \<Rightarrow> 64 word) \<Rightarrow> files \<Rightarrow> lsm_store \<Rightarrow> nat \<Rightarrow> lsm_memtable \<Rightarrow> bool" where
  "flush_ready tid clock fs st a mt \<longleftrightarrow> memtable_inv mt \<and> rows_of mt \<noteq> [] \<and> length (block_data (rows_of mt)) \<le> SSTABLE_BLOCK_SIZE \<and>
     (\<exists>xs. mg_immutable (st_mem st) = (a, mt) # xs) \<and> length (lv_levels (st_levels st) ! 0) < 100 \<and>
     contents fs (level_filename (lv_data_dir (st_levels st)) 0 (lv_next_file_id (st_levels st)) tid (clock 1)) = None"

lemma levels_read_add:
  assumes "levels_read lv (rs # rss)" "meta_reads x rows" "lv_levels lv' = (lv_levels lv)[0 := lv_levels lv ! 0 @ [x]]"
  shows "levels_read lv' ((rs @ [rows]) # rss)"
  using assms by (cases "lv_levels lv") (auto simp: levels_read_def intro: list_all2_appendI)

lemma execute_level0_ok:
  assumes ready: "flush_ready tid clock fs st a mt" and task: "tk_input_memtable task = Some (a, mt)" "tk_target_level task = 0"
    and rd: "levels_read (st_levels st) (rs # rss)" and fuel: "4098 < fuel"
  shows "\<exists>task' st' fs'. lsm_compaction_execute_level0 fuel [] tid clock t_end mtime fs st task = Inr (KV_ERR_NONE, task', st', fs', []) \<and>
    levels_read (st_levels st') ((rs @ [rows_of mt]) # rss) \<and> mg_active (st_mem st') = mg_active (st_mem st) \<and>
    mg_immutable (st_mem st) = (a, mt) # mg_immutable (st_mem st') \<and> sc_queue (st_sched st') = sc_queue (st_sched st)"
proof -
  let ?lv = "st_levels st"
  let ?name = "level_filename (lv_data_dir ?lv) 0 (lv_next_file_id ?lv) tid (clock 1)"
  let ?st = "st\<lparr>st_levels := ?lv\<lparr>lv_next_file_id := lv_next_file_id ?lv + 1\<rparr>\<rparr>"
  let ?task = "task\<lparr>tk_start_time := clock 0, tk_status := LSM_COMPACTION_STATUS_RUNNING\<rparr>"
  have m: "memtable_inv mt" "rows_of mt \<noteq> []" "length (block_data (rows_of mt)) \<le> SSTABLE_BLOCK_SIZE"
    "length (lv_levels ?lv ! 0) < 100" "contents fs ?name = None" using ready by (simp_all add: flush_ready_def)
  from ready obtain xs where imm: "mg_immutable (st_mem st) = (a, mt) # xs" by (auto simp: flush_ready_def)
  from flushed_reads[OF m(1-3) name_not_empty fuel, of "lv_data_dir ?lv" 0 "lv_next_file_id ?lv" tid "clock 1" "cc_compression (sc_config (st_sched st))"]
  obtain bs r where w: "sstable_create_from_memtable fuel [] (Some mt) (Some ?name) (cc_compression (sc_config (st_sched st))) = Inr (KV_ERR_NONE, Some bs, [])"
    "sstable_reader_create [] (Some bs) = Inr (Some r, [])" "table_reads r (rows_of mt)" by blast
  let ?fs = "store_file ?name \<lparr>df_mtime = mtime, df_bytes = bs\<rparr> fs"
  have "length ?name \<le> 255" by (simp add: level_filename_def)
  from register_table_ok[of ?task ?st a mt xs ?fs ?name bs r "clock 12" t_end "lv_next_file_id ?lv", OF _ _ _ _ w(2) this] task(2) m(4) imm obtain task' st' where
    reg: "register_table [] (clock 12) t_end ?fs ?st ?task (a, mt) (lv_next_file_id ?lv) ?name = Inr (KV_ERR_NONE, task', st', ?fs, [])"
    and st': "mg_active (st_mem st') = mg_active (st_mem st)" "mg_immutable (st_mem st') = xs" "sc_queue (st_sched st') = sc_queue (st_sched st)"
    and lv': "lv_levels (st_levels st') = (lv_levels ?lv)[0 := lv_levels ?lv ! 0 @ [(lv_next ?lv, fresh_meta (clock 12) ?name (lv_next_file_id ?lv) bs r)]]"
    by auto
  have "lsm_compaction_execute_level0 fuel [] tid clock t_end mtime fs st task = Inr (KV_ERR_NONE, task', st', ?fs, [])"
    using task reg count_not_zero[OF m(1,2) one_block(2)[OF m(1,3)]]
    by (simp add: lsm_compaction_execute_level0_def Let_def unique_name_free[OF m(5)] write_table_ok[OF w(1)] del: unique_name.simps write_table.simps One_nat_def)
  moreover have "meta_reads (lv_next ?lv, fresh_meta (clock 12) ?name (lv_next_file_id ?lv) bs r) (rows_of mt)"
    using w(3) by (simp add: meta_reads_def fresh_meta_def)
  from levels_read_add[OF rd this lv'] have "levels_read (st_levels st') ((rs @ [rows_of mt]) # rss)" .
  ultimately show ?thesis using st' imm by blast
qed

lemma worker_flush_ok:
  assumes ready: "flush_ready tid clock fs st a mt" and q: "sc_queue (st_sched st) = task # q" "\<not> sc_shutdown (st_sched st)"
    and task: "tk_type task = LSM_COMPACTION_TASK_LEVEL0" "tk_input_memtable task = Some (a, mt)" "tk_target_level task = 0"
    and rd: "levels_read (st_levels st) (rs # rss)" and fuel: "4098 < fuel"
  shows "\<exists>st' fs'. compaction_worker_thread fuel [] tid clock t_end mtime fs st = Inr (Some KV_ERR_NONE, st', fs', []) \<and>
    levels_read (st_levels st') ((rs @ [rows_of mt]) # rss) \<and> mg_active (st_mem st') = mg_active (st_mem st) \<and>
    mg_immutable (st_mem st) = (a, mt) # mg_immutable (st_mem st') \<and> sc_queue (st_sched st') = q"
proof -
  let ?s = "sc_stats (st_sched st)"
  let ?st = "st\<lparr>st_sched := (st_sched st)\<lparr>sc_queue := q, sc_stats := ?s\<lparr>cs_running_tasks := cs_running_tasks ?s + 1, cs_pending_tasks := cs_pending_tasks ?s - 1\<rparr>\<rparr>\<rparr>"
  let ?task = "task\<lparr>tk_start_time := clock 0, tk_status := LSM_COMPACTION_STATUS_RUNNING\<rparr>"
  have "flush_ready tid clock fs ?st a mt" using ready by (simp add: flush_ready_def)
  from execute_level0_ok[OF this, of ?task rs rss fuel t_end mtime] task(2,3) rd fuel obtain task' st' fs' where
    "lsm_compaction_execute_level0 fuel [] tid clock t_end mtime fs ?st ?task = Inr (KV_ERR_NONE, task', st', fs', [])"
    "levels_read (st_levels st') ((rs @ [rows_of mt]) # rss)" "mg_active (st_mem st') = mg_active (st_mem st)"
    "mg_immutable (st_mem st) = (a, mt) # mg_immutable (st_mem st')" "sc_queue (st_sched st') = q" by auto
  with q task(1) show ?thesis
    by (simp add: compaction_worker_thread_def lsm_compaction_scheduler_get_next_task_def execute_task_def Let_def lsm_compaction_scheduler_complete_task_def)
qed


section \<open>Files are only added\<close>

definition grown :: "lsm_level_manager \<Rightarrow> lsm_level_manager \<Rightarrow> bool" where
  "grown lv lv' \<longleftrightarrow> list_all2 prefix (map (map fst) (lv_levels lv)) (map (map fst) (lv_levels lv'))"

definition tasks_bare :: "lsm_compaction_scheduler \<Rightarrow> bool" where
  "tasks_bare sc \<longleftrightarrow> list_all (\<lambda>t. tk_input_files t = None) (sc_queue sc)"

lemma grown_refl [simp]: "grown lv lv"
  by (simp add: grown_def list_all2_refl)

lemma grown_same: "lv_levels lv' = lv_levels lv \<Longrightarrow> grown lv lv'"
  by (simp add: grown_def list_all2_refl)

lemma grown_upd [simp]:
  "grown lv (lv'\<lparr>lv_next := n\<rparr>) = grown lv lv'" "grown (lv\<lparr>lv_next_file_id := i\<rparr>) lv' = grown lv lv'" "grown lv (lv'\<lparr>lv_next_file_id := i\<rparr>) = grown lv lv'"
  by (simp_all add: grown_def)

lemma grown_trans: "grown a b \<Longrightarrow> grown b c \<Longrightarrow> grown a c"
  unfolding grown_def by (rule list_all2_trans[where ?P1.0 = prefix and ?P2.0 = prefix]) (auto intro: prefix_order.trans)

lemma grown_length: "grown lv lv' \<Longrightarrow> n < length (lv_levels lv) \<Longrightarrow> length (lv_levels lv ! n) \<le> length (lv_levels lv' ! n)"
  by (auto simp: grown_def list_all2_conv_all_nth dest!: spec[of _ n] prefix_length_le)

lemma add_sstable_grows: "lsm_level_manager_add_sstable lv level x = (r, lv') \<Longrightarrow> grown lv lv'"
  by (cases "nat level < length (lv_levels lv)")
    (auto simp: lsm_level_manager_add_sstable_def Let_def grown_def list_all2_conv_all_nth nth_list_update split: option.splits if_splits)

lemma queue_insert_set [simp]: "set (insert_behind t q) = insert t (set q)" "set (queue_insert t q) = insert t (set q)"
  by (induction q) auto

lemma submit_bare:
  "lsm_compaction_scheduler_submit_task sc (Some t) = (r, sc') \<Longrightarrow> tasks_bare sc \<Longrightarrow> tk_input_files t = None \<Longrightarrow> tasks_bare sc'"
  by (auto simp: lsm_compaction_scheduler_submit_task_def tasks_bare_def list_all_iff)

lemma task_create_bare: "lsm_compaction_task_create h ty p = (Some t, h') \<Longrightarrow> tk_input_files t = None"
  by (auto simp: lsm_compaction_task_create_def Let_def split: prod.splits if_splits)

lemma check_memtable_bare: "check_memtable h mg sc = (r, sc', h') \<Longrightarrow> tasks_bare sc \<Longrightarrow> tasks_bare sc'"
  by (auto simp: check_memtable_def lsm_compaction_task_set_level0_params_def level_ok_def dest!: task_create_bare submit_bare
      split: if_splits option.splits prod.splits)

lemma submit_levels_bare:
  "tasks_bare sc \<Longrightarrow> tk_input_files t = None \<Longrightarrow> tasks_bare (snd (lsm_compaction_scheduler_submit_task sc (Some t)))"
  by (rule submit_bare) (simp_all add: lsm_compaction_scheduler_submit_task_def)

lemma check_levels_bare: "tasks_bare sc \<Longrightarrow> tasks_bare (fst (check_levels h lv ns sc))"
proof (induction ns arbitrary: h sc)
  case (Cons n ns)
  obtain tp h1 where c: "lsm_compaction_task_create h LSM_COMPACTION_TASK_LEVEL_N LSM_COMPACTION_PRIORITY_NORMAL = (tp, h1)" by fastforce
  show ?case
  proof (cases tp)
    case (Some t)
    with c have "tk_input_files t = None" by (simp add: task_create_bare)
    then have "tasks_bare (snd (lsm_compaction_scheduler_submit_task sc (Some (t\<lparr>tk_source_level := int n, tk_target_level := int n + 1\<rparr>))))"
      by (intro submit_levels_bare[OF Cons.prems]) simp
    with Cons c Some show ?thesis by simp
  qed (use Cons c in simp)
qed simp

lemma trigger_keeps:
  assumes "lsm_compaction_scheduler_trigger_check h st = (r, st', h')"
  shows "st_levels st' = st_levels st" "st_mem st' = st_mem st" "tasks_bare (st_sched st) \<Longrightarrow> tasks_bare (st_sched st')"
  using assms by (auto simp: lsm_compaction_scheduler_trigger_check_def split: prod.splits if_splits dest!: check_memtable_bare)
    (metis check_levels_bare fst_conv)

lemma manual_keeps:
  assumes "lsm_compaction_scheduler_manual_compact h st level = (r, st', h')"
  shows "st_levels st' = st_levels st" "tasks_bare (st_sched st) \<Longrightarrow> tasks_bare (st_sched st')"
  using assms by (auto simp: lsm_compaction_scheduler_manual_compact_def split: prod.splits if_splits option.splits dest!: task_create_bare submit_bare)

lemma unique_name_levels: "unique_name n fs tid clock level lv x = (y, lv') \<Longrightarrow> lv_levels lv' = lv_levels lv"
proof (induction n arbitrary: lv x)
  case 0
  then show ?case by (cases x) (simp split: if_splits)
next
  case (Suc n)
  obtain i name where x: "x = (i, name)" by (cases x)
  note u = Suc.prems[unfolded x unique_name.simps[of "Suc n"]]
  show ?case
  proof (cases "contents fs name")
    case None
    with u show ?thesis by simp
  next
    case (Some bs)
    with u Suc.IH show ?thesis by (fastforce simp del: unique_name.simps)
  qed
qed

lemma finish_level0_queue: "finish_level0 now n task sc = (task', sc') \<Longrightarrow> sc_queue sc' = sc_queue sc"
  by (auto simp: finish_level0_def Let_def)

lemma register_table_grows:
  "register_table h now t_end fs st task m file_id name = Inr (r, task', st', fs', h') \<Longrightarrow>
   grown (st_levels st) (st_levels st') \<and> sc_queue (st_sched st') = sc_queue (st_sched st)"
  unfolding register_table_def
  by (auto simp: obind_Inr_iff Let_def split: option.splits prod.splits if_splits dest!: add_sstable_grows finish_level0_queue)

lemma execute_level0_grows:
  "lsm_compaction_execute_level0 fuel h tid clock t_end mtime fs st task = Inr (r, task', st', fs', h') \<Longrightarrow>
   grown (st_levels st) (st_levels st') \<and> sc_queue (st_sched st') = sc_queue (st_sched st)"
  unfolding lsm_compaction_execute_level0_def
  by (auto simp: obind_Inr_iff Let_def split: option.splits prod.splits if_splits
      dest!: register_table_grows finish_level0_queue unique_name_levels simp del: unique_name.simps write_table.simps)
    (auto simp: grown_def list_all2_refl)


lemma level_n_bare: "tk_input_files task = None \<Longrightarrow> lsm_compaction_execute_level_n t1 t2 st task = (KV_ERR_INVALID_PARAM, task, st)"
  by (simp add: lsm_compaction_execute_level_n_def)

lemma execute_task_grows:
  assumes "execute_task fuel h tid clock t_end mtime fs st task = Inr (r, task', st', fs', h')" "tk_input_files task = None"
  shows "grown (st_levels st) (st_levels st') \<and> sc_queue (st_sched st') = sc_queue (st_sched st)"
  using assms execute_level0_grows by (auto simp: execute_task_def level_n_bare split: lsm_compaction_task_type.splits)

lemma complete_task_queue [simp]: "sc_queue (lsm_compaction_scheduler_complete_task sc task r) = sc_queue sc"
  by (simp add: lsm_compaction_scheduler_complete_task_def Let_def)

lemma worker_grows:
  assumes "compaction_worker_thread fuel h tid clock t_end mtime fs st = Inr (r, st', fs', h')" "tasks_bare (st_sched st)"
  shows "grown (st_levels st) (st_levels st')" "tasks_bare (st_sched st')"
proof -
  have "grown (st_levels st) (st_levels st') \<and> tasks_bare (st_sched st')"
  proof (cases "lsm_compaction_scheduler_get_next_task (st_sched st)")
    case (Pair tp sc)
    show ?thesis
    proof (cases tp)
      case None
      with assms Pair show ?thesis by (simp add: compaction_worker_thread_def)
    next
      case (Some task)
      with Pair obtain q where q: "sc_queue (st_sched st) = task # q" "sc = (st_sched st)\<lparr>sc_queue := q\<rparr>"
        by (auto simp: lsm_compaction_scheduler_get_next_task_def split: if_splits list.splits)
      from assms(1) Pair Some obtain task1 st2 r1 where
        e: "execute_task fuel h tid clock t_end mtime fs
          (st\<lparr>st_sched := sc\<lparr>sc_stats := (sc_stats sc)\<lparr>cs_running_tasks := cs_running_tasks (sc_stats sc) + 1, cs_pending_tasks := cs_pending_tasks (sc_stats sc) - 1\<rparr>\<rparr>\<rparr>)
          (task\<lparr>tk_start_time := clock 0, tk_status := LSM_COMPACTION_STATUS_RUNNING\<rparr>) = Inr (r1, task1, st2, fs', h')"
        and st': "st' = st2\<lparr>st_sched := lsm_compaction_scheduler_complete_task (st_sched st2) (task1\<lparr>tk_end_time := t_end\<rparr>) r1\<rparr>"
        by (auto simp: compaction_worker_thread_def obind_Inr_iff Let_def)
      from execute_task_grows[OF e] assms(2) q st' show ?thesis by (simp add: tasks_bare_def)
    qed
  qed
  then show "grown (st_levels st) (st_levels st')" "tasks_bare (st_sched st')" by simp_all
qed

lemma search_level_refs: "search_level h fs k xs = Inr (res, ys, h') \<Longrightarrow> map fst ys = map fst xs"
proof (induction xs arbitrary: h res ys h')
  case (Cons x xs)
  obtain a meta where x: "x = (a, meta)" by (cases x)
  have rest: "map fst zs = map fst xs" if "search_level h1 fs k xs = Inr (r, zs, h2)" for h1 r zs h2 using Cons.IH[OF that] .
  from Cons.prems show ?case
    by (auto simp: x obind_Inr_iff Let_def split: if_splits option.splits prod.splits dest: rest)
qed simp

lemma search_levels_refs: "search_levels h fs k ls = Inr (res, ls', h') \<Longrightarrow> map (map fst) ls' = map (map fst) ls"
proof (induction ls arbitrary: h res ls' h')
  case (Cons l ls)
  then obtain res1 l1 h1 where l1: "search_level h fs k l = Inr (res1, l1, h1)"
    and rest: "(if res1 \<noteq> None then Inr (res1, l1 # ls, h1)
       else obind (search_levels h1 fs k ls) (\<lambda>(res2, ls1, h2). Inr (res2, l1 # ls1, h2))) = Inr (res, ls', h')"
    unfolding search_levels.simps obind_Inr_iff by (auto simp del: not_None_eq)
  show ?case
  proof (cases "res1 = None")
    case True
    with rest obtain ls1 h2 where "search_levels h1 fs k ls = Inr (res, ls1, h2)" "ls' = l1 # ls1" by (auto simp: obind_Inr_iff)
    with Cons.IH search_level_refs[OF l1] show ?thesis by simp
  next
    case False
    with rest search_level_refs[OF l1] show ?thesis by auto
  qed
qed simp

lemma level_get_grows: "lsm_level_manager_get h fs lv k = Inr (r, res, lv', h') \<Longrightarrow> grown lv lv'"
  by (auto simp: lsm_level_manager_get_def obind_Inr_iff grown_def list_all2_refl split: option.splits prod.splits dest!: search_levels_refs)

text \<open>What can happen to a store and its disk: the scheduler's checks, manual requests, rounds of the workers, reads of the levels, and anything in memory.\<close>

inductive cstep :: "lsm_store \<times> files \<Rightarrow> lsm_store \<times> files \<Rightarrow> bool" where
  trigger: "lsm_compaction_scheduler_trigger_check h st = (r, st', h') \<Longrightarrow> cstep (st, fs) (st', fs)"
| manual: "lsm_compaction_scheduler_manual_compact h st level = (r, st', h') \<Longrightarrow> cstep (st, fs) (st', fs)"
| worker: "compaction_worker_thread fuel h tid clock t_end mtime fs st = Inr (r, st', fs', h') \<Longrightarrow> cstep (st, fs) (st', fs')"
| lookup: "lsm_level_manager_get h fs (st_levels st) k = Inr (r, res, lv, h') \<Longrightarrow> cstep (st, fs) (st\<lparr>st_levels := lv\<rparr>, fs)"
| memory: "cstep (st, fs) (st\<lparr>st_mem := mg\<rparr>, fs)"

lemma cstep_grows:
  "cstep x y \<Longrightarrow> tasks_bare (st_sched (fst x)) \<Longrightarrow> grown (st_levels (fst x)) (st_levels (fst y)) \<and> tasks_bare (st_sched (fst y))"
proof (induction rule: cstep.induct)
  case (trigger h st r st' h' fs)
  with trigger_keeps[OF trigger(1)] show ?case by simp
next
  case (manual h st level r st' h' fs)
  with manual_keeps[OF manual(1)] show ?case by simp
next
  case (worker fuel h tid clock t_end mtime fs st r st' fs' h')
  with worker_grows[OF worker(1)] show ?case by simp
next
  case (lookup h fs st k r res lv h')
  with level_get_grows[OF lookup(1)] show ?case by simp
qed simp

lemma csteps_grow:
  "cstep\<^sup>*\<^sup>* x y \<Longrightarrow> tasks_bare (st_sched (fst x)) \<Longrightarrow> grown (st_levels (fst x)) (st_levels (fst y)) \<and> tasks_bare (st_sched (fst y))"
proof (induction rule: rtranclp_induct)
  case (step y z)
  then show ?case using cstep_grows[of y z] by (auto intro: grown_trans)
qed simp


lemma full_add: "100 \<le> length (lv_levels lv ! 0) \<Longrightarrow> lsm_level_manager_add_sstable lv 0 (Some x) = (KV_ERR_NO_SPACE, lv)"
  by (simp add: lsm_level_manager_add_sstable_def level_ok_def Let_def)

lemma register_full:
  assumes "register_table h now t_end fs st task m file_id name = Inr (r, task', st', fs', h')" "100 \<le> length (lv_levels (st_levels st) ! 0)" "tk_target_level task = 0"
  shows "r \<noteq> KV_ERR_NONE \<and> st_mem st' = st_mem st"
  using assms by (auto simp: register_table_def obind_Inr_iff full_add Let_def split: option.splits prod.splits if_splits)

lemma execute_full:
  assumes e: "lsm_compaction_execute_level0 fuel h tid clock t_end mtime fs st task = Inr (r, task', st', fs', h')" and full: "100 \<le> length (lv_levels (st_levels st) ! 0)"
    and t: "tk_target_level task = 0" "tk_input_memtable task = Some (a, mt)" "lsm_memtable_count mt \<noteq> 0"
  shows "r \<noteq> KV_ERR_NONE \<and> st_mem st' = st_mem st"
proof -
  let ?lv = "st_levels st"
  obtain np lv1 where u: "unique_name 10 fs tid (\<lambda>i. clock (1 + i)) 0 (?lv\<lparr>lv_next_file_id := lv_next_file_id ?lv + 1\<rparr>)
      (lv_next_file_id ?lv, level_filename (lv_data_dir ?lv) 0 (lv_next_file_id ?lv) tid (clock 1)) = (np, lv1)" by fastforce
  then have full1: "100 \<le> length (lv_levels lv1 ! 0)" using full unique_name_levels[OF u] by simp
  show ?thesis
  proof (cases np)
    case None
    with e t u show ?thesis by (auto simp: lsm_compaction_execute_level0_def Let_def simp del: unique_name.simps)
  next
    case (Some x)
    obtain fid name where x: "x = (fid, name)" by (cases x)
    from e t u Some x obtain r1 fs1 h1 where
      "(if r1 \<noteq> KV_ERR_NONE then Inr (r1, failed r1 (task\<lparr>tk_start_time := clock 0, tk_status := LSM_COMPACTION_STATUS_RUNNING\<rparr>), st\<lparr>st_levels := lv1\<rparr>, fs1, h1)
        else register_table h1 (clock 12) t_end fs1 (st\<lparr>st_levels := lv1\<rparr>) (task\<lparr>tk_start_time := clock 0, tk_status := LSM_COMPACTION_STATUS_RUNNING\<rparr>) (a, mt) fid name)
       = Inr (r, task', st', fs', h')"
      by (auto simp: lsm_compaction_execute_level0_def Let_def obind_Inr_iff simp del: unique_name.simps write_table.simps)
    then show ?thesis using full1 t(1) by (auto split: if_splits dest!: register_full)
  qed
qed

section \<open>Properties\<close>

definition level_answer :: "lsm_level_manager \<Rightarrow> row option \<Rightarrow> int \<times> found_row option \<times> lsm_level_manager \<times> script" where
  "level_answer lv x = (case x of None \<Rightarrow> (KV_ERR_NOT_FOUND, None, lv, []) | Some r \<Rightarrow> (KV_ERR_NONE, Some (row_result r), lv, []))"


text \<open>
  C27: Error. A newer file of level 0 is hidden by the older ones: when an older file has a row for a key, a flush of a memtable with a newer version of
  the key succeeds, the memtable is gone, and the read of the levels still answers the old row.
\<close>

theorem newer_file_hidden:
  assumes "flush_ready tid clock fs st a mt" "sc_queue (st_sched st) = task # q" "\<not> sc_shutdown (st_sched st)"
    and "tk_type task = LSM_COMPACTION_TASK_LEVEL0" "tk_input_memtable task = Some (a, mt)" "tk_target_level task = 0"
    and "levels_read (st_levels st) (rs # rss)" "4098 < fuel"
    and "k \<noteq> []" "row_at k (concat rs) = Some old" "mt_map mt k = Some e"
  shows "\<exists>st' fs'. compaction_worker_thread fuel [] tid clock t_end mtime fs st = Inr (Some KV_ERR_NONE, st', fs', []) \<and>
    versions (st_mem st) k = versions (st_mem st') k @ [(a, e)] \<and>
    lsm_level_manager_get [] fs' (st_levels st') (Some k) = Inr (KV_ERR_NONE, Some (row_result old), st_levels st', [])"
proof -
  from worker_flush_ok[OF assms(1-8), of t_end mtime] obtain st' fs' where
    w: "compaction_worker_thread fuel [] tid clock t_end mtime fs st = Inr (Some KV_ERR_NONE, st', fs', [])"
    and lv: "levels_read (st_levels st') ((rs @ [rows_of mt]) # rss)"
    and mem: "mg_active (st_mem st') = mg_active (st_mem st)" "mg_immutable (st_mem st) = (a, mt) # mg_immutable (st_mem st')" by blast
  have "versions (st_mem st) k = versions (st_mem st') k @ [(a, e)]"
    using mem assms(11) by (simp add: versions_def active_list_def frozen_versions_def)
  moreover have "lsm_level_manager_get [] fs' (st_levels st') (Some k) = Inr (KV_ERR_NONE, Some (row_result old), st_levels st', [])"
    using level_get_ok[OF lv assms(9)] assms(10) by (simp add: find_append)
  ultimately show ?thesis using w by blast
qed

text \<open>
  C25: Invariant. Compaction never merges: from a store without tasks on, in every sequence of checks, manual requests, rounds of the workers, reads
  and changes in memory, each level keeps its files in their order and only gets new ones behind them.
\<close>

theorem levels_only_grow:
  assumes "cstep\<^sup>*\<^sup>* (st, fs) (st', fs')" "sc_queue (st_sched st) = []"
  shows "list_all2 prefix (map (map fst) (lv_levels (st_levels st))) (map (map fst) (lv_levels (st_levels st')))"
proof -
  have "tasks_bare (st_sched st)" using assms(2) by (simp add: tasks_bare_def)
  with csteps_grow[OF assms(1)] show ?thesis by (simp add: grown_def)
qed

text \<open>
  C26: Error. Once level 0 has its 100 files, no later flush of a memtable with entries succeeds, and the memtable stays in memory.
\<close>

theorem full_level_blocks_flush:
  assumes "cstep\<^sup>*\<^sup>* (st, fs) (st', fs')" "sc_queue (st_sched st) = []" "lv_levels (st_levels st) \<noteq> []" "100 \<le> length (lv_levels (st_levels st) ! 0)"
    and "tk_type task = LSM_COMPACTION_TASK_LEVEL0" "tk_target_level task = 0" "tk_input_memtable task = Some (a, mt)" "lsm_memtable_count mt \<noteq> 0"
    and "execute_task fuel h tid clock t_end mtime fs' st' task = Inr (r, task', st'', fs'', h')"
  shows "r \<noteq> KV_ERR_NONE \<and> st_mem st'' = st_mem st'"
proof -
  have "tasks_bare (st_sched st)" using assms(2) by (simp add: tasks_bare_def)
  with csteps_grow[OF assms(1)] have "grown (st_levels st) (st_levels st')" by simp
  from grown_length[OF this, of 0] assms(3,4) have "100 \<le> length (lv_levels (st_levels st') ! 0)" by simp
  with execute_full[OF _ _ assms(6-8), of fuel h tid clock t_end mtime fs' st' r] assms(5,9) show ?thesis by (auto simp: execute_task_def)
qed


section \<open>Instances\<close>

definition small_table :: lsm_memtable where
  "small_table = \<lparr>mroot = RNode BLACK RNil \<lparr>ekey = [97], evalue = Some [9], evalue_len = 1, eseq = 7, edeleted = False, etimestamp = 0\<rparr> RNil,
     msize = 90, max_size = 8192, mseq = 7, is_immutable = True,
     mstats = zero_stats\<lparr>total_entries := 1, active_entries := 1\<rparr>, mname = ''t'', creation_time = 0\<rparr>"

lemma small_table_facts:
  "mt_map small_table = [[97] \<mapsto> \<lparr>ekey = [97], evalue = Some [9], evalue_len = 1, eseq = 7, edeleted = False, etimestamp = 0\<rparr>]"
  "memtable_inv small_table" "rows_of small_table = [\<lparr>row_key = [97], row_value = [9], row_seq = 7, row_deleted = False\<rparr>]"
proof -
  show m: "mt_map small_table = [[97] \<mapsto> \<lparr>ekey = [97], evalue = Some [9], evalue_len = 1, eseq = 7, edeleted = False, etimestamp = 0\<rparr>]"
    by (auto simp: small_table_def mt_map_def kmap_def fun_eq_iff)
  show "memtable_inv small_table" unfolding memtable_inv_def m
    by (auto simp: small_table_def rb_inv_def rbt_def ksorted_def entry_ok_def ran_def map_sum_of_def entry_bytes_def split: if_splits)
  show "rows_of small_table = [\<lparr>row_key = [97], row_value = [9], row_seq = 7, row_deleted = False\<rparr>]"
    by (simp add: small_table_def rows_of_def row_of_def)
qed

definition sample_task :: lsm_compaction_task where
  "sample_task = \<lparr>tk_id = 1, tk_type = LSM_COMPACTION_TASK_LEVEL0, tk_priority = LSM_COMPACTION_PRIORITY_HIGH, tk_status = LSM_COMPACTION_STATUS_PENDING,
     tk_source_level = - 1, tk_target_level = 0, tk_input_files = None, tk_input_memtable = Some (0, small_table), tk_output_files = [],
     tk_start_time = 0, tk_end_time = 0, tk_bytes_read = 0, tk_bytes_written = 0, tk_error_code = 0\<rparr>"

definition sample_store :: "meta_ref list \<Rightarrow> lsm_compaction_task list \<Rightarrow> lsm_store" where
  "sample_store files tasks = \<lparr>st_mem = \<lparr>mg_active = None, mg_immutable = [(0, small_table)], max_immutable_count = 1, mg_config = sample_mgr_config,
       global_seq_num = 1, mg_stats = zero_manager_stats, mg_name = ''m'', mg_creation_time = 0, mg_next = 1\<rparr>,
     st_levels = \<lparr>lv_levels = files # replicate 6 [], lv_size = replicate 7 0, lv_next_file_id = 1, lv_data_dir = ''d'', lv_next = 200\<rparr>,
     st_sched = \<lparr>sc_config = lsm_compaction_default_config, sc_queue = tasks, sc_worker_threads = True, sc_shutdown = False,
       sc_stats = zero_compaction_stats, sc_next_task_id = 2\<rparr>\<rparr>"

definition closed_meta :: lsm_sstable_meta where
  "closed_meta = \<lparr>sm_filename = ''x'', sm_file_id = 0, sm_level = 0, sm_file_size = 0, sm_entry_count = 0, sm_min_key = None, sm_max_key = None,
     sm_creation_time = 0, sm_reader = None\<rparr>"

lemma sample_store_ready:
  "length files < 100 \<Longrightarrow> flush_ready 1 (\<lambda>i. 5) [] (sample_store files tasks) 0 small_table"
  "list_all2 meta_reads files rs \<Longrightarrow> levels_read (st_levels (sample_store files tasks)) (rs # replicate 6 [])"
  using small_table_facts by (simp_all add: flush_ready_def sample_store_def length_enc contents_def levels_read_def numeral_eq_Suc)


theorem newer_file_hidden_witness:
  "\<exists>files st' fs'. compaction_worker_thread 5000 [] 1 (\<lambda>i. 5) 9 3 [] (sample_store files [sample_task]) = Inr (Some KV_ERR_NONE, st', fs', []) \<and>
    mt_map small_table [97] \<noteq> None \<and>
    lsm_level_manager_get [] fs' (st_levels st') (Some [97]) = Inr (KV_ERR_NONE, Some (Some [1, 2], 2, 2, False), st_levels st', [])"
proof -
  have rows: "rows_of memtable_ab = [\<lparr>row_key = [97], row_value = [1, 2], row_seq = 2, row_deleted = False\<rparr>,
      \<lparr>row_key = [98], row_value = [], row_seq = 3, row_deleted = True\<rparr>]"
    by (simp add: memtable_ab_def rows_of_def row_of_def tombstone_def)
  have "length (block_data (rows_of memtable_ab)) \<le> SSTABLE_BLOCK_SIZE" "rows_of memtable_ab \<noteq> []" by (simp_all add: rows length_enc)
  from flushed_reads[OF memtable_ab_inv(1) this(2,1), of "''x''" 5000 SSTABLE_COMPRESSION_NONE] obtain r where tr: "table_reads r (rows_of memtable_ab)" by auto
  let ?x = "(0, fresh_meta 0 ''x'' 0 [] r)"
  have "list_all2 meta_reads [?x] [rows_of memtable_ab]" using tr by (simp add: meta_reads_def fresh_meta_def)
  then have rd: "flush_ready 1 (\<lambda>i. 5) [] (sample_store [?x] [sample_task]) 0 small_table"
    "levels_read (st_levels (sample_store [?x] [sample_task])) ([rows_of memtable_ab] # replicate 6 [])"
    using sample_store_ready(1)[of "[?x]"] sample_store_ready(2)[of "[?x]"] by simp_all
  have q: "sc_queue (st_sched (sample_store [?x] [sample_task])) = [sample_task]" "\<not> sc_shutdown (st_sched (sample_store [?x] [sample_task]))"
    "tk_type sample_task = LSM_COMPACTION_TASK_LEVEL0" "tk_input_memtable sample_task = Some (0, small_table)" "tk_target_level sample_task = 0"
    by (simp_all add: sample_store_def sample_task_def)
  have old: "row_at [97] (concat [rows_of memtable_ab]) = Some \<lparr>row_key = [97], row_value = [1, 2], row_seq = 2, row_deleted = False\<rparr>" by (simp add: rows)
  from newer_file_hidden[OF rd(1) q rd(2) _ _ old, of 5000 _ 9 3] show ?thesis by (fastforce simp: small_table_facts row_result_def)
qed

theorem levels_only_grow_witness:
  "\<exists>st' fs'. cstep\<^sup>*\<^sup>* (sample_store [(7, closed_meta)] [], []) (st', fs') \<and>
    list_all2 prefix ([7] # replicate 6 []) (map (map fst) (lv_levels (st_levels st')))"
proof -
  let ?st = "sample_store [(7, closed_meta)] []"
  obtain r st' h' where t: "lsm_compaction_scheduler_trigger_check [] ?st = (r, st', h')" by (metis prod_cases3)
  then have s: "cstep\<^sup>*\<^sup>* (?st, []) (st', [])" by (intro r_into_rtranclp cstep.trigger)
  from levels_only_grow[OF s] s show ?thesis by (fastforce simp: sample_store_def)
qed

theorem full_level_blocks_flush_witness:
  "\<exists>r task' st'' fs'' h'. execute_task 5000 [] 1 (\<lambda>i. 5) 9 3 [] (sample_store (replicate 100 (7, closed_meta)) []) sample_task =
     Inr (r, task', st'', fs'', h') \<and> r \<noteq> KV_ERR_NONE \<and> mg_immutable (st_mem st'') = [(0, small_table)]"
proof -
  let ?st = "sample_store (replicate 100 (7, closed_meta)) []"
  let ?name = "level_filename ''d'' 0 1 1 5"
  have cnt: "lsm_memtable_count small_table \<noteq> 0" by (simp add: lsm_memtable_count_def small_table_def)
  have u: "unique_name 10 [] 1 (\<lambda>i. 5) 0 lv (fid, name) = (Some (fid, name), lv)" for lv fid name by (rule unique_name_free) (simp_all add: contents_def)
  have small: "rows_of small_table \<noteq> []" "length (block_data (rows_of small_table)) \<le> SSTABLE_BLOCK_SIZE" by (simp_all add: small_table_facts length_enc)
  from flushed_reads[OF small_table_facts(2) small name_not_empty, of 5000 "''d''" 0 1 1 5 SSTABLE_COMPRESSION_NONE] obtain bs r where
    w: "sstable_create_from_memtable 5000 [] (Some small_table) (Some ?name) SSTABLE_COMPRESSION_NONE = Inr (KV_ERR_NONE, Some bs, [])"
    "sstable_reader_create [] (Some bs) = Inr (Some r, [])" by auto
  have "length ?name \<le> 255" by (simp add: level_filename_def)
  then have "\<exists>x. register_table [] 5 9 (store_file ?name \<lparr>df_mtime = 3, df_bytes = bs\<rparr> []) st t (0, small_table) 1 ?name = Inr x"
    if "tk_target_level t = 0" "100 \<le> length (lv_levels (st_levels st) ! 0)" for st t
    using that w(2) by (simp add: register_table_def lsm_sstable_meta_create_def lsm_sstable_meta_load_from_file_def sstable_reader_get_stats_def full_add Let_def contents_def)
  then obtain r task' st'' fs'' h' where e: "execute_task 5000 [] 1 (\<lambda>i. 5) 9 3 [] ?st sample_task = Inr (r, task', st'', fs'', h')"
    using cnt by (fastforce simp: execute_task_def lsm_compaction_execute_level0_def Let_def sample_task_def sample_store_def u write_table_ok[OF w(1)]
        lsm_compaction_default_config_def simp del: unique_name.simps write_table.simps)
  have "r \<noteq> KV_ERR_NONE \<and> st_mem st'' = st_mem ?st"
    by (rule full_level_blocks_flush[OF rtranclp.rtrancl_refl _ _ _ _ _ _ cnt e]) (simp_all add: sample_store_def sample_task_def)
  with e show ?thesis by (fastforce simp: sample_store_def)
qed


end
