(* ===== verification/Spec2Isabelle.thy ===== *)
theory Spec2Isabelle
  imports Protocol RBT_Adapter Transaction Memtable Dist_Queue Dist_Commit BTree_Delete Shard_Store Cache_Props Memtable_Store Bloom_Serial Compaction_Props
begin

text \<open>
  ConcordKV, the C server under \<open>src/kvserver/\<close>: a verification library.

  \<^bold>\<open>The program.\<close> A key-value server with several storage engines. A client sends text lines; the server
  splits them and calls one of three engines (\<open>kvstore.c\<close>). The engines are a flat array, a red-black tree, a hash
  table whose crowded buckets are trees, and a B+-tree. A factory (\<open>kv_engine_factory.c\<close>) gives them one table of functions;
  the sharded engine (\<open>sharding/\<close>) distributes keys over many engines by a hash with a cache. Local
  transactions (\<open>kv_transaction.c\<close>) work on the red-black tree; the coordinator of \<open>kv_distributed_transaction.c\<close> runs
  two-phase commit over them. The memtable (\<open>lsm_memtable.c\<close>) is the write buffer of the LSM engine. The cache
  (\<open>kv_cache.c\<close>) keeps a bounded number of entries under one of six policies. Bloom filters
  (\<open>lsm_bloom_filter_optimized.c\<close>) tell for most absent keys that they are absent. Frozen memtables are written to
  immutable table files with an index, a Bloom filter and checksums (\<open>lsm_sstable.c\<close>), kept in levels by a background scheduler (\<open>lsm_compaction.c\<close>).

  \<^bold>\<open>Theories and sources.\<close>
  \<^item> \<open>Prelude\<close>: faults (\<open>fault\<close>, \<open>outcome\<close>), the allocator as a script of answers (\<open>script\<close>, \<open>malloc\<close>; the
    empty script is an allocator that always succeeds), pointers to strings (\<open>cptr\<close>), decimal printing, shared lemmas.
  \<^item> \<open>KV_Interface\<close>: the locale \<open>kv_engine\<close>, what an engine promises its clients: which calls it
    accepts, and that they act as updates of a finite map; runs of calls inside it.
  \<^item> \<open>Array_Engine\<close>: \<open>kvstore_array.c\<close>. \<open>RBT_Core\<close>, \<open>RBT_Engine\<close>: \<open>kvstore_rbtree.c\<close>, trees with a path to the root for the
    parent pointers. \<open>RBT_Adapter\<close>, \<open>Hash_Engine\<close>: \<open>rbtree_adapter.c\<close>, \<open>kvstore_hash.c\<close>.
  \<^item> \<open>BTree\<close> (definitions), \<open>BTree_Inv\<close> (invariant), \<open>BTree_Engine\<close> (search and insertion), \<open>BTree_Delete\<close>: \<open>kvstore_btree.c\<close>
    and \<open>btree_adapter.c\<close>.
  \<^item> \<open>Protocol\<close>: \<open>kvstore.c\<close>. \<open>Transaction\<close>: \<open>kv_transaction.c\<close>. \<open>Memtable\<close>: \<open>lsm_memtable.c\<close>.
  \<^item> \<open>Memtable_Manager\<close> (definitions), \<open>Memtable_Store\<close> (versions, runs): \<open>lsm_memtable_manager.c\<close>.
  \<^item> \<open>Dist_Txn\<close> (definitions), \<open>Dist_Queue\<close>, \<open>Dist_Commit\<close>: \<open>kv_distributed_transaction.c\<close>, also as the step relation \<open>dstep\<close> whose steps
    are the sections the code runs under one lock.
  \<^item> \<open>Engine_Factory\<close>, \<open>Engine_Contract\<close>: \<open>kv_engine_factory.c\<close> and \<open>kv_engine_interface.h\<close>.
  \<^item> \<open>Shard_Hash\<close>, \<open>Shard_Route\<close>: \<open>sharding/shard_hash.c\<close>. \<open>Shard_Engine\<close>, \<open>Shard_Store\<close>: \<open>sharding/shard_config.c\<close> and
    \<open>sharding/shard_aware_engine.c\<close>.
  \<^item> \<open>Cache\<close> (definitions), \<open>Cache_List\<close> (the doubly linked list), \<open>Cache_Inv\<close> (table and list over one heap), \<open>Cache_Refine\<close> (each
    operation against a list of entries), \<open>Cache_Props\<close> (runs): \<open>kv_cache.c\<close>.
  \<^item> \<open>Bloom_Hash\<close>, \<open>Bloom\<close> (definitions), \<open>Bloom_Props\<close> (membership, as the locale \<open>membership\<close>), \<open>Bloom_Create\<close> (parameters, creation, batches,
    removal), \<open>Bloom_Serial\<close>: \<open>lsm_bloom_filter_optimized.c\<close>.
  \<^item> \<open>SSTable\<close> (definitions; a file is its list of bytes), \<open>SSTable_CRC\<close> (the checksum), \<open>SSTable_Write\<close> (what the writer has written so
    far), \<open>SSTable_Read\<close> (opening, reading), \<open>SSTable_Props\<close> (flush and read, damage): \<open>lsm_sstable.c\<close>.
  \<^item> \<open>Compaction\<close> (definitions), \<open>Compaction_Props\<close> (reads of the levels, flushes, the step relation \<open>cstep\<close>): \<open>lsm_compaction.c\<close>.

  \<^bold>\<open>How state is modelled.\<close> A struct is a record with the fields the code reads; an engine's nodes are datatypes,
  where pointers that alias matter (freed nodes of a tree bucket, values handed out) there is a constructor for the dangling
  state, and reading it is a fault (\<open>Inl\<close>). Counters keep their width as words. Keys and values are C strings, as
  lists of characters. The clock, the random numbers and the network callback are arguments. Recursion is
  structural or has a termination proof. There are three fuels. That of \<open>put_kv_hashtable\<close>, which calls itself through
  \<open>_rehash\<close>: two levels are enough, since a call made by \<open>_rehash\<close> finds a table with room and does not resize again
  (shown as part of \<open>Hash_Engine\<close>). That of \<open>double_until\<close>, a loop over a 32-bit power of 2: after 33 rounds it has ended or the
  power is 0 and the C loop never ends; \<open>power_of_2_ok\<close> shows that it ends up to 2 to the 31. That
  of \<open>flush_loop\<close>, which runs the iterator of a memtable: two more than the entries are enough (\<open>flush_ok\<close>). The number of bits of a
  Bloom filter is computed with real logarithms instead of \<open>double\<close>.

  \<^bold>\<open>What is shown.\<close>
  \<^item> Every engine satisfies \<open>kv_engine\<close> (interpretations beside the engines, \<open>fac\<close> for the factory, \<open>sha\<close> for the sharded
    engine): with its invariant, calls do not fault, keep the invariant and refine a finite map; balance,
    order, counts and chains are part of the invariants.
  \<^item> Requests of the text protocol refine a specification of the fifteen commands.
  \<^item> Local transactions are atomic above read uncommitted; two-phase commit is safe under all interleavings of its
    threads, final, and live when every participant agrees.
  \<^item> The memtable keeps tombstones, monotone sequence numbers and sorted iteration. The manager keeps every version through rotations; its
    reads return the version with the largest number, which need not be the newest.
  \<^item> A cache with the LRU or FIFO policy refines a list in order of use, follows no freed pointer and stays within its
    limit; the lemmas on single operations hold for LFU and RANDOM too.
  \<^item> Routing is a function of the key and the number of shards whatever the cache has seen; the hash is Murmur3.
  \<^item> A Bloom filter has no false negatives, for each of its six types; batches equal single additions, removal undoes an addition,
    serialisation round-trips, the number of hashes fits the array on the stack.
  \<^item> A flushed memtable of one block reads back as the memtable. With more blocks exactly the first rows of the blocks and the last block
    are found. One damaged byte of the entries is never answered wrongly; the checksum is CRC-32.
  \<^item> A worker's round moves a frozen memtable to level 0. Levels answer the oldest file first, files are only ever added, and a full
    level 0 refuses every further flush.
  \<^item> Where the code departs from what it means to do, a theorem exhibits it: frees of live nodes in the hash table, lost
    modifications on rollback, an inverted test at the start of the sharded engine, races that overwrite
    an abort or cache a stale shard, among others.

  \<^bold>\<open>Not modelled.\<close> Network loops and coroutines (\<open>epoll_entry.c\<close>, \<open>NtyCo\<close>), file input and output (snapshots,
  write-ahead log and the controller of the LSM tree), metrics and anything in floating point, the memory pools behind \<open>kv_store_malloc\<close>, of
  which the engines see only success or failure, one-line forwards of \<open>kvstore.c\<close>, printing, stubs.
\<close>

end
